(* ===== verification/Go_Prelude.thy ===== *)
theory Go_Prelude
  imports Complex_Main "HOL-Library.Product_Lexorder" "HOL-Library.Multiset"
begin

text \<open>
  The part of the Go language and of its standard library the modelled packages use, and the
  lemmas every component shares.

  Strings are Go byte strings: a \<^typ>\<open>string\<close> is a list of 8-bit characters. The case and
  white-space functions of package \<open>strings\<close> are given on the ASCII range, which is the
  range of every keyword the modelled code compares with; a byte above 127 is neither a letter
  nor a space here.
  Go's \<open>int\<close> and \<open>int64\<close> are \<^typ>\<open>int\<close> with the two's-complement wrap
  (\<open>wrap64\<close>) written out wherever the code multiplies or adds values it has not bounded.
  A \<open>float64\<close> that is only stored and compared is a \<open>float64\<close> below: the exact rational of
  a finite value, the infinities and NaN with IEEE comparison. A \<open>time.Time\<close> is its instant in
  nanoseconds, an \<^typ>\<open>int\<close>.
\<close>

section \<open>Collections of facts\<close>

named_theorems go_string \<open>evaluation of the string functions\<close>
named_theorems go_clone \<open>deep copies are the identity on values\<close>

section \<open>Numbers\<close>

definition maxInt64 :: int where
  "maxInt64 = 9223372036854775807"

definition wrap64 :: "int \<Rightarrow> int" where
  "wrap64 x = (x + 9223372036854775808) mod 18446744073709551616 - 9223372036854775808"

definition in_int64 :: "int \<Rightarrow> bool" where
  "in_int64 x \<longleftrightarrow> - 9223372036854775808 \<le> x \<and> x \<le> 9223372036854775807"

lemma wrap64_id [simp]: "in_int64 x \<Longrightarrow> wrap64 x = x"
  by (simp add: wrap64_def in_int64_def)

lemma in_int64_wrap64 [simp]: "in_int64 (wrap64 x)"
proof -
  have "0 \<le> (x + 9223372036854775808) mod 18446744073709551616"
    by simp
  moreover have "(x + 9223372036854775808) mod 18446744073709551616 < 18446744073709551616"
    by simp
  ultimately show ?thesis
    unfolding in_int64_def wrap64_def by linarith
qed

text \<open>Go's integer division truncates towards zero.\<close>

definition go_div :: "int \<Rightarrow> int \<Rightarrow> int" where
  "go_div a b = sgn a * sgn b * (\<bar>a\<bar> div \<bar>b\<bar>)"

lemma go_div_nonneg [simp]: "0 \<le> a \<Longrightarrow> 0 < b \<Longrightarrow> go_div a b = a div b"
  by (cases "a = 0") (simp_all add: go_div_def)

datatype float64 = NaN | NegInf | PosInf | Finite rat

fun float_less :: "float64 \<Rightarrow> float64 \<Rightarrow> bool" where
  "float_less NaN y = False"
| "float_less x NaN = False"
| "float_less (Finite a) (Finite b) = (a < b)"
| "float_less NegInf y = (y \<noteq> NegInf)"
| "float_less x PosInf = (x \<noteq> PosInf)"
| "float_less x y = False"

section \<open>Strings\<close>

definition go_space :: "char \<Rightarrow> bool" where
  "go_space c \<longleftrightarrow> (9 \<le> (of_char c :: nat) \<and> (of_char c :: nat) \<le> 13) \<or> (of_char c :: nat) = 32"

definition lower_char :: "char \<Rightarrow> char" where
  "lower_char c = (if 65 \<le> (of_char c :: nat) \<and> (of_char c :: nat) \<le> 90 then char_of ((of_char c :: nat) + 32) else c)"

definition ToLower :: "string \<Rightarrow> string" where
  "ToLower s = map lower_char s"

definition TrimSpace :: "string \<Rightarrow> string" where
  "TrimSpace s = rev (dropWhile go_space (rev (dropWhile go_space s)))"

definition EqualFold :: "string \<Rightarrow> string \<Rightarrow> bool" where
  "EqualFold s t \<longleftrightarrow> ToLower s = ToLower t"

fun hasPrefix :: "string \<Rightarrow> string \<Rightarrow> bool" where
  "hasPrefix s [] = True"
| "hasPrefix [] (c # p) = False"
| "hasPrefix (a # s) (c # p) = (a = c \<and> hasPrefix s p)"

fun Contains :: "string \<Rightarrow> string \<Rightarrow> bool" where
  "Contains [] sub = (sub = [])"
| "Contains (c # s) sub = (hasPrefix (c # s) sub \<or> Contains s sub)"

text \<open>\<open>strings.Split(s, sep)\<close> for a one-byte separator: the empty string gives one empty part.\<close>

fun Split :: "string \<Rightarrow> char \<Rightarrow> string list" where
  "Split [] sep = [[]]"
| "Split (c # s) sep =
     (if c = sep then [] # Split s sep
      else (case Split s sep of [] \<Rightarrow> [[c]] | p # ps \<Rightarrow> (c # p) # ps))"

text \<open>The first result of \<open>strings.Cut(s, sep)\<close>: all of \<open>s\<close> when the separator is absent.\<close>

definition CutBefore :: "string \<Rightarrow> char \<Rightarrow> string" where
  "CutBefore s sep = takeWhile (\<lambda>c. c \<noteq> sep) s"

definition is_digit :: "char \<Rightarrow> bool" where
  "is_digit c \<longleftrightarrow> 48 \<le> (of_char c :: nat) \<and> (of_char c :: nat) \<le> 57"

definition digit_value :: "char \<Rightarrow> int" where
  "digit_value c = int (of_char c) - 48"

definition decimal_value :: "string \<Rightarrow> int" where
  "decimal_value s = foldl (\<lambda>acc c. acc * 10 + digit_value c) 0 s"

text \<open>\<open>strconv.ParseInt(s, 10, 64)\<close>: the error cases (syntax and range) are \<open>None\<close>.\<close>

definition ParseInt :: "string \<Rightarrow> int option" where
  "ParseInt s =
     (let neg = (s \<noteq> [] \<and> hd s = CHR ''-'');
          body = (if s \<noteq> [] \<and> (hd s = CHR ''-'' \<or> hd s = CHR ''+'') then tl s else s);
          v = (if neg then - decimal_value body else decimal_value body)
      in if body = [] \<or> \<not> list_all is_digit body \<or> \<not> in_int64 v then None else Some v)"

text \<open>\<open>strconv.Itoa\<close>.\<close>

fun nat_digits :: "nat \<Rightarrow> string" where
  "nat_digits n =
     (if n < 10 then [char_of (48 + n)] else nat_digits (n div 10) @ [char_of (48 + n mod 10)])"

declare nat_digits.simps [simp del]

definition Itoa :: "int \<Rightarrow> string" where
  "Itoa i = (if i < 0 then CHR ''-'' # nat_digits (nat (- i)) else nat_digits (nat i))"

lemma lower_char_idem [simp]: "lower_char (lower_char c) = lower_char c"
  by (auto simp: lower_char_def)

lemma ToLower_idem [simp]: "ToLower (ToLower s) = ToLower s"
  by (simp add: ToLower_def)

lemma ToLower_Nil_iff [simp]: "ToLower s = [] \<longleftrightarrow> s = []"
  by (simp add: ToLower_def)

lemma length_ToLower [simp]: "length (ToLower s) = length s"
  by (simp add: ToLower_def)

lemma of_char_lower:
  "(of_char (lower_char c) :: nat) = (if 65 \<le> (of_char c :: nat) \<and> (of_char c :: nat) \<le> 90 then of_char c + 32 else of_char c)"
  by (simp add: lower_char_def)

lemma go_space_lower [simp]: "go_space (lower_char c) = go_space c"
  by (auto simp: go_space_def of_char_lower)

lemma dropWhile_map_lower:
  "dropWhile go_space (map lower_char s) = map lower_char (dropWhile go_space s)"
  by (simp add: dropWhile_map comp_def)

lemma TrimSpace_ToLower: "TrimSpace (ToLower s) = ToLower (TrimSpace s)"
  by (simp add: TrimSpace_def ToLower_def dropWhile_map_lower rev_map)

lemma dropWhile_rev_keeps:
  assumes "dropWhile P xs = xs"
  shows "dropWhile P (rev (dropWhile P (rev xs))) = rev (dropWhile P (rev xs))"
proof (cases "rev (dropWhile P (rev xs))")
  case Nil
  then show ?thesis by (simp only: dropWhile.simps)
next
  case (Cons y ys)
  have "rev (takeWhile P (rev xs) @ dropWhile P (rev xs)) = xs"
    by simp
  then have "xs = (y # ys) @ rev (takeWhile P (rev xs))"
    using Cons by (metis rev_append)
  then have "hd xs = y" and "xs \<noteq> []"
    by (metis append_Cons list.sel(1), force)
  with assms have "\<not> P y"
    by (metis dropWhile_eq_self_iff)
  with Cons show ?thesis by simp
qed

lemma TrimSpace_idem [simp]: "TrimSpace (TrimSpace s) = TrimSpace s"
  unfolding TrimSpace_def by (simp add: dropWhile_rev_keeps)

lemma EqualFold_refl [simp]: "EqualFold s s"
  by (simp add: EqualFold_def)

lemma EqualFold_ToLower [simp]:
  "EqualFold (ToLower s) t = EqualFold s t" "EqualFold s (ToLower t) = EqualFold s t"
  by (simp_all add: EqualFold_def)

lemmas string_defs = ToLower_def TrimSpace_def lower_char_def go_space_def EqualFold_def

section \<open>Stable sorting with a comparison function\<close>

text \<open>
  \<open>sort.SliceStable(xs, lt)\<close>: the order of elements that the comparison does not separate is
  kept. \<open>insertStable\<close> is one insertion step: an element is placed before the first one it is
  less than or level with, going from the right end of the list to the left.
\<close>

fun insertStable :: "('a \<Rightarrow> 'a \<Rightarrow> bool) \<Rightarrow> 'a \<Rightarrow> 'a list \<Rightarrow> 'a list" where
  "insertStable lt x [] = [x]"
| "insertStable lt x (y # ys) = (if lt y x then y # insertStable lt x ys else x # y # ys)"

definition SliceStable :: "('a \<Rightarrow> 'a \<Rightarrow> bool) \<Rightarrow> 'a list \<Rightarrow> 'a list" where
  "SliceStable lt xs = foldr (insertStable lt) xs []"

lemma SliceStable_simps [simp]:
  "SliceStable lt [] = []"
  "SliceStable lt (x # xs) = insertStable lt x (SliceStable lt xs)"
  by (simp_all add: SliceStable_def)

lemma mset_insertStable [simp]: "mset (insertStable lt x xs) = add_mset x (mset xs)"
  by (induction xs) auto

lemma mset_SliceStable [simp]: "mset (SliceStable lt xs) = mset xs"
  by (induction xs) auto

lemma set_SliceStable [simp]: "set (SliceStable lt xs) = set xs"
  by (metis mset_SliceStable set_mset_mset)

lemma length_SliceStable [simp]: "length (SliceStable lt xs) = length xs"
  by (metis mset_SliceStable size_mset)

lemma distinct_SliceStable [simp]: "distinct (map f (SliceStable lt xs)) = distinct (map f xs)"
  by (metis mset_SliceStable mset_map mset_eq_imp_distinct_iff)

text \<open>
  The contract a caller of \<open>sort.SliceStable\<close> gives: the comparison is a strict weak order.
  Every comparison function of the modelled code is an instance below.
\<close>

locale slice_order =
  fixes lt :: "'a \<Rightarrow> 'a \<Rightarrow> bool"
  assumes lt_asym: "lt x y \<Longrightarrow> \<not> lt y x"
    and lt_incomp_trans: "\<not> lt x y \<Longrightarrow> \<not> lt y z \<Longrightarrow> \<not> lt x z"
begin

lemma sorted_insertStable:
  "sorted_wrt (\<lambda>a b. \<not> lt b a) xs \<Longrightarrow> sorted_wrt (\<lambda>a b. \<not> lt b a) (insertStable lt x xs)"
proof (induction xs)
  case (Cons y ys)
  show ?case
  proof (cases "lt y x")
    case True
    have "set (insertStable lt x ys) = insert x (set ys)"
      by (metis mset_insertStable set_mset_add_mset_insert set_mset_mset)
    with True Cons show ?thesis
      by (auto dest: lt_asym)
  next
    case False
    with Cons.prems show ?thesis
      by (auto dest: lt_incomp_trans [OF _ False])
  qed
qed simp

lemma sorted_SliceStable: "sorted_wrt (\<lambda>a b. \<not> lt b a) (SliceStable lt xs)"
  by (induction xs) (simp_all add: sorted_insertStable)

lemma insertStable_keeps_class:
  assumes "\<And>y. P y \<longleftrightarrow> \<not> lt y c \<and> \<not> lt c y"
  shows "filter P (insertStable lt x xs) = (if P x then x # filter P xs else filter P xs)"
proof (induction xs)
  case (Cons y ys)
  show ?case
  proof (cases "lt y x")
    case True
    then have "\<not> (P x \<and> P y)"
      using assms lt_incomp_trans by blast
    with True Cons show ?thesis by auto
  qed auto
qed simp

text \<open>Stability: the elements level with \<open>c\<close> keep their order.\<close>

lemma SliceStable_stable:
  "filter (\<lambda>y. \<not> lt y c \<and> \<not> lt c y) (SliceStable lt xs) = filter (\<lambda>y. \<not> lt y c \<and> \<not> lt c y) xs"
  by (induction xs) (simp_all add: insertStable_keeps_class [where c = c])

lemma hd_SliceStable_least:
  assumes "x \<in> set xs"
  shows "\<not> lt x (hd (SliceStable lt xs))"
proof (cases "SliceStable lt xs")
  case Nil
  then have "xs = []" by (metis length_0_conv length_SliceStable)
  with assms show ?thesis by simp
next
  case (Cons y ys)
  have "x \<in> set (y # ys)"
    using assms Cons by (metis set_SliceStable)
  moreover have "sorted_wrt (\<lambda>a b. \<not> lt b a) (y # ys)"
    using sorted_SliceStable Cons by metis
  ultimately show ?thesis
    using Cons lt_asym by auto
qed

end

text \<open>A comparison through a key into a linear order is such an order.\<close>

lemma slice_order_key: "slice_order (\<lambda>x y. (f x :: 'b :: linorder) < f y)"
  by unfold_locales auto

section \<open>Decimal numbers\<close>

lemma decimal_value_append: "decimal_value (s @ [c]) = decimal_value s * 10 + digit_value c"
  by (simp add: decimal_value_def)

lemma digit_char: "n < 10 \<Longrightarrow> is_digit (char_of (48 + n)) \<and> digit_value (char_of (48 + n)) = int n"
  by (simp add: is_digit_def digit_value_def of_char_of)

lemma nat_digits_value: "decimal_value (nat_digits n) = int n \<and> list_all is_digit (nat_digits n) \<and> nat_digits n \<noteq> []"
proof (induction n rule: nat_digits.induct)
  case (1 n)
  show ?case
  proof (cases "n < 10")
    case True
    then show ?thesis
      using digit_char [OF True] by (subst nat_digits.simps) (simp add: nat_digits.simps decimal_value_def)
  next
    case False
    have "n mod 10 < 10" by simp
    note digit = digit_char [OF this]
    have "decimal_value (nat_digits n) = int (n div 10) * 10 + int (n mod 10)"
      using 1 False digit by (subst nat_digits.simps) (simp add: decimal_value_append)
    also have "\<dots> = int n"
      by (metis div_mult_mod_eq of_nat_add of_nat_mult of_nat_numeral)
    moreover have "list_all is_digit (nat_digits n) \<and> nat_digits n \<noteq> []"
      using 1 False digit by (subst nat_digits.simps, subst (2) nat_digits.simps) simp
    ultimately show ?thesis by simp
  qed
qed

lemma ParseInt_Itoa: "in_int64 i \<Longrightarrow> ParseInt (Itoa i) = Some i"
proof -
  assume i: "in_int64 i"
  have head: "hd (nat_digits n) \<noteq> CHR ''-''" "hd (nat_digits n) \<noteq> CHR ''+''" for n
    using nat_digits_value [of n] by (cases "nat_digits n"; auto simp: is_digit_def)+
  show ?thesis
  proof (cases "i < 0")
    case True
    then show ?thesis
      using i nat_digits_value [of "nat (- i)"] by (simp add: ParseInt_def Itoa_def Let_def)
  next
    case False
    then show ?thesis
      using i nat_digits_value [of "nat i"] head [of "nat i"] by (simp add: ParseInt_def Itoa_def Let_def)
  qed
qed

lemma Itoa_inj: "in_int64 i \<Longrightarrow> in_int64 j \<Longrightarrow> Itoa i = Itoa j \<longleftrightarrow> i = j"
  by (metis ParseInt_Itoa option.inject)

section \<open>Invariants of transition systems\<close>

text \<open>
  A component with state: its start states, its steps, and an invariant that the start states
  have and every step keeps. Every reachable state has the invariant.
\<close>

locale transition_system =
  fixes start :: "'s \<Rightarrow> bool"
    and step :: "'s \<Rightarrow> 's \<Rightarrow> bool"
    and inv :: "'s \<Rightarrow> bool"
  assumes inv_start: "start s \<Longrightarrow> inv s"
    and inv_step: "inv s \<Longrightarrow> step s t \<Longrightarrow> inv t"
begin

lemma inv_steps: "step\<^sup>*\<^sup>* s t \<Longrightarrow> inv s \<Longrightarrow> inv t"
  by (induction rule: rtranclp_induct) (auto intro: inv_step)

lemma inv_reachable: "start s \<Longrightarrow> step\<^sup>*\<^sup>* s t \<Longrightarrow> inv t"
  using inv_steps inv_start by blast

end

section \<open>Lists\<close>

lemma distinct_append_new: "distinct xs \<Longrightarrow> x \<notin> set xs \<Longrightarrow> distinct (xs @ [x])"
  by simp

lemma find_Some_iff2: "find P xs = Some x \<Longrightarrow> P x \<and> x \<in> set xs"
  by (auto simp: find_Some_iff)

section \<open>Texts with separators\<close>

lemma Itoa_chars: "c \<in> set (Itoa i) \<Longrightarrow> is_digit c \<or> c = CHR ''-''"
  using nat_digits_value [of "nat \<bar>i\<bar>"] by (auto simp: Itoa_def list_all_iff split: if_splits)

lemma Itoa_no_separator [simp]: "CHR ''.'' \<notin> set (Itoa i)" "CHR ''|'' \<notin> set (Itoa i)"
  using Itoa_chars [of "CHR ''.''" i] Itoa_chars [of "CHR ''|''" i] by (auto simp: is_digit_def)

lemma separated_eq_iff:
  assumes "c \<notin> set a" "c \<notin> set b"
  shows "a @ c # s = b @ c # t \<longleftrightarrow> a = b \<and> s = t"
proof
  assume eq: "a @ c # s = b @ c # t"
  have "\<forall>x \<in> set a. x \<noteq> c" "\<forall>x \<in> set b. x \<noteq> c"
    using assms by blast+
  then have "takeWhile (\<lambda>x. x \<noteq> c) (a @ c # s) = a" "takeWhile (\<lambda>x. x \<noteq> c) (b @ c # t) = b"
    by (simp_all add: takeWhile_append)
  with eq show "a = b \<and> s = t" by auto
qed simp

text \<open>A number followed by an extension determines the number.\<close>

lemma Itoa_extension:
  assumes "Itoa i @ s = Itoa j @ t" "s = [] \<or> hd s = CHR ''.''" "t = [] \<or> hd t = CHR ''.''"
  shows "Itoa i = Itoa j"
proof -
  have "takeWhile (\<lambda>x. x \<noteq> CHR ''.'') (Itoa i @ s) = Itoa i" if "s = [] \<or> hd s = CHR ''.''" for i s
    using that by (cases s) (auto simp: takeWhile_append takeWhile_eq_all_conv)
  with assms show ?thesis by metis
qed

lemma Itoa_injective: "Itoa i = Itoa j \<longleftrightarrow> i = j"
proof
  assume eq: "Itoa i = Itoa j"
  have no_minus: "nat_digits n \<noteq> CHR ''-'' # s" for n s
    using nat_digits_value [of n] by (auto simp: is_digit_def)
  have same: "m = n" if "nat_digits m = nat_digits n" for m n
    using arg_cong [OF that, of decimal_value] nat_digits_value [of m] nat_digits_value [of n] by simp
  show "i = j"
    using eq no_minus no_minus [symmetric] same
    by (cases "i < 0"; cases "j < 0") (auto simp: Itoa_def dest!: same)
qed simp

lemma separated_last_eq_iff:
  assumes "c \<notin> set s" "c \<notin> set t"
  shows "a @ c # s = b @ c # t \<longleftrightarrow> a = b \<and> s = t"
proof -
  have "rev (a @ c # s) = rev (b @ c # t) \<longleftrightarrow> a = b \<and> s = t"
    using separated_eq_iff [of c "rev s" "rev t" "rev a" "rev b"] assms by auto
  then show ?thesis
    by (simp only: rev_is_rev_conv)
qed

lemma hasPrefix_iff: "hasPrefix s p \<longleftrightarrow> (\<exists>t. s = p @ t)"
  by (induction s p rule: hasPrefix.induct) auto

end
