(* ===== verification/Playback_Model.thy ===== *)
theory Playback_Model
  imports Go_Prelude
begin

text \<open>
  The data of package \<open>playback\<close> (\<open>server/internal/playback/model.go\<close>), struct by struct, and
  the deep copies of \<open>source_store.go\<close>. A pointer that may be nil is an option; a nil and an empty
  slice are the same list; a string map is an association list with distinct keys. The zero value
  \<open>T{}\<close> of a struct is the constant \<open>zeroT\<close>.
\<close>

section \<open>Errors\<close>

datatype playback_error =
    ErrActiveProfileRequired | ErrInvalidInput | ErrForbidden | ErrNoPlayableSource
  | ErrUnsupportedSource | ErrTranscodingDisabled | ErrClientCapabilityMissing
  | ErrSessionNotFound | ErrProviderUnavailable | ErrSourceReferenceExpired
  | ErrMediaSourceFailed | ErrMediaSourceTimeout | ErrMediaCapacityReached | ErrMediaStorageLimit
  | ErrOther string
  | ErrJoin "playback_error list"

text \<open>
  \<open>errors.Is(err, target)\<close>: the error itself, what it wraps (\<open>ErrMediaSourceTimeout\<close> wraps
  \<open>ErrMediaSourceFailed\<close>) and every member of a joined error.
\<close>

fun errorIs :: "playback_error \<Rightarrow> playback_error \<Rightarrow> bool" where
  "errorIs (ErrJoin es) target = (ErrJoin es = target \<or> list_ex (\<lambda>e. errorIs e target) es)"
| "errorIs ErrMediaSourceTimeout target = (target = ErrMediaSourceTimeout \<or> target = ErrMediaSourceFailed)"
| "errorIs e target = (e = target)"

section \<open>What a client can play\<close>

record MediaProfile =
  mp_Container :: string
  mp_VideoCodec :: string
  mp_AudioCodec :: string
  mp_MaximumVideoBitDepth :: int
  mp_ContainersCSV :: string
  mp_AudioCodecsCSV :: string
  mp_DirectPlay :: bool
  mp_Transcoding :: bool
  mp_SupportsNonDolbyVisionHDR :: bool
  mp_MaximumVideoLevel :: int
  mp_VideoLevelRequired :: bool
  mp_ExcludedVideoRange :: string
  mp_VideoRangeRequired :: bool
  mp_RequiredConditionUnknown :: bool

record ProfileCondition =
  pc_Condition :: string
  pc_Property :: string
  pc_Value :: string
  pc_Required :: bool

record ContainerProfile =
  cp_ContainersCSV :: string
  cp_Conditions :: "ProfileCondition list"

record TranscodeCapabilities =
  tc_HardwareAcceleration :: string
  tc_DecodeCodecs :: "string list"
  tc_EncodeCodecs :: "string list"
  tc_HEVCMain10 :: bool
  tc_PreferredVideoCodec :: string
  tc_QualityPreset :: string

record Capabilities =
  cap_StreamingProtocols :: "string list"
  cap_Containers :: "string list"
  cap_VideoCodecs :: "string list"
  cap_AudioCodecs :: "string list"
  cap_HDRFormats :: "string list"
  cap_ExternalPlayers :: "string list"
  cap_ProcessingModes :: "string list"
  cap_MediaProfiles :: "MediaProfile list"
  cap_ContainerProfiles :: "ContainerProfile list"
  cap_HLSSegmentContainer :: string
  cap_MaximumVideoBitrateKbps :: int
  cap_MaximumAudioChannels :: int
  cap_SubtitleModes :: "string list"
  cap_MaximumHeight :: int
  cap_PreferDirectPlay :: "bool option"
  cap_TranscodeVideoBitrateKbps :: int
  cap_ToneMapMaximumHeight :: int
  cap_AllowDirectPassthrough :: bool
  cap_transcodeCapabilities :: TranscodeCapabilities
  cap_toneMapBackend :: string

section \<open>What a probe reports\<close>

record MediaTrack =
  mt_Index :: int
  mt_Type :: string
  mt_Codec :: string
  mt_Profile :: string
  mt_Level :: int
  mt_VideoRangeType :: string
  mt_Language :: string
  mt_Title :: string
  mt_Forced :: bool
  mt_Default :: bool
  mt_Width :: int
  mt_Height :: int
  mt_Channels :: int
  mt_BitrateKbps :: int
  mt_PixelFormat :: string
  mt_BitDepth :: int
  mt_FrameRate :: float64
  mt_ColorRange :: string
  mt_ColorSpace :: string
  mt_ColorTransfer :: string
  mt_ColorPrimaries :: string
  mt_ChannelLayout :: string
  mt_SampleRate :: int
  mt_DolbyVisionProfile :: int
  mt_DolbyVisionLevel :: int
  mt_DolbyVisionRPUPresent :: bool
  mt_DolbyVisionELPresent :: bool
  mt_DolbyVisionBLPresent :: bool
  mt_DolbyVisionCompatibilityID :: int

record MediaInspection =
  mi_Container :: string
  mi_DurationSeconds :: float64
  mi_HDRFormat :: string
  mi_BitrateKbps :: int
  mi_SizeBytes :: int
  mi_VideoTracks :: "MediaTrack list"
  mi_AudioTracks :: "MediaTrack list"
  mi_SubtitleTracks :: "MediaTrack list"

section \<open>The decision\<close>

record PlaybackDecisionSource =
  ps_Container :: string
  ps_VideoCodec :: string
  ps_AudioCodec :: string
  ps_Height :: int
  ps_VideoBitrateKbps :: int
  ps_HDRFormat :: string
  ps_DolbyVisionProfile :: int
  ps_DolbyVisionBLPresent :: bool
  ps_DolbyVisionCompatibilityID :: int

record PlaybackDecisionTarget =
  pt_Protocol :: string
  pt_Container :: string
  pt_VideoCodec :: string
  pt_AudioCodec :: string
  pt_Height :: int
  pt_VideoBitDepth :: int
  pt_VideoBitrateKbps :: int

record PlaybackPipeline =
  pp_HardwareAcceleration :: string
  pp_Decoder :: string
  pp_Encoder :: string
  pp_ToneMapBackend :: string
  pp_ZeroCopy :: bool

record PlaybackDecision =
  pd_Reason :: string
  pd_Reasons :: "string list"
  pd_VideoAction :: string
  pd_AudioAction :: string
  pd_SubtitleAction :: string
  pd_ToneMapping :: bool
  pd_Source :: "PlaybackDecisionSource option"
  pd_Target :: "PlaybackDecisionTarget option"
  pd_Pipeline :: "PlaybackPipeline option"

section \<open>Sources, subtitles and stored assets\<close>

record Source =
  src_ID :: string
  src_AddonID :: string
  src_ManifestID :: string
  src_AddonName :: string
  src_Name :: string
  src_Title :: string
  src_Description :: string
  src_Hint :: string
  src_Filename :: string
  src_StreamIndex :: int
  src_Mode :: string
  src_URL :: string
  src_YTID :: string
  src_InfoHash :: string
  src_FileIndex :: "int option"
  src_Protocol :: string
  src_Container :: string
  src_MediaTimeline :: string
  src_Compatible :: bool
  src_Media :: "MediaInspection option"
  src_Decision :: "PlaybackDecision option"

record Subtitle =
  sub_ID :: string
  sub_AddonID :: string
  sub_ManifestID :: string
  sub_Language :: string
  sub_URL :: string
  sub_Delivery :: string
  sub_Forced :: bool
  sub_Default :: bool

record ProviderFailure =
  pf_AddonID :: string
  pf_ManifestID :: string
  pf_Code :: string
  pf_Message :: string

record storedAsset =
  sa_ID :: string
  sa_Kind :: string
  sa_URL :: string
  sa_Container :: string
  sa_HLSSegmentContainer :: string
  sa_Headers :: "(string \<times> string) list"
  sa_ToneMap :: bool
  sa_AudioTrackIndex :: "int option"
  sa_SubtitleTrackIndex :: "int option"
  sa_SubtitleTrackType :: string
  sa_SubtitleTrackOrdinal :: int
  sa_DurationSeconds :: float64
  sa_Decision :: "PlaybackDecision option"
  sa_TargetHeight :: int
  sa_VideoBitDepth :: int
  sa_VideoBitrateKbps :: int
  sa_MaximumAudioChannels :: int
  sa_TargetVideoCodec :: string
  sa_QualityPreset :: string
  sa_StartSeconds :: float64
  sa_DolbyVisionToneMapSafe :: bool
  sa_ReadRate :: float64

record ResolveInput =
  ri_SourceRef :: string
  ri_TitleID :: string
  ri_PreferredAudioTrack :: "int option"
  ri_PreferredSubtitleID :: string
  ri_StartSeconds :: float64
  ri_ExternalPlayer :: bool
  ri_PreferredAudioLanguage :: string
  ri_PreferredSubtitleLanguage :: string
  ri_PreferredForcedSubtitleLanguage :: string
  ri_Capabilities :: Capabilities
  ri_AllowTranscoding :: bool
  ri_MaximumHeight :: int

section \<open>Zero values\<close>

definition zeroTranscodeCapabilities :: TranscodeCapabilities where
  "zeroTranscodeCapabilities = \<lparr>tc_HardwareAcceleration = [], tc_DecodeCodecs = [], tc_EncodeCodecs = [],
     tc_HEVCMain10 = False, tc_PreferredVideoCodec = [], tc_QualityPreset = []\<rparr>"

definition zeroMediaProfile :: MediaProfile where
  "zeroMediaProfile = \<lparr>mp_Container = [], mp_VideoCodec = [], mp_AudioCodec = [], mp_MaximumVideoBitDepth = 0,
     mp_ContainersCSV = [], mp_AudioCodecsCSV = [], mp_DirectPlay = False, mp_Transcoding = False,
     mp_SupportsNonDolbyVisionHDR = False, mp_MaximumVideoLevel = 0, mp_VideoLevelRequired = False,
     mp_ExcludedVideoRange = [], mp_VideoRangeRequired = False, mp_RequiredConditionUnknown = False\<rparr>"

definition zeroCapabilities :: Capabilities where
  "zeroCapabilities = \<lparr>cap_StreamingProtocols = [], cap_Containers = [], cap_VideoCodecs = [],
     cap_AudioCodecs = [], cap_HDRFormats = [], cap_ExternalPlayers = [], cap_ProcessingModes = [],
     cap_MediaProfiles = [], cap_ContainerProfiles = [], cap_HLSSegmentContainer = [],
     cap_MaximumVideoBitrateKbps = 0, cap_MaximumAudioChannels = 0, cap_SubtitleModes = [],
     cap_MaximumHeight = 0, cap_PreferDirectPlay = None, cap_TranscodeVideoBitrateKbps = 0,
     cap_ToneMapMaximumHeight = 0, cap_AllowDirectPassthrough = False,
     cap_transcodeCapabilities = zeroTranscodeCapabilities, cap_toneMapBackend = []\<rparr>"

definition zeroMediaTrack :: MediaTrack where
  "zeroMediaTrack = \<lparr>mt_Index = 0, mt_Type = [], mt_Codec = [], mt_Profile = [], mt_Level = 0,
     mt_VideoRangeType = [], mt_Language = [], mt_Title = [], mt_Forced = False, mt_Default = False,
     mt_Width = 0, mt_Height = 0, mt_Channels = 0, mt_BitrateKbps = 0, mt_PixelFormat = [],
     mt_BitDepth = 0, mt_FrameRate = Finite 0, mt_ColorRange = [], mt_ColorSpace = [],
     mt_ColorTransfer = [], mt_ColorPrimaries = [], mt_ChannelLayout = [], mt_SampleRate = 0,
     mt_DolbyVisionProfile = 0, mt_DolbyVisionLevel = 0, mt_DolbyVisionRPUPresent = False,
     mt_DolbyVisionELPresent = False, mt_DolbyVisionBLPresent = False,
     mt_DolbyVisionCompatibilityID = 0\<rparr>"

definition zeroMediaInspection :: MediaInspection where
  "zeroMediaInspection = \<lparr>mi_Container = [], mi_DurationSeconds = Finite 0, mi_HDRFormat = [],
     mi_BitrateKbps = 0, mi_SizeBytes = 0, mi_VideoTracks = [], mi_AudioTracks = [], mi_SubtitleTracks = []\<rparr>"

definition zeroDecisionSource :: PlaybackDecisionSource where
  "zeroDecisionSource = \<lparr>ps_Container = [], ps_VideoCodec = [], ps_AudioCodec = [], ps_Height = 0,
     ps_VideoBitrateKbps = 0, ps_HDRFormat = [], ps_DolbyVisionProfile = 0,
     ps_DolbyVisionBLPresent = False, ps_DolbyVisionCompatibilityID = 0\<rparr>"

definition zeroDecisionTarget :: PlaybackDecisionTarget where
  "zeroDecisionTarget = \<lparr>pt_Protocol = [], pt_Container = [], pt_VideoCodec = [], pt_AudioCodec = [],
     pt_Height = 0, pt_VideoBitDepth = 0, pt_VideoBitrateKbps = 0\<rparr>"

definition zeroSource :: Source where
  "zeroSource = \<lparr>src_ID = [], src_AddonID = [], src_ManifestID = [], src_AddonName = [], src_Name = [],
     src_Title = [], src_Description = [], src_Hint = [], src_Filename = [], src_StreamIndex = 0,
     src_Mode = [], src_URL = [], src_YTID = [], src_InfoHash = [], src_FileIndex = None,
     src_Protocol = [], src_Container = [], src_MediaTimeline = [], src_Compatible = False,
     src_Media = None, src_Decision = None\<rparr>"

definition zeroSubtitle :: Subtitle where
  "zeroSubtitle = \<lparr>sub_ID = [], sub_AddonID = [], sub_ManifestID = [], sub_Language = [], sub_URL = [],
     sub_Delivery = [], sub_Forced = False, sub_Default = False\<rparr>"

definition zeroStoredAsset :: storedAsset where
  "zeroStoredAsset = \<lparr>sa_ID = [], sa_Kind = [], sa_URL = [], sa_Container = [], sa_HLSSegmentContainer = [],
     sa_Headers = [], sa_ToneMap = False, sa_AudioTrackIndex = None, sa_SubtitleTrackIndex = None,
     sa_SubtitleTrackType = [], sa_SubtitleTrackOrdinal = 0, sa_DurationSeconds = Finite 0,
     sa_Decision = None, sa_TargetHeight = 0, sa_VideoBitDepth = 0, sa_VideoBitrateKbps = 0,
     sa_MaximumAudioChannels = 0, sa_TargetVideoCodec = [], sa_QualityPreset = [],
     sa_StartSeconds = Finite 0, sa_DolbyVisionToneMapSafe = False, sa_ReadRate = Finite 0\<rparr>"

lemmas zero_defs = zeroTranscodeCapabilities_def zeroMediaProfile_def zeroCapabilities_def zeroMediaTrack_def
  zeroMediaInspection_def zeroDecisionSource_def zeroDecisionTarget_def zeroSource_def
  zeroSubtitle_def zeroStoredAsset_def

section \<open>Deep copies\<close>

text \<open>
  The \<open>clone\<close> functions of \<open>source_store.go\<close> copy every slice, map and pointer, so that no two
  owners share memory. On values they are the identity, with one exception: a copied asset has its
  segment container replaced by the normalised one.
\<close>

definition normalizedHLSSegmentContainer :: "string \<Rightarrow> string" where
  "normalizedHLSSegmentContainer container = (if container = ''mp4'' then ''mp4'' else ''ts'')"

definition clonePlaybackDecision :: "PlaybackDecision option \<Rightarrow> PlaybackDecision option" where
  "clonePlaybackDecision decision =
     (case decision of None \<Rightarrow> None
      | Some d \<Rightarrow> Some (d\<lparr>pd_Reasons := [] @ pd_Reasons d,
          pd_Source := (case pd_Source d of None \<Rightarrow> None | Some s \<Rightarrow> Some s),
          pd_Target := (case pd_Target d of None \<Rightarrow> None | Some t \<Rightarrow> Some t),
          pd_Pipeline := (case pd_Pipeline d of None \<Rightarrow> None | Some p \<Rightarrow> Some p)\<rparr>))"

definition cloneMediaInspection :: "MediaInspection \<Rightarrow> MediaInspection" where
  "cloneMediaInspection i = i\<lparr>mi_VideoTracks := [] @ mi_VideoTracks i,
     mi_AudioTracks := [] @ mi_AudioTracks i, mi_SubtitleTracks := [] @ mi_SubtitleTracks i\<rparr>"

definition cloneSource :: "Source \<Rightarrow> Source" where
  "cloneSource s = s\<lparr>src_FileIndex := (case src_FileIndex s of None \<Rightarrow> None | Some i \<Rightarrow> Some i),
     src_Media := map_option cloneMediaInspection (src_Media s),
     src_Decision := clonePlaybackDecision (src_Decision s)\<rparr>"

definition cloneStoredAsset :: "storedAsset \<Rightarrow> storedAsset" where
  "cloneStoredAsset a = a\<lparr>sa_HLSSegmentContainer := normalizedHLSSegmentContainer (sa_HLSSegmentContainer a),
     sa_Headers := map (\<lambda>(name, value). (name, value)) (sa_Headers a),
     sa_AudioTrackIndex := (case sa_AudioTrackIndex a of None \<Rightarrow> None | Some i \<Rightarrow> Some i),
     sa_SubtitleTrackIndex := (case sa_SubtitleTrackIndex a of None \<Rightarrow> None | Some i \<Rightarrow> Some i),
     sa_Decision := clonePlaybackDecision (sa_Decision a)\<rparr>"

definition cloneCapabilities :: "Capabilities \<Rightarrow> Capabilities" where
  "cloneCapabilities c = c\<lparr>cap_StreamingProtocols := [] @ cap_StreamingProtocols c,
     cap_Containers := [] @ cap_Containers c, cap_VideoCodecs := [] @ cap_VideoCodecs c,
     cap_AudioCodecs := [] @ cap_AudioCodecs c, cap_HDRFormats := [] @ cap_HDRFormats c,
     cap_ExternalPlayers := [] @ cap_ExternalPlayers c, cap_ProcessingModes := [] @ cap_ProcessingModes c,
     cap_SubtitleModes := [] @ cap_SubtitleModes c, cap_MediaProfiles := [] @ cap_MediaProfiles c,
     cap_ContainerProfiles :=
       map (\<lambda>p. p\<lparr>cp_Conditions := [] @ cp_Conditions p\<rparr>) ([] @ cap_ContainerProfiles c),
     cap_PreferDirectPlay := (case cap_PreferDirectPlay c of None \<Rightarrow> None | Some b \<Rightarrow> Some b)\<rparr>"

lemma clonePlaybackDecision_id [simp, go_clone]: "clonePlaybackDecision d = d"
  by (auto simp: clonePlaybackDecision_def split: option.splits)

lemma cloneMediaInspection_id [simp, go_clone]: "cloneMediaInspection i = i"
  by (simp add: cloneMediaInspection_def)

lemma option_copy_id [simp, go_clone]: "(case x of None \<Rightarrow> None | Some y \<Rightarrow> Some y) = x"
  by (cases x) simp_all

lemma cloneSource_id [simp, go_clone]: "cloneSource s = s"
proof -
  have "cloneMediaInspection = id"
    by (rule ext) simp
  then show ?thesis
    by (simp add: cloneSource_def option.map_id)
qed

lemma cloneCapabilities_id [simp, go_clone]: "cloneCapabilities c = c"
proof -
  have "map (\<lambda>p :: ContainerProfile. p\<lparr>cp_Conditions := [] @ cp_Conditions p\<rparr>) ps = ps" for ps
    by (induction ps) simp_all
  then show ?thesis
    by (simp add: cloneCapabilities_def)
qed

lemma cloneStoredAsset_eq [go_clone]:
  "cloneStoredAsset a = a\<lparr>sa_HLSSegmentContainer := normalizedHLSSegmentContainer (sa_HLSSegmentContainer a)\<rparr>"
  by (simp add: cloneStoredAsset_def)

lemma normalizedHLSSegmentContainer_idem [simp]:
  "normalizedHLSSegmentContainer (normalizedHLSSegmentContainer c) = normalizedHLSSegmentContainer c"
  by (simp add: normalizedHLSSegmentContainer_def)

lemma cloneStoredAsset_idem [simp]: "cloneStoredAsset (cloneStoredAsset a) = cloneStoredAsset a"
  by (simp add: cloneStoredAsset_eq)

end
