(* ===== verification/Playback_Compat.thy ===== *)
theory Playback_Compat
  imports Playback_Model
begin

text \<open>
  What a client can take as it is: the compatibility predicates of
  \<open>server/internal/playback/decision.go\<close> (codecs, containers, profiles, profile conditions, client
  limits, HDR) with the helpers of \<open>service.go\<close> and \<open>tracks.go\<close> they call. A loop that returns on the
  first match is \<^const>\<open>list_ex\<close> or \<^const>\<open>find\<close> over the slice, one that returns on the first failure
  \<^const>\<open>list_all\<close>.
\<close>

section \<open>Codecs and containers\<close>

definition normalizedCodec :: "string \<Rightarrow> string" where
  "normalizedCodec value =
     (let v = ToLower (TrimSpace value)
      in if v \<in> set [''avc'', ''avc1'', ''h.264'', ''x264''] then ''h264''
         else if v \<in> set [''hevc'', ''hev1'', ''hvc1'', ''h.265'', ''x265''] then ''h265''
         else if v = ''av01'' then ''av1''
         else if v = ''vp09'' then ''vp9''
         else if v \<in> set [''mp4a'', ''mp4a.40.2''] then ''aac''
         else if v \<in> set [''e-ac-3'', ''eac-3''] then ''eac3''
         else v)"

definition canonicalTargetVideoCodec :: "string \<Rightarrow> string" where
  "canonicalTargetVideoCodec codec =
     (let c = normalizedCodec codec
      in if c = ''h264'' then ''h264''
         else if c = ''h265'' then ''hevc''
         else if c = ''av1'' then ''av1''
         else if c = ''auto'' then ''auto''
         else [])"

definition mp4RemuxableVideo :: "string \<Rightarrow> bool" where
  "mp4RemuxableVideo codec \<longleftrightarrow> normalizedCodec codec \<in> set [''h264'', ''h265'', ''av1'']"

definition mp4RemuxableAudio :: "string \<Rightarrow> bool" where
  "mp4RemuxableAudio codec \<longleftrightarrow>
     normalizedCodec codec \<in> set [''aac'', ''ac3'', ''eac3'', ''mp3'', ''alac'', ''opus'']"

definition hlsSegmentVideoCopySupported :: "string \<Rightarrow> string \<Rightarrow> bool" where
  "hlsSegmentVideoCopySupported codec segmentContainer \<longleftrightarrow>
     (if normalizedHLSSegmentContainer segmentContainer = ''mp4'' then mp4RemuxableVideo codec
      else normalizedCodec codec = ''h264'')"

definition hlsSegmentAudioCopySupported :: "string \<Rightarrow> string \<Rightarrow> bool" where
  "hlsSegmentAudioCopySupported codec segmentContainer \<longleftrightarrow>
     (if normalizedHLSSegmentContainer segmentContainer = ''mp4'' then mp4RemuxableAudio codec
      else normalizedCodec codec \<in> set [''aac'', ''ac3'', ''eac3'', ''mp3''])"

definition supports :: "string list \<Rightarrow> string \<Rightarrow> bool" where
  "supports values candidate \<longleftrightarrow>
     (if length values = 0 then False else list_ex (\<lambda>value. EqualFold (TrimSpace value) candidate) values)"

definition supportsContainer :: "string list \<Rightarrow> string \<Rightarrow> bool" where
  "supportsContainer values candidate \<longleftrightarrow> candidate = [] \<or> supports values candidate"

definition supportsCodec :: "string list \<Rightarrow> string \<Rightarrow> bool" where
  "supportsCodec values codec \<longleftrightarrow>
     (let c = normalizedCodec codec
      in if length values = 0 then False else list_ex (\<lambda>value. normalizedCodec value = c) values)"

definition requestedProcessingMode :: "string list \<Rightarrow> string \<Rightarrow> bool" where
  "requestedProcessingMode values mode \<longleftrightarrow> list_ex (\<lambda>value. EqualFold (TrimSpace value) mode) values"

definition mediaProfileContainerMatches :: "string \<Rightarrow> string \<Rightarrow> bool" where
  "mediaProfileContainerMatches profile candidate \<longleftrightarrow>
     (let c = ToLower (TrimSpace candidate);
          c' = (if c \<in> set [''m4v'', ''mov''] then ''mp4'' else if c = ''m3u8'' then ''hls'' else c)
      in list_ex (\<lambda>value. ToLower (TrimSpace value) = c') (Split profile CHR '',''))"

definition mediaProfileCodecMatches :: "string \<Rightarrow> string \<Rightarrow> bool" where
  "mediaProfileCodecMatches profile candidate \<longleftrightarrow>
     (let c = normalizedCodec candidate
      in list_ex (\<lambda>value. normalizedCodec value = c) (Split profile CHR '',''))"

definition primaryTrack :: "MediaTrack list \<Rightarrow> MediaTrack option" where
  "primaryTrack tracks = (case tracks of [] \<Rightarrow> None | t # _ \<Rightarrow> Some t)"

definition engineCanEncode :: "string list \<Rightarrow> string \<Rightarrow> bool" where
  "engineCanEncode codecs codec \<longleftrightarrow>
     (if length codecs = 0 then codec = ''h264''
      else list_ex (\<lambda>candidate. canonicalTargetVideoCodec candidate = codec) codecs)"

section \<open>HDR\<close>

definition clientSupportsHDR :: "string \<Rightarrow> Capabilities \<Rightarrow> bool" where
  "clientSupportsHDR format capabilities \<longleftrightarrow>
     (let f = ToLower (TrimSpace format)
      in f = [] \<or> f = ''sdr'' \<or> length (cap_HDRFormats capabilities) > 0 \<and> supports (cap_HDRFormats capabilities) f)"

definition dolbyVisionBaseHDRFormat :: "int \<Rightarrow> bool \<Rightarrow> int \<Rightarrow> string" where
  "dolbyVisionBaseHDRFormat profile baseLayerPresent compatibilityID =
     (if profile = 5 \<or> \<not> baseLayerPresent then []
      else if compatibilityID = 1 then ''hdr10''
      else if compatibilityID = 2 then ''sdr''
      else if compatibilityID = 4 then ''hlg''
      else [])"

definition trackBaseHDRFormat :: "MediaTrack \<Rightarrow> string" where
  "trackBaseHDRFormat video =
     dolbyVisionBaseHDRFormat (mt_DolbyVisionProfile video) (mt_DolbyVisionBLPresent video)
       (mt_DolbyVisionCompatibilityID video)"

text \<open>The profile loop at the end of \<open>clientSupportsVideoHDR\<close>, entered for HDR10 and HLG only.\<close>

definition profileSupportsBaseHDR :: "MediaTrack option \<Rightarrow> string \<Rightarrow> Capabilities \<Rightarrow> bool" where
  "profileSupportsBaseHDR video format capabilities \<longleftrightarrow>
     format \<in> set [''hdr10'', ''hlg''] \<and>
     list_ex (\<lambda>profile. mp_DirectPlay profile \<and> mp_SupportsNonDolbyVisionHDR profile \<and>
       (case video of None \<Rightarrow> False
        | Some v \<Rightarrow> normalizedCodec (mp_VideoCodec profile) = normalizedCodec (mt_Codec v)))
       (cap_MediaProfiles capabilities)"

definition clientSupportsVideoHDR :: "MediaTrack option \<Rightarrow> string \<Rightarrow> Capabilities \<Rightarrow> bool" where
  "clientSupportsVideoHDR video format capabilities \<longleftrightarrow>
     (let f = ToLower (TrimSpace format)
      in if clientSupportsHDR f capabilities then True
         else if f = ''dolby_vision'' then
           (case video of None \<Rightarrow> False
            | Some v \<Rightarrow>
                (let base = trackBaseHDRFormat v
                 in if base = [] then False
                    else if clientSupportsHDR base capabilities then True
                    else profileSupportsBaseHDR video base capabilities))
         else profileSupportsBaseHDR video f capabilities)"

definition videoNeedsToneMapping :: "MediaInspection \<Rightarrow> Capabilities \<Rightarrow> bool" where
  "videoNeedsToneMapping inspection capabilities \<longleftrightarrow>
     \<not> clientSupportsVideoHDR (primaryTrack (mi_VideoTracks inspection)) (mi_HDRFormat inspection) capabilities"

text \<open>
  Generic tone mapping takes only a recognised HDR10, HLG or SDR base layer of a Dolby Vision
  stream (\<open>genericToneMappingSupported\<close> of \<open>tracks.go\<close>).
\<close>

definition genericToneMappingSupported :: "MediaInspection \<Rightarrow> bool" where
  "genericToneMappingSupported inspection \<longleftrightarrow>
     (if \<not> EqualFold (TrimSpace (mi_HDRFormat inspection)) ''dolby_vision'' then True
      else (case primaryTrack (mi_VideoTracks inspection) of None \<Rightarrow> False
            | Some video \<Rightarrow> trackBaseHDRFormat video \<noteq> []))"

definition sourceHDRNeedsBitDepthToneMap :: "MediaInspection \<Rightarrow> int \<Rightarrow> bool" where
  "sourceHDRNeedsBitDepthToneMap inspection targetBitDepth \<longleftrightarrow>
     (let f = ToLower (TrimSpace (mi_HDRFormat inspection));
          format = (if f = ''dolby_vision'' then
                      (case primaryTrack (mi_VideoTracks inspection) of None \<Rightarrow> f
                       | Some video \<Rightarrow> (let base = trackBaseHDRFormat video in if base \<noteq> [] then base else f))
                    else f)
      in targetBitDepth \<le> 8 \<and> format \<noteq> [] \<and> format \<noteq> ''sdr'')"

section \<open>Profiles\<close>

definition mediaProfileVideoConditionsSupported :: "MediaProfile \<Rightarrow> MediaTrack option \<Rightarrow> bool" where
  "mediaProfileVideoConditionsSupported profile video \<longleftrightarrow>
     (case video of None \<Rightarrow> False
      | Some v \<Rightarrow>
          (let maximumBitDepth = (if mp_MaximumVideoBitDepth profile = 0 then 8 else mp_MaximumVideoBitDepth profile);
               videoRange = TrimSpace (mt_VideoRangeType v)
           in if mp_RequiredConditionUnknown profile then False
              else if mp_MaximumVideoLevel profile > 0 \<and>
                (if mt_Level v \<le> 0 then mp_VideoLevelRequired profile
                 else mt_Level v > mp_MaximumVideoLevel profile) then False
              else if mt_BitDepth v > maximumBitDepth \<or> mp_MaximumVideoBitDepth profile > 0 \<and> mt_BitDepth v \<le> 0 then False
              else if mp_ExcludedVideoRange profile \<noteq> [] \<and>
                (if videoRange = [] then mp_VideoRangeRequired profile
                 else EqualFold videoRange (mp_ExcludedVideoRange profile)) then False
              else True))"

definition profileContainers :: "MediaProfile \<Rightarrow> string" where
  "profileContainers profile =
     (if mp_ContainersCSV profile \<noteq> [] then mp_ContainersCSV profile else mp_Container profile)"

definition profileAudioCodecs :: "MediaProfile \<Rightarrow> string" where
  "profileAudioCodecs profile =
     (if mp_AudioCodecsCSV profile \<noteq> [] then mp_AudioCodecsCSV profile else mp_AudioCodec profile)"

definition profileAudioMatches :: "MediaProfile \<Rightarrow> MediaTrack option \<Rightarrow> bool" where
  "profileAudioMatches profile audio \<longleftrightarrow>
     (case audio of None \<Rightarrow> True | Some a \<Rightarrow> mediaProfileCodecMatches (profileAudioCodecs profile) (mt_Codec a))"

datatype profileUse = mediaProfileAny | mediaProfileDirect | mediaProfileTranscoding

definition profileUsable :: "profileUse \<Rightarrow> MediaProfile \<Rightarrow> bool" where
  "profileUsable profileUse profile \<longleftrightarrow>
     \<not> ((mp_DirectPlay profile \<or> mp_Transcoding profile) \<and>
        (profileUse = mediaProfileDirect \<and> \<not> mp_DirectPlay profile \<or>
         profileUse = mediaProfileTranscoding \<and> \<not> mp_Transcoding profile))"

definition mediaProfileSupportedFor ::
    "string \<Rightarrow> MediaTrack option \<Rightarrow> MediaTrack option \<Rightarrow> Capabilities \<Rightarrow> profileUse \<Rightarrow> bool \<Rightarrow> bool" where
  "mediaProfileSupportedFor container video audio capabilities profileUse applyConditions \<longleftrightarrow>
     (let c = ToLower (TrimSpace container)
      in if c = [] then False
         else if length (cap_MediaProfiles capabilities) = 0 then
           supportsContainer (cap_Containers capabilities) c \<and>
           (case video of None \<Rightarrow> False | Some v \<Rightarrow> supportsCodec (cap_VideoCodecs capabilities) (mt_Codec v)) \<and>
           (case audio of None \<Rightarrow> True | Some a \<Rightarrow> supportsCodec (cap_AudioCodecs capabilities) (mt_Codec a))
         else list_ex (\<lambda>profile.
             profileUsable profileUse profile \<and>
             \<not> (c \<noteq> [] \<and> \<not> mediaProfileContainerMatches (profileContainers profile) c) \<and>
             (case video of None \<Rightarrow> False
              | Some v \<Rightarrow> normalizedCodec (mp_VideoCodec profile) = normalizedCodec (mt_Codec v)) \<and>
             \<not> (applyConditions \<and> \<not> mediaProfileVideoConditionsSupported profile video) \<and>
             profileAudioMatches profile audio) (cap_MediaProfiles capabilities))"

definition mediaProfileSupported :: "string \<Rightarrow> MediaTrack option \<Rightarrow> MediaTrack option \<Rightarrow> Capabilities \<Rightarrow> bool" where
  "mediaProfileSupported container video audio capabilities =
     mediaProfileSupportedFor container video audio capabilities mediaProfileAny True"

definition directMediaProfileSupported :: "string \<Rightarrow> MediaTrack option \<Rightarrow> MediaTrack option \<Rightarrow> Capabilities \<Rightarrow> bool" where
  "directMediaProfileSupported container video audio capabilities =
     mediaProfileSupportedFor container video audio capabilities mediaProfileDirect True"

definition processingMediaProfileSupported :: "string \<Rightarrow> MediaTrack option \<Rightarrow> MediaTrack option \<Rightarrow> Capabilities \<Rightarrow> bool" where
  "processingMediaProfileSupported container video audio capabilities =
     mediaProfileSupportedFor container video audio capabilities mediaProfileTranscoding False"

definition processingCopyMediaProfileSupported :: "string \<Rightarrow> MediaTrack option \<Rightarrow> MediaTrack option \<Rightarrow> Capabilities \<Rightarrow> bool" where
  "processingCopyMediaProfileSupported container video audio capabilities =
     mediaProfileSupportedFor container video audio capabilities mediaProfileTranscoding True"

definition videoCodecConditionsSupported :: "MediaTrack option \<Rightarrow> Capabilities \<Rightarrow> bool" where
  "videoCodecConditionsSupported video capabilities \<longleftrightarrow>
     list_all (\<lambda>profile.
       (\<not> mp_DirectPlay profile \<or>
        (case video of None \<Rightarrow> True
         | Some v \<Rightarrow> normalizedCodec (mp_VideoCodec profile) \<noteq> normalizedCodec (mt_Codec v))) \<or>
       mediaProfileVideoConditionsSupported profile video) (cap_MediaProfiles capabilities)"

section \<open>Profile conditions\<close>

record conditionInteger =
  ci_value :: int
  ci_known :: bool

definition knownInteger :: "int \<Rightarrow> conditionInteger" where
  "knownInteger value = \<lparr>ci_value = value, ci_known = True\<rparr>"

definition trackInteger :: "MediaTrack option \<Rightarrow> (MediaTrack \<Rightarrow> int) \<Rightarrow> conditionInteger" where
  "trackInteger track value =
     (case track of None \<Rightarrow> \<lparr>ci_value = 0, ci_known = False\<rparr>
      | Some t \<Rightarrow> \<lparr>ci_value = value t, ci_known = value t > 0\<rparr>)"

definition trackString :: "MediaTrack option \<Rightarrow> (MediaTrack \<Rightarrow> string) \<Rightarrow> string \<times> bool" where
  "trackString track value =
     (case track of None \<Rightarrow> ([], False)
      | Some t \<Rightarrow> (TrimSpace (value t), TrimSpace (value t) \<noteq> []))"

definition numericConditionSatisfied :: "ProfileCondition \<Rightarrow> conditionInteger \<Rightarrow> bool" where
  "numericConditionSatisfied condition current \<longleftrightarrow>
     (let operator = ToLower (TrimSpace (pc_Condition condition))
      in if \<not> ci_known current then \<not> pc_Required condition
         else if operator = ''equalsany'' then
           list_ex (\<lambda>candidate. ParseInt (TrimSpace candidate) = Some (ci_value current))
             (Split (pc_Value condition) CHR ''|'')
         else (case ParseInt (TrimSpace (pc_Value condition)) of None \<Rightarrow> False
               | Some expected \<Rightarrow>
                   if operator = ''equals'' then ci_value current = expected
                   else if operator = ''notequals'' then ci_value current \<noteq> expected
                   else if operator = ''lessthanequal'' then ci_value current \<le> expected
                   else if operator = ''greaterthanequal'' then ci_value current \<ge> expected
                   else False))"

definition stringConditionSatisfied :: "ProfileCondition \<Rightarrow> string \<Rightarrow> bool \<Rightarrow> bool" where
  "stringConditionSatisfied condition current known \<longleftrightarrow>
     (let operator = ToLower (TrimSpace (pc_Condition condition))
      in if \<not> known then \<not> pc_Required condition
         else if operator = ''equals'' then EqualFold current (TrimSpace (pc_Value condition))
         else if operator = ''notequals'' then \<not> EqualFold current (TrimSpace (pc_Value condition))
         else if operator = ''equalsany'' then
           list_ex (\<lambda>expected. EqualFold current (TrimSpace expected)) (Split (pc_Value condition) CHR ''|'')
         else False)"

definition containerConditionSatisfied :: "ProfileCondition \<Rightarrow> MediaTrack option \<Rightarrow> MediaInspection \<Rightarrow> bool" where
  "containerConditionSatisfied condition video inspection \<longleftrightarrow>
     (let property = ToLower (TrimSpace (pc_Property condition));
          number = numericConditionSatisfied condition;
          text = (\<lambda>f. case trackString video f of (current, known) \<Rightarrow> stringConditionSatisfied condition current known)
      in if property = ''width'' then number (trackInteger video mt_Width)
         else if property = ''height'' then number (trackInteger video mt_Height)
         else if property = ''videolevel'' then number (trackInteger video mt_Level)
         else if property = ''videobitrate'' then number (trackInteger video (\<lambda>t. wrap64 (mt_BitrateKbps t * 1000)))
         else if property = ''videoprofile'' then text mt_Profile
         else if property = ''videorangetype'' then text mt_VideoRangeType
         else if property = ''numstreams'' then
           number (knownInteger (int (length (mi_VideoTracks inspection) + length (mi_AudioTracks inspection) +
             length (mi_SubtitleTracks inspection))))
         else if property = ''numvideostreams'' then number (knownInteger (int (length (mi_VideoTracks inspection))))
         else if property = ''numaudiostreams'' then number (knownInteger (int (length (mi_AudioTracks inspection))))
         else False)"

definition containerProfileConditionsSupported :: "string \<Rightarrow> MediaInspection \<Rightarrow> ContainerProfile list \<Rightarrow> bool" where
  "containerProfileConditionsSupported container inspection profiles \<longleftrightarrow>
     list_all (\<lambda>profile.
       \<not> mediaProfileContainerMatches (cp_ContainersCSV profile) container \<or>
       list_all (\<lambda>condition. containerConditionSatisfied condition (primaryTrack (mi_VideoTracks inspection)) inspection)
         (cp_Conditions profile)) profiles"

section \<open>Client limits\<close>

definition videoWithinClientLimits :: "MediaTrack option \<Rightarrow> string \<Rightarrow> Capabilities \<Rightarrow> bool" where
  "videoWithinClientLimits video hdrFormat capabilities \<longleftrightarrow>
     (case video of None \<Rightarrow> False
      | Some v \<Rightarrow>
          if \<not> supportsCodec (cap_VideoCodecs capabilities) (mt_Codec v) then False
          else if cap_MaximumHeight capabilities > 0 \<and> (mt_Height v \<le> 0 \<or> mt_Height v > cap_MaximumHeight capabilities) then False
          else if cap_MaximumVideoBitrateKbps capabilities > 0 \<and>
            (mt_BitrateKbps v \<le> 0 \<or> mt_BitrateKbps v > cap_MaximumVideoBitrateKbps capabilities) then False
          else videoCodecConditionsSupported video capabilities \<and> clientSupportsVideoHDR video hdrFormat capabilities)"

definition audioWithinClientLimits :: "MediaTrack option \<Rightarrow> Capabilities \<Rightarrow> bool" where
  "audioWithinClientLimits audio capabilities \<longleftrightarrow>
     (case audio of None \<Rightarrow> True
      | Some a \<Rightarrow>
          if \<not> supportsCodec (cap_AudioCodecs capabilities) (mt_Codec a) then False
          else cap_MaximumAudioChannels capabilities = 0 \<or>
            mt_Channels a > 0 \<and> mt_Channels a \<le> cap_MaximumAudioChannels capabilities)"

definition targetAudioChannels :: "Capabilities \<Rightarrow> int" where
  "targetAudioChannels capabilities =
     (if cap_MaximumAudioChannels capabilities > 0 \<and> cap_MaximumAudioChannels capabilities < 2
      then cap_MaximumAudioChannels capabilities else 2)"

definition processingOutputSupported :: "Capabilities \<Rightarrow> bool" where
  "processingOutputSupported capabilities = supports (cap_StreamingProtocols capabilities) ''hls''"

definition processingOutput :: "string \<times> string" where
  "processingOutput = (''hls'', ''hls'')"

definition compatibleRemuxAudioTrack :: "MediaTrack \<Rightarrow> MediaTrack list \<Rightarrow> Capabilities \<Rightarrow> MediaTrack option" where
  "compatibleRemuxAudioTrack video tracks capabilities =
     find (\<lambda>track. hlsSegmentAudioCopySupported (mt_Codec track) (cap_HLSSegmentContainer capabilities) \<and>
       audioWithinClientLimits (Some track) capabilities \<and>
       processingCopyMediaProfileSupported ''mp4'' (Some video) (Some track) capabilities) tracks"

definition aacTrack :: "Capabilities \<Rightarrow> MediaTrack" where
  "aacTrack capabilities = zeroMediaTrack\<lparr>mt_Codec := ''aac'', mt_Channels := targetAudioChannels capabilities\<rparr>"

definition directMediaSupported :: "MediaInspection \<Rightarrow> Capabilities \<Rightarrow> bool" where
  "directMediaSupported inspection capabilities \<longleftrightarrow>
     primaryTrack (mi_VideoTracks inspection) \<noteq> None \<and>
     containerProfileConditionsSupported (mi_Container inspection) inspection (cap_ContainerProfiles capabilities) \<and>
     directMediaProfileSupported (mi_Container inspection) (primaryTrack (mi_VideoTracks inspection))
       (primaryTrack (mi_AudioTracks inspection)) capabilities \<and>
     videoWithinClientLimits (primaryTrack (mi_VideoTracks inspection)) (mi_HDRFormat inspection) capabilities \<and>
     audioWithinClientLimits (primaryTrack (mi_AudioTracks inspection)) capabilities"

section \<open>Normal forms\<close>

text \<open>
  A codec, a container or a mode is compared after normalisation. The contract of a normaliser is
  idempotence; what its clients rely on is that comparing with a normalised name and with the name
  itself is the same.
\<close>

locale normaliser =
  fixes norm :: "string \<Rightarrow> string"
  assumes norm_idem: "norm (norm v) = norm v"
begin

lemma norm_matches: "list_ex (\<lambda>value. norm value = norm (norm c)) values = list_ex (\<lambda>value. norm value = norm c) values"
  by (simp add: norm_idem)

lemma map_norm_matches: "list_ex (\<lambda>value. norm value = norm c) (map norm values) = list_ex (\<lambda>value. norm value = norm c) values"
  by (simp add: norm_idem list_ex_iff)

lemma norm_fixpoint: "norm v = w \<Longrightarrow> norm w = w"
  using norm_idem by blast

end

lemma lower_literals [go_string]:
  "ToLower (TrimSpace ''h264'') = ''h264''" "ToLower (TrimSpace ''h265'') = ''h265''"
  "ToLower (TrimSpace ''av1'') = ''av1''" "ToLower (TrimSpace ''vp9'') = ''vp9''"
  "ToLower (TrimSpace ''aac'') = ''aac''" "ToLower (TrimSpace ''eac3'') = ''eac3''"
  "ToLower (TrimSpace ''hevc'') = ''hevc''" "ToLower (TrimSpace ''auto'') = ''auto''"
  "ToLower (TrimSpace ''mp4'') = ''mp4''" "ToLower (TrimSpace []) = []"
  by (simp_all add: string_defs)

lemma fold_trim_idem [simp]: "ToLower (TrimSpace (ToLower (TrimSpace v))) = ToLower (TrimSpace v)"
  by (simp add: TrimSpace_ToLower)

interpretation codec: normaliser normalizedCodec
  by unfold_locales (simp add: normalizedCodec_def Let_def go_string)

interpretation targetCodec: normaliser canonicalTargetVideoCodec
  by unfold_locales (simp add: canonicalTargetVideoCodec_def normalizedCodec_def Let_def go_string)

interpretation keyword: normaliser "\<lambda>v. ToLower (TrimSpace v)"
  by unfold_locales simp

lemma canonicalTargetVideoCodec_range:
  "canonicalTargetVideoCodec v \<in> {[], ''h264'', ''hevc'', ''av1'', ''auto''}"
  by (simp add: canonicalTargetVideoCodec_def Let_def)

lemma canonicalTargetVideoCodec_literals [simp]:
  "canonicalTargetVideoCodec ''h264'' = ''h264''" "canonicalTargetVideoCodec ''hevc'' = ''hevc''"
  "canonicalTargetVideoCodec ''av1'' = ''av1''" "canonicalTargetVideoCodec ''auto'' = ''auto''"
  "canonicalTargetVideoCodec [] = []"
  by (simp_all add: canonicalTargetVideoCodec_def normalizedCodec_def Let_def go_string)

lemma supportsCodec_normalised [simp]: "supportsCodec values (normalizedCodec c) = supportsCodec values c"
  by (simp add: supportsCodec_def codec.norm_idem)

section \<open>What the limits say\<close>

lemma primaryTrack_Some: "primaryTrack tracks = Some t \<Longrightarrow> t \<in> set tracks \<and> tracks \<noteq> []"
  by (auto simp: primaryTrack_def split: list.splits)

lemma primaryTrack_simps [simp]: "primaryTrack [] = None" "primaryTrack (t # ts) = Some t"
  by (simp_all add: primaryTrack_def)

lemma primaryTrack_None [simp]: "primaryTrack tracks = None \<longleftrightarrow> tracks = []"
  by (auto simp: primaryTrack_def split: list.splits)

lemma videoWithinClientLimitsD:
  assumes "videoWithinClientLimits (Some v) format capabilities"
  shows "supportsCodec (cap_VideoCodecs capabilities) (mt_Codec v)"
    and "0 < cap_MaximumHeight capabilities \<Longrightarrow> 0 < mt_Height v \<and> mt_Height v \<le> cap_MaximumHeight capabilities"
    and "0 < cap_MaximumVideoBitrateKbps capabilities \<Longrightarrow>
      0 < mt_BitrateKbps v \<and> mt_BitrateKbps v \<le> cap_MaximumVideoBitrateKbps capabilities"
    and "clientSupportsVideoHDR (Some v) format capabilities"
    and "videoCodecConditionsSupported (Some v) capabilities"
  using assms by (auto simp: videoWithinClientLimits_def split: if_splits)

lemma videoCodecConditionsSupported_no_profiles [simp]:
  "cap_MediaProfiles capabilities = [] \<Longrightarrow> videoCodecConditionsSupported video capabilities"
  by (simp add: videoCodecConditionsSupported_def)

lemma targetAudioChannels_bounds:
  "0 < targetAudioChannels capabilities \<and> targetAudioChannels capabilities \<le> 2"
  "0 < cap_MaximumAudioChannels capabilities \<Longrightarrow> targetAudioChannels capabilities \<le> cap_MaximumAudioChannels capabilities"
  by (auto simp: targetAudioChannels_def)

end
