(* ===== verification/Playback_Decision.thy ===== *)
theory Playback_Decision
  imports Playback_Compat
begin

text \<open>
  How one source is played: \<open>playbackMode\<close> of \<open>server/internal/playback/decision.go\<close> and everything
  it calls, from the choice between direct play, remux, audio transcode and full transcode to the
  target the transcoder is given and the planned pipeline.
\<close>

section \<open>Processing modes and reasons\<close>

abbreviation processingRemux :: string where "processingRemux \<equiv> ''remux''"
abbreviation processingTranscodeAudio :: string where "processingTranscodeAudio \<equiv> ''transcode_audio''"
abbreviation processingTranscode :: string where "processingTranscode \<equiv> ''transcode''"

abbreviation decisionDirectSupported :: string where "decisionDirectSupported \<equiv> ''direct_supported''"
abbreviation decisionRemuxRequired :: string where "decisionRemuxRequired \<equiv> ''remux_required''"
abbreviation decisionAudioTranscodeRequired :: string where
  "decisionAudioTranscodeRequired \<equiv> ''audio_transcode_required''"
abbreviation decisionVideoTranscodeRequired :: string where
  "decisionVideoTranscodeRequired \<equiv> ''video_transcode_required''"
abbreviation decisionSubtitleBurnRequired :: string where
  "decisionSubtitleBurnRequired \<equiv> ''subtitle_burn_required''"

abbreviation reasonContainerNotSupported :: string where "reasonContainerNotSupported \<equiv> ''container_not_supported''"
abbreviation reasonVideoCodecNotSupported :: string where "reasonVideoCodecNotSupported \<equiv> ''video_codec_not_supported''"
abbreviation reasonAudioCodecNotSupported :: string where "reasonAudioCodecNotSupported \<equiv> ''audio_codec_not_supported''"
abbreviation reasonResolutionLimit :: string where "reasonResolutionLimit \<equiv> ''resolution_limit''"
abbreviation reasonBitrateLimit :: string where "reasonBitrateLimit \<equiv> ''bitrate_limit''"
abbreviation reasonHDRNotSupported :: string where "reasonHDRNotSupported \<equiv> ''hdr_not_supported''"
abbreviation reasonSubtitleBurnRequired :: string where "reasonSubtitleBurnRequired \<equiv> ''subtitle_burn_required''"

section \<open>Direct play\<close>

definition decisionSource :: "MediaInspection \<Rightarrow> PlaybackDecisionSource option" where
  "decisionSource inspection =
     (let video = primaryTrack (mi_VideoTracks inspection);
          audio = primaryTrack (mi_AudioTracks inspection);
          base = zeroDecisionSource\<lparr>ps_Container := mi_Container inspection, ps_HDRFormat := mi_HDRFormat inspection\<rparr>;
          withVideo = (case video of None \<Rightarrow> base
            | Some v \<Rightarrow> base\<lparr>ps_VideoCodec := normalizedCodec (mt_Codec v), ps_Height := mt_Height v,
                ps_VideoBitrateKbps := mt_BitrateKbps v, ps_DolbyVisionProfile := mt_DolbyVisionProfile v,
                ps_DolbyVisionBLPresent := mt_DolbyVisionBLPresent v,
                ps_DolbyVisionCompatibilityID := mt_DolbyVisionCompatibilityID v\<rparr>);
          withAudio = (case audio of None \<Rightarrow> withVideo
            | Some a \<Rightarrow> withVideo\<lparr>ps_AudioCodec := normalizedCodec (mt_Codec a)\<rparr>)
      in if video = None \<and> audio = None \<and> mi_Container inspection = [] then None else Some withAudio)"

definition directDecision :: "MediaInspection \<Rightarrow> PlaybackDecision" where
  "directDecision inspection = \<lparr>pd_Reason = decisionDirectSupported, pd_Reasons = [], pd_VideoAction = ''copy'',
     pd_AudioAction = ''copy'', pd_SubtitleAction = ''none'', pd_ToneMapping = False,
     pd_Source = decisionSource inspection, pd_Target = None, pd_Pipeline = None\<rparr>"

definition directPlaybackSupported ::
    "Source \<Rightarrow> MediaInspection \<Rightarrow> MediaTrack option \<Rightarrow> MediaTrack option \<Rightarrow> Capabilities \<Rightarrow> bool" where
  "directPlaybackSupported source inspection video audio capabilities \<longleftrightarrow>
     (let container = (if mi_Container inspection \<noteq> [] then mi_Container inspection else src_Container source)
      in if cap_AllowDirectPassthrough capabilities then
           supports (cap_StreamingProtocols capabilities) (src_Protocol source) \<and>
           supportsContainer (cap_Containers capabilities) container
         else
           supports (cap_StreamingProtocols capabilities) (src_Protocol source) \<and>
           containerProfileConditionsSupported container inspection (cap_ContainerProfiles capabilities) \<and>
           directMediaProfileSupported container video audio capabilities \<and>
           videoWithinClientLimits video (mi_HDRFormat inspection) capabilities \<and>
           audioWithinClientLimits audio capabilities)"

definition addReason :: "string list \<Rightarrow> string \<Rightarrow> string list" where
  "addReason reasons reason = (if reason \<in> set reasons then reasons else reasons @ [reason])"

definition addReasonIf :: "bool \<Rightarrow> string \<Rightarrow> string list \<Rightarrow> string list" where
  "addReasonIf c reason reasons = (if c then addReason reasons reason else reasons)"

text \<open>The loop of \<open>directProfileCompatibility\<close> carries the three flags through the profiles.\<close>

definition profileCompatibilityStep ::
    "string \<Rightarrow> MediaTrack option \<Rightarrow> MediaTrack option \<Rightarrow> MediaProfile \<Rightarrow> bool \<times> bool \<times> bool \<Rightarrow> bool \<times> bool \<times> bool" where
  "profileCompatibilityStep container video audio profile acc =
     (case acc of (containerSupported, videoSupported, audioSupported) \<Rightarrow>
        if (mp_DirectPlay profile \<or> mp_Transcoding profile) \<and> \<not> mp_DirectPlay profile then acc
        else if \<not> mediaProfileContainerMatches (profileContainers profile) container then acc
        else
          (let videoMatches = (case video of None \<Rightarrow> True
                 | Some v \<Rightarrow> normalizedCodec (mp_VideoCodec profile) = normalizedCodec (mt_Codec v) \<and>
                     mediaProfileVideoConditionsSupported profile video);
               audioMatches = profileAudioMatches profile audio
           in if videoMatches \<and> audioMatches then (True, True, True)
              else (True, videoSupported, audioSupported)))"

definition directProfileCompatibility ::
    "string \<Rightarrow> MediaTrack option \<Rightarrow> MediaTrack option \<Rightarrow> Capabilities \<Rightarrow> bool \<times> bool \<times> bool" where
  "directProfileCompatibility container video audio capabilities =
     fold (profileCompatibilityStep container video audio) (cap_MediaProfiles capabilities)
       (False, False, audio = None)"

text \<open>
  The four groups of checks of \<open>directIncompatibilityReasons\<close>, in order: protocol and container, the
  video track against the client's limits, the audio track, and the media profiles.
\<close>

definition containerReasons :: "Source \<Rightarrow> string \<Rightarrow> Capabilities \<Rightarrow> string list \<Rightarrow> string list" where
  "containerReasons source container capabilities reasons =
     addReasonIf (\<not> supports (cap_StreamingProtocols capabilities) (src_Protocol source) \<or>
       length (cap_MediaProfiles capabilities) = 0 \<and> \<not> supportsContainer (cap_Containers capabilities) container)
       reasonContainerNotSupported reasons"

definition videoReasons :: "MediaTrack option \<Rightarrow> MediaInspection \<Rightarrow> Capabilities \<Rightarrow> string list \<Rightarrow> string list" where
  "videoReasons video inspection capabilities reasons =
     (case video of None \<Rightarrow> reasons
      | Some v \<Rightarrow>
          addReasonIf (\<not> clientSupportsVideoHDR video (mi_HDRFormat inspection) capabilities) reasonHDRNotSupported
          (addReasonIf (cap_MaximumVideoBitrateKbps capabilities > 0 \<and>
              (mt_BitrateKbps v \<le> 0 \<or> mt_BitrateKbps v > cap_MaximumVideoBitrateKbps capabilities)) reasonBitrateLimit
          (addReasonIf (cap_MaximumHeight capabilities > 0 \<and>
              (mt_Height v \<le> 0 \<or> mt_Height v > cap_MaximumHeight capabilities)) reasonResolutionLimit
          (addReasonIf (length (cap_MediaProfiles capabilities) = 0 \<and> \<not> supportsCodec (cap_VideoCodecs capabilities) (mt_Codec v) \<or>
              \<not> videoCodecConditionsSupported video capabilities) reasonVideoCodecNotSupported reasons))))"

definition audioReasons :: "MediaTrack option \<Rightarrow> Capabilities \<Rightarrow> string list \<Rightarrow> string list" where
  "audioReasons audio capabilities reasons =
     (case audio of None \<Rightarrow> reasons
      | Some a \<Rightarrow> addReasonIf (length (cap_MediaProfiles capabilities) = 0 \<and>
          (\<not> supportsCodec (cap_AudioCodecs capabilities) (mt_Codec a) \<or> \<not> audioWithinClientLimits audio capabilities))
          reasonAudioCodecNotSupported reasons)"

definition profileReasons ::
    "string \<Rightarrow> MediaTrack option \<Rightarrow> MediaTrack option \<Rightarrow> Capabilities \<Rightarrow> string list \<Rightarrow> string list" where
  "profileReasons container video audio capabilities reasons =
     (if video \<noteq> None \<and> length (cap_MediaProfiles capabilities) > 0 then
        (case directProfileCompatibility container video audio capabilities of
           (containerSupported, videoSupported, audioSupported) \<Rightarrow>
             addReasonIf (\<not> audioSupported) reasonAudioCodecNotSupported
             (addReasonIf (\<not> videoSupported) reasonVideoCodecNotSupported
             (addReasonIf (\<not> containerSupported) reasonContainerNotSupported reasons)))
      else reasons)"

definition directIncompatibilityReasons :: "Source \<Rightarrow> MediaInspection \<Rightarrow> Capabilities \<Rightarrow> string list" where
  "directIncompatibilityReasons source inspection capabilities =
     (let video = primaryTrack (mi_VideoTracks inspection);
          audio = primaryTrack (mi_AudioTracks inspection);
          container = (if mi_Container inspection = [] then src_Container source else mi_Container inspection)
      in profileReasons container video audio capabilities
           (audioReasons audio capabilities
             (videoReasons video inspection capabilities
               (containerReasons source container capabilities []))))"

section \<open>Remux and transcode\<close>

definition remuxSupported :: "MediaInspection \<Rightarrow> Capabilities \<Rightarrow> bool" where
  "remuxSupported inspection capabilities \<longleftrightarrow>
     (if \<not> requestedProcessingMode (cap_ProcessingModes capabilities) processingRemux \<or>
         \<not> processingOutputSupported capabilities then False
      else (case primaryTrack (mi_VideoTracks inspection) of None \<Rightarrow> False
        | Some video \<Rightarrow>
            if \<not> hlsSegmentVideoCopySupported (mt_Codec video) (cap_HLSSegmentContainer capabilities) \<or>
               \<not> videoWithinClientLimits (Some video) (mi_HDRFormat inspection) capabilities then False
            else if length (mi_AudioTracks inspection) = 0 then
              processingCopyMediaProfileSupported ''mp4'' (Some video) None capabilities
            else compatibleRemuxAudioTrack video (mi_AudioTracks inspection) capabilities \<noteq> None))"

definition transcodingRequired :: "MediaInspection \<Rightarrow> Capabilities \<Rightarrow> bool" where
  "transcodingRequired inspection capabilities \<longleftrightarrow>
     (let copyCapabilities = cloneCapabilities capabilities;
          withRemux =
            (if \<not> requestedProcessingMode (cap_ProcessingModes copyCapabilities) processingRemux
             then copyCapabilities\<lparr>cap_ProcessingModes := cap_ProcessingModes copyCapabilities @ [processingRemux]\<rparr>
             else copyCapabilities)
      in \<not> remuxSupported inspection withRemux)"

definition audioTranscodeSupported :: "MediaInspection \<Rightarrow> Capabilities \<Rightarrow> bool" where
  "audioTranscodeSupported inspection capabilities \<longleftrightarrow>
     (if \<not> requestedProcessingMode (cap_ProcessingModes capabilities) processingTranscodeAudio \<or>
         \<not> processingOutputSupported capabilities then False
      else (case primaryTrack (mi_VideoTracks inspection) of None \<Rightarrow> False
        | Some video \<Rightarrow>
            if \<not> hlsSegmentVideoCopySupported (mt_Codec video) (cap_HLSSegmentContainer capabilities) \<or>
               \<not> videoWithinClientLimits (Some video) (mi_HDRFormat inspection) capabilities then False
            else processingCopyMediaProfileSupported ''mp4'' (Some video) (Some (aacTrack capabilities)) capabilities))"

text \<open>
  The loop of \<open>selectedTranscodeVideoCodecForAudio\<close>: \<open>prior\<close> holds the candidates before the current
  one, so that a codec named twice is tried once.
\<close>

fun selectTranscodeCodec :: "Capabilities \<Rightarrow> MediaTrack option \<Rightarrow> string list \<Rightarrow> string list \<Rightarrow> string" where
  "selectTranscodeCodec capabilities audio prior [] = []"
| "selectTranscodeCodec capabilities audio prior (candidate # rest) =
     (let codec = canonicalTargetVideoCodec candidate;
          next = selectTranscodeCodec capabilities audio (prior @ [candidate]) rest;
          duplicate = list_ex (\<lambda>p. canonicalTargetVideoCodec p = codec) prior
      in if codec = [] \<or> codec = ''auto'' then next
         else if duplicate \<or> (codec = ''hevc'' \<or> codec = ''av1'') \<and>
           normalizedHLSSegmentContainer (cap_HLSSegmentContainer capabilities) \<noteq> ''mp4'' then next
         else if \<not> engineCanEncode (tc_EncodeCodecs (cap_transcodeCapabilities capabilities)) codec then next
         else if processingMediaProfileSupported ''mp4'' (Some (zeroMediaTrack\<lparr>mt_Codec := codec\<rparr>)) audio capabilities then codec
         else next)"

definition selectedTranscodeVideoCodecForAudio :: "Capabilities \<Rightarrow> MediaTrack option \<Rightarrow> string" where
  "selectedTranscodeVideoCodecForAudio capabilities audio =
     (let preferred = canonicalTargetVideoCodec (tc_PreferredVideoCodec (cap_transcodeCapabilities capabilities))
      in selectTranscodeCodec capabilities audio [] [preferred, ''h264'', ''hevc'', ''av1''])"

definition selectedTranscodeVideoCodec :: "Capabilities \<Rightarrow> string" where
  "selectedTranscodeVideoCodec capabilities =
     selectedTranscodeVideoCodecForAudio capabilities (Some (aacTrack capabilities))"

definition fullTranscodeSupported :: "Capabilities \<Rightarrow> bool" where
  "fullTranscodeSupported capabilities \<longleftrightarrow>
     (if \<not> requestedProcessingMode (cap_ProcessingModes capabilities) processingTranscode \<or>
         \<not> processingOutputSupported capabilities then False
      else selectedTranscodeVideoCodec capabilities \<noteq> [])"

definition transcodeMediaProfileSupportsBitDepth :: "MediaProfile \<Rightarrow> string \<Rightarrow> MediaTrack option \<Rightarrow> int \<Rightarrow> bool" where
  "transcodeMediaProfileSupportsBitDepth profile codec audio bitDepth \<longleftrightarrow>
     (let maximumBitDepth = (if mp_MaximumVideoBitDepth profile = 0 then 8 else mp_MaximumVideoBitDepth profile)
      in if maximumBitDepth < bitDepth \<or> mp_DirectPlay profile \<and> \<not> mp_Transcoding profile \<or>
            \<not> mediaProfileContainerMatches (profileContainers profile) ''mp4'' \<or>
            normalizedCodec (mp_VideoCodec profile) \<noteq> normalizedCodec codec then False
         else profileAudioMatches profile audio)"

definition selectedTranscodeVideoTarget :: "Capabilities \<Rightarrow> MediaInspection \<Rightarrow> MediaTrack option \<Rightarrow> string \<times> int" where
  "selectedTranscodeVideoTarget capabilities inspection audio =
     (let codec = selectedTranscodeVideoCodecForAudio capabilities audio
      in case primaryTrack (mi_VideoTracks inspection) of None \<Rightarrow> (codec, 8)
         | Some video \<Rightarrow>
             (let needsScale = cap_MaximumHeight capabilities > 0 \<and> mt_Height video > cap_MaximumHeight capabilities
              in if codec \<noteq> ''hevc'' \<or> mt_BitDepth video \<le> 8 \<or> needsScale \<or>
                    videoNeedsToneMapping inspection capabilities \<or>
                    \<not> tc_HEVCMain10 (cap_transcodeCapabilities capabilities) then (codec, 8)
                 else if list_ex (\<lambda>profile. transcodeMediaProfileSupportsBitDepth profile codec audio 10)
                   (cap_MediaProfiles capabilities) then (codec, 10)
                 else (codec, 8)))"

definition videoTranscodeNeedsToneMapping :: "MediaInspection \<Rightarrow> Capabilities \<Rightarrow> MediaTrack option \<Rightarrow> bool" where
  "videoTranscodeNeedsToneMapping inspection capabilities audio \<longleftrightarrow>
     videoNeedsToneMapping inspection capabilities \<or>
     sourceHDRNeedsBitDepthToneMap inspection (snd (selectedTranscodeVideoTarget capabilities inspection audio))"

definition transcodeVideoBitrateKbps :: "Capabilities \<Rightarrow> int" where
  "transcodeVideoBitrateKbps capabilities =
     (let serverMaximum = cap_TranscodeVideoBitrateKbps capabilities;
          clientMaximum = cap_MaximumVideoBitrateKbps capabilities
      in if clientMaximum > 0 \<and> (serverMaximum \<le> 0 \<or> clientMaximum < serverMaximum) then clientMaximum
         else serverMaximum)"

definition transcodeQualityPreset :: "Capabilities \<Rightarrow> string" where
  "transcodeQualityPreset capabilities =
     (let p = ToLower (TrimSpace (tc_QualityPreset (cap_transcodeCapabilities capabilities)))
      in if p = ''speed'' then ''speed'' else if p = ''quality'' then ''quality'' else ''balanced'')"

definition targetVideoEncoder :: "string \<Rightarrow> string \<Rightarrow> string" where
  "targetVideoEncoder codec backend =
     (let c = canonicalTargetVideoCodec codec
      in if backend = [] \<or> backend = ''auto'' \<or> backend = ''software'' then
           (if c = ''hevc'' then ''libx265'' else if c = ''av1'' then ''libsvtav1'' else ''libx264'')
         else if backend = ''nvenc'' then
           (if c = ''hevc'' then ''hevc_nvenc'' else if c = ''av1'' then ''av1_nvenc'' else ''h264_nvenc'')
         else c @ ''_'' @ backend)"

definition plannedPlaybackPipeline ::
    "MediaInspection \<Rightarrow> Capabilities \<Rightarrow> PlaybackDecisionTarget option \<Rightarrow> bool \<Rightarrow> bool \<Rightarrow> PlaybackPipeline" where
  "plannedPlaybackPipeline inspection capabilities target toneMap subtitleBurn =
     (let engine = cap_transcodeCapabilities capabilities;
          requested = ToLower (TrimSpace (tc_HardwareAcceleration engine));
          backend = (if requested = [] \<or> requested = ''auto'' then ''software'' else requested);
          executionBackend = (if backend = ''hybrid'' then ''vaapi'' else backend);
          targetCodec = (case target of None \<Rightarrow> ''h264''
            | Some t \<Rightarrow> if pt_VideoCodec t \<noteq> [] then pt_VideoCodec t else ''h264'');
          video = primaryTrack (mi_VideoTracks inspection);
          decodable = (case video of None \<Rightarrow> False
            | Some v \<Rightarrow> supportsCodec (tc_DecodeCodecs engine) (mt_Codec v) \<or>
                canonicalTargetVideoCodec (mt_Codec v) = ''hevc'' \<and> mt_BitDepth v > 8 \<and>
                (case target of None \<Rightarrow> False | Some t \<Rightarrow> pt_VideoBitDepth t \<ge> 10) \<and> tc_HEVCMain10 engine);
          decode1 = (executionBackend \<noteq> ''software'' \<and> \<not> subtitleBurn \<and> decodable);
          needsScale = (case target of None \<Rightarrow> False
            | Some t \<Rightarrow> pt_Height t > 0 \<and> (case video of None \<Rightarrow> False | Some v \<Rightarrow> mt_Height v > pt_Height t));
          decode2 = (if needsScale \<and> executionBackend \<noteq> ''vaapi'' \<and> executionBackend \<noteq> ''qsv'' then False else decode1);
          requestedMap = ToLower (TrimSpace (cap_toneMapBackend capabilities));
          mapBackend = (if toneMap then (if requestedMap = [] then ''software'' else requestedMap) else []);
          hardwareDecode = (if toneMap \<and> (mapBackend = ''software'' \<or> mapBackend = ''hybrid'') \<and>
            (executionBackend \<noteq> ''vaapi'' \<or>
             (case video of None \<Rightarrow> True
              | Some v \<Rightarrow> canonicalTargetVideoCodec (mt_Codec v) \<noteq> ''hevc'' \<or> mt_BitDepth v \<noteq> 10)) then False else decode2)
      in \<lparr>pp_HardwareAcceleration = backend,
          pp_Decoder = (if hardwareDecode then
            (if executionBackend = ''amf'' then ''d3d11va''
             else if executionBackend = ''nvenc'' then ''cuda''
             else executionBackend) else ''software''),
          pp_Encoder = targetVideoEncoder targetCodec executionBackend,
          pp_ToneMapBackend = mapBackend,
          pp_ZeroCopy = (hardwareDecode \<and> (\<not> toneMap \<or> mapBackend \<noteq> ''software'' \<and> mapBackend \<noteq> ''hybrid''))\<rparr>)"

section \<open>The decision record\<close>

text \<open>
  \<open>processingDecisionWithReasons\<close> in the code's order: the target audio, the target of a copied
  video track, or the target of a transcoded one with the height limits (the tone-map limit
  applies when the target's bit depth forces tone mapping).
\<close>

definition decisionTargetAudio :: "string \<Rightarrow> MediaInspection \<Rightarrow> Capabilities \<Rightarrow> MediaTrack option" where
  "decisionTargetAudio audioAction inspection capabilities =
     (let audio = primaryTrack (mi_AudioTracks inspection)
      in if audioAction = ''copy'' then audio
         else if audio \<noteq> None then Some (aacTrack capabilities) else None)"

definition decisionTarget0 :: PlaybackDecisionTarget where
  "decisionTarget0 = zeroDecisionTarget\<lparr>pt_Protocol := fst processingOutput, pt_Container := snd processingOutput\<rparr>"

definition transcodeMaximumHeight :: "Capabilities \<Rightarrow> bool \<Rightarrow> int" where
  "transcodeMaximumHeight capabilities toneMap =
     (if toneMap \<and> cap_ToneMapMaximumHeight capabilities > 0 \<and>
         (cap_MaximumHeight capabilities = 0 \<or> cap_ToneMapMaximumHeight capabilities < cap_MaximumHeight capabilities)
      then cap_ToneMapMaximumHeight capabilities else cap_MaximumHeight capabilities)"

definition limitHeight :: "int \<Rightarrow> int \<Rightarrow> int" where
  "limitHeight maximumHeight height =
     (if maximumHeight > 0 \<and> (height = 0 \<or> height > maximumHeight) then maximumHeight else height)"

definition transcodeTarget ::
    "MediaInspection \<Rightarrow> Capabilities \<Rightarrow> MediaTrack option \<Rightarrow> bool \<Rightarrow> PlaybackDecisionTarget \<times> bool" where
  "transcodeTarget inspection capabilities targetAudio toneMap0 =
     (let (codec0, depth0) = selectedTranscodeVideoTarget capabilities inspection targetAudio;
          (codec, depth) = (if codec0 = [] then (''h264'', 8) else (codec0, depth0));
          height0 = (case primaryTrack (mi_VideoTracks inspection) of None \<Rightarrow> 0 | Some v \<Rightarrow> mt_Height v);
          toneMap = (if sourceHDRNeedsBitDepthToneMap inspection depth then True else toneMap0)
      in (decisionTarget0\<lparr>pt_VideoCodec := codec, pt_VideoBitDepth := depth,
            pt_Height := limitHeight (transcodeMaximumHeight capabilities toneMap) height0,
            pt_VideoBitrateKbps := transcodeVideoBitrateKbps capabilities\<rparr>, toneMap))"

definition copyTarget :: "MediaTrack \<Rightarrow> PlaybackDecisionTarget" where
  "copyTarget v = decisionTarget0\<lparr>pt_VideoCodec := normalizedCodec (mt_Codec v), pt_Height := mt_Height v,
     pt_VideoBitDepth := mt_BitDepth v, pt_VideoBitrateKbps := mt_BitrateKbps v\<rparr>"

definition processingDecisionWithReasons ::
    "string \<Rightarrow> string list \<Rightarrow> string \<Rightarrow> string \<Rightarrow> MediaInspection \<Rightarrow> Capabilities \<Rightarrow> bool \<Rightarrow> PlaybackDecision" where
  "processingDecisionWithReasons reason reasons videoAction audioAction inspection capabilities toneMap0 =
     (let targetAudio = decisionTargetAudio audioAction inspection capabilities;
          copied = (if videoAction = ''copy'' then primaryTrack (mi_VideoTracks inspection) else None);
          (target1, toneMap) =
            (case copied of
               Some v \<Rightarrow> (copyTarget v, toneMap0)
             | None \<Rightarrow> transcodeTarget inspection capabilities targetAudio toneMap0);
          target = (case targetAudio of None \<Rightarrow> target1
            | Some a \<Rightarrow> target1\<lparr>pt_AudioCodec := normalizedCodec (mt_Codec a)\<rparr>)
      in \<lparr>pd_Reason = reason, pd_Reasons = [] @ reasons, pd_VideoAction = videoAction, pd_AudioAction = audioAction,
          pd_SubtitleAction = ''none'', pd_ToneMapping = toneMap, pd_Source = decisionSource inspection,
          pd_Target = Some target,
          pd_Pipeline = (if videoAction = ''transcode''
            then Some (plannedPlaybackPipeline inspection capabilities (Some target) toneMap False) else None)\<rparr>)"

definition processingDecision ::
    "string \<Rightarrow> string \<Rightarrow> string \<Rightarrow> MediaInspection \<Rightarrow> Capabilities \<Rightarrow> bool \<Rightarrow> PlaybackDecision" where
  "processingDecision reason videoAction audioAction inspection capabilities toneMap =
     processingDecisionWithReasons reason [] videoAction audioAction inspection capabilities toneMap"

definition appendDecisionReason :: "PlaybackDecision \<Rightarrow> string \<Rightarrow> PlaybackDecision" where
  "appendDecisionReason decision reason =
     (if reason = [] then decision
      else if reason \<in> set (pd_Reasons decision) then decision
      else decision\<lparr>pd_Reasons := pd_Reasons decision @ [reason]\<rparr>)"

section \<open>The mode of one source\<close>

text \<open>The empty mode with no decision is the code's \<open>"", nil\<close>: the source cannot be played.\<close>

definition playbackMode :: "Source \<Rightarrow> MediaInspection \<Rightarrow> Capabilities \<Rightarrow> string \<times> PlaybackDecision option" where
  "playbackMode source inspection capabilities =
     (case primaryTrack (mi_VideoTracks inspection) of None \<Rightarrow> ([], None)
      | Some video \<Rightarrow>
          (let audio = primaryTrack (mi_AudioTracks inspection);
               reasons = directIncompatibilityReasons source inspection capabilities
           in if directPlaybackSupported source inspection (Some video) audio capabilities then
                (''direct'', Some (directDecision inspection))
              else if remuxSupported inspection capabilities then
                (processingRemux, Some (processingDecisionWithReasons decisionRemuxRequired reasons
                   ''copy'' ''copy'' inspection capabilities False))
              else if audioTranscodeSupported inspection capabilities then
                (processingTranscodeAudio, Some (processingDecisionWithReasons decisionAudioTranscodeRequired reasons
                   ''copy'' ''transcode'' inspection capabilities False))
              else if fullTranscodeSupported capabilities then
                (let toneMap = videoTranscodeNeedsToneMapping inspection capabilities (Some (aacTrack capabilities))
                 in if toneMap \<and> \<not> genericToneMappingSupported inspection then ([], None)
                    else (processingTranscode, Some (processingDecisionWithReasons decisionVideoTranscodeRequired reasons
                      ''transcode'' ''transcode'' inspection capabilities toneMap)))
              else ([], None)))"


section \<open>The transcode codec\<close>

text \<open>What makes a codec usable as a transcode target, independent of the order of the candidates.\<close>

definition qualifies :: "Capabilities \<Rightarrow> MediaTrack option \<Rightarrow> string \<Rightarrow> bool" where
  "qualifies capabilities audio codec \<longleftrightarrow>
     codec \<in> {''h264'', ''hevc'', ''av1''} \<and>
     (codec \<noteq> ''h264'' \<longrightarrow> normalizedHLSSegmentContainer (cap_HLSSegmentContainer capabilities) = ''mp4'') \<and>
     engineCanEncode (tc_EncodeCodecs (cap_transcodeCapabilities capabilities)) codec \<and>
     processingMediaProfileSupported ''mp4'' (Some (zeroMediaTrack\<lparr>mt_Codec := codec\<rparr>)) audio capabilities"

lemma selectTranscodeCodec_first:
  assumes "\<forall>p \<in> set prior. \<not> qualifies capabilities audio (canonicalTargetVideoCodec p)"
  shows "selectTranscodeCodec capabilities audio prior cs =
    (case find (\<lambda>c. qualifies capabilities audio (canonicalTargetVideoCodec c)) cs of
       None \<Rightarrow> [] | Some c \<Rightarrow> canonicalTargetVideoCodec c)"
  using assms
proof (induction cs arbitrary: prior)
  case (Cons c cs)
  show ?case
  proof (cases "qualifies capabilities audio (canonicalTargetVideoCodec c)")
    case True
    then have "\<not> list_ex (\<lambda>p. canonicalTargetVideoCodec p = canonicalTargetVideoCodec c) prior"
      using Cons.prems by (auto simp: list_ex_iff)
    with True show ?thesis
      by (auto simp: Let_def qualifies_def)
  next
    case False
    then have "selectTranscodeCodec capabilities audio prior (c # cs) =
        selectTranscodeCodec capabilities audio (prior @ [c]) cs"
      using canonicalTargetVideoCodec_range [of c] by (auto simp: Let_def qualifies_def)
    also have "\<dots> = (case find (\<lambda>c. qualifies capabilities audio (canonicalTargetVideoCodec c)) cs of
       None \<Rightarrow> [] | Some c \<Rightarrow> canonicalTargetVideoCodec c)"
      using False Cons.prems by (intro Cons.IH) auto
    finally show ?thesis using False by simp
  qed
qed simp

text \<open>
  The transcode codec: the preferred codec when it qualifies (the engine encodes it, the client
  has a profile for it, HEVC and AV1 only in fragmented MP4), otherwise the first of H.264, HEVC and
  AV1 that does, and none exactly when no codec qualifies.
\<close>

theorem selected_transcode_codec:
  "selectedTranscodeVideoCodecForAudio capabilities audio =
     (let preferred = canonicalTargetVideoCodec (tc_PreferredVideoCodec (cap_transcodeCapabilities capabilities))
      in case find (qualifies capabilities audio) [preferred, ''h264'', ''hevc'', ''av1''] of
           None \<Rightarrow> [] | Some codec \<Rightarrow> codec)"
  by (simp add: selectedTranscodeVideoCodecForAudio_def selectTranscodeCodec_first targetCodec.norm_idem Let_def
      del: selectTranscodeCodec.simps)

section \<open>Targets and limits\<close>


lemma transcodeVideoBitrateKbps_le:
  "0 < cap_MaximumVideoBitrateKbps c \<Longrightarrow> 0 < transcodeVideoBitrateKbps c \<and> transcodeVideoBitrateKbps c \<le> cap_MaximumVideoBitrateKbps c"
  by (auto simp: transcodeVideoBitrateKbps_def Let_def)

lemma limitHeight_le: "0 < m \<Longrightarrow> limitHeight m h \<le> m"
  by (simp add: limitHeight_def)

lemma transcodeMaximumHeight_le:
  "0 < cap_MaximumHeight c \<Longrightarrow> 0 < transcodeMaximumHeight c t \<and> transcodeMaximumHeight c t \<le> cap_MaximumHeight c"
  "0 \<le> cap_MaximumHeight c \<Longrightarrow> 0 < cap_ToneMapMaximumHeight c \<Longrightarrow>
     0 < transcodeMaximumHeight c True \<and> transcodeMaximumHeight c True \<le> cap_ToneMapMaximumHeight c"
  by (auto simp: transcodeMaximumHeight_def)

lemma transcodeTarget_fields:
  assumes "transcodeTarget inspection capabilities audio toneMap0 = (t, toneMap)"
  shows "pt_Height t = limitHeight (transcodeMaximumHeight capabilities toneMap)
      (case primaryTrack (mi_VideoTracks inspection) of None \<Rightarrow> 0 | Some v \<Rightarrow> mt_Height v)"
    and "pt_VideoBitrateKbps t = transcodeVideoBitrateKbps capabilities"
    and "toneMap = (toneMap0 \<or> sourceHDRNeedsBitDepthToneMap inspection (pt_VideoBitDepth t))"
    and "selectedTranscodeVideoTarget capabilities inspection audio = (codec, depth) \<Longrightarrow> codec \<noteq> [] \<Longrightarrow>
      pt_VideoCodec t = codec \<and> pt_VideoBitDepth t = depth"
  using assms by (auto simp: transcodeTarget_def Let_def split: prod.splits if_splits)

lemma processingDecision_copy:
  assumes "primaryTrack (mi_VideoTracks inspection) = Some v"
  shows "\<exists>t. pd_Target (processingDecisionWithReasons reason reasons ''copy'' audioAction inspection capabilities toneMap) = Some t \<and>
      pt_Height t = mt_Height v \<and> pt_VideoBitrateKbps t = mt_BitrateKbps v \<and> pt_VideoBitDepth t = mt_BitDepth v \<and>
      pt_VideoCodec t = normalizedCodec (mt_Codec v)"
    and "pd_ToneMapping (processingDecisionWithReasons reason reasons ''copy'' audioAction inspection capabilities toneMap) = toneMap"
  using assms by (auto simp: processingDecisionWithReasons_def Let_def copyTarget_def split: option.splits)

lemma processingDecision_transcode:
  assumes "videoAction \<noteq> ''copy''"
    and "transcodeTarget inspection capabilities (decisionTargetAudio audioAction inspection capabilities) toneMap0 = (t, toneMap)"
  shows "pd_ToneMapping (processingDecisionWithReasons reason reasons videoAction audioAction inspection capabilities toneMap0) = toneMap"
    and "\<exists>t'. pd_Target (processingDecisionWithReasons reason reasons videoAction audioAction inspection capabilities toneMap0) = Some t' \<and>
      pt_Height t' = pt_Height t \<and> pt_VideoBitrateKbps t' = pt_VideoBitrateKbps t \<and> pt_VideoBitDepth t' = pt_VideoBitDepth t \<and>
      pt_VideoCodec t' = pt_VideoCodec t"
  using assms by (auto simp: processingDecisionWithReasons_def Let_def split: option.splits)


definition deliveredHeight :: "MediaTrack \<Rightarrow> PlaybackDecision \<Rightarrow> int" where
  "deliveredHeight video decision = (case pd_Target decision of None \<Rightarrow> mt_Height video | Some t \<Rightarrow> pt_Height t)"

definition deliveredBitrate :: "MediaTrack \<Rightarrow> PlaybackDecision \<Rightarrow> int" where
  "deliveredBitrate video decision = (case pd_Target decision of None \<Rightarrow> mt_BitrateKbps video | Some t \<Rightarrow> pt_VideoBitrateKbps t)"

lemma playbackMode_cases:
  assumes "playbackMode source inspection capabilities = (mode, Some d)"
  obtains (direct) video where "primaryTrack (mi_VideoTracks inspection) = Some video" "mode = ''direct''"
      "d = directDecision inspection"
      "directPlaybackSupported source inspection (Some video) (primaryTrack (mi_AudioTracks inspection)) capabilities"
  | (remux) video where "primaryTrack (mi_VideoTracks inspection) = Some video" "mode = processingRemux"
      "d = processingDecisionWithReasons decisionRemuxRequired (directIncompatibilityReasons source inspection capabilities)
        ''copy'' ''copy'' inspection capabilities False"
      "remuxSupported inspection capabilities"
  | (audio) video where "primaryTrack (mi_VideoTracks inspection) = Some video" "mode = processingTranscodeAudio"
      "d = processingDecisionWithReasons decisionAudioTranscodeRequired (directIncompatibilityReasons source inspection capabilities)
        ''copy'' ''transcode'' inspection capabilities False"
      "audioTranscodeSupported inspection capabilities"
  | (video) video toneMap where "primaryTrack (mi_VideoTracks inspection) = Some video" "mode = processingTranscode"
      "toneMap = videoTranscodeNeedsToneMapping inspection capabilities (Some (aacTrack capabilities))"
      "d = processingDecisionWithReasons decisionVideoTranscodeRequired (directIncompatibilityReasons source inspection capabilities)
        ''transcode'' ''transcode'' inspection capabilities toneMap"
      "fullTranscodeSupported capabilities" "toneMap \<longrightarrow> genericToneMappingSupported inspection"
  using assms
  by (auto simp: playbackMode_def Let_def split: option.splits if_splits)

lemma remuxSupportedD:
  "remuxSupported inspection capabilities \<Longrightarrow> primaryTrack (mi_VideoTracks inspection) = Some v \<Longrightarrow>
     videoWithinClientLimits (Some v) (mi_HDRFormat inspection) capabilities"
  by (auto simp: remuxSupported_def split: if_splits)

lemma audioTranscodeSupportedD:
  "audioTranscodeSupported inspection capabilities \<Longrightarrow> primaryTrack (mi_VideoTracks inspection) = Some v \<Longrightarrow>
     videoWithinClientLimits (Some v) (mi_HDRFormat inspection) capabilities"
  by (auto simp: audioTranscodeSupported_def split: if_splits)

lemma directPlaybackSupportedD:
  "directPlaybackSupported source inspection video audio capabilities \<Longrightarrow> \<not> cap_AllowDirectPassthrough capabilities \<Longrightarrow>
     videoWithinClientLimits video (mi_HDRFormat inspection) capabilities \<and> audioWithinClientLimits audio capabilities"
  by (auto simp: directPlaybackSupported_def Let_def)

lemma delivered_copy:
  assumes "primaryTrack (mi_VideoTracks inspection) = Some v"
  shows "deliveredHeight v (processingDecisionWithReasons reason reasons ''copy'' audioAction inspection capabilities toneMap) = mt_Height v"
    and "deliveredBitrate v (processingDecisionWithReasons reason reasons ''copy'' audioAction inspection capabilities toneMap) = mt_BitrateKbps v"
  using processingDecision_copy(1) [OF assms, of reason reasons audioAction capabilities toneMap]
  by (auto simp: deliveredHeight_def deliveredBitrate_def)

lemma delivered_transcode:
  assumes "transcodeTarget inspection capabilities (decisionTargetAudio audioAction inspection capabilities) toneMap0 = (t, toneMap)"
  shows "deliveredHeight v (processingDecisionWithReasons reason reasons ''transcode'' audioAction inspection capabilities toneMap0) = pt_Height t"
    and "deliveredBitrate v (processingDecisionWithReasons reason reasons ''transcode'' audioAction inspection capabilities toneMap0) = pt_VideoBitrateKbps t"
  using processingDecision_transcode(2) [OF _ assms, of "''transcode''" reason reasons]
  by (auto simp: deliveredHeight_def deliveredBitrate_def)

definition withinLimit :: "int \<Rightarrow> int \<Rightarrow> bool" where
  "withinLimit maximum x \<longleftrightarrow> (0 < maximum \<longrightarrow> x \<le> maximum)"

lemma copied_within_limits:
  assumes "videoWithinClientLimits (Some v) format capabilities"
  shows "withinLimit (cap_MaximumHeight capabilities) (mt_Height v)"
    "withinLimit (cap_MaximumVideoBitrateKbps capabilities) (mt_BitrateKbps v)"
  using videoWithinClientLimitsD [OF assms] by (auto simp: withinLimit_def)

lemma transcodeTarget_within_limits:
  assumes "transcodeTarget inspection capabilities audio toneMap0 = (t, toneMap)"
  shows "withinLimit (cap_MaximumHeight capabilities) (pt_Height t)"
    "withinLimit (cap_MaximumVideoBitrateKbps capabilities) (pt_VideoBitrateKbps t)"
proof -
  show "withinLimit (cap_MaximumHeight capabilities) (pt_Height t)"
    using transcodeMaximumHeight_le(1) [of capabilities toneMap] limitHeight_le order_trans
    unfolding withinLimit_def transcodeTarget_fields(1) [OF assms] by blast
  show "withinLimit (cap_MaximumVideoBitrateKbps capabilities) (pt_VideoBitrateKbps t)"
    unfolding withinLimit_def transcodeTarget_fields(2) [OF assms] using transcodeVideoBitrateKbps_le by blast
qed

lemma playbackMode_limits:
  assumes mode: "playbackMode source inspection capabilities = (mode, Some d)"
    and video: "primaryTrack (mi_VideoTracks inspection) = Some video"
    and passthrough: "mode = ''direct'' \<longrightarrow> \<not> cap_AllowDirectPassthrough capabilities"
  shows "withinLimit (cap_MaximumHeight capabilities) (deliveredHeight video d) \<and>
    withinLimit (cap_MaximumVideoBitrateKbps capabilities) (deliveredBitrate video d)"
  using mode
proof (cases rule: playbackMode_cases)
  case direct
  with passthrough video have "videoWithinClientLimits (Some video) (mi_HDRFormat inspection) capabilities"
    by (auto dest: directPlaybackSupportedD)
  with direct show ?thesis
    by (simp add: copied_within_limits deliveredHeight_def deliveredBitrate_def directDecision_def)
next
  case remux
  with video have "videoWithinClientLimits (Some video) (mi_HDRFormat inspection) capabilities"
    by (auto dest: remuxSupportedD)
  with remux show ?thesis
    by (simp add: copied_within_limits delivered_copy [OF video])
next
  case audio
  with video have "videoWithinClientLimits (Some video) (mi_HDRFormat inspection) capabilities"
    by (auto dest: audioTranscodeSupportedD)
  with audio show ?thesis
    by (simp add: copied_within_limits delivered_copy [OF video])
next
  case (video v toneMap)
  obtain t toneMap' where t: "transcodeTarget inspection capabilities
      (decisionTargetAudio ''transcode'' inspection capabilities) toneMap = (t, toneMap')"
    by force
  with video(4) transcodeTarget_within_limits [OF t] show ?thesis
    by (simp add: delivered_transcode)
qed

lemma playbackMode_delivered:
  assumes mode: "playbackMode source inspection capabilities = (mode, Some d)"
    and video: "primaryTrack (mi_VideoTracks inspection) = Some video"
  shows "if mode = ''direct'' \<and> cap_AllowDirectPassthrough capabilities
    then deliveredHeight video d = mt_Height video \<and> deliveredBitrate video d = mt_BitrateKbps video \<and>
      supports (cap_StreamingProtocols capabilities) (src_Protocol source) \<and>
      supportsContainer (cap_Containers capabilities) (if mi_Container inspection \<noteq> [] then mi_Container inspection else src_Container source)
    else withinLimit (cap_MaximumHeight capabilities) (deliveredHeight video d) \<and>
      withinLimit (cap_MaximumVideoBitrateKbps capabilities) (deliveredBitrate video d)"
proof (cases "mode = ''direct'' \<and> cap_AllowDirectPassthrough capabilities")
  case True
  from mode show ?thesis
  proof (cases rule: playbackMode_cases)
    case direct
    with True show ?thesis
      by (simp add: directPlaybackSupported_def Let_def deliveredHeight_def deliveredBitrate_def directDecision_def)
  qed (use True in simp_all)
next
  case False
  then show ?thesis
    unfolding if_not_P [OF False] by (intro playbackMode_limits [OF mode video]) blast
qed

text \<open>
  C1. Every decision respects the client's limits unless it passes the source through: for a source with a
  video track the height and the video bitrate that are delivered (the source track's for direct play, the
  target's otherwise) are within the client's maximum height and maximum video bitrate in every mode, but for
  direct play of a client that allows direct passthrough. There the code checks no limit: the track is
  delivered as it is, of a source whose protocol and container the client supports.
\<close>

theorem playbackMode_within_limits:
  assumes mode: "playbackMode source inspection capabilities = (mode, Some d)"
    and video: "primaryTrack (mi_VideoTracks inspection) = Some video"
  shows "if mode = ''direct'' \<and> cap_AllowDirectPassthrough capabilities
    then deliveredHeight video d = mt_Height video \<and> deliveredBitrate video d = mt_BitrateKbps video \<and>
      supports (cap_StreamingProtocols capabilities) (src_Protocol source) \<and>
      supportsContainer (cap_Containers capabilities) (if mi_Container inspection \<noteq> [] then mi_Container inspection else src_Container source)
    else withinLimit (cap_MaximumHeight capabilities) (deliveredHeight video d) \<and>
      withinLimit (cap_MaximumVideoBitrateKbps capabilities) (deliveredBitrate video d)"
  by (rule playbackMode_delivered [OF assms])

lemma fullTranscode_codec:
  "fullTranscodeSupported capabilities \<Longrightarrow> selectedTranscodeVideoCodecForAudio capabilities (Some (aacTrack capabilities)) \<noteq> []"
  by (auto simp: fullTranscodeSupported_def selectedTranscodeVideoCodec_def split: if_splits)

lemma fst_selectedTranscodeVideoTarget [simp]:
  "fst (selectedTranscodeVideoTarget capabilities inspection audio) = selectedTranscodeVideoCodecForAudio capabilities audio"
  by (simp add: selectedTranscodeVideoTarget_def Let_def split: option.split)

text \<open>
  C2. Tone mapping is planned only where it is possible: for a source with an audio track, a decision
  with tone mapping is a full transcode, and the source is not a Dolby Vision stream without a
  recognised base layer (profile 5 and unknown compatibility ids fail closed).
\<close>

theorem playbackMode_tone_map_safe:
  assumes mode: "playbackMode source inspection capabilities = (mode, Some d)"
    and audio: "mi_AudioTracks inspection \<noteq> []"
    and toneMap: "pd_ToneMapping d"
  shows "mode = processingTranscode \<and> genericToneMappingSupported inspection"
  using mode
proof (cases rule: playbackMode_cases)
  case (video v toneMap)
  have aac: "decisionTargetAudio ''transcode'' inspection capabilities = Some (aacTrack capabilities)"
    using audio by (simp add: decisionTargetAudio_def)
  obtain t toneMap' where t: "transcodeTarget inspection capabilities (Some (aacTrack capabilities)) toneMap = (t, toneMap')"
    by force
  have "toneMap'"
    using processingDecision_transcode(1) [of "''transcode''" inspection capabilities "''transcode''" toneMap t toneMap'] t aac video toneMap
    by simp
  moreover have "pt_VideoBitDepth t = snd (selectedTranscodeVideoTarget capabilities inspection (Some (aacTrack capabilities)))"
    using transcodeTarget_fields(4) [OF t] fullTranscode_codec [OF video(5)]
    by (metis fst_selectedTranscodeVideoTarget prod.collapse)
  ultimately have "toneMap"
    using transcodeTarget_fields(3) [OF t] video(3) by (auto simp: videoTranscodeNeedsToneMapping_def)
  with video show ?thesis by simp
qed (use toneMap processingDecision_copy(2) in \<open>auto simp: directDecision_def\<close>)


section \<open>Reasons\<close>


definition publicReasons :: "string set" where
  "publicReasons = {reasonContainerNotSupported, reasonVideoCodecNotSupported, reasonAudioCodecNotSupported,
     reasonResolutionLimit, reasonBitrateLimit, reasonHDRNotSupported, reasonSubtitleBurnRequired}"

definition validReasons :: "string list \<Rightarrow> bool" where
  "validReasons reasons \<longleftrightarrow> distinct reasons \<and> set reasons \<subseteq> publicReasons"

lemma validReasons_Nil [simp]: "validReasons []"
  by (simp add: validReasons_def)

lemma validReasons_addReasonIf [intro]:
  "validReasons rs \<Longrightarrow> r \<in> publicReasons \<Longrightarrow> validReasons (addReasonIf c r rs)"
  by (auto simp: validReasons_def addReasonIf_def addReason_def)

lemma publicReasons_mem [simp]:
  "reasonContainerNotSupported \<in> publicReasons" "reasonVideoCodecNotSupported \<in> publicReasons"
  "reasonAudioCodecNotSupported \<in> publicReasons" "reasonResolutionLimit \<in> publicReasons"
  "reasonBitrateLimit \<in> publicReasons" "reasonHDRNotSupported \<in> publicReasons"
  "reasonSubtitleBurnRequired \<in> publicReasons"
  by (simp_all add: publicReasons_def)

lemma validReasons_length: "validReasons rs \<Longrightarrow> length rs \<le> 7"
proof -
  assume "validReasons rs"
  then have "length rs = card (set rs)" "set rs \<subseteq> publicReasons"
    by (simp_all add: validReasons_def distinct_card)
  moreover have "finite publicReasons" "card publicReasons \<le> 7"
    by (simp_all add: publicReasons_def card_insert_if)
  ultimately show ?thesis
    by (metis card_mono le_trans)
qed

lemma validReasons_containerReasons: "validReasons rs \<Longrightarrow> validReasons (containerReasons source container capabilities rs)"
  unfolding containerReasons_def by (intro validReasons_addReasonIf) simp_all

lemma validReasons_videoReasons: "validReasons rs \<Longrightarrow> validReasons (videoReasons video inspection capabilities rs)"
  unfolding videoReasons_def by (cases video) (simp_all add: validReasons_addReasonIf)

lemma validReasons_audioReasons: "validReasons rs \<Longrightarrow> validReasons (audioReasons audio capabilities rs)"
  unfolding audioReasons_def by (cases audio) (simp_all add: validReasons_addReasonIf)

lemma validReasons_profileReasons: "validReasons rs \<Longrightarrow> validReasons (profileReasons container video audio capabilities rs)"
  unfolding profileReasons_def by (simp add: validReasons_addReasonIf split: prod.split)

lemma validReasons_direct: "validReasons (directIncompatibilityReasons source inspection capabilities)"
  unfolding directIncompatibilityReasons_def Let_def
  by (intro validReasons_profileReasons validReasons_audioReasons validReasons_videoReasons validReasons_containerReasons) simp

lemma pd_Reasons_processing [simp]:
  "pd_Reasons (processingDecisionWithReasons reason reasons va aa inspection capabilities toneMap) = reasons"
  by (simp add: processingDecisionWithReasons_def Let_def split: prod.split)

lemma addReasonIf_empty [simp]: "addReasonIf c r rs = [] \<longleftrightarrow> \<not> c \<and> rs = []"
  by (auto simp: addReasonIf_def addReason_def)


text \<open>
  Every decision of \<open>playbackMode\<close> lists distinct reasons from the seven of the public contract
  (\<open>PlaybackDecision.reasons\<close> of \<open>protocol/openapi.yaml\<close>: unique items, at most seven, from the
  enumeration), and direct play lists none.
\<close>

theorem playbackMode_reasons:
  assumes "playbackMode source inspection capabilities = (mode, Some d)"
  shows "distinct (pd_Reasons d) \<and> set (pd_Reasons d) \<subseteq> publicReasons \<and> length (pd_Reasons d) \<le> 7 \<and>
    (mode = ''direct'' \<longrightarrow> pd_Reasons d = [])"
proof -
  have "validReasons (pd_Reasons d) \<and> (mode = ''direct'' \<longrightarrow> pd_Reasons d = [])"
    using assms by (cases rule: playbackMode_cases) (simp_all add: directDecision_def validReasons_direct)
  then show ?thesis
    using validReasons_length validReasons_def by blast
qed

definition directProfileFor :: "string \<Rightarrow> MediaProfile \<Rightarrow> bool" where
  "directProfileFor container p \<longleftrightarrow>
     profileUsable mediaProfileDirect p \<and> mediaProfileContainerMatches (profileContainers p) container"

definition profilePlays :: "MediaTrack option \<Rightarrow> MediaTrack option \<Rightarrow> MediaProfile \<Rightarrow> bool" where
  "profilePlays video audio p \<longleftrightarrow>
     (case video of None \<Rightarrow> True
      | Some w \<Rightarrow> normalizedCodec (mp_VideoCodec p) = normalizedCodec (mt_Codec w) \<and>
          mediaProfileVideoConditionsSupported p video) \<and>
     profileAudioMatches p audio"

lemma fold_profileCompatibility:
  "fold (profileCompatibilityStep container video audio) ps (c, v, a) =
    (c \<or> list_ex (directProfileFor container) ps,
     v \<or> list_ex (\<lambda>p. directProfileFor container p \<and> profilePlays video audio p) ps,
     a \<or> list_ex (\<lambda>p. directProfileFor container p \<and> profilePlays video audio p) ps)"
  by (induction ps arbitrary: c v a)
    (auto simp: profileCompatibilityStep_def profileUsable_def directProfileFor_def profilePlays_def Let_def)

text \<open>
  The three flags of \<open>directProfileCompatibility\<close> are what they are named for: some profile usable
  for direct play names the container; some such profile takes the video and the audio track together
  (the audio flag also holds when there is no audio track).
\<close>

lemma directProfileCompatibility_exists:
  "directProfileCompatibility container video audio capabilities =
    (list_ex (directProfileFor container) (cap_MediaProfiles capabilities),
     list_ex (\<lambda>p. directProfileFor container p \<and> profilePlays video audio p) (cap_MediaProfiles capabilities),
     audio = None \<or>
       list_ex (\<lambda>p. directProfileFor container p \<and> profilePlays video audio p) (cap_MediaProfiles capabilities))"
  by (simp add: directProfileCompatibility_def fold_profileCompatibility)

lemma supports_normalised: "supports values c \<Longrightarrow> supports values (ToLower (TrimSpace c))"
proof -
  have "EqualFold (TrimSpace v) c \<Longrightarrow> EqualFold (TrimSpace v) (ToLower (TrimSpace c))" for v
    by (simp add: EqualFold_def) (metis TrimSpace_ToLower TrimSpace_idem)
  then show "supports values c \<Longrightarrow> supports values (ToLower (TrimSpace c))"
    by (auto simp: supports_def list_ex_iff split: if_splits)
qed

lemma supportsContainer_normalised: "supportsContainer values c \<Longrightarrow> supportsContainer values (ToLower (TrimSpace c))"
  by (cases "c = []") (auto simp: supportsContainer_def TrimSpace_def ToLower_def dest: supports_normalised [unfolded TrimSpace_def ToLower_def])

text \<open>
  A refused direct play is explained: for a client without media or container profiles and without
  passthrough, and a known container, the list of reasons is empty only when the source can be played
  directly.
\<close>

lemma reasons_explain:
  assumes video: "primaryTrack (mi_VideoTracks inspection) = Some video"
    and plain: "cap_MediaProfiles capabilities = []" "cap_ContainerProfiles capabilities = []"
      "\<not> cap_AllowDirectPassthrough capabilities"
    and container: "TrimSpace (if mi_Container inspection \<noteq> [] then mi_Container inspection else src_Container source) \<noteq> []"
    and incompatible: "\<not> directPlaybackSupported source inspection (Some video) (primaryTrack (mi_AudioTracks inspection)) capabilities"
  shows "directIncompatibilityReasons source inspection capabilities \<noteq> []"
proof
  assume none: "directIncompatibilityReasons source inspection capabilities = []"
  let ?audio = "primaryTrack (mi_AudioTracks inspection)"
  let ?c = "if mi_Container inspection \<noteq> [] then mi_Container inspection else src_Container source"
  have audio: "audioReasons ?audio capabilities (videoReasons (Some video) inspection capabilities
      (containerReasons source ?c capabilities [])) = []"
    using none video plain by (cases "mi_Container inspection = []") (simp_all add: directIncompatibilityReasons_def profileReasons_def)
  then have v: "videoReasons (Some video) inspection capabilities (containerReasons source ?c capabilities []) = []"
    by (auto simp: audioReasons_def split: option.splits)
  then have c: "supports (cap_StreamingProtocols capabilities) (src_Protocol source)"
      "supportsContainer (cap_Containers capabilities) ?c"
    using plain by (auto simp: videoReasons_def containerReasons_def)
  have lim: "videoWithinClientLimits (Some video) (mi_HDRFormat inspection) capabilities"
    using v plain by (auto simp: videoReasons_def videoWithinClientLimits_def)
  have alim: "audioWithinClientLimits ?audio capabilities"
    using audio plain
    by (cases "mi_AudioTracks inspection") (auto simp: audioReasons_def audioWithinClientLimits_def split: if_splits)
  have "directMediaProfileSupported ?c (Some video) ?audio capabilities"
    using c(2) lim alim plain container supportsContainer_normalised
    by (auto simp: directMediaProfileSupported_def mediaProfileSupportedFor_def Let_def audioWithinClientLimits_def
        dest: videoWithinClientLimitsD(1) split: option.splits if_splits)
  with c lim alim plain incompatible show False
    by (simp add: directPlaybackSupported_def containerProfileConditionsSupported_def)
qed

section \<open>Concrete inputs\<close>

text \<open>An HDR10 source in 1080p with stereo audio, and a client limited to 720 lines without HDR.\<close>

definition exampleTrack :: MediaTrack where
  "exampleTrack = zeroMediaTrack\<lparr>mt_Codec := ''h264'', mt_Height := 1080, mt_BitrateKbps := 9000, mt_BitDepth := 8\<rparr>"

definition exampleInspection :: MediaInspection where
  "exampleInspection = zeroMediaInspection\<lparr>mi_Container := ''mkv'', mi_HDRFormat := ''hdr10'', mi_VideoTracks := [exampleTrack],
     mi_AudioTracks := [zeroMediaTrack\<lparr>mt_Codec := ''aac'', mt_Channels := 2\<rparr>]\<rparr>"

definition exampleClient :: Capabilities where
  "exampleClient = zeroCapabilities\<lparr>cap_StreamingProtocols := [''hls''], cap_Containers := [''mp4''],
     cap_VideoCodecs := [''h264''], cap_AudioCodecs := [''aac''], cap_ProcessingModes := [''transcode''],
     cap_MaximumHeight := 720, cap_MaximumVideoBitrateKbps := 4000\<rparr>"

definition exampleSource :: Source where
  "exampleSource = zeroSource\<lparr>src_ID := ''a'', src_Mode := ''direct'', src_URL := ''http://h/a.mkv'', src_Protocol := ''http'',
     src_Hint := ''1080p''\<rparr>"

lemma example_playbackMode:
  "\<exists>d. playbackMode exampleSource exampleInspection exampleClient = (processingTranscode, Some d) \<and> pd_ToneMapping d"
proof -
  have "case playbackMode exampleSource exampleInspection exampleClient of
      (mode, d) \<Rightarrow> mode = processingTranscode \<and> (case d of None \<Rightarrow> False | Some x \<Rightarrow> pd_ToneMapping x)"
    by code_simp
  then show ?thesis
    by (auto split: prod.splits option.splits)
qed

lemma example_tracks: "primaryTrack (mi_VideoTracks exampleInspection) = Some exampleTrack"
  "cap_MaximumHeight exampleClient = 720" "cap_MaximumVideoBitrateKbps exampleClient = 4000"
  "mi_AudioTracks exampleInspection \<noteq> []" "cap_MediaProfiles exampleClient = []" "cap_ContainerProfiles exampleClient = []"
  "\<not> cap_AllowDirectPassthrough exampleClient" "mi_Container exampleInspection = ''mkv''"
  by (simp_all add: exampleInspection_def exampleClient_def zero_defs)

theorem playbackMode_within_limits_witness:
  "\<exists>d. playbackMode exampleSource exampleInspection exampleClient = (processingTranscode, Some d) \<and>
     deliveredHeight exampleTrack d \<le> 720 \<and> deliveredBitrate exampleTrack d \<le> 4000"
proof -
  obtain d where d: "playbackMode exampleSource exampleInspection exampleClient = (processingTranscode, Some d)"
    using example_playbackMode by blast
  have "withinLimit 720 (deliveredHeight exampleTrack d) \<and> withinLimit 4000 (deliveredBitrate exampleTrack d)"
    using playbackMode_within_limits [OF d example_tracks(1)] example_tracks by simp
  with d show ?thesis
    by (simp add: withinLimit_def)
qed

theorem playbackMode_tone_map_safe_witness:
  "\<exists>d. playbackMode exampleSource exampleInspection exampleClient = (processingTranscode, Some d) \<and> pd_ToneMapping d \<and>
     genericToneMappingSupported exampleInspection"
proof -
  obtain d where d: "playbackMode exampleSource exampleInspection exampleClient = (processingTranscode, Some d)" "pd_ToneMapping d"
    using example_playbackMode by blast
  with playbackMode_tone_map_safe [OF d(1) example_tracks(4) d(2)] show ?thesis
    by blast
qed

theorem playbackMode_reasons_witness:
  "\<exists>d. playbackMode exampleSource exampleInspection exampleClient = (processingTranscode, Some d) \<and> length (pd_Reasons d) \<le> 7"
proof -
  obtain d where d: "playbackMode exampleSource exampleInspection exampleClient = (processingTranscode, Some d)"
    using example_playbackMode by blast
  with playbackMode_reasons [OF d] show ?thesis
    by blast
qed

lemma reasons_explain_example:
  "directIncompatibilityReasons exampleSource exampleInspection exampleClient \<noteq> []"
proof (rule reasons_explain [OF example_tracks(1) example_tracks(5-7)])
  show "TrimSpace (if mi_Container exampleInspection \<noteq> [] then mi_Container exampleInspection else src_Container exampleSource) \<noteq> []"
    by (simp add: example_tracks string_defs)
  show "\<not> directPlaybackSupported exampleSource exampleInspection (Some exampleTrack)
      (primaryTrack (mi_AudioTracks exampleInspection)) exampleClient"
    by code_simp
qed

text \<open>
  The hypothesis on the audio in C3 is needed. The check of \<open>playbackMode\<close> assumes an AAC target
  track, the target of the decision has none where the source is silent: for a client that takes HEVC
  Main 10 with AAC and H.264 with Opus only, the check sees a 10-bit HEVC target and the decision an
  8-bit H.264 one, and a silent Dolby Vision profile 5 stream is tone mapped.
\<close>

definition silentInspection :: MediaInspection where
  "silentInspection = zeroMediaInspection\<lparr>mi_Container := ''mp4'', mi_HDRFormat := ''dolby_vision'',
     mi_VideoTracks := [zeroMediaTrack\<lparr>mt_Codec := ''hevc'', mt_BitDepth := 10, mt_BitrateKbps := 9000,
       mt_DolbyVisionProfile := 5, mt_DolbyVisionBLPresent := True\<rparr>]\<rparr>"

definition silentClient :: Capabilities where
  "silentClient = zeroCapabilities\<lparr>cap_StreamingProtocols := [''hls''], cap_Containers := [''mp4''],
     cap_HDRFormats := [''dolby_vision''], cap_ProcessingModes := [''transcode''], cap_HLSSegmentContainer := ''mp4'',
     cap_MaximumVideoBitrateKbps := 4000,
     cap_MediaProfiles := [
       zeroMediaProfile\<lparr>mp_Container := ''mp4'', mp_VideoCodec := ''hevc'', mp_AudioCodec := ''aac'', mp_MaximumVideoBitDepth := 10\<rparr>,
       zeroMediaProfile\<lparr>mp_Container := ''mp4'', mp_VideoCodec := ''h264'', mp_AudioCodec := ''opus''\<rparr>],
     cap_transcodeCapabilities := zeroTranscodeCapabilities\<lparr>tc_EncodeCodecs := [''h264'', ''hevc''], tc_HEVCMain10 := True\<rparr>\<rparr>"

lemma silent_profile5_tone_mapped:
  "case playbackMode exampleSource silentInspection silentClient of
     (mode, Some d) \<Rightarrow> mode = processingTranscode \<and> pd_ToneMapping d \<and> \<not> genericToneMappingSupported silentInspection
   | (mode, None) \<Rightarrow> False"
  by code_simp

end
