(* ===== verification/Playback_Select.thy ===== *)
theory Playback_Select
  imports Playback_Decision
begin

text \<open>
  Which source of a request is played: \<open>decidePlaybackSource\<close> of
  \<open>server/internal/playback/decision.go\<close> with its candidate list, its ranking, the loop over the
  ranked candidates and \<open>applyPlaybackDecision\<close>. The slices \<open>sources\<close> and \<open>assets\<close> the code updates
  in place are passed in and returned. The probe (a media process behind a cache) is a parameter:
  \<open>probe k asset\<close> is the answer to the \<open>k\<close>-th probe of the call, so two probes of one asset may differ.
\<close>

record sourceCandidate =
  sc_sourceIndex :: nat
  sc_assetIndex :: nat
  sc_directHint :: bool
  sc_resolutionHint :: int

record sourcePlan =
  pl_candidate :: sourceCandidate
  pl_inspection :: MediaInspection
  pl_mode :: string
  pl_decision :: "PlaybackDecision option"

definition sourceResolutionHint :: "Source \<Rightarrow> int" where
  "sourceResolutionHint source =
     (let value = ToLower (src_Hint source)
      in if Contains value ''2160p'' \<or> Contains value ''4k'' then 2160
         else if Contains value ''1080p'' then 1080
         else if Contains value ''720p'' then 720
         else if Contains value ''480p'' then 480
         else 0)"

definition remuxHintRank :: "string \<Rightarrow> int" where
  "remuxHintRank rawURL =
     (let value = ToLower rawURL;
          rank = (if Contains value ''h264'' \<or> Contains value ''x264'' \<or> Contains value ''avc'' then 1 else 2)
      in if Contains value ''aac'' then rank - 1 else rank)"

text \<open>The code's \<open>-1\<close> for an asset that is not found is \<^const>\<open>None\<close>.\<close>

fun storedAssetIndex :: "storedAsset list \<Rightarrow> string \<Rightarrow> nat option" where
  "storedAssetIndex [] ident = None"
| "storedAssetIndex (a # assets) ident =
     (if sa_ID a = ident then Some 0 else map_option Suc (storedAssetIndex assets ident))"

text \<open>
  The first loop. The first result is the early return on a compatible YouTube or external source;
  every direct source with a stored asset becomes a candidate and loses its compatible mark.
\<close>

fun gatherCandidates :: "storedAsset list \<Rightarrow> nat \<Rightarrow> Source list \<Rightarrow> bool \<times> sourceCandidate list \<times> Source list" where
  "gatherCandidates assets index [] = (False, [], [])"
| "gatherCandidates assets index (source # sources) =
     (let (stop, candidates, rest) = gatherCandidates assets (Suc index) sources
      in if src_Mode source = ''youtube'' \<or> src_Mode source = ''external'' then
           (if src_Compatible source then (True, [], source # sources) else (stop, candidates, source # rest))
         else if src_Mode source \<noteq> ''direct'' \<or> src_URL source = [] then (stop, candidates, source # rest)
         else (case storedAssetIndex assets (src_ID source) of
                 None \<Rightarrow> (stop, candidates, source # rest)
               | Some assetIndex \<Rightarrow>
                   (stop,
                    \<lparr>sc_sourceIndex = index, sc_assetIndex = assetIndex, sc_directHint = src_Compatible source,
                     sc_resolutionHint = sourceResolutionHint source\<rparr> # candidates,
                    source\<lparr>src_Compatible := False\<rparr> # rest)))"

definition candidateLess :: "Source list \<Rightarrow> sourceCandidate \<Rightarrow> sourceCandidate \<Rightarrow> bool" where
  "candidateLess sources left right =
     (if sc_resolutionHint left \<noteq> sc_resolutionHint right then sc_resolutionHint left > sc_resolutionHint right
      else if sc_directHint left \<noteq> sc_directHint right then sc_directHint left
      else remuxHintRank (src_Hint (sources ! sc_sourceIndex left)) < remuxHintRank (src_Hint (sources ! sc_sourceIndex right)))"

definition planVideoHeight :: "sourcePlan \<Rightarrow> int" where
  "planVideoHeight plan =
     (case primaryTrack (mi_VideoTracks (pl_inspection plan)) of None \<Rightarrow> 0 | Some video \<Rightarrow> mt_Height video)"

text \<open>A plan whose mode is empty is the code's zero plan: \<^const>\<open>None\<close>.\<close>

definition betterCopyPlan :: "sourcePlan \<Rightarrow> sourcePlan option \<Rightarrow> bool \<Rightarrow> bool \<Rightarrow> bool" where
  "betterCopyPlan candidate current preferDirect useInspectedHeight \<longleftrightarrow>
     (case current of None \<Rightarrow> True
      | Some cur \<Rightarrow>
          (let hintC = sc_resolutionHint (pl_candidate candidate);
               hintR = sc_resolutionHint (pl_candidate cur);
               inspected = (useInspectedHeight \<or> hintC = hintR);
               candidateQuality = (if inspected then planVideoHeight candidate else hintC);
               currentQuality = (if inspected then planVideoHeight cur else hintR)
           in if candidateQuality \<noteq> currentQuality then candidateQuality > currentQuality
              else preferDirect \<and> pl_mode candidate = ''direct'' \<and> pl_mode cur = processingRemux))"

definition copyMode :: "string \<Rightarrow> bool" where
  "copyMode mode \<longleftrightarrow> mode = ''direct'' \<or> mode = processingRemux"

section \<open>The loop over the ranked candidates\<close>

record selection =
  sel_sources :: "Source list"
  sel_conversionDenied :: bool
  sel_capabilityMissing :: bool
  sel_copyPlan :: "sourcePlan option"
  sel_transcodePlan :: "sourcePlan option"
  sel_fallbackCopyPlan :: "sourcePlan option"
  sel_fallbackTranscodePlan :: "sourcePlan option"
  sel_probeErrors :: "playback_error option"

definition joinError :: "playback_error option \<Rightarrow> playback_error \<Rightarrow> playback_error" where
  "joinError probeErrors err = ErrJoin (case probeErrors of None \<Rightarrow> [err] | Some e \<Rightarrow> [e, err])"

definition mislabeledPlan :: "sourcePlan \<Rightarrow> bool" where
  "mislabeledPlan plan \<longleftrightarrow>
     (let hint = sc_resolutionHint (pl_candidate plan)
      in hint > 0 \<and>
         (case primaryTrack (mi_VideoTracks (pl_inspection plan)) of None \<Rightarrow> False
          | Some video \<Rightarrow> mt_Height video < go_div (hint * 9) 10))"

text \<open>The tail of the loop body: a plan the client can play is kept when it beats the kept one.\<close>

definition recordPlan :: "bool \<Rightarrow> sourcePlan \<Rightarrow> selection \<Rightarrow> selection" where
  "recordPlan preferDirect plan st =
     (if mislabeledPlan plan then
        (if planVideoHeight plan \<le> 0 then st
         else if copyMode (pl_mode plan) then
           (if betterCopyPlan plan (sel_fallbackCopyPlan st) preferDirect True
            then st\<lparr>sel_fallbackCopyPlan := Some plan\<rparr> else st)
         else if (case sel_fallbackTranscodePlan st of None \<Rightarrow> True
                  | Some cur \<Rightarrow> planVideoHeight plan > planVideoHeight cur)
              then st\<lparr>sel_fallbackTranscodePlan := Some plan\<rparr> else st)
      else if copyMode (pl_mode plan) then
        (if betterCopyPlan plan (sel_copyPlan st) preferDirect False
         then st\<lparr>sel_copyPlan := Some plan\<rparr> else st)
      else (case sel_transcodePlan st of None \<Rightarrow> st\<lparr>sel_transcodePlan := Some plan\<rparr> | Some _ \<Rightarrow> st))"

definition inspectedSource :: "MediaInspection \<Rightarrow> Source \<Rightarrow> Source" where
  "inspectedSource inspection source =
     (let s = source\<lparr>src_Media := Some inspection\<rparr>
      in if mi_Container inspection \<noteq> [] then s\<lparr>src_Container := mi_Container inspection\<rparr> else s)"

definition decideCandidate ::
    "(nat \<Rightarrow> storedAsset \<Rightarrow> playback_error + MediaInspection) \<Rightarrow> storedAsset list \<Rightarrow> Capabilities \<Rightarrow> bool \<Rightarrow> bool \<Rightarrow>
     nat \<times> sourceCandidate \<Rightarrow> selection \<Rightarrow> selection" where
  "decideCandidate probe assets capabilities allowTranscoding preferDirect kc st =
     (case kc of (k, candidate) \<Rightarrow>
        (case probe k (assets ! sc_assetIndex candidate) of
           Inl err \<Rightarrow> st\<lparr>sel_probeErrors := Some (joinError (sel_probeErrors st) err)\<rparr>
         | Inr inspection \<Rightarrow>
             (let source = inspectedSource inspection (sel_sources st ! sc_sourceIndex candidate);
                  st1 = st\<lparr>sel_sources := (sel_sources st)[sc_sourceIndex candidate := source]\<rparr>;
                  (mode, decision) = playbackMode source inspection capabilities
              in if mode = [] then
                   (if \<not> allowTranscoding \<and> transcodingRequired inspection capabilities
                    then st1\<lparr>sel_conversionDenied := True\<rparr> else st1\<lparr>sel_capabilityMissing := True\<rparr>)
                 else if (mode = processingTranscodeAudio \<or> mode = processingTranscode) \<and> \<not> allowTranscoding then
                   st1\<lparr>sel_conversionDenied := True\<rparr>
                 else recordPlan preferDirect
                   \<lparr>pl_candidate = candidate, pl_inspection = inspection, pl_mode = mode, pl_decision = decision\<rparr> st1)))"

definition selectedPlan :: "selection \<Rightarrow> sourcePlan option" where
  "selectedPlan st =
     (case sel_copyPlan st of Some p \<Rightarrow> Some p
      | None \<Rightarrow> (case sel_fallbackCopyPlan st of Some p \<Rightarrow> Some p
      | None \<Rightarrow> (case sel_transcodePlan st of Some p \<Rightarrow> Some p
      | None \<Rightarrow> sel_fallbackTranscodePlan st)))"

section \<open>Applying the decision\<close>

definition applyDecisionToSource ::
    "MediaInspection \<Rightarrow> string \<Rightarrow> PlaybackDecision option \<Rightarrow> Source \<Rightarrow> Source" where
  "applyDecisionToSource inspection mode decision source =
     (let s = source\<lparr>src_Media := Some inspection, src_Mode := mode, src_Compatible := True,
            src_Decision := clonePlaybackDecision decision\<rparr>
      in if mode = ''direct'' then s
         else s\<lparr>src_Protocol := fst processingOutput, src_Container := snd processingOutput\<rparr>)"

definition decisionToneMapSafe :: "PlaybackDecision \<Rightarrow> bool" where
  "decisionToneMapSafe decision \<longleftrightarrow>
     (case pd_Source decision of None \<Rightarrow> True
      | Some s \<Rightarrow> \<not> EqualFold (TrimSpace (ps_HDRFormat s)) ''dolby_vision'' \<or>
          dolbyVisionBaseHDRFormat (ps_DolbyVisionProfile s) (ps_DolbyVisionBLPresent s) (ps_DolbyVisionCompatibilityID s) \<noteq> [])"

definition applyDecisionToAsset ::
    "MediaInspection \<Rightarrow> string \<Rightarrow> PlaybackDecision option \<Rightarrow> Capabilities \<Rightarrow> storedAsset \<Rightarrow> storedAsset" where
  "applyDecisionToAsset inspection mode decision capabilities asset =
     (let a1 = (if mi_Container inspection \<noteq> [] then asset\<lparr>sa_Container := mi_Container inspection\<rparr> else asset);
          a2 = a1\<lparr>sa_Decision := clonePlaybackDecision decision\<rparr>;
          a3 = a2\<lparr>sa_Kind := mode\<rparr>;
          a4 = (case primaryTrack (mi_VideoTracks inspection) of None \<Rightarrow> a3
            | Some video \<Rightarrow> a3\<lparr>sa_VideoBitDepth := mt_BitDepth video\<rparr>);
          a5 = (case decision of None \<Rightarrow> a4
            | Some d \<Rightarrow>
                (let b = a4\<lparr>sa_ToneMap := pd_ToneMapping d, sa_DolbyVisionToneMapSafe := decisionToneMapSafe d\<rparr>
                 in case pd_Target d of None \<Rightarrow> b
                    | Some t \<Rightarrow>
                        (let b1 = b\<lparr>sa_TargetHeight := pt_Height t, sa_VideoBitrateKbps := pt_VideoBitrateKbps t\<rparr>
                         in if pd_VideoAction d = ''transcode'' then
                              (let codec = canonicalTargetVideoCodec (pt_VideoCodec t);
                                   b2 = b1\<lparr>sa_TargetVideoCodec := codec, sa_QualityPreset := transcodeQualityPreset capabilities\<rparr>
                               in if codec = ''hevc'' \<or> codec = ''av1'' then b2\<lparr>sa_HLSSegmentContainer := ''mp4''\<rparr> else b2)
                            else b1)))
      in if mode = ''direct'' then a2
         else a5\<lparr>sa_MaximumAudioChannels := cap_MaximumAudioChannels capabilities\<rparr>)"

definition applyPlaybackDecision ::
    "Source list \<Rightarrow> storedAsset list \<Rightarrow> sourceCandidate \<Rightarrow> MediaInspection \<Rightarrow> string \<Rightarrow> PlaybackDecision option \<Rightarrow>
     Capabilities \<Rightarrow> Source list \<times> storedAsset list" where
  "applyPlaybackDecision sources assets candidate inspection mode decision capabilities =
     (sources[sc_sourceIndex candidate :=
        applyDecisionToSource inspection mode decision (sources ! sc_sourceIndex candidate)],
      assets[sc_assetIndex candidate :=
        applyDecisionToAsset inspection mode decision capabilities (assets ! sc_assetIndex candidate)])"

section \<open>decidePlaybackSource\<close>

text \<open>With no media processor, the first compatible source gets the plain direct decision.\<close>

fun firstCompatibleIndex :: "Source list \<Rightarrow> nat option" where
  "firstCompatibleIndex [] = None"
| "firstCompatibleIndex (s # ss) = (if src_Compatible s then Some 0 else map_option Suc (firstCompatibleIndex ss))"

definition decideWithoutProcessor :: "Source list \<Rightarrow> storedAsset list \<Rightarrow> Source list \<times> storedAsset list" where
  "decideWithoutProcessor sources assets =
     (case firstCompatibleIndex sources of None \<Rightarrow> (sources, assets)
      | Some i \<Rightarrow>
          (let decision = Some (directDecision zeroMediaInspection)
           in (sources[i := (sources ! i)\<lparr>src_Decision := decision\<rparr>],
               (case storedAssetIndex assets (src_ID (sources ! i)) of None \<Rightarrow> assets
                | Some j \<Rightarrow> assets[j := (assets ! j)\<lparr>sa_Decision := clonePlaybackDecision decision\<rparr>]))))"

definition startSelection :: "Source list \<Rightarrow> selection" where
  "startSelection sources = \<lparr>sel_sources = sources, sel_conversionDenied = False, sel_capabilityMissing = False,
     sel_copyPlan = None, sel_transcodePlan = None, sel_fallbackCopyPlan = None,
     sel_fallbackTranscodePlan = None, sel_probeErrors = None\<rparr>"

definition decideCandidates ::
    "(nat \<Rightarrow> storedAsset \<Rightarrow> playback_error + MediaInspection) \<Rightarrow> storedAsset list \<Rightarrow> Capabilities \<Rightarrow> bool \<Rightarrow> bool \<Rightarrow>
     sourceCandidate list \<Rightarrow> Source list \<Rightarrow> selection" where
  "decideCandidates probe assets capabilities allowTranscoding preferDirect ranked sources =
     fold (decideCandidate probe assets capabilities allowTranscoding preferDirect)
       (enumerate 0 ranked) (startSelection sources)"

definition selectionError :: "selection \<Rightarrow> playback_error option" where
  "selectionError st =
     (case sel_probeErrors st of
        Some e \<Rightarrow> if errorIs e ErrMediaSourceTimeout then Some e
                   else if sel_conversionDenied st then Some ErrTranscodingDisabled
                   else if sel_capabilityMissing st then Some ErrClientCapabilityMissing else None
      | None \<Rightarrow> if sel_conversionDenied st then Some ErrTranscodingDisabled
                 else if sel_capabilityMissing st then Some ErrClientCapabilityMissing else None)"

text \<open>
  \<open>probe = None\<close> is a service with no processor. The variadic policy is a list: no value allows
  transcoding, otherwise its first value decides.
\<close>

definition decidePlaybackSource ::
    "(nat \<Rightarrow> storedAsset \<Rightarrow> playback_error + MediaInspection) option \<Rightarrow> Source list \<Rightarrow> storedAsset list \<Rightarrow>
     Capabilities \<Rightarrow> bool list \<Rightarrow> playback_error option \<times> Source list \<times> storedAsset list" where
  "decidePlaybackSource processor sources assets capabilities policy =
     (let allowTranscoding = (policy = [] \<or> hd policy)
      in case processor of
           None \<Rightarrow> (case decideWithoutProcessor sources assets of (ss, aa) \<Rightarrow> (None, ss, aa))
         | Some probe \<Rightarrow>
             (case gatherCandidates assets 0 sources of (stop, candidates, sources1) \<Rightarrow>
                if stop then (None, sources1, assets)
                else
                  (let ranked = SliceStable (candidateLess sources1) candidates;
                       preferDirect = (case cap_PreferDirectPlay capabilities of None \<Rightarrow> True | Some b \<Rightarrow> b);
                       st = decideCandidates probe assets capabilities allowTranscoding preferDirect ranked sources1
                   in case selectedPlan st of
                        Some plan \<Rightarrow>
                          (case applyPlaybackDecision (sel_sources st) assets (pl_candidate plan) (pl_inspection plan)
                             (pl_mode plan) (pl_decision plan) capabilities of (ss, aa) \<Rightarrow> (None, ss, aa))
                      | None \<Rightarrow> (selectionError st, sel_sources st, assets))))"

section \<open>Candidates\<close>

definition isCandidate :: "storedAsset list \<Rightarrow> Source \<Rightarrow> bool" where
  "isCandidate assets source \<longleftrightarrow>
     src_Mode source = ''direct'' \<and> src_URL source \<noteq> [] \<and> storedAssetIndex assets (src_ID source) \<noteq> None"

definition withdrawn :: "storedAsset list \<Rightarrow> Source \<Rightarrow> Source" where
  "withdrawn assets source = (if isCandidate assets source then source\<lparr>src_Compatible := False\<rparr> else source)"

definition openedElsewhere :: "Source \<Rightarrow> bool" where
  "openedElsewhere source \<longleftrightarrow> (src_Mode source = ''youtube'' \<or> src_Mode source = ''external'') \<and> src_Compatible source"

lemma gatherCandidates_stop: "fst (gatherCandidates assets n sources) \<longleftrightarrow> list_ex openedElsewhere sources"
  by (induction sources arbitrary: n)
    (auto simp: openedElsewhere_def Let_def split: prod.splits option.splits if_splits, (metis fst_conv)+)

lemma gatherCandidates_sources:
  "gatherCandidates assets n sources = (False, candidates, sources') \<Longrightarrow> sources' = map (withdrawn assets) sources"
  by (induction sources arbitrary: n candidates sources')
    (auto simp: withdrawn_def isCandidate_def Let_def split: prod.splits option.splits if_splits)

lemma gatherCandidates_indices:
  "gatherCandidates assets n sources = (False, candidates, sources') \<Longrightarrow>
   map sc_sourceIndex candidates = filter (\<lambda>i. isCandidate assets (sources ! (i - n))) [n..<n + length sources]"
proof (induction sources arbitrary: n candidates sources')
  case (Cons s ss)
  obtain stop cs ss' where rec: "gatherCandidates assets (Suc n) ss = (stop, cs, ss')"
    by (metis prod_cases3)
  with Cons.prems have "\<not> stop"
    by (auto simp: Let_def split: option.splits if_splits)
  with Cons.IH rec have "map sc_sourceIndex cs = filter (\<lambda>i. isCandidate assets (ss ! (i - Suc n))) [Suc n..<Suc n + length ss]"
    by auto
  also have "\<dots> = filter (\<lambda>i. isCandidate assets ((s # ss) ! (i - n))) [Suc n..<Suc n + length ss]"
    by (rule filter_cong) (auto simp: nth_Cons')
  finally have cs: "map sc_sourceIndex cs = filter (\<lambda>i. isCandidate assets ((s # ss) ! (i - n))) [Suc n..<Suc n + length ss]" .
  have "[n..<n + length (s # ss)] = n # [Suc n..<Suc n + length ss]"
    by (simp add: upt_rec)
  with cs rec Cons.prems \<open>\<not> stop\<close> show ?case
    by (auto simp: isCandidate_def Let_def split: option.splits if_splits)
qed simp

lemma gatherCandidates_index:
  assumes "gatherCandidates assets 0 sources = (False, candidates, sources')"
  shows "distinct (map sc_sourceIndex candidates)"
    and "c \<in> set candidates \<Longrightarrow> sc_sourceIndex c < length sources \<and> isCandidate assets (sources ! sc_sourceIndex c)"
proof -
  show "distinct (map sc_sourceIndex candidates)"
    by (simp add: gatherCandidates_indices [OF assms])
  have "c \<in> set candidates \<Longrightarrow> sc_sourceIndex c \<in> set (map sc_sourceIndex candidates)"
    by simp
  then show "c \<in> set candidates \<Longrightarrow> sc_sourceIndex c < length sources \<and> isCandidate assets (sources ! sc_sourceIndex c)"
    unfolding gatherCandidates_indices [OF assms] by auto
qed

interpretation ranking: slice_order "candidateLess sources" for sources
  by unfold_locales (auto simp: candidateLess_def split: if_splits)

section \<open>The first best element of a list\<close>

definition firstBest :: "('a \<Rightarrow> 'k :: linorder) \<Rightarrow> 'a list \<Rightarrow> 'a option" where
  "firstBest key xs = find (\<lambda>x. list_all (\<lambda>y. key y \<le> key x) xs) xs"

definition keepBetter :: "('a \<Rightarrow> 'k :: linorder) \<Rightarrow> 'a \<Rightarrow> 'a option \<Rightarrow> 'a option" where
  "keepBetter key x best = (case best of None \<Rightarrow> Some x | Some y \<Rightarrow> if key y < key x then Some x else best)"

lemma firstBest_Nil [simp]: "firstBest key [] = None"
  by (simp add: firstBest_def)

lemma firstBest_Some: "firstBest key xs = Some x \<Longrightarrow> x \<in> set xs \<and> (\<forall>y \<in> set xs. key y \<le> key x)"
  by (auto simp: firstBest_def find_Some_iff list_all_iff)

lemma firstBest_None [simp]: "firstBest key xs = None \<longleftrightarrow> xs = []"
proof
  assume none: "firstBest key xs = None"
  show "xs = []"
  proof (rule ccontr)
    assume "xs \<noteq> []"
    then have "Max (key ` set xs) \<in> key ` set xs"
      by (intro Max_in) auto
    then obtain x where "x \<in> set xs" "key x = Max (key ` set xs)"
      by auto
    with none show False
      by (auto simp: firstBest_def find_None_iff list_all_iff)
  qed
qed simp

lemma find_append: "find P (xs @ ys) = (case find P xs of None \<Rightarrow> find P ys | r \<Rightarrow> r)"
  by (induction xs) auto

lemma find_cong_set: "(\<And>x. x \<in> set xs \<Longrightarrow> P x = Q x) \<Longrightarrow> find P xs = find Q xs"
  by (induction xs) auto

lemma firstBest_snoc: "firstBest key (xs @ [x]) = keepBetter key x (firstBest key xs)"
proof (cases "firstBest key xs")
  case None
  then show ?thesis
    by (simp add: keepBetter_def) (simp add: firstBest_def)
next
  case (Some y)
  note y = firstBest_Some [OF Some]
  show ?thesis
  proof (cases "key y < key x")
    case True
    have "find (\<lambda>z. list_all (\<lambda>w. key w \<le> key z) (xs @ [x])) xs = None"
      using y True by (auto simp: find_None_iff list_all_iff)
    moreover have "list_all (\<lambda>w. key w \<le> key x) (xs @ [x])"
      using y True by (auto simp: list_all_iff)
    ultimately show ?thesis
      using Some True by (simp add: firstBest_def keepBetter_def find_append)
  next
    case False
    have "find (\<lambda>z. list_all (\<lambda>w. key w \<le> key z) (xs @ [x])) xs = find (\<lambda>z. list_all (\<lambda>w. key w \<le> key z) xs) xs"
      by (rule find_cong_set) (use y False in \<open>auto simp: list_all_iff\<close>)
    with Some False show ?thesis
      by (simp add: firstBest_def keepBetter_def find_append)
  qed
qed

lemma firstBest_fold: "firstBest key xs = fold (keepBetter key) xs None"
  by (induction xs rule: rev_induct) (simp_all add: firstBest_snoc)

section \<open>What a candidate contributes\<close>

definition candidatePlan ::
    "(nat \<Rightarrow> storedAsset \<Rightarrow> playback_error + MediaInspection) \<Rightarrow> storedAsset list \<Rightarrow> Capabilities \<Rightarrow> bool \<Rightarrow> Source list \<Rightarrow>
     nat \<times> sourceCandidate \<Rightarrow> sourcePlan option" where
  "candidatePlan probe assets capabilities allowTranscoding sources kc =
     (case probe (fst kc) (assets ! sc_assetIndex (snd kc)) of Inl err \<Rightarrow> None
      | Inr inspection \<Rightarrow>
          (case playbackMode (inspectedSource inspection (sources ! sc_sourceIndex (snd kc))) inspection capabilities of
             (mode, decision) \<Rightarrow>
               if mode = [] \<or> \<not> allowTranscoding \<and> \<not> copyMode mode then None
               else Some \<lparr>pl_candidate = snd kc, pl_inspection = inspection, pl_mode = mode, pl_decision = decision\<rparr>))"

lemma playbackMode_modes:
  "playbackMode source inspection capabilities = (mode, decision) \<Longrightarrow>
     mode \<in> {[], ''direct'', processingRemux, processingTranscodeAudio, processingTranscode}"
  by (auto simp: playbackMode_def Let_def split: option.splits if_splits)

text \<open>The rank of a plan: honest copies, then mislabelled copies, then honest and mislabelled transcodes.\<close>

definition planRank :: "bool \<Rightarrow> sourcePlan \<Rightarrow> nat \<times> int \<times> int \<times> nat" where
  "planRank preferDirect plan =
     (let bonus = (if preferDirect \<and> pl_mode plan = ''direct'' then 1 else 0)
      in if copyMode (pl_mode plan) then
           (if mislabeledPlan plan then (2, 0, planVideoHeight plan, bonus)
            else (3, sc_resolutionHint (pl_candidate plan), planVideoHeight plan, bonus))
         else if mislabeledPlan plan then (0, 0, planVideoHeight plan, 0) else (1, 0, 0, 0))"

definition eligiblePlan :: "sourcePlan \<Rightarrow> bool" where
  "eligiblePlan plan \<longleftrightarrow> mislabeledPlan plan \<longrightarrow> 0 < planVideoHeight plan"

definition slotsOk :: "selection \<Rightarrow> bool" where
  "slotsOk st \<longleftrightarrow>
     pred_option (\<lambda>p. copyMode (pl_mode p) \<and> \<not> mislabeledPlan p) (sel_copyPlan st) \<and>
     pred_option (\<lambda>p. copyMode (pl_mode p) \<and> mislabeledPlan p) (sel_fallbackCopyPlan st) \<and>
     pred_option (\<lambda>p. \<not> copyMode (pl_mode p) \<and> \<not> mislabeledPlan p) (sel_transcodePlan st) \<and>
     pred_option (\<lambda>p. \<not> copyMode (pl_mode p) \<and> mislabeledPlan p) (sel_fallbackTranscodePlan st)"

lemma betterCopyPlan_rank:
  assumes "copyMode (pl_mode p)" "copyMode (pl_mode q)" "mislabeledPlan p = mislabeledPlan q"
  shows "betterCopyPlan p (Some q) preferDirect (mislabeledPlan q) \<longleftrightarrow> planRank preferDirect q < planRank preferDirect p"
  using assms by (auto simp: betterCopyPlan_def planRank_def copyMode_def Let_def)

lemma recordPlan_slots: "slotsOk st \<Longrightarrow> slotsOk (recordPlan preferDirect plan st)"
  by (auto simp: slotsOk_def recordPlan_def split: option.splits)

lemma planRank_class:
  "copyMode (pl_mode p) \<Longrightarrow> \<not> copyMode (pl_mode q) \<Longrightarrow> planRank preferDirect q < planRank preferDirect p"
  "copyMode (pl_mode p) \<Longrightarrow> copyMode (pl_mode q) \<Longrightarrow> \<not> mislabeledPlan p \<Longrightarrow> mislabeledPlan q \<Longrightarrow>
     planRank preferDirect q < planRank preferDirect p"
  "\<not> copyMode (pl_mode p) \<Longrightarrow> \<not> copyMode (pl_mode q) \<Longrightarrow> \<not> mislabeledPlan p \<Longrightarrow> mislabeledPlan q \<Longrightarrow>
     planRank preferDirect q < planRank preferDirect p"
  "\<not> copyMode (pl_mode p) \<Longrightarrow> \<not> copyMode (pl_mode q) \<Longrightarrow> \<not> mislabeledPlan p \<Longrightarrow> \<not> mislabeledPlan q \<Longrightarrow>
     \<not> planRank preferDirect q < planRank preferDirect p"
  "\<not> copyMode (pl_mode p) \<Longrightarrow> \<not> copyMode (pl_mode q) \<Longrightarrow> mislabeledPlan p \<Longrightarrow> mislabeledPlan q \<Longrightarrow>
     planRank preferDirect q < planRank preferDirect p \<longleftrightarrow> planVideoHeight q < planVideoHeight p"
  by (simp_all add: planRank_def Let_def)

lemma planRank_class_rev:
  "copyMode (pl_mode p) \<Longrightarrow> \<not> copyMode (pl_mode q) \<Longrightarrow> \<not> planRank preferDirect p < planRank preferDirect q"
  "copyMode (pl_mode p) \<Longrightarrow> copyMode (pl_mode q) \<Longrightarrow> \<not> mislabeledPlan p \<Longrightarrow> mislabeledPlan q \<Longrightarrow>
     \<not> planRank preferDirect p < planRank preferDirect q"
  "\<not> copyMode (pl_mode p) \<Longrightarrow> \<not> copyMode (pl_mode q) \<Longrightarrow> \<not> mislabeledPlan p \<Longrightarrow> mislabeledPlan q \<Longrightarrow>
     \<not> planRank preferDirect p < planRank preferDirect q"
  by (simp_all add: planRank_def Let_def)

lemma betterCopyPlan_None [simp]: "betterCopyPlan p None preferDirect b"
  by (simp add: betterCopyPlan_def)

lemma recordPlan_selects:
  assumes "slotsOk st"
  shows "selectedPlan (recordPlan preferDirect plan st) =
    (if eligiblePlan plan then keepBetter (planRank preferDirect) plan (selectedPlan st) else selectedPlan st)"
proof -
  obtain copy fallback transcode fallbackT where slots: "sel_copyPlan st = copy" "sel_fallbackCopyPlan st = fallback"
    "sel_transcodePlan st = transcode" "sel_fallbackTranscodePlan st = fallbackT"
    by blast
  note ranks = planRank_class planRank_class_rev betterCopyPlan_rank [of plan _ preferDirect, symmetric]
  note defs = recordPlan_def eligiblePlan_def keepBetter_def selectedPlan_def slots
  show ?thesis
  proof (cases "copyMode (pl_mode plan)")
    case True
    with assms show ?thesis
      by (cases copy; cases fallback; cases transcode; cases fallbackT; cases "mislabeledPlan plan")
        (simp_all add: defs ranks slotsOk_def)
  next
    case False
    with assms show ?thesis
      by (cases copy; cases fallback; cases transcode; cases fallbackT; cases "mislabeledPlan plan")
        (simp_all add: defs ranks slotsOk_def)
  qed
qed

section \<open>The loop\<close>

lemma recordPlan_sources [simp]: "sel_sources (recordPlan preferDirect plan st) = sel_sources st"
  by (simp add: recordPlan_def split: option.splits)

definition probedSources ::
    "(nat \<Rightarrow> storedAsset \<Rightarrow> playback_error + MediaInspection) \<Rightarrow> storedAsset list \<Rightarrow> nat \<times> sourceCandidate \<Rightarrow>
     Source list \<Rightarrow> Source list" where
  "probedSources probe assets kc sources =
     (case probe (fst kc) (assets ! sc_assetIndex (snd kc)) of Inl err \<Rightarrow> sources
      | Inr inspection \<Rightarrow> sources[sc_sourceIndex (snd kc) := inspectedSource inspection (sources ! sc_sourceIndex (snd kc))])"

lemma decideCandidate_sources:
  "sel_sources (decideCandidate probe assets capabilities allow preferDirect kc st) = probedSources probe assets kc (sel_sources st)"
  by (cases kc) (simp add: decideCandidate_def probedSources_def Let_def split: sum.split prod.split)

lemma inspectedSource_keeps [simp]:
  "src_Compatible (inspectedSource inspection s) = src_Compatible s" "src_Mode (inspectedSource inspection s) = src_Mode s"
  by (simp_all add: inspectedSource_def Let_def)

lemma probedSources_length [simp]: "length (probedSources probe assets kc sources) = length sources"
  by (simp add: probedSources_def split: sum.split)

lemma probedSources_other: "i \<noteq> sc_sourceIndex (snd kc) \<Longrightarrow> probedSources probe assets kc sources ! i = sources ! i"
  by (simp add: probedSources_def split: sum.split)

lemma probedSources_keeps:
  assumes "i < length sources"
  shows "src_Compatible (probedSources probe assets kc sources ! i) = src_Compatible (sources ! i)"
    "src_Mode (probedSources probe assets kc sources ! i) = src_Mode (sources ! i)"
  using assms by (cases "sc_sourceIndex (snd kc) = i"; auto simp: probedSources_def split: sum.split)+

lemma decideCandidate_plan:
  assumes "sel_sources st ! sc_sourceIndex (snd kc) = sources ! sc_sourceIndex (snd kc)" "slotsOk st"
  shows "slotsOk (decideCandidate probe assets capabilities allow preferDirect kc st)"
    and "selectedPlan (decideCandidate probe assets capabilities allow preferDirect kc st) =
      (case candidatePlan probe assets capabilities allow sources kc of None \<Rightarrow> selectedPlan st
       | Some plan \<Rightarrow> if eligiblePlan plan then keepBetter (planRank preferDirect) plan (selectedPlan st) else selectedPlan st)"
proof -
  obtain k c where kc: "kc = (k, c)" by force
  have upd: "slotsOk (st\<lparr>sel_sources := ss\<rparr>)" "slotsOk (st\<lparr>sel_sources := ss, sel_conversionDenied := b\<rparr>)"
      "slotsOk (st\<lparr>sel_sources := ss, sel_capabilityMissing := b\<rparr>)" "slotsOk (st\<lparr>sel_probeErrors := e\<rparr>)"
      "selectedPlan (st\<lparr>sel_sources := ss\<rparr>) = selectedPlan st"
      "selectedPlan (st\<lparr>sel_sources := ss, sel_conversionDenied := b\<rparr>) = selectedPlan st"
      "selectedPlan (st\<lparr>sel_sources := ss, sel_capabilityMissing := b\<rparr>) = selectedPlan st"
      "selectedPlan (st\<lparr>sel_probeErrors := e\<rparr>) = selectedPlan st" for ss b e
    using assms(2) by (simp_all add: slotsOk_def selectedPlan_def split: option.split)
  show "slotsOk (decideCandidate probe assets capabilities allow preferDirect kc st)"
    by (simp add: kc decideCandidate_def Let_def upd recordPlan_slots split: sum.split prod.split)
  show "selectedPlan (decideCandidate probe assets capabilities allow preferDirect kc st) =
      (case candidatePlan probe assets capabilities allow sources kc of None \<Rightarrow> selectedPlan st
       | Some plan \<Rightarrow> if eligiblePlan plan then keepBetter (planRank preferDirect) plan (selectedPlan st) else selectedPlan st)"
  proof (cases "probe k (assets ! sc_assetIndex c)")
    case (Inl e)
    then show ?thesis by (simp add: kc decideCandidate_def candidatePlan_def upd)
  next
    case (Inr inspection)
    obtain mode decision where m: "playbackMode (inspectedSource inspection (sources ! sc_sourceIndex c)) inspection capabilities = (mode, decision)"
      by force
    have denied: "(mode = processingTranscodeAudio \<or> mode = processingTranscode) \<longleftrightarrow> mode \<noteq> [] \<and> \<not> copyMode mode"
      using playbackMode_modes [OF m] by (auto simp: copyMode_def)
    from Inr m assms(1) show ?thesis
      by (simp add: kc decideCandidate_def candidatePlan_def upd recordPlan_selects denied Let_def)
  qed
qed

definition candidatePlans ::
    "(nat \<Rightarrow> storedAsset \<Rightarrow> playback_error + MediaInspection) \<Rightarrow> storedAsset list \<Rightarrow> Capabilities \<Rightarrow> bool \<Rightarrow> Source list \<Rightarrow>
     (nat \<times> sourceCandidate) list \<Rightarrow> sourcePlan list" where
  "candidatePlans probe assets capabilities allowTranscoding sources kcs =
     filter eligiblePlan (List.map_filter (candidatePlan probe assets capabilities allowTranscoding sources) kcs)"

lemma fold_decideCandidate:
  assumes "distinct (map (sc_sourceIndex \<circ> snd) kcs)" "slotsOk st"
    and "\<forall>kc \<in> set kcs. sel_sources st ! sc_sourceIndex (snd kc) = sources ! sc_sourceIndex (snd kc)"
  shows "selectedPlan (fold (decideCandidate probe assets capabilities allow preferDirect) kcs st) =
      fold (keepBetter (planRank preferDirect)) (candidatePlans probe assets capabilities allow sources kcs) (selectedPlan st)"
  using assms
proof (induction kcs arbitrary: st)
  case (Cons kc kcs)
  let ?st = "decideCandidate probe assets capabilities allow preferDirect kc st"
  have here: "sel_sources st ! sc_sourceIndex (snd kc) = sources ! sc_sourceIndex (snd kc)"
    using Cons.prems by simp
  have indexOther: "sc_sourceIndex (snd kc) \<notin> (\<lambda>q. sc_sourceIndex (snd q)) ` set kcs"
    using Cons.prems(1) by simp
  have "\<forall>q \<in> set kcs. sel_sources ?st ! sc_sourceIndex (snd q) = sources ! sc_sourceIndex (snd q)"
  proof
    fix q assume q: "q \<in> set kcs"
    then have "sc_sourceIndex (snd q) \<noteq> sc_sourceIndex (snd kc)"
      using indexOther by (metis image_eqI)
    with q Cons.prems(3) show "sel_sources ?st ! sc_sourceIndex (snd q) = sources ! sc_sourceIndex (snd q)"
      by (simp add: decideCandidate_sources probedSources_other)
  qed
  then have "selectedPlan (fold (decideCandidate probe assets capabilities allow preferDirect) kcs ?st) =
      fold (keepBetter (planRank preferDirect)) (candidatePlans probe assets capabilities allow sources kcs) (selectedPlan ?st)"
    using Cons.IH Cons.prems decideCandidate_plan(1) [OF here] by simp
  with Cons.prems(2) show ?case
    by (simp add: decideCandidate_plan(2) [OF here] candidatePlans_def List.map_filter_def split: option.split)
qed (simp add: candidatePlans_def)

lemma fold_sources:
  "sel_sources (fold (decideCandidate probe assets capabilities allow preferDirect) kcs st) =
     fold (probedSources probe assets) kcs (sel_sources st)"
  by (induction kcs arbitrary: st) (simp_all add: decideCandidate_sources)

lemma fold_probedSources_length [simp]: "length (fold (probedSources probe assets) kcs sources) = length sources"
  by (induction kcs arbitrary: sources) simp_all

lemma fold_probedSources:
  assumes "i < length sources"
  shows "src_Compatible (fold (probedSources probe assets) kcs sources ! i) = src_Compatible (sources ! i)"
    and "src_Mode (fold (probedSources probe assets) kcs sources ! i) = src_Mode (sources ! i)"
    and "i \<notin> sc_sourceIndex ` snd ` set kcs \<Longrightarrow> fold (probedSources probe assets) kcs sources ! i = sources ! i"
  using assms
  by (induction kcs arbitrary: sources) (simp_all add: probedSources_keeps probedSources_other)

section \<open>The outcome\<close>

definition rankedCandidates :: "storedAsset list \<Rightarrow> Source list \<Rightarrow> sourceCandidate list" where
  "rankedCandidates assets sources =
     SliceStable (candidateLess (map (withdrawn assets) sources)) (fst (snd (gatherCandidates assets 0 sources)))"

definition sourcePlans ::
    "(nat \<Rightarrow> storedAsset \<Rightarrow> playback_error + MediaInspection) \<Rightarrow> Source list \<Rightarrow> storedAsset list \<Rightarrow> Capabilities \<Rightarrow> bool list \<Rightarrow>
     sourcePlan list" where
  "sourcePlans probe sources assets capabilities policy =
     candidatePlans probe assets capabilities (policy = [] \<or> hd policy) (map (withdrawn assets) sources)
       (enumerate 0 (rankedCandidates assets sources))"

definition prefersDirect :: "Capabilities \<Rightarrow> bool" where
  "prefersDirect capabilities \<longleftrightarrow> cap_PreferDirectPlay capabilities \<noteq> Some False"

lemma gatherCandidates_open:
  assumes "\<not> list_ex openedElsewhere sources"
  obtains candidates where "gatherCandidates assets 0 sources = (False, candidates, map (withdrawn assets) sources)"
proof -
  obtain stop candidates sources1 where g: "gatherCandidates assets 0 sources = (stop, candidates, sources1)"
    by (metis prod_cases3)
  with assms gatherCandidates_stop [of assets 0 sources] have "\<not> stop" by simp
  with g gatherCandidates_sources [of assets 0 sources candidates sources1] that show thesis by simp
qed

lemma rankedCandidates_index:
  assumes "\<not> list_ex openedElsewhere sources"
  shows "distinct (map sc_sourceIndex (rankedCandidates assets sources))"
    and "c \<in> set (rankedCandidates assets sources) \<Longrightarrow>
      sc_sourceIndex c < length sources \<and> isCandidate assets (sources ! sc_sourceIndex c)"
proof -
  obtain candidates where g: "gatherCandidates assets 0 sources = (False, candidates, map (withdrawn assets) sources)"
    using gatherCandidates_open [OF assms] .
  have "mset (map sc_sourceIndex (rankedCandidates assets sources)) = mset (map sc_sourceIndex candidates)"
    by (simp add: rankedCandidates_def g)
  then show "distinct (map sc_sourceIndex (rankedCandidates assets sources))"
    using gatherCandidates_index(1) [OF g] mset_eq_imp_distinct_iff by blast
  show "c \<in> set (rankedCandidates assets sources) \<Longrightarrow>
      sc_sourceIndex c < length sources \<and> isCandidate assets (sources ! sc_sourceIndex c)"
    using gatherCandidates_index(2) [OF g] by (simp add: rankedCandidates_def g)
qed

lemma candidatePlan_Some:
  assumes "candidatePlan probe assets capabilities allow sources kc = Some plan"
  shows "pl_candidate plan = snd kc" "pl_mode plan \<noteq> []" "\<not> allow \<Longrightarrow> copyMode (pl_mode plan)"
    "probe (fst kc) (assets ! sc_assetIndex (snd kc)) = Inr (pl_inspection plan)"
    "playbackMode (inspectedSource (pl_inspection plan) (sources ! sc_sourceIndex (snd kc))) (pl_inspection plan) capabilities =
       (pl_mode plan, pl_decision plan)"
  using assms by (auto simp: candidatePlan_def split: sum.splits prod.splits if_splits)

lemma snd_enumerate: "snd ` set (enumerate n xs) = set xs"
  by (simp flip: list.set_map)

lemma probed_kept:
  assumes "\<not> list_ex openedElsewhere sources" "i < length sources" "\<not> isCandidate assets (sources ! i)"
  shows "fold (probedSources probe assets) (enumerate 0 (rankedCandidates assets sources)) (map (withdrawn assets) sources) ! i =
    sources ! i"
proof -
  have "i \<notin> sc_sourceIndex ` set (rankedCandidates assets sources)"
    using rankedCandidates_index(2) [OF assms(1)] assms(3) by blast
  with assms show ?thesis
    by (simp add: fold_probedSources snd_enumerate withdrawn_def)
qed

lemma mem_filter_the:
  assumes "y \<in> set (filter P (map (the \<circ> f) (filter (\<lambda>x. f x \<noteq> None) xs)))"
  obtains x where "x \<in> set xs" "f x = Some y"
  using assms by fastforce

lemma sourcePlans_mem:
  assumes "plan \<in> set (sourcePlans probe sources assets capabilities policy)"
  shows "pl_candidate plan \<in> set (rankedCandidates assets sources)" "pl_mode plan \<noteq> []"
    "\<not> (policy = [] \<or> hd policy) \<Longrightarrow> copyMode (pl_mode plan)"
proof -
  obtain kc where kc: "kc \<in> set (enumerate 0 (rankedCandidates assets sources))"
    and p: "candidatePlan probe assets capabilities (policy = [] \<or> hd policy) (map (withdrawn assets) sources) kc = Some plan"
    using assms unfolding sourcePlans_def candidatePlans_def List.map_filter_def by (elim mem_filter_the)
  from kc have "snd kc \<in> set (rankedCandidates assets sources)"
    unfolding snd_enumerate [of 0 "rankedCandidates assets sources", symmetric] by (rule imageI)
  with candidatePlan_Some [OF p] show "pl_candidate plan \<in> set (rankedCandidates assets sources)" "pl_mode plan \<noteq> []"
    "\<not> (policy = [] \<or> hd policy) \<Longrightarrow> copyMode (pl_mode plan)"
    by simp_all
qed

lemma decidePlaybackSource_open:
  assumes "\<not> list_ex openedElsewhere sources"
  shows "decidePlaybackSource (Some probe) sources assets capabilities policy =
    (let st = decideCandidates probe assets capabilities (policy = [] \<or> hd policy) (prefersDirect capabilities)
           (rankedCandidates assets sources) (map (withdrawn assets) sources);
         ss = fold (probedSources probe assets) (enumerate 0 (rankedCandidates assets sources)) (map (withdrawn assets) sources)
     in case firstBest (planRank (prefersDirect capabilities)) (sourcePlans probe sources assets capabilities policy) of
          Some plan \<Rightarrow> (None,
            ss[sc_sourceIndex (pl_candidate plan) := applyDecisionToSource (pl_inspection plan) (pl_mode plan) (pl_decision plan)
                 (ss ! sc_sourceIndex (pl_candidate plan))],
            assets[sc_assetIndex (pl_candidate plan) := applyDecisionToAsset (pl_inspection plan) (pl_mode plan)
                 (pl_decision plan) capabilities (assets ! sc_assetIndex (pl_candidate plan))])
        | None \<Rightarrow> (selectionError st, ss, assets))"
proof -
  let ?ss = "map (withdrawn assets) sources"
  let ?ranked = "rankedCandidates assets sources"
  let ?st = "decideCandidates probe assets capabilities (policy = [] \<or> hd policy) (prefersDirect capabilities) ?ranked ?ss"
  obtain candidates where g: "gatherCandidates assets 0 sources = (False, candidates, ?ss)"
    using gatherCandidates_open [OF assms] .
  have start: "slotsOk (startSelection ?ss)" "selectedPlan (startSelection ?ss) = None" "sel_sources (startSelection ?ss) = ?ss"
    by (simp_all add: startSelection_def slotsOk_def selectedPlan_def)
  have "distinct (map (sc_sourceIndex \<circ> snd) (enumerate 0 ?ranked))"
    using rankedCandidates_index(1) [OF assms] by (simp flip: map_map)
  then have "selectedPlan ?st = firstBest (planRank (prefersDirect capabilities)) (sourcePlans probe sources assets capabilities policy)"
    by (simp add: decideCandidates_def sourcePlans_def firstBest_fold fold_decideCandidate [where sources = ?ss] start)
  moreover have "sel_sources ?st = fold (probedSources probe assets) (enumerate 0 ?ranked) ?ss"
    by (simp add: decideCandidates_def fold_sources start)
  moreover have "(case cap_PreferDirectPlay capabilities of None \<Rightarrow> True | Some b \<Rightarrow> b) = prefersDirect capabilities"
    by (auto simp: prefersDirect_def split: option.split)
  ultimately show ?thesis
    by (simp add: decidePlaybackSource_def g applyPlaybackDecision_def rankedCandidates_def Let_def split: option.split)
qed

text \<open>
  C3. Which source is played, as a specification: when no YouTube or external source answers the
  request, \<open>decidePlaybackSource\<close> plays the first plan of the highest rank among the plans the ranked
  candidates yield (a copy before a transcode, an honest resolution hint before a mislabelled one, then
  the larger hint, the larger inspected height, and direct play before a remux when the client prefers
  it); the chosen source carries that plan, and with no plan no candidate is compatible.
\<close>

theorem decidePlaybackSource_first_best:
  assumes "\<not> list_ex openedElsewhere sources"
    and decided: "decidePlaybackSource (Some probe) sources assets capabilities policy = (err, ss, aa)"
  shows "case firstBest (planRank (prefersDirect capabilities)) (sourcePlans probe sources assets capabilities policy) of
      None \<Rightarrow> aa = assets \<and> \<not> list_ex (\<lambda>i. isCandidate assets (sources ! i) \<and> src_Compatible (ss ! i)) [0..<length sources]
    | Some plan \<Rightarrow>
        (let i = sc_sourceIndex (pl_candidate plan)
         in err = None \<and> i < length sources \<and> isCandidate assets (sources ! i) \<and>
            src_Compatible (ss ! i) \<and> src_Mode (ss ! i) = pl_mode plan \<and> src_Decision (ss ! i) = pl_decision plan \<and>
            src_Media (ss ! i) = Some (pl_inspection plan))"
proof (cases "firstBest (planRank (prefersDirect capabilities)) (sourcePlans probe sources assets capabilities policy)")
  case None
  with decided show ?thesis
    by (auto simp: decidePlaybackSource_open [OF assms(1)] fold_probedSources withdrawn_def list_ex_iff)
next
  case (Some plan)
  then have "pl_candidate plan \<in> set (rankedCandidates assets sources)"
    using sourcePlans_mem(1) [OF conjunct1 [OF firstBest_Some]] by blast
  note index = rankedCandidates_index(2) [OF assms(1) this]
  from Some decided have "err = None"
    "ss ! sc_sourceIndex (pl_candidate plan) = applyDecisionToSource (pl_inspection plan) (pl_mode plan) (pl_decision plan)
      (fold (probedSources probe assets) (enumerate 0 (rankedCandidates assets sources)) (map (withdrawn assets) sources) ! sc_sourceIndex (pl_candidate plan))"
    using index by (auto simp: decidePlaybackSource_open [OF assms(1)] Let_def)
  with Some index show ?thesis
    by (simp add: applyDecisionToSource_def Let_def)
qed

text \<open>
  C4. The result names one source: after \<open>decidePlaybackSource\<close> at most one candidate is compatible,
  an error leaves none, a user without the transcoding permission gets only a direct play or a remux,
  and sources that are no candidates are left as they were.
\<close>

theorem decidePlaybackSource_one_source:
  assumes "\<not> list_ex openedElsewhere sources"
    and decided: "decidePlaybackSource (Some probe) sources assets capabilities policy = (err, ss, aa)"
    and i: "i < length sources"
  shows "length ss = length sources \<and>
    (\<not> isCandidate assets (sources ! i) \<longrightarrow> ss ! i = sources ! i) \<and>
    (isCandidate assets (sources ! i) \<and> src_Compatible (ss ! i) \<longrightarrow>
       err = None \<and>
       (\<forall>j < length sources. isCandidate assets (sources ! j) \<and> src_Compatible (ss ! j) \<longrightarrow> j = i) \<and>
       (policy \<noteq> [] \<and> \<not> hd policy \<longrightarrow> src_Mode (ss ! i) \<in> {''direct'', processingRemux}))"
proof (cases "firstBest (planRank (prefersDirect capabilities)) (sourcePlans probe sources assets capabilities policy)")
  case None
  with decided i show ?thesis
    by (auto simp: decidePlaybackSource_open [OF assms(1)] fold_probedSources(1) probed_kept [OF assms(1)] withdrawn_def)
next
  case (Some plan)
  let ?ss = "fold (probedSources probe assets) (enumerate 0 (rankedCandidates assets sources)) (map (withdrawn assets) sources)"
  let ?j = "sc_sourceIndex (pl_candidate plan)"
  have plan: "plan \<in> set (sourcePlans probe sources assets capabilities policy)"
    using firstBest_Some [OF Some] by simp
  note index = rankedCandidates_index(2) [OF assms(1) sourcePlans_mem(1) [OF plan]]
  from Some decided have ss: "err = None"
    "ss = ?ss[?j := applyDecisionToSource (pl_inspection plan) (pl_mode plan) (pl_decision plan) (?ss ! ?j)]"
    by (auto simp: decidePlaybackSource_open [OF assms(1)] Let_def)
  have withdrawn: "isCandidate assets (sources ! k) \<Longrightarrow> k < length sources \<Longrightarrow> k \<noteq> ?j \<Longrightarrow> \<not> src_Compatible (ss ! k)" for k
    by (simp add: ss fold_probedSources withdrawn_def)
  have mode: "policy \<noteq> [] \<and> \<not> hd policy \<Longrightarrow> src_Mode (ss ! ?j) \<in> {''direct'', processingRemux}"
    using sourcePlans_mem(3) [OF plan] index by (auto simp: ss applyDecisionToSource_def Let_def copyMode_def)
  have kept: "\<not> isCandidate assets (sources ! i) \<Longrightarrow> ss ! i = sources ! i"
    using index i by (cases "i = ?j") (simp_all add: ss probed_kept [OF assms(1)])
  from kept mode withdrawn i ss(1) show ?thesis
    by (auto simp: ss(2) [THEN arg_cong [where f = length]])
qed

section \<open>A concrete request\<close>

text \<open>Two sources with stored assets, the first of which cannot be probed, and a trailer that is not playable.\<close>

definition exampleSources :: "Source list" where
  "exampleSources = [exampleSource\<lparr>src_ID := ''x'', src_Hint := ''4k''\<rparr>, exampleSource,
     zeroSource\<lparr>src_ID := ''t'', src_Mode := ''youtube''\<rparr>]"

definition exampleAssets :: "storedAsset list" where
  "exampleAssets = [zeroStoredAsset\<lparr>sa_ID := ''a''\<rparr>, zeroStoredAsset\<lparr>sa_ID := ''x''\<rparr>]"

definition exampleProbe :: "nat \<Rightarrow> storedAsset \<Rightarrow> playback_error + MediaInspection" where
  "exampleProbe k asset = (if sa_ID asset = ''a'' then Inr exampleInspection else Inl ErrMediaSourceTimeout)"

lemma example_candidates:
  "\<not> list_ex openedElsewhere exampleSources" "length exampleSources = 3"
  "isCandidate exampleAssets (exampleSources ! 1)" "\<not> isCandidate exampleAssets (exampleSources ! 2)"
  by code_simp+

lemma example_best:
  "case firstBest (planRank (prefersDirect exampleClient)) (sourcePlans exampleProbe exampleSources exampleAssets exampleClient []) of
     None \<Rightarrow> False | Some plan \<Rightarrow> sc_sourceIndex (pl_candidate plan) = 1 \<and> pl_mode plan = processingTranscode"
  by code_simp

theorem decidePlaybackSource_first_best_witness:
  "\<exists>ss aa. decidePlaybackSource (Some exampleProbe) exampleSources exampleAssets exampleClient [] = (None, ss, aa) \<and>
     src_Compatible (ss ! 1) \<and> src_Mode (ss ! 1) = processingTranscode"
proof -
  obtain err ss aa where d: "decidePlaybackSource (Some exampleProbe) exampleSources exampleAssets exampleClient [] = (err, ss, aa)"
    by (metis prod_cases3)
  with decidePlaybackSource_first_best [OF example_candidates(1) d] example_best show ?thesis
    by (auto simp: Let_def split: option.splits)
qed

lemma example_compatible:
  "src_Compatible (fst (snd (decidePlaybackSource (Some exampleProbe) exampleSources exampleAssets exampleClient [])) ! 1)"
  using example_best example_candidates(2)
  by (auto simp: decidePlaybackSource_open [OF example_candidates(1)] applyDecisionToSource_def Let_def split: option.splits)

theorem decidePlaybackSource_one_source_witness:
  "\<exists>ss aa. decidePlaybackSource (Some exampleProbe) exampleSources exampleAssets exampleClient [] = (None, ss, aa) \<and>
     length ss = 3 \<and> src_Compatible (ss ! 1) \<and> \<not> (isCandidate exampleAssets (exampleSources ! 0) \<and> src_Compatible (ss ! 0)) \<and>
     ss ! 2 = exampleSources ! 2"
proof -
  obtain err ss aa where d: "decidePlaybackSource (Some exampleProbe) exampleSources exampleAssets exampleClient [] = (err, ss, aa)"
    by (metis prod_cases3)
  note one = decidePlaybackSource_one_source [OF example_candidates(1) d]
  from example_compatible d have "src_Compatible (ss ! 1)" by simp
  with one [of 1] one [of 2] example_candidates d show ?thesis
    by (auto dest: spec [of _ 0])
qed

end
