(* ===== verification/Playback_Tracks.thy ===== *)
theory Playback_Tracks
  imports Playback_Select
begin

text \<open>
  The tracks of the chosen source, \<open>server/internal/playback/tracks.go\<close>: the audio track a user
  prefers and what it changes of the decision, the subtitles a source offers, and burning a subtitle
  into the picture. Sources and assets are passed in and returned as in \<open>Playback_Select\<close>; an error is
  returned with the slices as they were when it was raised.
\<close>

definition assetKindEmbeddedSubtitle :: string where "assetKindEmbeddedSubtitle = ''embedded_subtitle''"
definition assetKindBitmapSubtitle :: string where "assetKindBitmapSubtitle = ''bitmap_subtitle''"
definition subtitleBurnText :: string where "subtitleBurnText = ''text''"
definition subtitleBurnBitmap :: string where "subtitleBurnBitmap = ''bitmap''"

section \<open>Languages and tracks\<close>

definition languageMatches :: "string \<Rightarrow> string \<Rightarrow> bool" where
  "languageMatches candidate0 preferred0 =
     (let candidate = ToLower (TrimSpace candidate0);
          preferred = ToLower (TrimSpace preferred0)
      in if candidate = [] \<or> preferred = [] \<or> preferred = ''auto'' then False
         else if candidate = preferred then True
         else CutBefore candidate CHR ''-'' = CutBefore preferred CHR ''-'')"

text \<open>The track and whether the caller asked for it by its index.\<close>

definition preferredAudioTrack :: "MediaTrack list \<Rightarrow> int option \<Rightarrow> string \<Rightarrow> MediaTrack option \<times> bool" where
  "preferredAudioTrack tracks explicitIndex language =
     (case explicitIndex of
        Some i \<Rightarrow> (find (\<lambda>t. mt_Index t = i) tracks, True)
      | None \<Rightarrow>
          (case find (\<lambda>t. languageMatches (mt_Language t) language) tracks of
             Some t \<Rightarrow> (Some t, False) | None \<Rightarrow> (primaryTrack tracks, False)))"

definition inspectionWithSelectedAudio :: "MediaInspection \<Rightarrow> MediaTrack option \<Rightarrow> MediaInspection" where
  "inspectionWithSelectedAudio inspection audio =
     (cloneMediaInspection inspection)\<lparr>mi_AudioTracks := (case audio of None \<Rightarrow> [] | Some a \<Rightarrow> [a])\<rparr>"

definition selectedInspectionAudioTrack :: "MediaInspection \<Rightarrow> int option \<Rightarrow> MediaTrack option" where
  "selectedInspectionAudioTrack inspection selectedIndex =
     (case selectedIndex of None \<Rightarrow> primaryTrack (mi_AudioTracks inspection)
      | Some i \<Rightarrow>
          (case find (\<lambda>t. mt_Index t = i) (mi_AudioTracks inspection) of
             Some t \<Rightarrow> Some t | None \<Rightarrow> primaryTrack (mi_AudioTracks inspection)))"

definition selectedAudioDirectlySupported :: "MediaInspection \<Rightarrow> Capabilities \<Rightarrow> bool" where
  "selectedAudioDirectlySupported inspection capabilities =
     (let audio = primaryTrack (mi_AudioTracks inspection)
      in if audio = None then True
         else if cap_MediaProfiles capabilities = [] then audioWithinClientLimits audio capabilities
         else snd (snd (directProfileCompatibility (mi_Container inspection) (primaryTrack (mi_VideoTracks inspection)) audio capabilities)))"

definition selectedAudioDecisionReasons :: "PlaybackDecision option \<Rightarrow> MediaInspection \<Rightarrow> Capabilities \<Rightarrow> string list" where
  "selectedAudioDecisionReasons decision inspection capabilities =
     (let existing = (case decision of None \<Rightarrow> [] | Some d \<Rightarrow> pd_Reasons d);
          reasons = fold (\<lambda>reason acc. if reason \<noteq> reasonAudioCodecNotSupported \<and> \<not> supports acc reason then acc @ [reason] else acc) existing []
      in if \<not> selectedAudioDirectlySupported inspection capabilities then reasons @ [reasonAudioCodecNotSupported] else reasons)"

definition refreshedDecision :: "MediaInspection \<Rightarrow> Capabilities \<Rightarrow> PlaybackDecision \<Rightarrow> PlaybackDecision" where
  "refreshedDecision inspection capabilities decision =
     (let d = decision\<lparr>pd_Reasons := selectedAudioDecisionReasons (Some decision) inspection capabilities,
            pd_Source := decisionSource inspection\<rparr>
      in case pd_Target d of None \<Rightarrow> d
         | Some t \<Rightarrow>
             if pd_AudioAction d = ''copy'' then
               d\<lparr>pd_Target := Some (t\<lparr>pt_AudioCodec :=
                 (case primaryTrack (mi_AudioTracks inspection) of None \<Rightarrow> [] | Some a \<Rightarrow> normalizedCodec (mt_Codec a))\<rparr>)\<rparr>
             else d)"

definition refreshSelectedAudioDecision ::
    "Source \<Rightarrow> storedAsset \<Rightarrow> MediaInspection \<Rightarrow> Capabilities \<Rightarrow> Source \<times> storedAsset" where
  "refreshSelectedAudioDecision source asset inspection capabilities =
     (case src_Decision source of None \<Rightarrow> (source, asset)
      | Some decision \<Rightarrow>
          (let d = Some (refreshedDecision inspection capabilities decision)
           in (source\<lparr>src_Decision := d\<rparr>, asset\<lparr>sa_Decision := clonePlaybackDecision d\<rparr>)))"

section \<open>The preferred audio track\<close>

text \<open>The source the loop stops at: the first one that is compatible and inspected.\<close>

fun inspectedIndex :: "Source list \<Rightarrow> nat option" where
  "inspectedIndex [] = None"
| "inspectedIndex (s # ss) =
     (if \<not> src_Compatible s \<or> src_Media s = None then map_option Suc (inspectedIndex ss) else Some 0)"

definition trackCopySupported :: "MediaInspection \<Rightarrow> Capabilities \<Rightarrow> MediaTrack \<Rightarrow> bool" where
  "trackCopySupported inspection capabilities track \<longleftrightarrow>
     (case primaryTrack (mi_VideoTracks inspection) of None \<Rightarrow> False
      | Some video \<Rightarrow> mp4RemuxableAudio (mt_Codec track) \<and> audioWithinClientLimits (Some track) capabilities \<and>
          processingMediaProfileSupported ''mp4'' (Some video) (Some track) capabilities)"

definition requiresTrackSwitch :: "MediaInspection \<Rightarrow> MediaTrack \<Rightarrow> bool" where
  "requiresTrackSwitch inspection track \<longleftrightarrow>
     (case primaryTrack (mi_AudioTracks inspection) of None \<Rightarrow> False | Some primary \<Rightarrow> mt_Index primary \<noteq> mt_Index track)"

text \<open>For a remux, a preferred track that cannot be copied gives way to one that can, unless it was asked for.\<close>

definition remuxTrack :: "Source \<Rightarrow> MediaInspection \<Rightarrow> Capabilities \<Rightarrow> bool \<Rightarrow> MediaTrack \<Rightarrow> MediaTrack \<times> bool" where
  "remuxTrack source inspection capabilities explicit track =
     (if src_Mode source = processingRemux \<and> \<not> trackCopySupported inspection capabilities track \<and> \<not> explicit then
        (case primaryTrack (mi_VideoTracks inspection) of None \<Rightarrow> (track, False)
         | Some video \<Rightarrow>
             (case compatibleRemuxAudioTrack video (mi_AudioTracks inspection) capabilities of
                Some compatible \<Rightarrow> (compatible, True) | None \<Rightarrow> (track, False)))
      else (track, trackCopySupported inspection capabilities track))"

text \<open>What the switch of the track needs: nothing, a new mode and decision, or an error.\<close>

definition audioSwitch ::
    "Source \<Rightarrow> MediaInspection \<Rightarrow> ResolveInput \<Rightarrow> MediaTrack \<Rightarrow> bool \<Rightarrow> playback_error + (string \<times> PlaybackDecision) option" where
  "audioSwitch source inspection input track copySupported =
     (let capabilities = ri_Capabilities input;
          selected = inspectionWithSelectedAudio inspection (Some track);
          reasons = selectedAudioDecisionReasons (src_Decision source) selected capabilities;
          switch = requiresTrackSwitch inspection track
      in if src_Mode source = ''direct'' \<and> switch \<and> copySupported \<and>
            requestedProcessingMode (cap_ProcessingModes capabilities) processingRemux \<and> processingOutputSupported capabilities then
           Inr (Some (processingRemux,
             processingDecisionWithReasons decisionRemuxRequired reasons ''copy'' ''copy'' selected capabilities False))
         else if (src_Mode source = ''direct'' \<and> switch \<or> src_Mode source = processingRemux) \<and> \<not> copySupported then
           (if \<not> (audioTranscodeSupported selected capabilities \<or> fullTranscodeSupported capabilities) then
              Inl (if \<not> ri_AllowTranscoding input then ErrTranscodingDisabled else ErrClientCapabilityMissing)
            else if \<not> ri_AllowTranscoding input then Inl ErrTranscodingDisabled
            else
              (let planned = (if audioTranscodeSupported selected capabilities
                 then (processingTranscodeAudio, processingDecisionWithReasons decisionAudioTranscodeRequired reasons ''copy'' ''transcode''
                    selected capabilities False)
                 else (processingTranscode, processingDecisionWithReasons decisionVideoTranscodeRequired reasons ''transcode'' ''transcode''
                    selected capabilities (videoTranscodeNeedsToneMapping selected capabilities (Some (aacTrack capabilities)))))
               in if pd_ToneMapping (snd planned) \<and> \<not> genericToneMappingSupported selected then Inl ErrUnsupportedSource
                  else Inr (Some planned)))
         else if src_Mode source = ''direct'' \<and> switch then Inl ErrClientCapabilityMissing
         else Inr None)"

definition candidateAt :: "nat \<Rightarrow> nat \<Rightarrow> sourceCandidate" where
  "candidateAt i j = \<lparr>sc_sourceIndex = i, sc_assetIndex = j, sc_directHint = False, sc_resolutionHint = 0\<rparr>"

definition selectAudioTrack ::
    "nat \<Rightarrow> nat \<Rightarrow> MediaInspection \<Rightarrow> MediaTrack \<Rightarrow> Capabilities \<Rightarrow> Source list \<Rightarrow> storedAsset list \<Rightarrow> Source list \<times> storedAsset list" where
  "selectAudioTrack i j inspection track capabilities sources assets =
     (let assets1 = assets[j := (assets ! j)\<lparr>sa_AudioTrackIndex := Some (mt_Index track)\<rparr>];
          refreshed = refreshSelectedAudioDecision (sources ! i) (assets1 ! j)
            (inspectionWithSelectedAudio inspection (Some track)) capabilities
      in (sources[i := fst refreshed], assets1[j := snd refreshed]))"

definition applyPlaybackPreferences ::
    "Source list \<Rightarrow> storedAsset list \<Rightarrow> ResolveInput \<Rightarrow> playback_error option \<times> Source list \<times> storedAsset list" where
  "applyPlaybackPreferences sources assets input =
     (case inspectedIndex sources of None \<Rightarrow> (None, sources, assets)
      | Some i \<Rightarrow>
      case storedAssetIndex assets (src_ID (sources ! i)) of None \<Rightarrow> (None, sources, assets)
      | Some j \<Rightarrow>
          (let source = sources ! i;
               inspection = the (src_Media source);
               capabilities = ri_Capabilities input
           in case preferredAudioTrack (mi_AudioTracks inspection) (ri_PreferredAudioTrack input) (ri_PreferredAudioLanguage input) of
                (None, explicit) \<Rightarrow> (if explicit then Some ErrInvalidInput else None, sources, assets)
              | (Some preferred, explicit) \<Rightarrow>
                  (case remuxTrack source inspection capabilities explicit preferred of (track, copySupported) \<Rightarrow>
                     case audioSwitch source inspection input track copySupported of
                       Inl err \<Rightarrow> (Some err, sources, assets)
                     | Inr planned \<Rightarrow>
                         (let (sources1, assets1) =
                            (case planned of None \<Rightarrow> (sources, assets)
                             | Some (mode, decision) \<Rightarrow>
                                 applyPlaybackDecision sources assets (candidateAt i j) inspection mode (Some decision) capabilities)
                          in (None, selectAudioTrack i j inspection track capabilities sources1 assets1)))))"

section \<open>Subtitles\<close>

definition webVTTConvertibleSubtitle :: "string \<Rightarrow> bool" where
  "webVTTConvertibleSubtitle codec \<longleftrightarrow>
     ToLower (TrimSpace codec) \<in> {''ass'', ''ssa'', ''subrip'', ''srt'', ''text'', ''webvtt'', ''mov_text''}"

definition textSubtitle :: "string \<Rightarrow> bool" where
  "textSubtitle codec = webVTTConvertibleSubtitle codec"

definition bitmapSubtitle :: "string \<Rightarrow> bool" where
  "bitmapSubtitle codec \<longleftrightarrow>
     ToLower (TrimSpace codec) \<in> {''hdmv_pgs_subtitle'', ''pgs'', ''dvd_subtitle'', ''dvdsub'', ''dvb_subtitle'', ''dvbsub'', ''xsub''}"

text \<open>The kind, the delivery and the burn type of a track, \<^const>\<open>None\<close> when it is skipped.\<close>

definition subtitleDelivery :: "Capabilities \<Rightarrow> MediaTrack \<Rightarrow> (string \<times> string \<times> string) option" where
  "subtitleDelivery capabilities track =
     (if webVTTConvertibleSubtitle (mt_Codec track) \<and>
         (cap_SubtitleModes capabilities = [] \<or> requestedProcessingMode (cap_SubtitleModes capabilities) ''external'') then
        Some (assetKindEmbeddedSubtitle, ''external'', [])
      else if textSubtitle (mt_Codec track) \<and> requestedProcessingMode (cap_SubtitleModes capabilities) ''burn'' then
        Some (assetKindEmbeddedSubtitle, ''burn'', subtitleBurnText)
      else if bitmapSubtitle (mt_Codec track) \<and> requestedProcessingMode (cap_SubtitleModes capabilities) ''burn'' then
        Some (assetKindBitmapSubtitle, ''burn'', subtitleBurnBitmap)
      else None)"

definition embeddedSubtitle ::
    "Source \<Rightarrow> storedAsset \<Rightarrow> Capabilities \<Rightarrow> nat \<times> MediaTrack \<Rightarrow> (Subtitle \<times> storedAsset) option" where
  "embeddedSubtitle source sourceAsset capabilities item =
     (case item of (ordinal, track) \<Rightarrow>
        (case subtitleDelivery capabilities track of None \<Rightarrow> None
         | Some (kind, delivery, burnType) \<Rightarrow>
             (let ident = ''embedded-subtitle-'' @ Itoa (mt_Index track) @ (if delivery = ''external'' then ''.vtt'' else [])
              in Some (zeroSubtitle\<lparr>sub_ID := ident, sub_AddonID := src_AddonID source, sub_ManifestID := src_ManifestID source,
                     sub_Language := mt_Language track, sub_Forced := mt_Forced track, sub_Delivery := delivery\<rparr>,
                   zeroStoredAsset\<lparr>sa_ID := ident, sa_Kind := kind, sa_URL := sa_URL sourceAsset, sa_Container := sa_Container sourceAsset,
                     sa_Headers := sa_Headers sourceAsset, sa_SubtitleTrackIndex := Some (mt_Index track),
                     sa_SubtitleTrackType := burnType, sa_SubtitleTrackOrdinal := int ordinal\<rparr>))))"

text \<open>The variadic capabilities are a list; none means the zero value.\<close>

definition embeddedSubtitles ::
    "Source list \<Rightarrow> storedAsset list \<Rightarrow> Capabilities list \<Rightarrow> Subtitle list \<times> storedAsset list" where
  "embeddedSubtitles sources assets capabilityValues =
     (let capabilities = (case capabilityValues of [] \<Rightarrow> zeroCapabilities | c # _ \<Rightarrow> c)
      in case inspectedIndex sources of None \<Rightarrow> ([], [])
         | Some i \<Rightarrow>
             (case storedAssetIndex assets (src_ID (sources ! i)) of None \<Rightarrow> ([], [])
              | Some j \<Rightarrow>
                  (let items = List.map_filter (embeddedSubtitle (sources ! i) (assets ! j) capabilities)
                     (enumerate 0 (mi_SubtitleTracks (the (src_Media (sources ! i)))))
                   in (map fst items, map snd items))))"

definition selectedSubtitle :: "Subtitle list \<Rightarrow> string" where
  "selectedSubtitle subtitles = (case find sub_Default subtitles of None \<Rightarrow> [] | Some s \<Rightarrow> sub_ID s)"

definition clearSubtitleDefaults :: "Subtitle list \<Rightarrow> Subtitle list" where
  "clearSubtitleDefaults subtitles = map (\<lambda>s. s\<lparr>sub_Default := False\<rparr>) subtitles"

text \<open>Marks the first subtitle that satisfies the condition; \<^const>\<open>None\<close> when there is none.\<close>

fun markFirst :: "(Subtitle \<Rightarrow> bool) \<Rightarrow> Subtitle list \<Rightarrow> Subtitle list option" where
  "markFirst P [] = None"
| "markFirst P (s # ss) = (if P s then Some (s\<lparr>sub_Default := True\<rparr> # ss) else map_option (Cons s) (markFirst P ss))"

definition applySubtitlePreference ::
    "Subtitle list \<Rightarrow> string \<Rightarrow> string \<Rightarrow> string \<Rightarrow> playback_error option \<times> Subtitle list" where
  "applySubtitlePreference subtitles0 preferredID forcedLanguage preferredLanguage =
     (let subtitles = clearSubtitleDefaults subtitles0
      in if preferredID \<noteq> [] \<and> preferredID \<noteq> ''none'' then
           (case markFirst (\<lambda>s. sub_ID s = preferredID) subtitles of
              Some marked \<Rightarrow> (None, marked) | None \<Rightarrow> (Some ErrInvalidInput, subtitles))
         else if preferredID = ''none'' then (None, subtitles)
         else
           (let forced = (if forcedLanguage \<noteq> [] \<and> forcedLanguage \<noteq> ''off''
              then markFirst (\<lambda>s. sub_Forced s \<and> languageMatches (sub_Language s) forcedLanguage) subtitles else None)
            in case forced of Some marked \<Rightarrow> (None, marked)
               | None \<Rightarrow>
                   (case markFirst (\<lambda>s. languageMatches (sub_Language s) preferredLanguage) subtitles of
                      Some marked \<Rightarrow> (None, marked) | None \<Rightarrow> (None, subtitles))))"

definition selectedAudioTrack :: "Source list \<Rightarrow> storedAsset list \<Rightarrow> int option" where
  "selectedAudioTrack sources assets =
     (case find (\<lambda>s. src_Compatible s \<and> storedAssetIndex assets (src_ID s) \<noteq> None) sources of
        None \<Rightarrow> None
      | Some s \<Rightarrow> sa_AudioTrackIndex (assets ! the (storedAssetIndex assets (src_ID s))))"

section \<open>Burning a subtitle\<close>

definition setSubtitleAction ::
    "Source list \<Rightarrow> storedAsset list \<Rightarrow> string \<Rightarrow> Source list \<times> storedAsset list" where
  "setSubtitleAction sources assets action =
     (case firstCompatibleIndex sources of None \<Rightarrow> (sources, assets)
      | Some i \<Rightarrow>
          (let d0 = (case src_Decision (sources ! i) of None \<Rightarrow> directDecision zeroMediaInspection | Some d \<Rightarrow> d);
               d = Some (d0\<lparr>pd_SubtitleAction := action\<rparr>)
           in (sources[i := (sources ! i)\<lparr>src_Decision := d\<rparr>],
               (case storedAssetIndex assets (src_ID (sources ! i)) of None \<Rightarrow> assets
                | Some j \<Rightarrow> assets[j := (assets ! j)\<lparr>sa_Decision := clonePlaybackDecision d\<rparr>]))))"

definition subtitleBurnAudioCopySupported :: "MediaTrack \<Rightarrow> Capabilities \<Rightarrow> bool" where
  "subtitleBurnAudioCopySupported audio capabilities =
     (if \<not> hlsSegmentAudioCopySupported (mt_Codec audio) (cap_HLSSegmentContainer capabilities) \<or>
         cap_MaximumAudioChannels capabilities > 0 \<and>
         (mt_Channels audio \<le> 0 \<or> mt_Channels audio > cap_MaximumAudioChannels capabilities) then False
      else cap_MediaProfiles capabilities \<noteq> [] \<or> supportsCodec (cap_AudioCodecs capabilities) (mt_Codec audio))"

text \<open>The first source with an inspection and an asset, and that asset.\<close>

fun burnCandidate :: "storedAsset list \<Rightarrow> Source list \<Rightarrow> (nat \<times> nat) option" where
  "burnCandidate assets [] = None"
| "burnCandidate assets (s # ss) =
     (if \<not> src_Compatible s \<or> src_Media s = None then map_option (apfst Suc) (burnCandidate assets ss)
      else case storedAssetIndex assets (src_ID s) of
        None \<Rightarrow> map_option (apfst Suc) (burnCandidate assets ss) | Some j \<Rightarrow> Some (0, j))"

text \<open>The audio of a burn: its action, the target audio, and the video codec when it was already chosen.\<close>

definition burnAudio :: "MediaTrack option \<Rightarrow> MediaInspection \<Rightarrow> Capabilities \<Rightarrow> string \<times> MediaTrack option \<times> string" where
  "burnAudio audio inspection capabilities =
     (case audio of None \<Rightarrow> (''copy'', None, [])
      | Some a \<Rightarrow>
          if subtitleBurnAudioCopySupported a capabilities \<and> fst (selectedTranscodeVideoTarget capabilities inspection audio) \<noteq> []
          then (''copy'', audio, fst (selectedTranscodeVideoTarget capabilities inspection audio))
          else (''transcode'', Some (aacTrack capabilities), []))"

definition burnToneMap :: "MediaInspection \<Rightarrow> Capabilities \<Rightarrow> MediaTrack option \<Rightarrow> bool" where
  "burnToneMap inspection capabilities targetAudio \<longleftrightarrow>
     videoTranscodeNeedsToneMapping inspection capabilities targetAudio \<or>
     TrimSpace (mi_HDRFormat inspection) \<noteq> [] \<and> \<not> EqualFold (TrimSpace (mi_HDRFormat inspection)) ''sdr''"

definition burnReasons :: "PlaybackDecision option \<Rightarrow> PlaybackDecision \<Rightarrow> PlaybackDecision" where
  "burnReasons previous decision =
     (let d = (case previous of None \<Rightarrow> decision
        | Some p \<Rightarrow> fold (\<lambda>reason d. if reason \<noteq> reasonAudioCodecNotSupported then appendDecisionReason d reason else d) (pd_Reasons p) decision)
      in appendDecisionReason d reasonSubtitleBurnRequired)"

definition burnDecision :: "Source \<Rightarrow> storedAsset \<Rightarrow> Capabilities \<Rightarrow> playback_error + PlaybackDecision" where
  "burnDecision source asset capabilities =
     (let media = the (src_Media source);
          audio = selectedInspectionAudioTrack media (sa_AudioTrackIndex asset);
          inspection = inspectionWithSelectedAudio media audio;
          (audioAction, targetAudio, codec) = burnAudio audio inspection capabilities;
          targetCodec = (if codec = [] then fst (selectedTranscodeVideoTarget capabilities inspection targetAudio) else codec);
          toneMap = burnToneMap inspection capabilities targetAudio
      in if targetCodec = [] then Inl ErrClientCapabilityMissing
         else if toneMap \<and> \<not> genericToneMappingSupported inspection then Inl ErrUnsupportedSource
         else
           (let decision = processingDecisionWithReasons decisionSubtitleBurnRequired
              (directIncompatibilityReasons source inspection capabilities) ''transcode'' audioAction inspection capabilities toneMap
            in case pd_Target decision of None \<Rightarrow> Inl ErrClientCapabilityMissing
               | Some target0 \<Rightarrow>
                   (let target = target0\<lparr>pt_VideoCodec := targetCodec, pt_VideoBitDepth := 8\<rparr>;
                        finalTarget = (case audio of None \<Rightarrow> target
                          | Some a \<Rightarrow> if audioAction = ''copy'' then target\<lparr>pt_AudioCodec := normalizedCodec (mt_Codec a)\<rparr> else target)
                    in Inr ((burnReasons (src_Decision source) decision)\<lparr>pd_SubtitleAction := ''burn'',
                      pd_Pipeline := Some (plannedPlaybackPipeline inspection capabilities (Some target) toneMap True),
                      pd_Target := Some finalTarget\<rparr>))))"

definition applySubtitleDecision ::
    "Source list \<Rightarrow> storedAsset list \<Rightarrow> Subtitle list \<Rightarrow> storedAsset list \<Rightarrow> Capabilities \<Rightarrow> bool \<Rightarrow>
     playback_error option \<times> Source list \<times> storedAsset list" where
  "applySubtitleDecision sources streamAssets subtitles subtitleAssets capabilities allowTranscoding =
     (let selectedID = selectedSubtitle subtitles
      in if selectedID = [] then (None, setSubtitleAction sources streamAssets ''none'')
         else
           (let selected = find (\<lambda>s. sub_ID s = selectedID) subtitles
            in if (case selected of None \<Rightarrow> True | Some s \<Rightarrow> sub_Delivery s \<noteq> ''burn'') then
                 (None, setSubtitleAction sources streamAssets ''external'')
               else if \<not> allowTranscoding then (Some ErrTranscodingDisabled, sources, streamAssets)
               else if \<not> requestedProcessingMode (cap_SubtitleModes capabilities) ''burn'' \<or>
                 \<not> requestedProcessingMode (cap_ProcessingModes capabilities) processingTranscode \<or> \<not> processingOutputSupported capabilities then
                 (Some ErrClientCapabilityMissing, sources, streamAssets)
               else
                 (case storedAssetIndex subtitleAssets (sub_ID (the selected)) of
                    None \<Rightarrow> (Some ErrUnsupportedSource, sources, streamAssets)
                  | Some s \<Rightarrow>
                      (case sa_SubtitleTrackIndex (subtitleAssets ! s) of
                         None \<Rightarrow> (Some ErrUnsupportedSource, sources, streamAssets)
                       | Some trackIndex \<Rightarrow>
                           (case burnCandidate streamAssets sources of
                              None \<Rightarrow> (Some ErrNoPlayableSource, sources, streamAssets)
                            | Some (i, j) \<Rightarrow>
                                (case burnDecision (sources ! i) (streamAssets ! j) capabilities of
                                   Inl err \<Rightarrow> (Some err, sources, streamAssets)
                                 | Inr decision \<Rightarrow>
                                     (case applyPlaybackDecision sources streamAssets (candidateAt i j) (the (src_Media (sources ! i)))
                                        processingTranscode (Some decision) capabilities of
                                      (sources1, assets1) \<Rightarrow>
                                        (None, sources1, assets1[j := (assets1 ! j)\<lparr>sa_SubtitleTrackIndex := Some trackIndex,
                                           sa_SubtitleTrackType := sa_SubtitleTrackType (subtitleAssets ! s),
                                           sa_SubtitleTrackOrdinal := sa_SubtitleTrackOrdinal (subtitleAssets ! s)\<rparr>]))))))))"

section \<open>Subtitle preferences\<close>

lemma markFirst_Some:
  "markFirst P xs = Some ys \<Longrightarrow>
     \<exists>i < length xs. P (xs ! i) \<and> (\<forall>j < i. \<not> P (xs ! j)) \<and> ys = xs[i := (xs ! i)\<lparr>sub_Default := True\<rparr>]"
proof (induction xs arbitrary: ys)
  case (Cons x xs)
  show ?case
  proof (cases "P x")
    case True
    with Cons.prems show ?thesis by (intro exI [of _ 0]) simp
  next
    case False
    with Cons.prems obtain zs where zs: "markFirst P xs = Some zs" "ys = x # zs" by auto
    with Cons.IH obtain i where "i < length xs" "P (xs ! i)" "\<forall>j < i. \<not> P (xs ! j)" "zs = xs[i := (xs ! i)\<lparr>sub_Default := True\<rparr>]"
      by blast
    with zs False show ?thesis
      by (intro exI [of _ "Suc i"]) (auto simp: nth_Cons split: nat.splits)
  qed
qed simp

lemma markFirst_None: "markFirst P xs = None \<longleftrightarrow> (\<forall>x \<in> set xs. \<not> P x)"
  by (induction xs) auto

lemma cleared: "\<forall>s \<in> set (clearSubtitleDefaults subtitles). \<not> sub_Default s"
  by (auto simp: clearSubtitleDefaults_def)

lemma clear_idem [simp]: "clearSubtitleDefaults (clearSubtitleDefaults ss) = clearSubtitleDefaults ss"
  by (simp add: clearSubtitleDefaults_def)

lemma marked_defaults:
  assumes "\<forall>s \<in> set xs. \<not> sub_Default s" "i < length xs"
  shows "filter sub_Default (xs[i := (xs ! i)\<lparr>sub_Default := True\<rparr>]) = [(xs ! i)\<lparr>sub_Default := True\<rparr>]"
proof -
  have "filter sub_Default (take i xs) = []" "filter sub_Default (drop (Suc i) xs) = []"
    using assms(1) by (auto simp: filter_empty_conv dest: in_set_takeD in_set_dropD)
  then show ?thesis
    using assms(2) by (simp add: upd_conv_take_nth_drop)
qed

lemma selectedSubtitle_filter: "selectedSubtitle ss = (case filter sub_Default ss of [] \<Rightarrow> [] | s # _ \<Rightarrow> sub_ID s)"
  unfolding selectedSubtitle_def by (induction ss) auto

definition oneDefault :: "Subtitle list \<Rightarrow> Subtitle list \<Rightarrow> bool" where
  "oneDefault subtitles marked \<longleftrightarrow>
     length (filter sub_Default marked) \<le> 1 \<and> clearSubtitleDefaults marked = clearSubtitleDefaults subtitles"

lemma clear_update: "clearSubtitleDefaults (xs[i := (xs ! i)\<lparr>sub_Default := True\<rparr>]) = clearSubtitleDefaults xs"
proof (cases "i < length xs")
  case True
  then show ?thesis
    by (simp add: clearSubtitleDefaults_def map_update list_update_same_conv)
qed (simp add: list_update_beyond)

lemma markFirst_selects:
  assumes "markFirst P (clearSubtitleDefaults ss) = Some marked"
  shows "oneDefault ss marked" "\<exists>s \<in> set (clearSubtitleDefaults ss). P s \<and> selectedSubtitle marked = sub_ID s"
proof -
  obtain i where i: "i < length (clearSubtitleDefaults ss)" "P (clearSubtitleDefaults ss ! i)"
    "marked = (clearSubtitleDefaults ss)[i := (clearSubtitleDefaults ss ! i)\<lparr>sub_Default := True\<rparr>]"
    using markFirst_Some [OF assms] by blast
  show "oneDefault ss marked"
    by (simp add: oneDefault_def i(3) marked_defaults [OF cleared i(1)] clear_update)
  show "\<exists>s \<in> set (clearSubtitleDefaults ss). P s \<and> selectedSubtitle marked = sub_ID s"
    using i by (intro bexI [of _ "clearSubtitleDefaults ss ! i"]) (simp_all add: selectedSubtitle_filter marked_defaults [OF cleared])
qed

lemma cleared_selects: "oneDefault ss (clearSubtitleDefaults ss)" "selectedSubtitle (clearSubtitleDefaults ss) = []"
proof -
  have "filter sub_Default (clearSubtitleDefaults ss) = []"
    using cleared by (auto simp: filter_empty_conv)
  then show "oneDefault ss (clearSubtitleDefaults ss)" "selectedSubtitle (clearSubtitleDefaults ss) = []"
    by (simp_all add: oneDefault_def selectedSubtitle_filter)
qed

lemma cleared_ids: "sub_ID ` set (clearSubtitleDefaults ss) = sub_ID ` set ss"
  by (simp add: clearSubtitleDefaults_def image_image)

lemma applySubtitlePreference_marks:
  assumes "applySubtitlePreference subtitles preferredID forcedLanguage preferredLanguage = (err, marked)"
  shows "oneDefault subtitles marked \<and>
    (if preferredID = ''none'' then err = None \<and> selectedSubtitle marked = []
     else if preferredID \<noteq> [] then
       (if preferredID \<in> sub_ID ` set subtitles then err = None \<and> selectedSubtitle marked = preferredID
        else err = Some ErrInvalidInput \<and> selectedSubtitle marked = [])
     else err = None \<and>
       (selectedSubtitle marked = [] \<or>
        (\<exists>s \<in> set (clearSubtitleDefaults subtitles). selectedSubtitle marked = sub_ID s \<and>
           (languageMatches (sub_Language s) preferredLanguage \<or> sub_Forced s \<and> languageMatches (sub_Language s) forcedLanguage))))"
proof -
  let ?cs = "clearSubtitleDefaults subtitles"
  have forced: ?thesis if id: "preferredID = []"
  proof -
    let ?forced = "if forcedLanguage \<noteq> [] \<and> forcedLanguage \<noteq> ''off''
              then markFirst (\<lambda>s. sub_Forced s \<and> languageMatches (sub_Language s) forcedLanguage) ?cs else None"
    let ?lang = "markFirst (\<lambda>s. languageMatches (sub_Language s) preferredLanguage) ?cs"
    have "err = None \<and> (?forced = Some marked \<or> ?lang = Some marked \<or> marked = ?cs)"
      using assms id by (auto simp: applySubtitlePreference_def Let_def split: option.splits if_splits)
    then show ?thesis
      using markFirst_selects [of _ subtitles marked] cleared_selects [of subtitles] id by (auto split: if_splits)
  qed
  have explicit: ?thesis if id: "preferredID \<noteq> []" "preferredID \<noteq> ''none''"
  proof (cases "markFirst (\<lambda>s. sub_ID s = preferredID) ?cs")
    case None
    then have "preferredID \<notin> sub_ID ` set subtitles"
      unfolding cleared_ids [of subtitles, symmetric] by (auto simp: markFirst_None)
    then show ?thesis
      using assms id None cleared_selects by (auto simp: applySubtitlePreference_def Let_def)
  next
    case (Some ys)
    note sel = markFirst_selects [OF Some]
    then have "preferredID \<in> sub_ID ` set subtitles"
      unfolding cleared_ids [of subtitles, symmetric] by auto
    then show ?thesis
      using assms id Some sel by (auto simp: applySubtitlePreference_def Let_def)
  qed
  show ?thesis
  proof (cases "preferredID = ''none''")
    case True
    then show ?thesis
      using assms cleared_selects by (auto simp: applySubtitlePreference_def Let_def)
  qed (use forced explicit in blast)
qed

text \<open>
  Choosing a subtitle: at most one subtitle is marked and nothing else about the subtitles changes.
  An explicit id is the one selected, or an \<open>ErrInvalidInput\<close> when no subtitle has it; \<open>none\<close> selects
  nothing; without an id, a forced subtitle of the forced language comes before one of the preferred
  language.
\<close>

theorem applySubtitlePreference_selects:
  assumes "applySubtitlePreference subtitles preferredID forcedLanguage preferredLanguage = (err, marked)"
  shows "oneDefault subtitles marked \<and>
    (if preferredID = ''none'' then err = None \<and> selectedSubtitle marked = []
     else if preferredID \<noteq> [] then
       (if preferredID \<in> sub_ID ` set subtitles then err = None \<and> selectedSubtitle marked = preferredID
        else err = Some ErrInvalidInput \<and> selectedSubtitle marked = [])
     else err = None \<and>
       (selectedSubtitle marked = [] \<or>
        (\<exists>s \<in> set (clearSubtitleDefaults subtitles). selectedSubtitle marked = sub_ID s \<and>
           (languageMatches (sub_Language s) preferredLanguage \<or> sub_Forced s \<and> languageMatches (sub_Language s) forcedLanguage))))"
  using assms by (rule applySubtitlePreference_marks)

section \<open>Embedded subtitles\<close>

lemma embeddedSubtitle_Some:
  assumes "embeddedSubtitle source asset capabilities (n, track) = Some (s, a)"
  shows "sub_ID s = sa_ID a" "sa_SubtitleTrackIndex a = Some (mt_Index track)" "sub_Language s = mt_Language track"
    "sa_URL a = sa_URL asset" "sa_SubtitleTrackOrdinal a = int n" "sub_Delivery s = ''external'' \<or> sub_Delivery s = ''burn''"
    "sub_ID s = ''embedded-subtitle-'' @ Itoa (mt_Index track) @ (if sub_Delivery s = ''external'' then ''.vtt'' else [])"
  using assms by (auto simp: embeddedSubtitle_def subtitleDelivery_def Let_def split: option.splits if_splits)

lemma decimal_suffix:
  assumes "Itoa i @ (if p then ''.vtt'' else []) = Itoa j @ (if q then ''.vtt'' else [])"
  shows "Itoa i = Itoa j"
  by (rule Itoa_extension [OF assms]) simp_all

definition embeddedItems :: "Source \<Rightarrow> storedAsset \<Rightarrow> Capabilities \<Rightarrow> nat \<Rightarrow> MediaTrack list \<Rightarrow> (Subtitle \<times> storedAsset) list" where
  "embeddedItems source asset capabilities m tracks = List.map_filter (embeddedSubtitle source asset capabilities) (enumerate m tracks)"

lemma embeddedItems_mem:
  assumes "(s, a) \<in> set (embeddedItems source asset capabilities m tracks)"
  shows "\<exists>n < length tracks. embeddedSubtitle source asset capabilities (m + n, tracks ! n) = Some (s, a)"
proof -
  from assms obtain k t where kt: "(k, t) \<in> set (enumerate m tracks)" "embeddedSubtitle source asset capabilities (k, t) = Some (s, a)"
    unfolding embeddedItems_def List.map_filter_def by fastforce
  from kt(1) have "m \<le> k" "k < m + length tracks" "t = tracks ! (k - m)"
    using in_set_enumerate_eq [of "(k, t)" m tracks] by auto
  with kt(2) show ?thesis
    by (intro exI [of _ "k - m"]) auto
qed

lemma embeddedItems_distinct:
  "distinct (map mt_Index tracks) \<Longrightarrow> list_all (\<lambda>t. in_int64 (mt_Index t)) tracks \<Longrightarrow>
     distinct (map (sub_ID \<circ> fst) (embeddedItems source asset capabilities m tracks))"
proof (induction tracks arbitrary: m)
  case (Cons t ts)
  have fresh: "sub_ID s' \<noteq> sub_ID s" if s: "embeddedSubtitle source asset capabilities (m, t) = Some (s, a)"
    and s': "(s', a') \<in> set (embeddedItems source asset capabilities (Suc m) ts)" for s a s' a'
  proof -
    from embeddedItems_mem [OF s'] obtain n where n: "n < length ts" "embeddedSubtitle source asset capabilities (Suc m + n, ts ! n) = Some (s', a')"
      by blast
    have "mt_Index (ts ! n) \<in> mt_Index ` set ts"
      using n(1) by simp
    then have "mt_Index (ts ! n) \<noteq> mt_Index t"
      using Cons.prems(1) by auto
    then have "Itoa (mt_Index (ts ! n)) \<noteq> Itoa (mt_Index t)"
      using Cons.prems(2) n(1) by (simp add: Itoa_inj list_all_iff)
    then show ?thesis
      using embeddedSubtitle_Some(7) [OF s] embeddedSubtitle_Some(7) [OF n(2)]
        decimal_suffix [of "mt_Index (ts ! n)" "sub_Delivery s' = ''external''" "mt_Index t" "sub_Delivery s = ''external''"]
      by (metis same_append_eq)
  qed
  show ?case
  proof (cases "embeddedSubtitle source asset capabilities (m, t)")
    case None
    with Cons show ?thesis by (simp add: embeddedItems_def List.map_filter_simps)
  next
    case (Some sa)
    obtain s a where sa: "sa = (s, a)" by force
    have "sub_ID s \<notin> sub_ID ` fst ` set (embeddedItems source asset capabilities (Suc m) ts)"
      using fresh [OF Some [unfolded sa]] by force
    with Cons Some sa show ?thesis
      by (simp add: embeddedItems_def List.map_filter_simps image_image)
  qed
qed (simp add: embeddedItems_def List.map_filter_simps)

text \<open>
  The subtitles of a source and their assets stay in step: they are parallel lists, a subtitle has
  the id of its asset, which names a subtitle track of the source and its position, and when the track
  indices differ (as the indices of one file do) so do the ids.
\<close>

lemma embeddedSubtitles_parallel:
  assumes result: "embeddedSubtitles sources assets capabilities = (subtitles, subtitleAssets)"
    and source: "inspectedIndex sources = Some i" "src_Media (sources ! i) = Some media"
    and indices: "distinct (map mt_Index (mi_SubtitleTracks media))" "list_all (\<lambda>t. in_int64 (mt_Index t)) (mi_SubtitleTracks media)"
  shows "map sub_ID subtitles = map sa_ID subtitleAssets \<and> distinct (map sub_ID subtitles) \<and>
    (\<forall>a \<in> set subtitleAssets. \<exists>n < length (mi_SubtitleTracks media). sa_SubtitleTrackOrdinal a = int n \<and>
      sa_SubtitleTrackIndex a = Some (mt_Index (mi_SubtitleTracks media ! n)))"
proof (cases "storedAssetIndex assets (src_ID (sources ! i))")
  case None
  with result source show ?thesis by (simp add: embeddedSubtitles_def Let_def)
next
  case (Some j)
  let ?items = "embeddedItems (sources ! i) (assets ! j) (case capabilities of [] \<Rightarrow> zeroCapabilities | c # _ \<Rightarrow> c) 0 (mi_SubtitleTracks media)"
  have lists: "subtitles = map fst ?items" "subtitleAssets = map snd ?items"
    using result source Some by (auto simp: embeddedSubtitles_def embeddedItems_def Let_def)
  have item: "sub_ID s = sa_ID a \<and> (\<exists>n < length (mi_SubtitleTracks media). sa_SubtitleTrackOrdinal a = int n \<and>
      sa_SubtitleTrackIndex a = Some (mt_Index (mi_SubtitleTracks media ! n)))" if "(s, a) \<in> set ?items" for s a
    using embeddedItems_mem [OF that] embeddedSubtitle_Some(1,2,5) by fastforce
  have "map sub_ID subtitles = map sa_ID subtitleAssets"
    using item by (auto simp: lists)
  moreover have "distinct (map sub_ID subtitles)"
    unfolding lists map_map by (rule embeddedItems_distinct [OF indices])
  ultimately show ?thesis
    using item by (auto simp: lists)
qed

section \<open>Burned subtitles\<close>

lemma appendDecisionReason_eq: "appendDecisionReason d reason = d\<lparr>pd_Reasons := pd_Reasons (appendDecisionReason d reason)\<rparr>"
  by (simp add: appendDecisionReason_def)

lemma appendDecisionReason_valid:
  "validReasons (pd_Reasons d) \<Longrightarrow> reason \<in> publicReasons \<Longrightarrow> validReasons (pd_Reasons (appendDecisionReason d reason))"
  by (auto simp: appendDecisionReason_def validReasons_def)

lemma appendDecisionReason_fields [simp]:
  "pd_ToneMapping (appendDecisionReason d r) = pd_ToneMapping d" "pd_VideoAction (appendDecisionReason d r) = pd_VideoAction d"
  "pd_Target (appendDecisionReason d r) = pd_Target d"
  by (simp_all add: appendDecisionReason_def)

lemma fold_burnReasons:
  "pd_ToneMapping (fold (\<lambda>reason d. if reason \<noteq> reasonAudioCodecNotSupported then appendDecisionReason d reason else d) reasons d) = pd_ToneMapping d"
  "pd_VideoAction (fold (\<lambda>reason d. if reason \<noteq> reasonAudioCodecNotSupported then appendDecisionReason d reason else d) reasons d) = pd_VideoAction d"
  "pd_Target (fold (\<lambda>reason d. if reason \<noteq> reasonAudioCodecNotSupported then appendDecisionReason d reason else d) reasons d) = pd_Target d"
  by (induction reasons arbitrary: d) simp_all

lemma burnReasons_fields [simp]:
  "pd_ToneMapping (burnReasons previous d) = pd_ToneMapping d" "pd_VideoAction (burnReasons previous d) = pd_VideoAction d"
  "pd_Target (burnReasons previous d) = pd_Target d"
  by (cases previous; simp add: burnReasons_def Let_def fold_burnReasons)+

lemma burnReasons_valid:
  assumes "validReasons (pd_Reasons d)" "pred_option (\<lambda>p. set (pd_Reasons p) \<subseteq> publicReasons) previous"
  shows "validReasons (pd_Reasons (burnReasons previous d))" "reasonSubtitleBurnRequired \<in> set (pd_Reasons (burnReasons previous d))"
proof -
  have "set reasons \<subseteq> publicReasons \<Longrightarrow> validReasons (pd_Reasons d) \<Longrightarrow>
      validReasons (pd_Reasons (fold (\<lambda>reason d. if reason \<noteq> reasonAudioCodecNotSupported then appendDecisionReason d reason else d) reasons d))"
    for reasons d
    by (induction reasons arbitrary: d) (simp_all add: appendDecisionReason_valid)
  with assms show "validReasons (pd_Reasons (burnReasons previous d))"
    by (cases previous) (auto simp: burnReasons_def Let_def intro!: appendDecisionReason_valid)
  show "reasonSubtitleBurnRequired \<in> set (pd_Reasons (burnReasons previous d))"
    by (auto simp: burnReasons_def Let_def appendDecisionReason_def)
qed

lemma selected_inspection [simp]:
  "mi_VideoTracks (inspectionWithSelectedAudio media audio) = mi_VideoTracks media"
  "mi_HDRFormat (inspectionWithSelectedAudio media audio) = mi_HDRFormat media"
  "mi_Container (inspectionWithSelectedAudio media audio) = mi_Container media"
  "genericToneMappingSupported (inspectionWithSelectedAudio media audio) = genericToneMappingSupported media"
  by (simp_all add: inspectionWithSelectedAudio_def genericToneMappingSupported_def)

lemma bitDepthToneMap_burn:
  assumes "sourceHDRNeedsBitDepthToneMap inspection depth"
  shows "burnToneMap inspection capabilities audio"
proof -
  let ?f = "ToLower (TrimSpace (mi_HDRFormat inspection))"
  have "?f \<noteq> [] \<and> ?f \<noteq> ''sdr''"
    using assms by (cases "?f = ''dolby_vision''") (auto simp: sourceHDRNeedsBitDepthToneMap_def Let_def)
  moreover have "ToLower ''sdr'' = ''sdr''"
    by code_simp
  ultimately show ?thesis
    by (simp add: burnToneMap_def EqualFold_def)
qed

lemma burnDecision_Inr:
  assumes burn: "burnDecision source asset capabilities = Inr d" and media: "src_Media source = Some media"
    and inspection: "inspection = inspectionWithSelectedAudio media (selectedInspectionAudioTrack media (sa_AudioTrackIndex asset))"
    and audio: "burnAudio (selectedInspectionAudioTrack media (sa_AudioTrackIndex asset)) inspection capabilities = (action, target, codec)"
    and decision: "decision = processingDecisionWithReasons decisionSubtitleBurnRequired (directIncompatibilityReasons source inspection capabilities)
      ''transcode'' action inspection capabilities (burnToneMap inspection capabilities target)"
    and t: "pd_Target decision = Some t"
  shows "burnToneMap inspection capabilities target \<longrightarrow> genericToneMappingSupported inspection"
    and "pd_VideoAction d = pd_VideoAction decision" "pd_SubtitleAction d = ''burn''"
    and "pd_Reasons d = pd_Reasons (burnReasons (src_Decision source) decision)" "pd_ToneMapping d = pd_ToneMapping decision"
    and "\<exists>t'. pd_Target d = Some t' \<and> pt_VideoBitDepth t' = 8 \<and> pt_VideoCodec t' \<noteq> [] \<and> pt_Height t' = pt_Height t \<and>
      pt_VideoBitrateKbps t' = pt_VideoBitrateKbps t"
proof -
  let ?audio = "selectedInspectionAudioTrack media (sa_AudioTrackIndex asset)"
  let ?codec = "if codec = [] then fst (selectedTranscodeVideoTarget capabilities inspection target) else codec"
  have "?codec \<noteq> []" and safe: "burnToneMap inspection capabilities target \<longrightarrow> genericToneMappingSupported inspection"
    and d: "d = (burnReasons (src_Decision source) decision)\<lparr>pd_SubtitleAction := ''burn'',
        pd_Pipeline := Some (plannedPlaybackPipeline inspection capabilities (Some (t\<lparr>pt_VideoCodec := ?codec, pt_VideoBitDepth := 8\<rparr>))
          (burnToneMap inspection capabilities target) True),
        pd_Target := Some (case ?audio of None \<Rightarrow> t\<lparr>pt_VideoCodec := ?codec, pt_VideoBitDepth := 8\<rparr>
          | Some a \<Rightarrow> if action = ''copy'' then t\<lparr>pt_VideoCodec := ?codec, pt_VideoBitDepth := 8, pt_AudioCodec := normalizedCodec (mt_Codec a)\<rparr>
              else t\<lparr>pt_VideoCodec := ?codec, pt_VideoBitDepth := 8\<rparr>)\<rparr>"
    using burn t
    unfolding burnDecision_def Let_def media option.sel inspection [symmetric] audio case_prod_conv decision [symmetric]
    by (auto simp del: fst_selectedTranscodeVideoTarget split: if_splits option.splits)
  then show "burnToneMap inspection capabilities target \<longrightarrow> genericToneMappingSupported inspection"
    "pd_VideoAction d = pd_VideoAction decision" "pd_SubtitleAction d = ''burn''"
    "pd_Reasons d = pd_Reasons (burnReasons (src_Decision source) decision)" "pd_ToneMapping d = pd_ToneMapping decision"
    "\<exists>t'. pd_Target d = Some t' \<and> pt_VideoBitDepth t' = 8 \<and> pt_VideoCodec t' \<noteq> [] \<and> pt_Height t' = pt_Height t \<and>
      pt_VideoBitrateKbps t' = pt_VideoBitrateKbps t"
    by (auto split: option.split)
qed

text \<open>
  C13. A burned subtitle is safe for every stream: the decision transcodes the video to eight bits in a
  codec the engine has, within the client's height and bitrate limits; a stream in an HDR format is
  always tone mapped and one that cannot be tone mapped (Dolby Vision without a recognised base layer)
  is refused; the reasons are distinct public ones and name the burn.
\<close>

theorem burnDecision_safe:
  assumes burn: "burnDecision source asset capabilities = Inr d" and media: "src_Media source = Some media"
    and previous: "pred_option (\<lambda>p. set (pd_Reasons p) \<subseteq> publicReasons) (src_Decision source)"
  shows "pd_VideoAction d = ''transcode'' \<and> pd_SubtitleAction d = ''burn'' \<and>
    validReasons (pd_Reasons d) \<and> reasonSubtitleBurnRequired \<in> set (pd_Reasons d) \<and>
    (pd_ToneMapping d \<longrightarrow> genericToneMappingSupported media) \<and>
    (TrimSpace (mi_HDRFormat media) \<noteq> [] \<and> \<not> EqualFold (TrimSpace (mi_HDRFormat media)) ''sdr'' \<longrightarrow> pd_ToneMapping d) \<and>
    (\<exists>t. pd_Target d = Some t \<and> pt_VideoBitDepth t = 8 \<and> pt_VideoCodec t \<noteq> [] \<and>
       withinLimit (cap_MaximumHeight capabilities) (pt_Height t) \<and>
       withinLimit (cap_MaximumVideoBitrateKbps capabilities) (pt_VideoBitrateKbps t))"
proof -
  let ?audio = "selectedInspectionAudioTrack media (sa_AudioTrackIndex asset)"
  let ?inspection = "inspectionWithSelectedAudio media ?audio"
  obtain action target codec where audio: "burnAudio ?audio ?inspection capabilities = (action, target, codec)"
    by (metis prod_cases3)
  let ?toneMap = "burnToneMap ?inspection capabilities target"
  let ?d = "processingDecisionWithReasons decisionSubtitleBurnRequired (directIncompatibilityReasons source ?inspection capabilities)
    ''transcode'' action ?inspection capabilities ?toneMap"
  obtain t toneMap where t: "transcodeTarget ?inspection capabilities (decisionTargetAudio action ?inspection capabilities) ?toneMap = (t, toneMap)"
    by force
  obtain t' where t': "pd_Target ?d = Some t'" "pt_Height t' = pt_Height t" "pt_VideoBitrateKbps t' = pt_VideoBitrateKbps t"
    using processingDecision_transcode(2) [OF _ t, of "''transcode''"] by auto
  have map: "pd_ToneMapping ?d = toneMap" "toneMap = ?toneMap"
    using processingDecision_transcode(1) [OF _ t, of "''transcode''"] transcodeTarget_fields(3) [OF t] bitDepthToneMap_burn by auto
  note burned = burnDecision_Inr [OF burn media refl audio refl t'(1)]
  have reasons: "validReasons (pd_Reasons ?d)"
    by (simp add: validReasons_direct)
  have "pd_VideoAction ?d = ''transcode''"
    by (simp add: processingDecisionWithReasons_def Let_def case_prod_unfold)
  moreover have "TrimSpace (mi_HDRFormat media) \<noteq> [] \<and> \<not> EqualFold (TrimSpace (mi_HDRFormat media)) ''sdr'' \<longrightarrow> ?toneMap"
    by (simp add: burnToneMap_def)
  ultimately show ?thesis
    using burned map t' burnReasons_valid [OF reasons previous] transcodeTarget_within_limits [OF t] by auto
qed

lemma storedAssetIndex_less: "storedAssetIndex assets k = Some j \<Longrightarrow> j < length assets \<and> sa_ID (assets ! j) = k"
  by (induction assets arbitrary: j) (auto split: if_splits)

lemma burnCandidate_Some:
  "burnCandidate assets sources = Some (i, j) \<Longrightarrow>
     i < length sources \<and> j < length assets \<and> src_Compatible (sources ! i) \<and> src_Media (sources ! i) \<noteq> None"
  by (induction sources arbitrary: i) (auto split: if_splits option.splits dest: storedAssetIndex_less)

lemma inspectedIndex_Some:
  "inspectedIndex sources = Some i \<Longrightarrow> i < length sources \<and> src_Compatible (sources ! i) \<and> src_Media (sources ! i) \<noteq> None"
  by (induction sources arbitrary: i) (auto split: if_splits)

lemma firstCompatibleIndex_Some: "firstCompatibleIndex sources = Some i \<Longrightarrow> i < length sources \<and> src_Compatible (sources ! i)"
  by (induction sources arbitrary: i) (auto split: if_splits)

lemma setSubtitleAction_keeps:
  "length (fst (setSubtitleAction sources assets action)) = length sources"
  "map src_Mode (fst (setSubtitleAction sources assets action)) = map src_Mode sources"
  "length (snd (setSubtitleAction sources assets action)) = length assets"
  by (auto simp: setSubtitleAction_def Let_def map_update list_update_same_conv split: option.splits dest: firstCompatibleIndex_Some)

definition burnSelected :: "Subtitle list \<Rightarrow> bool" where
  "burnSelected subtitles \<longleftrightarrow>
     selectedSubtitle subtitles \<noteq> [] \<and>
     (case find (\<lambda>s. sub_ID s = selectedSubtitle subtitles) subtitles of None \<Rightarrow> False | Some s \<Rightarrow> sub_Delivery s = ''burn'')"

lemma applyPlaybackDecision_at:
  assumes "applyPlaybackDecision sources assets (candidateAt i j) inspection mode decision capabilities = (ss, aa)"
    "i < length sources" "j < length assets"
  shows "length ss = length sources" "length aa = length assets" "src_Mode (ss ! i) = mode" "src_Decision (ss ! i) = decision"
    "src_Media (ss ! i) = Some inspection" "sa_Decision (aa ! j) = decision" "k \<noteq> i \<Longrightarrow> ss ! k = sources ! k"
    "src_Compatible (ss ! i)" "src_ID (ss ! i) = src_ID (sources ! i)"
proof -
  have "sa_Decision (applyDecisionToAsset inspection mode decision capabilities a) = decision" for a
    by (simp add: applyDecisionToAsset_def Let_def split: option.split)
  then show "length ss = length sources" "length aa = length assets" "src_Mode (ss ! i) = mode" "src_Decision (ss ! i) = decision"
    "src_Media (ss ! i) = Some inspection" "sa_Decision (aa ! j) = decision" "k \<noteq> i \<Longrightarrow> ss ! k = sources ! k"
    "src_Compatible (ss ! i)" "src_ID (ss ! i) = src_ID (sources ! i)"
    using assms by (auto simp: applyPlaybackDecision_def candidateAt_def applyDecisionToSource_def Let_def)
qed

lemma applySubtitleDecision_cases:
  obtains (action) action where "\<not> burnSelected subtitles"
      "applySubtitleDecision sources assets subtitles subtitleAssets capabilities allow = (None, setSubtitleAction sources assets action)"
  | (error) err where "burnSelected subtitles"
      "applySubtitleDecision sources assets subtitles subtitleAssets capabilities allow = (Some err, sources, assets)"
  | (burn) i j d ss aa track k l where "burnSelected subtitles" "allow" "burnCandidate assets sources = Some (i, j)"
      "burnDecision (sources ! i) (assets ! j) capabilities = Inr d"
      "applyPlaybackDecision sources assets (candidateAt i j) (the (src_Media (sources ! i))) processingTranscode (Some d) capabilities = (ss, aa)"
      "applySubtitleDecision sources assets subtitles subtitleAssets capabilities allow =
         (None, ss, aa[j := (aa ! j)\<lparr>sa_SubtitleTrackIndex := Some track, sa_SubtitleTrackType := k, sa_SubtitleTrackOrdinal := l\<rparr>])"
proof (cases "burnSelected subtitles")
  case False
  then have "\<exists>action. applySubtitleDecision sources assets subtitles subtitleAssets capabilities allow = (None, setSubtitleAction sources assets action)"
    by (auto simp: applySubtitleDecision_def burnSelected_def Let_def split: option.splits)
  with False action show thesis by blast
next
  case True
  then obtain s where s: "find (\<lambda>s. sub_ID s = selectedSubtitle subtitles) subtitles = Some s" "sub_Delivery s = ''burn''"
      "selectedSubtitle subtitles \<noteq> []"
    by (auto simp: burnSelected_def split: option.splits)
  show thesis
  proof (cases "fst (applySubtitleDecision sources assets subtitles subtitleAssets capabilities allow)")
    case (Some err)
    then have "applySubtitleDecision sources assets subtitles subtitleAssets capabilities allow = (Some err, sources, assets)"
      using s by (auto simp: applySubtitleDecision_def Let_def split: option.splits sum.splits prod.splits if_splits)
    with True error show thesis by blast
  next
    case None
    then obtain m track i j d where "allow" "storedAssetIndex subtitleAssets (sub_ID s) = Some m"
        "sa_SubtitleTrackIndex (subtitleAssets ! m) = Some track" "burnCandidate assets sources = Some (i, j)"
        "burnDecision (sources ! i) (assets ! j) capabilities = Inr d"
        "requestedProcessingMode (cap_SubtitleModes capabilities) ''burn''"
        "requestedProcessingMode (cap_ProcessingModes capabilities) processingTranscode" "processingOutputSupported capabilities"
      using s by (auto simp: applySubtitleDecision_def Let_def split: option.splits sum.splits prod.splits if_splits)
    moreover obtain ss aa where
        "applyPlaybackDecision sources assets (candidateAt i j) (the (src_Media (sources ! i))) processingTranscode (Some d) capabilities = (ss, aa)"
      by force
    ultimately show thesis
      using burn [where track = track and k = "sa_SubtitleTrackType (subtitleAssets ! m)"
          and l = "sa_SubtitleTrackOrdinal (subtitleAssets ! m)" and i = i and j = j and d = d and ss = ss and aa = aa] s True
      by (simp add: applySubtitleDecision_def)
  qed
qed

text \<open>
  C14. Applying the subtitle choice is all or nothing: an error leaves sources and assets as they were; a
  subtitle that need not be burned changes no mode; a burned one needs the permission to transcode and
  turns the chosen source into a transcode that carries the burn decision, in the source and in its
  stored asset, with the subtitle track to burn.
\<close>

theorem applySubtitleDecision_outcome:
  assumes result: "applySubtitleDecision sources assets subtitles subtitleAssets capabilities allow = (err, ss, aa)"
  shows "length ss = length sources \<and> length aa = length assets \<and>
    (err \<noteq> None \<longrightarrow> ss = sources \<and> aa = assets) \<and>
    (\<not> burnSelected subtitles \<longrightarrow> err = None \<and> map src_Mode ss = map src_Mode sources) \<and>
    (burnSelected subtitles \<and> err = None \<longrightarrow> allow \<and>
      (\<exists>i j d. burnCandidate assets sources = Some (i, j) \<and> burnDecision (sources ! i) (assets ! j) capabilities = Inr d \<and>
         src_Mode (ss ! i) = processingTranscode \<and> src_Decision (ss ! i) = Some d \<and> sa_Decision (aa ! j) = Some d \<and>
         sa_SubtitleTrackIndex (aa ! j) \<noteq> None))"
proof (cases rule: applySubtitleDecision_cases [of subtitles sources assets subtitleAssets capabilities allow])
  case (action a)
  with result setSubtitleAction_keeps [of sources assets a] show ?thesis by auto
next
  case (error e)
  with result show ?thesis by auto
next
  case (burn i j d ss' aa' track k l)
  note ij = burnCandidate_Some [OF burn(3)]
  from result burn have out: "err = None" "ss = ss'"
      "aa = aa'[j := (aa' ! j)\<lparr>sa_SubtitleTrackIndex := Some track, sa_SubtitleTrackType := k, sa_SubtitleTrackOrdinal := l\<rparr>]"
    by auto
  note applied = applyPlaybackDecision_at [OF burn(5)]
  from ij applied burn(1-4) show ?thesis by (auto simp: out)
qed

section \<open>Audio preferences\<close>

lemma remuxTrack_copies:
  "remuxTrack source inspection capabilities explicit preferred = (track, True) \<Longrightarrow> \<exists>v. primaryTrack (mi_VideoTracks inspection) = Some v"
  by (auto simp: remuxTrack_def trackCopySupported_def split: if_splits option.splits)

lemma audioSwitch_modes:
  assumes "audioSwitch source inspection input track copySupported = Inr (Some (mode, decision))"
    and "copySupported \<Longrightarrow> \<exists>v. primaryTrack (mi_VideoTracks inspection) = Some v"
  shows "mode = processingRemux \<and> src_Mode source = ''direct'' \<and> pd_ToneMapping decision = False \<or>
    ri_AllowTranscoding input \<and> mode \<in> {processingTranscodeAudio, processingTranscode} \<and>
    (pd_ToneMapping decision \<longrightarrow> genericToneMappingSupported (inspectionWithSelectedAudio inspection (Some track)))"
  using assms unfolding audioSwitch_def Let_def by (auto split: if_splits simp: processingDecision_copy)

lemma selectAudioTrack_at:
  assumes "selectAudioTrack i j inspection track capabilities sources assets = (ss, aa)" "i < length sources" "j < length assets"
  shows "length ss = length sources" "length aa = length assets" "src_Mode (ss ! i) = src_Mode (sources ! i)"
    "sa_AudioTrackIndex (aa ! j) = Some (mt_Index track)" "k \<noteq> i \<Longrightarrow> ss ! k = sources ! k" "k \<noteq> j \<Longrightarrow> aa ! k = assets ! k"
    "map_option pd_ToneMapping (src_Decision (ss ! i)) = map_option pd_ToneMapping (src_Decision (sources ! i))"
proof -
  have "pd_ToneMapping (refreshedDecision m c d) = pd_ToneMapping d" for m c d
    by (simp add: refreshedDecision_def Let_def split: option.split)
  with assms show "length ss = length sources" "length aa = length assets" "src_Mode (ss ! i) = src_Mode (sources ! i)"
    "sa_AudioTrackIndex (aa ! j) = Some (mt_Index track)" "k \<noteq> i \<Longrightarrow> ss ! k = sources ! k" "k \<noteq> j \<Longrightarrow> aa ! k = assets ! k"
    "map_option pd_ToneMapping (src_Decision (ss ! i)) = map_option pd_ToneMapping (src_Decision (sources ! i))"
    by (auto simp: selectAudioTrack_def refreshSelectedAudioDecision_def Let_def split: option.splits)
qed

lemma applyPlaybackPreferences_cases:
  obtains (skip) err where "applyPlaybackPreferences sources assets input = (err, sources, assets)"
      "err = None \<Longrightarrow> ri_PreferredAudioTrack input \<noteq> None \<Longrightarrow> inspectedIndex sources = None \<or>
         storedAssetIndex assets (src_ID (sources ! the (inspectedIndex sources))) = None"
  | (keep) i j track preferred explicit copySupported where "inspectedIndex sources = Some i"
      "storedAssetIndex assets (src_ID (sources ! i)) = Some j"
      "preferredAudioTrack (mi_AudioTracks (the (src_Media (sources ! i)))) (ri_PreferredAudioTrack input)
         (ri_PreferredAudioLanguage input) = (Some preferred, explicit)"
      "remuxTrack (sources ! i) (the (src_Media (sources ! i))) (ri_Capabilities input) explicit preferred = (track, copySupported)"
      "applyPlaybackPreferences sources assets input =
         (None, selectAudioTrack i j (the (src_Media (sources ! i))) track (ri_Capabilities input) sources assets)"
  | (switch) i j track preferred explicit copySupported mode decision ss aa where "inspectedIndex sources = Some i"
      "storedAssetIndex assets (src_ID (sources ! i)) = Some j"
      "preferredAudioTrack (mi_AudioTracks (the (src_Media (sources ! i)))) (ri_PreferredAudioTrack input)
         (ri_PreferredAudioLanguage input) = (Some preferred, explicit)"
      "remuxTrack (sources ! i) (the (src_Media (sources ! i))) (ri_Capabilities input) explicit preferred = (track, copySupported)"
      "audioSwitch (sources ! i) (the (src_Media (sources ! i))) input track copySupported = Inr (Some (mode, decision))"
      "applyPlaybackDecision sources assets (candidateAt i j) (the (src_Media (sources ! i))) mode (Some decision) (ri_Capabilities input) = (ss, aa)"
      "applyPlaybackPreferences sources assets input =
         (None, selectAudioTrack i j (the (src_Media (sources ! i))) track (ri_Capabilities input) ss aa)"
proof (cases "inspectedIndex sources")
  case None
  then show thesis using skip by (simp add: applyPlaybackPreferences_def)
next
  case i: (Some i)
  show thesis
  proof (cases "storedAssetIndex assets (src_ID (sources ! i))")
    case None
    with i show thesis using skip by (simp add: applyPlaybackPreferences_def)
  next
    case j: (Some j)
    obtain chosen explicit where p: "preferredAudioTrack (mi_AudioTracks (the (src_Media (sources ! i)))) (ri_PreferredAudioTrack input)
         (ri_PreferredAudioLanguage input) = (chosen, explicit)" by force
    show thesis
    proof (cases chosen)
      case None
      with i j p show thesis
        using skip by (auto simp: applyPlaybackPreferences_def preferredAudioTrack_def Let_def split: option.splits)
    next
      case (Some preferred)
      obtain track copySupported where r: "remuxTrack (sources ! i) (the (src_Media (sources ! i))) (ri_Capabilities input) explicit preferred =
        (track, copySupported)" by force
      note facts = i j p [unfolded Some] r
      show thesis
      proof (cases "audioSwitch (sources ! i) (the (src_Media (sources ! i))) input track copySupported")
        case (Inl err)
        with facts show thesis using skip by (simp add: applyPlaybackPreferences_def Let_def)
      next
        case (Inr planned)
        show thesis
        proof (cases planned)
          case None
          with facts Inr show thesis using keep by (simp add: applyPlaybackPreferences_def Let_def)
        next
          case (Some pair)
          obtain mode decision ss aa where "pair = (mode, decision)"
            "applyPlaybackDecision sources assets (candidateAt i j) (the (src_Media (sources ! i))) mode (Some decision) (ri_Capabilities input) = (ss, aa)"
            by (metis surj_pair)
          with facts Inr Some show thesis using switch by (simp add: applyPlaybackPreferences_def Let_def)
        qed
      qed
    qed
  qed
qed

lemma explicit_track:
  assumes "preferredAudioTrack tracks (Some k) language = (Some preferred, explicit)"
    "remuxTrack source inspection capabilities explicit preferred = (track, copySupported)"
  shows "mt_Index track = k \<and> track \<in> set tracks"
  using assms by (auto simp: preferredAudioTrack_def remuxTrack_def find_Some_iff)

lemma applyPlaybackPreferences_keeps:
  assumes result: "applyPlaybackPreferences sources assets input = (err, ss, aa)"
  shows "length ss = length sources \<and> length aa = length assets \<and>
    (err \<noteq> None \<longrightarrow> ss = sources \<and> aa = assets) \<and>
    (\<forall>i j. inspectedIndex sources = Some i \<and> storedAssetIndex assets (src_ID (sources ! i)) = Some j \<longrightarrow>
       (\<forall>k. k \<noteq> i \<longrightarrow> ss ! k = sources ! k) \<and>
       (\<forall>k. ri_PreferredAudioTrack input = Some k \<and> err = None \<longrightarrow> sa_AudioTrackIndex (aa ! j) = Some k) \<and>
       (\<not> ri_AllowTranscoding input \<longrightarrow> src_Mode (ss ! i) = src_Mode (sources ! i) \<or>
          src_Mode (sources ! i) = ''direct'' \<and> src_Mode (ss ! i) = processingRemux) \<and>
       (src_Mode (ss ! i) \<noteq> src_Mode (sources ! i) \<and> pred_option pd_ToneMapping (src_Decision (ss ! i)) \<and> src_Decision (ss ! i) \<noteq> None \<longrightarrow>
          genericToneMappingSupported (the (src_Media (sources ! i)))))"
proof (cases rule: applyPlaybackPreferences_cases [of sources assets input])
  case (skip e)
  with result show ?thesis by auto
next
  case (keep i j track preferred explicit copySupported)
  have ij: "i < length sources" "j < length assets"
    using inspectedIndex_Some [OF keep(1)] storedAssetIndex_less [OF keep(2)] by auto
  from result keep have out: "err = None" "selectAudioTrack i j (the (src_Media (sources ! i))) track (ri_Capabilities input) sources assets = (ss, aa)"
    by auto
  note applied = selectAudioTrack_at [OF out(2) ij]
  show ?thesis using applied keep explicit_track out(1) by fastforce
next
  case (switch i j track preferred explicit copySupported mode decision ss' aa')
  have ij: "i < length sources" "j < length assets"
    using inspectedIndex_Some [OF switch(1)] storedAssetIndex_less [OF switch(2)] by auto
  from result switch have out: "err = None" "selectAudioTrack i j (the (src_Media (sources ! i))) track (ri_Capabilities input) ss' aa' = (ss, aa)"
    by auto
  note decided = applyPlaybackDecision_at [OF switch(6) ij]
  have ij': "i < length ss'" "j < length aa'" using ij decided(1,2) by auto
  note applied = selectAudioTrack_at [OF out(2) ij']
  have "copySupported \<Longrightarrow> \<exists>v. primaryTrack (mi_VideoTracks (the (src_Media (sources ! i)))) = Some v"
    using remuxTrack_copies switch(4) by (cases copySupported) auto
  note modes = audioSwitch_modes [OF switch(5) this]
  have explicit: "ri_PreferredAudioTrack input = Some k \<Longrightarrow> mt_Index track = k" for k
    using switch(3,4) explicit_track by fastforce
  show ?thesis using applied(1-5,7) decided(1-4,7) modes explicit switch(1,2) out(1)
    by (auto simp: genericToneMappingSupported_def split: option.splits)
qed

text \<open>
  C12. Applying the audio preference changes at most one source, the first compatible one that was
  inspected. An error leaves everything as it was. A track that was asked for by its index is the one
  stored for the stream, and without the permission to transcode the mode of the source stays as it is,
  except that direct play may become a remux. A new decision tone maps only what can be tone mapped.
\<close>

theorem applyPlaybackPreferences_outcome:
  assumes result: "applyPlaybackPreferences sources assets input = (err, ss, aa)"
  shows "length ss = length sources \<and> length aa = length assets \<and>
    (err \<noteq> None \<longrightarrow> ss = sources \<and> aa = assets) \<and>
    (\<forall>i j. inspectedIndex sources = Some i \<and> storedAssetIndex assets (src_ID (sources ! i)) = Some j \<longrightarrow>
       (\<forall>k. k \<noteq> i \<longrightarrow> ss ! k = sources ! k) \<and>
       (\<forall>k. ri_PreferredAudioTrack input = Some k \<and> err = None \<longrightarrow> sa_AudioTrackIndex (aa ! j) = Some k) \<and>
       (\<not> ri_AllowTranscoding input \<longrightarrow> src_Mode (ss ! i) = src_Mode (sources ! i) \<or>
          src_Mode (sources ! i) = ''direct'' \<and> src_Mode (ss ! i) = processingRemux) \<and>
       (src_Mode (ss ! i) \<noteq> src_Mode (sources ! i) \<and> pred_option pd_ToneMapping (src_Decision (ss ! i)) \<and> src_Decision (ss ! i) \<noteq> None \<longrightarrow>
          genericToneMappingSupported (the (src_Media (sources ! i)))))"
  using assms by (rule applyPlaybackPreferences_keeps)

section \<open>A concrete file\<close>

text \<open>A file with two audio tracks, a text subtitle and a bitmap subtitle, for a client that can take a burned one.\<close>

definition trackMedia :: MediaInspection where
  "trackMedia = exampleInspection\<lparr>mi_AudioTracks := [zeroMediaTrack\<lparr>mt_Index := 1, mt_Codec := ''aac'', mt_Channels := 2\<rparr>,
       zeroMediaTrack\<lparr>mt_Index := 4, mt_Codec := ''aac'', mt_Language := ''fr'', mt_Channels := 2\<rparr>],
     mi_SubtitleTracks := [zeroMediaTrack\<lparr>mt_Index := 2, mt_Codec := ''subrip'', mt_Language := ''en''\<rparr>,
       zeroMediaTrack\<lparr>mt_Index := 3, mt_Codec := ''hdmv_pgs_subtitle'', mt_Language := ''fr''\<rparr>]\<rparr>"

definition trackClient :: Capabilities where
  "trackClient = exampleClient\<lparr>cap_SubtitleModes := [''external'', ''burn''], cap_ProcessingModes := [''remux'', ''transcode'']\<rparr>"

definition trackSources :: "Source list" where
  "trackSources = [exampleSource\<lparr>src_Media := Some trackMedia, src_Compatible := True\<rparr>]"

definition trackAssets :: "storedAsset list" where
  "trackAssets = [zeroStoredAsset\<lparr>sa_ID := ''a''\<rparr>]"

definition trackInput :: ResolveInput where
  "trackInput = \<lparr>ri_SourceRef = [], ri_TitleID = [], ri_PreferredAudioTrack = Some 4, ri_PreferredSubtitleID = [], ri_StartSeconds = Finite 0,
     ri_ExternalPlayer = False, ri_PreferredAudioLanguage = [], ri_PreferredSubtitleLanguage = [],
     ri_PreferredForcedSubtitleLanguage = [], ri_Capabilities = trackClient, ri_AllowTranscoding = False, ri_MaximumHeight = 0\<rparr>"

definition trackSubtitles :: "Subtitle list" where
  "trackSubtitles = fst (embeddedSubtitles trackSources trackAssets [trackClient])"

definition trackSubtitleAssets :: "storedAsset list" where
  "trackSubtitleAssets = snd (embeddedSubtitles trackSources trackAssets [trackClient])"

lemma trackSubtitles_ids: "map sub_ID trackSubtitles = [''embedded-subtitle-2.vtt'', ''embedded-subtitle-3'']"
  by code_simp

theorem applySubtitlePreference_selects_witness:
  "selectedSubtitle (snd (applySubtitlePreference trackSubtitles ''embedded-subtitle-3'' [] [])) = ''embedded-subtitle-3'' \<and>
   fst (applySubtitlePreference trackSubtitles ''embedded-subtitle-9'' [] []) = Some ErrInvalidInput"
proof -
  have ids: "sub_ID ` set trackSubtitles = {''embedded-subtitle-2.vtt'', ''embedded-subtitle-3''}"
    using arg_cong [OF trackSubtitles_ids, of set] by simp
  show ?thesis
    using applySubtitlePreference_selects [OF surjective_pairing, of trackSubtitles "''embedded-subtitle-3''" "[]" "[]"]
      applySubtitlePreference_selects [OF surjective_pairing, of trackSubtitles "''embedded-subtitle-9''" "[]" "[]"]
    by (simp add: ids)
qed

lemma embeddedSubtitles_parallel_example:
  "map sub_ID trackSubtitles = map sa_ID trackSubtitleAssets \<and> distinct (map sub_ID trackSubtitles) \<and> length trackSubtitles = 2"
proof -
  have source: "inspectedIndex trackSources = Some 0" "src_Media (trackSources ! 0) = Some trackMedia"
    "distinct (map mt_Index (mi_SubtitleTracks trackMedia))" "list_all (\<lambda>t. in_int64 (mt_Index t)) (mi_SubtitleTracks trackMedia)"
    by code_simp+
  show ?thesis
    using embeddedSubtitles_parallel [OF surjective_pairing source, of trackAssets "[trackClient]"]
      arg_cong [OF trackSubtitles_ids, of length]
    unfolding trackSubtitles_def trackSubtitleAssets_def length_map by auto
qed

lemma track_burn: "case burnDecision (trackSources ! 0) (trackAssets ! 0) trackClient of Inl _ \<Rightarrow> False | Inr _ \<Rightarrow> True"
  by code_simp

theorem burnDecision_safe_witness:
  "\<exists>d. burnDecision (trackSources ! 0) (trackAssets ! 0) trackClient = Inr d \<and> pd_ToneMapping d \<and>
     validReasons (pd_Reasons d) \<and> (\<exists>t. pd_Target d = Some t \<and> pt_VideoBitDepth t = 8)"
proof -
  obtain d where d: "burnDecision (trackSources ! 0) (trackAssets ! 0) trackClient = Inr d"
    using track_burn by (auto split: sum.splits)
  have source: "src_Media (trackSources ! 0) = Some trackMedia" "src_Decision (trackSources ! 0) = None"
    "TrimSpace (mi_HDRFormat trackMedia) \<noteq> []" "\<not> EqualFold (TrimSpace (mi_HDRFormat trackMedia)) ''sdr''"
    by code_simp+
  from burnDecision_safe [OF d source(1)] source d show ?thesis by auto
qed

lemma track_preferences:
  "fst (applyPlaybackPreferences trackSources trackAssets trackInput) = None"
  by code_simp

theorem applyPlaybackPreferences_outcome_witness:
  "\<exists>ss aa. applyPlaybackPreferences trackSources trackAssets trackInput
     = (None, ss, aa) \<and> sa_AudioTrackIndex (aa ! 0) = Some 4 \<and> length ss = 1"
proof -
  obtain ss aa where r: "applyPlaybackPreferences trackSources trackAssets trackInput = (None, ss, aa)"
    using track_preferences by (metis prod.collapse)
  have at: "inspectedIndex trackSources = Some 0" "storedAssetIndex trackAssets (src_ID (trackSources ! 0)) = Some 0" "length trackSources = 1"
    by code_simp+
  from applyPlaybackPreferences_outcome [OF r] at r show ?thesis by (simp add: trackInput_def)
qed

definition trackMarked :: "Subtitle list" where
  "trackMarked = snd (applySubtitlePreference trackSubtitles ''embedded-subtitle-3'' [] [])"

lemma track_burned:
  "burnSelected trackMarked" "selectedSubtitle trackMarked = ''embedded-subtitle-3''"
  "storedAssetIndex trackSubtitleAssets ''embedded-subtitle-3'' = Some 1" "sa_SubtitleTrackIndex (trackSubtitleAssets ! 1) = Some 3"
  "burnCandidate trackAssets trackSources = Some (0, 0)" "requestedProcessingMode (cap_SubtitleModes trackClient) ''burn''"
  "requestedProcessingMode (cap_ProcessingModes trackClient) processingTranscode" "processingOutputSupported trackClient"
  by code_simp+

theorem applySubtitleDecision_outcome_witness:
  "\<exists>ss aa. applySubtitleDecision trackSources trackAssets trackMarked trackSubtitleAssets trackClient True = (None, ss, aa) \<and>
     (\<exists>i. src_Mode (ss ! i) = processingTranscode)"
proof -
  have "fst (applySubtitleDecision trackSources trackAssets trackMarked trackSubtitleAssets trackClient True) = None"
  proof -
    obtain s where s: "find (\<lambda>s. sub_ID s = ''embedded-subtitle-3'') trackMarked = Some s" "sub_Delivery s = ''burn''"
      using track_burned(1,2) by (auto simp: burnSelected_def split: option.splits)
    then have "sub_ID s = ''embedded-subtitle-3''" by (auto simp: find_Some_iff)
    moreover obtain d where "burnDecision (trackSources ! 0) (trackAssets ! 0) trackClient = Inr d"
      using track_burn by (auto split: sum.splits)
    ultimately show ?thesis
      using s track_burned(2-8) by (simp add: applySubtitleDecision_def Let_def split: prod.splits)
  qed
  then obtain ss aa where r: "applySubtitleDecision trackSources trackAssets trackMarked trackSubtitleAssets trackClient True = (None, ss, aa)"
    by (metis prod.collapse)
  from applySubtitleDecision_outcome [OF r] track_burned(1) r show ?thesis by auto
qed

end
