(* ===== verification/Net_Address.thy ===== *)
theory Net_Address
  imports Go_Prelude "HOL-Library.Word"
begin

unbundle bit_operations_syntax

text \<open>
  The part of Go's packages \<open>net/netip\<close> and \<open>net\<close> that the outbound policy and the request
  admission use: addresses, prefixes and their textual forms. An \<open>Addr\<close> is invalid (the zero value), an
  IPv4 address of 32 bits, or an IPv6 address of 128 bits with a zone, which is empty for most.
\<close>

section \<open>Addresses\<close>

datatype Addr = AddrInvalid | Addr4 "32 word" | Addr6 "128 word" string

datatype Prefix = Prefix (pfx_Addr: Addr) (pfx_Bits: int)

definition ip4 :: "int \<Rightarrow> int \<Rightarrow> int \<Rightarrow> int \<Rightarrow> Addr" where
  "ip4 a b c d = Addr4 (word_of_int (((a * 256 + b) * 256 + c) * 256 + d))"

text \<open>An IPv6 address by its eight groups.\<close>

definition ip6 :: "int list \<Rightarrow> Addr" where
  "ip6 groups = Addr6 (word_of_int (foldl (\<lambda>acc g. acc * 65536 + g) 0 groups)) []"

fun IsValid :: "Addr \<Rightarrow> bool" where
  "IsValid AddrInvalid = False"
| "IsValid _ = True"

fun Is4 :: "Addr \<Rightarrow> bool" where
  "Is4 (Addr4 _) = True"
| "Is4 _ = False"

fun Is6 :: "Addr \<Rightarrow> bool" where
  "Is6 (Addr6 _ _) = True"
| "Is6 _ = False"

fun Is4In6 :: "Addr \<Rightarrow> bool" where
  "Is4In6 (Addr6 a _) = (drop_bit 32 a = 0xffff)"
| "Is4In6 _ = False"

fun Unmap :: "Addr \<Rightarrow> Addr" where
  "Unmap (Addr6 a z) = (if Is4In6 (Addr6 a z) then Addr4 (ucast a) else Addr6 a z)"
| "Unmap a = a"

fun WithZone :: "Addr \<Rightarrow> string \<Rightarrow> Addr" where
  "WithZone (Addr6 a _) z = Addr6 a z"
| "WithZone a _ = a"

fun Zone :: "Addr \<Rightarrow> string" where
  "Zone (Addr6 _ z) = z"
| "Zone _ = []"

fun BitLen :: "Addr \<Rightarrow> int" where
  "BitLen AddrInvalid = 0"
| "BitLen (Addr4 _) = 32"
| "BitLen (Addr6 _ _) = 128"

text \<open>The octets of an address, the most significant one first.\<close>

definition octets4 :: "32 word \<Rightarrow> int list" where
  "octets4 a = map (\<lambda>k. uint (drop_bit (24 - 8 * k) a AND 0xff)) [0..<4]"

definition octets6 :: "128 word \<Rightarrow> int list" where
  "octets6 a = map (\<lambda>k. uint (drop_bit (120 - 8 * k) a AND 0xff)) [0..<16]"

definition groups6 :: "128 word \<Rightarrow> int list" where
  "groups6 a = map (\<lambda>k. uint (drop_bit (112 - 16 * k) a AND 0xffff)) [0..<8]"

definition AddrFrom4 :: "int list \<Rightarrow> Addr" where
  "AddrFrom4 bytes = Addr4 (word_of_int (foldl (\<lambda>acc b. acc * 256 + b) 0 bytes))"

definition AddrFrom16 :: "int list \<Rightarrow> Addr" where
  "AddrFrom16 bytes = Addr6 (word_of_int (foldl (\<lambda>acc b. acc * 256 + b) 0 bytes)) []"

text \<open>The classification methods look through an IPv4 address mapped into IPv6.\<close>

definition IsLoopback :: "Addr \<Rightarrow> bool" where
  "IsLoopback address = (case Unmap address of Addr4 a \<Rightarrow> drop_bit 24 a = 127 | Addr6 a _ \<Rightarrow> a = 1 | AddrInvalid \<Rightarrow> False)"

definition IsMulticast :: "Addr \<Rightarrow> bool" where
  "IsMulticast address = (case Unmap address of Addr4 a \<Rightarrow> drop_bit 24 a AND 0xf0 = 0xe0 | Addr6 a _ \<Rightarrow> drop_bit 120 a = 0xff
     | AddrInvalid \<Rightarrow> False)"

definition IsLinkLocalUnicast :: "Addr \<Rightarrow> bool" where
  "IsLinkLocalUnicast address = (case Unmap address of Addr4 a \<Rightarrow> drop_bit 16 a = 0xa9fe
     | Addr6 a _ \<Rightarrow> drop_bit 112 a AND 0xffc0 = 0xfe80 | AddrInvalid \<Rightarrow> False)"

definition IsLinkLocalMulticast :: "Addr \<Rightarrow> bool" where
  "IsLinkLocalMulticast address = (case Unmap address of Addr4 a \<Rightarrow> drop_bit 8 a = 0xe00000
     | Addr6 a _ \<Rightarrow> drop_bit 112 a AND 0xff0f = 0xff02 | AddrInvalid \<Rightarrow> False)"

definition IsUnspecified :: "Addr \<Rightarrow> bool" where
  "IsUnspecified address \<longleftrightarrow> address = Addr4 0 \<or> address = Addr6 0 []"

definition IsGlobalUnicast :: "Addr \<Rightarrow> bool" where
  "IsGlobalUnicast address0 =
     (if \<not> IsValid address0 then False
      else let address = Unmap address0
        in if address = Addr4 0 \<or> address = Addr4 0xffffffff then False
           else address \<noteq> Addr6 0 [] \<and> \<not> IsLoopback address \<and> \<not> IsMulticast address \<and> \<not> IsLinkLocalUnicast address)"

section \<open>Prefixes\<close>

definition PrefixFrom :: "Addr \<Rightarrow> int \<Rightarrow> Prefix" where
  "PrefixFrom address bits =
     Prefix (WithZone address []) (if IsValid address \<and> 0 \<le> bits \<and> bits \<le> BitLen address then bits else - 1)"

definition PrefixIsValid :: "Prefix \<Rightarrow> bool" where
  "PrefixIsValid p \<longleftrightarrow> 0 \<le> pfx_Bits p"

text \<open>\<open>mask6(n)\<close>: the \<open>n\<close> highest of 128 bits.\<close>

definition mask6 :: "nat \<Rightarrow> 128 word" where
  "mask6 n = NOT (mask (128 - n))"

definition Masked :: "Prefix \<Rightarrow> Prefix" where
  "Masked p =
     (let bits = pfx_Bits p
      in if bits < 0 then Prefix AddrInvalid (- 1)
         else case pfx_Addr p of
           AddrInvalid \<Rightarrow> Prefix AddrInvalid (- 1)
         | Addr4 a \<Rightarrow> if bits > 32 then Prefix AddrInvalid (- 1) else PrefixFrom (Addr4 (a AND NOT (mask (32 - nat bits)))) bits
         | Addr6 a _ \<Rightarrow> if bits > 128 then Prefix AddrInvalid (- 1) else PrefixFrom (Addr6 (a AND mask6 (nat bits)) []) bits)"

text \<open>An address with a zone is in no prefix.\<close>

definition PrefixContains :: "Prefix \<Rightarrow> Addr \<Rightarrow> bool" where
  "PrefixContains p address =
     (if \<not> PrefixIsValid p \<or> Zone address \<noteq> [] then False
      else case (pfx_Addr p, address) of
        (Addr4 q, Addr4 a) \<Rightarrow> drop_bit (32 - nat (pfx_Bits p)) (a XOR q) = 0
      | (Addr6 q _, Addr6 a _) \<Rightarrow> (a XOR q) AND mask6 (nat (pfx_Bits p)) = 0
      | _ \<Rightarrow> False)"

section \<open>Text\<close>

definition joinWith :: "string \<Rightarrow> string list \<Rightarrow> string" where
  "joinWith sep parts = concat (case parts of [] \<Rightarrow> [] | p # ps \<Rightarrow> p # map (\<lambda>x. sep @ x) ps)"

definition hex_char :: "int \<Rightarrow> char" where
  "hex_char n = (if n < 10 then char_of (nat (48 + n)) else char_of (nat (87 + n)))"

text \<open>At most four digits, without leading zeros.\<close>

definition group_hex :: "int \<Rightarrow> string" where
  "group_hex n =
     (if n < 16 then [hex_char n]
      else if n < 256 then [hex_char (n div 16), hex_char (n mod 16)]
      else if n < 4096 then [hex_char (n div 256), hex_char (n div 16 mod 16), hex_char (n mod 16)]
      else [hex_char (n div 4096), hex_char (n div 256 mod 16), hex_char (n div 16 mod 16), hex_char (n mod 16)])"

text \<open>The first longest run of zero groups from a position on: its start and length, when it has at least two groups.\<close>

definition zeroRun :: "int list \<Rightarrow> nat" where
  "zeroRun gs = length (takeWhile (\<lambda>g. g = 0) gs)"

definition longestZeroRun :: "int list \<Rightarrow> (nat \<times> nat) option" where
  "longestZeroRun gs =
     fold (\<lambda>i best. let n = zeroRun (drop i gs)
        in if n \<ge> 2 \<and> (case best of None \<Rightarrow> True | Some (_, m) \<Rightarrow> n > m) then Some (i, n) else best) [0..<length gs] None"

definition string6 :: "128 word \<Rightarrow> string" where
  "string6 a =
     (let gs = groups6 a
      in case longestZeroRun gs of
           None \<Rightarrow> joinWith '':'' (map group_hex gs)
         | Some (i, n) \<Rightarrow> joinWith '':'' (map group_hex (take i gs)) @ ''::'' @ joinWith '':'' (map group_hex (drop (i + n) gs)))"

definition string4 :: "32 word \<Rightarrow> string" where
  "string4 a = joinWith ''.'' (map Itoa (octets4 a))"

fun AddrString :: "Addr \<Rightarrow> string" where
  "AddrString AddrInvalid = ''invalid IP''"
| "AddrString (Addr4 a) = string4 a"
| "AddrString (Addr6 a z) =
     (if Is4In6 (Addr6 a z) then ''::ffff:'' @ string4 (ucast a) else string6 a) @ (if z = [] then [] else CHR ''%'' # z)"

text \<open>The text of a valid prefix whose address is not an IPv4 address mapped into IPv6.\<close>

definition PrefixString :: "Prefix \<Rightarrow> string" where
  "PrefixString p = AddrString (pfx_Addr p) @ CHR ''/'' # Itoa (pfx_Bits p)"

text \<open>
  The octets of a dotted IPv4 address: digits without a leading zero, four fields, each at most 255;
  \<open>val\<close> and \<open>digLen\<close> describe the field being read and \<open>fields\<close> the ones before it.
\<close>

fun parseIPv4Fields :: "int \<Rightarrow> nat \<Rightarrow> int list \<Rightarrow> string \<Rightarrow> int list option" where
  "parseIPv4Fields val digLen fields [] =
     (if digLen = 0 \<or> length fields \<noteq> 3 then None else Some (fields @ [val]))"
| "parseIPv4Fields val digLen fields (c # s) =
     (if is_digit c then
        (if digLen = 1 \<and> val = 0 then None
         else let v = val * 10 + digit_value c in if v > 255 then None else parseIPv4Fields v (Suc digLen) fields s)
      else if c = CHR ''.'' then
        (if digLen = 0 \<or> length fields = 3 then None else parseIPv4Fields 0 0 (fields @ [val]) s)
      else None)"

definition parseIPv4 :: "string \<Rightarrow> Addr option" where
  "parseIPv4 s = map_option AddrFrom4 (parseIPv4Fields 0 0 [] s)"

definition is_hex :: "char \<Rightarrow> bool" where
  "is_hex c \<longleftrightarrow> is_digit c \<or> (97 \<le> (of_char c :: nat) \<and> (of_char c :: nat) \<le> 102) \<or> (65 \<le> (of_char c :: nat) \<and> (of_char c :: nat) \<le> 70)"

definition hex_value :: "char \<Rightarrow> int" where
  "hex_value c = (if is_digit c then digit_value c else if (of_char c :: nat) \<ge> 97 then int (of_char c) - 87 else int (of_char c) - 55)"

text \<open>
  The loop of \<open>parseIPv6\<close> over the fields of the text: the octets read so far and the position of the
  ellipsis; at most eight rounds.
\<close>

function parseIPv6Groups :: "int list \<Rightarrow> nat option \<Rightarrow> string \<Rightarrow> (int list \<times> nat option) option" where
  "parseIPv6Groups bytes ellipsis s =
     (if length bytes \<ge> 16 then (if s = [] then Some (bytes, ellipsis) else None)
      else
        (let group = takeWhile is_hex s; rest = dropWhile is_hex s; acc = foldl (\<lambda>v c. v * 16 + hex_value c) 0 group
         in if group = [] \<or> length group > 4 then None
            else if rest \<noteq> [] \<and> hd rest = CHR ''.'' then
              (if ellipsis = None \<and> length bytes \<noteq> 12 \<or> length bytes + 4 > 16 then None
               else map_option (\<lambda>v4. (bytes @ v4, ellipsis)) (parseIPv4Fields 0 0 [] s))
            else
              (let bytes1 = bytes @ [acc div 256, acc mod 256]
               in case rest of [] \<Rightarrow> Some (bytes1, ellipsis)
                  | c # more \<Rightarrow>
                      if c \<noteq> CHR '':'' \<or> more = [] then None
                      else if hd more = CHR '':'' then
                        (if ellipsis \<noteq> None then None
                         else if tl more = [] then Some (bytes1, Some (length bytes1))
                         else parseIPv6Groups bytes1 (Some (length bytes1)) (tl more))
                      else parseIPv6Groups bytes1 ellipsis more)))"
  by pat_completeness auto
termination
  by (relation "measure (\<lambda>(bytes, _, _). 16 - length bytes)") auto

declare parseIPv6Groups.simps [simp del]

definition expandEllipsis :: "int list \<Rightarrow> nat option \<Rightarrow> int list option" where
  "expandEllipsis bytes ellipsis =
     (if length bytes < 16 then
        (case ellipsis of None \<Rightarrow> None | Some e \<Rightarrow> Some (take e bytes @ replicate (16 - length bytes) 0 @ drop e bytes))
      else if ellipsis \<noteq> None then None else Some bytes)"

definition parseIPv6 :: "string \<Rightarrow> Addr option" where
  "parseIPv6 text =
     (let s = takeWhile (\<lambda>c. c \<noteq> CHR ''%'') text;
          zone = drop (Suc (length s)) text
      in if length s < length text \<and> zone = [] then None
         else if s = ''::'' then Some (Addr6 0 zone)
         else
           (let ellipsis = (if hasPrefix s ''::'' then Some 0 else None);
                body = (if hasPrefix s ''::'' then drop 2 s else s)
            in case parseIPv6Groups [] ellipsis body of None \<Rightarrow> None
               | Some (bytes, e) \<Rightarrow> map_option (\<lambda>bs. WithZone (AddrFrom16 bs) zone) (expandEllipsis bytes e)))"

fun parseAddrFrom :: "string \<Rightarrow> string \<Rightarrow> Addr option" where
  "parseAddrFrom text [] = None"
| "parseAddrFrom text (c # s) =
     (if c = CHR ''.'' then parseIPv4 text else if c = CHR '':'' then parseIPv6 text
      else if c = CHR ''%'' then None else parseAddrFrom text s)"

definition ParseAddr :: "string \<Rightarrow> Addr option" where
  "ParseAddr s = parseAddrFrom s s"

section \<open>Hosts and ports\<close>

definition JoinHostPort :: "string \<Rightarrow> string \<Rightarrow> string" where
  "JoinHostPort host port =
     (if CHR '':'' \<in> set host then ''['' @ host @ '']:'' @ port else host @ '':'' @ port)"

text \<open>
  \<open>net.SplitHostPort\<close>: the port starts after the last colon; a host in brackets ends just before that
  colon, any other host has no colon, and no bracket is left over. Errors are \<^const>\<open>None\<close>.
\<close>

definition afterLastColon :: "string \<Rightarrow> string" where
  "afterLastColon s = rev (takeWhile (\<lambda>c. c \<noteq> CHR '':'') (rev s))"

definition SplitHostPort :: "string \<Rightarrow> (string \<times> string) option" where
  "SplitHostPort hostport =
     (if CHR '':'' \<notin> set hostport then None
      else
        (let port = afterLastColon hostport;
             front = take (length hostport - Suc (length port)) hostport
         in if hd hostport = CHR ''['' then
              (let host = takeWhile (\<lambda>c. c \<noteq> CHR '']'') (tl hostport)
               in if CHR '']'' \<notin> set hostport \<or> front \<noteq> CHR ''['' # host @ '']'' then None
                  else if CHR ''['' \<in> set (tl hostport) \<or> CHR '']'' \<in> set port then None
                  else Some (host, port))
            else if CHR '':'' \<in> set front then None
            else if CHR ''['' \<in> set hostport \<or> CHR '']'' \<in> set hostport then None
            else Some (front, port)))"

lemma afterLastColon_app: "CHR '':'' \<notin> set p \<Longrightarrow> afterLastColon (h @ '':'' @ p) = p"
  by (simp add: afterLastColon_def takeWhile_append)

lemma SplitHostPort_Join:
  assumes "CHR '':'' \<notin> set port" "CHR ''['' \<notin> set host \<union> set port" "CHR '']'' \<notin> set host \<union> set port"
  shows "SplitHostPort (JoinHostPort host port) = Some (host, port)"
proof (cases "CHR '':'' \<in> set host")
  case True
  have "afterLastColon (''['' @ host @ '']:'' @ port) = port"
    using afterLastColon_app [OF assms(1), of "''['' @ host @ '']''"] by simp
  moreover have "takeWhile (\<lambda>c. c \<noteq> CHR '']'') (host @ '']:'' @ port) = host"
    using assms(3) by (auto simp: takeWhile_append)
  ultimately show ?thesis
    using True assms by (auto simp: SplitHostPort_def JoinHostPort_def Let_def)
next
  case False
  have "afterLastColon (host @ '':'' @ port) = port" by (rule afterLastColon_app [OF assms(1)])
  moreover have "hd (host @ '':'' @ port) \<noteq> CHR ''[''" using assms(2) by (cases host) auto
  ultimately show ?thesis
    using False assms by (auto simp: SplitHostPort_def JoinHostPort_def Let_def)
qed

section \<open>Words as numbers\<close>

definition bytesOk :: "int list \<Rightarrow> bool" where
  "bytesOk bytes \<longleftrightarrow> list_all (\<lambda>b. 0 \<le> b \<and> b < 256) bytes"

definition bytesValue :: "int list \<Rightarrow> int" where
  "bytesValue bytes = foldl (\<lambda>acc b. acc * 256 + b) 0 bytes"

lemma foldl_bytes: "foldl (\<lambda>acc b. acc * 256 + b) v bytes = v * 256 ^ length bytes + bytesValue bytes"
proof (induction bytes arbitrary: v)
  case (Cons b bytes)
  show ?case
    using Cons [of "v * 256 + b"] Cons [of b] by (simp add: bytesValue_def algebra_simps)
qed (simp add: bytesValue_def)

lemma bytesValue_append: "bytesValue (xs @ ys) = bytesValue xs * 256 ^ length ys + bytesValue ys"
proof -
  have "bytesValue (xs @ ys) = foldl (\<lambda>acc b. acc * 256 + b) (bytesValue xs) ys"
    by (simp add: bytesValue_def)
  then show ?thesis by (simp only: foldl_bytes)
qed

lemma bytesValue_simps [simp]:
  "bytesValue [] = 0" "bytesValue (b # bytes) = b * 256 ^ length bytes + bytesValue bytes"
  using bytesValue_append [of "[b]" bytes] by (simp_all add: bytesValue_def)

lemma bytesValue_bounds: "bytesOk bytes \<Longrightarrow> 0 \<le> bytesValue bytes \<and> bytesValue bytes < 256 ^ length bytes"
proof (induction bytes rule: rev_induct)
  case (snoc b bytes)
  then have "0 \<le> bytesValue bytes" "bytesValue bytes + 1 \<le> 256 ^ length bytes" "0 \<le> b" "b < 256"
    by (auto simp: bytesOk_def)
  then show ?case
    by (simp add: bytesValue_append)
qed simp

lemma bytesValue_nth:
  assumes "bytesOk bytes" "k < length bytes"
  shows "bytesValue bytes div 256 ^ (length bytes - Suc k) mod 256 = bytes ! k"
proof -
  let ?r = "bytesValue (drop (Suc k) bytes)" and ?n = "length bytes - Suc k"
  have "bytesOk (drop (Suc k) bytes)" and b: "0 \<le> bytes ! k" "bytes ! k < 256"
    using assms by (auto simp: bytesOk_def list_all_length)
  then have r: "0 \<le> ?r" "?r < 256 ^ ?n"
    using bytesValue_bounds [of "drop (Suc k) bytes"] by auto
  have "bytesValue bytes = bytesValue (take k bytes @ bytes ! k # drop (Suc k) bytes)"
    using assms(2) by (simp only: id_take_nth_drop [symmetric])
  also have "\<dots> = ?r + 256 ^ ?n * (bytesValue (take k bytes) * 256 + bytes ! k)"
    using assms(2) by (simp add: bytesValue_append algebra_simps)
  finally have "bytesValue bytes div 256 ^ ?n = bytesValue (take k bytes) * 256 + bytes ! k"
    using r by simp
  with b show ?thesis by simp
qed

lemma take_bit_uint_id [simp]: "take_bit LENGTH('a) (uint a) = uint a" for a :: "'a :: len word"
  by transfer simp

lemma octet_value:
  fixes a :: "'a :: len word"
  shows "uint (drop_bit k a AND 0xff) = uint a div 2 ^ k mod 256"
proof -
  have "drop_bit k a AND 0xff = take_bit 8 (drop_bit k a)"
    by (simp add: take_bit_eq_mask mask_eq_exp_minus_1)
  moreover have "uint (take_bit 8 (drop_bit k a)) = take_bit 8 (drop_bit k (uint a))"
    by (simp add: unsigned_take_bit_eq unsigned_drop_bit_eq)
  ultimately show ?thesis
    by (simp add: take_bit_eq_mod drop_bit_eq_div)
qed

lemma uint_drop: "uint (drop_bit k a) = uint a div 2 ^ k" for a :: "'a :: len word"
proof -
  have "uint (drop_bit k a) = drop_bit k (uint a)" by (simp add: unsigned_drop_bit_eq)
  then show ?thesis by (simp add: drop_bit_eq_div)
qed

lemma drop_bit_eq_uint: "drop_bit k a = b \<longleftrightarrow> uint a div 2 ^ k = uint b" for a b :: "'a :: len word"
  by (metis uint_drop word_uint_eqI)

lemma xor_zero_iff: "a XOR b = 0 \<longleftrightarrow> a = b" for a b :: "'a :: len word"
  by (metis xor.right_neutral xor_self_eq word_bw_assocs(3))

lemma drop_bit_xor_zero: "drop_bit k (a XOR b) = 0 \<longleftrightarrow> uint a div 2 ^ k = uint b div 2 ^ k" for a b :: "'a :: len word"
  by (simp add: drop_bit_xor xor_zero_iff drop_bit_eq_uint uint_drop)

lemma mask_zero_iff: "x AND NOT (mask k) = 0 \<longleftrightarrow> drop_bit k x = 0" for x :: "'a :: len word"
proof -
  have "(\<forall>n. bit x n \<longrightarrow> n < k) \<longleftrightarrow> (\<forall>n. \<not> bit x (k + n))"
    by (metis le_Suc_ex linorder_not_le not_add_less1)
  moreover have "x AND NOT (mask k) = 0 \<longleftrightarrow> (\<forall>n. bit x n \<longrightarrow> n < k)"
    by (auto simp: bit_eq_iff bit_simps dest: bit_imp_le_length)
  moreover have "bit x (k + n) \<Longrightarrow> n < LENGTH('a)" for n
    using bit_imp_le_length [of x "k + n"] by simp
  ultimately show ?thesis
    by (simp add: bit_eq_iff [of "drop_bit k x"] bit_simps) blast
qed

end
