(* ===== verification/Netguard.thy ===== *)
theory Netguard
  imports Net_Address
begin

unbundle bit_operations_syntax

text \<open>
  The outbound network policy, \<open>server/internal/netguard/dial.go\<close>: which addresses the server may
  connect to, the translation prefixes (NAT64) a deployment configures, the literal LAN origins a user may
  allow, and the removal of destinations from errors. The resolver, the dialer and the URL parser are
  arguments; the configured prefixes, which the package keeps in an atomic pointer, are passed in.
\<close>

section \<open>Tables\<close>

definition nat64WellKnownPrefix :: Prefix where
  "nat64WellKnownPrefix = Prefix (ip6 [0x64, 0xff9b, 0, 0, 0, 0, 0, 0]) 96"

definition blockedPrefixes :: "Prefix list" where
  "blockedPrefixes =
    [Prefix (ip4 0 0 0 0) 8,
     Prefix (ip4 100 100 100 200) 32,
     Prefix (ip4 127 0 0 0) 8,
     Prefix (ip4 169 254 0 0) 16,
     Prefix (ip4 192 0 0 0) 24,
     Prefix (ip4 192 0 2 0) 24,
     Prefix (ip4 192 88 99 0) 24,
     Prefix (ip4 198 18 0 0) 15,
     Prefix (ip4 198 51 100 0) 24,
     Prefix (ip4 203 0 113 0) 24,
     Prefix (ip4 224 0 0 0) 4,
     Prefix (ip4 240 0 0 0) 4,
     Prefix (ip6 [0x100, 0, 0, 0, 0, 0, 0, 0]) 64,
     Prefix (ip6 [0x64, 0xff9b, 1, 0, 0, 0, 0, 0]) 48,
     Prefix (ip6 [0x2001, 0, 0, 0, 0, 0, 0, 0]) 23,
     Prefix (ip6 [0x2001, 0xdb8, 0, 0, 0, 0, 0, 0]) 32,
     Prefix (ip6 [0xfd00, 0xec2, 0, 0, 0, 0, 0, 0x254]) 128,
     Prefix (ip6 [0xfd20, 0xce, 0, 0, 0, 0, 0, 0x254]) 128,
     Prefix (ip6 [0xfe80, 0, 0, 0, 0, 0, 0, 0]) 10,
     Prefix (ip6 [0xff00, 0, 0, 0, 0, 0, 0, 0]) 8]"

definition privateNetworkPrefixes :: "Prefix list" where
  "privateNetworkPrefixes =
    [Prefix (ip4 10 0 0 0) 8,
     Prefix (ip4 100 64 0 0) 10,
     Prefix (ip4 172 16 0 0) 12,
     Prefix (ip4 192 168 0 0) 16,
     Prefix (ip6 [0xfc00, 0, 0, 0, 0, 0, 0, 0]) 7]"

section \<open>Addresses\<close>

definition allowedAddress :: "Addr \<Rightarrow> bool" where
  "allowedAddress address0 =
     (if \<not> IsValid address0 then False
      else let address = Unmap address0
        in if \<not> IsGlobalUnicast address \<or> IsLoopback address \<or> IsLinkLocalUnicast address \<or>
              IsLinkLocalMulticast address \<or> IsMulticast address \<or> IsUnspecified address then False
           else \<not> list_ex (\<lambda>prefix. PrefixContains prefix address) blockedPrefixes)"

definition IsAllowedAddress :: "Addr \<Rightarrow> bool" where
  "IsAllowedAddress address = allowedAddress address"

text \<open>
  \<open>translatedIPv4\<close>: the embedded address, whether a configured prefix matched, and whether the embedding
  is valid. The first prefix that contains the address decides.
\<close>

definition embeddedOctets :: "Prefix \<Rightarrow> int list \<Rightarrow> Addr \<times> bool \<times> bool" where
  "embeddedOctets prefix bytes =
     (if pfx_Bits prefix = 96 then (AddrFrom4 (drop 12 bytes), True, True)
      else if bytes ! 8 \<noteq> 0 then (AddrInvalid, True, False)
      else let prefixBytes = nat (pfx_Bits prefix div 8);
               beforeReservedOctet = 8 - prefixBytes
        in (AddrFrom4 (take beforeReservedOctet (drop prefixBytes bytes) @ take (4 - beforeReservedOctet) (drop 9 bytes)), True, True))"

definition translatedIPv4 :: "Prefix list \<Rightarrow> Addr \<Rightarrow> Addr \<times> bool \<times> bool" where
  "translatedIPv4 configured address =
     (case address of
        Addr6 a _ \<Rightarrow>
          (case find (\<lambda>prefix. PrefixContains prefix address) configured of
             None \<Rightarrow> (AddrInvalid, False, False)
           | Some prefix \<Rightarrow> embeddedOctets prefix (octets6 a))
      | _ \<Rightarrow> (AddrInvalid, False, False))"

definition IsPrivateNetworkAddress :: "Prefix list \<Rightarrow> Addr \<Rightarrow> bool" where
  "IsPrivateNetworkAddress configured address0 =
     (let address = Unmap address0
      in if fst (snd (translatedIPv4 configured address)) then False
         else list_ex (\<lambda>prefix. PrefixContains prefix address) privateNetworkPrefixes)"

definition isPublicAddress :: "Addr \<Rightarrow> bool" where
  "isPublicAddress address0 =
     (if \<not> allowedAddress address0 then False
      else \<not> list_ex (\<lambda>prefix. PrefixContains prefix (Unmap address0)) privateNetworkPrefixes)"

definition IsPublicAddress :: "Prefix list \<Rightarrow> Addr \<Rightarrow> bool" where
  "IsPublicAddress configured address0 =
     (let address = Unmap address0
      in case translatedIPv4 configured address of
           (embedded, matched, valid) \<Rightarrow> if matched then valid \<and> isPublicAddress embedded else isPublicAddress address)"

definition isLocalServiceAddress :: "Prefix list \<Rightarrow> Addr \<Rightarrow> bool" where
  "isLocalServiceAddress configured address0 =
     (if \<not> IsValid address0 then False
      else let address = Unmap address0
        in IsLoopback address \<or> allowedAddress address \<and> IsPrivateNetworkAddress configured address)"

section \<open>Configured translation prefixes\<close>

definition validNAT64PrefixLength :: "int \<Rightarrow> bool" where
  "validNAT64PrefixLength bits \<longleftrightarrow> bits \<in> {32, 40, 48, 56, 64, 96}"

fun configurePrefixes :: "Prefix list \<Rightarrow> Prefix list \<Rightarrow> Prefix list option" where
  "configurePrefixes configured [] = Some configured"
| "configurePrefixes configured (raw # prefixes) =
     (let prefix = Masked raw
      in if \<not> PrefixIsValid prefix \<or> \<not> Is6 (pfx_Addr prefix) \<or> \<not> validNAT64PrefixLength (pfx_Bits prefix) then None
         else if list_ex (\<lambda>existing. PrefixContains existing (pfx_Addr prefix) \<or> PrefixContains prefix (pfx_Addr existing)) configured
           then None
         else configurePrefixes (configured @ [prefix]) prefixes)"

text \<open>Whether the configuration was refused, and the prefixes in force afterwards.\<close>

definition ConfigureNAT64Prefixes :: "Prefix list \<Rightarrow> Prefix list \<Rightarrow> bool \<times> Prefix list" where
  "ConfigureNAT64Prefixes current prefixes =
     (case configurePrefixes [nat64WellKnownPrefix] prefixes of None \<Rightarrow> (True, current) | Some configured \<Rightarrow> (False, configured))"

section \<open>Dialing\<close>

datatype outbound_error =
    ErrOutboundDestinationNotPermitted | ErrParseDestination | ErrResolve string | ErrNoAddresses
  | ErrConnect string | ErrURLNotPermitted | ErrParseURL

definition resolveAddresses ::
    "(string \<Rightarrow> string + Addr list) \<Rightarrow> (Addr \<Rightarrow> bool) \<Rightarrow> string \<Rightarrow> outbound_error + Addr list" where
  "resolveAddresses lookup permitted host =
     (case lookup host of
        Inl err \<Rightarrow> Inl (ErrResolve err)
      | Inr addresses \<Rightarrow>
          if addresses = [] then Inl ErrNoAddresses
          else if \<not> list_all permitted addresses then Inl ErrOutboundDestinationNotPermitted
          else Inr addresses)"

text \<open>The connection or the last error, and the addresses that were dialed.\<close>

fun dialCandidates ::
    "(nat \<Rightarrow> string \<Rightarrow> string + 'c) \<Rightarrow> nat \<Rightarrow> string \<Rightarrow> string \<Rightarrow> Addr list \<Rightarrow> (outbound_error + 'c) \<times> Addr list" where
  "dialCandidates dial n port lastError [] = (Inl (ErrConnect lastError), [])"
| "dialCandidates dial n port lastError (candidate # candidates) =
     (case dial n (JoinHostPort (AddrString candidate) port) of
        Inr connection \<Rightarrow> (Inr connection, [candidate])
      | Inl dialErr \<Rightarrow>
          (case dialCandidates dial (Suc n) port dialErr candidates of (result, dialed) \<Rightarrow> (result, candidate # dialed)))"

definition dialContext ::
    "(string \<Rightarrow> string + Addr list) \<Rightarrow> (nat \<Rightarrow> string \<Rightarrow> string + 'c) \<Rightarrow> (Addr \<Rightarrow> bool) \<Rightarrow> string \<Rightarrow>
     (outbound_error + 'c) \<times> Addr list" where
  "dialContext lookup dial permitted address =
     (case SplitHostPort address of None \<Rightarrow> (Inl ErrParseDestination, [])
      | Some (host, port) \<Rightarrow>
          (case resolveAddresses lookup permitted host of
             Inl err \<Rightarrow> (Inl err, [])
           | Inr addresses \<Rightarrow> dialCandidates dial 0 port [] addresses))"

definition DialContext where
  "DialContext lookup dial address = dialContext lookup dial allowedAddress address"

definition DialContextPublic where
  "DialContextPublic configured lookup dial address = dialContext lookup dial (IsPublicAddress configured) address"

definition DialContextLocal where
  "DialContextLocal configured lookup dial address = dialContext lookup dial (isLocalServiceAddress configured) address"

section \<open>URLs\<close>

text \<open>The fields of a \<open>net/url.URL\<close> the package reads; \<open>url_User\<close> says whether there is user information.\<close>

record URL =
  url_Scheme :: string
  url_Opaque :: string
  url_User :: bool
  url_Host :: string
  url_Path :: string
  url_ForceQuery :: bool
  url_RawQuery :: string
  url_Fragment :: string

text \<open>The host and the port of a URL's host: the port is the text after the last colon, when it is all digits.\<close>

definition urlSplitHostPort :: "string \<Rightarrow> string \<times> string" where
  "urlSplitHostPort hostPort =
     (let port = afterLastColon hostPort;
          (host, p) = (if CHR '':'' \<in> set hostPort \<and> list_all is_digit port
            then (take (length hostPort - Suc (length port)) hostPort, port) else (hostPort, []))
      in (if host \<noteq> [] \<and> hd host = CHR ''['' \<and> last host = CHR '']'' then butlast (tl host) else host, p))"

definition Hostname :: "URL \<Rightarrow> string" where
  "Hostname u = fst (urlSplitHostPort (url_Host u))"

definition Port :: "URL \<Rightarrow> string" where
  "Port u = snd (urlSplitHostPort (url_Host u))"

definition resolveAllowedAddresses :: "(string \<Rightarrow> string + Addr list) \<Rightarrow> string \<Rightarrow> outbound_error + Addr list" where
  "resolveAllowedAddresses lookup host = resolveAddresses lookup allowedAddress host"

definition ValidateURL :: "(string \<Rightarrow> URL option) \<Rightarrow> (string \<Rightarrow> string + Addr list) \<Rightarrow> string \<Rightarrow> outbound_error option" where
  "ValidateURL urlParse lookup rawURL =
     (case urlParse rawURL of None \<Rightarrow> Some ErrParseURL
      | Some parsed \<Rightarrow>
          if url_Scheme parsed \<noteq> ''http'' \<and> url_Scheme parsed \<noteq> ''https'' \<or> url_Host parsed = [] \<or>
             Hostname parsed = [] \<or> url_User parsed \<or> url_Fragment parsed \<noteq> [] then Some ErrURLNotPermitted
          else if CHR 0x5C \<in> set (url_Host parsed) then Some ErrURLNotPermitted
          else (case resolveAllowedAddresses lookup (Hostname parsed) of Inl err \<Rightarrow> Some err | Inr _ \<Rightarrow> None))"

record PrivateOrigin =
  po_Origin :: string
  po_Addr :: Addr
  po_Port :: int

text \<open>\<open>strconv.ParseUint(s, 10, 16)\<close>.\<close>

definition ParsePort :: "string \<Rightarrow> int option" where
  "ParsePort s = (if s = [] \<or> \<not> list_all is_digit s \<or> decimal_value s > 65535 then None else Some (decimal_value s))"

datatype origin_error = OriginNotExact | OriginNotLiteral | OriginNotLAN | OriginWithoutPort

definition ParsePrivateOrigin :: "Prefix list \<Rightarrow> (string \<Rightarrow> URL option) \<Rightarrow> string \<Rightarrow> origin_error + PrivateOrigin" where
  "ParsePrivateOrigin configured urlParse raw =
     (case urlParse (TrimSpace raw) of None \<Rightarrow> Inl OriginNotExact
      | Some parsed \<Rightarrow>
          (let scheme = ToLower (url_Scheme parsed)
           in if url_Opaque parsed \<noteq> [] \<or> url_User parsed \<or> url_Host parsed = [] \<or> scheme \<noteq> ''http'' \<and> scheme \<noteq> ''https'' \<or>
                 url_Path parsed \<noteq> [] \<and> url_Path parsed \<noteq> ''/'' \<or> url_ForceQuery parsed \<or> url_RawQuery parsed \<noteq> [] \<or>
                 url_Fragment parsed \<noteq> [] then Inl OriginNotExact
              else case ParseAddr (Hostname parsed) of None \<Rightarrow> Inl OriginNotLiteral
              | Some literal \<Rightarrow>
                  if Is4In6 literal then Inl OriginNotLiteral
                  else
                    (let address = Unmap literal
                     in if \<not> IsAllowedAddress address \<or> \<not> IsPrivateNetworkAddress configured address then Inl OriginNotLAN
                        else case ParsePort (Port parsed) of None \<Rightarrow> Inl OriginWithoutPort
                        | Some port \<Rightarrow>
                            if port = 0 then Inl OriginWithoutPort
                            else Inr \<lparr>po_Origin = scheme @ ''://'' @ JoinHostPort (AddrString address) (Itoa port),
                                po_Addr = address, po_Port = port\<rparr>)))"

section \<open>Errors without destinations\<close>

text \<open>
  Go errors as a tree: a leaf with its message, a \<open>*url.Error\<close> (whose message is built from its parts,
  \<open>quote\<close> being the \<open>%q\<close> verb), the nil \<open>*url.Error\<close>, an error that unwraps to at most one cause and one
  that unwraps to several. A nil \<open>error\<close> is \<^const>\<open>None\<close>.
\<close>

datatype go_error =
    Leaf string
  | URLError (ue_Op: string) (ue_URL: string) (ue_Err: "go_error option")
  | NilURLError
  | Wrapped string "go_error option"
  | Joined string "go_error option list"

fun errorText :: "(string \<Rightarrow> string) \<Rightarrow> go_error \<Rightarrow> string" where
  "errorText quote (Leaf message) = message"
| "errorText quote (URLError op url err) =
     op @ '' '' @ quote url @ '': '' @ (case err of None \<Rightarrow> ''%!s(<nil>)'' | Some e \<Rightarrow> errorText quote e)"
| "errorText quote NilURLError = []"
| "errorText quote (Wrapped message _) = message"
| "errorText quote (Joined message _) = message"

text \<open>\<open>strings.ReplaceAll\<close> for a non-empty text to replace.\<close>

function ReplaceAll :: "string \<Rightarrow> string \<Rightarrow> string \<Rightarrow> string" where
  "ReplaceAll [] old new = []"
| "ReplaceAll (c # s) old new =
     (if old \<noteq> [] \<and> hasPrefix (c # s) old then new @ ReplaceAll (drop (length old) (c # s)) old new
      else c # ReplaceAll s old new)"
  by pat_completeness auto
termination
  by (relation "measure (\<lambda>(s, _, _). length s)") auto

definition replaceErrorCause :: "(string \<Rightarrow> string) \<Rightarrow> string \<Rightarrow> go_error option \<Rightarrow> go_error option \<Rightarrow> string" where
  "replaceErrorCause quote message original sanitized =
     (case (original, sanitized) of
        (Some o', Some s) \<Rightarrow>
          (let originalMessage = errorText quote o'
           in if originalMessage = [] then message else ReplaceAll message originalMessage (errorText quote s))
      | _ \<Rightarrow> message)"

function sanitizeURLError :: "(string \<Rightarrow> string) \<Rightarrow> go_error option \<Rightarrow> go_error option \<times> bool"
  and sanitizeCauses :: "(string \<Rightarrow> string) \<Rightarrow> string \<Rightarrow> go_error option list \<Rightarrow> go_error option list \<times> string \<times> bool" where
  "sanitizeURLError quote None = (None, False)"
| "sanitizeURLError quote (Some (Leaf message)) = (Some (Leaf message), False)"
| "sanitizeURLError quote (Some NilURLError) = (Some NilURLError, False)"
| "sanitizeURLError quote (Some (URLError op url err)) = (Some (URLError op [] (fst (sanitizeURLError quote err))), True)"
| "sanitizeURLError quote (Some (Wrapped message originalCause)) =
     (case sanitizeURLError quote originalCause of
        (cause, changed) \<Rightarrow>
          if \<not> changed then (Some (Wrapped message originalCause), False)
          else (Some (Wrapped (replaceErrorCause quote message originalCause cause) cause), True))"
| "sanitizeURLError quote (Some (Joined message originalCauses)) =
     (case sanitizeCauses quote message originalCauses of
        (causes, message1, changed) \<Rightarrow>
          if changed then (Some (Joined message1 causes), True) else (Some (Joined message originalCauses), False))"
| "sanitizeCauses quote message [] = ([], message, False)"
| "sanitizeCauses quote message (originalCause # originalCauses) =
     (case sanitizeURLError quote originalCause of
        (cause, causeChanged) \<Rightarrow>
          (case sanitizeCauses quote (if causeChanged then replaceErrorCause quote message originalCause cause else message) originalCauses of
             (causes, message1, changed) \<Rightarrow> (cause # causes, message1, causeChanged \<or> changed)))"
  by pat_completeness auto
termination
  by (relation "measure (\<lambda>x. case x of Inl (_, e) \<Rightarrow> size_option size e | Inr (_, _, es) \<Rightarrow> size_list (size_option size) es)") auto

definition SanitizeURLError :: "(string \<Rightarrow> string) \<Rightarrow> go_error option \<Rightarrow> go_error option" where
  "SanitizeURLError quote err = fst (sanitizeURLError quote err)"

section \<open>Prefixes as numbers\<close>

lemma contains4: "PrefixContains (Prefix (Addr4 q) b) (Addr4 a) \<longleftrightarrow>
    0 \<le> b \<and> uint a div 2 ^ (32 - nat b) = uint q div 2 ^ (32 - nat b)"
  by (simp add: PrefixContains_def PrefixIsValid_def drop_bit_xor_zero del: drop_bit_xor)

lemma contains6: "PrefixContains (Prefix (Addr6 q y) b) (Addr6 a z) \<longleftrightarrow>
    0 \<le> b \<and> z = [] \<and> uint a div 2 ^ (128 - nat b) = uint q div 2 ^ (128 - nat b)"
  by (auto simp add: PrefixContains_def PrefixIsValid_def mask6_def mask_zero_iff drop_bit_xor_zero simp del: drop_bit_xor)

lemma contains_mixed [simp]:
  "\<not> PrefixContains (Prefix (Addr4 q) b) (Addr6 a z)" "\<not> PrefixContains (Prefix (Addr6 r y) b) (Addr4 c)"
  by (simp_all add: PrefixContains_def)

lemma range_div:
  fixes a k :: int
  assumes "0 < k"
  shows "a div k = m \<longleftrightarrow> m * k \<le> a \<and> a < m * k + k"
proof
  assume m: "a div k = m"
  have "a = a div k * k + a mod k" "0 \<le> a mod k" "a mod k < k" using assms by simp_all
  then show "m * k \<le> a \<and> a < m * k + k" unfolding m by linarith
next
  assume "m * k \<le> a \<and> a < m * k + k"
  then show "a div k = m" using assms by (intro int_div_pos_eq [where r = "a - m * k"]) (simp_all add: mult.commute)
qed

lemma high_bits:
  fixes a z :: "'a :: len word"
  assumes "LENGTH('a) = k + j + n"
  shows "drop_bit k a AND push_bit j (mask n) = z \<longleftrightarrow> uint a div 2 ^ (k + j) * 2 ^ j = uint z"
proof -
  let ?y = "drop_bit (k + j) a"
  have same: "drop_bit k a AND push_bit j (mask n) = push_bit j ?y"
  proof (rule bit_word_eqI)
    fix i assume "i < LENGTH('a)"
    have "bit a (k + i) \<Longrightarrow> i < j + n" using bit_imp_le_length [of a "k + i"] assms by simp
    then show "bit (drop_bit k a AND push_bit j (mask n)) i = bit (push_bit j ?y) i"
      using \<open>i < LENGTH('a)\<close> by (auto simp: bit_simps ac_simps)
  qed
  have "uint a < 2 ^ (k + j + n)" using uint_bounded [of a] assms by simp
  then have "uint a < 2 ^ n * 2 ^ (k + j)" by (simp only: power_add mult.commute)
  moreover have "uint a div 2 ^ (k + j) * 2 ^ (k + j) \<le> uint a"
    using range_div [of "2 ^ (k + j)" "uint a" "uint a div 2 ^ (k + j)"] by simp
  ultimately have "uint a div 2 ^ (k + j) * 2 ^ (k + j) < 2 ^ n * 2 ^ (k + j)" by linarith
  then have "uint ?y < 2 ^ n" by (simp add: uint_drop)
  then have "uint ?y * 2 ^ j < 2 ^ n * 2 ^ j" by simp
  also have "(2 :: int) ^ n * 2 ^ j \<le> 2 ^ LENGTH('a)" using assms by (simp flip: power_add)
  finally have "uint (push_bit j ?y) = uint ?y * 2 ^ j"
    by (simp add: unsigned_push_bit_eq) (simp add: push_bit_eq_mult take_bit_eq_mod)
  then show ?thesis by (simp add: same word_uint_eq_iff uint_drop)
qed

lemma multicast4: "drop_bit 24 a AND 0xf0 = 0xe0 \<longleftrightarrow> uint a div 2 ^ 28 = 14" for a :: "32 word"
  using high_bits [of 24 4 4 a "0xe0"] by (simp add: mask_eq_exp_minus_1 push_bit_eq_mult)

lemma linkLocal6: "drop_bit 112 a AND 0xffc0 = 0xfe80 \<longleftrightarrow> uint a div 2 ^ 118 = 0x3fa" for a :: "128 word"
  using high_bits [of 112 6 10 a "0xfe80"] by (simp add: mask_eq_exp_minus_1 push_bit_eq_mult)

lemma linkLocalMulticast6: "drop_bit 112 a AND 0xff0f = 0xff02 \<Longrightarrow> uint a div 2 ^ 120 = 0xff" for a :: "128 word"
proof -
  assume "drop_bit 112 a AND 0xff0f = 0xff02"
  then have "drop_bit 112 a AND (0xff0f AND 0xff00) = 0xff02 AND 0xff00" by (simp only: and.assoc [symmetric])
  then have "drop_bit 112 a AND 0xff00 = 0xff00" by simp
  then show ?thesis
    using high_bits [of 112 8 8 a "0xff00"] by (simp add: mask_eq_exp_minus_1 push_bit_eq_mult)
qed

section \<open>The policy as ranges of addresses\<close>

definition ipv4Number :: "int \<Rightarrow> int \<Rightarrow> int \<Rightarrow> int \<Rightarrow> int" where
  "ipv4Number a b c d = ((a * 256 + b) * 256 + c) * 256 + d"

definition ipv6Number :: "int list \<Rightarrow> int" where
  "ipv6Number groups = foldl (\<lambda>acc g. acc * 65536 + g) 0 groups"

text \<open>The addresses that public-only egress never reaches, as inclusive ranges.\<close>

definition nonPublicIPv4 :: "(int \<times> int) list" where
  "nonPublicIPv4 =
    [(ipv4Number 0 0 0 0, ipv4Number 0 255 255 255),
     (ipv4Number 10 0 0 0, ipv4Number 10 255 255 255),
     (ipv4Number 100 64 0 0, ipv4Number 100 127 255 255),
     (ipv4Number 127 0 0 0, ipv4Number 127 255 255 255),
     (ipv4Number 169 254 0 0, ipv4Number 169 254 255 255),
     (ipv4Number 172 16 0 0, ipv4Number 172 31 255 255),
     (ipv4Number 192 0 0 0, ipv4Number 192 0 0 255),
     (ipv4Number 192 0 2 0, ipv4Number 192 0 2 255),
     (ipv4Number 192 88 99 0, ipv4Number 192 88 99 255),
     (ipv4Number 192 168 0 0, ipv4Number 192 168 255 255),
     (ipv4Number 198 18 0 0, ipv4Number 198 19 255 255),
     (ipv4Number 198 51 100 0, ipv4Number 198 51 100 255),
     (ipv4Number 203 0 113 0, ipv4Number 203 0 113 255),
     (ipv4Number 224 0 0 0, ipv4Number 255 255 255 255)]"

definition nonPublicIPv6 :: "(int \<times> int) list" where
  "nonPublicIPv6 =
    [(0, 1),
     (ipv6Number [0x64, 0xff9b, 1, 0, 0, 0, 0, 0], ipv6Number [0x64, 0xff9b, 1, 0xffff, 0xffff, 0xffff, 0xffff, 0xffff]),
     (ipv6Number [0x100, 0, 0, 0, 0, 0, 0, 0], ipv6Number [0x100, 0, 0, 0, 0xffff, 0xffff, 0xffff, 0xffff]),
     (ipv6Number [0x2001, 0, 0, 0, 0, 0, 0, 0], ipv6Number [0x2001, 0x1ff, 0xffff, 0xffff, 0xffff, 0xffff, 0xffff, 0xffff]),
     (ipv6Number [0x2001, 0xdb8, 0, 0, 0, 0, 0, 0], ipv6Number [0x2001, 0xdb8, 0xffff, 0xffff, 0xffff, 0xffff, 0xffff, 0xffff]),
     (ipv6Number [0xfc00, 0, 0, 0, 0, 0, 0, 0], ipv6Number [0xfdff, 0xffff, 0xffff, 0xffff, 0xffff, 0xffff, 0xffff, 0xffff]),
     (ipv6Number [0xfe80, 0, 0, 0, 0, 0, 0, 0], ipv6Number [0xfebf, 0xffff, 0xffff, 0xffff, 0xffff, 0xffff, 0xffff, 0xffff]),
     (ipv6Number [0xff00, 0, 0, 0, 0, 0, 0, 0], ipv6Number [0xffff, 0xffff, 0xffff, 0xffff, 0xffff, 0xffff, 0xffff, 0xffff])]"

definition inRange :: "int \<Rightarrow> int \<Rightarrow> int \<Rightarrow> bool" where
  "inRange first final n \<longleftrightarrow> first \<le> n \<and> n \<le> final"

definition outside :: "(int \<times> int) list \<Rightarrow> int \<Rightarrow> bool" where
  "outside ranges n \<longleftrightarrow> \<not> list_ex (\<lambda>(first, final). inRange first final n) ranges"

lemma div_inRange: "0 < k \<Longrightarrow> n div k = m \<longleftrightarrow> inRange (m * k) (m * k + k - 1) n"
  by (auto simp: range_div inRange_def)

lemmas policy_defs = isPublicAddress_def allowedAddress_def IsGlobalUnicast_def Let_def
  blockedPrefixes_def privateNetworkPrefixes_def ip4_def ip6_def
  IsLoopback_def IsLinkLocalUnicast_def IsLinkLocalMulticast_def IsMulticast_def IsUnspecified_def

lemma isPublic4: "isPublicAddress (Addr4 a) \<longleftrightarrow> outside nonPublicIPv4 (uint a)"
proof -
  have cls: "drop_bit 24 a = 127 \<longleftrightarrow> uint a div 2 ^ 24 = 127" "drop_bit 16 a = 0xa9fe \<longleftrightarrow> uint a div 2 ^ 16 = 0xa9fe"
    "drop_bit 8 a = 0xe00000 \<longleftrightarrow> uint a div 2 ^ 8 = 0xe00000"
    by (simp_all add: drop_bit_eq_uint)
  have eqs: "a = 0 \<longleftrightarrow> inRange 0 0 (uint a)" "a = 0xffffffff \<longleftrightarrow> inRange 0xffffffff 0xffffffff (uint a)"
    by (auto simp: word_uint_eq_iff inRange_def)
  note split = contains4 cls eqs multicast4 div_inRange
  have merged: "inRange 0xe0000000 0xffffffff n \<longleftrightarrow> inRange 0xe0000000 0xefffffff n \<or> inRange 0xf0000000 0xffffffff n"
      "inRange 0 0 n \<longrightarrow> inRange 0 0xffffff n" "inRange 0xffffffff 0xffffffff n \<longrightarrow> inRange 0xf0000000 0xffffffff n"
      "\<not> inRange 0x64400000 0x647fffff n \<longrightarrow> n \<noteq> 0x646464c8"
      "inRange 0xe0000000 0xe00000ff n \<longrightarrow> inRange 0xe0000000 0xefffffff n" for n
    by (auto simp: inRange_def)
  show ?thesis
  proof
    show "isPublicAddress (Addr4 a)" if "outside nonPublicIPv4 (uint a)"
      using that merged [of "uint a"] unfolding policy_defs
      by (simp add: split outside_def nonPublicIPv4_def ipv4Number_def)
    have "\<not> isPublicAddress (Addr4 a)" if "\<not> outside nonPublicIPv4 (uint a)"
      using that unfolding outside_def nonPublicIPv4_def ipv4Number_def policy_defs
      by (simp add: merged(1)) (elim disjE; simp add: split)
    then show "isPublicAddress (Addr4 a) \<Longrightarrow> outside nonPublicIPv4 (uint a)" by blast
  qed
qed

lemma isPublic6:
  assumes "\<not> Is4In6 (Addr6 a [])"
  shows "isPublicAddress (Addr6 a []) \<longleftrightarrow> outside nonPublicIPv6 (uint a)"
proof -
  have cls: "drop_bit 120 a = 0xff \<longleftrightarrow> uint a div 2 ^ 120 = 0xff"
    by (simp add: drop_bit_eq_uint)
  have eqs: "a = 0 \<longleftrightarrow> inRange 0 0 (uint a)" "a = 1 \<longleftrightarrow> inRange 1 1 (uint a)"
    by (auto simp: word_uint_eq_iff inRange_def)
  note split = contains6 cls eqs linkLocal6 div_inRange
  have lm: "drop_bit 112 a AND 0xff0f = 0xff02 \<longrightarrow> inRange 0xff000000000000000000000000000000 0xffffffffffffffffffffffffffffffff (uint a)"
    using linkLocalMulticast6 [of a] by (simp add: div_inRange)
  have merged: "inRange 0 1 n \<longleftrightarrow> inRange 0 0 n \<or> inRange 1 1 n"
      "\<not> inRange 0xfc000000000000000000000000000000 0xfdffffffffffffffffffffffffffffff n \<longrightarrow> n \<noteq> 0xfd000ec2000000000000000000000254"
      "\<not> inRange 0xfc000000000000000000000000000000 0xfdffffffffffffffffffffffffffffff n \<longrightarrow> n \<noteq> 0xfd2000ce000000000000000000000254" for n
    by (auto simp: inRange_def)
  show ?thesis
  proof
    show "isPublicAddress (Addr6 a [])" if "outside nonPublicIPv6 (uint a)"
      using that merged [of "uint a"] lm assms unfolding policy_defs
      by (simp add: split outside_def nonPublicIPv6_def ipv6Number_def)
    have "\<not> isPublicAddress (Addr6 a [])" if "\<not> outside nonPublicIPv6 (uint a)"
      using that assms unfolding outside_def nonPublicIPv6_def ipv6Number_def policy_defs
      by (simp add: merged(1)) (elim disjE; simp add: split)
    then show "isPublicAddress (Addr6 a []) \<Longrightarrow> outside nonPublicIPv6 (uint a)" by blast
  qed
qed

text \<open>
  No prefix contains an address with a zone (\<open>netip.Prefix.Contains\<close>), so that of the checks only the
  classes of addresses are left for one.
\<close>

definition nonPublicZoned :: "(int \<times> int) list" where
  "nonPublicZoned =
    [(1, 1),
     (ipv6Number [0xfe80, 0, 0, 0, 0, 0, 0, 0], ipv6Number [0xfebf, 0xffff, 0xffff, 0xffff, 0xffff, 0xffff, 0xffff, 0xffff]),
     (ipv6Number [0xff00, 0, 0, 0, 0, 0, 0, 0], ipv6Number [0xffff, 0xffff, 0xffff, 0xffff, 0xffff, 0xffff, 0xffff, 0xffff])]"

lemma contains_zoned: "z \<noteq> [] \<Longrightarrow> \<not> PrefixContains p (Addr6 a z)"
  by (simp add: PrefixContains_def)

lemma isPublicZoned:
  assumes "\<not> Is4In6 (Addr6 a z)" "z \<noteq> []"
  shows "isPublicAddress (Addr6 a z) \<longleftrightarrow> outside nonPublicZoned (uint a)"
proof -
  have cls: "drop_bit 120 a = 0xff \<longleftrightarrow> uint a div 2 ^ 120 = 0xff"
    by (simp add: drop_bit_eq_uint)
  have eqs: "a = 0 \<longleftrightarrow> inRange 0 0 (uint a)" "a = 1 \<longleftrightarrow> inRange 1 1 (uint a)"
    by (auto simp: word_uint_eq_iff inRange_def)
  note split = cls eqs linkLocal6 div_inRange contains_zoned [OF assms(2)]
  have lm: "drop_bit 112 a AND 0xff0f = 0xff02 \<longrightarrow> inRange 0xff000000000000000000000000000000 0xffffffffffffffffffffffffffffffff (uint a)"
    using linkLocalMulticast6 [of a] by (simp add: div_inRange)
  have policy: "isPublicAddress (Addr6 a z) \<longleftrightarrow> allowedAddress (Addr6 a z)"
    using assms by (simp add: isPublicAddress_def list_ex_iff contains_zoned)
  show ?thesis
    unfolding policy using assms lm
    by (auto simp: allowedAddress_def list_ex_iff IsGlobalUnicast_def IsLoopback_def IsLinkLocalUnicast_def
        IsLinkLocalMulticast_def IsMulticast_def IsUnspecified_def Let_def split outside_def nonPublicZoned_def ipv6Number_def)
qed

section \<open>Translated addresses\<close>

lemma bytesValue_digits: "bytesValue (map (\<lambda>k. n div 256 ^ (m - 1 - k) mod 256) [0..<m]) = n mod 256 ^ m"
proof (induction m arbitrary: n)
  case (Suc m)
  have digits: "map (\<lambda>k. n div 256 ^ (m - k) mod 256) [0..<m] = map (\<lambda>k. n div 256 div 256 ^ (m - 1 - k) mod 256) [0..<m]"
  proof (rule map_cong)
    fix k assume "k \<in> set [0..<m]"
    then have "m - k = Suc (m - 1 - k)" by auto
    then show "n div 256 ^ (m - k) mod 256 = n div 256 div 256 ^ (m - 1 - k) mod 256"
      by (simp add: zdiv_zmult2_eq)
  qed simp
  have "bytesValue (map (\<lambda>k. n div 256 ^ (Suc m - 1 - k) mod 256) [0..<Suc m]) =
      bytesValue (map (\<lambda>k. n div 256 ^ (m - k) mod 256) [0..<m]) * 256 + n mod 256"
    by (simp add: bytesValue_append)
  also have "\<dots> = (n div 256 mod 256 ^ m) * 256 + n mod 256"
    unfolding digits Suc ..
  also have "\<dots> = n mod 256 ^ Suc m"
    by (simp add: zmod_zmult2_eq)
  finally show ?case .
qed simp

lemma power_256: "(256 :: int) ^ k = 2 ^ (8 * k)"
  by (simp add: power_mult)

lemma octets6_value: "octets6 a = map (\<lambda>k. uint a div 256 ^ (15 - k) mod 256) [0..<16]"
  unfolding octets6_def by (rule map_cong) (auto simp: octet_value power_256 diff_mult_distrib2)

lemma octets4_value: "octets4 a = map (\<lambda>k. uint a div 256 ^ (3 - k) mod 256) [0..<4]"
  unfolding octets4_def by (rule map_cong) (auto simp: octet_value power_256 diff_mult_distrib2)

lemma bytes_octets [simp]: "bytesOk (octets6 a)" "bytesOk (octets4 b)" "length (octets6 a) = 16" "length (octets4 b) = 4"
  by (auto simp: bytesOk_def octets6_value octets4_value list_all_iff)

lemma bytesValue_octets [simp]: "bytesValue (octets6 a) = uint a" "bytesValue (octets4 b) = uint b"
proof -
  have "uint a < 256 ^ 16" "uint b < 256 ^ 4"
    using uint_bounded [of a] uint_bounded [of b] by simp_all
  then show "bytesValue (octets6 a) = uint a" "bytesValue (octets4 b) = uint b"
    using bytesValue_digits [of "uint a" 16] bytesValue_digits [of "uint b" 4]
    by (simp_all add: octets6_value octets4_value)
qed

lemma AddrFrom4_octets [simp]: "AddrFrom4 (octets4 a) = Addr4 a"
  using bytesValue_octets(2) [of a] by (simp add: AddrFrom4_def bytesValue_def)

lemma uint_bytes: "bytesOk bytes \<Longrightarrow> length bytes = 16 \<Longrightarrow> uint (word_of_int (bytesValue bytes) :: 128 word) = bytesValue bytes"
  using bytesValue_bounds [of bytes] by (simp add: unsigned_of_int take_bit_eq_mod)

lemma octets6_of_bytes:
  assumes "bytesOk bytes" "length bytes = 16"
  shows "octets6 (word_of_int (bytesValue bytes)) = bytes"
proof (rule nth_equalityI)
  fix k assume "k < length (octets6 (word_of_int (bytesValue bytes)))"
  then have "k < 16" by simp
  with bytesValue_nth [OF assms(1), of k] show "octets6 (word_of_int (bytesValue bytes)) ! k = bytes ! k"
    by (simp add: octets6_value uint_bytes [OF assms] assms(2))
qed (simp add: assms)

lemma bytesOk_parts: "bytesOk bytes \<Longrightarrow> bytesOk (take k bytes)" "bytesOk bytes \<Longrightarrow> bytesOk (drop k bytes)"
  by (auto simp: bytesOk_def list_all_iff dest: in_set_takeD in_set_dropD)

lemma bytesValue_take:
  assumes "bytesOk bytes"
  shows "bytesValue (take k bytes) = bytesValue bytes div 256 ^ (length bytes - k)"
  using bytesValue_append [of "take k bytes" "drop k bytes"] bytesValue_bounds [OF bytesOk_parts(2) [OF assms, of k]] by simp

text \<open>The embedding of an IPv4 address under a translation prefix, as RFC 6052 draws it.\<close>

definition nat64Bytes :: "Prefix \<Rightarrow> 128 word \<Rightarrow> 32 word \<Rightarrow> int list" where
  "nat64Bytes p q v =
     (let n = nat (pfx_Bits p div 8); P = octets6 q; V = octets4 v
      in if pfx_Bits p = 96 then take 12 P @ V
         else take n P @ take (8 - n) V @ [0] @ drop (8 - n) V @ replicate (11 - n) 0)"

definition nat64Address :: "Prefix \<Rightarrow> 32 word \<Rightarrow> Addr" where
  "nat64Address p v = (case pfx_Addr p of Addr6 q _ \<Rightarrow> AddrFrom16 (nat64Bytes p q v) | _ \<Rightarrow> AddrInvalid)"

lemma nat64Bytes_ok:
  assumes "validNAT64PrefixLength (pfx_Bits p)"
  shows "bytesOk (nat64Bytes p q v)" "length (nat64Bytes p q v) = 16"
    "take (nat (pfx_Bits p div 8)) (nat64Bytes p q v) = take (nat (pfx_Bits p div 8)) (octets6 q)"
proof -
  show "bytesOk (nat64Bytes p q v)"
    using bytes_octets(1) [of q, unfolded bytesOk_def] bytes_octets(2) [of v, unfolded bytesOk_def]
    by (simp add: nat64Bytes_def Let_def bytesOk_def) (auto simp: list_all_iff dest: in_set_takeD in_set_dropD)
  show "length (nat64Bytes p q v) = 16"
    "take (nat (pfx_Bits p div 8)) (nat64Bytes p q v) = take (nat (pfx_Bits p div 8)) (octets6 q)"
    using assms by (auto simp: nat64Bytes_def Let_def validNAT64PrefixLength_def)
qed

lemma embedded_nat64:
  assumes "validNAT64PrefixLength (pfx_Bits p)"
  shows "embeddedOctets p (nat64Bytes p q v) = (Addr4 v, True, True)"
proof -
  have lengths: "length (octets6 q) = 16" "length (octets4 v) = 4" by simp_all
  from assms consider "pfx_Bits p = 32" | "pfx_Bits p = 40" | "pfx_Bits p = 48" | "pfx_Bits p = 56" | "pfx_Bits p = 64" | "pfx_Bits p = 96"
    by (auto simp: validNAT64PrefixLength_def)
  then show ?thesis
    by cases (simp_all add: embeddedOctets_def nat64Bytes_def Let_def lengths nth_append)
qed

lemma contains_octets:
  assumes "bits = 8 * int n" "n \<le> 16"
  shows "PrefixContains (Prefix (Addr6 q y) bits) (Addr6 a []) \<longleftrightarrow> take n (octets6 a) = take n (octets6 q)"
proof -
  have "uint w div 2 ^ (128 - nat bits) = bytesValue (take n (octets6 w))" for w :: "128 word"
    using bytesValue_take [of "octets6 w" n] assms by (simp add: power_256 diff_mult_distrib2 nat_mult_distrib)
  then have "PrefixContains (Prefix (Addr6 q y) bits) (Addr6 a []) \<longleftrightarrow> bytesValue (take n (octets6 a)) = bytesValue (take n (octets6 q))"
    using assms by (simp add: contains6)
  also have "\<dots> \<longleftrightarrow> take n (octets6 a) = take n (octets6 q)"
  proof
    assume same: "bytesValue (take n (octets6 a)) = bytesValue (take n (octets6 q))"
    show "take n (octets6 a) = take n (octets6 q)"
    proof (rule nth_equalityI)
      fix k assume "k < length (take n (octets6 a))"
      then show "take n (octets6 a) ! k = take n (octets6 q) ! k"
        using bytesValue_nth [OF bytesOk_parts(1) [OF bytes_octets(1)], of k n a] bytesValue_nth [OF bytesOk_parts(1) [OF bytes_octets(1)], of k n q]
        by (simp add: same)
    qed simp
  qed simp
  finally show ?thesis .
qed

section \<open>Configured prefixes\<close>

definition nat64Prefix :: "Prefix \<Rightarrow> bool" where
  "nat64Prefix p \<longleftrightarrow> (\<exists>q. pfx_Addr p = Addr6 q []) \<and> validNAT64PrefixLength (pfx_Bits p)"

definition nat64Ok :: "Prefix list \<Rightarrow> bool" where
  "nat64Ok configured \<longleftrightarrow> list_all nat64Prefix configured \<and> nat64WellKnownPrefix \<in> set configured \<and> distinct configured \<and>
     (\<forall>p \<in> set configured. \<forall>r \<in> set configured. p \<noteq> r \<longrightarrow> \<not> PrefixContains p (pfx_Addr r))"

lemma nat64Prefix_contains_self: "nat64Prefix p \<Longrightarrow> PrefixContains p (pfx_Addr p)"
  by (cases p) (auto simp: nat64Prefix_def contains6 validNAT64PrefixLength_def)

lemma Masked_zone: "PrefixIsValid (Masked p) \<Longrightarrow> Is6 (pfx_Addr (Masked p)) \<Longrightarrow> \<exists>q. pfx_Addr (Masked p) = Addr6 q []"
  by (auto simp: Masked_def PrefixFrom_def PrefixIsValid_def Let_def split: Addr.splits if_splits)

lemma configurePrefixes_ok:
  "configurePrefixes configured prefixes = Some result \<Longrightarrow> nat64Ok configured \<Longrightarrow>
     nat64Ok result \<and> set configured \<union> Masked ` set prefixes = set result"
proof (induction configured prefixes rule: configurePrefixes.induct)
  case (2 configured raw prefixes)
  let ?p = "Masked raw"
  have p: "PrefixIsValid ?p" "Is6 (pfx_Addr ?p)" "validNAT64PrefixLength (pfx_Bits ?p)"
    and disjoint: "\<forall>existing \<in> set configured. \<not> PrefixContains existing (pfx_Addr ?p) \<and> \<not> PrefixContains ?p (pfx_Addr existing)"
    and rest: "configurePrefixes (configured @ [?p]) prefixes = Some result"
    using "2.prems"(1) by (auto simp: Let_def list_ex_iff split: if_splits)
  from p have ok: "nat64Prefix ?p" using Masked_zone by (auto simp: nat64Prefix_def)
  have "?p \<notin> set configured" using disjoint nat64Prefix_contains_self [OF ok] by blast
  with "2.prems"(2) ok disjoint have "nat64Ok (configured @ [?p])"
    by (auto simp: nat64Ok_def)
  with "2.IH" [OF refl _ _ rest] p disjoint show ?case
    by (auto simp: list_ex_iff)
qed simp

lemma nested_prefixes:
  assumes "nat64Prefix p" "nat64Prefix r" "PrefixContains p (Addr6 a [])" "PrefixContains r (Addr6 a [])"
    "pfx_Bits p \<le> pfx_Bits r"
  shows "PrefixContains p (pfx_Addr r)"
proof -
  obtain q s b c where pr: "p = Prefix (Addr6 q []) b" "r = Prefix (Addr6 s []) c"
    using assms(1,2) by (cases p; cases r) (auto simp: nat64Prefix_def)
  have bits: "0 \<le> b" "b \<le> c" "c \<le> 128"
    using assms(1,2,5) by (auto simp: pr nat64Prefix_def validNAT64PrefixLength_def)
  then have split: "2 ^ (128 - nat b) = (2 :: int) ^ (128 - nat c) * 2 ^ (nat c - nat b)"
    by (simp flip: power_add)
  have "uint a div 2 ^ (128 - nat c) = uint s div 2 ^ (128 - nat c)" "uint a div 2 ^ (128 - nat b) = uint q div 2 ^ (128 - nat b)"
    using assms(3,4) by (auto simp: pr contains6)
  then have "uint s div 2 ^ (128 - nat b) = uint q div 2 ^ (128 - nat b)"
    by (simp add: split zdiv_zmult2_eq)
  with bits show ?thesis by (simp add: pr contains6)
qed

lemma unique_prefix:
  assumes ok: "nat64Ok configured" and p: "p \<in> set configured" "PrefixContains p (Addr6 a [])"
  shows "find (\<lambda>prefix. PrefixContains prefix (Addr6 a [])) configured = Some p"
proof -
  have unique: "r = p" if r: "r \<in> set configured" "PrefixContains r (Addr6 a [])" for r
  proof (rule ccontr)
    assume "r \<noteq> p"
    with ok p r have "\<not> PrefixContains p (pfx_Addr r)" "\<not> PrefixContains r (pfx_Addr p)"
      by (auto simp: nat64Ok_def)
    moreover have "nat64Prefix p" "nat64Prefix r" using ok p r by (auto simp: nat64Ok_def list_all_iff)
    ultimately show False using nested_prefixes p r by (meson linear)
  qed
  show ?thesis
  proof (cases "find (\<lambda>prefix. PrefixContains prefix (Addr6 a [])) configured")
    case None
    with p show ?thesis by (auto simp: find_None_iff)
  next
    case (Some r)
    then have "r \<in> set configured" "PrefixContains r (Addr6 a [])" by (auto simp: find_Some_iff)
    with unique Some show ?thesis by simp
  qed
qed

lemma translated_nat64:
  assumes ok: "nat64Ok configured" and p: "p \<in> set configured"
  shows "translatedIPv4 configured (nat64Address p v) = (Addr4 v, True, True)"
proof -
  have "nat64Prefix p" using ok p by (auto simp: nat64Ok_def list_all_iff)
  then obtain q b where pq: "p = Prefix (Addr6 q []) b" and valid: "validNAT64PrefixLength (pfx_Bits p)"
    by (cases p) (auto simp: nat64Prefix_def)
  let ?w = "word_of_int (bytesValue (nat64Bytes p q v)) :: 128 word"
  note bytes = nat64Bytes_ok [OF valid, of q v]
  have address: "nat64Address p v = Addr6 ?w []"
    by (simp add: nat64Address_def pq AddrFrom16_def bytesValue_def)
  have "octets6 ?w = nat64Bytes p q v" using bytes by (simp add: octets6_of_bytes)
  moreover have "PrefixContains p (Addr6 ?w [])"
    using contains_octets [of b "nat (b div 8)" q "[]" ?w] valid bytes(3) calculation
    by (auto simp: pq validNAT64PrefixLength_def)
  ultimately show ?thesis
    by (simp add: address translatedIPv4_def unique_prefix [OF ok p] embedded_nat64 [OF valid])
qed

section \<open>Properties of the policy\<close>

lemma Unmap_idem [simp]: "Unmap (Unmap a) = Unmap a"
  by (cases a) auto

lemma Zone_Unmap: "Zone a = [] \<Longrightarrow> Zone (Unmap a) = []"
  by (cases a) auto

lemma allowed_Unmap: "allowedAddress (Unmap a) = allowedAddress a"
  by (cases a) (auto simp: allowedAddress_def)

lemma not_mapped: "Unmap a = Addr6 w z \<Longrightarrow> \<not> Is4In6 (Addr6 w z)"
  by (cases a) (auto split: if_splits)

lemma public_invalid: "\<not> isPublicAddress AddrInvalid"
  by (simp add: isPublicAddress_def allowedAddress_def)

text \<open>
  C15. Public-only egress as a table: for an address that no translation prefix contains, the checks of
  \<open>IsPublicAddress\<close> (the address classes, the blocked prefixes and the private prefixes, on an IPv4 address
  in its own form or mapped into IPv6) amount to lying outside fourteen IPv4 or eight IPv6 ranges. No
  prefix contains an IPv6 address with a zone, so that only being the loopback address, a link-local or
  a multicast one keeps it from being public.
\<close>

theorem IsPublicAddress_ranges:
  assumes "\<not> list_ex (\<lambda>p. PrefixContains p (Unmap address)) configured"
  shows "IsPublicAddress configured address \<longleftrightarrow>
    (case Unmap address of AddrInvalid \<Rightarrow> False | Addr4 a \<Rightarrow> outside nonPublicIPv4 (uint a)
     | Addr6 a z \<Rightarrow> outside (if z = [] then nonPublicIPv6 else nonPublicZoned) (uint a))"
proof -
  have "find (\<lambda>p. PrefixContains p (Unmap address)) configured = None"
    using assms by (auto simp: find_None_iff list_ex_iff)
  then have "IsPublicAddress configured address = isPublicAddress (Unmap address)"
    by (cases "Unmap address") (simp_all add: IsPublicAddress_def translatedIPv4_def)
  then show ?thesis
    using not_mapped isPublic6 isPublicZoned by (cases "Unmap address") (auto simp: isPublic4 public_invalid)
qed

theorem IsPublicAddress_ranges_witness:
  "IsPublicAddress [nat64WellKnownPrefix] (ip4 1 1 1 1) \<and> \<not> IsPublicAddress [nat64WellKnownPrefix] (ip6 [0, 0, 0, 0, 0, 0xffff, 0x7f00, 1])"
proof -
  have "\<not> list_ex (\<lambda>p. PrefixContains p (Unmap (ip4 1 1 1 1))) [nat64WellKnownPrefix]"
    "\<not> list_ex (\<lambda>p. PrefixContains p (Unmap (ip6 [0, 0, 0, 0, 0, 0xffff, 0x7f00, 1]))) [nat64WellKnownPrefix]"
    by code_simp+
  note ranges = IsPublicAddress_ranges [OF this(1)] IsPublicAddress_ranges [OF this(2)]
  show ?thesis unfolding ranges by code_simp
qed

lemma zoned_private_public:
  "IsPublicAddress [nat64WellKnownPrefix] (WithZone (ip6 [0xfd00, 0, 0, 0, 0, 0, 0, 1]) ''eth0'') \<and>
   \<not> IsPublicAddress [nat64WellKnownPrefix] (ip6 [0xfd00, 0, 0, 0, 0, 0, 0, 1])"
  by code_simp

lemma nat64Ok_well_known: "nat64Ok [nat64WellKnownPrefix]"
  by (simp add: nat64Ok_def nat64Prefix_def nat64WellKnownPrefix_def ip6_def validNAT64PrefixLength_def)

text \<open>
  Configuring translation prefixes keeps the set in force well-formed: a refused configuration
  changes nothing, an accepted one installs exactly the well-known prefix and the masked ones it was given,
  all of a length of RFC 6052 and none containing another.
\<close>

theorem ConfigureNAT64Prefixes_invariant:
  assumes "nat64Ok current" "ConfigureNAT64Prefixes current prefixes = (refused, configured)"
  shows "nat64Ok configured \<and> (refused \<longrightarrow> configured = current) \<and>
    (\<not> refused \<longrightarrow> set configured = insert nat64WellKnownPrefix (Masked ` set prefixes))"
  using assms configurePrefixes_ok [OF _ nat64Ok_well_known]
  by (fastforce simp: ConfigureNAT64Prefixes_def split: option.splits)

definition exampleNAT64 :: "Prefix list" where
  "exampleNAT64 = [Prefix (ip6 [0x2001, 0x67c, 0x2b0, 0xdb32, 0, 1, 0, 0]) 96, Prefix (ip6 [0x2a00, 0x1098, 0x2c, 0, 0, 0, 0, 5]) 48]"

theorem ConfigureNAT64Prefixes_invariant_witness:
  "nat64Ok (snd (ConfigureNAT64Prefixes [nat64WellKnownPrefix] exampleNAT64)) \<and>
   set (snd (ConfigureNAT64Prefixes [nat64WellKnownPrefix] exampleNAT64)) = insert nat64WellKnownPrefix (Masked ` set exampleNAT64)"
proof -
  have "\<not> fst (ConfigureNAT64Prefixes [nat64WellKnownPrefix] exampleNAT64)" by code_simp
  then show ?thesis
    using ConfigureNAT64Prefixes_invariant [OF nat64Ok_well_known surjective_pairing, of exampleNAT64] by simp
qed

text \<open>
  C16. Translation is no way around the policy: under every configuration the package accepts, and for
  every configured prefix, the IPv6 form of an IPv4 address is public exactly when the IPv4 address is, and
  it never counts as a LAN address. The exception is a form that is itself an IPv4-mapped address, as the
  prefix \<open>::/64\<close> gives: it is public exactly when the IPv4 address that it maps is, which is where it leads.
\<close>

theorem nat64_no_bypass:
  assumes "ConfigureNAT64Prefixes current prefixes = (False, configured)" "p \<in> set configured"
  shows "if Is4In6 (nat64Address p v)
    then (\<exists>w. Unmap (nat64Address p v) = Addr4 w \<and>
      IsPublicAddress configured (nat64Address p v) = outside nonPublicIPv4 (uint w))
    else IsPublicAddress configured (nat64Address p v) = IsPublicAddress configured (Addr4 v) \<and>
      \<not> IsPrivateNetworkAddress configured (nat64Address p v)"
proof (cases "Is4In6 (nat64Address p v)")
  case True
  then obtain w where "Unmap (nat64Address p v) = Addr4 w" by (cases "nat64Address p v") auto
  with True show ?thesis by (simp add: IsPublicAddress_def translatedIPv4_def isPublic4)
next
  case False
  have "nat64Ok configured"
    using assms(1) configurePrefixes_ok [OF _ nat64Ok_well_known]
    by (auto simp: ConfigureNAT64Prefixes_def split: option.splits)
  note translated = translated_nat64 [OF this assms(2), of v]
  moreover have "Unmap (nat64Address p v) = nat64Address p v"
    using False by (cases "nat64Address p v") auto
  ultimately show ?thesis
    using False by (simp add: IsPublicAddress_def IsPrivateNetworkAddress_def) (simp add: translatedIPv4_def)
qed

text \<open>The prefix \<open>::/64\<close>, which the package accepts.\<close>

lemma nat64_mapped_form:
  "ConfigureNAT64Prefixes [] [Prefix (ip6 [0, 0, 0, 0, 0, 0, 0, 0]) 64] =
     (False, [nat64WellKnownPrefix, Prefix (ip6 [0, 0, 0, 0, 0, 0, 0, 0]) 64]) \<and>
   Unmap (nat64Address (Prefix (ip6 [0, 0, 0, 0, 0, 0, 0, 0]) 64) 0x00ffff08) = ip4 8 0 0 0"
  by code_simp

theorem nat64_no_bypass_witness:
  "fst (ConfigureNAT64Prefixes [] exampleNAT64) = False \<and>
   \<not> IsPublicAddress (snd (ConfigureNAT64Prefixes [] exampleNAT64)) (nat64Address nat64WellKnownPrefix 0x7f000001)"
proof -
  have "fst (ConfigureNAT64Prefixes [] exampleNAT64) = False"
    "nat64WellKnownPrefix \<in> set (snd (ConfigureNAT64Prefixes [] exampleNAT64))"
    "\<not> Is4In6 (nat64Address nat64WellKnownPrefix 0x7f000001)"
    "\<not> IsPublicAddress (snd (ConfigureNAT64Prefixes [] exampleNAT64)) (Addr4 0x7f000001)"
    by code_simp+
  then show ?thesis
    using nat64_no_bypass [of "[]" exampleNAT64 _ nat64WellKnownPrefix "0x7f000001"] by (metis prod.collapse)
qed

text \<open>
  The general policy (\<open>DialContext\<close>, \<open>ValidateURL\<close>) does not look through translation prefixes: the
  translated form of the link-local metadata service is an allowed address, and so is that of the loopback
  address.
\<close>

lemma allowed_translated_metadata:
  "IsAllowedAddress (nat64Address nat64WellKnownPrefix 0xa9fea9fe) \<and> IsAllowedAddress (nat64Address nat64WellKnownPrefix 0x7f000001) \<and>
   \<not> IsAllowedAddress (Addr4 0xa9fea9fe) \<and> \<not> IsAllowedAddress (Addr4 0x7f000001)"
  by code_simp

section \<open>Properties of dialing\<close>

lemma dialCandidates_prefix:
  "dialCandidates dial n port lastError candidates = (result, dialed) \<Longrightarrow>
     (\<exists>rest. candidates = dialed @ rest) \<and> (isl result \<longrightarrow> dialed = candidates) \<and> (\<not> isl result \<longrightarrow> dialed \<noteq> [])"
proof (induction candidates arbitrary: n lastError result dialed)
  case (Cons candidate candidates)
  show ?case
  proof (cases "dial n (JoinHostPort (AddrString candidate) port)")
    case (Inl err)
    obtain r d where "dialCandidates dial (Suc n) port err candidates = (r, d)" by force
    with Inl Cons show ?thesis by fastforce
  next
    case (Inr c)
    with Cons show ?thesis by auto
  qed
qed simp

lemma dialContext_permitted:
  assumes "dialContext lookup dial permitted address = (result, dialed)"
  shows "list_all permitted dialed"
    "SplitHostPort address = Some (host, port) \<Longrightarrow> lookup host = Inr addresses \<Longrightarrow> \<not> list_all permitted addresses \<Longrightarrow>
       result = Inl ErrOutboundDestinationNotPermitted \<and> dialed = []"
    "\<not> isl result \<Longrightarrow> dialed \<noteq> []"
  using assms dialCandidates_prefix
  by (fastforce simp: dialContext_def resolveAddresses_def split: option.splits sum.splits prod.splits if_splits)+

text \<open>
  C17. The public dialer connects to public addresses only, whatever the resolver answers: every address
  it dials is public, and one address that is not public in the resolver's answer refuses the destination
  before any connection is tried.
\<close>

theorem DialContextPublic_dials_public:
  assumes "DialContextPublic configured lookup dial address = (result, dialed)"
  shows "list_all (IsPublicAddress configured) dialed \<and> (\<not> isl result \<longrightarrow> dialed \<noteq> []) \<and>
    (\<forall>host port addresses. SplitHostPort address = Some (host, port) \<and> lookup host = Inr addresses \<and>
       \<not> list_all (IsPublicAddress configured) addresses \<longrightarrow> result = Inl ErrOutboundDestinationNotPermitted \<and> dialed = [])"
  using dialContext_permitted [OF assms [unfolded DialContextPublic_def]] by blast

definition exampleLookup :: "string \<Rightarrow> string + Addr list" where
  "exampleLookup host = Inr (if host = ''rebind'' then [ip4 1 1 1 1, ip4 127 0 0 1] else [ip4 1 1 1 1])"

definition exampleDial :: "nat \<Rightarrow> string \<Rightarrow> string + nat" where
  "exampleDial n destination = Inr n"

theorem DialContextPublic_dials_public_witness:
  "DialContextPublic [nat64WellKnownPrefix] exampleLookup exampleDial ''rebind:80'' = (Inl ErrOutboundDestinationNotPermitted, []) \<and>
   \<not> isl (fst (DialContextPublic [nat64WellKnownPrefix] exampleLookup exampleDial ''host:80''))"
proof -
  have "SplitHostPort ''rebind:80'' = Some (''rebind'', ''80'')" "exampleLookup ''rebind'' = Inr [ip4 1 1 1 1, ip4 127 0 0 1]"
    "\<not> list_all (IsPublicAddress [nat64WellKnownPrefix]) [ip4 1 1 1 1, ip4 127 0 0 1]"
    "\<not> isl (fst (DialContextPublic [nat64WellKnownPrefix] exampleLookup exampleDial ''host:80''))"
    by code_simp+
  then show ?thesis
    using DialContextPublic_dials_public [OF surjective_pairing, of "[nat64WellKnownPrefix]" exampleLookup exampleDial "''rebind:80''"]
    by (metis prod.collapse)
qed

section \<open>Private origins\<close>

lemma decimal_value_nonneg: "list_all is_digit s \<Longrightarrow> 0 \<le> decimal_value s"
  by (induction s rule: rev_induct) (auto simp: decimal_value_append digit_value_def is_digit_def decimal_value_def [of "[]"])

lemma private_zone: "IsPrivateNetworkAddress configured address \<Longrightarrow> Zone (Unmap address) = []"
  by (auto simp: IsPrivateNetworkAddress_def Let_def list_ex_iff PrefixContains_def split: if_splits)

lemma private_not_public:
  assumes "IsPrivateNetworkAddress configured address"
  shows "\<not> IsPublicAddress configured address"
  using assms by (auto simp: IsPrivateNetworkAddress_def IsPublicAddress_def isPublicAddress_def Let_def split: prod.splits if_splits)

text \<open>
  A private origin is what its name says: the accepted text is an HTTP(S) origin without user,
  path, query or fragment, whose host is a literal LAN address without zone that the general policy allows
  and public-only egress refuses, with a port from 1 to 65535, and the normalised origin is built from just
  these parts.
\<close>

theorem ParsePrivateOrigin_accepts:
  assumes "ParsePrivateOrigin configured urlParse raw = Inr origin"
  shows "IsAllowedAddress (po_Addr origin) \<and> IsPrivateNetworkAddress configured (po_Addr origin) \<and>
    \<not> IsPublicAddress configured (po_Addr origin) \<and> Zone (po_Addr origin) = [] \<and> 1 \<le> po_Port origin \<and> po_Port origin \<le> 65535 \<and>
    (\<exists>parsed. urlParse (TrimSpace raw) = Some parsed \<and> ToLower (url_Scheme parsed) \<in> {''http'', ''https''} \<and>
       \<not> url_User parsed \<and> url_Path parsed \<in> {[], ''/''} \<and> url_RawQuery parsed = [] \<and> url_Fragment parsed = [] \<and>
       ParseAddr (Hostname parsed) = Some (po_Addr origin) \<and> ParsePort (Port parsed) = Some (po_Port origin) \<and>
       po_Origin origin = ToLower (url_Scheme parsed) @ ''://'' @ JoinHostPort (AddrString (po_Addr origin)) (Itoa (po_Port origin)))"
proof -
  obtain parsed literal port where parts: "urlParse (TrimSpace raw) = Some parsed" "ParseAddr (Hostname parsed) = Some literal"
      "\<not> Is4In6 literal" "IsAllowedAddress (Unmap literal)" "IsPrivateNetworkAddress configured (Unmap literal)"
      "ParsePort (Port parsed) = Some port" "port \<noteq> 0"
      "ToLower (url_Scheme parsed) = ''http'' \<or> ToLower (url_Scheme parsed) = ''https''" "\<not> url_User parsed"
      "url_Path parsed = [] \<or> url_Path parsed = ''/''" "url_RawQuery parsed = []" "url_Fragment parsed = []"
      "origin = \<lparr>po_Origin = ToLower (url_Scheme parsed) @ ''://'' @ JoinHostPort (AddrString (Unmap literal)) (Itoa port),
         po_Addr = Unmap literal, po_Port = port\<rparr>"
    using assms unfolding ParsePrivateOrigin_def Let_def by (auto split: option.splits if_splits)
  have "Unmap literal = literal" using parts(3) by (cases literal) auto
  moreover have "0 \<le> port" "port \<le> 65535"
    using parts(6) decimal_value_nonneg by (auto simp: ParsePort_def split: if_splits)
  ultimately show ?thesis
    using parts private_zone [OF parts(5)] private_not_public [OF parts(5)] by auto
qed

definition exampleURL :: URL where
  "exampleURL = \<lparr>url_Scheme = ''HTTP'', url_Opaque = [], url_User = False, url_Host = ''192.168.1.5:80'', url_Path = ''/'',
     url_ForceQuery = False, url_RawQuery = [], url_Fragment = []\<rparr>"

theorem ParsePrivateOrigin_accepts_witness:
  "\<exists>origin. ParsePrivateOrigin [nat64WellKnownPrefix] (\<lambda>_. Some exampleURL) ''HTTP://192.168.1.5:80/'' = Inr origin \<and>
     po_Port origin \<le> 65535 \<and> \<not> IsPublicAddress [nat64WellKnownPrefix] (po_Addr origin)"
proof -
  have "\<not> isl (ParsePrivateOrigin [nat64WellKnownPrefix] (\<lambda>_. Some exampleURL) ''HTTP://192.168.1.5:80/'')"
    by code_simp
  then obtain origin where o: "ParsePrivateOrigin [nat64WellKnownPrefix] (\<lambda>_. Some exampleURL) ''HTTP://192.168.1.5:80/'' = Inr origin"
    by (cases "ParsePrivateOrigin [nat64WellKnownPrefix] (\<lambda>_. Some exampleURL) ''HTTP://192.168.1.5:80/''") auto
  from ParsePrivateOrigin_accepts [OF o] o show ?thesis by auto
qed

section \<open>Sanitized errors\<close>

text \<open>The URLs an error tree still carries, and the tree without its messages and URLs.\<close>

fun errorURLs :: "go_error \<Rightarrow> string list" where
  "errorURLs (Leaf _) = []"
| "errorURLs (URLError _ url err) = url # (case err of None \<Rightarrow> [] | Some e \<Rightarrow> errorURLs e)"
| "errorURLs NilURLError = []"
| "errorURLs (Wrapped _ cause) = (case cause of None \<Rightarrow> [] | Some e \<Rightarrow> errorURLs e)"
| "errorURLs (Joined _ causes) = concat (map (\<lambda>cause. case cause of None \<Rightarrow> [] | Some e \<Rightarrow> errorURLs e) causes)"

fun errorShape :: "go_error \<Rightarrow> go_error" where
  "errorShape (Leaf message) = Leaf message"
| "errorShape (URLError op _ err) = URLError op [] (map_option errorShape err)"
| "errorShape NilURLError = NilURLError"
| "errorShape (Wrapped _ cause) = Wrapped [] (map_option errorShape cause)"
| "errorShape (Joined _ causes) = Joined [] (map (map_option errorShape) causes)"

abbreviation optionURLs :: "go_error option \<Rightarrow> string list" where
  "optionURLs err \<equiv> (case err of None \<Rightarrow> [] | Some e \<Rightarrow> errorURLs e)"

lemma sanitize_invariant:
  "snd (sanitizeURLError quote err) = (optionURLs err \<noteq> []) \<and>
   set (optionURLs (fst (sanitizeURLError quote err))) \<subseteq> {[]} \<and>
   map_option errorShape (fst (sanitizeURLError quote err)) = map_option errorShape err \<and>
   (\<not> snd (sanitizeURLError quote err) \<longrightarrow> fst (sanitizeURLError quote err) = err)"
  "snd (snd (sanitizeCauses quote message causes)) = (concat (map optionURLs causes) \<noteq> []) \<and>
   set (concat (map optionURLs (fst (sanitizeCauses quote message causes)))) \<subseteq> {[]} \<and>
   map (map_option errorShape) (fst (sanitizeCauses quote message causes)) = map (map_option errorShape) causes"
proof (induction quote err and quote message causes rule: sanitizeURLError_sanitizeCauses.induct)
  case (5 quote message originalCause)
  then show ?case by (auto split: prod.splits)
next
  case (6 quote message originalCauses)
  then show ?case by (fastforce split: prod.splits option.splits)
next
  case (8 quote message originalCause originalCauses)
  obtain c changed where c: "sanitizeURLError quote originalCause = (c, changed)" by force
  obtain cs m b where cs: "sanitizeCauses quote (if changed then replaceErrorCause quote message originalCause c else message) originalCauses
      = (cs, m, b)" by (metis prod_cases3)
  have "b = (concat (map optionURLs originalCauses) \<noteq> []) \<and> set (concat (map optionURLs cs)) \<subseteq> {[]} \<and>
      map (map_option errorShape) cs = map (map_option errorShape) originalCauses"
    using "8.IH"(2) [OF c [symmetric]] by (simp only: cs fst_conv snd_conv)
  moreover have "changed = (optionURLs originalCause \<noteq> []) \<and> set (optionURLs c) \<subseteq> {[]} \<and> map_option errorShape c = map_option errorShape originalCause"
    using "8.IH"(1) by (simp only: c fst_conv snd_conv)
  moreover have "sanitizeCauses quote message (originalCause # originalCauses) = (c # cs, m, changed \<or> b)"
    by (simp add: c cs)
  ultimately show ?case
    by (simp only: fst_conv snd_conv list.map concat.simps set_append append_is_Nil_conv) blast
qed (auto split: option.splits)

text \<open>
  A sanitized error names no destination in its unwrap chain and keeps its identity: every
  \<open>url.Error\<close> that is left has an empty URL, and the tree of causes with its operations and its other errors
  is the one of the original; an error without a URL is returned as it is.
\<close>

theorem SanitizeURLError_no_destination:
  "set (optionURLs (SanitizeURLError quote err)) \<subseteq> {[]} \<and>
   map_option errorShape (SanitizeURLError quote err) = map_option errorShape err \<and>
   (if optionURLs err = [] then SanitizeURLError quote err = err else SanitizeURLError quote err \<noteq> None)"
  using sanitize_invariant(1) [of quote err]
  by (cases err) (auto simp: SanitizeURLError_def)

end
