(* ===== verification/Source_Store.thy ===== *)
theory Source_Store
  imports Playback_Model "HOL-Library.AList" "HOL-Library.Word" "HOL-Library.List_Lexorder" "HOL-Library.Char_ord"
begin

text \<open>
  The store of opaque source references, \<open>server/internal/playback/source_store.go\<close>: references to
  resolved sources, kept per login session, profile and device, with a lifetime, pins that protect a
  reference in use, and three capacities (per owner, per user and in total) kept by evicting the
  references that expire first.

  Every method of the code runs under the store's mutex, so it is one step on the store. The map
  \<open>entries\<close> is an association list with distinct keys; the order in which Go ranges over it does not
  matter, which \<open>selectVictims_order\<close> shows for the one place where a choice is made. Identifiers are
  compared bytewise, the order of \<^typ>\<open>string\<close> given by \<open>List_Lexorder\<close> and \<open>Char_ord\<close>. A method that reads
  the clock takes its readings as the function \<open>clock\<close>: two readings of one call may differ. Revisions
  are unsigned 64-bit words.
\<close>

section \<open>State\<close>

definition sourceReferenceTTL :: int where
  "sourceReferenceTTL = 4 * 3600 * 1000000000"

definition maximumSourceReferences :: int where
  "maximumSourceReferences = 4096"

definition maximumSourceReferencesPerUser :: int where
  "maximumSourceReferencesPerUser = go_div maximumSourceReferences 2"

definition maximumSourceReferencesPerOwner :: int where
  "maximumSourceReferencesPerOwner = 512"

text \<open>The fields of \<open>auth.Principal\<close> that the playback package reads.\<close>

record Principal =
  pr_SessionID :: string
  pr_UserID :: string
  pr_DeviceID :: string
  pr_ActiveProfileID :: "string option"
  pr_ProfileGrantExpiresAt :: "int option"

record sourceReferenceOwner =
  own_UserID :: string
  own_ProfileID :: string
  own_DeviceID :: string

record sourceReference =
  ref_ID :: string
  ref_AuthSessionID :: string
  ref_ProfileID :: string
  ref_Owner :: sourceReferenceOwner
  ref_MediaType :: string
  ref_AddonMediaType :: string
  ref_ResourceID :: string
  ref_Source :: Source
  ref_SelectionRevision :: "64 word"
  ref_TransportRevision :: "64 word"
  ref_Asset :: "storedAsset option"
  ref_Capabilities :: Capabilities
  ref_PreferredAudioLanguage :: string
  ref_PreferredSubtitleLanguage :: string
  ref_PreferredForcedSubtitleLanguage :: string
  ref_ProviderErrors :: "ProviderFailure list"
  ref_ExpiresAt :: int

record sourceReferenceStore =
  st_entries :: "(string \<times> sourceReference) list"
  st_pins :: "string \<rightharpoonup> int"

definition newSourceReferenceStore :: sourceReferenceStore where
  "newSourceReferenceStore = \<lparr>st_entries = [], st_pins = Map.empty\<rparr>"

definition clearStore :: "sourceReferenceStore \<Rightarrow> sourceReferenceStore" where
  "clearStore store = store\<lparr>st_entries := [], st_pins := Map.empty\<rparr>"

definition lookupReference :: "sourceReferenceStore \<Rightarrow> string \<Rightarrow> sourceReference option" where
  "lookupReference store identifier = map_of (st_entries store) identifier"

text \<open>A missing key of \<open>pins\<close> reads as zero.\<close>

definition pinCount :: "sourceReferenceStore \<Rightarrow> string \<Rightarrow> int" where
  "pinCount store identifier = (case st_pins store identifier of None \<Rightarrow> 0 | Some n \<Rightarrow> n)"

definition deleteReference :: "string \<Rightarrow> sourceReferenceStore \<Rightarrow> sourceReferenceStore" where
  "deleteReference identifier store =
     store\<lparr>st_entries := AList.delete identifier (st_entries store), st_pins := (st_pins store)(identifier := None)\<rparr>"

definition cloneSourceReference :: "sourceReference \<Rightarrow> sourceReference" where
  "cloneSourceReference r = r\<lparr>ref_Source := cloneSource (ref_Source r), ref_Asset := map_option cloneStoredAsset (ref_Asset r),
     ref_Capabilities := cloneCapabilities (ref_Capabilities r)\<rparr>"

section \<open>Ownership, expiry and counts\<close>

definition sourceReferenceOwnedBy :: "sourceReference \<Rightarrow> Principal \<Rightarrow> bool" where
  "sourceReferenceOwnedBy reference caller \<longleftrightarrow>
     (case pr_ActiveProfileID caller of None \<Rightarrow> False
      | Some profileID \<Rightarrow>
          ref_AuthSessionID reference = pr_SessionID caller \<and> ref_ProfileID reference = profileID \<and>
          own_ProfileID (ref_Owner reference) = profileID \<and> own_UserID (ref_Owner reference) = pr_UserID caller \<and>
          own_DeviceID (ref_Owner reference) = pr_DeviceID caller)"

definition removeExpiredLocked :: "int \<Rightarrow> sourceReferenceStore \<Rightarrow> sourceReferenceStore" where
  "removeExpiredLocked now store =
     store\<lparr>st_entries := filter (\<lambda>(identifier, reference). \<not> (pinCount store identifier = 0 \<and> \<not> now < ref_ExpiresAt reference))
       (st_entries store)\<rparr>"

definition ownerCountLocked :: "sourceReferenceOwner \<Rightarrow> sourceReferenceStore \<Rightarrow> int" where
  "ownerCountLocked owner store = int (length (filter (\<lambda>(_, r). ref_Owner r = owner) (st_entries store)))"

definition userCountLocked :: "string \<Rightarrow> sourceReferenceStore \<Rightarrow> int" where
  "userCountLocked userID store = int (length (filter (\<lambda>(_, r). own_UserID (ref_Owner r) = userID) (st_entries store)))"

section \<open>Eviction\<close>

definition expirationLess :: "string \<times> int \<Rightarrow> string \<times> int \<Rightarrow> bool" where
  "expirationLess left right =
     (if snd left = snd right then fst left < fst right else snd left < snd right)"

text \<open>The references that may be evicted, with their expiry.\<close>

definition evictable :: "sourceReferenceStore \<Rightarrow> string list \<Rightarrow> (sourceReference \<Rightarrow> bool) \<Rightarrow> (string \<times> int) list" where
  "evictable store selected matches =
     map (\<lambda>(identifier, r). (identifier, ref_ExpiresAt r))
       (filter (\<lambda>(identifier, r). \<not> (identifier \<in> set selected \<or> 0 < pinCount store identifier \<or> \<not> matches r))
         (st_entries store))"

text \<open>The set \<open>selected\<close> grows by the first \<open>needed\<close> of them; \<^const>\<open>None\<close> is the code's \<open>false\<close>.\<close>

definition selectVictimsLocked ::
    "sourceReferenceStore \<Rightarrow> int \<Rightarrow> string list \<Rightarrow> (sourceReference \<Rightarrow> bool) \<Rightarrow> string list option" where
  "selectVictimsLocked store needed selected matches =
     (if needed \<le> 0 then Some selected
      else
        (let expirations = SliceStable expirationLess (evictable store selected matches)
         in if int (length expirations) < needed then None
            else Some (selected @ map fst (take (nat needed) expirations))))"

definition selectOwnerVictimsLocked ::
    "sourceReferenceStore \<Rightarrow> sourceReferenceOwner \<Rightarrow> int \<Rightarrow> string list \<Rightarrow> string list option" where
  "selectOwnerVictimsLocked store owner needed selected =
     selectVictimsLocked store needed selected (\<lambda>r. ref_Owner r = owner)"

definition selectUserVictimsLocked ::
    "sourceReferenceStore \<Rightarrow> string \<Rightarrow> int \<Rightarrow> string list \<Rightarrow> string list option" where
  "selectUserVictimsLocked store userID needed selected =
     selectVictimsLocked store needed selected (\<lambda>r. own_UserID (ref_Owner r) = userID)"

section \<open>Adding references\<close>

definition duplicateIdentifier :: playback_error where
  "duplicateIdentifier = ErrOther ''duplicate source reference identifier''"

text \<open>\<open>newIdentifier k\<close> is the answer to the \<open>k\<close>-th call of the generator.\<close>

fun newIdentifiers :: "(nat \<Rightarrow> playback_error + string) \<Rightarrow> nat \<Rightarrow> string list \<Rightarrow> playback_error + string list" where
  "newIdentifiers newIdentifier 0 identifiers = Inr identifiers"
| "newIdentifiers newIdentifier (Suc n) identifiers =
     (case newIdentifier (length identifiers) of Inl err \<Rightarrow> Inl err
      | Inr identifier \<Rightarrow>
          if identifier \<in> set identifiers then Inl duplicateIdentifier
          else newIdentifiers newIdentifier n (identifiers @ [identifier]))"

definition capacityError :: "string \<Rightarrow> playback_error" where
  "capacityError message = ErrJoin [ErrMediaCapacityReached, ErrOther message]"

definition chooseVictims ::
    "sourceReferenceStore \<Rightarrow> sourceReferenceOwner \<Rightarrow> int \<Rightarrow> playback_error + string list" where
  "chooseVictims store owner n =
     (case selectOwnerVictimsLocked store owner
         (max 0 (ownerCountLocked owner store + n - maximumSourceReferencesPerOwner)) [] of
        None \<Rightarrow> Inl (capacityError ''source reference owner capacity is pinned'')
      | Some victims1 \<Rightarrow>
     (case selectUserVictimsLocked store (own_UserID owner)
         (max 0 (userCountLocked (own_UserID owner) store - int (length victims1) + n - maximumSourceReferencesPerUser)) victims1 of
        None \<Rightarrow> Inl (capacityError ''source reference user capacity is pinned'')
      | Some victims2 \<Rightarrow>
     (case selectUserVictimsLocked store (own_UserID owner)
         (max 0 (int (length (st_entries store)) - int (length victims2) + n - maximumSourceReferences)) victims2 of
        None \<Rightarrow> Inl (capacityError ''source reference store capacity reached'')
      | Some victims3 \<Rightarrow>
          if int (length (st_entries store)) - int (length victims3) + n > maximumSourceReferences
          then Inl (capacityError ''source reference store capacity reached'')
          else Inr victims3)))"

definition stampReference ::
    "Principal \<Rightarrow> string \<Rightarrow> sourceReferenceOwner \<Rightarrow> int \<Rightarrow> string \<Rightarrow> sourceReference \<Rightarrow> sourceReference" where
  "stampReference caller profileID owner expiresAt identifier reference =
     reference\<lparr>ref_ID := identifier, ref_AuthSessionID := pr_SessionID caller, ref_ProfileID := profileID,
       ref_Owner := owner, ref_ExpiresAt := expiresAt, ref_SelectionRevision := 1, ref_TransportRevision := 1\<rparr>"

definition storeReference :: "bool \<Rightarrow> sourceReference \<Rightarrow> sourceReferenceStore \<Rightarrow> sourceReferenceStore" where
  "storeReference pin reference store =
     (let store1 = store\<lparr>st_entries := AList.update (ref_ID reference) (cloneSourceReference reference) (st_entries store)\<rparr>
      in if pin then store1\<lparr>st_pins := (st_pins store1)(ref_ID reference \<mapsto> pinCount store1 (ref_ID reference) + 1)\<rparr>
         else store1)"

definition putAllReserved ::
    "(nat \<Rightarrow> playback_error + string) \<Rightarrow> (nat \<Rightarrow> int) \<Rightarrow> Principal \<Rightarrow> sourceReference list \<Rightarrow> bool \<Rightarrow>
     sourceReferenceStore \<Rightarrow> (playback_error + sourceReference list) \<times> sourceReferenceStore" where
  "putAllReserved newIdentifier clock caller references pin store =
     (if references = [] then (Inr [], store)
      else case pr_ActiveProfileID caller of
        None \<Rightarrow> (Inl (ErrOther ''source reference owner requires an active profile''), store)
      | Some profileID \<Rightarrow>
      if int (length references) > maximumSourceReferencesPerOwner then
        (Inl (capacityError ''source reference batch exceeds owner capacity''), store)
      else case newIdentifiers newIdentifier (length references) [] of
        Inl err \<Rightarrow> (Inl err, store)
      | Inr identifiers \<Rightarrow>
          (let owner = \<lparr>own_UserID = pr_UserID caller, own_ProfileID = profileID, own_DeviceID = pr_DeviceID caller\<rparr>;
               store1 = removeExpiredLocked (clock 0) store
           in if list_ex (\<lambda>identifier. lookupReference store1 identifier \<noteq> None) identifiers then
                (Inl duplicateIdentifier, store1)
              else case chooseVictims store1 owner (int (length references)) of
                Inl err \<Rightarrow> (Inl err, store1)
              | Inr victims \<Rightarrow>
                  (let stored = map2 (stampReference caller profileID owner (clock 1 + sourceReferenceTTL)) identifiers references
                   in (Inr stored, fold (storeReference pin) stored (fold deleteReference victims store1)))))"

definition putAll ::
    "(nat \<Rightarrow> playback_error + string) \<Rightarrow> (nat \<Rightarrow> int) \<Rightarrow> Principal \<Rightarrow> sourceReference list \<Rightarrow>
     sourceReferenceStore \<Rightarrow> (playback_error + sourceReference list) \<times> sourceReferenceStore" where
  "putAll newIdentifier clock caller references store =
     putAllReserved newIdentifier clock caller references False store"

definition putAllPinned ::
    "(nat \<Rightarrow> playback_error + string) \<Rightarrow> (nat \<Rightarrow> int) \<Rightarrow> Principal \<Rightarrow> sourceReference list \<Rightarrow>
     sourceReferenceStore \<Rightarrow> (playback_error + sourceReference list) \<times> sourceReferenceStore" where
  "putAllPinned newIdentifier clock caller references store =
     putAllReserved newIdentifier clock caller references True store"

definition put ::
    "(nat \<Rightarrow> playback_error + string) \<Rightarrow> (nat \<Rightarrow> int) \<Rightarrow> Principal \<Rightarrow> sourceReference \<Rightarrow>
     sourceReferenceStore \<Rightarrow> (playback_error + sourceReference) \<times> sourceReferenceStore" where
  "put newIdentifier clock caller reference store =
     (case putAll newIdentifier clock caller [reference] store of
        (Inl err, store1) \<Rightarrow> (Inl err, store1)
      | (Inr references, store1) \<Rightarrow> (Inr (references ! 0), store1))"

section \<open>Reading and replacing\<close>

text \<open>The guard the three methods below share: present, owned, and not expired at the second reading.\<close>

definition liveReference ::
    "(nat \<Rightarrow> int) \<Rightarrow> string \<Rightarrow> Principal \<Rightarrow> sourceReferenceStore \<Rightarrow> sourceReference option" where
  "liveReference clock identifier caller store =
     (case lookupReference store identifier of None \<Rightarrow> None
      | Some reference \<Rightarrow>
          if \<not> sourceReferenceOwnedBy reference caller \<or> \<not> clock 1 < ref_ExpiresAt reference then None
          else Some reference)"

definition getReference ::
    "(nat \<Rightarrow> int) \<Rightarrow> string \<Rightarrow> Principal \<Rightarrow> sourceReferenceStore \<Rightarrow>
     (playback_error + sourceReference) \<times> sourceReferenceStore" where
  "getReference clock identifier caller store =
     (let store1 = removeExpiredLocked (clock 0) store
      in case liveReference clock identifier caller store1 of
           None \<Rightarrow> (Inl ErrSourceReferenceExpired, store1)
         | Some reference \<Rightarrow> (Inr (cloneSourceReference reference), store1))"

text \<open>\<open>service.go\<close>: what a client already buffering the old source would notice.\<close>

definition sourceTransportChanged :: "Source \<Rightarrow> storedAsset option \<Rightarrow> Source \<Rightarrow> storedAsset option \<Rightarrow> bool" where
  "sourceTransportChanged previousSource previousAsset source asset \<longleftrightarrow>
     (if src_Mode previousSource \<noteq> src_Mode source \<or> src_URL previousSource \<noteq> src_URL source \<or>
         src_YTID previousSource \<noteq> src_YTID source \<or> src_InfoHash previousSource \<noteq> src_InfoHash source \<or>
         src_Protocol previousSource \<noteq> src_Protocol source \<or> src_Container previousSource \<noteq> src_Container source
      then True
      else case (previousAsset, asset) of
        (None, None) \<Rightarrow> False
      | (None, Some _) \<Rightarrow> True
      | (Some _, None) \<Rightarrow> True
      | (Some p, Some a) \<Rightarrow>
          if sa_URL p \<noteq> sa_URL a \<or> sa_Container p \<noteq> sa_Container a \<or> length (sa_Headers p) \<noteq> length (sa_Headers a)
          then True
          else list_ex (\<lambda>(name, value). map_of (sa_Headers a) name \<noteq> Some value) (sa_Headers p))"

text \<open>The results: an error, the current reference when the expected revision is stale, or the new one.\<close>

definition replaceSelection ::
    "(nat \<Rightarrow> int) \<Rightarrow> string \<Rightarrow> Principal \<Rightarrow> 64 word \<Rightarrow> Source \<Rightarrow> storedAsset option \<Rightarrow> sourceReferenceStore \<Rightarrow>
     (playback_error + sourceReference \<times> bool) \<times> sourceReferenceStore" where
  "replaceSelection clock identifier caller expectedRevision source asset store =
     (let store1 = removeExpiredLocked (clock 0) store
      in case liveReference clock identifier caller store1 of
           None \<Rightarrow> (Inl ErrSourceReferenceExpired, store1)
         | Some reference \<Rightarrow>
             if ref_SelectionRevision reference \<noteq> expectedRevision then
               (Inr (cloneSourceReference reference, False), store1)
             else
               (let transportChanged = sourceTransportChanged (ref_Source reference) (ref_Asset reference) source asset
                in if ref_SelectionRevision reference = - 1 \<or> transportChanged \<and> ref_TransportRevision reference = - 1 then
                     (Inl (ErrOther ''source selection revision exhausted''), store1)
                   else
                     (let r1 = reference\<lparr>ref_Source := cloneSource source, ref_Asset := map_option cloneStoredAsset asset,
                            ref_SelectionRevision := ref_SelectionRevision reference + 1\<rparr>;
                          r2 = (if transportChanged then r1\<lparr>ref_TransportRevision := ref_TransportRevision r1 + 1\<rparr> else r1)
                      in (Inr (cloneSourceReference r2, True),
                          store1\<lparr>st_entries := AList.update identifier (cloneSourceReference r2) (st_entries store1)\<rparr>))))"

text \<open>The zero reference of the successful case is \<^const>\<open>None\<close>.\<close>

definition expireSelection ::
    "(nat \<Rightarrow> int) \<Rightarrow> string \<Rightarrow> Principal \<Rightarrow> 64 word \<Rightarrow> sourceReferenceStore \<Rightarrow>
     (playback_error + sourceReference option) \<times> sourceReferenceStore" where
  "expireSelection clock identifier caller expectedRevision store =
     (let store1 = removeExpiredLocked (clock 0) store
      in case liveReference clock identifier caller store1 of
           None \<Rightarrow> (Inl ErrSourceReferenceExpired, store1)
         | Some reference \<Rightarrow>
             if ref_SelectionRevision reference \<noteq> expectedRevision then
               (Inr (Some (cloneSourceReference reference)), store1)
             else (Inr None, deleteReference identifier store1))"

section \<open>Pins\<close>

definition ownedReference :: "Principal \<Rightarrow> sourceReferenceStore \<Rightarrow> string \<Rightarrow> bool" where
  "ownedReference caller store identifier \<longleftrightarrow>
     (case lookupReference store identifier of None \<Rightarrow> False | Some r \<Rightarrow> sourceReferenceOwnedBy r caller)"

definition pinOne :: "string \<Rightarrow> sourceReferenceStore \<Rightarrow> sourceReferenceStore" where
  "pinOne identifier store = store\<lparr>st_pins := (st_pins store)(identifier \<mapsto> pinCount store identifier + 1)\<rparr>"

definition pinReferences ::
    "int \<Rightarrow> Principal \<Rightarrow> string list \<Rightarrow> sourceReferenceStore \<Rightarrow> playback_error option \<times> sourceReferenceStore" where
  "pinReferences now caller identifiers store =
     (if identifiers = [] \<or> pr_ActiveProfileID caller = None then (Some ErrSourceReferenceExpired, store)
      else
        (let store1 = removeExpiredLocked now store
         in if \<not> list_all (ownedReference caller store1) identifiers then (Some ErrSourceReferenceExpired, store1)
            else (None, fold pinOne (remdups identifiers) store1)))"

definition unpinOne :: "Principal \<Rightarrow> int \<Rightarrow> string \<Rightarrow> sourceReferenceStore \<Rightarrow> sourceReferenceStore" where
  "unpinOne caller now identifier store =
     (case lookupReference store identifier of None \<Rightarrow> store
      | Some reference \<Rightarrow>
          if \<not> sourceReferenceOwnedBy reference caller then store
          else if pinCount store identifier \<le> 1 then
            (let store1 = store\<lparr>st_pins := (st_pins store)(identifier := None)\<rparr>
             in if \<not> now < ref_ExpiresAt reference
                then store1\<lparr>st_entries := AList.delete identifier (st_entries store1)\<rparr> else store1)
          else store\<lparr>st_pins := (st_pins store)(identifier \<mapsto> pinCount store identifier - 1)\<rparr>)"

fun unpinLoop :: "Principal \<Rightarrow> (nat \<Rightarrow> int) \<Rightarrow> nat \<Rightarrow> string list \<Rightarrow> string list \<Rightarrow> sourceReferenceStore \<Rightarrow> sourceReferenceStore" where
  "unpinLoop caller clock k unique [] store = store"
| "unpinLoop caller clock k unique (identifier # identifiers) store =
     (if identifier \<in> set unique then unpinLoop caller clock (Suc k) unique identifiers store
      else unpinLoop caller clock (Suc k) (identifier # unique) identifiers (unpinOne caller (clock k) identifier store))"

definition unpinReferences ::
    "(nat \<Rightarrow> int) \<Rightarrow> Principal \<Rightarrow> string list \<Rightarrow> sourceReferenceStore \<Rightarrow> sourceReferenceStore" where
  "unpinReferences clock caller identifiers store =
     (if identifiers = [] \<or> pr_ActiveProfileID caller = None then store
      else unpinLoop caller clock 0 [] identifiers store)"

section \<open>The invariant\<close>

definition referencesBy :: "(sourceReferenceOwner \<Rightarrow> bool) \<Rightarrow> sourceReferenceStore \<Rightarrow> nat" where
  "referencesBy P store = length (filter (\<lambda>e. P (ref_Owner (snd e))) (st_entries store))"

definition storeOk :: "sourceReferenceStore \<Rightarrow> bool" where
  "storeOk store \<longleftrightarrow>
     distinct (map fst (st_entries store)) \<and> list_all (\<lambda>(k, r). ref_ID r = k) (st_entries store) \<and>
     dom (st_pins store) \<subseteq> fst ` set (st_entries store) \<and> (\<forall>k n. st_pins store k = Some n \<longrightarrow> 1 \<le> n) \<and>
     int (referencesBy (\<lambda>_. True) store) \<le> maximumSourceReferences \<and>
     (\<forall>u. int (referencesBy (\<lambda>o'. own_UserID o' = u) store) \<le> maximumSourceReferencesPerUser) \<and>
     (\<forall>o'. int (referencesBy (\<lambda>q. q = o') store) \<le> maximumSourceReferencesPerOwner)"

lemma ownerCountLocked_eq: "ownerCountLocked owner store = int (referencesBy (\<lambda>q. q = owner) store)"
  by (simp add: ownerCountLocked_def referencesBy_def case_prod_unfold)

lemma userCountLocked_eq: "userCountLocked u store = int (referencesBy (\<lambda>q. own_UserID q = u) store)"
  by (simp add: userCountLocked_def referencesBy_def case_prod_unfold)

lemma entryCount_eq: "length (st_entries store) = referencesBy (\<lambda>_. True) store"
  by (simp add: referencesBy_def)

lemmas reference_counts = ownerCountLocked_eq userCountLocked_eq entryCount_eq

lemma storeOk_shrink:
  assumes "storeOk store" "st_entries store' = filter Q (st_entries store)"
    and "dom (st_pins store') \<subseteq> fst ` set (st_entries store')" "\<forall>k n. st_pins store' k = Some n \<longrightarrow> 1 \<le> n"
  shows "storeOk store'"
proof -
  have le: "int (referencesBy P store') \<le> int (referencesBy P store)" for P
    using length_filter_le [of Q "filter (\<lambda>e. P (ref_Owner (snd e))) (st_entries store)"]
    by (simp add: referencesBy_def assms(2) conj_commute)
  with assms show ?thesis
    unfolding storeOk_def by (auto simp: distinct_map_filter list_all_iff intro: order_trans [OF le])
qed

lemma removeExpired_entries:
  "st_entries (removeExpiredLocked now store) = filter (\<lambda>e. \<not> (pinCount store (fst e) = 0 \<and> \<not> now < ref_ExpiresAt (snd e))) (st_entries store)"
  "st_pins (removeExpiredLocked now store) = st_pins store"
  by (simp_all add: removeExpiredLocked_def case_prod_unfold)

lemma pin_positive: "storeOk store \<Longrightarrow> st_pins store k = Some n \<Longrightarrow> 1 \<le> n \<and> 0 < pinCount store k"
  by (force simp: storeOk_def pinCount_def)

lemma pinCount_nonneg: "storeOk store \<Longrightarrow> 0 \<le> pinCount store k"
  using pin_positive [of store k] by (cases "st_pins store k") (auto simp: pinCount_def)

lemma removeExpired_ok [intro, simp]:
  assumes "storeOk store"
  shows "storeOk (removeExpiredLocked now store)"
proof (rule storeOk_shrink [OF assms removeExpired_entries(1)])
  show "dom (st_pins (removeExpiredLocked now store)) \<subseteq> fst ` set (st_entries (removeExpiredLocked now store))"
  proof
    fix k assume "k \<in> dom (st_pins (removeExpiredLocked now store))"
    then obtain n where n: "st_pins store k = Some n" by (auto simp: removeExpired_entries)
    then obtain r where "(k, r) \<in> set (st_entries store)"
      using assms by (auto simp: storeOk_def dom_def)
    with n pin_positive [OF assms n] show "k \<in> fst ` set (st_entries (removeExpiredLocked now store))"
      by (force simp: removeExpired_entries)
  qed
  show "\<forall>k n. st_pins (removeExpiredLocked now store) k = Some n \<longrightarrow> 1 \<le> n"
    using assms by (simp add: removeExpired_entries storeOk_def)
qed

lemma delete_filter: "AList.delete k xs = filter (\<lambda>e. fst e \<noteq> k) xs"
  by (induction xs) auto

lemma deleteReference_ok [intro]:
  assumes "storeOk store"
  shows "storeOk (deleteReference k store)"
proof (rule storeOk_shrink [OF assms])
  show "st_entries (deleteReference k store) = filter (\<lambda>e. fst e \<noteq> k) (st_entries store)"
    by (simp add: deleteReference_def delete_filter)
qed (use assms in \<open>auto simp: deleteReference_def delete_filter storeOk_def dom_def image_iff\<close>)

lemma pins_only_ok:
  assumes "storeOk store" "dom pins \<subseteq> fst ` set (st_entries store)" "\<forall>k n. pins k = Some n \<longrightarrow> 1 \<le> n"
  shows "storeOk (store\<lparr>st_pins := pins\<rparr>)"
  using assms by (simp add: storeOk_def referencesBy_def)

lemma lookup_mem: "lookupReference store k = Some r \<Longrightarrow> (k, r) \<in> set (st_entries store)"
  by (simp add: lookupReference_def map_of_SomeD)

lemma lookup_key: "lookupReference store k = Some r \<Longrightarrow> k \<in> fst ` set (st_entries store)"
  using lookup_mem by (force simp: image_iff)

lemma pinOne_ok [intro]:
  assumes "storeOk store" "k \<in> fst ` set (st_entries store)"
  shows "storeOk (pinOne k store)"
  unfolding pinOne_def
  by (rule pins_only_ok) (use assms pinCount_nonneg [OF assms(1)] in \<open>auto simp: storeOk_def split: if_splits\<close>)

lemma pinOne_entries [simp]: "st_entries (pinOne k store) = st_entries store"
  by (simp add: pinOne_def)

lemma fold_pinOne_ok:
  "storeOk store \<Longrightarrow> set ks \<subseteq> fst ` set (st_entries store) \<Longrightarrow> storeOk (fold pinOne ks store)"
  by (induction ks arbitrary: store) (simp_all add: pinOne_ok)

lemma owned_key: "ownedReference caller store k \<Longrightarrow> k \<in> fst ` set (st_entries store)"
  by (auto simp: ownedReference_def intro: lookup_key split: option.splits)

lemma pinReferences_ok [intro]: "storeOk store \<Longrightarrow> storeOk (snd (pinReferences now caller ks store))"
  by (auto simp: pinReferences_def Let_def list_all_iff intro!: fold_pinOne_ok owned_key)

lemma unpinOne_ok [intro]:
  assumes "storeOk store"
  shows "storeOk (unpinOne caller now k store)"
proof (cases "lookupReference store k")
  case (Some r)
  have "storeOk (store\<lparr>st_pins := (st_pins store)(k := None)\<rparr>)"
    by (rule pins_only_ok [OF assms]) (use assms in \<open>auto simp: storeOk_def split: if_splits\<close>)
  moreover have "storeOk (store\<lparr>st_pins := (st_pins store)(k := None), st_entries := AList.delete k (st_entries store)\<rparr>)"
    using deleteReference_ok [OF assms, of k] by (cases store) (simp add: deleteReference_def)
  moreover have "storeOk (store\<lparr>st_pins := (st_pins store)(k \<mapsto> pinCount store k - 1)\<rparr>)" if "1 < pinCount store k"
    by (rule pins_only_ok [OF assms]) (use assms that Some in \<open>auto simp: storeOk_def lookup_key split: if_splits\<close>)
  ultimately show ?thesis
    using assms Some by (simp add: unpinOne_def Let_def)
qed (use assms in \<open>simp add: unpinOne_def\<close>)

lemma unpinLoop_ok: "storeOk store \<Longrightarrow> storeOk (unpinLoop caller clock k seen ks store)"
  by (induction ks arbitrary: k seen store) (simp_all add: unpinOne_ok)

lemma unpinReferences_ok [intro]: "storeOk store \<Longrightarrow> storeOk (unpinReferences clock caller ks store)"
  by (simp add: unpinReferences_def unpinLoop_ok)

section \<open>Eviction\<close>

interpretation expiration: slice_order expirationLess
  by unfold_locales (auto simp: expirationLess_def split: if_splits)

lemma evictable_mem:
  "(k, t) \<in> set (evictable store selected matches) \<longleftrightarrow>
     (\<exists>r. (k, r) \<in> set (st_entries store) \<and> t = ref_ExpiresAt r \<and> k \<notin> set selected \<and> \<not> 0 < pinCount store k \<and> matches r)"
  by (auto simp: evictable_def)

lemma evictable_distinct:
  "distinct (map fst (st_entries store)) \<Longrightarrow> distinct (map fst (evictable store selected matches))"
  by (simp add: evictable_def case_prod_unfold comp_def distinct_map_filter)

lemma selectVictims_props:
  assumes "selectVictimsLocked store needed selected matches = Some victims" "distinct (map fst (st_entries store))"
  obtains new where "victims = selected @ new" "distinct new" "set new \<inter> set selected = {}"
    "int (length new) = max 0 needed"
    "\<forall>k \<in> set new. \<exists>r. (k, r) \<in> set (st_entries store) \<and> matches r \<and> \<not> 0 < pinCount store k"
proof (cases "needed \<le> 0")
  case True
  with assms that [of "[]"] show thesis by (simp add: selectVictimsLocked_def)
next
  case False
  let ?sorted = "SliceStable expirationLess (evictable store selected matches)"
  let ?new = "map fst (take (nat needed) ?sorted)"
  have mem: "\<exists>r. (k, r) \<in> set (st_entries store) \<and> matches r \<and> \<not> 0 < pinCount store k \<and> k \<notin> set selected" if "k \<in> set ?new" for k
  proof -
    from that obtain t where "(k, t) \<in> set (evictable store selected matches)"
      by (auto dest: in_set_takeD)
    then show ?thesis by (auto simp: evictable_mem)
  qed
  have "distinct ?new"
    using evictable_distinct [OF assms(2)] by (metis distinct_SliceStable distinct_take take_map)
  moreover from False assms(1) have "victims = selected @ ?new" "int (length ?new) = max 0 needed"
    by (auto simp: selectVictimsLocked_def Let_def split: if_splits)
  ultimately show thesis
    using that [of ?new] mem by blast
qed

lemma fold_delete_entries:
  "st_entries (fold deleteReference ks store) = filter (\<lambda>e. fst e \<notin> set ks) (st_entries store)"
  "st_pins (fold deleteReference ks store) = (st_pins store) |` (- set ks)"
proof -
  show "st_entries (fold deleteReference ks store) = filter (\<lambda>e. fst e \<notin> set ks) (st_entries store)"
    by (induction ks arbitrary: store) (simp_all add: deleteReference_def delete_filter conj_commute)
  show "st_pins (fold deleteReference ks store) = (st_pins store) |` (- set ks)"
    by (induction ks arbitrary: store) (auto simp: deleteReference_def restrict_map_def)
qed

lemma fold_delete_ok: "storeOk store \<Longrightarrow> storeOk (fold deleteReference ks store)"
  by (induction ks arbitrary: store) (simp_all add: deleteReference_ok)

lemma referencesBy_delete:
  assumes "distinct (map fst (st_entries store))" "distinct ks"
    and "\<forall>k \<in> set ks. \<exists>r. (k, r) \<in> set (st_entries store) \<and> P (ref_Owner r)"
  shows "referencesBy P (fold deleteReference ks store) + length ks = referencesBy P store"
proof -
  let ?P = "filter (\<lambda>e. P (ref_Owner (snd e))) (st_entries store)"
  have "set (map fst (filter (\<lambda>e. fst e \<in> set ks) ?P)) = set ks"
    using assms(3) by force
  moreover have "distinct (map fst (filter (\<lambda>e. fst e \<in> set ks) ?P))"
    by (rule distinct_map_filter, rule distinct_map_filter, fact)
  ultimately have "length (filter (\<lambda>e. fst e \<in> set ks) ?P) = length ks"
    using assms(2) by (metis distinct_card length_map)
  moreover have "referencesBy P (fold deleteReference ks store) = length (filter (\<lambda>e. fst e \<notin> set ks) ?P)"
    by (simp add: referencesBy_def fold_delete_entries conj_commute)
  ultimately show ?thesis
    using sum_length_filter_compl [of "\<lambda>e. fst e \<in> set ks" ?P] by (simp add: referencesBy_def)
qed

lemma referencesBy_delete_le: "referencesBy P (fold deleteReference ks store) \<le> referencesBy P store"
  using length_filter_le [of "\<lambda>e. fst e \<notin> set ks" "filter (\<lambda>e. P (ref_Owner (snd e))) (st_entries store)"]
  by (simp add: referencesBy_def fold_delete_entries conj_commute)

lemma chooseVictims_props:
  assumes chosen: "chooseVictims store owner n = Inr victims" and ok: "storeOk store" and "0 \<le> n"
  shows "distinct victims"
    and "\<forall>k \<in> set victims. \<exists>r. (k, r) \<in> set (st_entries store) \<and> own_UserID (ref_Owner r) = own_UserID owner \<and> \<not> 0 < pinCount store k"
    and "int (referencesBy (\<lambda>q. q = owner) (fold deleteReference victims store)) + n \<le> maximumSourceReferencesPerOwner"
    and "int (referencesBy (\<lambda>q. own_UserID q = own_UserID owner) (fold deleteReference victims store)) + n \<le> maximumSourceReferencesPerUser"
    and "int (referencesBy (\<lambda>_. True) (fold deleteReference victims store)) + n \<le> maximumSourceReferences"
proof -
  have keys: "distinct (map fst (st_entries store))"
    using ok by (simp add: storeOk_def)
  from chosen obtain v1 v2 where
      v1: "selectVictimsLocked store (max 0 (ownerCountLocked owner store + n - maximumSourceReferencesPerOwner)) [] (\<lambda>r. ref_Owner r = owner) = Some v1"
    and v2: "selectVictimsLocked store (max 0 (userCountLocked (own_UserID owner) store - int (length v1) + n - maximumSourceReferencesPerUser)) v1
      (\<lambda>r. own_UserID (ref_Owner r) = own_UserID owner) = Some v2"
    and v3: "selectVictimsLocked store (max 0 (int (length (st_entries store)) - int (length v2) + n - maximumSourceReferences)) v2
      (\<lambda>r. own_UserID (ref_Owner r) = own_UserID owner) = Some victims"
    and total: "\<not> int (length (st_entries store)) - int (length victims) + n > maximumSourceReferences"
    by (auto simp: chooseVictims_def selectOwnerVictimsLocked_def selectUserVictimsLocked_def split: option.splits if_splits)
  obtain w1 where w1: "v1 = [] @ w1" "distinct w1" "int (length w1) = max 0 (max 0 (ownerCountLocked owner store + n - maximumSourceReferencesPerOwner))"
    "\<forall>k \<in> set w1. \<exists>r. (k, r) \<in> set (st_entries store) \<and> ref_Owner r = owner \<and> \<not> 0 < pinCount store k"
    using selectVictims_props [OF v1 keys] by metis
  obtain w2 where w2: "v2 = v1 @ w2" "distinct w2" "set w2 \<inter> set v1 = {}"
    "int (length w2) = max 0 (max 0 (userCountLocked (own_UserID owner) store - int (length v1) + n - maximumSourceReferencesPerUser))"
    "\<forall>k \<in> set w2. \<exists>r. (k, r) \<in> set (st_entries store) \<and> own_UserID (ref_Owner r) = own_UserID owner \<and> \<not> 0 < pinCount store k"
    using selectVictims_props [OF v2 keys] by metis
  obtain w3 where w3: "victims = v2 @ w3" "distinct w3" "set w3 \<inter> set v2 = {}"
    "\<forall>k \<in> set w3. \<exists>r. (k, r) \<in> set (st_entries store) \<and> own_UserID (ref_Owner r) = own_UserID owner \<and> \<not> 0 < pinCount store k"
    using selectVictims_props [OF v3 keys] by metis
  show dist: "distinct victims"
    using w1 w2 w3 by auto
  show mem: "\<forall>k \<in> set victims. \<exists>r. (k, r) \<in> set (st_entries store) \<and> own_UserID (ref_Owner r) = own_UserID owner \<and> \<not> 0 < pinCount store k"
    using w1 w2 w3 by (metis Un_iff append_Nil set_append)
  have le: "referencesBy P (fold deleteReference (xs @ ys) store) \<le> referencesBy P (fold deleteReference xs store)" for P xs ys
    using referencesBy_delete_le [of P ys "fold deleteReference xs store"] by simp
  have "referencesBy (\<lambda>q. q = owner) (fold deleteReference v1 store) + length v1 = referencesBy (\<lambda>q. q = owner) store"
    using w1 by (intro referencesBy_delete [OF keys]) auto
  then show "int (referencesBy (\<lambda>q. q = owner) (fold deleteReference victims store)) + n \<le> maximumSourceReferencesPerOwner"
    using le [of "\<lambda>q. q = owner" v1 "w2 @ w3"] w1(1,3) w2(1) w3(1) unfolding ownerCountLocked_eq append.simps append_assoc by simp
  have "referencesBy (\<lambda>q. own_UserID q = own_UserID owner) (fold deleteReference v2 store) + length v2 =
      referencesBy (\<lambda>q. own_UserID q = own_UserID owner) store"
    using dist mem w3(1) by (intro referencesBy_delete [OF keys]) auto
  then show "int (referencesBy (\<lambda>q. own_UserID q = own_UserID owner) (fold deleteReference victims store)) + n \<le> maximumSourceReferencesPerUser"
    using le [of "\<lambda>q. own_UserID q = own_UserID owner" v2 w3] w2(1,4) w3(1) by (simp add: userCountLocked_eq)
  have "referencesBy (\<lambda>_. True) (fold deleteReference victims store) + length victims = referencesBy (\<lambda>_. True) store"
    using dist mem by (intro referencesBy_delete [OF keys]) auto
  then show "int (referencesBy (\<lambda>_. True) (fold deleteReference victims store)) + n \<le> maximumSourceReferences"
    using total by (simp add: entryCount_eq)
qed

section \<open>Insertion\<close>

lemma update_fresh: "k \<notin> fst ` set xs \<Longrightarrow> AList.update k v xs = xs @ [(k, v)]"
  by (induction xs) auto

lemma storeReference_entries:
  "ref_ID r \<notin> fst ` set (st_entries store) \<Longrightarrow>
     st_entries (storeReference pin r store) = st_entries store @ [(ref_ID r, cloneSourceReference r)]"
  by (simp add: storeReference_def Let_def update_fresh)

lemma fold_store_entries:
  "distinct (map ref_ID rs) \<Longrightarrow> ref_ID ` set rs \<inter> fst ` set (st_entries store) = {} \<Longrightarrow>
     st_entries (fold (storeReference pin) rs store) = st_entries store @ map (\<lambda>r. (ref_ID r, cloneSourceReference r)) rs"
  by (induction rs arbitrary: store) (simp_all add: storeReference_entries)

lemma storeReference_pins:
  "st_pins (storeReference pin r store) =
     (if pin then (st_pins store)(ref_ID r \<mapsto> pinCount store (ref_ID r) + 1) else st_pins store)"
  by (simp add: storeReference_def Let_def pinCount_def)

lemma fold_store_pins:
  assumes "\<forall>k n. st_pins store k = Some n \<longrightarrow> 1 \<le> n"
  shows "dom (st_pins (fold (storeReference pin) rs store)) \<subseteq> dom (st_pins store) \<union> ref_ID ` set rs \<and>
    (\<forall>k n. st_pins (fold (storeReference pin) rs store) k = Some n \<longrightarrow> 1 \<le> n) \<and>
    (\<forall>k. k \<notin> ref_ID ` set rs \<longrightarrow> st_pins (fold (storeReference pin) rs store) k = st_pins store k)"
  using assms
proof (induction rs arbitrary: store)
  case (Cons r rs)
  have nonneg: "0 \<le> pinCount store k" for k
    using Cons.prems order_trans [OF zero_le_one] by (cases "st_pins store k") (auto simp: pinCount_def)
  have "\<forall>k n. st_pins (storeReference pin r store) k = Some n \<longrightarrow> 1 \<le> n"
    using Cons.prems nonneg by (auto simp: storeReference_pins split: if_splits)
  from Cons.IH [OF this] show ?case
    by (auto simp: storeReference_pins split: if_splits)
qed simp

lemma newIdentifiers_props:
  "newIdentifiers gen n ids = Inr ids' \<Longrightarrow> distinct ids \<Longrightarrow> distinct ids' \<and> length ids' = length ids + n"
  by (induction gen n ids rule: newIdentifiers.induct) (auto split: sum.splits if_splits)

lemma stamp_fields [simp]:
  "ref_ID (stampReference caller profileID owner expiresAt k r) = k"
  "ref_Owner (stampReference caller profileID owner expiresAt k r) = owner"
  "ref_AuthSessionID (stampReference caller profileID owner expiresAt k r) = pr_SessionID caller"
  "ref_ProfileID (stampReference caller profileID owner expiresAt k r) = profileID"
  "ref_ExpiresAt (stampReference caller profileID owner expiresAt k r) = expiresAt"
  "ref_SelectionRevision (stampReference caller profileID owner expiresAt k r) = 1"
  "ref_TransportRevision (stampReference caller profileID owner expiresAt k r) = 1"
  by (simp_all add: stampReference_def)

lemma clone_fields [simp]:
  "ref_ID (cloneSourceReference r) = ref_ID r" "ref_Owner (cloneSourceReference r) = ref_Owner r"
  "ref_AuthSessionID (cloneSourceReference r) = ref_AuthSessionID r" "ref_ProfileID (cloneSourceReference r) = ref_ProfileID r"
  "ref_ExpiresAt (cloneSourceReference r) = ref_ExpiresAt r"
  "ref_SelectionRevision (cloneSourceReference r) = ref_SelectionRevision r"
  "ref_TransportRevision (cloneSourceReference r) = ref_TransportRevision r"
  "sourceReferenceOwnedBy (cloneSourceReference r) caller = sourceReferenceOwnedBy r caller"
  by (simp_all add: cloneSourceReference_def sourceReferenceOwnedBy_def split: option.split)

lemma clone_idem [simp]: "cloneSourceReference (cloneSourceReference r) = cloneSourceReference r"
  by (simp add: cloneSourceReference_def option.map_comp comp_def)

lemma putAllReserved_cases:
  obtains (unchanged) e where "putAllReserved gen clock caller rs pin store = (e, store)" "e = Inr [] \<and> rs = [] \<or> (\<exists>err. e = Inl err)"
  | (expired) err where "putAllReserved gen clock caller rs pin store = (Inl err, removeExpiredLocked (clock 0) store)"
  | (stored) profileID owner ids victims stored where "pr_ActiveProfileID caller = Some profileID"
      "owner = \<lparr>own_UserID = pr_UserID caller, own_ProfileID = profileID, own_DeviceID = pr_DeviceID caller\<rparr>"
      "distinct ids" "length ids = length rs" "\<forall>k \<in> set ids. lookupReference (removeExpiredLocked (clock 0) store) k = None"
      "chooseVictims (removeExpiredLocked (clock 0) store) owner (int (length rs)) = Inr victims"
      "stored = map2 (stampReference caller profileID owner (clock 1 + sourceReferenceTTL)) ids rs"
      "putAllReserved gen clock caller rs pin store =
        (Inr stored, fold (storeReference pin) stored (fold deleteReference victims (removeExpiredLocked (clock 0) store)))"
proof (cases "rs = [] \<or> pr_ActiveProfileID caller = None \<or> int (length rs) > maximumSourceReferencesPerOwner")
  case True
  then have "\<exists>e. putAllReserved gen clock caller rs pin store = (e, store) \<and> (e = Inr [] \<and> rs = [] \<or> (\<exists>err. e = Inl err))"
    by (cases "pr_ActiveProfileID caller") (auto simp: putAllReserved_def)
  with unchanged show thesis by blast
next
  case False
  then obtain profileID where profile: "pr_ActiveProfileID caller = Some profileID" "rs \<noteq> []" "\<not> int (length rs) > maximumSourceReferencesPerOwner"
    by auto
  let ?owner = "\<lparr>own_UserID = pr_UserID caller, own_ProfileID = profileID, own_DeviceID = pr_DeviceID caller\<rparr>"
  let ?store1 = "removeExpiredLocked (clock 0) store"
  show thesis
  proof (cases "newIdentifiers gen (length rs) []")
    case (Inl e)
    with profile unchanged show thesis by (simp add: putAllReserved_def)
  next
    case (Inr ids)
    note ids = newIdentifiers_props [OF Inr]
    show thesis
    proof (cases "list_ex (\<lambda>k. lookupReference ?store1 k \<noteq> None) ids")
      case True
      with profile Inr expired show thesis by (simp add: putAllReserved_def)
    next
      case False
      show thesis
      proof (cases "chooseVictims ?store1 ?owner (int (length rs))")
        case (Inl e)
        with False profile Inr expired show thesis by (simp add: putAllReserved_def)
      next
        case victims: (Inr victims)
        let ?stored = "map2 (stampReference caller profileID ?owner (clock 1 + sourceReferenceTTL)) ids rs"
        have "putAllReserved gen clock caller rs pin store =
            (Inr ?stored, fold (storeReference pin) ?stored (fold deleteReference victims ?store1))"
          using False profile Inr victims by (simp add: putAllReserved_def Let_def)
        from stored [OF profile(1) refl _ _ _ victims refl this] ids False show thesis
          by (simp add: list_ex_iff)
      qed
    qed
  qed
qed

lemma stored_ids: "length ids = length rs \<Longrightarrow> map ref_ID (map2 (stampReference caller p owner e) ids rs) = ids"
  by (induction ids rs rule: list_induct2) simp_all

lemma stored_owner: "r \<in> set (map2 (stampReference caller p owner e) ids rs) \<Longrightarrow> ref_Owner r = owner"
  by (auto simp: set_zip)

lemma referencesBy_append:
  "st_entries store' = st_entries store @ map (\<lambda>r. (ref_ID r, cloneSourceReference r)) rs \<Longrightarrow> \<forall>r \<in> set rs. ref_Owner r = owner \<Longrightarrow>
     referencesBy P store' = referencesBy P store + (if P owner then length rs else 0)"
proof -
  assume e: "st_entries store' = st_entries store @ map (\<lambda>r. (ref_ID r, cloneSourceReference r)) rs"
    and o: "\<forall>r \<in> set rs. ref_Owner r = owner"
  from o have "filter (\<lambda>r. P (ref_Owner r)) rs = (if P owner then rs else [])"
    by (induction rs) auto
  then show ?thesis
    by (simp add: referencesBy_def e filter_map comp_def)
qed

lemma putAllReserved_ok:
  assumes ok: "storeOk store"
  shows "storeOk (snd (putAllReserved gen clock caller rs pin store))"
proof (cases rule: putAllReserved_cases [of gen clock caller rs pin store])
  case (stored profileID owner ids victims stored)
  let ?s1 = "removeExpiredLocked (clock 0) store"
  let ?s2 = "fold deleteReference victims ?s1"
  let ?s3 = "fold (storeReference pin) stored ?s2"
  have ok1: "storeOk ?s1" using ok by simp
  note v = chooseVictims_props [OF stored(6) ok1]
  have ok2: "storeOk ?s2" using ok1 by (rule fold_delete_ok)
  have ids: "map ref_ID stored = ids"
    using stored by (simp only: stored_ids)
  then have idset: "ref_ID ` set stored = set ids"
    by (metis list.set_map)
  have "set ids \<inter> fst ` set (st_entries ?s1) = {}"
    using stored(5) by (auto simp: lookupReference_def map_of_eq_None_iff)
  then have fresh: "ref_ID ` set stored \<inter> fst ` set (st_entries ?s2) = {}"
    unfolding idset by (auto simp: fold_delete_entries)
  have entries: "st_entries ?s3 = st_entries ?s2 @ map (\<lambda>r. (ref_ID r, cloneSourceReference r)) stored"
    using ids stored(3) fresh by (intro fold_store_entries) simp_all
  have owner: "\<forall>r \<in> set stored. ref_Owner r = owner" and len: "length stored = length rs"
    using stored by (auto dest: stored_owner)
  note counts = referencesBy_append [OF entries owner]
  have pins: "dom (st_pins ?s3) \<subseteq> dom (st_pins ?s2) \<union> ref_ID ` set stored" "\<forall>k n. st_pins ?s3 k = Some n \<longrightarrow> 1 \<le> n"
    using fold_store_pins [of ?s2 pin stored] ok2 by (auto simp: storeOk_def)
  have "storeOk ?s3"
    unfolding storeOk_def
  proof (intro conjI allI)
    show "distinct (map fst (st_entries ?s3))"
      using ok2 fresh idset ids stored(3) by (simp add: entries storeOk_def comp_def inf_commute)
    show "list_all (\<lambda>(k, r). ref_ID r = k) (st_entries ?s3)"
      using ok2 by (auto simp: entries storeOk_def list_all_iff)
    show "dom (st_pins ?s3) \<subseteq> fst ` set (st_entries ?s3)"
    proof -
      have "dom (st_pins ?s2) \<subseteq> fst ` set (st_entries ?s2)"
        using ok2 by (simp add: storeOk_def)
      moreover have "fst ` set (st_entries ?s3) = fst ` set (st_entries ?s2) \<union> ref_ID ` set stored"
        by (simp add: entries image_Un image_image)
      ultimately show ?thesis
        using order_trans [OF pins(1) Un_mono [OF _ order_refl]] by simp
    qed
    show "\<And>k n. st_pins ?s3 k = Some n \<longrightarrow> 1 \<le> n"
      using pins(2) by blast
    show "int (referencesBy (\<lambda>_. True) ?s3) \<le> maximumSourceReferences"
      using v(5) by (simp add: counts len)
    show "int (referencesBy (\<lambda>o'. own_UserID o' = u) ?s3) \<le> maximumSourceReferencesPerUser" for u
      using v(4) ok2 by (auto simp: counts len storeOk_def)
    show "int (referencesBy (\<lambda>q. q = o') ?s3) \<le> maximumSourceReferencesPerOwner" for o'
      using v(3) ok2 by (auto simp: counts len storeOk_def)
  qed
  with stored show ?thesis by simp
qed (use ok in simp_all)

section \<open>Replacing, and every reachable store\<close>

lemma update_same_key:
  "map_of xs k = Some v \<Longrightarrow> f v' = f v \<Longrightarrow>
     map (\<lambda>e. f (snd e)) (AList.update k v' xs) = map (\<lambda>e. f (snd e)) xs \<and> map fst (AList.update k v' xs) = map fst xs"
  by (induction xs) auto

lemma list_all_update: "list_all Q xs \<Longrightarrow> Q (k, v) \<Longrightarrow> list_all Q (AList.update k v xs)"
  by (induction xs) auto

lemma referencesBy_owners: "referencesBy P store = length (filter P (map (\<lambda>e. ref_Owner (snd e)) (st_entries store)))"
  by (simp add: referencesBy_def filter_map comp_def)

lemma update_entry_ok:
  assumes ok: "storeOk store" and old: "lookupReference store k = Some r" and same: "ref_Owner r' = ref_Owner r" "ref_ID r' = ref_ID r"
  shows "storeOk (store\<lparr>st_entries := AList.update k r' (st_entries store)\<rparr>)"
proof -
  note upd = update_same_key [OF old [unfolded lookupReference_def], of _ r']
  have keys: "fst ` set (AList.update k r' (st_entries store)) = fst ` set (st_entries store)"
    using upd [of ref_Owner] same by (metis list.set_map)
  have "ref_ID r = k"
    using ok lookup_mem [OF old] by (auto simp: storeOk_def list_all_iff)
  then have "list_all (\<lambda>(k, r). ref_ID r = k) (AList.update k r' (st_entries store))"
    using ok same(2) by (simp add: storeOk_def list_all_update)
  with ok upd [of ref_Owner] same(1) keys show ?thesis
    by (simp add: storeOk_def referencesBy_owners)
qed

lemma liveReference_Some:
  "liveReference clock k caller store = Some r \<longleftrightarrow>
     lookupReference store k = Some r \<and> sourceReferenceOwnedBy r caller \<and> clock 1 < ref_ExpiresAt r"
  by (auto simp: liveReference_def split: option.splits)

lemma getReference_store: "snd (getReference clock k caller store) = removeExpiredLocked (clock 0) store"
  by (simp add: getReference_def Let_def split: option.split)

lemma replaceSelection_ok [intro]:
  assumes "storeOk store"
  shows "storeOk (snd (replaceSelection clock k caller revision source asset store))"
proof (cases "liveReference clock k caller (removeExpiredLocked (clock 0) store)")
  case (Some r)
  then have "storeOk ((removeExpiredLocked (clock 0) store)\<lparr>st_entries := AList.update k r' (st_entries (removeExpiredLocked (clock 0) store))\<rparr>)"
    if "ref_Owner r' = ref_Owner r" "ref_ID r' = ref_ID r" for r'
    using that assms by (intro update_entry_ok [of _ k r]) (simp_all add: liveReference_Some)
  with Some assms show ?thesis
    by (simp add: replaceSelection_def Let_def)
qed (use assms in \<open>simp add: replaceSelection_def\<close>)

lemma expireSelection_ok [intro]: "storeOk store \<Longrightarrow> storeOk (snd (expireSelection clock k caller revision store))"
  by (auto simp: expireSelection_def Let_def split: option.split)

inductive store_step :: "sourceReferenceStore \<Rightarrow> sourceReferenceStore \<Rightarrow> bool" where
  put: "store_step store (snd (putAllReserved gen clock caller rs pin store))"
| get: "store_step store (snd (getReference clock k caller store))"
| replace: "store_step store (snd (replaceSelection clock k caller revision source asset store))"
| expire: "store_step store (snd (expireSelection clock k caller revision store))"
| pin: "store_step store (snd (pinReferences now caller ks store))"
| unpin: "store_step store (unpinReferences clock caller ks store)"
| clear: "store_step store (clearStore store)"

interpretation reference_store: transition_system "\<lambda>s. s = newSourceReferenceStore" store_step storeOk
proof
  fix s assume "s = newSourceReferenceStore"
  then show "storeOk s"
    by (simp add: newSourceReferenceStore_def storeOk_def referencesBy_def maximumSourceReferences_def
        maximumSourceReferencesPerUser_def maximumSourceReferencesPerOwner_def)
next
  fix s t assume ok: "storeOk s" and "store_step s t"
  from this(2) show "storeOk t"
  proof cases
    case clear
    with ok show ?thesis
      by (simp add: clearStore_def storeOk_def referencesBy_def maximumSourceReferences_def
          maximumSourceReferencesPerUser_def maximumSourceReferencesPerOwner_def)
  qed (use ok in \<open>auto simp: getReference_store putAllReserved_ok\<close>)
qed

section \<open>Properties\<close>

lemma lookup_removeExpired:
  assumes "distinct (map fst (st_entries store))"
  shows "lookupReference (removeExpiredLocked now store) k =
    (case lookupReference store k of None \<Rightarrow> None
     | Some r \<Rightarrow> if pinCount store k = 0 \<and> \<not> now < ref_ExpiresAt r then None else Some r)"
proof -
  have "distinct (map fst xs) \<Longrightarrow> map_of (filter (\<lambda>e. P (fst e) (snd e)) xs) k =
      (case map_of xs k of None \<Rightarrow> None | Some r \<Rightarrow> if P k r then Some r else None)" for P and xs :: "(string \<times> sourceReference) list"
    by (induction xs) (auto split: option.splits simp: map_of_eq_None_iff)
  from this [OF assms, of "\<lambda>k r. \<not> (pinCount store k = 0 \<and> \<not> now < ref_ExpiresAt r)"] show ?thesis
    by (auto simp: lookupReference_def removeExpired_entries split: option.splits)
qed

lemma map_of_filter_key: "k \<notin> set ks \<Longrightarrow> map_of (filter (\<lambda>e. fst e \<notin> set ks) xs) k = map_of xs k"
  by (induction xs) auto

lemma putAllReserved_stored:
  assumes "putAllReserved gen clock caller rs pin store = (Inr stored, store')" "rs \<noteq> []" "storeOk store"
  obtains profileID owner victims where "pr_ActiveProfileID caller = Some profileID"
    "owner = \<lparr>own_UserID = pr_UserID caller, own_ProfileID = profileID, own_DeviceID = pr_DeviceID caller\<rparr>"
    "distinct (map ref_ID stored)" "length stored = length rs"
    "\<forall>r \<in> set stored. ref_AuthSessionID r = pr_SessionID caller \<and> ref_ProfileID r = profileID \<and> ref_Owner r = owner \<and>
      ref_ExpiresAt r = clock 1 + sourceReferenceTTL \<and> lookupReference (removeExpiredLocked (clock 0) store) (ref_ID r) = None"
    "chooseVictims (removeExpiredLocked (clock 0) store) owner (int (length rs)) = Inr victims"
    "st_entries store' = filter (\<lambda>e. fst e \<notin> set victims) (st_entries (removeExpiredLocked (clock 0) store)) @
      map (\<lambda>r. (ref_ID r, cloneSourceReference r)) stored"
proof (cases rule: putAllReserved_cases [of gen clock caller rs pin store])
  case (stored profileID owner ids victims stored')
  let ?s1 = "removeExpiredLocked (clock 0) store"
  have eq: "stored' = stored" "store' = fold (storeReference pin) stored (fold deleteReference victims ?s1)"
    using stored assms(1) by simp_all
  have ids: "map ref_ID stored = ids"
    using stored eq by (simp only: stored_ids)
  then have idset: "ref_ID ` set stored = set ids"
    by (metis list.set_map)
  have "set ids \<inter> fst ` set (st_entries ?s1) = {}"
    using stored(5) by (auto simp: lookupReference_def map_of_eq_None_iff)
  then have fresh: "ref_ID ` set stored \<inter> fst ` set (st_entries (fold deleteReference victims ?s1)) = {}"
    unfolding idset by (auto simp: fold_delete_entries)
  have fields: "ref_AuthSessionID r = pr_SessionID caller \<and> ref_ProfileID r = profileID \<and> ref_Owner r = owner \<and>
      ref_ExpiresAt r = clock 1 + sourceReferenceTTL" if "r \<in> set stored" for r
    using that stored(7) eq by (auto simp: set_zip)
  have none: "lookupReference ?s1 (ref_ID r) = None" if "r \<in> set stored" for r
    using that stored(5) idset by blast
  show thesis
  proof (rule that [OF stored(1,2) _ _ _ stored(6)])
    show "distinct (map ref_ID stored)" using ids stored(3) by simp
    show "length stored = length rs" using ids stored(4) by (metis length_map)
    show "\<forall>r \<in> set stored. ref_AuthSessionID r = pr_SessionID caller \<and> ref_ProfileID r = profileID \<and> ref_Owner r = owner \<and>
      ref_ExpiresAt r = clock 1 + sourceReferenceTTL \<and> lookupReference ?s1 (ref_ID r) = None"
      using fields none by simp
    show "st_entries store' = filter (\<lambda>e. fst e \<notin> set victims) (st_entries ?s1) @ map (\<lambda>r. (ref_ID r, cloneSourceReference r)) stored"
      using fold_store_entries [OF _ fresh] ids stored(3) by (simp add: eq fold_delete_entries)
  qed
qed (use assms in auto)

text \<open>
  C5. The capacities hold in every store the methods can reach: at most 4096 references in all, 2048
  per user and 512 per owner (user, profile and device), whatever the interleaving of calls, clock
  readings and generated identifiers, and pins exist for stored references only.
\<close>

theorem source_store_capacities:
  assumes "store_step\<^sup>*\<^sup>* newSourceReferenceStore store"
  shows "length (st_entries store) \<le> 4096 \<and> userCountLocked userID store \<le> 2048 \<and> ownerCountLocked owner store \<le> 512 \<and>
    distinct (map fst (st_entries store)) \<and> dom (st_pins store) \<subseteq> fst ` set (st_entries store)"
  using reference_store.inv_reachable [OF refl assms]
  by (simp add: storeOk_def reference_counts maximumSourceReferences_def maximumSourceReferencesPerUser_def
      maximumSourceReferencesPerOwner_def)

text \<open>
  C6. A pinned reference survives: adding references, at whatever time and for whatever caller,
  neither expires nor evicts nor changes a reference that is pinned.
\<close>

theorem put_keeps_pinned:
  assumes ok: "storeOk store" and pinned: "0 < pinCount store k" and r: "lookupReference store k = Some r"
  shows "lookupReference (snd (putAllReserved gen clock caller rs pin store)) k = Some r"
proof -
  let ?s1 = "removeExpiredLocked (clock 0) store"
  have keys: "distinct (map fst (st_entries store))"
    using ok by (simp add: storeOk_def)
  have kept: "lookupReference ?s1 k = Some r"
    using pinned r by (simp add: lookup_removeExpired [OF keys])
  show ?thesis
  proof (cases "fst (putAllReserved gen clock caller rs pin store)")
    case (Inl e)
    with kept r show ?thesis
      by (cases rule: putAllReserved_cases [of gen clock caller rs pin store]) auto
  next
    case (Inr stored)
    show ?thesis
    proof (cases "rs = []")
      case True
      with r show ?thesis by (simp add: putAllReserved_def)
    next
      case False
      from Inr obtain store' where put: "putAllReserved gen clock caller rs pin store = (Inr stored, store')"
        by (metis prod.collapse)
      show ?thesis
      proof (rule putAllReserved_stored [OF put False ok])
        fix profileID owner victims
        assume chosen: "chooseVictims ?s1 owner (int (length rs)) = Inr victims"
          and fields: "\<forall>r \<in> set stored. ref_AuthSessionID r = pr_SessionID caller \<and> ref_ProfileID r = profileID \<and> ref_Owner r = owner \<and>
            ref_ExpiresAt r = clock 1 + sourceReferenceTTL \<and> lookupReference ?s1 (ref_ID r) = None"
          and entries: "st_entries store' = filter (\<lambda>e. fst e \<notin> set victims) (st_entries ?s1) @
            map (\<lambda>r. (ref_ID r, cloneSourceReference r)) stored"
        have "k \<notin> set victims"
          using chooseVictims_props(2) [OF chosen] ok pinned by (auto simp: pinCount_def removeExpired_entries)
        moreover have "map_of (map (\<lambda>r. (ref_ID r, cloneSourceReference r)) stored) k = None"
          using fields kept by (auto simp: map_of_eq_None_iff)
        ultimately show ?thesis
          using kept by (simp add: put lookupReference_def entries map_add_def map_of_filter_key)
      qed
    qed
  qed
qed

lemma map_of_stored:
  "distinct (map ref_ID rs) \<Longrightarrow> i < length rs \<Longrightarrow> map_of (map (\<lambda>r. (ref_ID r, f r)) rs) (ref_ID (rs ! i)) = Some (f (rs ! i))"
  by (rule map_of_is_SomeI) (auto simp: comp_def)

lemma putAllReserved_lookup:
  assumes ok: "storeOk store" and put: "putAllReserved gen clock caller rs pin store = (Inr stored, store')"
    and i: "i < length stored"
  shows "lookupReference store' (ref_ID (stored ! i)) = Some (cloneSourceReference (stored ! i))"
    and "pr_ActiveProfileID caller \<noteq> None"
    and "sourceReferenceOwnedBy (stored ! i) caller' \<longleftrightarrow>
      pr_SessionID caller' = pr_SessionID caller \<and> pr_UserID caller' = pr_UserID caller \<and>
      pr_DeviceID caller' = pr_DeviceID caller \<and> pr_ActiveProfileID caller' = pr_ActiveProfileID caller"
    and "ref_ExpiresAt (stored ! i) = clock 1 + sourceReferenceTTL"
proof -
  let ?r = "stored ! i" and ?s1 = "removeExpiredLocked (clock 0) store"
  have "rs \<noteq> []" using put i by (auto simp: putAllReserved_def)
  then obtain profileID owner victims where profile: "pr_ActiveProfileID caller = Some profileID"
    and owner: "owner = \<lparr>own_UserID = pr_UserID caller, own_ProfileID = profileID, own_DeviceID = pr_DeviceID caller\<rparr>"
    and dist: "distinct (map ref_ID stored)"
    and fields: "\<forall>r \<in> set stored. ref_AuthSessionID r = pr_SessionID caller \<and> ref_ProfileID r = profileID \<and> ref_Owner r = owner \<and>
          ref_ExpiresAt r = clock 1 + sourceReferenceTTL \<and> lookupReference ?s1 (ref_ID r) = None"
    and entries: "st_entries store' = filter (\<lambda>e. fst e \<notin> set victims) (st_entries ?s1) @
          map (\<lambda>r. (ref_ID r, cloneSourceReference r)) stored"
    by (rule putAllReserved_stored [OF put _ ok])
  have mem: "?r \<in> set stored" using i by simp
  have "map_of (filter (\<lambda>e. fst e \<notin> set victims) (st_entries ?s1)) (ref_ID ?r) = None"
    using fields mem by (auto simp: lookupReference_def map_of_eq_None_iff)
  then show "lookupReference store' (ref_ID ?r) = Some (cloneSourceReference ?r)"
    using map_of_stored [OF dist i, of cloneSourceReference]
    by (simp add: lookupReference_def entries map_add_def split: option.split)
  show "pr_ActiveProfileID caller \<noteq> None" by (simp add: profile)
  show "sourceReferenceOwnedBy ?r caller' \<longleftrightarrow>
      pr_SessionID caller' = pr_SessionID caller \<and> pr_UserID caller' = pr_UserID caller \<and>
      pr_DeviceID caller' = pr_DeviceID caller \<and> pr_ActiveProfileID caller' = pr_ActiveProfileID caller"
    using fields mem profile owner by (auto simp: sourceReferenceOwnedBy_def split: option.splits)
  show "ref_ExpiresAt ?r = clock 1 + sourceReferenceTTL" using fields mem by simp
qed

text \<open>
  A call before the reference \<open>r\<close> of \<open>k\<close> expires that spares it: one that reads, pins or unpins references,
  one that replaces or withdraws another reference, or this one for another principal or from a stale revision,
  and one that adds references without choosing it as a victim for the capacities.
\<close>

definition victimsOf :: "int \<Rightarrow> Principal \<Rightarrow> nat \<Rightarrow> sourceReferenceStore \<Rightarrow> string list" where
  "victimsOf now caller n store =
     (case pr_ActiveProfileID caller of None \<Rightarrow> []
      | Some profileID \<Rightarrow>
          (case chooseVictims (removeExpiredLocked now store)
              \<lparr>own_UserID = pr_UserID caller, own_ProfileID = profileID, own_DeviceID = pr_DeviceID caller\<rparr> (int n) of
             Inl err \<Rightarrow> [] | Inr victims \<Rightarrow> victims))"

inductive spares :: "string \<Rightarrow> sourceReference \<Rightarrow> sourceReferenceStore \<Rightarrow> sourceReferenceStore \<Rightarrow> bool" for k r where
  puts: "clock 0 < ref_ExpiresAt r \<Longrightarrow> k \<notin> set (victimsOf (clock 0) caller (length rs) store) \<Longrightarrow>
    spares k r store (snd (putAllReserved gen clock caller rs pin store))"
| gets: "clock 0 < ref_ExpiresAt r \<Longrightarrow> spares k r store (snd (getReference clock k' caller store))"
| replaces: "clock 0 < ref_ExpiresAt r \<Longrightarrow> k' \<noteq> k \<or> \<not> sourceReferenceOwnedBy r caller \<or> revision \<noteq> ref_SelectionRevision r \<Longrightarrow>
    spares k r store (snd (replaceSelection clock k' caller revision source asset store))"
| withdraws: "clock 0 < ref_ExpiresAt r \<Longrightarrow> k' \<noteq> k \<or> \<not> sourceReferenceOwnedBy r caller \<or> revision \<noteq> ref_SelectionRevision r \<Longrightarrow>
    spares k r store (snd (expireSelection clock k' caller revision store))"
| pins: "now < ref_ExpiresAt r \<Longrightarrow> spares k r store (snd (pinReferences now caller ks store))"
| unpins: "(\<And>n. clock n < ref_ExpiresAt r) \<Longrightarrow> spares k r store (unpinReferences clock caller ks store)"

lemma victimsOf_room:
  assumes "pr_ActiveProfileID caller = Some profileID"
    "owner = \<lparr>own_UserID = pr_UserID caller, own_ProfileID = profileID, own_DeviceID = pr_DeviceID caller\<rparr>"
    "ownerCountLocked owner (removeExpiredLocked now store) + int n \<le> 512"
    "userCountLocked (pr_UserID caller) (removeExpiredLocked now store) + int n \<le> 2048"
    "int (length (st_entries (removeExpiredLocked now store))) + int n \<le> 4096"
  shows "victimsOf now caller n store = []"
  using assms
  by (simp add: victimsOf_def chooseVictims_def selectOwnerVictimsLocked_def selectUserVictimsLocked_def selectVictimsLocked_def
      maximumSourceReferencesPerOwner_def maximumSourceReferencesPerUser_def maximumSourceReferences_def)

lemma lookup_live:
  assumes "storeOk store" "lookupReference store k = Some r" "now < ref_ExpiresAt r"
  shows "lookupReference (removeExpiredLocked now store) k = Some r"
  using assms by (simp add: storeOk_def lookup_removeExpired)

lemma lookup_delete: "k' \<noteq> k \<Longrightarrow> lookupReference (deleteReference k' store) k = lookupReference store k"
  by (simp add: lookupReference_def deleteReference_def delete_conv')

lemma lookup_unpinLoop:
  "lookupReference store k = Some r \<Longrightarrow> (\<And>n. clock n < ref_ExpiresAt r) \<Longrightarrow>
     lookupReference (unpinLoop caller clock n unique ks store) k = Some r"
proof (induction ks arbitrary: n unique store)
  case (Cons k' ks)
  have "lookupReference (unpinOne caller (clock n) k' store) k = Some r"
    using Cons.prems by (auto simp: unpinOne_def Let_def lookupReference_def delete_conv' split: option.split)
  with Cons show ?case by simp
qed simp

lemma lookup_pins: "lookupReference (fold pinOne ks store) k = lookupReference store k"
  by (induction ks arbitrary: store) (simp_all add: pinOne_def lookupReference_def)

lemma lookup_put:
  assumes ok: "storeOk store" and r: "lookupReference store k = Some r" "clock 0 < ref_ExpiresAt r"
    and victims: "k \<notin> set (victimsOf (clock 0) caller (length rs) store)"
  shows "lookupReference (snd (putAllReserved gen clock caller rs pin store)) k = Some r"
proof -
  note kept = lookup_live [OF ok r]
  show ?thesis
  proof (cases "fst (putAllReserved gen clock caller rs pin store)")
    case (Inl e)
    with kept r show ?thesis
      by (cases rule: putAllReserved_cases [of gen clock caller rs pin store]) auto
  next
    case (Inr stored)
    then obtain store' where put: "putAllReserved gen clock caller rs pin store = (Inr stored, store')"
      by (metis prod.collapse)
    show ?thesis
    proof (cases "rs = []")
      case True
      with r show ?thesis by (simp add: putAllReserved_def)
    next
      case False
      show ?thesis
      proof (rule putAllReserved_stored [OF put False ok])
        fix profileID owner chosen
        assume profile: "pr_ActiveProfileID caller = Some profileID"
          and owner: "owner = \<lparr>own_UserID = pr_UserID caller, own_ProfileID = profileID, own_DeviceID = pr_DeviceID caller\<rparr>"
          and chosen: "chooseVictims (removeExpiredLocked (clock 0) store) owner (int (length rs)) = Inr chosen"
          and fields: "\<forall>r \<in> set stored. ref_AuthSessionID r = pr_SessionID caller \<and> ref_ProfileID r = profileID \<and> ref_Owner r = owner \<and>
            ref_ExpiresAt r = clock 1 + sourceReferenceTTL \<and> lookupReference (removeExpiredLocked (clock 0) store) (ref_ID r) = None"
          and entries: "st_entries store' = filter (\<lambda>e. fst e \<notin> set chosen) (st_entries (removeExpiredLocked (clock 0) store)) @
            map (\<lambda>r. (ref_ID r, cloneSourceReference r)) stored"
        have "k \<notin> set chosen" using victims profile owner chosen by (simp add: victimsOf_def)
        moreover have "map_of (map (\<lambda>r. (ref_ID r, cloneSourceReference r)) stored) k = None"
          using fields kept by (auto simp: map_of_eq_None_iff)
        ultimately show ?thesis
          using kept by (simp add: put lookupReference_def entries map_add_def map_of_filter_key)
      qed
    qed
  qed
qed

lemma spares_keeps:
  assumes "spares k r store store'" "storeOk store" "lookupReference store k = Some r"
  shows "storeOk store' \<and> lookupReference store' k = Some r"
  using assms(1)
proof cases
  case puts
  with assms(2,3) show ?thesis by (simp add: putAllReserved_ok lookup_put)
next
  case (gets clock k' caller)
  with assms(2,3) lookup_live show ?thesis by (simp add: getReference_store removeExpired_ok)
next
  case (replaces clock k' caller revision source asset)
  with assms(2,3) lookup_live [OF assms(2,3) replaces(2)] show ?thesis
    by (auto simp: replaceSelection_ok) (auto simp: replaceSelection_def liveReference_def Let_def lookupReference_def update_conv' split: option.split)
next
  case (withdraws clock k' caller revision)
  with assms(2,3) lookup_live [OF assms(2,3) withdraws(2)] show ?thesis
    by (cases "k' = k") (auto simp: expireSelection_ok, auto simp: expireSelection_def liveReference_def Let_def lookup_delete split: option.split)
next
  case (pins now caller ks)
  with assms(2,3) lookup_live [OF assms(2,3) pins(2)] show ?thesis
    by (auto simp: pinReferences_ok) (auto simp: pinReferences_def Let_def lookup_pins)
next
  case (unpins clock caller ks)
  with assms(2,3) show ?thesis
    by (auto simp: unpinReferences_ok) (auto simp: unpinReferences_def lookup_unpinLoop)
qed

lemma spares_run:
  assumes "(spares k r)\<^sup>*\<^sup>* store store'" "storeOk store" "lookupReference store k = Some r"
  shows "storeOk store' \<and> lookupReference store' k = Some r"
  using assms by induction (use spares_keeps in blast)+

text \<open>
  C7. What is stored is found again, by its owner only: after a successful call and any number of further
  calls before the expiry that spare the reference, every returned reference is read under its identifier until it
  expires four hours later, as a copy of itself, by the same session, user, profile and device; every other
  caller, and everyone after the expiry, gets \<open>ErrSourceReferenceExpired\<close>. Only the calls that \<open>spares\<close> leaves
  out take it away earlier: an eviction for the capacities, a replacement or withdrawal by its owner, and a clear.
\<close>

theorem put_then_get:
  assumes ok: "storeOk store" and put: "putAllReserved gen clock caller rs pin store = (Inr stored, store')"
    and i: "i < length stored" and later: "(spares (ref_ID (stored ! i)) (cloneSourceReference (stored ! i)))\<^sup>*\<^sup>* store' final"
    and time: "clock' 0 \<le> clock' 1"
  shows "fst (getReference clock' (ref_ID (stored ! i)) caller' final) =
    (if clock' 1 < clock 1 + sourceReferenceTTL \<and>
        pr_SessionID caller' = pr_SessionID caller \<and> pr_UserID caller' = pr_UserID caller \<and>
        pr_DeviceID caller' = pr_DeviceID caller \<and> pr_ActiveProfileID caller' = pr_ActiveProfileID caller
     then Inr (cloneSourceReference (stored ! i)) else Inl ErrSourceReferenceExpired)"
proof -
  let ?r = "cloneSourceReference (stored ! i)"
  note stored = putAllReserved_lookup [OF ok put i]
  have "storeOk store'" using putAllReserved_ok [OF ok, of gen clock caller rs pin] put by simp
  from spares_run [OF later this stored(1)] have final: "storeOk final" "lookupReference final (ref_ID (stored ! i)) = Some ?r" by simp_all
  have fields: "ref_ExpiresAt ?r = clock 1 + sourceReferenceTTL" "sourceReferenceOwnedBy ?r caller' = sourceReferenceOwnedBy (stored ! i) caller'"
    "cloneSourceReference ?r = ?r"
    using stored(4) by simp_all
  have found: "lookupReference (removeExpiredLocked (clock' 0) final) (ref_ID (stored ! i)) \<in> {None, Some ?r}"
    using final by (simp add: storeOk_def lookup_removeExpired)
  show ?thesis
  proof (cases "clock' 1 < clock 1 + sourceReferenceTTL")
    case True
    then have "lookupReference (removeExpiredLocked (clock' 0) final) (ref_ID (stored ! i)) = Some ?r"
      using lookup_live [OF final, of "clock' 0"] time fields(1) by simp
    with True fields stored(3) [of caller'] show ?thesis by (simp add: getReference_def liveReference_def)
  next
    case False
    with found fields show ?thesis by (auto simp: getReference_def liveReference_def)
  qed
qed

lemma word_plus_one: "(w :: 64 word) \<noteq> - 1 \<Longrightarrow> unat (w + 1) = unat w + 1"
  by (metis Suc_eq_plus1 add.commute max_word_wrap unatSuc word_order.extremum_uniqueI)

lemma lookup_update: "map_of (AList.update k v xs) k = Some v"
  by (simp add: update_conv')

text \<open>
  Replacing a selection is a compare-and-swap: it succeeds only from the revision the caller names
  and then stores and returns the same reference, whose selection revision is exactly one larger and
  whose transport revision is one larger exactly when the transport changed (neither wraps around); a
  second replacement from the same revision is refused and leaves the stored reference as it is.
\<close>

theorem replaceSelection_compare_and_swap:
  assumes ok: "storeOk store"
    and replaced: "replaceSelection clock k caller expected source asset store = (Inr (r, True), store')"
    and later: "replaceSelection clock' k caller expected source' asset' store' = (result, store'')"
  shows "\<exists>old. lookupReference store k = Some old \<and> ref_SelectionRevision old = expected \<and>
      sourceReferenceOwnedBy old caller \<and> lookupReference store' k = Some r \<and>
      unat (ref_SelectionRevision r) = unat expected + 1 \<and>
      unat (ref_TransportRevision r) = unat (ref_TransportRevision old) +
        (if sourceTransportChanged (ref_Source old) (ref_Asset old) source asset then 1 else 0) \<and>
      (result = Inl ErrSourceReferenceExpired \<or> result = Inr (r, False)) \<and>
      lookupReference store'' k \<in> {None, Some r}"
proof -
  let ?s1 = "removeExpiredLocked (clock 0) store"
  have keys: "distinct (map fst (st_entries store))"
    using ok by (simp add: storeOk_def)
  from replaced obtain old where live: "liveReference clock k caller ?s1 = Some old"
    by (cases "liveReference clock k caller ?s1") (auto simp: replaceSelection_def Let_def)
  then have old: "lookupReference store k = Some old" "sourceReferenceOwnedBy old caller"
    by (auto simp: liveReference_Some lookup_removeExpired [OF keys] split: option.splits if_splits)
  let ?changed = "sourceTransportChanged (ref_Source old) (ref_Asset old) source asset"
  from replaced live have rev: "ref_SelectionRevision old = expected" "expected \<noteq> - 1" "?changed \<Longrightarrow> ref_TransportRevision old \<noteq> - 1"
      and fields: "ref_SelectionRevision r = expected + 1"
        "ref_TransportRevision r = ref_TransportRevision old + (if ?changed then 1 else 0)" "cloneSourceReference r = r"
      and store': "store' = ?s1\<lparr>st_entries := AList.update k r (st_entries ?s1)\<rparr>"
    by (auto simp: replaceSelection_def Let_def split: if_splits)
  have found: "lookupReference store' k = Some r"
    by (simp add: store' lookupReference_def lookup_update)
  have "storeOk store'"
    using replaceSelection_ok [OF ok, of clock k caller expected source asset] replaced by simp
  then have keys': "distinct (map fst (st_entries store'))"
    by (simp add: storeOk_def)
  have "expected + 1 \<noteq> expected"
    by simp
  then have "(result = Inl ErrSourceReferenceExpired \<or> result = Inr (r, False)) \<and> store'' = removeExpiredLocked (clock' 0) store'"
    using later found fields
    by (cases "liveReference clock' k caller (removeExpiredLocked (clock' 0) store')")
      (auto simp: replaceSelection_def Let_def liveReference_Some lookup_removeExpired [OF keys'] split: if_splits)
  with old rev fields found show ?thesis
    using word_plus_one by (auto simp: lookup_removeExpired [OF keys'])
qed

text \<open>The order of expirations as an order of pairs, and that sorting by it forgets the order of the input.\<close>

lemma expirationLess_pair: "expirationLess a b \<longleftrightarrow> (snd a, fst a) < (snd b, fst b)"
  by (auto simp: expirationLess_def)

lemma expirations_sorted:
  assumes "distinct (map fst xs)"
  shows "sorted_wrt (<) (map (\<lambda>a. (snd a, fst a)) (SliceStable expirationLess xs))"
proof -
  let ?ys = "map (\<lambda>a. (snd a, fst a)) (SliceStable expirationLess xs)"
  have "sorted ?ys"
    unfolding sorted_map
    by (rule sorted_wrt_mono_rel [OF _ expiration.sorted_SliceStable]) (auto simp: expirationLess_pair not_less)
  moreover have "distinct (map fst (SliceStable expirationLess xs))"
    using assms by simp
  then have "distinct ?ys"
    by (auto simp: distinct_map inj_on_def)
  ultimately show ?thesis
    by (simp add: strict_sorted_iff)
qed

lemma SliceStable_expirations_cong:
  assumes "distinct (map fst xs)" "mset xs = mset ys"
  shows "SliceStable expirationLess xs = SliceStable expirationLess ys"
proof -
  have "distinct (map fst ys)"
    using assms by (metis mset_eq_imp_distinct_iff mset_map)
  moreover have "set xs = set ys"
    using assms(2) by (metis set_mset_mset)
  ultimately have "map (\<lambda>a. (snd a, fst a)) (SliceStable expirationLess xs) = map (\<lambda>a. (snd a, fst a)) (SliceStable expirationLess ys)"
    using expirations_sorted [OF assms(1)] by (intro strict_sorted_equal) (simp_all add: expirations_sorted)
  then show ?thesis
    by (rule map_injective) (simp add: inj_def prod_eq_iff)
qed

text \<open>
  Eviction does not depend on the order in which Go ranges over the map, and takes what expires
  first: two stores with the same entries choose the same victims, and a chosen reference comes before
  every reference that could have been chosen instead, by expiry and then by identifier.
\<close>

theorem selectVictims_order:
  assumes keys: "distinct (map fst (st_entries store))"
    and same: "mset (st_entries store') = mset (st_entries store)" "st_pins store' = st_pins store"
    and chosen: "selectVictimsLocked store needed selected matches = Some victims"
  shows "selectVictimsLocked store' needed selected matches = Some victims \<and>
    (\<forall>k \<in> set victims - set selected. \<forall>k' t'. (k', t') \<in> set (evictable store selected matches) \<and> k' \<notin> set victims \<longrightarrow>
       (\<exists>t. (k, t) \<in> set (evictable store selected matches) \<and> (t < t' \<or> t = t' \<and> k < k')))"
proof
  let ?xs = "evictable store selected matches"
  let ?ys = "SliceStable expirationLess ?xs"
  have "mset (evictable store' selected matches) = mset ?xs"
    using same by (simp add: evictable_def pinCount_def)
  then have "SliceStable expirationLess (evictable store' selected matches) = ?ys"
    using SliceStable_expirations_cong [OF evictable_distinct [OF keys]] by metis
  with chosen show "selectVictimsLocked store' needed selected matches = Some victims"
    by (simp only: selectVictimsLocked_def)
  show "\<forall>k \<in> set victims - set selected. \<forall>k' t'. (k', t') \<in> set ?xs \<and> k' \<notin> set victims \<longrightarrow>
       (\<exists>t. (k, t) \<in> set ?xs \<and> (t < t' \<or> t = t' \<and> k < k'))"
  proof (intro ballI allI impI)
    fix k k' t' assume k: "k \<in> set victims - set selected" and k': "(k', t') \<in> set ?xs \<and> k' \<notin> set victims"
    from chosen k have victims: "victims = selected @ map fst (take (nat needed) ?ys)"
      by (auto simp: selectVictimsLocked_def Let_def split: if_splits)
    with k obtain t where t: "(k, t) \<in> set (take (nat needed) ?ys)"
      by auto
    have "(k', t') \<in> set ?ys" using k' by simp
    moreover have "(k', t') \<notin> set (take (nat needed) ?ys)"
      using k' victims by (force simp: image_iff)
    ultimately have drop: "(k', t') \<in> set (drop (nat needed) ?ys)"
      by (metis Un_iff append_take_drop_id set_append)
    have "sorted_wrt (<) (map (\<lambda>a. (snd a, fst a)) (take (nat needed) ?ys @ drop (nat needed) ?ys))"
      using expirations_sorted [OF evictable_distinct [OF keys]] by simp
    with t drop have "(t, k) < (t', k')"
      unfolding map_append sorted_wrt_append by force
    moreover have "(k, t) \<in> set ?xs"
      using in_set_takeD [OF t] by simp
    ultimately show "\<exists>t. (k, t) \<in> set ?xs \<and> (t < t' \<or> t = t' \<and> k < k')"
      by auto
  qed
qed

section \<open>Concrete stores\<close>

definition exampleCaller :: Principal where
  "exampleCaller = \<lparr>pr_SessionID = ''s'', pr_UserID = ''u'', pr_DeviceID = ''d'', pr_ActiveProfileID = Some ''p'',
     pr_ProfileGrantExpiresAt = None\<rparr>"

definition exampleReference :: sourceReference where
  "exampleReference = \<lparr>ref_ID = [], ref_AuthSessionID = [], ref_ProfileID = [],
     ref_Owner = \<lparr>own_UserID = [], own_ProfileID = [], own_DeviceID = []\<rparr>, ref_MediaType = ''movie'', ref_AddonMediaType = ''movie'',
     ref_ResourceID = ''tt1'', ref_Source = zeroSource, ref_SelectionRevision = 0, ref_TransportRevision = 0, ref_Asset = None,
     ref_Capabilities = zeroCapabilities, ref_PreferredAudioLanguage = [], ref_PreferredSubtitleLanguage = [],
     ref_PreferredForcedSubtitleLanguage = [], ref_ProviderErrors = [], ref_ExpiresAt = 0\<rparr>"

definition exampleIdentifier :: "nat \<Rightarrow> playback_error + string" where
  "exampleIdentifier k = Inr (replicate (16 + k) (CHR ''a''))"

definition exampleStore :: sourceReferenceStore where
  "exampleStore = snd (putAllReserved exampleIdentifier (\<lambda>k. 0) exampleCaller [exampleReference, exampleReference] True newSourceReferenceStore)"

lemma new_ok: "storeOk newSourceReferenceStore"
  by (rule reference_store.inv_start) simp

lemma example_ok: "storeOk exampleStore"
  unfolding exampleStore_def by (rule putAllReserved_ok [OF new_ok])

theorem source_store_capacities_witness:
  "store_step\<^sup>*\<^sup>* newSourceReferenceStore exampleStore \<and> length (st_entries exampleStore) = 2 \<and> userCountLocked ''u'' exampleStore \<le> 2048"
proof -
  have reach: "store_step\<^sup>*\<^sup>* newSourceReferenceStore exampleStore"
    unfolding exampleStore_def by (rule r_into_rtranclp) (rule store_step.put)
  moreover have "length (st_entries exampleStore) = 2"
    by code_simp
  ultimately show ?thesis
    using source_store_capacities [OF reach] by blast
qed

theorem put_keeps_pinned_witness:
  "\<exists>r. lookupReference exampleStore (replicate 16 (CHR ''a'')) = Some r \<and>
     lookupReference (snd (putAllReserved (\<lambda>k. Inr ''new'') (\<lambda>k. 10 ^ 20) exampleCaller [exampleReference] False exampleStore))
       (replicate 16 (CHR ''a'')) = Some r"
proof -
  have "0 < pinCount exampleStore (replicate 16 (CHR ''a''))" "lookupReference exampleStore (replicate 16 (CHR ''a'')) \<noteq> None"
    by code_simp+
  then show ?thesis
    using put_keeps_pinned [OF example_ok] by blast
qed

theorem put_then_get_witness:
  "\<exists>r. fst (getReference (\<lambda>k. 5) (replicate 17 (CHR ''a'')) exampleCaller
      (snd (getReference (\<lambda>k. 3) (replicate 17 (CHR ''a'')) exampleCaller exampleStore))) = Inr r \<and> ref_ResourceID r = ''tt1''"
proof -
  obtain stored where stored: "putAllReserved exampleIdentifier (\<lambda>k. 0) exampleCaller [exampleReference, exampleReference] True
      newSourceReferenceStore = (Inr stored, exampleStore)"
    "ref_ID (stored ! 1) = replicate 17 (CHR ''a'')" "ref_ResourceID (stored ! 1) = ''tt1''" "1 < length stored"
    "ref_ExpiresAt (stored ! 1) = sourceReferenceTTL"
  proof -
    have "case fst (putAllReserved exampleIdentifier (\<lambda>k. 0) exampleCaller [exampleReference, exampleReference] True newSourceReferenceStore) of
        Inl _ \<Rightarrow> False | Inr st \<Rightarrow> ref_ID (st ! 1) = replicate 17 (CHR ''a'') \<and> ref_ResourceID (st ! 1) = ''tt1'' \<and> 1 < length st \<and>
          ref_ExpiresAt (st ! 1) = sourceReferenceTTL"
      by code_simp
    then show thesis
      using that unfolding exampleStore_def
      by (cases "putAllReserved exampleIdentifier (\<lambda>k. 0) exampleCaller [exampleReference, exampleReference] True newSourceReferenceStore")
        (auto split: sum.splits)
  qed
  have ttl: "(5 :: int) < 0 + sourceReferenceTTL"
    by (simp add: sourceReferenceTTL_def)
  have "spares (ref_ID (stored ! 1)) (cloneSourceReference (stored ! 1)) exampleStore
      (snd (getReference (\<lambda>k. 3) (replicate 17 (CHR ''a'')) exampleCaller exampleStore))"
    by (rule spares.gets) (use stored(5) ttl in simp)
  with ttl put_then_get [OF new_ok stored(1,4) r_into_rtranclp, of _ "\<lambda>k. 5" exampleCaller] stored(2,3) show ?thesis
    by (simp add: cloneSourceReference_def)
qed

lemma example_replaced:
  "case fst (replaceSelection (\<lambda>k. 5) (replicate 16 (CHR ''a'')) exampleCaller 1 (zeroSource\<lparr>src_URL := ''http://b''\<rparr>) None exampleStore) of
     Inl _ \<Rightarrow> False | Inr (r, changed) \<Rightarrow> changed \<and> unat (ref_TransportRevision r) = 2"
  by code_simp

theorem replaceSelection_compare_and_swap_witness:
  "\<exists>r store'. replaceSelection (\<lambda>k. 5) (replicate 16 (CHR ''a'')) exampleCaller 1 (zeroSource\<lparr>src_URL := ''http://b''\<rparr>) None exampleStore =
     (Inr (r, True), store') \<and> unat (ref_SelectionRevision r) = 2 \<and>
     fst (replaceSelection (\<lambda>k. 6) (replicate 16 (CHR ''a'')) exampleCaller 1 zeroSource None store') \<in> {Inl ErrSourceReferenceExpired, Inr (r, False)}"
proof -
  obtain r store' where replaced: "replaceSelection (\<lambda>k. 5) (replicate 16 (CHR ''a'')) exampleCaller 1
      (zeroSource\<lparr>src_URL := ''http://b''\<rparr>) None exampleStore = (Inr (r, True), store')"
    using example_replaced
    by (cases "replaceSelection (\<lambda>k. 5) (replicate 16 (CHR ''a'')) exampleCaller 1 (zeroSource\<lparr>src_URL := ''http://b''\<rparr>) None exampleStore")
      (auto split: sum.splits)
  moreover obtain result store'' where later:
      "replaceSelection (\<lambda>k. 6) (replicate 16 (CHR ''a'')) exampleCaller 1 zeroSource None store' = (result, store'')"
    by force
  ultimately show ?thesis
    using replaceSelection_compare_and_swap [OF example_ok replaced later] by auto
qed

theorem selectVictims_order_witness:
  "selectVictimsLocked (exampleStore\<lparr>st_pins := Map.empty\<rparr>) 1 [] (\<lambda>r. True) = Some [replicate 16 (CHR ''a'')] \<and>
   selectVictimsLocked (exampleStore\<lparr>st_entries := rev (st_entries exampleStore), st_pins := Map.empty\<rparr>) 1 [] (\<lambda>r. True) =
     Some [replicate 16 (CHR ''a'')]"
proof -
  have keys: "distinct (map fst (st_entries (exampleStore\<lparr>st_pins := Map.empty\<rparr>)))"
    using example_ok by (simp add: storeOk_def)
  have chosen: "selectVictimsLocked (exampleStore\<lparr>st_pins := Map.empty\<rparr>) 1 [] (\<lambda>r. True) = Some [replicate 16 (CHR ''a'')]"
    by code_simp
  with selectVictims_order [OF keys _ _ chosen, of "exampleStore\<lparr>st_entries := rev (st_entries exampleStore), st_pins := Map.empty\<rparr>"]
  show ?thesis by simp
qed

end
