(* ===== verification/Playback_Streams.thy ===== *)
theory Playback_Streams
  imports Playback_Tracks Netguard Source_Store
begin

text \<open>
  What the playback service does with the answers of the addons and with the input of a client
  (\<open>playback/service.go\<close>): the validation of requests and capabilities, the sources and assets
  made of provider streams, the external subtitles made of provider subtitles, the display texts and
  stable identities of sources, and the capabilities a decision is made with. Decoding the JSON of an
  answer (\<open>addon.ParseProviderStreamResponse\<close>, \<open>addon.ParseProviderSubtitleResponse\<close>), \<open>net/url.Parse\<close>
  and the SHA-256 text of an identity are parameters.
\<close>

section \<open>Answers of addons\<close>

record ResourceResult =
  rr_AddonID :: string
  rr_ManifestID :: string
  rr_AddonName :: string
  rr_Payload :: string

record ResourceFailure =
  rf_AddonID :: string
  rf_ManifestID :: string
  rf_Code :: string
  rf_Message :: string

record ResourceBatch =
  rb_Results :: "ResourceResult list"
  rb_Errors :: "ResourceFailure list"

record ProviderStream =
  ps_Name :: string
  ps_Title :: string
  ps_URL :: string
  ps_Description :: string
  ps_YTID :: string
  ps_ExternalURL :: string
  ps_InfoHash :: string
  ps_FileIndex :: "int option"
  ps_NotWebReady :: bool
  ps_Filename :: string
  ps_RequestHeaders :: "(string \<times> string) list"

record ProviderSubtitle =
  psub_ID :: string
  psub_URL :: string
  psub_Language :: string
  psub_Forced :: bool

datatype addon_error = ErrInvalidResponse string

definition maximumAggregateProviderStreams :: int where
  "maximumAggregateProviderStreams = 512"

definition maximumAggregateProviderSubtitles :: int where
  "maximumAggregateProviderSubtitles = 1024"

text \<open>
  The first loop of \<open>normalizeStreams\<close> and \<open>normalizeSubtitles\<close>: every answer is decoded before one
  is used, and the number of items over all answers is bounded.
\<close>

fun decodeResponses ::
    "(string \<Rightarrow> addon_error + 'a list) \<Rightarrow> int \<Rightarrow> string \<Rightarrow> int \<Rightarrow> ResourceResult list \<Rightarrow> addon_error + (ResourceResult \<times> 'a list) list" where
  "decodeResponses parse maximum exceeded sofar [] = Inr []"
| "decodeResponses parse maximum exceeded sofar (result # results) =
     (case parse (rr_Payload result) of Inl err \<Rightarrow> Inl err
      | Inr items \<Rightarrow>
          if int (length items) > maximum - sofar then Inl (ErrInvalidResponse exceeded)
          else (case decodeResponses parse maximum exceeded (sofar + int (length items)) results of
                  Inl err \<Rightarrow> Inl err
                | Inr decoded \<Rightarrow> Inr ((result, items) # decoded)))"

section \<open>Media URLs and identifiers\<close>

definition zeroURL :: URL where
  "zeroURL = \<lparr>url_Scheme = [], url_Opaque = [], url_User = False, url_Host = [], url_Path = [], url_ForceQuery = False,
     url_RawQuery = [], url_Fragment = []\<rparr>"

text \<open>The code ignores the error of a second parse, after \<open>validMediaURL\<close> has parsed the same text.\<close>

definition parsedURL :: "(string \<Rightarrow> URL option) \<Rightarrow> string \<Rightarrow> URL" where
  "parsedURL urlParse raw = (case urlParse raw of None \<Rightarrow> zeroURL | Some parsed \<Rightarrow> parsed)"

definition validMediaURL :: "(string \<Rightarrow> URL option) \<Rightarrow> string \<Rightarrow> bool" where
  "validMediaURL urlParse raw \<longleftrightarrow>
     \<not> (length raw < 1 \<or> length raw > 8192) \<and>
     (case urlParse raw of None \<Rightarrow> False
      | Some parsed \<Rightarrow> (url_Scheme parsed = ''http'' \<or> url_Scheme parsed = ''https'') \<and> url_Host parsed \<noteq> [] \<and>
          \<not> url_User parsed \<and> url_Fragment parsed = [])"

text \<open>\<open>path.Ext\<close>: the text from the last dot of the last path element.\<close>

definition pathExt :: "string \<Rightarrow> string" where
  "pathExt p =
     (let element = rev (takeWhile (\<lambda>c. c \<noteq> CHR ''/'') (rev p))
      in if CHR ''.'' \<in> set element then CHR ''.'' # rev (takeWhile (\<lambda>c. c \<noteq> CHR ''.'') (rev element)) else [])"

text \<open>\<open>pathExtension\<close> of \<open>proxy.go\<close> looks for the last dot of the whole path.\<close>

definition pathExtension :: "string \<Rightarrow> string" where
  "pathExtension value = (if CHR ''.'' \<in> set value then CHR ''.'' # rev (takeWhile (\<lambda>c. c \<noteq> CHR ''.'') (rev value)) else [])"

definition protocolFor :: "(string \<Rightarrow> URL option) \<Rightarrow> string \<Rightarrow> string" where
  "protocolFor urlParse rawURL = (if EqualFold (pathExt (url_Path (parsedURL urlParse rawURL))) ''.m3u8'' then ''hls'' else ''http'')"

definition TrimPrefix :: "string \<Rightarrow> string \<Rightarrow> string" where
  "TrimPrefix s p = (if hasPrefix s p then drop (length p) s else s)"

definition containerFor :: "(string \<Rightarrow> URL option) \<Rightarrow> string \<Rightarrow> string" where
  "containerFor urlParse rawURL =
     (let extension = ToLower (TrimPrefix (pathExt (url_Path (parsedURL urlParse rawURL))) ''.'')
      in if extension \<in> {''mp4'', ''m4v'', ''webm'', ''mkv'', ''mov'', ''ts''} then extension else [])"

definition directMediaExternalURL :: "(string \<Rightarrow> URL option) \<Rightarrow> string \<Rightarrow> bool" where
  "directMediaExternalURL urlParse rawURL \<longleftrightarrow>
     validMediaURL urlParse rawURL \<and> (protocolFor urlParse rawURL = ''hls'' \<or> containerFor urlParse rawURL \<noteq> [])"

definition charBetween :: "char \<Rightarrow> char \<Rightarrow> char \<Rightarrow> bool" where
  "charBetween lo hi c \<longleftrightarrow> (of_char lo :: nat) \<le> of_char c \<and> (of_char c :: nat) \<le> of_char hi"

definition validYouTubeID :: "string \<Rightarrow> bool" where
  "validYouTubeID value \<longleftrightarrow>
     \<not> (length value < 1 \<or> length value > 100) \<and>
     list_all (\<lambda>c. charBetween CHR ''a'' CHR ''z'' c \<or> charBetween CHR ''A'' CHR ''Z'' c \<or> charBetween CHR ''0'' CHR ''9'' c \<or>
       c = CHR ''-'' \<or> c = CHR ''_'') value"

definition validBTIH :: "string \<Rightarrow> bool" where
  "validBTIH value \<longleftrightarrow>
     (length value = 40 \<or> length value = 32) \<and>
     list_all (\<lambda>c. if length value = 40
       then charBetween CHR ''0'' CHR ''9'' c \<or> charBetween CHR ''a'' CHR ''f'' c \<or> charBetween CHR ''A'' CHR ''F'' c
       else charBetween CHR ''A'' CHR ''Z'' c \<or> charBetween CHR ''a'' CHR ''z'' c \<or> charBetween CHR ''2'' CHR ''7'' c) value"

section \<open>Sources from provider streams\<close>

text \<open>A missing map of headers and an empty one are both the empty list.\<close>

definition requestHeaders :: "ProviderStream \<Rightarrow> (string \<times> string) list" where
  "requestHeaders stream = filter (\<lambda>(name, value). value \<noteq> []) (ps_RequestHeaders stream)"

definition modeRank :: "string \<Rightarrow> int" where
  "modeRank mode =
     (if mode = ''direct'' then 0 else if mode = ''youtube'' then 1 else if mode = processingRemux then 2
      else if mode = processingTranscodeAudio then 3 else if mode = processingTranscode then 4 else 5)"

definition sourceLess :: "Source \<Rightarrow> Source \<Rightarrow> bool" where
  "sourceLess left right =
     (if src_Compatible left \<noteq> src_Compatible right then src_Compatible left
      else modeRank (src_Mode left) < modeRank (src_Mode right))"

definition sortSources :: "Source list \<Rightarrow> Source list" where
  "sortSources sources = SliceStable sourceLess sources"

definition streamSource :: "ResourceResult \<Rightarrow> nat \<Rightarrow> ProviderStream \<Rightarrow> string \<Rightarrow> Source" where
  "streamSource result streamIndex stream sourceID =
     zeroSource\<lparr>src_ID := sourceID, src_AddonID := rr_AddonID result, src_ManifestID := rr_ManifestID result,
       src_AddonName := TrimSpace (rr_AddonName result), src_Name := TrimSpace (ps_Name stream),
       src_Title := TrimSpace (ps_Title stream), src_Description := TrimSpace (ps_Description stream),
       src_Hint := TrimSpace (ps_Name stream @ '' '' @ ps_Title stream @ '' '' @ ps_Description stream @ '' '' @ ps_Filename stream),
       src_Filename := TrimSpace (ps_Filename stream), src_StreamIndex := int streamIndex, src_FileIndex := ps_FileIndex stream\<rparr>"

definition directStream ::
    "(string \<Rightarrow> URL option) \<Rightarrow> Capabilities \<Rightarrow> ProviderStream \<Rightarrow> string \<Rightarrow> Source \<Rightarrow> Source \<times> storedAsset" where
  "directStream urlParse capabilities stream mediaURL source =
     (let protocol = protocolFor urlParse mediaURL; container = containerFor urlParse mediaURL
      in (source\<lparr>src_Mode := ''direct'', src_URL := mediaURL, src_Protocol := protocol, src_Container := container,
            src_Compatible := supports (cap_StreamingProtocols capabilities) protocol \<and> supportsContainer (cap_Containers capabilities) container\<rparr>,
          zeroStoredAsset\<lparr>sa_ID := src_ID source, sa_Kind := ''stream'', sa_URL := mediaURL, sa_Headers := requestHeaders stream,
            sa_Container := container, sa_HLSSegmentContainer := normalizedHLSSegmentContainer (cap_HLSSegmentContainer capabilities)\<rparr>))"

text \<open>The source of one stream, with its asset where it is played by URL; \<^const>\<open>None\<close> is the code's \<open>continue\<close>.\<close>

definition normalizeStream ::
    "(string \<Rightarrow> URL option) \<Rightarrow> Capabilities \<Rightarrow> ProviderStream \<Rightarrow> Source \<Rightarrow> (Source \<times> storedAsset option) option" where
  "normalizeStream urlParse capabilities stream source =
     (let streamURL = TrimSpace (ps_URL stream); externalURL = TrimSpace (ps_ExternalURL stream);
          ytID = TrimSpace (ps_YTID stream); infoHash = TrimSpace (ps_InfoHash stream)
      in if validMediaURL urlParse streamURL then Some (apsnd Some (directStream urlParse capabilities stream streamURL source))
         else if directMediaExternalURL urlParse externalURL then Some (apsnd Some (directStream urlParse capabilities stream externalURL source))
         else if validYouTubeID ytID then
           Some (source\<lparr>src_Mode := ''youtube'', src_YTID := ytID, src_Protocol := ''youtube'',
             src_Compatible := supports (cap_StreamingProtocols capabilities) ''youtube''\<rparr>, None)
         else if validBTIH infoHash \<and> (supports (cap_ExternalPlayers capabilities) ''system'' \<or> supports (cap_ExternalPlayers capabilities) ''android_magnet'') then
           Some (source\<lparr>src_Mode := ''external'', src_InfoHash := infoHash, src_Protocol := ''external'', src_Compatible := True\<rparr>, None)
         else None)"

definition addStream ::
    "(string \<Rightarrow> URL option) \<Rightarrow> Capabilities \<Rightarrow> ResourceResult \<times> nat \<times> ProviderStream \<Rightarrow> Source list \<times> storedAsset list \<Rightarrow>
     Source list \<times> storedAsset list" where
  "addStream urlParse capabilities item acc =
     (case item of (result, streamIndex, stream) \<Rightarrow> case acc of (sources, assets) \<Rightarrow>
        (case normalizeStream urlParse capabilities stream
             (streamSource result streamIndex stream (''stream-'' @ Itoa (int (length sources) + 1))) of
           None \<Rightarrow> acc
         | Some (source, None) \<Rightarrow> (sources @ [source], assets)
         | Some (source, Some asset) \<Rightarrow> (sources @ [source], assets @ [asset])))"

definition streamItems :: "(ResourceResult \<times> 'a list) list \<Rightarrow> (ResourceResult \<times> nat \<times> 'a) list" where
  "streamItems decoded = concat (map (\<lambda>(result, items). map (\<lambda>(index, item). (result, index, item)) (enumerate 0 items)) decoded)"

definition normalizeStreams ::
    "(string \<Rightarrow> URL option) \<Rightarrow> (string \<Rightarrow> addon_error + ProviderStream list) \<Rightarrow> ResourceBatch \<Rightarrow> Capabilities \<Rightarrow>
     addon_error + Source list \<times> storedAsset list" where
  "normalizeStreams urlParse parse batch capabilities =
     (if int (length (rb_Results batch)) > maximumAggregateProviderStreams then
        Inl (ErrInvalidResponse ''stream provider responses exceed 512 items'')
      else
        (case decodeResponses parse maximumAggregateProviderStreams ''aggregate streams exceed 512 items'' 0 (rb_Results batch) of
           Inl err \<Rightarrow> Inl err
         | Inr decoded \<Rightarrow>
             (case fold (addStream urlParse capabilities) (streamItems decoded) ([], []) of
                (sources, assets) \<Rightarrow> Inr (sortSources sources, assets))))"

section \<open>External subtitles\<close>

definition clientSubtitleExtension :: "string \<Rightarrow> string" where
  "clientSubtitleExtension extension =
     (if extension \<in> {''.vtt'', ''.webvtt'', ''.ttml'', ''.dfxp'', ''.xml''} then extension else [])"

definition originalSubtitleExtension :: "string \<Rightarrow> string" where
  "originalSubtitleExtension extension =
     (if extension \<in> {''.srt'', ''.ass'', ''.ssa'', ''.vtt'', ''.webvtt'', ''.ttml'', ''.dfxp'', ''.xml''} then extension else [])"

definition assetKindConvertedSubtitle :: string where
  "assetKindConvertedSubtitle = ''converted_subtitle''"

definition externalSubtitle ::
    "(string \<Rightarrow> URL option) \<Rightarrow> bool \<Rightarrow> nat \<Rightarrow> ResourceResult \<Rightarrow> ProviderSubtitle \<Rightarrow> Subtitle \<times> storedAsset" where
  "externalSubtitle urlParse preserveOriginal k result subtitle =
     (let extension = ToLower (pathExtension (url_Path (parsedURL urlParse (psub_URL subtitle))));
          (kind, clientExtension) =
            (if preserveOriginal then (''subtitle'', originalSubtitleExtension extension)
             else if extension \<in> {''.srt'', ''.ass'', ''.ssa''} then (assetKindConvertedSubtitle, ''.vtt'')
             else (''subtitle'', clientSubtitleExtension extension));
          subtitleID = ''subtitle-'' @ Itoa (int k + 1) @ clientExtension
      in (zeroSubtitle\<lparr>sub_ID := subtitleID, sub_AddonID := rr_AddonID result, sub_ManifestID := rr_ManifestID result,
            sub_Language := TrimSpace (psub_Language subtitle), sub_URL := psub_URL subtitle, sub_Delivery := ''external'',
            sub_Forced := psub_Forced subtitle\<rparr>,
          zeroStoredAsset\<lparr>sa_ID := subtitleID, sa_Kind := kind, sa_URL := psub_URL subtitle\<rparr>))"

definition addSubtitle ::
    "(string \<Rightarrow> URL option) \<Rightarrow> bool \<Rightarrow> ResourceResult \<times> nat \<times> ProviderSubtitle \<Rightarrow> (Subtitle \<times> storedAsset) list \<Rightarrow> (Subtitle \<times> storedAsset) list" where
  "addSubtitle urlParse preserveOriginal item acc =
     (case item of (result, _, subtitle) \<Rightarrow>
        if \<not> validMediaURL urlParse (psub_URL subtitle) then acc
        else acc @ [externalSubtitle urlParse preserveOriginal (length acc) result subtitle])"

definition normalizeSubtitles ::
    "(string \<Rightarrow> URL option) \<Rightarrow> (string \<Rightarrow> addon_error + ProviderSubtitle list) \<Rightarrow> ResourceBatch \<Rightarrow> bool \<Rightarrow>
     addon_error + Subtitle list \<times> storedAsset list" where
  "normalizeSubtitles urlParse parse batch preserveOriginal =
     (if int (length (rb_Results batch)) > maximumAggregateProviderSubtitles then
        Inl (ErrInvalidResponse ''subtitle provider responses exceed 1024 items'')
      else
        (case decodeResponses parse maximumAggregateProviderSubtitles ''aggregate subtitles exceed 1024 items'' 0 (rb_Results batch) of
           Inl err \<Rightarrow> Inl err
         | Inr decoded \<Rightarrow>
             (let items = fold (addSubtitle urlParse preserveOriginal) (streamItems decoded) []
              in Inr (map fst items, map snd items))))"

definition providerFailures :: "ResourceFailure list \<Rightarrow> ProviderFailure list" where
  "providerFailures values =
     map (\<lambda>v. \<lparr>pf_AddonID = rf_AddonID v, pf_ManifestID = rf_ManifestID v, pf_Code = rf_Code v, pf_Message = rf_Message v\<rparr>) values"

section \<open>Validation of requests\<close>

definition maximumPlaybackStartSeconds :: rat where
  "maximumPlaybackStartSeconds = 7 * 24 * 60 * 60"

text \<open>The conversion to \<open>int64\<close> truncates; every value that reaches it here is within the range of \<open>int64\<close>.\<close>

definition toward_zero :: "rat \<Rightarrow> int" where
  "toward_zero r = (if r < 0 then \<lceil>r\<rceil> else \<lfloor>r\<rfloor>)"

fun validPlaybackStart :: "float64 \<Rightarrow> bool" where
  "validPlaybackStart (Finite seconds) = (0 \<le> seconds \<and> seconds \<le> maximumPlaybackStartSeconds \<and> seconds = of_int (toward_zero seconds))"
| "validPlaybackStart _ = False"

definition validPlaybackMaximumHeight :: "int \<Rightarrow> bool" where
  "validPlaybackMaximumHeight height \<longleftrightarrow> height = 0 \<or> height \<ge> 144 \<and> height \<le> 4320"

definition validateResolveInput :: "ResolveInput \<Rightarrow> playback_error option" where
  "validateResolveInput input =
     (if length (ri_SourceRef input) < 16 \<or> length (ri_SourceRef input) > 128 \<or> length (ri_TitleID input) > 128 \<or>
         length (ri_PreferredSubtitleID input) > 128 \<or> \<not> validPlaybackMaximumHeight (ri_MaximumHeight input) then Some ErrInvalidInput
      else if (case ri_PreferredAudioTrack input of None \<Rightarrow> False | Some track \<Rightarrow> track < 0 \<or> track > 10000) then Some ErrInvalidInput
      else if \<not> validPlaybackStart (ri_StartSeconds input) then Some ErrInvalidInput
      else None)"

fun uniqueModes :: "string list \<Rightarrow> string list \<Rightarrow> string list \<Rightarrow> bool" where
  "uniqueModes seen allowed [] = True"
| "uniqueModes seen allowed (raw # rest) =
     (let value = ToLower (TrimSpace raw)
      in if value \<in> set seen then False else if value \<notin> set allowed then False else uniqueModes (value # seen) allowed rest)"

definition validUniqueModes :: "string list \<Rightarrow> string list \<Rightarrow> int \<Rightarrow> bool" where
  "validUniqueModes values allowed maximum = (if int (length values) > maximum then False else uniqueModes [] allowed values)"

text \<open>A text of one to 64 bytes after trimming.\<close>

definition validToken :: "string \<Rightarrow> bool" where
  "validToken value \<longleftrightarrow> \<not> (length (TrimSpace value) < 1 \<or> length (TrimSpace value) > 64)"

definition validTokenList :: "string \<Rightarrow> bool" where
  "validTokenList values \<longleftrightarrow>
     (let parts = Split values CHR '','' in \<not> (length values > 2048 \<or> length parts > 32) \<and> list_all validToken parts)"

definition validMediaProfile :: "MediaProfile \<Rightarrow> bool" where
  "validMediaProfile profile \<longleftrightarrow>
     list_all validToken ([mp_Container profile, mp_VideoCodec profile] @ (if mp_AudioCodec profile \<noteq> [] then [mp_AudioCodec profile] else [])) \<and>
     list_all (\<lambda>values. values = [] \<or> validTokenList values) [mp_ContainersCSV profile, mp_AudioCodecsCSV profile] \<and>
     \<not> (mp_MaximumVideoLevel profile < 0 \<or> mp_MaximumVideoLevel profile > 1000 \<or>
        mp_VideoLevelRequired profile \<and> mp_MaximumVideoLevel profile = 0 \<or>
        mp_MaximumVideoBitDepth profile \<noteq> 0 \<and> (mp_MaximumVideoBitDepth profile < 8 \<or> mp_MaximumVideoBitDepth profile > 16) \<or>
        length (mp_ExcludedVideoRange profile) > 64 \<or>
        mp_VideoRangeRequired profile \<and> TrimSpace (mp_ExcludedVideoRange profile) = [])"

definition validConditionText :: "string \<Rightarrow> bool" where
  "validConditionText text \<longleftrightarrow> \<not> (length (TrimSpace text) = 0 \<or> length text > 64)"

definition validContainerProfile :: "ContainerProfile \<Rightarrow> bool" where
  "validContainerProfile profile \<longleftrightarrow>
     cp_ContainersCSV profile \<noteq> [] \<and> validTokenList (cp_ContainersCSV profile) \<and> length (cp_Conditions profile) \<le> 32 \<and>
     list_all (\<lambda>c. validConditionText (pc_Condition c) \<and> validConditionText (pc_Property c) \<and> validConditionText (pc_Value c))
       (cp_Conditions profile)"

definition validateCapabilities :: "Capabilities \<Rightarrow> playback_error option" where
  "validateCapabilities capabilities =
     (if \<not> list_all (\<lambda>values. length values \<le> 32 \<and> list_all validToken values)
           [cap_StreamingProtocols capabilities, cap_Containers capabilities, cap_VideoCodecs capabilities,
            cap_AudioCodecs capabilities, cap_HDRFormats capabilities, cap_ExternalPlayers capabilities,
            cap_ProcessingModes capabilities, cap_SubtitleModes capabilities] then Some ErrInvalidInput
      else if length (cap_MediaProfiles capabilities) > 32 then Some ErrInvalidInput
      else if \<not> list_all validMediaProfile (cap_MediaProfiles capabilities) then Some ErrInvalidInput
      else if length (cap_ContainerProfiles capabilities) > 256 then Some ErrInvalidInput
      else if \<not> list_all validContainerProfile (cap_ContainerProfiles capabilities) then Some ErrInvalidInput
      else if cap_HLSSegmentContainer capabilities \<noteq> [] \<and> cap_HLSSegmentContainer capabilities \<noteq> ''ts'' \<and>
              cap_HLSSegmentContainer capabilities \<noteq> ''mp4'' then Some ErrInvalidInput
      else if \<not> validUniqueModes (cap_ProcessingModes capabilities) [processingRemux, processingTranscodeAudio, processingTranscode] 3 \<or>
              \<not> validUniqueModes (cap_SubtitleModes capabilities) [''external'', ''burn''] 2 then Some ErrInvalidInput
      else if cap_MaximumVideoBitrateKbps capabilities \<noteq> 0 \<and>
              (cap_MaximumVideoBitrateKbps capabilities < 64 \<or> cap_MaximumVideoBitrateKbps capabilities > 200000) then Some ErrInvalidInput
      else if cap_MaximumAudioChannels capabilities \<noteq> 0 \<and>
              (cap_MaximumAudioChannels capabilities < 1 \<or> cap_MaximumAudioChannels capabilities > 32) then Some ErrInvalidInput
      else if cap_MaximumHeight capabilities \<noteq> 0 \<and>
              (cap_MaximumHeight capabilities < 144 \<or> cap_MaximumHeight capabilities > 4320) then Some ErrInvalidInput
      else None)"

record SourcesInput =
  si_MediaType :: string
  si_AddonID :: string
  si_ResourceID :: string
  si_Capabilities :: Capabilities
  si_MaximumSources :: int
  si_PreferredAudioLanguage :: string
  si_PreferredSubtitleLanguage :: string
  si_PreferredForcedSubtitleLanguage :: string

definition validateSourcesInput :: "SourcesInput \<Rightarrow> playback_error option" where
  "validateSourcesInput input =
     (if length (si_MediaType input) < 1 \<or> length (si_MediaType input) > 64 \<or> length (si_ResourceID input) < 1 \<or>
         length (si_ResourceID input) > 2048 \<or> length (si_AddonID input) > 128 \<or> si_MaximumSources input < 0 \<or>
         si_MaximumSources input > maximumAggregateProviderStreams then Some ErrInvalidInput
      else if length (si_PreferredAudioLanguage input) > 64 \<or> length (si_PreferredSubtitleLanguage input) > 64 \<or>
              length (si_PreferredForcedSubtitleLanguage input) > 64 then Some ErrInvalidInput
      else validateCapabilities (si_Capabilities input))"

section \<open>The capabilities of a decision\<close>

definition effectivePlaybackMaximumHeight :: "int \<Rightarrow> int \<Rightarrow> int" where
  "effectivePlaybackMaximumHeight clientMaximum settingsMaximum =
     (if clientMaximum \<le> 0 then settingsMaximum
      else if settingsMaximum \<le> 0 \<or> clientMaximum < settingsMaximum then clientMaximum
      else settingsMaximum)"

definition softwareToneMapMaximumHeight :: int where
  "softwareToneMapMaximumHeight = 1080"

text \<open>What the media processor reports, where it implements the three interfaces the service asks for.\<close>

record processorReport =
  proc_TranscodeCapabilities :: "TranscodeCapabilities option"
  proc_ToneMapBackend :: "string option"
  proc_ToneMapMaximumHeight :: "int option"

definition playbackCapabilities :: "processorReport \<Rightarrow> Capabilities \<Rightarrow> int \<Rightarrow> int \<Rightarrow> Capabilities" where
  "playbackCapabilities processor client maximumHeight bitrateKbps =
     (let c0 = (cloneCapabilities client)\<lparr>cap_MaximumHeight := maximumHeight, cap_TranscodeVideoBitrateKbps := bitrateKbps\<rparr>;
          c1 = (case proc_TranscodeCapabilities processor of None \<Rightarrow> c0 | Some engine \<Rightarrow> c0\<lparr>cap_transcodeCapabilities := engine\<rparr>);
          c2 = (case proc_ToneMapBackend processor of None \<Rightarrow> c1 | Some backend \<Rightarrow> c1\<lparr>cap_toneMapBackend := backend\<rparr>)
      in c2\<lparr>cap_ToneMapMaximumHeight :=
           (case proc_ToneMapMaximumHeight processor of None \<Rightarrow> softwareToneMapMaximumHeight | Some height \<Rightarrow> height)\<rparr>)"

section \<open>Names and identities of sources\<close>

definition sourceOptionLabel :: "int \<Rightarrow> string" where
  "sourceOptionLabel ordinal = ''Source '' @ Itoa ordinal"

definition sourceOptionDisplay :: "Source \<Rightarrow> int \<Rightarrow> string \<times> string \<times> string" where
  "sourceOptionDisplay source ordinal =
     (let name0 = TrimSpace (src_Name source); title = TrimSpace (src_Title source);
          description0 = TrimSpace (src_Description source); filename0 = TrimSpace (src_Filename source);
          description1 = (if description0 = [] then title else description0);
          (name, filename1) =
            (if name0 = [] then
               (if title \<noteq> [] then (title, filename0)
                else if filename0 \<noteq> [] then (filename0, [])
                else (sourceOptionLabel ordinal, filename0))
             else (name0, filename0));
          description = (if description1 = name then [] else description1);
          filename = (if filename1 = name \<or> filename1 = description then [] else filename1)
      in (name, description, filename))"

definition nul :: string where
  "nul = [CHR 0x00]"

text \<open>\<open>digest\<close> is the unpadded base64 text of the SHA-256 of its argument.\<close>

definition stableSourceIdentity :: "(string \<Rightarrow> string) \<Rightarrow> Source \<Rightarrow> string" where
  "stableSourceIdentity digest source =
     (let addonID = TrimSpace (src_AddonID source); manifestID = TrimSpace (src_ManifestID source);
          ytID = TrimSpace (src_YTID source); infoHash = TrimSpace (src_InfoHash source); filename = TrimSpace (src_Filename source);
          key = (\<lambda>identity. digest (addonID @ nul @ manifestID @ nul @ identity))
      in if addonID = [] \<or> manifestID = [] then []
         else if ytID \<noteq> [] then key (''youtube'' @ nul @ ytID)
         else if infoHash \<noteq> [] then
           key (''torrent'' @ nul @ ToLower infoHash @ (case src_FileIndex source of None \<Rightarrow> [] | Some i \<Rightarrow> nul @ Itoa i))
         else if filename \<noteq> [] then key (''filename'' @ nul @ filename)
         else [])"

definition uniqueStableSourceIdentities :: "(string \<Rightarrow> string) \<Rightarrow> sourceReference list \<Rightarrow> string list" where
  "uniqueStableSourceIdentities digest references =
     (let identities = map (\<lambda>r. stableSourceIdentity digest (ref_Source r)) references
      in map (\<lambda>i. if i \<noteq> [] \<and> count_list identities i = 1 then i else []) identities)"

definition firstCompatibleSource :: "Source list \<Rightarrow> string" where
  "firstCompatibleSource sources = (case find src_Compatible sources of None \<Rightarrow> [] | Some s \<Rightarrow> src_ID s)"

definition hasCompatibleSource :: "Source list \<Rightarrow> bool" where
  "hasCompatibleSource sources \<longleftrightarrow> firstCompatibleSource sources \<noteq> []"

section \<open>The sources of an answer\<close>

lemma decodeResponses_bound:
  assumes "decodeResponses parse maximum exceeded sofar results = Inr decoded" "sofar \<le> maximum"
  shows "sofar + int (length (streamItems decoded)) \<le> maximum"
  using assms
proof (induction parse maximum exceeded sofar results arbitrary: decoded rule: decodeResponses.induct)
  case (2 parse maximum exceeded sofar result results)
  then obtain items decoded' where items: "parse (rr_Payload result) = Inr items" "int (length items) \<le> maximum - sofar"
    and rest: "decodeResponses parse maximum exceeded (sofar + int (length items)) results = Inr decoded'"
    and decoded: "decoded = (result, items) # decoded'"
    by (auto split: sum.splits if_splits)
  then have "sofar + int (length items) + int (length (streamItems decoded')) \<le> maximum"
    using "2.IH" [OF items(1) _ rest] by simp
  with decoded show ?case
    by (simp add: streamItems_def)
qed (auto simp: streamItems_def)

definition sourceOk :: "(string \<Rightarrow> URL option) \<Rightarrow> Capabilities \<Rightarrow> Source \<Rightarrow> bool" where
  "sourceOk urlParse capabilities s \<longleftrightarrow>
     src_Mode s = ''direct'' \<and> validMediaURL urlParse (src_URL s) \<and> src_Protocol s = protocolFor urlParse (src_URL s) \<and>
       (src_Compatible s \<longrightarrow> supports (cap_StreamingProtocols capabilities) (src_Protocol s)) \<or>
     src_Mode s = ''youtube'' \<and> validYouTubeID (src_YTID s) \<or>
     src_Mode s = ''external'' \<and> validBTIH (src_InfoHash s) \<and>
       (supports (cap_ExternalPlayers capabilities) ''system'' \<or> supports (cap_ExternalPlayers capabilities) ''android_magnet'')"

definition streamsOk :: "(string \<Rightarrow> URL option) \<Rightarrow> Capabilities \<Rightarrow> Source list \<times> storedAsset list \<Rightarrow> bool" where
  "streamsOk urlParse capabilities acc \<longleftrightarrow>
     map src_ID (fst acc) = map (\<lambda>n. ''stream-'' @ Itoa (int n + 1)) [0..<length (fst acc)] \<and>
     map (\<lambda>a. (sa_ID a, sa_URL a, sa_Container a)) (snd acc) =
       map (\<lambda>s. (src_ID s, src_URL s, src_Container s)) (filter (\<lambda>s. src_Mode s = ''direct'') (fst acc)) \<and>
     list_all (sourceOk urlParse capabilities) (fst acc)"

lemma normalizeStream_ok:
  assumes "normalizeStream urlParse capabilities stream source = Some (s, asset)"
  shows "src_ID s = src_ID source \<and> sourceOk urlParse capabilities s \<and>
    (if src_Mode s = ''direct'' then \<exists>a. asset = Some a \<and> (sa_ID a, sa_URL a, sa_Container a) = (src_ID s, src_URL s, src_Container s)
     else asset = None)"
  using assms
  by (auto simp: normalizeStream_def sourceOk_def directStream_def directMediaExternalURL_def apsnd_def map_prod_def Let_def split: if_splits)

lemma addStream_ok:
  assumes ok: "streamsOk urlParse capabilities acc"
  shows "streamsOk urlParse capabilities (addStream urlParse capabilities item acc)"
proof -
  obtain result k stream where item: "item = (result, k, stream)" by (metis prod_cases3)
  obtain sources assets where acc: "acc = (sources, assets)" by force
  let ?new = "normalizeStream urlParse capabilities stream
    (streamSource result k stream (''stream-'' @ Itoa (int (length sources) + 1)))"
  have sid: "src_ID (streamSource result k stream n) = n" for n
    by (simp add: streamSource_def)
  show ?thesis
  proof (cases ?new)
    case None
    with ok show ?thesis by (simp add: item acc addStream_def)
  next
    case (Some sa)
    obtain s asset where sa: "sa = (s, asset)" by force
    note new = normalizeStream_ok [OF Some [unfolded sa]]
    show ?thesis
      using ok new Some
      by (cases "src_Mode s = ''direct''") (auto simp: item acc sa sid addStream_def streamsOk_def)
  qed
qed

lemma fold_addStream:
  "streamsOk urlParse capabilities acc \<Longrightarrow> streamsOk urlParse capabilities (fold (addStream urlParse capabilities) items acc)"
  by (induction items arbitrary: acc) (simp_all add: addStream_ok)

lemma addStream_length: "length (fst (addStream urlParse capabilities item acc)) \<le> Suc (length (fst acc))"
  by (simp add: addStream_def split: prod.split option.split)

lemma fold_addStream_length:
  "length (fst (fold (addStream urlParse capabilities) items acc)) \<le> length items + length (fst acc)"
proof (induction items arbitrary: acc)
  case (Cons item items)
  show ?case
    using Cons.IH [of "addStream urlParse capabilities item acc"] addStream_length [of urlParse capabilities item acc] by simp
qed simp

interpretation source_order: slice_order sourceLess
  by unfold_locales (auto simp: sourceLess_def split: if_splits)

lemma numbered_distinct:
  assumes "int n < 2 ^ 62"
  shows "distinct (map (\<lambda>k. p @ Itoa (int k + 1)) [0..<n])"
  using assms by (auto simp: distinct_map inj_on_def Itoa_inj in_int64_def)

text \<open>
  C20. The sources of an answer are well formed: at most 512, with distinct ids, ordered with the
  compatible ones first and then by mode; each is played by a valid URL without credentials, by a
  valid video id or by a valid info hash the client has a player for; and the sources played by URL
  and the assets correspond one to one, with the same URL and container.
\<close>

theorem normalizeStreams_wellformed:
  assumes result: "normalizeStreams urlParse parse batch capabilities = Inr (sources, assets)"
  shows "length sources \<le> 512 \<and> distinct (map src_ID sources) \<and> distinct (map sa_ID assets) \<and>
    sorted_wrt (\<lambda>a b. \<not> sourceLess b a) sources \<and> list_all (sourceOk urlParse capabilities) sources \<and>
    (\<lambda>a. (sa_ID a, sa_URL a, sa_Container a)) ` set assets =
      (\<lambda>s. (src_ID s, src_URL s, src_Container s)) ` {s \<in> set sources. src_Mode s = ''direct''}"
proof -
  obtain decoded xs where decoded: "decodeResponses parse maximumAggregateProviderStreams ''aggregate streams exceed 512 items'' 0
      (rb_Results batch) = Inr decoded"
    and xs: "fold (addStream urlParse capabilities) (streamItems decoded) ([], []) = (xs, assets)" "sources = sortSources xs"
    using result by (auto simp: normalizeStreams_def split: if_splits sum.splits prod.splits)
  have ok: "streamsOk urlParse capabilities (xs, assets)"
    using fold_addStream [of urlParse capabilities "([], [])" "streamItems decoded"] by (simp add: streamsOk_def xs)
  have small: "length xs \<le> 512"
    using decodeResponses_bound [OF decoded] fold_addStream_length [of urlParse capabilities "streamItems decoded" "([], [])"]
    by (simp add: xs maximumAggregateProviderStreams_def)
  then have ids: "distinct (map src_ID xs)"
    using ok numbered_distinct [of "length xs" "''stream-''"] by (simp add: streamsOk_def)
  have pairs: "map (\<lambda>a. (sa_ID a, sa_URL a, sa_Container a)) assets =
      map (\<lambda>s. (src_ID s, src_URL s, src_Container s)) (filter (\<lambda>s. src_Mode s = ''direct'') xs)"
    using ok by (simp add: streamsOk_def)
  from arg_cong [OF this, of "map fst"] have "map sa_ID assets = map src_ID (filter (\<lambda>s. src_Mode s = ''direct'') xs)"
    by (simp add: comp_def)
  then have "distinct (map sa_ID assets)"
    using ids by (simp add: distinct_map_filter)
  moreover have "list_all (sourceOk urlParse capabilities) sources"
    using ok by (simp add: streamsOk_def list_all_iff xs(2) sortSources_def)
  moreover have "(\<lambda>a. (sa_ID a, sa_URL a, sa_Container a)) ` set assets =
      (\<lambda>s. (src_ID s, src_URL s, src_Container s)) ` {s \<in> set sources. src_Mode s = ''direct''}"
    using arg_cong [OF pairs, of set] by (simp add: xs(2) sortSources_def)
  moreover have "sorted_wrt (\<lambda>a b. \<not> sourceLess b a) sources"
    by (simp add: xs(2) sortSources_def source_order.sorted_SliceStable)
  ultimately show ?thesis
    using small ids by (simp add: xs(2) sortSources_def)
qed

section \<open>The external subtitles of an answer\<close>

lemma externalSubtitle_fields:
  assumes "externalSubtitle urlParse preserveOriginal k result subtitle = (s, a)"
  shows "sub_ID s = sa_ID a" "sub_URL s = psub_URL subtitle" "sa_URL a = psub_URL subtitle" "sub_Delivery s = ''external''"
    "\<exists>ext. sub_ID s = ''subtitle-'' @ Itoa (int k + 1) @ ext \<and> (ext = [] \<or> hd ext = CHR ''.'')" "\<not> sub_Default s"
  using assms
  by (auto simp: externalSubtitle_def clientSubtitleExtension_def originalSubtitleExtension_def zeroSubtitle_def Let_def
      split: prod.splits if_splits)

definition subtitlesOk :: "(string \<Rightarrow> URL option) \<Rightarrow> (Subtitle \<times> storedAsset) list \<Rightarrow> bool" where
  "subtitlesOk urlParse items \<longleftrightarrow>
     (\<forall>k < length items. \<exists>ext. sub_ID (fst (items ! k)) = ''subtitle-'' @ Itoa (int k + 1) @ ext \<and> (ext = [] \<or> hd ext = CHR ''.'')) \<and>
     list_all (\<lambda>(s, a). sub_ID s = sa_ID a \<and> sub_URL s = sa_URL a \<and> sub_Delivery s = ''external'' \<and> validMediaURL urlParse (sub_URL s) \<and>
       \<not> sub_Default s) items"

lemma subtitlesOkD:
  assumes "subtitlesOk urlParse items" "k < length items"
  shows "\<exists>ext. sub_ID (fst (items ! k)) = ''subtitle-'' @ Itoa (int k + 1) @ ext \<and> (ext = [] \<or> hd ext = CHR ''.'')"
    "sub_Delivery (fst (items ! k)) = ''external''"
proof -
  show "\<exists>ext. sub_ID (fst (items ! k)) = ''subtitle-'' @ Itoa (int k + 1) @ ext \<and> (ext = [] \<or> hd ext = CHR ''.'')"
    using assms unfolding subtitlesOk_def by blast
  have "list_all (\<lambda>(s, a). sub_Delivery s = ''external'') items"
    using assms(1) by (auto simp: subtitlesOk_def list_all_iff)
  then show "sub_Delivery (fst (items ! k)) = ''external''"
    using assms(2) by (simp add: list_all_length case_prod_unfold)
qed

lemma addSubtitle_ok:
  assumes ok: "subtitlesOk urlParse items"
  shows "subtitlesOk urlParse (addSubtitle urlParse preserveOriginal item items)"
proof -
  obtain result k subtitle where item: "item = (result, k, subtitle)" by (metis prod_cases3)
  obtain s a where sa: "externalSubtitle urlParse preserveOriginal (length items) result subtitle = (s, a)" by force
  note new = externalSubtitle_fields [OF sa]
  show ?thesis
  proof (cases "validMediaURL urlParse (psub_URL subtitle)")
    case True
    have "\<exists>ext. sub_ID (fst ((items @ [(s, a)]) ! n)) = ''subtitle-'' @ Itoa (int n + 1) @ ext \<and> (ext = [] \<or> hd ext = CHR ''.'')"
      if "n < length (items @ [(s, a)])" for n
      using that ok new(5) by (cases "n = length items") (simp_all add: subtitlesOk_def nth_append)
    then show ?thesis
      using True ok new(1-4,6) by (simp add: item addSubtitle_def sa subtitlesOk_def)
  qed (use ok in \<open>simp add: item addSubtitle_def\<close>)
qed

lemma fold_addSubtitle:
  "subtitlesOk urlParse items \<Longrightarrow> subtitlesOk urlParse (fold (addSubtitle urlParse preserveOriginal) xs items)"
  by (induction xs arbitrary: items) (simp_all add: addSubtitle_ok)

lemma fold_addSubtitle_length:
  "length (fold (addSubtitle urlParse preserveOriginal) xs items) \<le> length xs + length items"
proof (induction xs arbitrary: items)
  case (Cons x xs)
  have "length (addSubtitle urlParse preserveOriginal x items) \<le> Suc (length items)"
    by (simp add: addSubtitle_def split: prod.split)
  with Cons.IH [of "addSubtitle urlParse preserveOriginal x items"] show ?case by simp
qed simp

lemma subtitlesOk_distinct:
  assumes ok: "subtitlesOk urlParse items" and small: "int (length items) < 2 ^ 62"
  shows "distinct (map (\<lambda>x. sub_ID (fst x)) items)"
proof (subst distinct_conv_nth, intro allI impI)
  fix i j assume ij: "i < length (map (\<lambda>x. sub_ID (fst x)) items)" "j < length (map (\<lambda>x. sub_ID (fst x)) items)" "i \<noteq> j"
  then obtain e f where ef: "sub_ID (fst (items ! i)) = ''subtitle-'' @ Itoa (int i + 1) @ e" "e = [] \<or> hd e = CHR ''.''"
    "sub_ID (fst (items ! j)) = ''subtitle-'' @ Itoa (int j + 1) @ f" "f = [] \<or> hd f = CHR ''.''"
    using subtitlesOkD(1) [OF ok, of i] subtitlesOkD(1) [OF ok, of j] unfolding length_map by blast
  have "Itoa (int i + 1) \<noteq> Itoa (int j + 1)"
    using ij small by (simp add: Itoa_inj in_int64_def)
  then show "map (\<lambda>x. sub_ID (fst x)) items ! i \<noteq> map (\<lambda>x. sub_ID (fst x)) items ! j"
    using ij ef Itoa_extension [of "int i + 1" e "int j + 1" f] by auto
qed

lemma normalizeSubtitles_ok:
  assumes "normalizeSubtitles urlParse parse batch preserveOriginal = Inr (subtitles, assets)"
  shows "map sub_ID subtitles = map sa_ID assets" "distinct (map sub_ID subtitles)" "length subtitles \<le> 1024"
    "\<forall>s \<in> set subtitles. sub_Delivery s = ''external'' \<and> (\<exists>r. sub_ID s = ''subtitle-'' @ r)"
proof -
  obtain decoded where decoded: "decodeResponses parse maximumAggregateProviderSubtitles ''aggregate subtitles exceed 1024 items'' 0
      (rb_Results batch) = Inr decoded"
    and lists: "subtitles = map fst (fold (addSubtitle urlParse preserveOriginal) (streamItems decoded) [])"
      "assets = map snd (fold (addSubtitle urlParse preserveOriginal) (streamItems decoded) [])"
    using assms by (auto simp: normalizeSubtitles_def Let_def split: if_splits sum.splits)
  let ?items = "fold (addSubtitle urlParse preserveOriginal) (streamItems decoded) []"
  have ok: "subtitlesOk urlParse ?items"
    by (rule fold_addSubtitle) (simp add: subtitlesOk_def)
  show len: "length subtitles \<le> 1024"
    using decodeResponses_bound [OF decoded] fold_addSubtitle_length [of urlParse preserveOriginal "streamItems decoded" "[]"]
    by (simp add: lists maximumAggregateProviderSubtitles_def)
  show "map sub_ID subtitles = map sa_ID assets"
    using ok by (auto simp: lists subtitlesOk_def list_all_iff)
  show "distinct (map sub_ID subtitles)"
    using subtitlesOk_distinct [OF ok] len by (simp add: lists comp_def)
  show "\<forall>s \<in> set subtitles. sub_Delivery s = ''external'' \<and> (\<exists>r. sub_ID s = ''subtitle-'' @ r)"
  proof
    fix s assume "s \<in> set subtitles"
    then obtain k where k: "k < length ?items" "s = fst (?items ! k)"
      by (metis in_set_conv_nth length_map lists(1) nth_map)
    then show "sub_Delivery s = ''external'' \<and> (\<exists>r. sub_ID s = ''subtitle-'' @ r)"
      using subtitlesOkD [OF ok k(1)] by auto
  qed
qed

section \<open>Heights\<close>

lemma playbackCapabilities_fields [simp]:
  "cap_MaximumHeight (playbackCapabilities processor client h b) = h"
  "cap_TranscodeVideoBitrateKbps (playbackCapabilities processor client h b) = b"
  "cap_MaximumVideoBitrateKbps (playbackCapabilities processor client h b) = cap_MaximumVideoBitrateKbps client"
  "cap_SubtitleModes (playbackCapabilities processor client h b) = cap_SubtitleModes client"
  by (simp_all add: playbackCapabilities_def Let_def split: option.split)

lemma effectivePlaybackMaximumHeight_limits:
  "0 < client \<Longrightarrow> effectivePlaybackMaximumHeight client settings \<le> client"
  "0 < settings \<Longrightarrow> effectivePlaybackMaximumHeight client settings \<le> settings"
  "0 < client \<or> 0 < settings \<Longrightarrow> 0 < effectivePlaybackMaximumHeight client settings"
  by (auto simp: effectivePlaybackMaximumHeight_def)

section \<open>Example\<close>

definition streamURL :: string where
  "streamURL = ''https://h/a.mp4''"

definition streamParse :: "string \<Rightarrow> URL option" where
  "streamParse raw = (if raw = streamURL then Some (zeroURL\<lparr>url_Scheme := ''https'', url_Host := ''h'', url_Path := ''/a.mp4''\<rparr>) else None)"

definition streamAnswer :: "string \<Rightarrow> addon_error + ProviderStream list" where
  "streamAnswer payload =
     (let blank = \<lparr>ps_Name = ''A'', ps_Title = [], ps_URL = [], ps_Description = [], ps_YTID = [], ps_ExternalURL = [], ps_InfoHash = [],
            ps_FileIndex = None, ps_NotWebReady = False, ps_Filename = [], ps_RequestHeaders = []\<rparr>
      in Inr [blank\<lparr>ps_YTID := ''v1''\<rparr>, blank, blank\<lparr>ps_URL := streamURL\<rparr>])"

definition streamBatch :: ResourceBatch where
  "streamBatch = \<lparr>rb_Results = [\<lparr>rr_AddonID = ''x'', rr_ManifestID = ''m'', rr_AddonName = [], rr_Payload = []\<rparr>], rb_Errors = []\<rparr>"

definition streamClient :: Capabilities where
  "streamClient = zeroCapabilities\<lparr>cap_StreamingProtocols := [''http''], cap_Containers := [''mp4'']\<rparr>"

lemma stream_example:
  "case normalizeStreams streamParse streamAnswer streamBatch streamClient of Inl _ \<Rightarrow> False
   | Inr (sources, assets) \<Rightarrow> map src_ID sources = [''stream-2'', ''stream-1''] \<and> map sa_ID assets = [''stream-2'']"
  by code_simp

theorem normalizeStreams_wellformed_witness:
  "\<exists>sources assets. normalizeStreams streamParse streamAnswer streamBatch streamClient = Inr (sources, assets) \<and>
     map src_ID sources = [''stream-2'', ''stream-1''] \<and> sorted_wrt (\<lambda>a b. \<not> sourceLess b a) sources \<and>
     list_all (sourceOk streamParse streamClient) sources"
proof -
  obtain sources assets where r: "normalizeStreams streamParse streamAnswer streamBatch streamClient = Inr (sources, assets)"
    "map src_ID sources = [''stream-2'', ''stream-1'']"
    using stream_example by (auto split: sum.splits prod.splits)
  show ?thesis
    by (rule exI [of _ sources], rule exI [of _ assets]) (use r normalizeStreams_wellformed [OF r(1)] in simp)
qed

end
