(* ===== verification/Playback_Preparation.thy ===== *)
theory Playback_Preparation
  imports Playback_Streams "HOL-Library.Sublist"
begin

text \<open>
  The cache of prepared playbacks (\<open>playback/preparation_cache.go\<close>): one preparation runs for a key at a
  time, its waiters share the result, finished preparations are kept until their source reference
  expires, and a handoff lets the next resolve of a client take over the playback it has prepared.
  The mutex makes each method one step. A map of the code is an association list in an order of which
  nothing depends; \<open>prep_calls\<close> is the heap of \<open>playbackPreparationCall\<close> objects, which waiters and the
  running goroutines point to after the map has dropped them.
\<close>

section \<open>State\<close>

record preparedPlayback =
  pp_source :: Source
  pp_asset :: "storedAsset option"
  pp_subtitles :: "Subtitle list"
  pp_subtitleAssets :: "storedAsset list"
  pp_providerErrors :: "ProviderFailure list"
  pp_addonIDs :: "string list"

record playbackPolicy =
  pol_allowTranscoding :: bool
  pol_maximumHeight :: int
  pol_bitrateKbps :: int
  pol_externalPlayer :: bool

record playbackPreparationEntry =
  pe_playback :: preparedPlayback
  pe_expiresAt :: int

record playbackPreparationHandoff =
  ho_cacheKey :: string
  ho_selectionRevision :: "64 word"
  ho_startKey :: string
  ho_expiresAt :: int

record playbackPreparationCall =
  call_done :: bool
  call_playback :: preparedPlayback
  call_err :: "playback_error option"

record playbackPreparationCache =
  prep_entries :: "(string \<times> playbackPreparationEntry) list"
  prep_inFlight :: "(string \<times> nat) list"
  prep_handoffs :: "(string \<times> playbackPreparationHandoff) list"
  prep_generation :: "64 word"
  prep_calls :: "playbackPreparationCall list"

definition zeroPreparedPlayback :: preparedPlayback where
  "zeroPreparedPlayback = \<lparr>pp_source = zeroSource, pp_asset = None, pp_subtitles = [], pp_subtitleAssets = [],
     pp_providerErrors = [], pp_addonIDs = []\<rparr>"

definition playbackPreparationTimeout :: int where
  "playbackPreparationTimeout = 30 * 1000000000"

definition maximumPlaybackPreparations :: nat where
  "maximumPlaybackPreparations = 512"

definition playbackPreparationHandoffTTL :: int where
  "playbackPreparationHandoffTTL = 30 * 1000000000"

definition newPlaybackPreparationCache :: playbackPreparationCache where
  "newPlaybackPreparationCache = \<lparr>prep_entries = [], prep_inFlight = [], prep_handoffs = [], prep_generation = 0, prep_calls = []\<rparr>"

definition clonePreparedPlayback :: "preparedPlayback \<Rightarrow> preparedPlayback" where
  "clonePreparedPlayback playback =
     playback\<lparr>pp_source := cloneSource (pp_source playback),
       pp_asset := (case pp_asset playback of None \<Rightarrow> None | Some asset \<Rightarrow> Some (cloneStoredAsset asset)),
       pp_subtitles := [] @ pp_subtitles playback,
       pp_subtitleAssets := map cloneStoredAsset (pp_subtitleAssets playback),
       pp_providerErrors := [] @ pp_providerErrors playback, pp_addonIDs := [] @ pp_addonIDs playback\<rparr>"

section \<open>Keys\<close>

definition FormatBool :: "bool \<Rightarrow> string" where
  "FormatBool b = (if b then ''true'' else ''false'')"

definition FormatUint :: "64 word \<Rightarrow> string" where
  "FormatUint w = Itoa (uint w)"

definition playbackPreparationCacheKey :: "string \<Rightarrow> 64 word \<Rightarrow> playbackPolicy \<Rightarrow> string" where
  "playbackPreparationCacheKey referenceID revision policy =
     referenceID @ ''|'' @ FormatUint revision @ ''|'' @ FormatBool (pol_allowTranscoding policy) @ ''|'' @
     Itoa (pol_maximumHeight policy) @ ''|'' @ Itoa (pol_bitrateKbps policy) @ ''|'' @ FormatBool (pol_externalPlayer policy)"

text \<open>
  \<open>hlsStartKey\<close> of \<open>hls.go\<close>. Its argument has passed \<open>validPlaybackStart\<close>; outside the range of
  \<open>int64\<close>, where the conversion of the language is left to the machine, it is the least integer here.
\<close>

fun hlsStartKey :: "float64 \<Rightarrow> string" where
  "hlsStartKey (Finite seconds) = Itoa (if in_int64 (toward_zero seconds) then toward_zero seconds else - 9223372036854775808)"
| "hlsStartKey _ = Itoa (- 9223372036854775808)"

definition referenceKey :: "sourceReference \<Rightarrow> playbackPolicy \<Rightarrow> string" where
  "referenceKey reference policy = playbackPreparationCacheKey (ref_ID reference) (ref_TransportRevision reference) policy"

section \<open>Removing\<close>

definition clearPreparations :: "playbackPreparationCache \<Rightarrow> playbackPreparationCache" where
  "clearPreparations cache = cache\<lparr>prep_generation := prep_generation cache + 1, prep_entries := [], prep_inFlight := [], prep_handoffs := []\<rparr>"

definition evictKeys :: "(string \<Rightarrow> bool) \<Rightarrow> playbackPreparationCache \<Rightarrow> playbackPreparationCache" where
  "evictKeys P cache = cache\<lparr>prep_entries := filter (\<lambda>(key, _). \<not> P key) (prep_entries cache),
     prep_inFlight := filter (\<lambda>(key, _). \<not> P key) (prep_inFlight cache),
     prep_handoffs := filter (\<lambda>(_, handoff). \<not> P (ho_cacheKey handoff)) (prep_handoffs cache)\<rparr>"

definition evict :: "sourceReference \<Rightarrow> playbackPolicy \<Rightarrow> playbackPreparationCache \<Rightarrow> playbackPreparationCache" where
  "evict reference policy cache = evictKeys (\<lambda>key. key = referenceKey reference policy) cache"

definition revisionPrefix :: "string \<Rightarrow> 64 word \<Rightarrow> string" where
  "revisionPrefix referenceID revision = referenceID @ ''|'' @ FormatUint revision @ ''|''"

definition evictRevision :: "string \<Rightarrow> 64 word \<Rightarrow> playbackPreparationCache \<Rightarrow> playbackPreparationCache" where
  "evictRevision referenceID revision cache = evictKeys (\<lambda>key. hasPrefix key (revisionPrefix referenceID revision)) cache"

definition removeExpiredPreparations :: "int \<Rightarrow> playbackPreparationCache \<Rightarrow> playbackPreparationCache" where
  "removeExpiredPreparations now cache = cache\<lparr>
     prep_entries := filter (\<lambda>(_, entry). now < pe_expiresAt entry) (prep_entries cache),
     prep_handoffs := filter (\<lambda>(_, handoff). now < ho_expiresAt handoff) (prep_handoffs cache)\<rparr>"

text \<open>The loop of \<open>removeEarliestLocked\<close>; the empty key is the code's "none yet".\<close>

fun earliestPreparation :: "string \<Rightarrow> int \<Rightarrow> (string \<times> playbackPreparationEntry) list \<Rightarrow> string" where
  "earliestPreparation earliestKey earliest [] = earliestKey"
| "earliestPreparation earliestKey earliest ((key, entry) # rest) =
     (if earliestKey = [] \<or> pe_expiresAt entry < earliest \<or> pe_expiresAt entry = earliest \<and> key < earliestKey
      then earliestPreparation key (pe_expiresAt entry) rest else earliestPreparation earliestKey earliest rest)"

definition removeEarliestPreparation :: "playbackPreparationCache \<Rightarrow> playbackPreparationCache" where
  "removeEarliestPreparation cache =
     (let earliestKey = earliestPreparation [] 0 (prep_entries cache)
      in if earliestKey = [] then cache
         else cache\<lparr>prep_entries := AList.delete earliestKey (prep_entries cache),
           prep_handoffs := filter (\<lambda>(_, handoff). ho_cacheKey handoff \<noteq> earliestKey) (prep_handoffs cache)\<rparr>)"

text \<open>
  The loop that makes room. No entry has the empty key, so every round removes one entry; \<open>fuel\<close> is the
  number of entries, which bounds the rounds.
\<close>

fun makeRoomLoop :: "nat \<Rightarrow> playbackPreparationCache \<Rightarrow> playbackPreparationCache" where
  "makeRoomLoop 0 cache = cache"
| "makeRoomLoop (Suc fuel) cache =
     (if length (prep_entries cache) \<ge> maximumPlaybackPreparations then makeRoomLoop fuel (removeEarliestPreparation cache) else cache)"

definition makeRoom :: "playbackPreparationCache \<Rightarrow> playbackPreparationCache" where
  "makeRoom cache = makeRoomLoop (length (prep_entries cache)) cache"

section \<open>Preparing\<close>

text \<open>
  The part of \<open>preparedPlayback\<close> under the lock: a finished preparation is served, a running one
  joined, and otherwise a new call started, whose goroutine holds the pointer and the generation.
\<close>

datatype preparationStart =
    Served preparedPlayback
  | Joined nat
  | Started nat "64 word"

definition beginPreparation :: "int \<Rightarrow> string \<Rightarrow> playbackPreparationCache \<Rightarrow> preparationStart \<times> playbackPreparationCache" where
  "beginPreparation now cacheKey cache0 =
     (let cache = removeExpiredPreparations now cache0
      in case map_of (prep_entries cache) cacheKey of
           Some entry \<Rightarrow> (Served (clonePreparedPlayback (pe_playback entry)), cache)
         | None \<Rightarrow>
             (case map_of (prep_inFlight cache) cacheKey of
                Some call \<Rightarrow> (Joined call, cache)
              | None \<Rightarrow>
                  (let call = length (prep_calls cache)
                   in (Started call (prep_generation cache),
                       cache\<lparr>prep_calls := prep_calls cache @ [\<lparr>call_done = False, call_playback = zeroPreparedPlayback, call_err = None\<rparr>],
                         prep_inFlight := AList.update cacheKey call (prep_inFlight cache)\<rparr>))))"

text \<open>What a waiter returns: the context's error when it is done first, and the result once the call is done.\<close>

definition awaitCall :: "playback_error option \<Rightarrow> nat \<Rightarrow> playbackPreparationCache \<Rightarrow> (preparedPlayback \<times> playback_error option) option" where
  "awaitCall contextDone call cache =
     (case contextDone of Some err \<Rightarrow> Some (zeroPreparedPlayback, Some err)
      | None \<Rightarrow>
          (let c = prep_calls cache ! call
           in if call_done c then Some (clonePreparedPlayback (call_playback c), call_err c) else None))"

definition completePreparation ::
    "string \<Rightarrow> nat \<Rightarrow> 64 word \<Rightarrow> preparedPlayback \<Rightarrow> playback_error option \<Rightarrow> int \<Rightarrow> playbackPreparationCache \<Rightarrow> playbackPreparationCache" where
  "completePreparation cacheKey call generation playback err expiresAt cache =
     (let c1 = cache\<lparr>prep_calls := (prep_calls cache)[call := \<lparr>call_done = False, call_playback = clonePreparedPlayback playback, call_err = err\<rparr>]\<rparr>;
          current = map_of (prep_inFlight cache) cacheKey = Some call;
          c2 = (if err = None \<and> prep_generation c1 = generation \<and> current then
                  (let room = makeRoom c1
                   in room\<lparr>prep_entries := AList.update cacheKey
                        \<lparr>pe_playback = clonePreparedPlayback playback, pe_expiresAt = expiresAt\<rparr> (prep_entries room)\<rparr>)
                else c1);
          c3 = (if current then c2\<lparr>prep_inFlight := AList.delete cacheKey (prep_inFlight c2)\<rparr> else c2)
      in c3\<lparr>prep_calls := (prep_calls c3)[call := (prep_calls c3 ! call)\<lparr>call_done := True\<rparr>]\<rparr>)"

section \<open>Handoffs\<close>

definition markResolveHandoff ::
    "(nat \<Rightarrow> int) \<Rightarrow> string \<Rightarrow> sourceReference \<Rightarrow> playbackPolicy \<Rightarrow> float64 \<Rightarrow> playbackPreparationCache \<Rightarrow> bool \<times> playbackPreparationCache" where
  "markResolveHandoff clock owner reference policy startSeconds cache0 =
     (let cacheKey = referenceKey reference policy;
          cache = removeExpiredPreparations (clock 0) cache0
      in case map_of (prep_entries cache) cacheKey of
           None \<Rightarrow> (False, cache\<lparr>prep_handoffs := AList.delete owner (prep_handoffs cache)\<rparr>)
         | Some entry \<Rightarrow>
             (let expiresAt0 = clock 1 + playbackPreparationHandoffTTL;
                  expiresAt = (if pe_expiresAt entry < expiresAt0 then pe_expiresAt entry else expiresAt0)
              in (True, cache\<lparr>prep_handoffs := AList.update owner
                   \<lparr>ho_cacheKey = cacheKey, ho_selectionRevision = ref_SelectionRevision reference,
                    ho_startKey = hlsStartKey startSeconds, ho_expiresAt = expiresAt\<rparr> (prep_handoffs cache)\<rparr>)))"

definition consumeResolveHandoff ::
    "(nat \<Rightarrow> int) \<Rightarrow> string \<Rightarrow> sourceReference \<Rightarrow> playbackPolicy \<Rightarrow> float64 \<Rightarrow> playbackPreparationCache \<Rightarrow>
     preparedPlayback option \<times> playbackPreparationCache" where
  "consumeResolveHandoff clock owner reference policy startSeconds cache0 =
     (let cacheKey = referenceKey reference policy;
          cache = removeExpiredPreparations (clock 0) cache0
      in case map_of (prep_handoffs cache) owner of
           None \<Rightarrow> (None, cache)
         | Some handoff \<Rightarrow>
             (let taken = cache\<lparr>prep_handoffs := AList.delete owner (prep_handoffs cache)\<rparr>
              in if \<not> clock 1 < ho_expiresAt handoff \<or> ho_cacheKey handoff \<noteq> cacheKey \<or>
                    ho_selectionRevision handoff \<noteq> ref_SelectionRevision reference \<or> ho_startKey handoff \<noteq> hlsStartKey startSeconds
                 then (None, taken)
                 else (case map_of (prep_entries taken) cacheKey of
                         None \<Rightarrow> (None, taken)
                       | Some entry \<Rightarrow> (Some (clonePreparedPlayback (pe_playback entry)), taken))))"

section \<open>The running server\<close>

text \<open>A goroutine that runs \<open>buildPreparedPlayback\<close>, with the variables it passes to \<open>complete\<close>.\<close>

record preparationTask =
  task_key :: string
  task_call :: nat
  task_generation :: "64 word"
  task_expiresAt :: int

record preparationSystem =
  sys_cache :: playbackPreparationCache
  sys_tasks :: "preparationTask list"

definition preparePlayback :: "int \<Rightarrow> string \<Rightarrow> int \<Rightarrow> preparationSystem \<Rightarrow> preparationStart \<times> preparationSystem" where
  "preparePlayback now cacheKey expiresAt s =
     (case beginPreparation now cacheKey (sys_cache s) of
        (Started call generation, cache) \<Rightarrow>
          (Started call generation, s\<lparr>sys_cache := cache, sys_tasks := sys_tasks s @
             [\<lparr>task_key = cacheKey, task_call = call, task_generation = generation, task_expiresAt = expiresAt\<rparr>]\<rparr>)
      | (result, cache) \<Rightarrow> (result, s\<lparr>sys_cache := cache\<rparr>))"

definition finishTask :: "preparationTask \<Rightarrow> preparedPlayback \<Rightarrow> playback_error option \<Rightarrow> preparationSystem \<Rightarrow> preparationSystem" where
  "finishTask task playback err s = s\<lparr>
     sys_cache := completePreparation (task_key task) (task_call task) (task_generation task) playback err (task_expiresAt task) (sys_cache s),
     sys_tasks := remove1 task (sys_tasks s)\<rparr>"

inductive preparation_step :: "preparationSystem \<Rightarrow> preparationSystem \<Rightarrow> bool" where
  prepare: "preparePlayback now (referenceKey reference policy) (ref_ExpiresAt reference) s = (result, t) \<Longrightarrow> preparation_step s t"
| finish: "task \<in> set (sys_tasks s) \<Longrightarrow> preparation_step s (finishTask task playback err s)"
| clear: "preparation_step s (s\<lparr>sys_cache := clearPreparations (sys_cache s)\<rparr>)"
| evict: "preparation_step s (s\<lparr>sys_cache := evict reference policy (sys_cache s)\<rparr>)"
| evictRevision: "preparation_step s (s\<lparr>sys_cache := evictRevision referenceID revision (sys_cache s)\<rparr>)"
| mark: "clock 0 \<le> clock 1 \<Longrightarrow> markResolveHandoff clock owner reference policy start (sys_cache s) = (marked, cache) \<Longrightarrow>
    preparation_step s (s\<lparr>sys_cache := cache\<rparr>)"
| consume: "consumeResolveHandoff clock owner reference policy start (sys_cache s) = (playback, cache) \<Longrightarrow>
    preparation_step s (s\<lparr>sys_cache := cache\<rparr>)"

definition startPreparations :: preparationSystem where
  "startPreparations = \<lparr>sys_cache = newPlaybackPreparationCache, sys_tasks = []\<rparr>"
section \<open>Keys\<close>

lemma FormatBool_inj: "FormatBool a = FormatBool b \<longleftrightarrow> a = b"
  by (simp add: FormatBool_def)

lemma FormatBool_no_separator: "CHR ''|'' \<notin> set (FormatBool b)"
  by (simp add: FormatBool_def)

lemma FormatUint_inj: "FormatUint v = FormatUint w \<longleftrightarrow> v = w"
  by (simp add: FormatUint_def Itoa_injective word_uint_eq_iff)

lemma FormatUint_no_separator: "CHR ''|'' \<notin> set (FormatUint w)"
  by (simp add: FormatUint_def)

lemma cacheKey_nested: "playbackPreparationCacheKey i r p =
  ((((i @ CHR ''|'' # FormatUint r) @ CHR ''|'' # FormatBool (pol_allowTranscoding p)) @ CHR ''|'' # Itoa (pol_maximumHeight p)) @
    CHR ''|'' # Itoa (pol_bitrateKbps p)) @ CHR ''|'' # FormatBool (pol_externalPlayer p)"
  by (simp add: playbackPreparationCacheKey_def)

lemma cacheKey_inj: "playbackPreparationCacheKey i r p = playbackPreparationCacheKey j q pol \<longleftrightarrow> i = j \<and> r = q \<and> p = pol"
  unfolding cacheKey_nested
  by (cases p; cases pol)
    (simp add: separated_last_eq_iff FormatBool_no_separator FormatUint_no_separator Itoa_injective FormatBool_inj FormatUint_inj
      conj_assoc del: append_assoc)

lemma cacheKey_prefix:
  assumes "CHR ''|'' \<notin> set i" "CHR ''|'' \<notin> set j"
  shows "hasPrefix (playbackPreparationCacheKey i r p) (revisionPrefix j q) \<longleftrightarrow> i = j \<and> r = q"
proof -
  obtain rest where key: "playbackPreparationCacheKey i r p = i @ CHR ''|'' # FormatUint r @ CHR ''|'' # rest"
    by (simp add: playbackPreparationCacheKey_def)
  have "i @ CHR ''|'' # FormatUint r @ CHR ''|'' # rest = (j @ ''|'' @ FormatUint q @ ''|'') @ t \<longleftrightarrow> i = j \<and> r = q \<and> rest = t" for t
    using separated_eq_iff [OF assms, of "FormatUint r @ CHR ''|'' # rest" "FormatUint q @ CHR ''|'' # t"]
      separated_eq_iff [OF FormatUint_no_separator FormatUint_no_separator, of r rest q t] FormatUint_inj [of r q]
    by auto
  then show ?thesis
    by (auto simp: hasPrefix_iff key revisionPrefix_def)
qed

section \<open>The invariant\<close>

lemma clonePreparedPlayback_idem [simp]: "clonePreparedPlayback (clonePreparedPlayback p) = clonePreparedPlayback p"
  by (simp add: clonePreparedPlayback_def split: option.split)

definition keysOf :: "(string \<times> 'a) list \<Rightarrow> string set" where
  "keysOf xs = fst ` set xs"

text \<open>A cached playback is the result of a call that has succeeded.\<close>

definition resultOf :: "nat \<Rightarrow> playbackPreparationCall list \<Rightarrow> preparedPlayback \<Rightarrow> bool" where
  "resultOf n calls playback \<longleftrightarrow>
     (\<exists>p < length calls. n \<le> p \<and> call_done (calls ! p) \<and> call_err (calls ! p) = None \<and> call_playback (calls ! p) = playback)"

text \<open>
  The maps have one value per key and no more entries than allowed; no key is finished and running at
  once; a running call of the map has its goroutine, and every call that is not done has exactly one; a
  handoff names an entry that outlives it.
\<close>

definition mapsOk :: "playbackPreparationCache \<Rightarrow> bool" where
  "mapsOk c \<longleftrightarrow> distinct (map fst (prep_entries c)) \<and> length (prep_entries c) \<le> maximumPlaybackPreparations \<and>
     [] \<notin> keysOf (prep_entries c) \<and> distinct (map fst (prep_inFlight c)) \<and> distinct (map fst (prep_handoffs c)) \<and>
     keysOf (prep_entries c) \<inter> keysOf (prep_inFlight c) = {}"

definition tasksOk :: "preparationSystem \<Rightarrow> bool" where
  "tasksOk s \<longleftrightarrow> distinct (map task_call (sys_tasks s)) \<and>
     task_call ` set (sys_tasks s) = {p. p < length (prep_calls (sys_cache s)) \<and> \<not> call_done (prep_calls (sys_cache s) ! p)} \<and>
     (\<forall>task \<in> set (sys_tasks s). task_key task \<noteq> []) \<and>
     (\<forall>(k, p) \<in> set (prep_inFlight (sys_cache s)). \<exists>task \<in> set (sys_tasks s).
        task_call task = p \<and> task_key task = k \<and> task_generation task = prep_generation (sys_cache s))"

definition handoffsOk :: "playbackPreparationCache \<Rightarrow> bool" where
  "handoffsOk c \<longleftrightarrow> (\<forall>(o', h) \<in> set (prep_handoffs c). \<exists>e. (ho_cacheKey h, e) \<in> set (prep_entries c) \<and> ho_expiresAt h \<le> pe_expiresAt e)"

text \<open>Relative to keys \<open>K\<close> and a time when \<open>n\<close> calls had been made: what is kept for them comes from later calls.\<close>

definition originOk :: "(string \<Rightarrow> bool) \<Rightarrow> nat \<Rightarrow> playbackPreparationCache \<Rightarrow> bool" where
  "originOk K n c \<longleftrightarrow> n \<le> length (prep_calls c) \<and>
     (\<forall>(k, e) \<in> set (prep_entries c). K k \<longrightarrow> resultOf n (prep_calls c) (pe_playback e)) \<and>
     (\<forall>(k, p) \<in> set (prep_inFlight c). K k \<longrightarrow> n \<le> p)"

definition prepOk :: "preparationSystem \<Rightarrow> bool" where
  "prepOk s \<longleftrightarrow> mapsOk (sys_cache s) \<and> tasksOk s \<and> handoffsOk (sys_cache s) \<and> originOk (\<lambda>_. True) 0 (sys_cache s)"

section \<open>Removing keeps the invariant\<close>

text \<open>A cache that keeps some of the entries, the running calls and the handoffs.\<close>

definition shrinks :: "playbackPreparationCache \<Rightarrow> playbackPreparationCache \<Rightarrow> bool" where
  "shrinks c d \<longleftrightarrow> prep_calls d = prep_calls c \<and> (prep_inFlight d = [] \<or> prep_generation d = prep_generation c) \<and>
     subseq (prep_entries d) (prep_entries c) \<and> subseq (prep_inFlight d) (prep_inFlight c) \<and> subseq (prep_handoffs d) (prep_handoffs c) \<and>
     (\<forall>(o', h) \<in> set (prep_handoffs d). \<forall>e. (ho_cacheKey h, e) \<in> set (prep_entries c) \<and> ho_expiresAt h \<le> pe_expiresAt e \<longrightarrow>
        (ho_cacheKey h, e) \<in> set (prep_entries d))"

lemma set_mono_subseq: "subseq ys xs \<Longrightarrow> set ys \<subseteq> set xs"
  by (induction rule: list_emb.induct) auto

lemma subseq_distinct: "subseq ys xs \<Longrightarrow> distinct xs \<Longrightarrow> distinct ys"
  by (induction rule: list_emb.induct) (auto dest: set_mono_subseq)

lemma subseq_maps:
  assumes "subseq ys xs"
  shows "set ys \<subseteq> set xs" "length ys \<le> length xs" "keysOf ys \<subseteq> keysOf xs" "distinct (map fst xs) \<Longrightarrow> distinct (map fst ys)"
  using assms list_emb_length [OF assms] subseq_map [OF assms, of fst] subseq_distinct [OF subseq_map [OF assms, of fst]]
  by (auto simp: keysOf_def dest: set_mono_subseq)

lemma shrinksD:
  assumes "shrinks c d"
  shows "prep_calls d = prep_calls c" "prep_inFlight d = [] \<or> prep_generation d = prep_generation c"
    "set (prep_entries d) \<subseteq> set (prep_entries c)" "set (prep_inFlight d) \<subseteq> set (prep_inFlight c)"
    "set (prep_handoffs d) \<subseteq> set (prep_handoffs c)"
    "\<And>o' h e. (o', h) \<in> set (prep_handoffs d) \<Longrightarrow> (ho_cacheKey h, e) \<in> set (prep_entries c) \<Longrightarrow> ho_expiresAt h \<le> pe_expiresAt e \<Longrightarrow>
        (ho_cacheKey h, e) \<in> set (prep_entries d)"
  using assms subseq_maps(1) unfolding shrinks_def by blast+

lemma mapsOk_shrinks:
  assumes "mapsOk c" "shrinks c d"
  shows "mapsOk d"
proof -
  have sub: "subseq (prep_entries d) (prep_entries c)" "subseq (prep_inFlight d) (prep_inFlight c)" "subseq (prep_handoffs d) (prep_handoffs c)"
    using assms(2) by (simp_all add: shrinks_def)
  show ?thesis
    using assms(1) subseq_maps(2-) [OF sub(1)] subseq_maps(3-) [OF sub(2)] subseq_maps(4) [OF sub(3)]
    unfolding mapsOk_def by (meson disjoint_iff le_trans subsetD)
qed

lemma handoffsOk_shrinks:
  assumes "handoffsOk c" "shrinks c d"
  shows "handoffsOk d"
  using assms(1) shrinksD(5,6) [OF assms(2)] unfolding handoffsOk_def by (fastforce simp: split_beta)

lemma originOk_shrinks:
  assumes "originOk K n c" "shrinks c d"
  shows "originOk K n d"
proof -
  note d = shrinksD(1,3,4) [OF assms(2)]
  have "\<forall>x \<in> set (prep_entries d). K (fst x) \<longrightarrow> resultOf n (prep_calls d) (pe_playback (snd x))"
    "\<forall>x \<in> set (prep_inFlight d). K (fst x) \<longrightarrow> n \<le> snd x"
    using assms(1) d unfolding originOk_def by (auto simp: split_beta)
  then show ?thesis
    using assms(1) d(1) by (simp add: originOk_def split_beta)
qed

lemma tasksOk_shrinks:
  assumes "tasksOk s" "shrinks (sys_cache s) d"
  shows "tasksOk (s\<lparr>sys_cache := d\<rparr>)"
proof (cases "prep_inFlight d = []")
  case True
  with assms(1) shrinksD(1) [OF assms(2)] show ?thesis by (simp add: tasksOk_def)
next
  case False
  with assms(1) shrinksD [OF assms(2)] show ?thesis
    unfolding tasksOk_def by (auto dest!: subsetD)
qed

lemma prepOk_shrinks: "prepOk s \<Longrightarrow> shrinks (sys_cache s) d \<Longrightarrow> prepOk (s\<lparr>sys_cache := d\<rparr>)"
  unfolding prepOk_def using mapsOk_shrinks handoffsOk_shrinks originOk_shrinks tasksOk_shrinks by simp blast

lemma shrinks_refl [simp]: "shrinks c c"
  by (simp add: shrinks_def)

lemma shrinks_trans:
  assumes "shrinks c d" "shrinks d e" "prep_generation e = prep_generation d"
  shows "shrinks c e"
proof -
  have "subseq (prep_entries e) (prep_entries c)" "subseq (prep_inFlight e) (prep_inFlight c)" "subseq (prep_handoffs e) (prep_handoffs c)"
    using assms subseq_order.trans unfolding shrinks_def by blast+
  moreover have "prep_inFlight e = [] \<or> prep_generation e = prep_generation c"
    using assms unfolding shrinks_def by auto
  moreover have "(ho_cacheKey h, x) \<in> set (prep_entries e)"
    if "(o', h) \<in> set (prep_handoffs e)" "(ho_cacheKey h, x) \<in> set (prep_entries c)" "ho_expiresAt h \<le> pe_expiresAt x" for o' h x
  proof (rule shrinksD(6) [OF assms(2) that(1) _ that(3)])
    have "(o', h) \<in> set (prep_handoffs d)"
      using that(1) shrinksD(5) [OF assms(2)] by blast
    from shrinksD(6) [OF assms(1) this that(2,3)] show "(ho_cacheKey h, x) \<in> set (prep_entries d)" .
  qed
  ultimately show ?thesis
    using shrinksD(1) [OF assms(1)] shrinksD(1) [OF assms(2)] unfolding shrinks_def by auto
qed

lemma shrinks_clear: "shrinks c (clearPreparations c)"
  by (simp add: shrinks_def clearPreparations_def)

lemma shrinks_evictKeys: "shrinks c (evictKeys P c)"
  by (auto simp: shrinks_def evictKeys_def)

lemma shrinks_removeExpired: "shrinks c (removeExpiredPreparations now c)"
  by (auto simp: shrinks_def removeExpiredPreparations_def)

lemma shrinks_removeEarliest: "shrinks c (removeEarliestPreparation c)"
  by (auto simp: shrinks_def removeEarliestPreparation_def Let_def delete_filter)

section \<open>Making room\<close>

lemma earliestPreparation_mem:
  "earliestPreparation k t xs = k \<or> earliestPreparation k t xs \<in> keysOf xs"
proof (induction k t xs rule: earliestPreparation.induct)
  case (2 k t key entry rest)
  then show ?case by (auto simp: keysOf_def)
qed simp

lemma earliestPreparation_found:
  assumes "xs \<noteq> []" "[] \<notin> keysOf xs"
  shows "earliestPreparation [] t xs \<in> keysOf xs" "earliestPreparation [] t xs \<noteq> []"
proof -
  obtain key entry rest where xs: "xs = (key, entry) # rest" using assms(1) by (metis list.exhaust surj_pair)
  then show "earliestPreparation [] t xs \<in> keysOf xs"
    using earliestPreparation_mem [of key "pe_expiresAt entry" rest] by (auto simp: keysOf_def)
  with assms(2) show "earliestPreparation [] t xs \<noteq> []" by metis
qed

lemma removeEarliest_fields [simp]:
  "prep_calls (removeEarliestPreparation c) = prep_calls c" "prep_inFlight (removeEarliestPreparation c) = prep_inFlight c"
  "prep_generation (removeEarliestPreparation c) = prep_generation c"
  by (simp_all add: removeEarliestPreparation_def Let_def)

lemma makeRoomLoop_fields [simp]:
  "prep_calls (makeRoomLoop fuel c) = prep_calls c" "prep_inFlight (makeRoomLoop fuel c) = prep_inFlight c"
  "prep_generation (makeRoomLoop fuel c) = prep_generation c"
  by (induction fuel arbitrary: c) simp_all

lemma makeRoom_fields [simp]:
  "prep_calls (makeRoom c) = prep_calls c" "prep_inFlight (makeRoom c) = prep_inFlight c"
  "prep_generation (makeRoom c) = prep_generation c"
  by (simp_all add: makeRoom_def)

lemma shrinks_makeRoom: "shrinks c (makeRoom c)"
proof -
  have "shrinks c (makeRoomLoop fuel c)" for fuel c
  proof (induction fuel arbitrary: c)
    case (Suc fuel)
    show ?case
      using shrinks_trans [OF shrinks_removeEarliest Suc.IH [of "removeEarliestPreparation c"]] by simp
  qed simp
  then show ?thesis by (simp add: makeRoom_def)
qed

lemma length_removeEarliest:
  assumes "prep_entries c \<noteq> []" "[] \<notin> keysOf (prep_entries c)"
  shows "length (prep_entries (removeEarliestPreparation c)) < length (prep_entries c)"
proof -
  let ?k = "earliestPreparation [] 0 (prep_entries c)"
  note found = earliestPreparation_found [OF assms, of 0]
  then obtain e where "(?k, e) \<in> set (prep_entries c)" by (auto simp: keysOf_def)
  then have "length (filter (\<lambda>x. fst x \<noteq> ?k) (prep_entries c)) < length (prep_entries c)"
    by (intro length_filter_less) auto
  with found(2) show ?thesis by (simp add: removeEarliestPreparation_def Let_def delete_filter)
qed

lemma length_makeRoom:
  assumes "[] \<notin> keysOf (prep_entries c)"
  shows "length (prep_entries (makeRoom c)) < maximumPlaybackPreparations"
proof -
  have "length (prep_entries (makeRoomLoop fuel c)) < maximumPlaybackPreparations"
    if "[] \<notin> keysOf (prep_entries c)" "length (prep_entries c) \<le> fuel" for fuel c
    using that
  proof (induction fuel arbitrary: c)
    case 0
    then show ?case by (simp add: maximumPlaybackPreparations_def)
  next
    case (Suc fuel)
    show ?case
    proof (cases "maximumPlaybackPreparations \<le> length (prep_entries c)")
      case True
      then have "prep_entries c \<noteq> []" by (auto simp: maximumPlaybackPreparations_def)
      from length_removeEarliest [OF this Suc.prems(1)] Suc.prems(2)
      have "length (prep_entries (removeEarliestPreparation c)) \<le> fuel" by simp
      moreover have "[] \<notin> keysOf (prep_entries (removeEarliestPreparation c))"
        using Suc.prems(1) subseq_maps(3) shrinks_removeEarliest [of c] unfolding shrinks_def by blast
      ultimately show ?thesis using Suc.IH True by simp
    qed simp
  qed
  with assms show ?thesis by (simp add: makeRoom_def)
qed

section \<open>Starting and finishing keep the invariant\<close>

lemma resultOf_append: "resultOf n calls p \<Longrightarrow> resultOf n (calls @ xs) p"
  unfolding resultOf_def by (auto simp: nth_append)

lemma resultOf_update:
  assumes "resultOf n calls p" "i < length calls" "\<not> call_done (calls ! i)"
  shows "resultOf n (calls[i := x]) p"
  using assms unfolding resultOf_def by (metis length_list_update nth_list_update_neq)

lemma taskCall_less:
  "tasksOk s \<Longrightarrow> task \<in> set (sys_tasks s) \<Longrightarrow> task_call task < length (prep_calls (sys_cache s)) \<and> \<not> call_done (prep_calls (sys_cache s) ! task_call task)"
  unfolding tasksOk_def by blast

lemma removeExpired_fields [simp]:
  "prep_calls (removeExpiredPreparations now c) = prep_calls c" "prep_inFlight (removeExpiredPreparations now c) = prep_inFlight c"
  "prep_generation (removeExpiredPreparations now c) = prep_generation c"
  by (simp_all add: removeExpiredPreparations_def)

lemma map_of_None_keys: "map_of xs k = None \<longleftrightarrow> k \<notin> keysOf xs"
  by (simp add: map_of_eq_None_iff keysOf_def)

text \<open>The state in which \<open>preparePlayback\<close> leaves the server, for each of its results.\<close>

definition startedCache :: "string \<Rightarrow> playbackPreparationCache \<Rightarrow> playbackPreparationCache" where
  "startedCache cacheKey c = c\<lparr>prep_calls := prep_calls c @ [\<lparr>call_done = False, call_playback = zeroPreparedPlayback, call_err = None\<rparr>],
     prep_inFlight := prep_inFlight c @ [(cacheKey, length (prep_calls c))]\<rparr>"

lemma preparePlayback_cases:
  assumes "preparePlayback now cacheKey expiresAt s = (result, t)"
  obtains (served) entry where "map_of (prep_entries (removeExpiredPreparations now (sys_cache s))) cacheKey = Some entry"
      "result = Served (clonePreparedPlayback (pe_playback entry))" "t = s\<lparr>sys_cache := removeExpiredPreparations now (sys_cache s)\<rparr>"
  | (joined) call where "map_of (prep_inFlight (sys_cache s)) cacheKey = Some call" "result = Joined call"
      "t = s\<lparr>sys_cache := removeExpiredPreparations now (sys_cache s)\<rparr>"
      "cacheKey \<notin> keysOf (prep_entries (removeExpiredPreparations now (sys_cache s)))"
  | (started) "cacheKey \<notin> keysOf (prep_entries (removeExpiredPreparations now (sys_cache s)))" "cacheKey \<notin> keysOf (prep_inFlight (sys_cache s))"
      "result = Started (length (prep_calls (sys_cache s))) (prep_generation (sys_cache s))"
      "t = s\<lparr>sys_cache := startedCache cacheKey (removeExpiredPreparations now (sys_cache s)), sys_tasks := sys_tasks s @
         [\<lparr>task_key = cacheKey, task_call = length (prep_calls (sys_cache s)), task_generation = prep_generation (sys_cache s), task_expiresAt = expiresAt\<rparr>]\<rparr>"
proof (cases "map_of (prep_entries (removeExpiredPreparations now (sys_cache s))) cacheKey")
  case (Some entry)
  with assms served show thesis by (simp add: preparePlayback_def beginPreparation_def Let_def)
next
  case None
  then have absent: "cacheKey \<notin> keysOf (prep_entries (removeExpiredPreparations now (sys_cache s)))"
    by (simp add: map_of_None_keys)
  show thesis
  proof (cases "map_of (prep_inFlight (sys_cache s)) cacheKey")
    case (Some call)
    with None assms joined absent show thesis
      by (simp add: preparePlayback_def beginPreparation_def Let_def)
  next
    case none: None
    then have "AList.update cacheKey p (prep_inFlight (sys_cache s)) = prep_inFlight (sys_cache s) @ [(cacheKey, p)]" for p
      by (intro update_fresh) (simp add: map_of_eq_None_iff)
    moreover have "cacheKey \<notin> keysOf (prep_inFlight (sys_cache s))"
      using none by (simp add: map_of_None_keys)
    ultimately show thesis
      using None none assms started absent by (simp add: preparePlayback_def beginPreparation_def Let_def startedCache_def)
  qed
qed

declare preparePlayback_cases [consumes 1, case_names served joined started]

lemma started_ok:
  assumes ok: "prepOk s" and fresh: "k \<notin> keysOf (prep_entries (sys_cache s))" "k \<notin> keysOf (prep_inFlight (sys_cache s))" and key: "k \<noteq> []"
  shows "prepOk (s\<lparr>sys_cache := startedCache k (sys_cache s), sys_tasks := sys_tasks s @
    [\<lparr>task_key = k, task_call = length (prep_calls (sys_cache s)), task_generation = prep_generation (sys_cache s), task_expiresAt = e\<rparr>]\<rparr>)"
    (is "prepOk ?t")
proof -
  let ?c = "sys_cache s"
  have "mapsOk (startedCache k ?c)"
    using ok fresh by (auto simp: prepOk_def mapsOk_def startedCache_def keysOf_def)
  moreover have "handoffsOk (startedCache k ?c)"
    using ok by (simp add: prepOk_def handoffsOk_def startedCache_def)
  moreover have "originOk (\<lambda>_. True) 0 (startedCache k ?c)"
    using ok resultOf_append by (fastforce simp: prepOk_def originOk_def startedCache_def)
  moreover have "tasksOk ?t"
  proof -
    have tasks: "tasksOk s" using ok by (simp add: prepOk_def)
    have "length (prep_calls ?c) \<notin> task_call ` set (sys_tasks s)"
      using tasks by (auto simp: tasksOk_def)
    moreover have "{p. p < Suc (length xs) \<and> \<not> call_done ((xs @ [x]) ! p)} =
        insert (length xs) {p. p < length xs \<and> \<not> call_done (xs ! p)}" if "\<not> call_done x" for xs and x :: playbackPreparationCall
      using that by (auto simp: nth_append less_Suc_eq)
    ultimately show ?thesis
      using tasks key by (auto simp: tasksOk_def startedCache_def)
  qed
  ultimately show ?thesis by (simp add: prepOk_def)
qed

lemma preparePlayback_ok:
  assumes ok: "prepOk s" and prepare: "preparePlayback now k expiresAt s = (result, t)" and key: "k \<noteq> []"
  shows "prepOk t"
proof -
  let ?s = "s\<lparr>sys_cache := removeExpiredPreparations now (sys_cache s)\<rparr>"
  have shrunk: "prepOk ?s" by (rule prepOk_shrinks [OF ok shrinks_removeExpired])
  show ?thesis
    using prepare
  proof (cases rule: preparePlayback_cases)
    case started
    then show ?thesis
      using started_ok [OF shrunk _ _ key] by simp
  qed (simp_all add: shrunk)
qed

text \<open>What \<open>complete\<close> leaves, field by field.\<close>

definition accepted :: "preparationTask \<Rightarrow> playback_error option \<Rightarrow> playbackPreparationCache \<Rightarrow> bool" where
  "accepted task err c \<longleftrightarrow> err = None \<and> prep_generation c = task_generation task \<and>
     map_of (prep_inFlight c) (task_key task) = Some (task_call task)"

lemma accepted_mem:
  assumes "accepted task err c"
  shows "(task_key task, task_call task) \<in> set (prep_inFlight c)" "task_key task \<in> keysOf (prep_inFlight c)"
proof -
  show mem: "(task_key task, task_call task) \<in> set (prep_inFlight c)"
    using assms by (auto simp: accepted_def dest: map_of_SomeD)
  then show "task_key task \<in> keysOf (prep_inFlight c)" by (force simp: keysOf_def)
qed

lemma completePreparation_fields:
  fixes task c playback err
  defines "d \<equiv> completePreparation (task_key task) (task_call task) (task_generation task) playback err (task_expiresAt task) c"
    and "room \<equiv> makeRoom (c\<lparr>prep_calls := (prep_calls c)[task_call task := \<lparr>call_done = False, call_playback = clonePreparedPlayback playback, call_err = err\<rparr>]\<rparr>)"
  assumes "task_call task < length (prep_calls c)"
  shows "prep_calls d = (prep_calls c)[task_call task := \<lparr>call_done = True, call_playback = clonePreparedPlayback playback, call_err = err\<rparr>]"
    "prep_generation d = prep_generation c"
    "prep_inFlight d = (if map_of (prep_inFlight c) (task_key task) = Some (task_call task)
       then AList.delete (task_key task) (prep_inFlight c) else prep_inFlight c)"
    "prep_entries d = (if accepted task err c then AList.update (task_key task)
       \<lparr>pe_playback = clonePreparedPlayback playback, pe_expiresAt = task_expiresAt task\<rparr> (prep_entries room) else prep_entries c)"
    "prep_handoffs d = (if accepted task err c then prep_handoffs room else prep_handoffs c)"
  using assms(3) unfolding d_def room_def by (auto simp: completePreparation_def accepted_def Let_def)

lemma update_mem: "(k', v) \<in> set (AList.update k x xs) \<Longrightarrow> k' = k \<and> v = x \<or> (k', v) \<in> set xs"
  by (induction xs) (auto split: if_splits)

lemma finished_tasks:
  assumes "tasksOk s" "task \<in> set (sys_tasks s)" "mapsOk (sys_cache s)"
  shows "tasksOk (finishTask task playback err s)"
proof -
  let ?c = "sys_cache s" and ?p = "task_call task"
  have p: "?p < length (prep_calls ?c)" "\<not> call_done (prep_calls ?c ! ?p)"
    using taskCall_less [OF assms(1,2)] by simp_all
  have dist: "distinct (map task_call (sys_tasks s))" using assms(1) by (simp add: tasksOk_def)
  then have "distinct (sys_tasks s)" by (simp add: distinct_map)
  then have rest: "set (remove1 task (sys_tasks s)) = set (sys_tasks s) - {task}" by simp
  have inj: "t = task" if "t \<in> set (sys_tasks s)" "task_call t = ?p" for t
    using that assms(2) dist by (metis distinct_map inj_onD)
  let ?d = "sys_cache (finishTask task playback err s)"
  have inFlight: "(k, q) \<in> set (prep_inFlight ?c) \<and> q \<noteq> ?p" if "(k, q) \<in> set (prep_inFlight ?d)" for k q
  proof -
    have "distinct (map fst (prep_inFlight ?c))" using assms(3) by (simp add: mapsOk_def)
    note that = that this
    have kq: "(k, q) \<in> set (prep_inFlight ?c)"
      using that p by (auto simp: finishTask_def completePreparation_fields delete_filter split: if_splits)
    have "k = task_key task" if "q = ?p"
      using kq assms(1) inj that unfolding tasksOk_def by fastforce
    with kq that show ?thesis
      using p by (auto simp: finishTask_def completePreparation_fields delete_filter split: if_splits)
  qed
  have calls: "prep_calls ?d = (prep_calls ?c)[?p := \<lparr>call_done = True, call_playback = clonePreparedPlayback playback, call_err = err\<rparr>]"
    "prep_generation ?d = prep_generation ?c"
    using p by (simp_all add: finishTask_def completePreparation_fields)
  have running_tasks: "\<forall>(k, q) \<in> set (prep_inFlight ?c). \<exists>t \<in> set (sys_tasks s).
      task_call t = q \<and> task_key t = k \<and> task_generation t = prep_generation ?c"
    using assms(1) by (simp add: tasksOk_def)
  have running: "task_call ` set (sys_tasks s) = {q. q < length (prep_calls ?c) \<and> \<not> call_done (prep_calls ?c ! q)}"
    using assms(1) by (simp add: tasksOk_def)
  have "task_call ` set (remove1 task (sys_tasks s)) = task_call ` set (sys_tasks s) - {?p}"
    using inj by (auto simp: rest)
  also have "\<dots> = {q. q < length (prep_calls ?d) \<and> \<not> call_done (prep_calls ?d ! q)}"
    unfolding running calls by (rule set_eqI) (simp add: nth_list_update p(1))
  finally have "task_call ` set (remove1 task (sys_tasks s)) = {q. q < length (prep_calls ?d) \<and> \<not> call_done (prep_calls ?d ! q)}" .
  moreover have "distinct (map task_call (remove1 task (sys_tasks s)))"
    using dist \<open>distinct (sys_tasks s)\<close> by (auto simp: distinct_map rest intro: inj_on_subset)
  moreover have "\<exists>t \<in> set (remove1 task (sys_tasks s)). task_call t = q \<and> task_key t = k \<and> task_generation t = prep_generation ?d"
    if "(k, q) \<in> set (prep_inFlight ?d)" for k q
  proof -
    have "\<exists>t \<in> set (sys_tasks s). task_call t = q \<and> task_key t = k \<and> task_generation t = prep_generation ?c"
      using bspec [OF running_tasks, of "(k, q)"] inFlight [OF that] by simp
    then obtain t where t: "t \<in> set (sys_tasks s)" "task_call t = q" "task_key t = k" "task_generation t = prep_generation ?c"
      by blast
    with inFlight [OF that] show ?thesis by (intro bexI [of _ t]) (auto simp: rest calls)
  qed
  moreover have "sys_tasks (finishTask task playback err s) = remove1 task (sys_tasks s)"
    by (simp add: finishTask_def)
  moreover have "\<forall>t \<in> set (remove1 task (sys_tasks s)). task_key t \<noteq> []"
    using assms(1) by (auto simp: rest tasksOk_def)
  ultimately show ?thesis
    unfolding tasksOk_def by auto
qed

text \<open>The entries and handoffs after \<open>complete\<close>: nothing new, or a cache with room and the new entry.\<close>

lemma finished_maps:
  fixes c :: playbackPreparationCache and task :: preparationTask
  assumes maps: "mapsOk c" and p: "task_call task < length (prep_calls c)" and key: "task_key task \<noteq> []"
  shows "mapsOk (completePreparation (task_key task) (task_call task) (task_generation task) playback err (task_expiresAt task) c)" (is "mapsOk ?d")
proof -
  let ?room = "makeRoom (c\<lparr>prep_calls := (prep_calls c)[task_call task := \<lparr>call_done = False, call_playback = clonePreparedPlayback playback, call_err = err\<rparr>]\<rparr>)"
  note fields = completePreparation_fields [OF p, of playback err]
  have flights: "keysOf (prep_inFlight ?d) \<subseteq> keysOf (prep_inFlight c)" "distinct (map fst (prep_inFlight ?d))"
    using maps by (auto simp: fields delete_filter mapsOk_def distinct_map_filter keysOf_def)
  show ?thesis
  proof (cases "accepted task err c")
    case False
    then show ?thesis
      using maps flights by (auto simp: mapsOk_def fields(4,5))
  next
    case True
    have room: "mapsOk ?room"
      by (rule mapsOk_shrinks [OF _ shrinks_makeRoom]) (use maps in \<open>simp add: mapsOk_def\<close>)
    have len: "length (prep_entries ?room) < maximumPlaybackPreparations"
      by (rule length_makeRoom) (use maps in \<open>simp add: mapsOk_def\<close>)
    have "task_key task \<in> keysOf (prep_inFlight c)"
      by (rule accepted_mem(2) [OF True])
    then have fresh: "task_key task \<notin> keysOf (prep_entries ?room)"
      using room by (auto simp: mapsOk_def)
    then have entries: "prep_entries ?d = prep_entries ?room @
        [(task_key task, \<lparr>pe_playback = clonePreparedPlayback playback, pe_expiresAt = task_expiresAt task\<rparr>)]"
      using True by (simp add: fields update_fresh keysOf_def)
    have "prep_inFlight ?d = filter (\<lambda>x. fst x \<noteq> task_key task) (prep_inFlight c)"
      using True fields(3) by (simp add: accepted_def delete_filter)
    then show ?thesis
      using room len fresh key True flights unfolding mapsOk_def entries by (auto simp: fields keysOf_def)
  qed
qed

lemma finished_origin:
  fixes c :: playbackPreparationCache and task :: preparationTask
  assumes origin: "originOk K n c" and p: "task_call task < length (prep_calls c)" "\<not> call_done (prep_calls c ! task_call task)"
  shows "originOk K n (completePreparation (task_key task) (task_call task) (task_generation task) playback err (task_expiresAt task) c)" (is "originOk K n ?d")
proof -
  let ?room = "makeRoom (c\<lparr>prep_calls := (prep_calls c)[task_call task := \<lparr>call_done = False, call_playback = clonePreparedPlayback playback, call_err = err\<rparr>]\<rparr>)"
  note fields = completePreparation_fields [OF p(1), of playback err]
  have old: "resultOf n (prep_calls ?d) (pe_playback e)" if "(k, e) \<in> set (prep_entries c)" "K k" for k e
    using that origin p unfolding fields originOk_def by (auto intro: resultOf_update)
  have sub: "set (prep_entries ?room) \<subseteq> set (prep_entries c)"
    using shrinksD(3) [OF shrinks_makeRoom, of "c\<lparr>prep_calls := (prep_calls c)[task_call task := \<lparr>call_done = False, call_playback = clonePreparedPlayback playback, call_err = err\<rparr>]\<rparr>"]
    by simp
  have new: "resultOf n (prep_calls ?d) (clonePreparedPlayback playback)" if "accepted task err c" "K (task_key task)"
  proof -
    have "(task_key task, task_call task) \<in> set (prep_inFlight c)"
      by (rule accepted_mem(1) [OF that(1)])
    then have "n \<le> task_call task" using origin that by (auto simp: originOk_def)
    with that p show ?thesis
      unfolding resultOf_def fields by (intro exI [of _ "task_call task"]) (simp add: accepted_def)
  qed
  have "resultOf n (prep_calls ?d) (pe_playback e)" if "(k, e) \<in> set (prep_entries ?d)" "K k" for k e
    using that old new sub by (auto simp: fields(4) split: if_splits dest!: update_mem)
  moreover have "\<forall>(k, q) \<in> set (prep_inFlight ?d). K k \<longrightarrow> n \<le> q"
    using origin by (auto simp: fields delete_filter originOk_def)
  moreover have "n \<le> length (prep_calls ?d)"
    using origin by (simp add: fields originOk_def)
  ultimately show ?thesis
    unfolding originOk_def by auto
qed

lemma finished_handoffs:
  fixes c :: playbackPreparationCache and task :: preparationTask
  assumes handoffs: "handoffsOk c" and maps: "mapsOk c" and p: "task_call task < length (prep_calls c)"
  shows "handoffsOk (completePreparation (task_key task) (task_call task) (task_generation task) playback err (task_expiresAt task) c)" (is "handoffsOk ?d")
proof -
  let ?c1 = "c\<lparr>prep_calls := (prep_calls c)[task_call task := \<lparr>call_done = False, call_playback = clonePreparedPlayback playback, call_err = err\<rparr>]\<rparr>"
  note fields = completePreparation_fields [OF p, of playback err]
  show ?thesis
  proof (cases "accepted task err c")
    case False
    with handoffs show ?thesis by (simp add: handoffsOk_def fields)
  next
    case True
    have room: "handoffsOk (makeRoom ?c1)"
      by (rule handoffsOk_shrinks [OF _ shrinks_makeRoom]) (use handoffs in \<open>simp add: handoffsOk_def\<close>)
    have "task_key task \<in> keysOf (prep_inFlight c)"
      by (rule accepted_mem(2) [OF True])
    then have "task_key task \<notin> keysOf (prep_entries (makeRoom ?c1))"
      using maps image_mono [OF shrinksD(3) [OF shrinks_makeRoom, of ?c1], of fst] by (auto simp: mapsOk_def keysOf_def)
    then have "set (prep_entries (makeRoom ?c1)) \<subseteq> set (prep_entries ?d)"
      using True by (auto simp: fields(4) update_fresh keysOf_def)
    with room True show ?thesis
      unfolding handoffsOk_def by (fastforce simp: fields(5))
  qed
qed

lemma finishTask_ok:
  assumes ok: "prepOk s" and task: "task \<in> set (sys_tasks s)"
  shows "prepOk (finishTask task playback err s)"
proof -
  have tasks: "tasksOk s" and key: "task_key task \<noteq> []" using ok task by (auto simp: prepOk_def tasksOk_def)
  note p = taskCall_less [OF tasks task]
  show ?thesis
    using ok finished_tasks [OF tasks task, of playback err] finished_maps [OF _ _ key, of _ playback err]
      finished_origin [of "\<lambda>_. True" 0 "sys_cache s" task playback err] finished_handoffs [of "sys_cache s" task playback err] p
    by (simp add: prepOk_def finishTask_def)
qed

lemma markResolveHandoff_ok:
  assumes ok: "prepOk s" and mark: "markResolveHandoff clock owner reference policy start (sys_cache s) = (marked, d)"
  shows "prepOk (s\<lparr>sys_cache := d\<rparr>)"
proof -
  let ?c = "removeExpiredPreparations (clock 0) (sys_cache s)" and ?k = "referenceKey reference policy"
  have c: "prepOk (s\<lparr>sys_cache := ?c\<rparr>)" by (rule prepOk_shrinks [OF ok shrinks_removeExpired])
  show ?thesis
  proof (cases "map_of (prep_entries ?c) ?k")
    case None
    then have "d = ?c\<lparr>prep_handoffs := AList.delete owner (prep_handoffs ?c)\<rparr>"
      using mark by (simp add: markResolveHandoff_def Let_def)
    moreover have "shrinks ?c (?c\<lparr>prep_handoffs := AList.delete owner (prep_handoffs ?c)\<rparr>)"
      by (auto simp: shrinks_def delete_filter)
    ultimately show ?thesis
      using prepOk_shrinks [OF c] by simp
  next
    case (Some entry)
    then obtain h where d: "d = ?c\<lparr>prep_handoffs := AList.update owner h (prep_handoffs ?c)\<rparr>"
      and h: "ho_cacheKey h = ?k" "ho_expiresAt h \<le> pe_expiresAt entry"
      using mark by (auto simp: markResolveHandoff_def Let_def split: if_splits)
    have entry: "(?k, entry) \<in> set (prep_entries ?c)" by (rule map_of_SomeD [OF Some])
    have "mapsOk d"
      using c by (simp add: prepOk_def d mapsOk_def distinct_update)
    moreover have "handoffsOk d"
      using c h entry unfolding prepOk_def handoffsOk_def d by (auto dest!: update_mem)
    moreover have "tasksOk (s\<lparr>sys_cache := d\<rparr>)" "originOk (\<lambda>_. True) 0 d"
      using c by (simp_all add: prepOk_def tasksOk_def originOk_def d)
    ultimately show ?thesis by (simp add: prepOk_def)
  qed
qed

lemma shrinks_consume:
  assumes "consumeResolveHandoff clock owner reference policy start c = (playback, d)"
  shows "shrinks c d"
proof -
  let ?c = "removeExpiredPreparations (clock 0) c"
  have "shrinks ?c (?c\<lparr>prep_handoffs := AList.delete owner (prep_handoffs ?c)\<rparr>)"
    by (auto simp: shrinks_def delete_filter)
  then have "shrinks c (?c\<lparr>prep_handoffs := AList.delete owner (prep_handoffs ?c)\<rparr>)"
    by (rule shrinks_trans [OF shrinks_removeExpired]) simp
  moreover have "d = ?c \<or> d = ?c\<lparr>prep_handoffs := AList.delete owner (prep_handoffs ?c)\<rparr>"
    using assms by (auto simp: consumeResolveHandoff_def Let_def split: option.splits if_splits)
  ultimately show ?thesis
    using shrinks_removeExpired by auto
qed

lemma referenceKey_nonempty [simp]: "referenceKey reference policy \<noteq> []"
  by (simp add: referenceKey_def playbackPreparationCacheKey_def)

lemma preparation_step_ok: "preparation_step s t \<Longrightarrow> prepOk s \<Longrightarrow> prepOk t"
proof (induction rule: preparation_step.induct)
  case (mark clock owner reference policy start s marked cache)
  then show ?case using markResolveHandoff_ok by blast
qed (auto simp: preparePlayback_ok finishTask_ok evict_def evictRevision_def
    intro: prepOk_shrinks shrinks_clear shrinks_evictKeys shrinks_consume)

lemma start_ok: "prepOk startPreparations"
  by (simp add: prepOk_def startPreparations_def newPlaybackPreparationCache_def mapsOk_def tasksOk_def handoffsOk_def
      originOk_def keysOf_def)

interpretation preparations: transition_system "\<lambda>s. s = startPreparations" preparation_step prepOk
  by unfold_locales (auto simp: start_ok preparation_step_ok)

section \<open>Where a playback comes from\<close>

lemma origin_started:
  assumes "originOk K n c"
  shows "originOk K n (startedCache k c)"
  using assms resultOf_append unfolding originOk_def startedCache_def by fastforce

lemma origin_mark:
  assumes "originOk K n c" "markResolveHandoff clock owner reference policy start c = (marked, d)"
  shows "originOk K n d"
proof -
  have "originOk K n (removeExpiredPreparations (clock 0) c)"
    by (rule originOk_shrinks [OF assms(1) shrinks_removeExpired])
  then show ?thesis
    using assms(2) by (auto simp: markResolveHandoff_def Let_def originOk_def split: option.splits)
qed

lemma origin_prepare:
  assumes origin: "originOk K n (sys_cache s)" and prepare: "preparePlayback now k expiresAt s = (result, t)"
  shows "originOk K n (sys_cache t)"
proof -
  have "originOk K n (removeExpiredPreparations now (sys_cache s))"
    by (rule originOk_shrinks [OF origin shrinks_removeExpired])
  with prepare show ?thesis
    by (cases rule: preparePlayback_cases) (simp_all add: origin_started)
qed

lemma origin_step: "preparation_step s t \<Longrightarrow> prepOk s \<Longrightarrow> originOk K n (sys_cache s) \<Longrightarrow> originOk K n (sys_cache t)"
proof (induction rule: preparation_step.induct)
  case (finish task s playback err)
  then have "tasksOk s" by (simp add: prepOk_def)
  from taskCall_less [OF this finish(1)] finished_origin [OF finish(3)] show ?case
    by (simp add: finishTask_def)
qed (auto simp: evict_def evictRevision_def intro: originOk_shrinks shrinks_clear shrinks_evictKeys shrinks_consume origin_prepare origin_mark)

interpretation origin: transition_system "\<lambda>s. prepOk s \<and> originOk K n (sys_cache s)" preparation_step
    "\<lambda>s. prepOk s \<and> originOk K n (sys_cache s)" for K n
  by unfold_locales (auto simp: preparation_step_ok origin_step)

lemma awaited: "resultOf n (prep_calls c) p \<Longrightarrow> \<exists>q < length (prep_calls c). n \<le> q \<and> awaitCall None q c = Some (clonePreparedPlayback p, None)"
  unfolding resultOf_def awaitCall_def by (auto simp: Let_def)

lemma map_of_removeExpired:
  "map_of (prep_entries (removeExpiredPreparations now c)) k = Some e \<Longrightarrow> (k, e) \<in> set (prep_entries c)"
  by (drule map_of_SomeD) (simp add: removeExpiredPreparations_def)

text \<open>What forgets preparations, and which keys it forgets.\<close>

definition forgets :: "playbackPreparationCache \<Rightarrow> (string \<Rightarrow> bool) \<Rightarrow> playbackPreparationCache \<Rightarrow> bool" where
  "forgets c K d \<longleftrightarrow>
     (\<exists>reference policy. d = evict reference policy c \<and> K = (\<lambda>k. k = referenceKey reference policy)) \<or>
     (\<exists>referenceID revision. d = evictRevision referenceID revision c \<and> K = (\<lambda>k. hasPrefix k (revisionPrefix referenceID revision))) \<or>
     d = clearPreparations c \<and> K = (\<lambda>_. True)"

lemma forgets_origin: "forgets c K d \<Longrightarrow> originOk K (length (prep_calls c)) d \<and> shrinks c d"
  by (auto simp: forgets_def originOk_def evict_def evictRevision_def evictKeys_def clearPreparations_def
      shrinks_def)

text \<open>
  C21. In every reachable state of the preparation cache there are at most 512 finished preparations,
  one per key; no key is finished and running at once; every running call of the map is run by a
  goroutine with its key, and every call that is not done by exactly one goroutine, so that its waiters
  are released; and a handoff always finds the playback it was made for.
\<close>

theorem preparation_cache_invariant:
  assumes reach: "preparation_step\<^sup>*\<^sup>* startPreparations s"
  defines "c \<equiv> sys_cache s"
  shows "length (prep_entries c) \<le> 512 \<and> distinct (map fst (prep_entries c)) \<and>
    fst ` set (prep_entries c) \<inter> fst ` set (prep_inFlight c) = {} \<and>
    (\<forall>(k, p) \<in> set (prep_inFlight c). \<exists>task \<in> set (sys_tasks s). task_call task = p \<and> task_key task = k) \<and>
    (\<forall>p < length (prep_calls c). \<not> call_done (prep_calls c ! p) \<longrightarrow> (\<exists>!task. task \<in> set (sys_tasks s) \<and> task_call task = p)) \<and>
    (\<forall>(owner, h) \<in> set (prep_handoffs c). \<exists>e. map_of (prep_entries c) (ho_cacheKey h) = Some e \<and> ho_expiresAt h \<le> pe_expiresAt e)"
proof -
  have ok: "prepOk s" by (rule preparations.inv_reachable [OF refl reach])
  then have maps: "mapsOk c" and tasks: "tasksOk s" and handoffs: "handoffsOk c" by (simp_all add: prepOk_def c_def)
  have "\<exists>!task. task \<in> set (sys_tasks s) \<and> task_call task = p" if "p < length (prep_calls c)" "\<not> call_done (prep_calls c ! p)" for p
  proof -
    have "p \<in> task_call ` set (sys_tasks s)" using tasks that by (simp add: tasksOk_def c_def)
    moreover have "inj_on task_call (set (sys_tasks s))" using tasks by (simp add: tasksOk_def distinct_map)
    ultimately show ?thesis by (auto dest: inj_onD)
  qed
  moreover have "\<forall>(owner, h) \<in> set (prep_handoffs c). \<exists>e. map_of (prep_entries c) (ho_cacheKey h) = Some e \<and> ho_expiresAt h \<le> pe_expiresAt e"
    using handoffs maps unfolding handoffsOk_def mapsOk_def by (fastforce simp: map_of_eq_Some_iff)
  moreover have "\<forall>(k, p) \<in> set (prep_inFlight c). \<exists>task \<in> set (sys_tasks s). task_call task = p \<and> task_key task = k"
    using tasks unfolding tasksOk_def c_def by fastforce
  ultimately show ?thesis
    using maps by (simp add: mapsOk_def keysOf_def maximumPlaybackPreparations_def)
qed

text \<open>
  C22. What has been evicted is never served again: whatever is prepared for an evicted key after the
  eviction (of a reference with a policy, of a revision of a reference, or of everything), even while a
  preparation from before it is still running, is the result of a call made after the eviction, joins
  such a call or starts one.
\<close>

theorem evicted_never_served:
  assumes reach: "preparation_step\<^sup>*\<^sup>* startPreparations s"
    and forgotten: "forgets (sys_cache s) K c"
    and later: "preparation_step\<^sup>*\<^sup>* (s\<lparr>sys_cache := c\<rparr>) t"
    and key: "K cacheKey"
    and prepared: "preparePlayback now cacheKey expiresAt t = (result, u)"
  defines "n \<equiv> length (prep_calls (sys_cache s))"
  shows "case result of
      Served playback \<Rightarrow> \<exists>p < length (prep_calls (sys_cache t)). n \<le> p \<and> awaitCall None p (sys_cache t) = Some (playback, None)
    | Joined p \<Rightarrow> n \<le> p
    | Started p generation \<Rightarrow> n \<le> p"
proof -
  have "prepOk s" by (rule preparations.inv_reachable [OF refl reach])
  then have "prepOk (s\<lparr>sys_cache := c\<rparr>)" "originOk K n c"
    using prepOk_shrinks forgets_origin [OF forgotten] by (simp_all add: n_def)
  then have "originOk K n (sys_cache t)"
    using origin.inv_steps [OF later, of K n] by simp
  then have entries: "\<And>k e. (k, e) \<in> set (prep_entries (sys_cache t)) \<Longrightarrow> K k \<Longrightarrow> resultOf n (prep_calls (sys_cache t)) (pe_playback e)"
    and flights: "\<And>k p. (k, p) \<in> set (prep_inFlight (sys_cache t)) \<Longrightarrow> K k \<Longrightarrow> n \<le> p"
    and calls: "n \<le> length (prep_calls (sys_cache t))"
    by (auto simp: originOk_def)
  show ?thesis
    using prepared
  proof (cases rule: preparePlayback_cases)
    case (served entry)
    from awaited [OF entries [OF map_of_removeExpired [OF served(1)] key]] served(2) show ?thesis by simp
  next
    case (joined call)
    with flights [OF map_of_SomeD key] show ?thesis by simp
  next
    case started
    with calls show ?thesis by simp
  qed
qed

text \<open>
  Eviction by revision is exact: of the preparations of references whose ids have no bar (the ids are
  hexadecimal), it removes those of that revision of that reference and no others.
\<close>

lemma evictRevision_exact:
  assumes keys: "\<forall>k \<in> keysOf (prep_entries c). \<exists>i r p. CHR ''|'' \<notin> set i \<and> k = playbackPreparationCacheKey i r p"
    and ident: "CHR ''|'' \<notin> set referenceID"
  shows "(k, e) \<in> set (prep_entries (evictRevision referenceID revision c)) \<longleftrightarrow>
    (k, e) \<in> set (prep_entries c) \<and> (\<nexists>p. k = playbackPreparationCacheKey referenceID revision p)"
proof -
  have "hasPrefix k (revisionPrefix referenceID revision) \<longleftrightarrow> (\<exists>p. k = playbackPreparationCacheKey referenceID revision p)"
    if "(k, e) \<in> set (prep_entries c)"
  proof -
    have "k \<in> keysOf (prep_entries c)"
      using that by (force simp: keysOf_def)
    then obtain i r p where k: "CHR ''|'' \<notin> set i" "k = playbackPreparationCacheKey i r p"
      using keys by blast
    then show ?thesis by (auto simp: cacheKey_prefix [OF k(1) ident] cacheKey_inj)
  qed
  then show ?thesis
    by (auto simp: evictRevision_def evictKeys_def)
qed

lemma map_of_filter_kept:
  "map_of xs k = Some v \<Longrightarrow> P (k, v) \<Longrightarrow> map_of (filter P xs) k = Some v"
  by (induction xs) (auto split: if_splits)

lemma map_of_filter_none:
  "map_of xs k = Some v \<Longrightarrow> distinct (map fst xs) \<Longrightarrow> \<not> P (k, v) \<Longrightarrow> map_of (filter P xs) k = None"
  by (induction xs) (force simp: map_of_eq_None_iff split: if_splits)+

lemma entries_removeExpired:
  "prep_entries (removeExpiredPreparations now c) = filter (\<lambda>x. now < pe_expiresAt (snd x)) (prep_entries c)"
  "prep_handoffs (removeExpiredPreparations now c) = filter (\<lambda>x. now < ho_expiresAt (snd x)) (prep_handoffs c)"
  by (simp_all add: removeExpiredPreparations_def case_prod_unfold)

lemma entries_with_handoffs [simp]:
  "prep_entries (removeExpiredPreparations now (c\<lparr>prep_handoffs := hs\<rparr>)) = prep_entries (removeExpiredPreparations now c)"
  by (simp add: removeExpiredPreparations_def)

lemma map_of_update: "map_of (AList.update k v xs) k = Some v"
  by (simp add: update_conv')

lemma map_of_delete: "map_of (AList.delete k xs) k = None"
  by (simp add: delete_conv')

text \<open>
  C23. A handoff is taken once, by the client that made it and for what it was made: after
  \<open>markResolveHandoff\<close> has recorded a prepared playback, \<open>consumeResolveHandoff\<close> returns it exactly when
  the reference, the policy, the selection revision and the start position agree and the handoff has
  not expired, which it does no later than the playback; and a second attempt gets nothing.
\<close>

theorem handoff_once:
  assumes entry: "map_of (prep_entries c) (referenceKey reference policy) = Some e" "clock 0 < pe_expiresAt e"
    and maps: "distinct (map fst (prep_handoffs c))"
    and mark: "markResolveHandoff clock owner reference policy start c = (marked, d)"
    and times: "clock' 0 \<le> clock' 1"
    and consume: "consumeResolveHandoff clock' owner reference' policy' start' d = (playback, d')"
  shows "marked \<and>
    playback = (if referenceKey reference' policy' = referenceKey reference policy \<and>
        ref_SelectionRevision reference' = ref_SelectionRevision reference \<and> hlsStartKey start' = hlsStartKey start \<and>
        clock' 1 < pe_expiresAt e \<and> clock' 1 < clock 1 + playbackPreparationHandoffTTL
      then Some (clonePreparedPlayback (pe_playback e)) else None) \<and>
    fst (consumeResolveHandoff clock2 owner reference2 policy2 start2 d') = None"
proof -
  let ?k = "referenceKey reference policy" and ?exp = "min (pe_expiresAt e) (clock 1 + playbackPreparationHandoffTTL)"
  let ?h = "\<lparr>ho_cacheKey = ?k, ho_selectionRevision = ref_SelectionRevision reference, ho_startKey = hlsStartKey start, ho_expiresAt = ?exp\<rparr>"
  let ?c = "removeExpiredPreparations (clock 0) c"
  have kept: "map_of (prep_entries ?c) ?k = Some e"
    using map_of_filter_kept [OF entry(1)] entry(2) by (simp add: entries_removeExpired)
  have d: "marked" "d = ?c\<lparr>prep_handoffs := AList.update owner ?h (prep_handoffs ?c)\<rparr>"
    using mark kept by (auto simp: markResolveHandoff_def Let_def min_def)
  let ?d = "removeExpiredPreparations (clock' 0) d"
  have dist: "distinct (map fst (prep_handoffs d))"
    using maps by (simp add: d(2) distinct_update entries_removeExpired distinct_map_filter)
  have owner: "map_of (prep_handoffs d) owner = Some ?h"
    by (simp add: d(2) map_of_update)
  have first: "playback = (if referenceKey reference' policy' = ?k \<and> ref_SelectionRevision reference' = ref_SelectionRevision reference \<and>
      hlsStartKey start' = hlsStartKey start \<and> clock' 1 < ?exp then Some (clonePreparedPlayback (pe_playback e)) else None) \<and>
    map_of (prep_handoffs d') owner = None"
  proof (cases "clock' 0 < ?exp")
    case False
    then have "map_of (prep_handoffs ?d) owner = None"
      using map_of_filter_none [OF owner dist, of "\<lambda>x. clock' 0 < ho_expiresAt (snd x)"] by (simp add: entries_removeExpired)
    with consume False times show ?thesis
      by (auto simp: consumeResolveHandoff_def Let_def)
  next
    case True
    then have h: "map_of (prep_handoffs ?d) owner = Some ?h"
      using map_of_filter_kept [OF owner, of "\<lambda>x. clock' 0 < ho_expiresAt (snd x)"] by (simp add: entries_removeExpired)
    have "map_of (prep_entries ?d) ?k = Some e"
      using map_of_filter_kept [OF kept, of "\<lambda>x. clock' 0 < pe_expiresAt (snd x)"] True by (simp add: d(2) entries_removeExpired)
    with h consume show ?thesis
      by (auto simp: consumeResolveHandoff_def Let_def map_of_delete split: if_splits)
  qed
  have "map_of (prep_handoffs (removeExpiredPreparations (clock2 0) d')) owner = None"
    using first by (auto simp: entries_removeExpired map_of_eq_None_iff)
  then have "fst (consumeResolveHandoff clock2 owner reference2 policy2 start2 d') = None"
    by (simp add: consumeResolveHandoff_def Let_def)
  with first d(1) show ?thesis by auto
qed

text \<open>
  What the server does before an instant that spares the preparation of a key: any request, any use of a
  handoff, evictions of other keys, and the end of a preparation unless its result takes the place of the key.
\<close>

inductive sparesPrepared :: "string \<Rightarrow> int \<Rightarrow> preparationSystem \<Rightarrow> preparationSystem \<Rightarrow> bool" for key instant where
  requests: "now < instant \<Longrightarrow> preparePlayback now (referenceKey reference policy) (ref_ExpiresAt reference) s = (result, t) \<Longrightarrow>
    sparesPrepared key instant s t"
| ends: "task \<in> set (sys_tasks s) \<Longrightarrow>
    (accepted task err (sys_cache s) \<Longrightarrow> key \<in> keysOf (prep_entries (makeRoom (sys_cache s)))) \<Longrightarrow>
    sparesPrepared key instant s (finishTask task playback err s)"
| evicts: "referenceKey reference policy \<noteq> key \<Longrightarrow> sparesPrepared key instant s (s\<lparr>sys_cache := evict reference policy (sys_cache s)\<rparr>)"
| evictsRevision: "\<not> hasPrefix key (revisionPrefix referenceID revision) \<Longrightarrow>
    sparesPrepared key instant s (s\<lparr>sys_cache := evictRevision referenceID revision (sys_cache s)\<rparr>)"
| marks: "clock 0 < instant \<Longrightarrow> clock 0 \<le> clock 1 \<Longrightarrow>
    markResolveHandoff clock owner reference policy start (sys_cache s) = (marked, cache) \<Longrightarrow>
    sparesPrepared key instant s (s\<lparr>sys_cache := cache\<rparr>)"
| consumes: "clock 0 < instant \<Longrightarrow> consumeResolveHandoff clock owner reference policy start (sys_cache s) = (taken, cache) \<Longrightarrow>
    sparesPrepared key instant s (s\<lparr>sys_cache := cache\<rparr>)"

lemma spares_step: "sparesPrepared key instant s t \<Longrightarrow> preparation_step s t"
proof (induction rule: sparesPrepared.induct)
  case marks
  from marks(2,3) show ?case by (rule preparation_step.mark)
qed (auto intro: preparation_step.intros)

lemma entry_not_running: "mapsOk c \<Longrightarrow> map_of (prep_entries c) k = Some e \<Longrightarrow> k \<notin> keysOf (prep_inFlight c)"
  unfolding mapsOk_def keysOf_def by (metis disjoint_iff fst_conv image_eqI map_of_SomeD)

lemma makeRoom_roomy: "length (prep_entries c) < maximumPlaybackPreparations \<Longrightarrow> makeRoom c = c"
  by (cases "length (prep_entries c)") (simp_all add: makeRoom_def)

lemma makeRoom_calls: "prep_entries (makeRoom (c\<lparr>prep_calls := calls\<rparr>)) = prep_entries (makeRoom c)"
proof -
  have "makeRoomLoop fuel (c\<lparr>prep_calls := calls\<rparr>) = (makeRoomLoop fuel c)\<lparr>prep_calls := calls\<rparr>" for fuel
  proof (induction fuel arbitrary: c)
    case (Suc fuel)
    have "removeEarliestPreparation (c\<lparr>prep_calls := calls\<rparr>) = (removeEarliestPreparation c)\<lparr>prep_calls := calls\<rparr>"
      by (simp add: removeEarliestPreparation_def Let_def)
    with Suc show ?case by simp
  qed simp
  then show ?thesis by (simp add: makeRoom_def)
qed

lemma map_of_subseq:
  assumes "subseq ys xs" "distinct (map fst xs)" "k \<in> keysOf ys" "map_of xs k = Some v"
  shows "map_of ys k = Some v"
proof -
  obtain w where w: "(k, w) \<in> set ys" using assms(3) by (auto simp: keysOf_def)
  then have "(k, w) \<in> set xs" using set_mono_subseq [OF assms(1)] by blast
  then have "w = v" using assms(2,4) by (metis map_of_is_SomeI option.inject)
  moreover have "distinct (map fst ys)" by (rule subseq_distinct [OF subseq_map [OF assms(1)] assms(2)])
  ultimately show ?thesis using w by simp
qed

lemma subseq_makeRoom: "subseq (prep_entries (makeRoom c)) (prep_entries c)"
  using shrinks_makeRoom [of c] unfolding shrinks_def by blast

text \<open>The preparation of a key is finished, and its waiters have the result.\<close>

definition finishedAs :: "string \<Rightarrow> playbackPreparationEntry \<Rightarrow> nat \<Rightarrow> preparationSystem \<Rightarrow> bool" where
  "finishedAs key entry p s \<longleftrightarrow> prepOk s \<and> map_of (prep_entries (sys_cache s)) key = Some entry \<and> p < length (prep_calls (sys_cache s)) \<and>
     prep_calls (sys_cache s) ! p = \<lparr>call_done = True, call_playback = pe_playback entry, call_err = None\<rparr>"

lemma spares_finished:
  assumes spares: "sparesPrepared key (pe_expiresAt entry) s t" and finished: "finishedAs key entry p s"
  shows "finishedAs key entry p t"
proof -
  note f = finished [unfolded finishedAs_def]
  have ok: "prepOk t" using preparation_step_ok [OF spares_step [OF spares]] f by blast
  have expire: "map_of (prep_entries (removeExpiredPreparations now (sys_cache s))) key = Some entry" if "now < pe_expiresAt entry" for now
    using f that by (simp add: entries_removeExpired map_of_filter_kept)
  have maps: "mapsOk (sys_cache s)" "tasksOk s" using f by (simp_all add: prepOk_def)
  from spares have "map_of (prep_entries (sys_cache t)) key = Some entry \<and> p < length (prep_calls (sys_cache t)) \<and>
      prep_calls (sys_cache t) ! p = prep_calls (sys_cache s) ! p"
  proof cases
    case (requests now reference policy result)
    from requests(2) show ?thesis
      by (cases rule: preparePlayback_cases) (use expire [OF requests(1)] f in \<open>simp_all add: startedCache_def nth_append\<close>)
  next
    case (ends task err playback)
    note q = taskCall_less [OF maps(2) ends(2)]
    then have "task_call task \<noteq> p" using f by auto
    note fields = completePreparation_fields [OF conjunct1 [OF q], of playback err]
    have "map_of (prep_entries (sys_cache t)) key = Some entry"
    proof (cases "accepted task err (sys_cache s)")
      case True
      have "task_key task \<noteq> key"
        using accepted_mem(2) [OF True] entry_not_running [OF maps(1)] f by auto
      moreover have "map_of (prep_entries (makeRoom (sys_cache s))) key = Some entry"
        by (rule map_of_subseq [OF subseq_makeRoom _ ends(3) [OF True]]) (use maps(1) f in \<open>simp_all add: mapsOk_def\<close>)
      ultimately show ?thesis
        using True by (simp add: ends(1) finishTask_def fields makeRoom_calls update_conv')
    qed (use f ends(1) in \<open>simp add: finishTask_def fields\<close>)
    with \<open>task_call task \<noteq> p\<close> f show ?thesis by (simp add: ends(1) finishTask_def fields)
  next
    case evicts
    with f show ?thesis by (simp add: evict_def evictKeys_def map_of_filter_kept)
  next
    case evictsRevision
    with f show ?thesis by (simp add: evictRevision_def evictKeys_def map_of_filter_kept)
  next
    case (marks clock owner reference policy start marked cache)
    with f expire [OF marks(2)] show ?thesis
      by (auto simp: markResolveHandoff_def Let_def split: option.split_asm)
  next
    case (consumes clock owner reference policy start taken cache)
    have "prep_entries cache = prep_entries (removeExpiredPreparations (clock 0) (sys_cache s)) \<and> prep_calls cache = prep_calls (sys_cache s)"
      using consumes(3) by (auto simp: consumeResolveHandoff_def Let_def split: option.split_asm if_split_asm)
    with f expire [OF consumes(2)] show ?thesis by (simp add: consumes(1))
  qed
  with ok f show ?thesis by (simp add: finishedAs_def)
qed

lemma finishes_as:
  assumes reach: "preparation_step\<^sup>*\<^sup>* startPreparations s"
    and task: "task \<in> set (sys_tasks s)" "map_of (prep_inFlight (sys_cache s)) (task_key task) = Some (task_call task)"
  shows "finishedAs (task_key task) \<lparr>pe_playback = clonePreparedPlayback playback, pe_expiresAt = task_expiresAt task\<rparr> (task_call task)
    (finishTask task playback None s)"
proof -
  have ok: "prepOk s" by (rule preparations.inv_reachable [OF refl reach])
  then have tasks: "tasksOk s" by (simp add: prepOk_def)
  have len: "task_call task < length (prep_calls (sys_cache s))" using taskCall_less [OF tasks task(1)] by simp
  obtain task' where "task' \<in> set (sys_tasks s)" "task_call task' = task_call task" "task_generation task' = prep_generation (sys_cache s)"
    using tasks map_of_SomeD [OF task(2)] unfolding tasksOk_def by fastforce
  moreover have "task' = task"
    using calculation task(1) tasks by (auto simp: tasksOk_def distinct_map dest: inj_onD)
  ultimately have "accepted task None (sys_cache s)"
    using task(2) by (simp add: accepted_def)
  with len finishTask_ok [OF ok task(1)] show ?thesis
    by (simp add: finishedAs_def finishTask_def completePreparation_fields [OF len] map_of_update)
qed

lemma finished_request:
  assumes "finishedAs key entry p u"
  shows "now < pe_expiresAt entry \<Longrightarrow> fst (preparePlayback now key expiresAt u) = Served (clonePreparedPlayback (pe_playback entry))"
    "\<not> now < pe_expiresAt entry \<Longrightarrow>
       fst (preparePlayback now key expiresAt u) = Started (length (prep_calls (sys_cache u))) (prep_generation (sys_cache u))"
proof -
  note f = assms [unfolded finishedAs_def]
  then have maps: "mapsOk (sys_cache u)" by (simp add: prepOk_def)
  show "fst (preparePlayback now key expiresAt u) = Served (clonePreparedPlayback (pe_playback entry))" if "now < pe_expiresAt entry"
  proof -
    have "map_of (prep_entries (removeExpiredPreparations now (sys_cache u))) key = Some entry"
      using f that by (simp add: entries_removeExpired map_of_filter_kept)
    then show ?thesis by (simp add: preparePlayback_def beginPreparation_def Let_def)
  qed
  show "fst (preparePlayback now key expiresAt u) = Started (length (prep_calls (sys_cache u))) (prep_generation (sys_cache u))"
    if "\<not> now < pe_expiresAt entry"
  proof -
    have "map_of (prep_entries (removeExpiredPreparations now (sys_cache u))) key = None"
      using f that maps map_of_filter_none [of "prep_entries (sys_cache u)" key entry] by (simp add: entries_removeExpired mapsOk_def)
    moreover have "map_of (prep_inFlight (sys_cache u)) key = None"
      using entry_not_running [OF maps] f by (simp add: map_of_None_keys)
    ultimately show ?thesis by (simp add: preparePlayback_def beginPreparation_def Let_def)
  qed
qed

text \<open>
  C24. A finished preparation is shared: when the goroutine of a key still in flight finishes without
  an error, then after any number of further steps that spare the preparation its waiters get the playback,
  everyone who asks for the key before the reference expires is served the same playback, however often, and
  the key is free again for the first request after the expiry. Only the steps that \<open>sparesPrepared\<close> leaves out
  take it away earlier: an eviction of the key, a clear, and a full cache that needs its place.
\<close>

theorem finished_preparation_shared:
  fixes playback :: preparedPlayback
  assumes reach: "preparation_step\<^sup>*\<^sup>* startPreparations s"
    and task: "task \<in> set (sys_tasks s)" "map_of (prep_inFlight (sys_cache s)) (task_key task) = Some (task_call task)"
    and later: "(sparesPrepared (task_key task) (task_expiresAt task))\<^sup>*\<^sup>* (finishTask task playback None s) u"
  shows "awaitCall None (task_call task) (sys_cache u) = Some (clonePreparedPlayback playback, None) \<and>
    (now < task_expiresAt task \<longrightarrow> fst (preparePlayback now (task_key task) expiresAt u) = Served (clonePreparedPlayback playback)) \<and>
    (\<not> now < task_expiresAt task \<longrightarrow>
      fst (preparePlayback now (task_key task) expiresAt u) = Started (length (prep_calls (sys_cache u))) (prep_generation (sys_cache u)))"
proof -
  let ?entry = "\<lparr>pe_playback = clonePreparedPlayback playback, pe_expiresAt = task_expiresAt task\<rparr>"
  from later have u: "finishedAs (task_key task) ?entry (task_call task) u"
  proof induction
    case base
    show ?case by (rule finishes_as [OF reach task])
  next
    case (step v w)
    with spares_finished [of "task_key task" ?entry v w "task_call task"] show ?case by simp
  qed
  then have "awaitCall None (task_call task) (sys_cache u) = Some (clonePreparedPlayback playback, None)"
    by (simp add: finishedAs_def awaitCall_def Let_def)
  with finished_request [OF u, of now expiresAt] show ?thesis by simp
qed

section \<open>Example\<close>

definition prepPolicy :: playbackPolicy where
  "prepPolicy = \<lparr>pol_allowTranscoding = True, pol_maximumHeight = 0, pol_bitrateKbps = 0, pol_externalPlayer = False\<rparr>"

definition prepReference :: sourceReference where
  "prepReference = exampleReference\<lparr>ref_ID := ''r1'', ref_ExpiresAt := 100\<rparr>"

definition prepKey :: string where
  "prepKey = referenceKey prepReference prepPolicy"

definition prepTask :: preparationTask where
  "prepTask = \<lparr>task_key = prepKey, task_call = 0, task_generation = 0, task_expiresAt = 100\<rparr>"

definition prepStarted :: preparationSystem where
  "prepStarted = snd (preparePlayback 0 prepKey 100 startPreparations)"

definition prepFinished :: preparationSystem where
  "prepFinished = finishTask prepTask zeroPreparedPlayback None prepStarted"

lemma prep_started: "prepStarted = \<lparr>sys_cache = \<lparr>prep_entries = [], prep_inFlight = [(prepKey, 0)], prep_handoffs = [], prep_generation = 0,
    prep_calls = [\<lparr>call_done = False, call_playback = zeroPreparedPlayback, call_err = None\<rparr>]\<rparr>, sys_tasks = [prepTask]\<rparr>"
  by (simp add: prepStarted_def startPreparations_def newPlaybackPreparationCache_def preparePlayback_def beginPreparation_def
      removeExpiredPreparations_def prepTask_def)

lemma prep_started_reachable: "preparation_step\<^sup>*\<^sup>* startPreparations prepStarted"
proof (rule r_into_rtranclp)
  have "preparePlayback 0 (referenceKey prepReference prepPolicy) (ref_ExpiresAt prepReference) startPreparations =
      (fst (preparePlayback 0 prepKey 100 startPreparations), prepStarted)"
    by (simp add: prepStarted_def prepKey_def prepReference_def)
  then show "preparation_step startPreparations prepStarted" by (rule preparation_step.prepare)
qed

lemma prep_finished_reachable: "preparation_step\<^sup>*\<^sup>* startPreparations prepFinished"
  unfolding prepFinished_def
  by (rule rtranclp.rtrancl_into_rtrancl [OF prep_started_reachable preparation_step.finish]) (simp add: prep_started)

lemma prep_finished_entries:
  "prep_entries (sys_cache prepFinished) = [(prepKey, \<lparr>pe_playback = zeroPreparedPlayback, pe_expiresAt = 100\<rparr>)]"
  "prep_handoffs (sys_cache prepFinished) = []" "prep_inFlight (sys_cache prepFinished) = []" "length (prep_calls (sys_cache prepFinished)) = 1"
  by (simp_all add: prepFinished_def finishTask_def prep_started completePreparation_def prepTask_def Let_def makeRoom_def
      clonePreparedPlayback_def zeroPreparedPlayback_def)

theorem preparation_cache_invariant_witness:
  "length (prep_entries (sys_cache prepFinished)) \<le> 512 \<and> length (prep_entries (sys_cache prepFinished)) = 1 \<and>
   (\<exists>!task. task \<in> set (sys_tasks prepStarted) \<and> task_call task = 0)"
  using preparation_cache_invariant [OF prep_finished_reachable] preparation_cache_invariant [OF prep_started_reachable]
  by (simp add: prep_finished_entries prep_started)

text \<open>A preparation is evicted while it runs and is started again by the next request.\<close>

theorem evicted_never_served_witness:
  "1 \<le> (case fst (preparePlayback 5 prepKey 100 (prepStarted\<lparr>sys_cache := evict prepReference prepPolicy (sys_cache prepStarted)\<rparr>)) of
      Started p generation \<Rightarrow> p | _ \<Rightarrow> 0)"
proof -
  let ?c = "evict prepReference prepPolicy (sys_cache prepStarted)"
  have forgets: "forgets (sys_cache prepStarted) (\<lambda>k. k = referenceKey prepReference prepPolicy) ?c"
    by (auto simp: forgets_def)
  have started: "fst (preparePlayback 5 prepKey 100 (prepStarted\<lparr>sys_cache := ?c\<rparr>)) = Started 1 0"
    by (simp add: prep_started evict_def evictKeys_def prepKey_def preparePlayback_def beginPreparation_def removeExpiredPreparations_def)
  show ?thesis
    using evicted_never_served [OF prep_started_reachable forgets rtranclp.rtrancl_refl prepKey_def surjective_pairing, of 5 100]
    unfolding started by (simp add: prep_started)
qed

theorem handoff_once_witness:
  "fst (markResolveHandoff (\<lambda>_. 1) ''u'' prepReference prepPolicy (Finite 0) (sys_cache prepFinished)) \<and>
   fst (consumeResolveHandoff (\<lambda>_. 2) ''u'' prepReference prepPolicy (Finite 0)
     (snd (markResolveHandoff (\<lambda>_. 1) ''u'' prepReference prepPolicy (Finite 0) (sys_cache prepFinished)))) = Some zeroPreparedPlayback"
proof -
  have e: "map_of (prep_entries (sys_cache prepFinished)) (referenceKey prepReference prepPolicy) =
      Some \<lparr>pe_playback = zeroPreparedPlayback, pe_expiresAt = 100\<rparr>"
    by (simp add: prep_finished_entries prepKey_def)
  have d: "distinct (map fst (prep_handoffs (sys_cache prepFinished)))"
    by (simp add: prep_finished_entries)
  show ?thesis
    using handoff_once [OF e _ d surjective_pairing _ surjective_pairing, of "\<lambda>_. 1" "\<lambda>_. 2" "''u''" "Finite 0" prepReference prepPolicy "Finite 0"]
    by (simp add: playbackPreparationHandoffTTL_def clonePreparedPlayback_def zeroPreparedPlayback_def)
qed

theorem finished_preparation_shared_witness:
  "\<exists>u. snd (preparePlayback 3 prepKey 100 prepFinished) = u \<and> awaitCall None 0 (sys_cache u) = Some (clonePreparedPlayback zeroPreparedPlayback, None) \<and>
   fst (preparePlayback 5 prepKey 100 u) = Served (clonePreparedPlayback zeroPreparedPlayback)"
proof -
  have task: "prepTask \<in> set (sys_tasks prepStarted)" "map_of (prep_inFlight (sys_cache prepStarted)) (task_key prepTask) = Some (task_call prepTask)"
    by (simp_all add: prep_started prepTask_def)
  have "preparePlayback 3 (referenceKey prepReference prepPolicy) (ref_ExpiresAt prepReference) prepFinished =
      (fst (preparePlayback 3 prepKey 100 prepFinished), snd (preparePlayback 3 prepKey 100 prepFinished))"
    by (simp add: prepKey_def prepReference_def)
  from sparesPrepared.requests [OF _ this, of 100 prepKey]
  have "sparesPrepared (task_key prepTask) (task_expiresAt prepTask) prepFinished (snd (preparePlayback 3 prepKey 100 prepFinished))"
    by (simp add: prepTask_def)
  from finished_preparation_shared [OF prep_started_reachable task r_into_rtranclp, of zeroPreparedPlayback _ 5 100, folded prepFinished_def, OF this] show ?thesis
    by (simp add: prepTask_def)
qed

end
