(* ===== verification/Probe_Cache.thy ===== *)
theory Probe_Cache
  imports Playback_Preparation
begin

text \<open>
  The cache of probed media (\<open>playback/probe_cache.go\<close>) with the request headers that are part of a
  probe's key (\<open>headers.go\<close>). One probe runs for a key at a time and its waiters share the result; a
  result is kept for fifteen minutes unless something was evicted while the probe ran.
  The map order, which decides between entries that expire together, is the order of the association
  list and may change at any time. \<open>httpguts.ValidHeaderFieldName\<close> and SHA-256 are parameters.
\<close>

section \<open>Request headers\<close>

definition allowedStoredRequestHeader :: "string \<Rightarrow> bool" where
  "allowedStoredRequestHeader name \<longleftrightarrow>
     ToLower (TrimSpace name) \<notin> {[], ''host'', ''connection'', ''proxy-connection'', ''keep-alive'', ''transfer-encoding'', ''upgrade'',
       ''content-length'', ''accept-encoding'', ''range'', ''if-range''}"

definition validFFmpegStoredHeader :: "(string \<Rightarrow> bool) \<Rightarrow> string \<Rightarrow> string \<Rightarrow> bool" where
  "validFFmpegStoredHeader validName name value \<longleftrightarrow>
     validName name \<and> allowedStoredRequestHeader name \<and> \<not> EqualFold (TrimSpace name) ''Proxy-Authorization'' \<and>
     CHR 0x0D \<notin> set value \<and> CHR 0x0A \<notin> set value"

text \<open>\<open>http.CanonicalHeaderKey\<close>: unchanged with a byte that is no token character.\<close>

definition tokenChar :: "char \<Rightarrow> bool" where
  "tokenChar c \<longleftrightarrow> charBetween CHR ''a'' CHR ''z'' c \<or> charBetween CHR ''A'' CHR ''Z'' c \<or> charBetween CHR ''0'' CHR ''9'' c \<or>
     c \<in> set ''!#$%&*+-.^_`|~'' \<or> c = CHR 0x27"

fun canonicalBytes :: "bool \<Rightarrow> string \<Rightarrow> string" where
  "canonicalBytes upper [] = []"
| "canonicalBytes upper (c # rest) =
     (let c' = (if upper \<and> charBetween CHR ''a'' CHR ''z'' c then char_of ((of_char c :: nat) - 32)
        else if \<not> upper then lower_char c else c)
      in c' # canonicalBytes (c' = CHR ''-'') rest)"

definition CanonicalHeaderKey :: "string \<Rightarrow> string" where
  "CanonicalHeaderKey name = (if list_all tokenChar name then canonicalBytes True name else name)"

definition nameLess :: "string \<times> string \<Rightarrow> string \<times> string \<Rightarrow> bool" where
  "nameLess a b \<longleftrightarrow> fst a < fst b"

fun canonicalHeaders :: "(string \<Rightarrow> bool) \<Rightarrow> (string \<times> string) list \<Rightarrow> (string \<times> string) list \<Rightarrow> (string \<times> string) list option" where
  "canonicalHeaders validName headers [] = Some headers"
| "canonicalHeaders validName headers ((originalName, value) # rest) =
     (if \<not> validFFmpegStoredHeader validName originalName value then canonicalHeaders validName headers rest
      else (let name = CanonicalHeaderKey (TrimSpace originalName)
            in if name \<in> fst ` set headers then None else canonicalHeaders validName (headers @ [(name, value)]) rest))"

definition canonicalStoredRequestHeaders :: "(string \<Rightarrow> bool) \<Rightarrow> (string \<times> string) list \<Rightarrow> (string \<times> string) list option" where
  "canonicalStoredRequestHeaders validName values =
     (if values = [] then Some [] else canonicalHeaders validName [] (SliceStable nameLess values))"

definition newline :: string where
  "newline = [CHR 0x0A]"

definition probeText :: "(string \<Rightarrow> bool) \<Rightarrow> storedAsset \<Rightarrow> string" where
  "probeText validName asset =
     (let headers = canonicalStoredRequestHeaders validName (sa_Headers asset);
          names = SliceStable nameLess (case headers of Some hs \<Rightarrow> hs | None \<Rightarrow> sa_Headers asset)
      in sa_URL asset @ newline @ sa_Container asset @ (if headers = None then newline @ ''!invalid-headers'' else []) @
         concat (map (\<lambda>(name, value). newline @ name @ '':'' @ value) names))"

definition mediaProbeKey :: "(string \<Rightarrow> string) \<Rightarrow> (string \<Rightarrow> bool) \<Rightarrow> storedAsset \<Rightarrow> string" where
  "mediaProbeKey digest validName asset = digest (probeText validName asset)"

section \<open>State\<close>

definition mediaProbeCacheTTL :: int where
  "mediaProbeCacheTTL = 15 * 60 * 1000000000"

definition maximumMediaProbeCache :: nat where
  "maximumMediaProbeCache = 512"

record mediaProbeCacheEntry =
  pb_inspection :: MediaInspection
  pb_expiresAt :: int

record mediaProbeCall =
  pcall_done :: bool
  pcall_inspection :: MediaInspection
  pcall_err :: "playback_error option"

record mediaProbeCache =
  pb_entries :: "(string \<times> mediaProbeCacheEntry) list"
  pb_inFlight :: "(string \<times> nat) list"
  pb_generation :: "64 word"
  pb_calls :: "mediaProbeCall list"

definition newMediaProbeCache :: mediaProbeCache where
  "newMediaProbeCache = \<lparr>pb_entries = [], pb_inFlight = [], pb_generation = 0, pb_calls = []\<rparr>"

section \<open>Operations\<close>

definition clearProbes :: "mediaProbeCache \<Rightarrow> mediaProbeCache" where
  "clearProbes cache = cache\<lparr>pb_generation := pb_generation cache + 1, pb_entries := []\<rparr>"

text \<open>The second half of \<open>evictStaleSourcePreparation\<close> of \<open>service.go\<close>.\<close>

definition evictProbe :: "string \<Rightarrow> mediaProbeCache \<Rightarrow> mediaProbeCache" where
  "evictProbe key cache = cache\<lparr>pb_generation := pb_generation cache + 1, pb_entries := AList.delete key (pb_entries cache)\<rparr>"

definition removeExpiredProbes :: "int \<Rightarrow> mediaProbeCache \<Rightarrow> mediaProbeCache" where
  "removeExpiredProbes now cache = cache\<lparr>pb_entries := filter (\<lambda>(_, entry). now < pb_expiresAt entry) (pb_entries cache)\<rparr>"

fun earliestProbe :: "string \<Rightarrow> int \<Rightarrow> (string \<times> mediaProbeCacheEntry) list \<Rightarrow> string" where
  "earliestProbe earliestKey earliest [] = earliestKey"
| "earliestProbe earliestKey earliest ((key, entry) # rest) =
     (if earliestKey = [] \<or> pb_expiresAt entry < earliest then earliestProbe key (pb_expiresAt entry) rest
      else earliestProbe earliestKey earliest rest)"

definition removeEarliestProbe :: "mediaProbeCache \<Rightarrow> mediaProbeCache" where
  "removeEarliestProbe cache =
     (let earliestKey = earliestProbe [] 0 (pb_entries cache)
      in if earliestKey = [] then cache else cache\<lparr>pb_entries := AList.delete earliestKey (pb_entries cache)\<rparr>)"

text \<open>The loop that makes room, with the number of entries as fuel: no key is empty, so every round removes an entry.\<close>

fun probeRoomLoop :: "nat \<Rightarrow> mediaProbeCache \<Rightarrow> mediaProbeCache" where
  "probeRoomLoop 0 cache = cache"
| "probeRoomLoop (Suc fuel) cache =
     (if length (pb_entries cache) \<ge> maximumMediaProbeCache then probeRoomLoop fuel (removeEarliestProbe cache) else cache)"

definition probeRoom :: "mediaProbeCache \<Rightarrow> mediaProbeCache" where
  "probeRoom cache = probeRoomLoop (length (pb_entries cache)) cache"

datatype probeStart =
    ProbeServed MediaInspection
  | ProbeJoined nat
  | ProbeStarted nat "64 word"

text \<open>The part of \<open>probeMedia\<close> under the lock.\<close>

definition beginProbe :: "int \<Rightarrow> string \<Rightarrow> mediaProbeCache \<Rightarrow> probeStart \<times> mediaProbeCache" where
  "beginProbe now key cache0 =
     (let cache = removeExpiredProbes now cache0
      in case map_of (pb_entries cache) key of
           Some entry \<Rightarrow> (ProbeServed (cloneMediaInspection (pb_inspection entry)), cache)
         | None \<Rightarrow>
             (case map_of (pb_inFlight cache) key of
                Some call \<Rightarrow> (ProbeJoined call, cache)
              | None \<Rightarrow>
                  (let call = length (pb_calls cache)
                   in (ProbeStarted call (pb_generation cache),
                       cache\<lparr>pb_calls := pb_calls cache @ [\<lparr>pcall_done = False, pcall_inspection = zeroMediaInspection, pcall_err = None\<rparr>],
                         pb_inFlight := AList.update key call (pb_inFlight cache)\<rparr>))))"

definition awaitProbe :: "playback_error option \<Rightarrow> nat \<Rightarrow> mediaProbeCache \<Rightarrow> (MediaInspection \<times> playback_error option) option" where
  "awaitProbe contextDone call cache =
     (case contextDone of Some err \<Rightarrow> Some (zeroMediaInspection, Some err)
      | None \<Rightarrow>
          (let c = pb_calls cache ! call
           in if pcall_done c then Some (cloneMediaInspection (pcall_inspection c), pcall_err c) else None))"

text \<open>The goroutine after its probe: \<open>clock 0\<close> is read when expired entries are removed, \<open>clock 1\<close> for the new entry.\<close>

definition completeProbe ::
    "(nat \<Rightarrow> int) \<Rightarrow> string \<Rightarrow> nat \<Rightarrow> 64 word \<Rightarrow> MediaInspection \<Rightarrow> playback_error option \<Rightarrow> mediaProbeCache \<Rightarrow> mediaProbeCache" where
  "completeProbe clock key call generation inspection err cache =
     (let c1 = cache\<lparr>pb_calls := (pb_calls cache)[call := \<lparr>pcall_done = False, pcall_inspection = cloneMediaInspection inspection, pcall_err = err\<rparr>]\<rparr>;
          c2 = (if err = None \<and> pb_generation c1 = generation then
                  (let room = probeRoom (removeExpiredProbes (clock 0) c1)
                   in room\<lparr>pb_entries := AList.update key
                        \<lparr>pb_inspection = cloneMediaInspection inspection, pb_expiresAt = clock 1 + mediaProbeCacheTTL\<rparr> (pb_entries room)\<rparr>)
                else c1);
          c3 = c2\<lparr>pb_inFlight := AList.delete key (pb_inFlight c2)\<rparr>
      in c3\<lparr>pb_calls := (pb_calls c3)[call := (pb_calls c3 ! call)\<lparr>pcall_done := True\<rparr>]\<rparr>)"

section \<open>The running server\<close>

record probeTask =
  ptask_key :: string
  ptask_call :: nat
  ptask_generation :: "64 word"

record probeSystem =
  psys_cache :: mediaProbeCache
  psys_tasks :: "probeTask list"

definition probeMedia :: "bool \<Rightarrow> int \<Rightarrow> string \<Rightarrow> probeSystem \<Rightarrow> (playback_error + probeStart) \<times> probeSystem" where
  "probeMedia hasProcessor now key s =
     (if \<not> hasProcessor then (Inl (ErrOther ''media processing failed''), s)
      else
        (case beginProbe now key (psys_cache s) of
           (ProbeStarted call generation, cache) \<Rightarrow>
             (Inr (ProbeStarted call generation), s\<lparr>psys_cache := cache, psys_tasks := psys_tasks s @
                [\<lparr>ptask_key = key, ptask_call = call, ptask_generation = generation\<rparr>]\<rparr>)
         | (result, cache) \<Rightarrow> (Inr result, s\<lparr>psys_cache := cache\<rparr>)))"

definition finishProbe :: "(nat \<Rightarrow> int) \<Rightarrow> probeTask \<Rightarrow> MediaInspection \<Rightarrow> playback_error option \<Rightarrow> probeSystem \<Rightarrow> probeSystem" where
  "finishProbe clock task inspection err s = s\<lparr>
     psys_cache := completeProbe clock (ptask_key task) (ptask_call task) (ptask_generation task) inspection err (psys_cache s),
     psys_tasks := remove1 task (psys_tasks s)\<rparr>"

inductive probe_step :: "probeSystem \<Rightarrow> probeSystem \<Rightarrow> bool" where
  probe: "key \<noteq> [] \<Longrightarrow> probeMedia hasProcessor now key s = (result, t) \<Longrightarrow> probe_step s t"
| finish: "task \<in> set (psys_tasks s) \<Longrightarrow> probe_step s (finishProbe clock task inspection err s)"
| clear: "probe_step s (s\<lparr>psys_cache := clearProbes (psys_cache s)\<rparr>)"
| evict: "probe_step s (s\<lparr>psys_cache := evictProbe key (psys_cache s)\<rparr>)"
| reorder: "mset entries = mset (pb_entries (psys_cache s)) \<Longrightarrow>
    probe_step s (s\<lparr>psys_cache := (psys_cache s)\<lparr>pb_entries := entries\<rparr>\<rparr>)"

definition startProbes :: probeSystem where
  "startProbes = \<lparr>psys_cache = newMediaProbeCache, psys_tasks = []\<rparr>"

section \<open>The invariant\<close>

definition probeResult :: "nat \<Rightarrow> mediaProbeCall list \<Rightarrow> MediaInspection \<Rightarrow> bool" where
  "probeResult n calls inspection \<longleftrightarrow>
     (\<exists>p < length calls. n \<le> p \<and> pcall_done (calls ! p) \<and> pcall_err (calls ! p) = None \<and> pcall_inspection (calls ! p) = inspection)"

definition probeEntriesOk :: "mediaProbeCache \<Rightarrow> bool" where
  "probeEntriesOk c \<longleftrightarrow> distinct (map fst (pb_entries c)) \<and> length (pb_entries c) \<le> maximumMediaProbeCache \<and> [] \<notin> keysOf (pb_entries c)"

text \<open>The keys in flight, the running goroutines and the calls that are not done are the same.\<close>

definition probeTasksOk :: "probeSystem \<Rightarrow> bool" where
  "probeTasksOk s \<longleftrightarrow> distinct (map ptask_call (psys_tasks s)) \<and> distinct (map fst (pb_inFlight (psys_cache s))) \<and>
     set (pb_inFlight (psys_cache s)) = (\<lambda>t. (ptask_key t, ptask_call t)) ` set (psys_tasks s) \<and>
     ptask_call ` set (psys_tasks s) = {p. p < length (pb_calls (psys_cache s)) \<and> \<not> pcall_done (pb_calls (psys_cache s) ! p)} \<and>
     (\<forall>t \<in> set (psys_tasks s). ptask_key t \<noteq> [])"

definition probeOk :: "probeSystem \<Rightarrow> bool" where
  "probeOk s \<longleftrightarrow> probeEntriesOk (psys_cache s) \<and> probeTasksOk s"

text \<open>
  Relative to keys \<open>K\<close>, a number \<open>n\<close> of calls and a generation \<open>g\<close>: what is cached for the keys comes
  from later calls, and an earlier call that still runs has an earlier generation.
\<close>

definition probeFresh :: "(string \<Rightarrow> bool) \<Rightarrow> nat \<Rightarrow> 64 word \<Rightarrow> probeSystem \<Rightarrow> bool" where
  "probeFresh K n g s \<longleftrightarrow> n \<le> length (pb_calls (psys_cache s)) \<and> g \<le> pb_generation (psys_cache s) \<and>
     (\<forall>(k, e) \<in> set (pb_entries (psys_cache s)). K k \<longrightarrow> probeResult n (pb_calls (psys_cache s)) (pb_inspection e)) \<and>
     (\<forall>t \<in> set (psys_tasks s). ptask_call t < n \<longrightarrow> ptask_generation t < g)"

definition generationsOk :: "probeSystem \<Rightarrow> bool" where
  "generationsOk s \<longleftrightarrow> (\<forall>t \<in> set (psys_tasks s). ptask_generation t \<le> pb_generation (psys_cache s))"

section \<open>Making room\<close>

lemma keysOf_filter: "keysOf (filter P xs) \<subseteq> keysOf xs"
  by (rule subseq_maps(3)) (rule subseq_filter_left)

lemma earliestProbe_mem: "earliestProbe k t xs = k \<or> earliestProbe k t xs \<in> keysOf xs"
  by (induction k t xs rule: earliestProbe.induct) (auto simp: keysOf_def)

lemma earliestProbe_found:
  assumes "xs \<noteq> []" "[] \<notin> keysOf xs"
  shows "earliestProbe [] t xs \<in> keysOf xs" "earliestProbe [] t xs \<noteq> []"
proof -
  obtain key entry rest where xs: "xs = (key, entry) # rest" using assms(1) by (metis list.exhaust surj_pair)
  then show "earliestProbe [] t xs \<in> keysOf xs"
    using earliestProbe_mem [of key "pb_expiresAt entry" rest] by (auto simp: keysOf_def)
  with assms(2) show "earliestProbe [] t xs \<noteq> []" by metis
qed

text \<open>Expiry and making room only change the entries, to a part of them.\<close>

lemma removeExpiredProbes_eq:
  "removeExpiredProbes now c = c\<lparr>pb_entries := filter (\<lambda>x. now < pb_expiresAt (snd x)) (pb_entries c)\<rparr>"
  by (simp add: removeExpiredProbes_def case_prod_unfold)

lemma removeEarliestProbe_subseq: "\<exists>es. removeEarliestProbe c = c\<lparr>pb_entries := es\<rparr> \<and> subseq es (pb_entries c)"
  by (auto simp: removeEarliestProbe_def Let_def delete_filter intro: exI [of _ "pb_entries c"])

lemma probeRoomLoop_subseq: "\<exists>es. probeRoomLoop fuel c = c\<lparr>pb_entries := es\<rparr> \<and> subseq es (pb_entries c)"
proof (induction fuel arbitrary: c)
  case 0
  show ?case by (rule exI [of _ "pb_entries c"]) simp
next
  case (Suc fuel)
  obtain es where es: "removeEarliestProbe c = c\<lparr>pb_entries := es\<rparr>" "subseq es (pb_entries c)"
    using removeEarliestProbe_subseq by blast
  obtain fs where fs: "probeRoomLoop fuel (removeEarliestProbe c) = (removeEarliestProbe c)\<lparr>pb_entries := fs\<rparr>" "subseq fs es"
    using Suc.IH [of "removeEarliestProbe c"] es by auto
  show ?case
  proof (cases "length (pb_entries c) \<ge> maximumMediaProbeCache")
    case True
    with es fs subseq_order.trans show ?thesis by (auto intro!: exI [of _ fs])
  next
    case False
    then show ?thesis by (intro exI [of _ "pb_entries c"]) simp
  qed
qed

lemma probeRoom_subseq:
  obtains es where "probeRoom c = c\<lparr>pb_entries := es\<rparr>" "subseq es (pb_entries c)"
  using probeRoomLoop_subseq unfolding probeRoom_def by blast

lemma length_probeRoom:
  assumes "[] \<notin> keysOf (pb_entries c)"
  shows "length (pb_entries (probeRoom c)) < maximumMediaProbeCache"
proof -
  have "length (pb_entries (probeRoomLoop fuel c)) < maximumMediaProbeCache"
    if "[] \<notin> keysOf (pb_entries c)" "length (pb_entries c) \<le> fuel" for fuel c
    using that
  proof (induction fuel arbitrary: c)
    case 0
    then show ?case by (simp add: maximumMediaProbeCache_def)
  next
    case (Suc fuel)
    show ?case
    proof (cases "maximumMediaProbeCache \<le> length (pb_entries c)")
      case True
      then have "pb_entries c \<noteq> []" by (auto simp: maximumMediaProbeCache_def)
      note found = earliestProbe_found [OF this Suc.prems(1), of 0]
      let ?k = "earliestProbe [] 0 (pb_entries c)"
      have next': "removeEarliestProbe c = c\<lparr>pb_entries := filter (\<lambda>x. fst x \<noteq> ?k) (pb_entries c)\<rparr>"
        using found(2) by (simp add: removeEarliestProbe_def Let_def delete_filter)
      obtain e where "(?k, e) \<in> set (pb_entries c)" using found(1) by (auto simp: keysOf_def)
      then have "length (filter (\<lambda>x. fst x \<noteq> ?k) (pb_entries c)) < length (pb_entries c)"
        by (intro length_filter_less) auto
      then show ?thesis
        using Suc.IH [of "removeEarliestProbe c"] Suc.prems True keysOf_filter [of "\<lambda>x. fst x \<noteq> ?k" "pb_entries c"] next' by auto
    qed simp
  qed
  with assms show ?thesis by (simp add: probeRoom_def)
qed

section \<open>What a finished probe leaves\<close>

definition probedEntry :: "(nat \<Rightarrow> int) \<Rightarrow> MediaInspection \<Rightarrow> mediaProbeCacheEntry" where
  "probedEntry clock inspection = \<lparr>pb_inspection = cloneMediaInspection inspection, pb_expiresAt = clock 1 + mediaProbeCacheTTL\<rparr>"

text \<open>Either the entries are unchanged, or the probe was of the current generation and its entry joins a part of them.\<close>

lemma completeProbe_fields:
  fixes c :: mediaProbeCache and err inspection generation key clock
  assumes p: "p < length (pb_calls c)" and keys: "[] \<notin> keysOf (pb_entries c)"
  defines "d \<equiv> completeProbe clock key p generation inspection err c"
  shows "pb_calls d = (pb_calls c)[p := \<lparr>pcall_done = True, pcall_inspection = cloneMediaInspection inspection, pcall_err = err\<rparr>]"
    "pb_generation d = pb_generation c" "pb_inFlight d = AList.delete key (pb_inFlight c)"
    "pb_entries d = pb_entries c \<or> err = None \<and> pb_generation c = generation \<and>
      (\<exists>es. subseq es (pb_entries c) \<and> length es < maximumMediaProbeCache \<and> pb_entries d = AList.update key (probedEntry clock inspection) es)"
proof -
  let ?c1 = "c\<lparr>pb_calls := (pb_calls c)[p := \<lparr>pcall_done = False, pcall_inspection = cloneMediaInspection inspection, pcall_err = err\<rparr>]\<rparr>"
  let ?c2 = "removeExpiredProbes (clock 0) ?c1"
  obtain es where es: "probeRoom ?c2 = ?c2\<lparr>pb_entries := es\<rparr>" "subseq es (pb_entries ?c2)" by (rule probeRoom_subseq)
  have sub: "subseq es (pb_entries c)"
    using es(2) subseq_order.trans [OF _ subseq_filter_left] by (simp add: removeExpiredProbes_eq)
  have "[] \<notin> keysOf (pb_entries ?c2)" using keys keysOf_filter by (auto simp: removeExpiredProbes_eq)
  then have "length es < maximumMediaProbeCache" using length_probeRoom [of ?c2] unfolding es(1) by simp
  then show "pb_entries d = pb_entries c \<or> err = None \<and> pb_generation c = generation \<and>
      (\<exists>es. subseq es (pb_entries c) \<and> length es < maximumMediaProbeCache \<and> pb_entries d = AList.update key (probedEntry clock inspection) es)"
    using sub unfolding d_def completeProbe_def Let_def es(1) by (auto simp: probedEntry_def)
  show "pb_calls d = (pb_calls c)[p := \<lparr>pcall_done = True, pcall_inspection = cloneMediaInspection inspection, pcall_err = err\<rparr>]"
    "pb_generation d = pb_generation c" "pb_inFlight d = AList.delete key (pb_inFlight c)"
    using p unfolding d_def completeProbe_def Let_def es(1) by (auto simp: removeExpiredProbes_eq)
qed

section \<open>The steps\<close>

lemma probeTask_running:
  "probeTasksOk s \<Longrightarrow> t \<in> set (psys_tasks s) \<Longrightarrow> ptask_call t < length (pb_calls (psys_cache s)) \<and> \<not> pcall_done (pb_calls (psys_cache s) ! ptask_call t)"
  unfolding probeTasksOk_def by blast

text \<open>A step that changes neither the calls nor what is in flight and keeps a part of the entries, or reorders them.\<close>

lemma probeOk_entries:
  assumes "probeOk s" "set es \<subseteq> set (pb_entries (psys_cache s))" "length es \<le> length (pb_entries (psys_cache s))" "distinct (map fst es)"
  shows "probeOk (s\<lparr>psys_cache := (psys_cache s)\<lparr>pb_generation := g, pb_entries := es\<rparr>\<rparr>)"
  using assms unfolding probeOk_def probeEntriesOk_def probeTasksOk_def keysOf_def by auto

lemma probeOk_subseq:
  assumes "probeOk s" "subseq es (pb_entries (psys_cache s))"
  shows "probeOk (s\<lparr>psys_cache := (psys_cache s)\<lparr>pb_generation := g, pb_entries := es\<rparr>\<rparr>)"
  by (rule probeOk_entries [OF assms(1)])
    (use assms(1) subseq_maps [OF assms(2)] in \<open>auto simp: probeOk_def probeEntriesOk_def\<close>)

text \<open>The state in which \<open>probeMedia\<close> leaves the server, for each of its results.\<close>

lemma probeMedia_cases:
  fixes s :: probeSystem and now :: int
  defines "c \<equiv> removeExpiredProbes now (psys_cache s)"
  assumes "probeMedia hasProcessor now key s = (result, t)"
  obtains (failed) "result = Inl (ErrOther ''media processing failed'')" "t = s"
  | (served) entry where "map_of (pb_entries c) key = Some entry" "result = Inr (ProbeServed (cloneMediaInspection (pb_inspection entry)))"
      "t = s\<lparr>psys_cache := c\<rparr>"
  | (joined) call where "map_of (pb_inFlight (psys_cache s)) key = Some call" "result = Inr (ProbeJoined call)" "t = s\<lparr>psys_cache := c\<rparr>"
  | (started) "key \<notin> keysOf (pb_inFlight (psys_cache s))"
      "result = Inr (ProbeStarted (length (pb_calls (psys_cache s))) (pb_generation (psys_cache s)))"
      "t = s\<lparr>psys_cache := c\<lparr>pb_calls := pb_calls (psys_cache s) @ [\<lparr>pcall_done = False, pcall_inspection = zeroMediaInspection, pcall_err = None\<rparr>],
           pb_inFlight := pb_inFlight (psys_cache s) @ [(key, length (pb_calls (psys_cache s)))]\<rparr>,
         psys_tasks := psys_tasks s @ [\<lparr>ptask_key = key, ptask_call = length (pb_calls (psys_cache s)), ptask_generation = pb_generation (psys_cache s)\<rparr>]\<rparr>"
proof -
  have same: "pb_inFlight c = pb_inFlight (psys_cache s)" "pb_calls c = pb_calls (psys_cache s)" "pb_generation c = pb_generation (psys_cache s)"
    by (simp_all add: c_def removeExpiredProbes_def)
  note run = assms(2) [unfolded probeMedia_def beginProbe_def Let_def, folded c_def, unfolded same]
  show thesis
  proof (cases hasProcessor)
    case False
    with run have "result = Inl (ErrOther ''media processing failed'')" "t = s" by simp_all
    then show thesis by (rule failed)
  next
    case True
    show thesis
    proof (cases "map_of (pb_entries c) key")
      case (Some entry)
      with True run have "result = Inr (ProbeServed (cloneMediaInspection (pb_inspection entry)))" "t = s\<lparr>psys_cache := c\<rparr>"
        by simp_all
      with Some show thesis by (rule served)
    next
      case None
      note run1 = run [unfolded None option.case]
      show thesis
      proof (cases "map_of (pb_inFlight (psys_cache s)) key")
        case (Some call)
        with True run1 have "result = Inr (ProbeJoined call)" "t = s\<lparr>psys_cache := c\<rparr>" by simp_all
        with Some show thesis by (rule joined)
      next
        case none: None
        then have absent: "key \<notin> fst ` set (pb_inFlight (psys_cache s))" by (simp add: map_of_eq_None_iff)
        have "result = Inr (ProbeStarted (length (pb_calls (psys_cache s))) (pb_generation (psys_cache s)))"
          "t = s\<lparr>psys_cache := c\<lparr>pb_calls := pb_calls (psys_cache s) @ [\<lparr>pcall_done = False, pcall_inspection = zeroMediaInspection, pcall_err = None\<rparr>],
               pb_inFlight := pb_inFlight (psys_cache s) @ [(key, length (pb_calls (psys_cache s)))]\<rparr>,
             psys_tasks := psys_tasks s @ [\<lparr>ptask_key = key, ptask_call = length (pb_calls (psys_cache s)), ptask_generation = pb_generation (psys_cache s)\<rparr>]\<rparr>"
          using run1 [unfolded none option.case update_fresh [OF absent] prod.case probeStart.case] True by simp_all
        with absent started show thesis unfolding keysOf_def by blast
      qed
    qed
  qed
qed

declare probeMedia_cases [consumes 1, case_names failed served joined started]

lemma probe_started_ok:
  assumes ok: "probeOk s" and fresh: "key \<notin> keysOf (pb_inFlight (psys_cache s))" and key: "key \<noteq> []"
  shows "probeOk (s\<lparr>psys_cache := (psys_cache s)\<lparr>pb_calls := pb_calls (psys_cache s) @ [\<lparr>pcall_done = False, pcall_inspection = zeroMediaInspection, pcall_err = None\<rparr>],
           pb_inFlight := pb_inFlight (psys_cache s) @ [(key, length (pb_calls (psys_cache s)))]\<rparr>,
         psys_tasks := psys_tasks s @ [\<lparr>ptask_key = key, ptask_call = length (pb_calls (psys_cache s)), ptask_generation = g\<rparr>]\<rparr>)"
proof -
  have tasks: "probeTasksOk s" using ok by (simp add: probeOk_def)
  have new: "length (pb_calls (psys_cache s)) \<notin> ptask_call ` set (psys_tasks s)"
    using tasks by (auto simp: probeTasksOk_def)
  have "{p. p < Suc (length xs) \<and> \<not> pcall_done ((xs @ [x]) ! p)} =
      insert (length xs) {p. p < length xs \<and> \<not> pcall_done (xs ! p)}" if "\<not> pcall_done x" for xs and x :: mediaProbeCall
    using that by (auto simp: nth_append less_Suc_eq)
  then show ?thesis
    using ok tasks new fresh key by (auto simp: probeOk_def probeEntriesOk_def probeTasksOk_def keysOf_def)
qed

lemma probeMedia_ok:
  assumes ok: "probeOk s" and run: "probeMedia hasProcessor now key s = (result, t)" and key: "key \<noteq> []"
  shows "probeOk t"
proof -
  let ?s = "s\<lparr>psys_cache := removeExpiredProbes now (psys_cache s)\<rparr>"
  have shrunk: "probeOk ?s"
    using probeOk_subseq [OF ok, of _ "pb_generation (psys_cache s)"] by (simp add: removeExpiredProbes_eq)
  show ?thesis
    using run
  proof (cases rule: probeMedia_cases)
    case started
    then show ?thesis
      using probe_started_ok [OF shrunk _ key] by (simp add: removeExpiredProbes_def)
  qed (simp_all add: shrunk ok)
qed

lemma finishProbe_ok:
  assumes ok: "probeOk s" and task: "task \<in> set (psys_tasks s)"
  shows "probeOk (finishProbe clock task inspection err s)" (is "probeOk ?t")
proof -
  let ?c = "psys_cache s" and ?d = "psys_cache ?t" and ?p = "ptask_call task"
  have tasks: "probeTasksOk s" and entries: "probeEntriesOk ?c" using ok by (simp_all add: probeOk_def)
  note p = probeTask_running [OF tasks task]
  have keys: "[] \<notin> keysOf (pb_entries ?c)" using entries by (simp add: probeEntriesOk_def)
  note fields = completeProbe_fields [OF p [THEN conjunct1] keys]
  have key: "ptask_key task \<noteq> []" using tasks task by (auto simp: probeTasksOk_def)
  have d: "?d = completeProbe clock (ptask_key task) ?p (ptask_generation task) inspection err ?c"
    "psys_tasks ?t = remove1 task (psys_tasks s)" by (simp_all add: finishProbe_def)
  have "probeEntriesOk ?d"
  proof (cases "pb_entries ?d = pb_entries ?c")
    case True
    with entries show ?thesis by (simp add: probeEntriesOk_def)
  next
    case False
    then obtain es where es: "subseq es (pb_entries ?c)" "length es < maximumMediaProbeCache"
        "pb_entries ?d = AList.update (ptask_key task) (probedEntry clock inspection) es"
      using fields(4) [of clock "ptask_key task" "ptask_generation task" inspection err] by (auto simp: d)
    have len: "length (AList.update k v es) \<le> Suc (length es)" for k and v :: mediaProbeCacheEntry
      by (induction es) auto
    have "distinct (map fst es)" "[] \<notin> keysOf es"
      using subseq_maps(3,4) [OF es(1)] entries by (auto simp: probeEntriesOk_def)
    then have "distinct (map fst (pb_entries ?d))" "[] \<notin> keysOf (pb_entries ?d)"
      using key by (auto simp: es(3) distinct_update keysOf_def dom_update)
    moreover have "length (pb_entries ?d) \<le> maximumMediaProbeCache"
      using len [of "ptask_key task" "probedEntry clock inspection"] es(2) by (simp add: es(3))
    ultimately show ?thesis
      by (simp add: probeEntriesOk_def)
  qed
  moreover have "probeTasksOk ?t"
  proof -
    have dist: "distinct (map ptask_call (psys_tasks s))" "distinct (map fst (pb_inFlight ?c))"
      and flights: "set (pb_inFlight ?c) = (\<lambda>t. (ptask_key t, ptask_call t)) ` set (psys_tasks s)"
      and running: "ptask_call ` set (psys_tasks s) = {q. q < length (pb_calls ?c) \<and> \<not> pcall_done (pb_calls ?c ! q)}"
      using tasks by (simp_all add: probeTasksOk_def)
    have "distinct (psys_tasks s)" using dist(1) by (simp add: distinct_map)
    then have rest: "set (remove1 task (psys_tasks s)) = set (psys_tasks s) - {task}" by simp
    have inj: "t = task" if "t \<in> set (psys_tasks s)" "ptask_call t = ?p" for t
      using that task dist(1) by (metis distinct_map inj_onD)
    have injk: "t = task" if "t \<in> set (psys_tasks s)" "ptask_key t = ptask_key task" for t
    proof -
      have "(ptask_key task, ptask_call t) \<in> set (pb_inFlight ?c)" "(ptask_key task, ?p) \<in> set (pb_inFlight ?c)"
        using that task flights by (metis (mono_tags, lifting) image_eqI)+
      with dist(2) have "ptask_call t = ?p" by (meson eq_key_imp_eq_value)
      with inj that show ?thesis by blast
    qed
    have "set (pb_inFlight ?d) = {x \<in> set (pb_inFlight ?c). fst x \<noteq> ptask_key task}"
      by (auto simp: d fields(3) delete_filter)
    also have "\<dots> = (\<lambda>t. (ptask_key t, ptask_call t)) ` (set (psys_tasks s) - {task})"
      using injk by (auto simp: flights)
    finally have "set (pb_inFlight ?d) = (\<lambda>t. (ptask_key t, ptask_call t)) ` set (psys_tasks ?t)"
      by (simp add: d(2) rest)
    moreover have "ptask_call ` set (psys_tasks ?t) = {q. q < length (pb_calls ?d) \<and> \<not> pcall_done (pb_calls ?d ! q)}"
    proof -
      have "ptask_call ` set (psys_tasks ?t) = ptask_call ` set (psys_tasks s) - {?p}"
        using inj by (auto simp: d(2) rest)
      also have "\<dots> = {q. q < length (pb_calls ?d) \<and> \<not> pcall_done (pb_calls ?d ! q)}"
        unfolding running by (rule set_eqI) (simp add: d(1) fields(1) nth_list_update p)
      finally show ?thesis .
    qed
    moreover have "distinct (map ptask_call (psys_tasks ?t))"
      using dist(1) \<open>distinct (psys_tasks s)\<close> by (auto simp: d(2) distinct_map rest intro: inj_on_subset)
    moreover have "distinct (map fst (pb_inFlight ?d))"
      using dist(2) by (simp add: d fields(3) delete_filter distinct_map_filter)
    moreover have "\<forall>t \<in> set (psys_tasks ?t). ptask_key t \<noteq> []"
      using tasks by (auto simp: d(2) rest probeTasksOk_def)
    ultimately show ?thesis by (simp add: probeTasksOk_def)
  qed
  ultimately show ?thesis by (simp add: probeOk_def)
qed

lemma image_mset_distinct: "mset xs = mset ys \<Longrightarrow> distinct (map f ys) \<Longrightarrow> distinct (map f xs)"
  by (metis mset_eq_imp_distinct_iff mset_map)

lemma probe_step_ok: "probe_step s t \<Longrightarrow> probeOk s \<Longrightarrow> probeOk t"
proof (induction rule: probe_step.induct)
  case (clear s)
  then show ?case using probeOk_subseq [of s "[]"] by (simp add: clearProbes_def)
next
  case (evict s key)
  then show ?case using probeOk_subseq [of s "AList.delete key (pb_entries (psys_cache s))"] by (simp add: evictProbe_def delete_filter)
next
  case (reorder entries s)
  have "set entries = set (pb_entries (psys_cache s))" "length entries = length (pb_entries (psys_cache s))"
    using reorder(1) mset_eq_setD mset_eq_length by blast+
  moreover have "distinct (map fst entries)"
    by (rule image_mset_distinct [OF reorder(1)]) (use reorder(2) in \<open>simp add: probeOk_def probeEntriesOk_def\<close>)
  ultimately show ?case
    using probeOk_entries [OF reorder(2), of entries "pb_generation (psys_cache s)"] by simp
qed (auto simp: finishProbe_ok intro: probeMedia_ok)

lemma probe_start_ok: "probeOk startProbes"
  by (simp add: probeOk_def startProbes_def newMediaProbeCache_def probeEntriesOk_def probeTasksOk_def keysOf_def)

interpretation probes: transition_system "\<lambda>s. s = startProbes" probe_step probeOk
  by unfold_locales (auto simp: probe_start_ok probe_step_ok)

section \<open>Freshness\<close>

text \<open>Steps in which the generation, a 64-bit counter of evictions, does not wrap around.\<close>

definition unwrapped :: "probeSystem \<Rightarrow> probeSystem \<Rightarrow> bool" where
  "unwrapped s t \<longleftrightarrow> probe_step s t \<and> pb_generation (psys_cache s) \<le> pb_generation (psys_cache t)"

lemma probeResult_append: "probeResult n calls i \<Longrightarrow> probeResult n (calls @ xs) i"
  unfolding probeResult_def by (auto simp: nth_append)

lemma probeResult_update:
  assumes "probeResult n calls i" "p < length calls" "\<not> pcall_done (calls ! p)"
  shows "probeResult n (calls[p := x]) i"
  using assms unfolding probeResult_def by (metis length_list_update nth_list_update_neq)

lemma fresh_entries:
  assumes "probeFresh K n g s" "set es \<subseteq> set (pb_entries (psys_cache s))" "g \<le> h"
  shows "probeFresh K n g (s\<lparr>psys_cache := (psys_cache s)\<lparr>pb_generation := h, pb_entries := es\<rparr>\<rparr>)"
  using assms unfolding probeFresh_def by auto

lemma fresh_probeMedia:
  assumes fresh: "probeFresh K n g s" and run: "probeMedia hasProcessor now key s = (result, t)"
  shows "probeFresh K n g t"
proof -
  let ?s = "s\<lparr>psys_cache := removeExpiredProbes now (psys_cache s)\<rparr>"
  have "g \<le> pb_generation (psys_cache s)" using fresh by (simp add: probeFresh_def)
  then have shrunk: "probeFresh K n g ?s"
    using fresh_entries [OF fresh, of "filter (\<lambda>x. now < pb_expiresAt (snd x)) (pb_entries (psys_cache s))" "pb_generation (psys_cache s)"]
    by (auto simp: removeExpiredProbes_eq)
  show ?thesis
    using run
  proof (cases rule: probeMedia_cases)
    case started
    have "n \<le> length (pb_calls (psys_cache s))" using fresh by (simp add: probeFresh_def)
    then show ?thesis
      using shrunk probeResult_append unfolding started(3) probeFresh_def by (fastforce simp: removeExpiredProbes_eq)
  qed (simp_all add: shrunk fresh)
qed

lemma fresh_finish:
  assumes fresh: "probeFresh K n g s" and ok: "probeOk s" and task: "task \<in> set (psys_tasks s)"
  shows "probeFresh K n g (finishProbe clock task inspection err s)" (is "probeFresh K n g ?t")
proof -
  let ?c = "psys_cache s" and ?d = "psys_cache ?t" and ?p = "ptask_call task"
  have tasks: "probeTasksOk s" and keys: "[] \<notin> keysOf (pb_entries ?c)" using ok by (simp_all add: probeOk_def probeEntriesOk_def)
  note p = probeTask_running [OF tasks task]
  note fields = completeProbe_fields [OF p [THEN conjunct1] keys, of clock "ptask_key task" "ptask_generation task" inspection err]
  have d: "?d = completeProbe clock (ptask_key task) ?p (ptask_generation task) inspection err ?c"
    "set (psys_tasks ?t) \<subseteq> set (psys_tasks s)" using set_remove1_subset by (simp_all add: finishProbe_def)
  have bounds: "n \<le> length (pb_calls ?c)" "g \<le> pb_generation ?c"
    and earlier: "\<And>t. t \<in> set (psys_tasks s) \<Longrightarrow> ptask_call t < n \<Longrightarrow> ptask_generation t < g"
    using fresh by (simp_all add: probeFresh_def)
  have old: "probeResult n (pb_calls ?d) (pb_inspection e)" if "(k, e) \<in> set (pb_entries ?c)" "K k" for k e
    using that fresh p unfolding d(1) fields(1) probeFresh_def by (auto intro: probeResult_update)
  have new: "probeResult n (pb_calls ?d) (pb_inspection (probedEntry clock inspection))" if "err = None" "pb_generation ?c = ptask_generation task"
  proof -
    have "n \<le> ?p" using earlier [OF task] bounds(2) that(2) by (metis leD leI)
    then show ?thesis
      unfolding probeResult_def d(1) fields(1) using p that(1) by (intro exI [of _ ?p]) (simp add: probedEntry_def)
  qed
  have "probeResult n (pb_calls ?d) (pb_inspection e)" if "(k, e) \<in> set (pb_entries ?d)" "K k" for k e
    using fields(4)
  proof
    assume "pb_entries (completeProbe clock (ptask_key task) ?p (ptask_generation task) inspection err ?c) = pb_entries ?c"
    with that old show ?thesis by (simp add: d(1))
  next
    assume "err = None \<and> pb_generation ?c = ptask_generation task \<and> (\<exists>es. subseq es (pb_entries ?c) \<and> length es < maximumMediaProbeCache \<and>
      pb_entries (completeProbe clock (ptask_key task) ?p (ptask_generation task) inspection err ?c) =
        AList.update (ptask_key task) (probedEntry clock inspection) es)"
    then obtain es where es: "err = None" "pb_generation ?c = ptask_generation task" "subseq es (pb_entries ?c)"
        "pb_entries ?d = AList.update (ptask_key task) (probedEntry clock inspection) es"
      unfolding d(1) by blast
    from that(1) have "e = probedEntry clock inspection \<or> (k, e) \<in> set es" unfolding es(4) by (auto dest!: update_mem)
    with new [OF es(1,2)] old that(2) subseq_maps(1) [OF es(3)] show ?thesis by blast
  qed
  then show ?thesis
    using bounds earlier d(2) unfolding probeFresh_def d(1) fields(1,2) by auto
qed

lemma fresh_step: "probe_step s t \<Longrightarrow> pb_generation (psys_cache s) \<le> pb_generation (psys_cache t) \<Longrightarrow> probeOk s \<Longrightarrow>
    probeFresh K n g s \<Longrightarrow> probeFresh K n g t"
proof (induction rule: probe_step.induct)
  case (clear s)
  then have "g \<le> pb_generation (psys_cache s) + 1" by (auto simp: clearProbes_def probeFresh_def)
  then show ?case using fresh_entries [OF clear(3), of "[]"] by (simp add: clearProbes_def)
next
  case (evict s key)
  then have "g \<le> pb_generation (psys_cache s) + 1" by (auto simp: evictProbe_def probeFresh_def)
  then show ?case
    using fresh_entries [OF evict(3), of "AList.delete key (pb_entries (psys_cache s))"] by (auto simp: evictProbe_def delete_filter)
next
  case (reorder entries s)
  then have "g \<le> pb_generation (psys_cache s)" by (simp add: probeFresh_def)
  with fresh_entries [OF reorder(4), of entries "pb_generation (psys_cache s)"] mset_eq_setD [OF reorder(1)] show ?case by simp
qed (auto intro: fresh_probeMedia fresh_finish)

lemma generations_step: "probe_step s t \<Longrightarrow> pb_generation (psys_cache s) \<le> pb_generation (psys_cache t) \<Longrightarrow> probeOk s \<Longrightarrow>
    generationsOk s \<Longrightarrow> generationsOk t"
proof (induction rule: probe_step.induct)
  case (probe key hasProcessor now s result t)
  show ?case
    using probe(2) probe(5) by (cases rule: probeMedia_cases) (auto simp: generationsOk_def removeExpiredProbes_eq)
next
  case (finish task s clock inspection err)
  have "pb_generation (psys_cache (finishProbe clock task inspection err s)) = pb_generation (psys_cache s)"
    using completeProbe_fields(2) probeTask_running [OF _ finish(1)] finish(3) by (simp add: finishProbe_def probeOk_def probeEntriesOk_def)
  with finish set_remove1_subset [of task "psys_tasks s"] show ?case by (auto simp: generationsOk_def finishProbe_def)
qed (auto simp: generationsOk_def clearProbes_def evictProbe_def)

interpretation generations: transition_system "\<lambda>s. s = startProbes" unwrapped "\<lambda>s. probeOk s \<and> generationsOk s"
proof
  show "probeOk s \<and> generationsOk s" if "s = startProbes" for s
    using that probe_start_ok by (simp add: generationsOk_def startProbes_def)
qed (auto simp: unwrapped_def probe_step_ok generations_step)

interpretation fresh_probes: transition_system "\<lambda>s. probeOk s \<and> probeFresh K n g s" unwrapped "\<lambda>s. probeOk s \<and> probeFresh K n g s" for K n g
  by unfold_locales (auto simp: unwrapped_def probe_step_ok fresh_step)

text \<open>
  C25. In every reachable state of the probe cache there are at most 512 results, one per key; at most
  one probe runs for a key, it is the one in flight for the key, and every call that is not done is run
  by exactly one goroutine, so that its waiters are released.
\<close>

theorem probe_cache_single_flight:
  assumes reach: "probe_step\<^sup>*\<^sup>* startProbes s"
  defines "c \<equiv> psys_cache s"
  shows "length (pb_entries c) \<le> 512 \<and> distinct (map fst (pb_entries c)) \<and> distinct (map ptask_key (psys_tasks s)) \<and>
    set (pb_inFlight c) = (\<lambda>t. (ptask_key t, ptask_call t)) ` set (psys_tasks s) \<and>
    (\<forall>p < length (pb_calls c). \<not> pcall_done (pb_calls c ! p) \<longrightarrow> (\<exists>!t. t \<in> set (psys_tasks s) \<and> ptask_call t = p))"
proof -
  have ok: "probeOk s" by (rule probes.inv_reachable [OF refl reach])
  then have entries: "probeEntriesOk c" and tasks: "distinct (map ptask_call (psys_tasks s))" "distinct (map fst (pb_inFlight c))"
      "set (pb_inFlight c) = (\<lambda>t. (ptask_key t, ptask_call t)) ` set (psys_tasks s)"
      "ptask_call ` set (psys_tasks s) = {p. p < length (pb_calls c) \<and> \<not> pcall_done (pb_calls c ! p)}"
    by (simp_all add: probeOk_def probeTasksOk_def c_def)
  have inj: "inj_on ptask_call (set (psys_tasks s))" using tasks(1) by (simp add: distinct_map)
  have "x = y" if "x \<in> set (psys_tasks s)" "y \<in> set (psys_tasks s)" "ptask_key x = ptask_key y" for x y
  proof -
    have "(ptask_key y, ptask_call x) \<in> set (pb_inFlight c)" "(ptask_key y, ptask_call y) \<in> set (pb_inFlight c)"
      using that tasks(3) by (metis (mono_tags, lifting) image_eqI)+
    with tasks(2) have "ptask_call x = ptask_call y" by (meson eq_key_imp_eq_value)
    with inj that show ?thesis by (auto dest: inj_onD)
  qed
  then have "distinct (map ptask_key (psys_tasks s))"
    using tasks(1) by (simp add: distinct_map inj_on_def)
  moreover have "\<exists>!t. t \<in> set (psys_tasks s) \<and> ptask_call t = p" if "p < length (pb_calls c)" "\<not> pcall_done (pb_calls c ! p)" for p
  proof -
    have "p \<in> ptask_call ` set (psys_tasks s)" using that by (simp add: tasks(4))
    with inj show ?thesis by (auto dest: inj_onD)
  qed
  ultimately show ?thesis
    using entries tasks(3) by (simp add: probeEntriesOk_def maximumMediaProbeCache_def)
qed

text \<open>
  C26. After an eviction (of one key or of all) the cache serves for the key only results of probes
  begun after it, also when an earlier probe is still running, as long as the 64-bit generation does
  not wrap around.
\<close>

theorem evicted_probe_not_cached:
  assumes reach: "unwrapped\<^sup>*\<^sup>* startProbes s"
    and generation: "pb_generation (psys_cache s) \<noteq> - 1"
    and evicted: "c = clearProbes (psys_cache s) \<or> c = evictProbe key (psys_cache s)"
    and later: "unwrapped\<^sup>*\<^sup>* (s\<lparr>psys_cache := c\<rparr>) t"
    and served: "probeMedia hasProcessor now key t = (Inr (ProbeServed inspection), u)"
  shows "\<exists>p < length (pb_calls (psys_cache t)). length (pb_calls (psys_cache s)) \<le> p \<and>
    awaitProbe None p (psys_cache t) = Some (inspection, None)"
proof -
  let ?g = "pb_generation (psys_cache s) + 1" and ?n = "length (pb_calls (psys_cache s))" and ?s = "s\<lparr>psys_cache := c\<rparr>"
  have ok: "probeOk s" "generationsOk s" using generations.inv_reachable [OF refl reach] by simp_all
  have less: "pb_generation (psys_cache s) < ?g"
    using generation by (simp add: word_less_nat_alt word_plus_one)
  have "probeOk ?s"
    using evicted probe_step_ok [OF _ ok(1)] probe_step.clear probe_step.evict by metis
  moreover have "probeFresh (\<lambda>k. k = key) ?n ?g ?s"
  proof -
    have "ptask_generation t < ?g" if "t \<in> set (psys_tasks s)" for t
      using ok(2) less that unfolding generationsOk_def by (meson le_less_trans)
    with evicted show ?thesis
      unfolding probeFresh_def by (auto simp: clearProbes_def evictProbe_def delete_filter)
  qed
  ultimately have fresh: "probeFresh (\<lambda>k. k = key) ?n ?g t"
    using fresh_probes.inv_steps [OF later] by blast
  show ?thesis
    using served
  proof (cases rule: probeMedia_cases)
    case (served entry)
    have "(key, entry) \<in> set (pb_entries (psys_cache t))"
      using map_of_SomeD [OF served(1)] by (simp add: removeExpiredProbes_eq)
    then have "probeResult ?n (pb_calls (psys_cache t)) (pb_inspection entry)" using fresh by (auto simp: probeFresh_def)
    with served(2) show ?thesis by (auto simp: probeResult_def awaitProbe_def Let_def)
  qed simp_all
qed

section \<open>Example\<close>

definition probeInspection :: MediaInspection where
  "probeInspection = zeroMediaInspection\<lparr>mi_Container := ''mp4''\<rparr>"

definition probeKey :: string where
  "probeKey = mediaProbeKey (\<lambda>text. text) (\<lambda>name. True)
     (zeroStoredAsset\<lparr>sa_URL := ''u'', sa_Headers := [(''x-b'', ''2''), (''X-A'', ''1''), (''host'', ''h'')]\<rparr>)"

lemma probeKey_value: "probeKey = ''u'' @ newline @ [] @ newline @ ''X-A:1'' @ newline @ ''X-B:2''"
  by code_simp

definition probeStarted :: probeSystem where
  "probeStarted = snd (probeMedia True 0 probeKey startProbes)"

definition firstProbe :: probeTask where
  "firstProbe = \<lparr>ptask_key = probeKey, ptask_call = 0, ptask_generation = 0\<rparr>"

definition probeFinished :: probeSystem where
  "probeFinished = finishProbe (\<lambda>_. 1) firstProbe probeInspection None probeStarted"

lemma probe_started: "probeStarted = \<lparr>psys_cache = \<lparr>pb_entries = [], pb_inFlight = [(probeKey, 0)], pb_generation = 0,
    pb_calls = [\<lparr>pcall_done = False, pcall_inspection = zeroMediaInspection, pcall_err = None\<rparr>]\<rparr>, psys_tasks = [firstProbe]\<rparr>"
  by (simp add: probeStarted_def startProbes_def newMediaProbeCache_def probeMedia_def beginProbe_def removeExpiredProbes_def firstProbe_def)

lemma probe_finished: "probeFinished = \<lparr>psys_cache = \<lparr>pb_entries = [(probeKey, probedEntry (\<lambda>_. 1) probeInspection)], pb_inFlight = [], pb_generation = 0,
    pb_calls = [\<lparr>pcall_done = True, pcall_inspection = probeInspection, pcall_err = None\<rparr>]\<rparr>, psys_tasks = []\<rparr>"
  by (simp add: probeFinished_def finishProbe_def probe_started completeProbe_def firstProbe_def Let_def probeRoom_def removeExpiredProbes_def
      probedEntry_def)

lemma probe_started_step: "unwrapped startProbes probeStarted"
proof -
  have "probe_step startProbes probeStarted"
    by (rule probe_step.probe [of probeKey True 0 _ "fst (probeMedia True 0 probeKey startProbes)"])
      (simp_all add: probeKey_value probeStarted_def)
  then show ?thesis by (simp add: unwrapped_def startProbes_def newMediaProbeCache_def)
qed

lemma unwrapped_reaches: "unwrapped\<^sup>*\<^sup>* s t \<Longrightarrow> probe_step\<^sup>*\<^sup>* s t"
  by (induction rule: rtranclp_induct) (auto simp: unwrapped_def intro: rtranclp.rtrancl_into_rtrancl)

lemma probe_finished_step: "unwrapped probeStarted probeFinished"
proof -
  have "probe_step probeStarted probeFinished"
    unfolding probeFinished_def by (rule probe_step.finish) (simp add: probe_started)
  then show ?thesis unfolding unwrapped_def by (simp add: probe_started probe_finished)
qed

theorem probe_cache_single_flight_witness:
  "length (pb_entries (psys_cache probeFinished)) = 1 \<and> length (pb_entries (psys_cache probeFinished)) \<le> 512 \<and>
   (\<exists>!t. t \<in> set (psys_tasks probeStarted) \<and> ptask_call t = 0)"
proof -
  have "probe_step\<^sup>*\<^sup>* startProbes probeStarted" "probe_step\<^sup>*\<^sup>* startProbes probeFinished"
    using unwrapped_reaches probe_started_step probe_finished_step by (meson r_into_rtranclp rtranclp_trans)+
  from this [THEN probe_cache_single_flight] show ?thesis
    by (simp add: probe_started probe_finished)
qed

text \<open>The cache is cleared, the probe runs again, and the next request is served the second result.\<close>

definition probeCleared :: probeSystem where
  "probeCleared = probeFinished\<lparr>psys_cache := clearProbes (psys_cache probeFinished)\<rparr>"

definition secondProbe :: probeTask where
  "secondProbe = \<lparr>ptask_key = probeKey, ptask_call = 1, ptask_generation = 1\<rparr>"

definition probeAgain :: probeSystem where
  "probeAgain = snd (probeMedia True 2 probeKey probeCleared)"

definition probeTwice :: probeSystem where
  "probeTwice = finishProbe (\<lambda>_. 3) secondProbe zeroMediaInspection None probeAgain"

lemma probe_again: "probeAgain = \<lparr>psys_cache = \<lparr>pb_entries = [], pb_inFlight = [(probeKey, 1)], pb_generation = 1,
    pb_calls = [\<lparr>pcall_done = True, pcall_inspection = probeInspection, pcall_err = None\<rparr>,
      \<lparr>pcall_done = False, pcall_inspection = zeroMediaInspection, pcall_err = None\<rparr>]\<rparr>, psys_tasks = [secondProbe]\<rparr>"
  by (simp add: probeAgain_def probeCleared_def probe_finished clearProbes_def probeMedia_def beginProbe_def removeExpiredProbes_def secondProbe_def)

lemma probe_twice: "probeTwice = \<lparr>psys_cache = \<lparr>pb_entries = [(probeKey, probedEntry (\<lambda>_. 3) zeroMediaInspection)], pb_inFlight = [], pb_generation = 1,
    pb_calls = [\<lparr>pcall_done = True, pcall_inspection = probeInspection, pcall_err = None\<rparr>,
      \<lparr>pcall_done = True, pcall_inspection = zeroMediaInspection, pcall_err = None\<rparr>]\<rparr>, psys_tasks = []\<rparr>"
  by (simp add: probeTwice_def finishProbe_def probe_again completeProbe_def secondProbe_def Let_def probeRoom_def removeExpiredProbes_def
      probedEntry_def)

theorem evicted_probe_not_cached_witness:
  "\<exists>p < 2. 1 \<le> p \<and> awaitProbe None p (psys_cache probeTwice) = Some (zeroMediaInspection, None)"
proof -
  have again: "unwrapped (probeFinished\<lparr>psys_cache := clearProbes (psys_cache probeFinished)\<rparr>) probeAgain"
  proof -
    have "probe_step probeCleared probeAgain"
      by (rule probe_step.probe [of probeKey True 2 _ "fst (probeMedia True 2 probeKey probeCleared)"])
        (simp_all add: probeKey_value probeAgain_def)
    moreover have "pb_generation (psys_cache probeCleared) = 1" by (simp add: probeCleared_def clearProbes_def probe_finished)
    ultimately show ?thesis by (simp add: unwrapped_def probeCleared_def probe_again)
  qed
  have twice: "unwrapped probeAgain probeTwice"
  proof -
    have "probe_step probeAgain probeTwice"
      unfolding probeTwice_def by (rule probe_step.finish) (simp add: probe_again)
    then show ?thesis unfolding unwrapped_def by (simp add: probe_again probe_twice)
  qed
  have served: "probeMedia True 4 probeKey probeTwice = (Inr (ProbeServed zeroMediaInspection), probeTwice)"
    by (simp add: probe_twice probeMedia_def beginProbe_def removeExpiredProbes_def probedEntry_def mediaProbeCacheTTL_def)
  have reach: "unwrapped\<^sup>*\<^sup>* startProbes probeFinished"
    using probe_started_step probe_finished_step by (meson r_into_rtranclp rtranclp_trans)
  have later: "unwrapped\<^sup>*\<^sup>* (probeFinished\<lparr>psys_cache := clearProbes (psys_cache probeFinished)\<rparr>) probeTwice"
    using again twice by (meson r_into_rtranclp rtranclp_trans)
  have "pb_generation (psys_cache probeFinished) \<noteq> - 1" by (simp add: probe_finished)
  from evicted_probe_not_cached [OF reach this disjI1 [OF refl] later served] show ?thesis
    by (simp add: probe_finished probe_twice numeral_2_eq_2)
qed

text \<open>
  What an eviction does not do: a probe already in flight for the key stays joinable, so that a request
  after the eviction can be given the result of a probe begun before it.
\<close>

lemma evicted_probe_joined:
  "fst (probeMedia True 1 probeKey (probeStarted\<lparr>psys_cache := evictProbe probeKey (psys_cache probeStarted)\<rparr>)) = Inr (ProbeJoined 0)"
  by (simp add: probe_started evictProbe_def probeMedia_def beginProbe_def removeExpiredProbes_def)

end
