(* ===== verification/Playback_Service.thy ===== *)
theory Playback_Service
  imports Probe_Cache
begin

text \<open>
  The requests of the playback service that put the other parts together: listing the sources of an
  item (\<open>sources\<close>), refreshing a source before it is played (\<open>refreshSourceReference\<close>), both in
  \<open>playback/service.go\<close>, the preparation of a source (\<open>buildPreparedPlayback\<close> of
  \<open>playback/preparation_cache.go\<close>), and the media of a session (the part of \<open>resolve\<close> between the
  preparation and \<open>createSession\<close>). The addon service, the database transactions, the media processor
  and the random identifiers are parameters; each call is one argument, so that every failure is a
  branch.
\<close>

section \<open>Preparing a source\<close>

definition appendID :: "string list \<Rightarrow> string \<Rightarrow> string list" where
  "appendID values raw =
     (let value = TrimSpace raw in if value = [] then values else if value \<in> set values then values else values @ [value])"

definition preparedPlaybackAddonIDs :: "Source \<Rightarrow> Subtitle list \<Rightarrow> string list" where
  "preparedPlaybackAddonIDs source subtitles = foldl appendID [] (src_AddonID source # map sub_AddonID subtitles)"

text \<open>The errors of the addon service the code asks \<open>errors.Is\<close> about, and any other one.\<close>

datatype access_error = ErrAddonNotFound | ErrAddonForbidden | ErrAddonActiveProfileRequired | ErrAddonInvalidInput | ErrAddonOther string

definition accessDenied :: "access_error \<Rightarrow> bool" where
  "accessDenied err \<longleftrightarrow> err \<in> {ErrAddonNotFound, ErrAddonForbidden, ErrAddonActiveProfileRequired, ErrAddonInvalidInput}"

text \<open>The playback code leaves the field \<open>Extra\<close> of a path empty.\<close>

record ResourcePath =
  path_Resource :: string
  path_Type :: string
  path_ID :: string

definition preparationPolicy :: "int \<Rightarrow> sourceReference \<Rightarrow> playbackPolicy list \<Rightarrow> playbackPolicy" where
  "preparationPolicy serviceBitrate reference policies =
     (case policies of
        [] \<Rightarrow> \<lparr>pol_allowTranscoding = True, pol_maximumHeight = cap_MaximumHeight (ref_Capabilities reference),
          pol_bitrateKbps = serviceBitrate, pol_externalPlayer = False\<rparr>
      | policy # _ \<Rightarrow> policy)"

definition preparationCapabilities :: "processorReport \<Rightarrow> sourceReference \<Rightarrow> playbackPolicy \<Rightarrow> Capabilities" where
  "preparationCapabilities report reference policy =
     (let capabilities = playbackCapabilities report (ref_Capabilities reference) (pol_maximumHeight policy) (pol_bitrateKbps policy)
      in if pol_externalPlayer policy then capabilities\<lparr>cap_SubtitleModes := [''external'']\<rparr> else capabilities)"

text \<open>The source and its asset after the decision; an external player decides for itself.\<close>

definition preparedSource ::
    "(nat \<Rightarrow> storedAsset \<Rightarrow> playback_error + MediaInspection) option \<Rightarrow> playbackPolicy \<Rightarrow> Capabilities \<Rightarrow> Source list \<Rightarrow>
     storedAsset list \<Rightarrow> playback_error + Source list \<times> storedAsset list" where
  "preparedSource processor policy capabilities sources assets =
     (if pol_externalPlayer policy then
        Inr (sources[0 := (sources ! 0)\<lparr>src_Compatible := True, src_Media := None, src_Decision := None\<rparr>], assets)
      else case decidePlaybackSource processor sources assets capabilities [pol_allowTranscoding policy] of
        (Some err, _) \<Rightarrow> Inl err
      | (None, ss, aa) \<Rightarrow>
          Inr (ss, case src_Media (ss ! 0) of None \<Rightarrow> aa
             | Some media \<Rightarrow>
                 (case storedAssetIndex aa (src_ID (ss ! 0)) of None \<Rightarrow> aa
                  | Some j \<Rightarrow> aa[j := (aa ! j)\<lparr>sa_DurationSeconds := mi_DurationSeconds media\<rparr>])))"

text \<open>The external subtitles with the failures of their providers; no fetch, or a failed one, gives none.\<close>

definition preparedSubtitles ::
    "(string \<Rightarrow> URL option) \<Rightarrow> (string \<Rightarrow> addon_error + ProviderSubtitle list) \<Rightarrow> bool \<Rightarrow> (access_error + ResourceBatch) option \<Rightarrow>
     Subtitle list \<times> storedAsset list \<times> ProviderFailure list" where
  "preparedSubtitles urlParse parse externalPlayer fetched =
     (case fetched of None \<Rightarrow> ([], [], [])
      | Some (Inl err) \<Rightarrow> ([], [], [])
      | Some (Inr batch) \<Rightarrow>
          (case normalizeSubtitles urlParse parse batch externalPlayer of
             Inl err \<Rightarrow> ([], [], providerFailures (rb_Errors batch))
           | Inr (subtitles, assets) \<Rightarrow> (subtitles, assets, providerFailures (rb_Errors batch))))"

text \<open>
  \<open>fetchAll\<close> is \<open>FetchAllPlaybackResources\<close>, which the code runs in a goroutine of its own next to the
  decision and waits for after it.
\<close>

definition buildPreparedPlayback ::
    "(string \<Rightarrow> URL option) \<Rightarrow> (string \<Rightarrow> addon_error + ProviderSubtitle list) \<Rightarrow> processorReport \<Rightarrow>
     (nat \<Rightarrow> storedAsset \<Rightarrow> playback_error + MediaInspection) option \<Rightarrow> (ResourcePath \<Rightarrow> access_error + ResourceBatch) \<Rightarrow>
     int \<Rightarrow> sourceReference \<Rightarrow> playbackPolicy list \<Rightarrow> playback_error + preparedPlayback" where
  "buildPreparedPlayback urlParse parse report processor fetchAll serviceBitrate reference policies =
     (let policy = preparationPolicy serviceBitrate reference policies;
          capabilities = preparationCapabilities report reference policy;
          fetched = (if cap_SubtitleModes capabilities = [] \<or> requestedProcessingMode (cap_SubtitleModes capabilities) ''external''
            then Some (fetchAll \<lparr>path_Resource = ''subtitles'', path_Type = ref_AddonMediaType reference, path_ID = ref_ResourceID reference\<rparr>)
            else None);
          sources0 = [cloneSource (ref_Source reference)];
          assets0 = (case ref_Asset reference of None \<Rightarrow> [] | Some asset \<Rightarrow> [cloneStoredAsset asset])
      in case preparedSource processor policy capabilities sources0 assets0 of
           Inl err \<Rightarrow> Inl err
         | Inr (sources, assets) \<Rightarrow>
             if \<not> hasCompatibleSource sources then
               Inl (if src_Media (sources ! 0) \<noteq> None then ErrUnsupportedSource else ErrNoPlayableSource)
             else
               (case preparedSubtitles urlParse parse (pol_externalPlayer policy) fetched of
                  (external, externalAssets, failures) \<Rightarrow>
                    (let (embedded, embeddedAssets) =
                           (if pol_externalPlayer policy then ([], []) else embeddedSubtitles sources assets [capabilities]);
                         subtitles = external @ embedded
                     in Inr \<lparr>pp_source = sources ! 0,
                          pp_asset = (case assets of [] \<Rightarrow> None | asset # _ \<Rightarrow> Some (cloneStoredAsset asset)),
                          pp_subtitles = subtitles, pp_subtitleAssets = externalAssets @ embeddedAssets,
                          pp_providerErrors = ref_ProviderErrors reference @ failures,
                          pp_addonIDs = preparedPlaybackAddonIDs (sources ! 0) subtitles\<rparr>)))"

section \<open>The media of a session\<close>

text \<open>
  \<open>resolve\<close>, from a preparation to the arguments of \<open>createSession\<close>: the preferences of the request and
  of the reference select the audio track and the subtitle, and a subtitle that must be burned changes
  the decision.
\<close>

definition startAssetAt :: "float64 \<Rightarrow> string \<Rightarrow> storedAsset \<Rightarrow> storedAsset" where
  "startAssetAt startSeconds container asset =
     (cloneStoredAsset asset)\<lparr>sa_StartSeconds := startSeconds, sa_HLSSegmentContainer := normalizedHLSSegmentContainer container\<rparr>"

definition sessionInput :: "processorReport \<Rightarrow> int \<Rightarrow> int \<Rightarrow> sourceReference \<Rightarrow> ResolveInput \<Rightarrow> ResolveInput" where
  "sessionInput report maximumHeight bitrate reference input =
     (let languages = input\<lparr>ri_PreferredSubtitleLanguage := ref_PreferredSubtitleLanguage reference,
            ri_PreferredForcedSubtitleLanguage := ref_PreferredForcedSubtitleLanguage reference\<rparr>
      in if ri_ExternalPlayer input then languages
         else languages\<lparr>ri_Capabilities := playbackCapabilities report (ref_Capabilities reference) maximumHeight bitrate,
           ri_PreferredAudioLanguage := ref_PreferredAudioLanguage reference\<rparr>)"

definition sessionMedia ::
    "processorReport \<Rightarrow> int \<Rightarrow> int \<Rightarrow> sourceReference \<Rightarrow> preparedPlayback \<Rightarrow> ResolveInput \<Rightarrow>
     playback_error + Source list \<times> Subtitle list \<times> storedAsset list" where
  "sessionMedia report maximumHeight bitrate reference prepared input0 =
     (let sources0 = [cloneSource (pp_source prepared)];
          assets0 = (case pp_asset prepared of None \<Rightarrow> []
            | Some asset \<Rightarrow> [startAssetAt (ri_StartSeconds input0) (cap_HLSSegmentContainer (ref_Capabilities reference)) asset]);
          input = sessionInput report maximumHeight bitrate reference input0
      in case (if ri_ExternalPlayer input then (None, sources0, assets0) else applyPlaybackPreferences sources0 assets0 input) of
           (Some err, _, _) \<Rightarrow> Inl err
         | (None, sources1, assets1) \<Rightarrow>
             (case applySubtitlePreference (pp_subtitles prepared) (ri_PreferredSubtitleID input)
                 (ri_PreferredForcedSubtitleLanguage input) (ri_PreferredSubtitleLanguage input) of
                (Some err, _) \<Rightarrow> Inl err
              | (None, subtitles) \<Rightarrow>
                  (let subtitleAssets = map (\<lambda>a. (cloneStoredAsset a)\<lparr>sa_StartSeconds := ri_StartSeconds input\<rparr>) (pp_subtitleAssets prepared)
                   in case (if ri_ExternalPlayer input then (None, sources1, assets1)
                        else applySubtitleDecision sources1 assets1 subtitles subtitleAssets (ri_Capabilities input) (ri_AllowTranscoding input)) of
                        (Some err, _, _) \<Rightarrow> Inl err
                      | (None, sources, assets) \<Rightarrow> Inr (sources, subtitles, assets @ subtitleAssets))))"

section \<open>The state of the service\<close>

text \<open>\<open>NewService\<close> creates all three; each locks itself, so that a request is a sequence of their operations.\<close>

record serviceState =
  svc_references :: sourceReferenceStore
  svc_preparations :: preparationSystem
  svc_probes :: probeSystem

definition evictStaleSourcePreparation ::
    "(storedAsset \<Rightarrow> string) \<Rightarrow> sourceReference \<Rightarrow> serviceState \<Rightarrow> serviceState" where
  "evictStaleSourcePreparation keyOf reference s =
     (let prep = svc_preparations s; probes = svc_probes s;
          s1 = s\<lparr>svc_preparations := prep\<lparr>sys_cache := evictRevision (ref_ID reference) (ref_TransportRevision reference) (sys_cache prep)\<rparr>\<rparr>
      in case ref_Asset reference of None \<Rightarrow> s1
         | Some asset \<Rightarrow> s1\<lparr>svc_probes := probes\<lparr>psys_cache := evictProbe (keyOf asset) (psys_cache probes)\<rparr>\<rparr>)"

definition expireSourceReference ::
    "(nat \<Rightarrow> int) \<Rightarrow> (storedAsset \<Rightarrow> string) \<Rightarrow> Principal \<Rightarrow> sourceReference \<Rightarrow> serviceState \<Rightarrow>
     (playback_error + sourceReference) \<times> serviceState" where
  "expireSourceReference clock keyOf caller reference s =
     (case expireSelection clock (ref_ID reference) caller (ref_SelectionRevision reference) (svc_references s) of
        (Inl err, store) \<Rightarrow> (Inl err, s\<lparr>svc_references := store\<rparr>)
      | (Inr (Some current), store) \<Rightarrow> (Inr current, s\<lparr>svc_references := store\<rparr>)
      | (Inr None, store) \<Rightarrow>
          (Inl ErrSourceReferenceExpired, evictStaleSourcePreparation keyOf reference (s\<lparr>svc_references := store\<rparr>)))"

text \<open>The message of \<open>fmt.Errorf("...: %w", err)\<close> stands for the wrapped error.\<close>

definition validateSourceReferenceAccess ::
    "(Principal \<Rightarrow> string \<Rightarrow> access_error option) \<Rightarrow> Principal \<Rightarrow> sourceReference \<Rightarrow> playback_error option" where
  "validateSourceReferenceAccess validateAccess caller reference =
     (let addonID = TrimSpace (src_AddonID (ref_Source reference))
      in if addonID = [] then Some ErrSourceReferenceExpired
         else (case validateAccess caller addonID of None \<Rightarrow> None
           | Some err \<Rightarrow> if accessDenied err then Some ErrSourceReferenceExpired
               else Some (ErrOther ''validate playback source access'')))"

definition validatePreparedPlaybackAccess ::
    "(Principal \<Rightarrow> string list \<Rightarrow> access_error option) \<Rightarrow> Principal \<Rightarrow> string list \<Rightarrow> playback_error option" where
  "validatePreparedPlaybackAccess validateAccesses caller addonIDs =
     (case validateAccesses caller addonIDs of None \<Rightarrow> None
      | Some err \<Rightarrow> if accessDenied err then Some ErrSourceReferenceExpired
          else Some (ErrOther ''validate playback provider access''))"

section \<open>Refreshing a source\<close>

definition matchesSnapshot :: "(string \<Rightarrow> string) \<Rightarrow> Source \<Rightarrow> Source \<Rightarrow> bool" where
  "matchesSnapshot digest snapshot candidate \<longleftrightarrow>
     (let snapshotIdentity = stableSourceIdentity digest snapshot
      in if snapshotIdentity = [] then
           TrimSpace (src_ManifestID snapshot) \<noteq> [] \<and> TrimSpace (src_AddonID candidate) = TrimSpace (src_AddonID snapshot) \<and>
             TrimSpace (src_ManifestID candidate) = TrimSpace (src_ManifestID snapshot) \<and>
             src_StreamIndex candidate = src_StreamIndex snapshot
         else stableSourceIdentity digest candidate = snapshotIdentity)"

text \<open>The loop over the candidates: \<^const>\<open>None\<close> when no candidate matches, or a second one does.\<close>

fun uniqueMatch :: "(Source \<Rightarrow> bool) \<Rightarrow> Source option \<Rightarrow> Source list \<Rightarrow> Source option" where
  "uniqueMatch matches selected [] = selected"
| "uniqueMatch matches selected (candidate # rest) =
     (if \<not> matches candidate then uniqueMatch matches selected rest
      else if selected \<noteq> None then None
      else uniqueMatch matches (Some candidate) rest)"

definition selectedCandidate :: "Source \<Rightarrow> Source \<Rightarrow> storedAsset list \<Rightarrow> Source \<times> storedAsset option" where
  "selectedCandidate snapshot candidate assets =
     (let selected = cloneSource candidate
      in (selected\<lparr>src_ID := src_ID snapshot\<rparr>,
          case storedAssetIndex assets (src_ID selected) of None \<Rightarrow> None
          | Some j \<Rightarrow> Some ((cloneStoredAsset (assets ! j))\<lparr>sa_ID := src_ID snapshot\<rparr>)))"

text \<open>The store reads the clock twice; the eviction follows the replacement without the lock of the store.\<close>

definition refreshSourceReference ::
    "(string \<Rightarrow> URL option) \<Rightarrow> (string \<Rightarrow> addon_error + ProviderStream list) \<Rightarrow> (string \<Rightarrow> string) \<Rightarrow> (storedAsset \<Rightarrow> string) \<Rightarrow>
     (Principal \<Rightarrow> string \<Rightarrow> access_error option) \<Rightarrow> (Principal \<Rightarrow> string \<Rightarrow> ResourcePath \<Rightarrow> access_error + ResourceResult) \<Rightarrow>
     (nat \<Rightarrow> int) \<Rightarrow> Principal \<Rightarrow> sourceReference \<Rightarrow> serviceState \<Rightarrow> (playback_error + sourceReference) \<times> serviceState" where
  "refreshSourceReference urlParse parse digest keyOf validateAccess fetch clock caller reference s =
     (let addonID = TrimSpace (src_AddonID (ref_Source reference))
      in if addonID = [] then (Inr reference, s)
         else
           (case validateSourceReferenceAccess validateAccess caller reference of
              Some err \<Rightarrow> (Inl err, s)
            | None \<Rightarrow>
           (case fetch caller addonID \<lparr>path_Resource = ''stream'', path_Type = ref_AddonMediaType reference, path_ID = ref_ResourceID reference\<rparr> of
              Inl err \<Rightarrow>
                (if accessDenied err then expireSourceReference clock keyOf caller reference s
                 else (Inl ErrProviderUnavailable, s))
            | Inr result \<Rightarrow>
           (case normalizeStreams urlParse parse \<lparr>rb_Results = [result], rb_Errors = []\<rparr> (ref_Capabilities reference) of
              Inl err \<Rightarrow> (Inl ErrProviderUnavailable, s)
            | Inr (candidates, assets) \<Rightarrow>
           (case uniqueMatch (matchesSnapshot digest (ref_Source reference)) None candidates of
              None \<Rightarrow> expireSourceReference clock keyOf caller reference s
            | Some candidate \<Rightarrow>
                (let (selected, selectedAsset) = selectedCandidate (ref_Source reference) candidate assets;
                     changed = sourceTransportChanged (ref_Source reference) (ref_Asset reference) selected selectedAsset
                 in case replaceSelection clock (ref_ID reference) caller (ref_SelectionRevision reference) selected selectedAsset
                      (svc_references s) of
                      (Inl err, store) \<Rightarrow> (Inl err, s\<lparr>svc_references := store\<rparr>)
                    | (Inr (updated, replaced), store) \<Rightarrow>
                        (let s1 = s\<lparr>svc_references := store\<rparr>
                         in (Inr updated, if replaced \<and> changed then evictStaleSourcePreparation keyOf reference s1 else s1))))))))"

section \<open>Listing the sources of an item\<close>

record SourceOption =
  so_ID :: string
  so_SourceRef :: string
  so_AddonID :: string
  so_ManifestID :: string
  so_AddonName :: string
  so_StreamIndex :: int
  so_Name :: string
  so_Description :: string
  so_Filename :: string
  so_Protocol :: string
  so_Mode :: string
  so_Container :: string
  so_ExpiresAt :: int
  so_ReportedHeight :: int
  so_StableIdentity :: string

record SourceList =
  sl_Sources :: "SourceOption list"
  sl_ProviderErrors :: "ProviderFailure list"

text \<open>An error that wraps another one; its message is not modelled.\<close>

definition wrapError :: "playback_error \<Rightarrow> playback_error" where
  "wrapError err = ErrJoin [err]"

definition trimSourcesInput :: "SourcesInput \<Rightarrow> SourcesInput" where
  "trimSourcesInput input = input\<lparr>si_MediaType := TrimSpace (si_MediaType input), si_AddonID := TrimSpace (si_AddonID input),
     si_ResourceID := TrimSpace (si_ResourceID input), si_PreferredAudioLanguage := TrimSpace (si_PreferredAudioLanguage input),
     si_PreferredSubtitleLanguage := TrimSpace (si_PreferredSubtitleLanguage input),
     si_PreferredForcedSubtitleLanguage := TrimSpace (si_PreferredForcedSubtitleLanguage input)\<rparr>"

definition addonMediaType :: "string \<Rightarrow> string" where
  "addonMediaType mediaType = (if mediaType = ''episode'' then ''series'' else mediaType)"

definition fetchStreams ::
    "(Principal \<Rightarrow> string \<Rightarrow> ResourcePath \<Rightarrow> access_error + ResourceResult) \<Rightarrow> (Principal \<Rightarrow> ResourcePath \<Rightarrow> access_error + ResourceBatch) \<Rightarrow>
     Principal \<Rightarrow> SourcesInput \<Rightarrow> access_error + ResourceBatch" where
  "fetchStreams fetch fetchAll caller input =
     (let path = \<lparr>path_Resource = ''stream'', path_Type = addonMediaType (si_MediaType input), path_ID = si_ResourceID input\<rparr>
      in if si_AddonID input \<noteq> [] then
           (case fetch caller (si_AddonID input) path of Inl err \<Rightarrow> Inl err
            | Inr result \<Rightarrow> Inr \<lparr>rb_Results = [result], rb_Errors = []\<rparr>)
         else fetchAll caller path)"

definition newReference :: "SourcesInput \<Rightarrow> storedAsset list \<Rightarrow> ProviderFailure list \<Rightarrow> Source \<Rightarrow> sourceReference" where
  "newReference input assets providerErrors source =
     \<lparr>ref_ID = [], ref_AuthSessionID = [], ref_ProfileID = [], ref_Owner = \<lparr>own_UserID = [], own_ProfileID = [], own_DeviceID = []\<rparr>,
      ref_MediaType = si_MediaType input, ref_AddonMediaType = addonMediaType (si_MediaType input), ref_ResourceID = si_ResourceID input,
      ref_Source = source, ref_SelectionRevision = 0, ref_TransportRevision = 0,
      ref_Asset = (case storedAssetIndex assets (src_ID source) of None \<Rightarrow> None | Some j \<Rightarrow> Some (cloneStoredAsset (assets ! j))),
      ref_Capabilities = si_Capabilities input, ref_PreferredAudioLanguage = si_PreferredAudioLanguage input,
      ref_PreferredSubtitleLanguage = si_PreferredSubtitleLanguage input,
      ref_PreferredForcedSubtitleLanguage = si_PreferredForcedSubtitleLanguage input,
      ref_ProviderErrors = providerErrors, ref_ExpiresAt = 0\<rparr>"

definition sourceOption :: "nat \<Rightarrow> sourceReference \<Rightarrow> string \<Rightarrow> SourceOption" where
  "sourceOption index reference identity =
     (let source = ref_Source reference; (name, description, filename) = sourceOptionDisplay source (int index + 1)
      in \<lparr>so_ID = src_ID source, so_SourceRef = ref_ID reference, so_AddonID = src_AddonID source, so_ManifestID = src_ManifestID source,
          so_AddonName = src_AddonName source, so_StreamIndex = src_StreamIndex source, so_Name = name, so_Description = description,
          so_Filename = filename, so_Protocol = src_Protocol source, so_Mode = src_Mode source, so_Container = src_Container source,
          so_ExpiresAt = ref_ExpiresAt reference, so_ReportedHeight = sourceResolutionHint source, so_StableIdentity = identity\<rparr>)"

text \<open>
  \<open>Sources\<close> and \<open>SourcesAndPin\<close>. The transaction is its three outcomes: of the authorization before the
  fetch, of the second one after it, and of the commit. A failed commit gives the pins back, but the
  references stay until they expire.
\<close>

definition listSources ::
    "(string \<Rightarrow> URL option) \<Rightarrow> (string \<Rightarrow> addon_error + ProviderStream list) \<Rightarrow> (string \<Rightarrow> string) \<Rightarrow>
     (Principal \<Rightarrow> string \<Rightarrow> ResourcePath \<Rightarrow> access_error + ResourceResult) \<Rightarrow> (Principal \<Rightarrow> ResourcePath \<Rightarrow> access_error + ResourceBatch) \<Rightarrow>
     playback_error option \<Rightarrow> playback_error option \<Rightarrow> playback_error option \<Rightarrow> (nat \<Rightarrow> playback_error + string) \<Rightarrow> (nat \<Rightarrow> int) \<Rightarrow>
     Principal \<Rightarrow> SourcesInput \<Rightarrow> bool \<Rightarrow> sourceReferenceStore \<Rightarrow> (playback_error + SourceList) \<times> sourceReferenceStore" where
  "listSources urlParse parse digest fetch fetchAll authorized began committed newIdentifier clock caller input0 pin store =
     (let input = trimSourcesInput input0
      in case authorized of Some err \<Rightarrow> (Inl err, store) | None \<Rightarrow>
         (case validateSourcesInput input of Some err \<Rightarrow> (Inl err, store) | None \<Rightarrow>
         (case fetchStreams fetch fetchAll caller input of Inl err \<Rightarrow> (Inl (wrapError ErrProviderUnavailable), store) | Inr batch \<Rightarrow>
         (case normalizeStreams urlParse parse batch (si_Capabilities input) of Inl err \<Rightarrow> (Inl ErrProviderUnavailable, store)
          | Inr (sources0, assets) \<Rightarrow>
            (let sources = (if 0 < si_MaximumSources input \<and> int (length sources0) > si_MaximumSources input
                   then take (nat (si_MaximumSources input)) sources0 else sources0);
                 providerErrors = providerFailures (rb_Errors batch)
             in if sources = [] \<and> rb_Errors batch \<noteq> [] then (Inl ErrProviderUnavailable, store)
                else case began of Some err \<Rightarrow> (Inl err, store) | None \<Rightarrow>
                (case (if pin then putAllPinned else putAll) newIdentifier clock caller (map (newReference input assets providerErrors) sources) store of
                   (Inl err, store1) \<Rightarrow> (Inl (wrapError err), store1)
                 | (Inr stored, store1) \<Rightarrow>
                     (let identities = uniqueStableSourceIdentities digest stored;
                          options = map (\<lambda>i. sourceOption i (stored ! i) (identities ! i)) [0..<length stored]
                      in case committed of
                           Some err \<Rightarrow> (Inl (wrapError err), if pin then unpinReferences (\<lambda>k. clock (k + 2)) caller (map ref_ID stored) store1 else store1)
                         | None \<Rightarrow> (Inr \<lparr>sl_Sources = options, sl_ProviderErrors = providerErrors\<rparr>, store1))))))))"

section \<open>Refreshing a reference\<close>

lemma uniqueMatch_Some: "uniqueMatch P (Some c) xs = (if list_ex P xs then None else Some c)"
  by (induction xs) auto

text \<open>The loop finds the candidate that is the only match.\<close>

lemma uniqueMatch_unique: "uniqueMatch P None xs = (case filter P xs of [c] \<Rightarrow> Some c | _ \<Rightarrow> None)"
proof (induction xs)
  case (Cons x xs)
  have "filter P xs = [] \<longleftrightarrow> \<not> list_ex P xs"
    by (auto simp: filter_empty_conv list_ex_iff)
  with Cons show ?case
    by (auto simp: uniqueMatch_Some split: list.split)
qed simp

definition staleGone :: "(storedAsset \<Rightarrow> string) \<Rightarrow> sourceReference \<Rightarrow> serviceState \<Rightarrow> bool" where
  "staleGone keyOf reference s \<longleftrightarrow>
     (\<forall>policy. referenceKey reference policy \<notin> keysOf (prep_entries (sys_cache (svc_preparations s))) \<and>
        referenceKey reference policy \<notin> keysOf (prep_inFlight (sys_cache (svc_preparations s))) \<and>
        referenceKey reference policy \<notin> (\<lambda>(_, h). ho_cacheKey h) ` set (prep_handoffs (sys_cache (svc_preparations s)))) \<and>
     (\<forall>asset. ref_Asset reference = Some asset \<longrightarrow> keyOf asset \<notin> keysOf (pb_entries (psys_cache (svc_probes s))))"

lemma evictStale_gone: "staleGone keyOf reference (evictStaleSourcePreparation keyOf reference s)"
proof -
  have "hasPrefix (referenceKey reference policy) (revisionPrefix (ref_ID reference) (ref_TransportRevision reference))" for policy
    by (auto simp: referenceKey_def playbackPreparationCacheKey_def revisionPrefix_def hasPrefix_iff)
  then show ?thesis
    by (auto simp: staleGone_def evictStaleSourcePreparation_def evictRevision_def evictKeys_def evictProbe_def keysOf_def delete_filter
        Let_def split: option.split) metis+
qed

lemma evictStale_references [simp]: "svc_references (evictStaleSourcePreparation keyOf reference s) = svc_references s"
  by (simp add: evictStaleSourcePreparation_def Let_def split: option.split)

definition sameCaches :: "serviceState \<Rightarrow> serviceState \<Rightarrow> bool" where
  "sameCaches s t \<longleftrightarrow> svc_preparations t = svc_preparations s \<and> svc_probes t = svc_probes s"

text \<open>
  What a request that holds the current version of a reference leaves behind: the reference as it was,
  a newer version of it, or none, with the caches to go with it.
\<close>

definition refreshed ::
    "(storedAsset \<Rightarrow> string) \<Rightarrow> int \<Rightarrow> sourceReference \<Rightarrow> serviceState \<Rightarrow> playback_error + sourceReference \<Rightarrow> serviceState \<Rightarrow> bool" where
  "refreshed keyOf now reference s result t \<longleftrightarrow>
     (case lookupReference (svc_references t) (ref_ID reference) of
        None \<Rightarrow> result = Inl ErrSourceReferenceExpired \<and> (staleGone keyOf reference t \<or> ref_ExpiresAt reference \<le> now \<and> sameCaches s t)
      | Some r \<Rightarrow>
          r = reference \<and> (\<exists>err. result = Inl err) \<and> sameCaches s t \<or>
          result = Inr r \<and> unat (ref_SelectionRevision r) = unat (ref_SelectionRevision reference) + 1 \<and>
            src_ID (ref_Source r) = src_ID (ref_Source reference) \<and>
            (if ref_TransportRevision r = ref_TransportRevision reference then sameCaches s t
             else unat (ref_TransportRevision r) = unat (ref_TransportRevision reference) + 1 \<and> staleGone keyOf reference t))"

lemma lookup_expired:
  assumes "storeOk store" "lookupReference store k = Some r"
  shows "lookupReference (removeExpiredLocked now store) k \<in> {None, Some r}"
    "lookupReference (removeExpiredLocked now store) k = None \<Longrightarrow> ref_ExpiresAt r \<le> now"
  using assms by (auto simp: lookup_removeExpired storeOk_def split: if_splits)

lemma lookup_deleteReference: "lookupReference (deleteReference k store) k = None"
  by (simp add: lookupReference_def deleteReference_def delete_conv')

lemma expireSourceReference_refreshed:
  assumes ok: "storeOk (svc_references s)" and current: "lookupReference (svc_references s) (ref_ID reference) = Some reference"
    and result: "expireSourceReference clock keyOf caller reference s = (result, t)"
  shows "refreshed keyOf (clock 0) reference s result t"
proof -
  let ?store = "removeExpiredLocked (clock 0) (svc_references s)"
  note expired = lookup_expired [OF ok current, of "clock 0"]
  show ?thesis
  proof (cases "liveReference clock (ref_ID reference) caller ?store")
    case None
    with result have "result = Inl ErrSourceReferenceExpired" "t = s\<lparr>svc_references := ?store\<rparr>"
      by (auto simp: expireSourceReference_def expireSelection_def Let_def)
    with expired show ?thesis
      by (auto simp: refreshed_def sameCaches_def split: option.split)
  next
    case (Some r)
    then have "r = reference" using expired(1) by (auto simp: liveReference_Some)
    with result Some have "result = Inl ErrSourceReferenceExpired"
      "t = evictStaleSourcePreparation keyOf reference (s\<lparr>svc_references := deleteReference (ref_ID reference) ?store\<rparr>)"
      by (auto simp: expireSourceReference_def expireSelection_def Let_def)
    then show ?thesis
      by (simp add: refreshed_def evictStale_gone lookup_deleteReference)
  qed
qed

lemma replaceSelection_current [consumes 3]:
  assumes ok: "storeOk store" and current: "lookupReference store k = Some reference"
    and result: "replaceSelection clock k caller (ref_SelectionRevision reference) source asset store = (result, store')"
  obtains (failed) err where "result = Inl err" "store' = removeExpiredLocked (clock 0) store"
      "err = ErrSourceReferenceExpired \<or> lookupReference store' k = Some reference"
  | (replaced) r where "result = Inr (r, True)" "lookupReference store' k = Some r" "src_ID (ref_Source r) = src_ID source"
      "unat (ref_SelectionRevision r) = unat (ref_SelectionRevision reference) + 1"
      "if sourceTransportChanged (ref_Source reference) (ref_Asset reference) source asset then unat (ref_TransportRevision r) = unat (ref_TransportRevision reference) + 1
       else ref_TransportRevision r = ref_TransportRevision reference"
proof (cases "liveReference clock k caller (removeExpiredLocked (clock 0) store)")
  case None
  with result have "result = Inl ErrSourceReferenceExpired" "store' = removeExpiredLocked (clock 0) store"
    by (auto simp: replaceSelection_def)
  with failed show thesis by simp
next
  case (Some r)
  let ?changed = "sourceTransportChanged (ref_Source reference) (ref_Asset reference) source asset"
  from Some have r: "r = reference" "lookupReference (removeExpiredLocked (clock 0) store) k = Some reference"
    using lookup_expired(1) [OF ok current, of "clock 0"] by (auto simp: liveReference_Some)
  show thesis
  proof (cases "ref_SelectionRevision reference = - 1 \<or> ?changed \<and> ref_TransportRevision reference = - 1")
    case True
    with result Some r have "result = Inl (ErrOther ''source selection revision exhausted'')" "store' = removeExpiredLocked (clock 0) store"
      by (auto simp: replaceSelection_def Let_def)
    with failed r show thesis by simp
  next
    case False
    with result Some r obtain new where new: "result = Inr (new, True)" "lookupReference store' k = Some new"
        "src_ID (ref_Source new) = src_ID source" "ref_SelectionRevision new = ref_SelectionRevision reference + 1"
        "ref_TransportRevision new = ref_TransportRevision reference + (if ?changed then 1 else 0)"
      by (auto simp: replaceSelection_def Let_def lookupReference_def lookup_update cloneSourceReference_def split: if_splits)
    with False word_plus_one [of "ref_SelectionRevision reference"] word_plus_one [of "ref_TransportRevision reference"] replaced show thesis
      by auto
  qed
qed

lemma refreshSourceReference_cases [consumes 2]:
  assumes "TrimSpace (src_AddonID (ref_Source reference)) \<noteq> []"
    "refreshSourceReference urlParse parse digest keyOf validateAccess fetch clock caller reference s = (result, t)"
  obtains (error) err where "result = Inl err" "t = s"
    | (expire) "expireSourceReference clock keyOf caller reference s = (result, t)"
    | (replace) source asset answer store where "src_ID source = src_ID (ref_Source reference)"
        "replaceSelection clock (ref_ID reference) caller (ref_SelectionRevision reference) source asset (svc_references s) = (answer, store)"
        "case answer of Inl err \<Rightarrow> result = Inl err \<and> t = s\<lparr>svc_references := store\<rparr>
         | Inr (updated, replaced) \<Rightarrow> result = Inr updated \<and>
             t = (if replaced \<and> sourceTransportChanged (ref_Source reference) (ref_Asset reference) source asset
               then evictStaleSourcePreparation keyOf reference (s\<lparr>svc_references := store\<rparr>) else s\<lparr>svc_references := store\<rparr>)"
proof (cases "\<exists>candidates assets candidate answered. validateSourceReferenceAccess validateAccess caller reference = None \<and>
    fetch caller (TrimSpace (src_AddonID (ref_Source reference)))
      \<lparr>path_Resource = ''stream'', path_Type = ref_AddonMediaType reference, path_ID = ref_ResourceID reference\<rparr> = Inr answered \<and>
    normalizeStreams urlParse parse \<lparr>rb_Results = [answered], rb_Errors = []\<rparr> (ref_Capabilities reference) = Inr (candidates, assets) \<and>
    uniqueMatch (matchesSnapshot digest (ref_Source reference)) None candidates = Some candidate")
  case False
  with assms error expire show thesis
    by (fastforce simp: refreshSourceReference_def Let_def split: option.splits sum.splits prod.splits if_splits)
next
  case True
  then obtain candidates assets candidate answered where found:
      "validateSourceReferenceAccess validateAccess caller reference = None"
      "fetch caller (TrimSpace (src_AddonID (ref_Source reference)))
        \<lparr>path_Resource = ''stream'', path_Type = ref_AddonMediaType reference, path_ID = ref_ResourceID reference\<rparr> = Inr answered"
      "normalizeStreams urlParse parse \<lparr>rb_Results = [answered], rb_Errors = []\<rparr> (ref_Capabilities reference) = Inr (candidates, assets)"
      "uniqueMatch (matchesSnapshot digest (ref_Source reference)) None candidates = Some candidate"
    by blast
  obtain source asset where selected: "selectedCandidate (ref_Source reference) candidate assets = (source, asset)" by force
  obtain answer store where answer: "replaceSelection clock (ref_ID reference) caller (ref_SelectionRevision reference) source asset
      (svc_references s) = (answer, store)" by force
  have "src_ID source = src_ID (ref_Source reference)"
    using selected by (auto simp: selectedCandidate_def Let_def)
  then show thesis
    by (rule replace [OF _ answer])
      (use assms found selected answer in \<open>auto simp: refreshSourceReference_def Let_def split: sum.split prod.splits\<close>)
qed

lemma refreshSourceReference_refreshed:
  assumes ok: "storeOk (svc_references s)" and current: "lookupReference (svc_references s) (ref_ID reference) = Some reference"
    and addon: "TrimSpace (src_AddonID (ref_Source reference)) \<noteq> []"
    and result: "refreshSourceReference urlParse parse digest keyOf validateAccess fetch clock caller reference s = (result, t)"
  shows "refreshed keyOf (clock 0) reference s result t"
proof -
  have same: "refreshed keyOf (clock 0) reference s (Inl err) s" for err
    using current by (simp add: refreshed_def sameCaches_def)
  note expire = expireSourceReference_refreshed [OF ok current]
  from addon result show ?thesis
  proof (cases rule: refreshSourceReference_cases)
    case (error err)
    with same show ?thesis by simp
  next
    case expire
    then show ?thesis by (rule expireSourceReference_refreshed [OF ok current])
  next
    case (replace source asset answer store)
    from ok current replace(2) show ?thesis
    proof (cases rule: replaceSelection_current)
      case (failed err)
      with replace(3) lookup_expired [OF ok current, of "clock 0"] show ?thesis
        by (auto simp: refreshed_def sameCaches_def split: option.split)
    next
      case (replaced r)
      with replace(1,3) evictStale_gone [of keyOf reference "s\<lparr>svc_references := store\<rparr>"] show ?thesis
        by (auto simp: refreshed_def sameCaches_def split: if_splits)
    qed
  qed
qed

section \<open>A listing\<close>

lemma count_one_index:
  assumes "count_list xs d = 1" "i < length xs" "j < length xs" "xs ! i = d" "xs ! j = d"
  shows "i = j"
proof -
  have "card {k. k < length xs \<and> d = xs ! k} = 1"
    using assms(1) by (simp add: count_list_eq_length_filter length_filter_conv_card)
  then obtain k where "{k. k < length xs \<and> d = xs ! k} = {k}"
    by (rule card_1_singletonE)
  with assms(2-5) show ?thesis
    by (metis (mono_tags, lifting) mem_Collect_eq singletonD)
qed

lemma uniqueStableSourceIdentities_unique:
  assumes "i < length references" "j < length references" "uniqueStableSourceIdentities digest references ! i \<noteq> []"
    "uniqueStableSourceIdentities digest references ! i = uniqueStableSourceIdentities digest references ! j"
  shows "i = j"
  by (rule count_one_index [of "map (\<lambda>r. stableSourceIdentity digest (ref_Source r)) references"])
    (use assms in \<open>auto simp: uniqueStableSourceIdentities_def Let_def split: if_splits\<close>)

lemma distinct_nonempty:
  "(\<And>i j. i < length xs \<Longrightarrow> j < length xs \<Longrightarrow> xs ! i \<noteq> [] \<Longrightarrow> xs ! i = xs ! j \<Longrightarrow> i = j) \<Longrightarrow>
     distinct (filter (\<lambda>x. x \<noteq> []) xs)"
proof (induction xs)
  case (Cons x xs)
  have "distinct (filter (\<lambda>x. x \<noteq> []) xs)"
  proof (rule Cons.IH)
    fix i j assume "i < length xs" "j < length xs" "xs ! i \<noteq> []" "xs ! i = xs ! j"
    with Cons.prems [of "Suc i" "Suc j"] show "i = j" by simp
  qed
  moreover have "x \<noteq> [] \<Longrightarrow> x \<notin> set xs"
    using Cons.prems [of 0 "Suc i" for i] by (auto simp: in_set_conv_nth)
  ultimately show ?case by simp
qed simp

lemma sourceOption_fields [simp]:
  "so_SourceRef (sourceOption i r identity) = ref_ID r" "so_StableIdentity (sourceOption i r identity) = identity"
  "so_ID (sourceOption i r identity) = src_ID (ref_Source r)"
  by (simp_all add: sourceOption_def Let_def split: prod.split)

text \<open>
  Every option of a successful listing names a stored reference of the caller, and options with a stable
  identity are told apart by it.
\<close>

lemma listSources_options:
  assumes ok: "storeOk store"
    and listed: "listSources urlParse parse digest fetch fetchAll authorized began committed newIdentifier clock caller input pin store =
      (Inr result, store')"
  shows "\<forall>option \<in> set (sl_Sources result). \<exists>r. lookupReference store' (so_SourceRef option) = Some r \<and>
      sourceReferenceOwnedBy r caller \<and> src_ID (ref_Source r) = so_ID option"
    and "distinct (filter (\<lambda>identity. identity \<noteq> []) (map so_StableIdentity (sl_Sources result)))"
proof -
  from listed obtain references stored where
    put: "putAllReserved newIdentifier clock caller references pin store = (Inr stored, store')"
    and options: "sl_Sources result =
      map (\<lambda>i. sourceOption i (stored ! i) (uniqueStableSourceIdentities digest stored ! i)) [0..<length stored]"
    by (auto simp: listSources_def putAllPinned_def putAll_def Let_def split: option.splits sum.splits prod.splits if_splits)
  show "\<forall>option \<in> set (sl_Sources result). \<exists>r. lookupReference store' (so_SourceRef option) = Some r \<and>
      sourceReferenceOwnedBy r caller \<and> src_ID (ref_Source r) = so_ID option"
  proof
    fix option assume "option \<in> set (sl_Sources result)"
    then obtain i where i: "i < length stored" "option = sourceOption i (stored ! i) (uniqueStableSourceIdentities digest stored ! i)"
      by (auto simp: options)
    have "sourceReferenceOwnedBy (cloneSourceReference (stored ! i)) caller"
      using putAllReserved_lookup(3) [OF ok put i(1), of caller] by (simp add: cloneSourceReference_def sourceReferenceOwnedBy_def split: option.splits)
    with putAllReserved_lookup(1) [OF ok put i(1)] i(2)
    show "\<exists>r. lookupReference store' (so_SourceRef option) = Some r \<and> sourceReferenceOwnedBy r caller \<and>
        src_ID (ref_Source r) = so_ID option"
      by (auto simp: cloneSourceReference_def)
  qed
  have "map so_StableIdentity (sl_Sources result) = uniqueStableSourceIdentities digest stored"
    by (rule nth_equalityI) (simp_all add: options uniqueStableSourceIdentities_def Let_def)
  moreover have "distinct (filter (\<lambda>identity. identity \<noteq> []) (uniqueStableSourceIdentities digest stored))"
  proof (rule distinct_nonempty)
    have "length (uniqueStableSourceIdentities digest stored) = length stored"
      by (simp add: uniqueStableSourceIdentities_def Let_def)
    then show "\<And>i j. i < length (uniqueStableSourceIdentities digest stored) \<Longrightarrow> j < length (uniqueStableSourceIdentities digest stored) \<Longrightarrow>
        uniqueStableSourceIdentities digest stored ! i \<noteq> [] \<Longrightarrow>
        uniqueStableSourceIdentities digest stored ! i = uniqueStableSourceIdentities digest stored ! j \<Longrightarrow> i = j"
      using uniqueStableSourceIdentities_unique by metis
  qed
  ultimately show "distinct (filter (\<lambda>identity. identity \<noteq> []) (map so_StableIdentity (sl_Sources result)))"
    by (simp only:)
qed

section \<open>The service as a system\<close>

text \<open>
  Requests that list or refresh sources, interleaved with every step of the three components that other
  requests and the goroutines of the caches take.
\<close>

inductive service_step :: "serviceState \<Rightarrow> serviceState \<Rightarrow> bool" where
  list: "listSources urlParse parse digest fetch fetchAll authorized began committed newIdentifier clock caller input pin (svc_references s) =
      (listed, store) \<Longrightarrow> service_step s (s\<lparr>svc_references := store\<rparr>)"
| refresh: "refreshSourceReference urlParse parse digest keyOf validateAccess fetch clock caller reference s = (result, t) \<Longrightarrow> service_step s t"
| references: "store_step (svc_references s) store \<Longrightarrow> service_step s (s\<lparr>svc_references := store\<rparr>)"
| preparations: "preparation_step (svc_preparations s) prep \<Longrightarrow> service_step s (s\<lparr>svc_preparations := prep\<rparr>)"
| probes: "probe_step (svc_probes s) probes \<Longrightarrow> service_step s (s\<lparr>svc_probes := probes\<rparr>)"

definition startService :: serviceState where
  "startService = \<lparr>svc_references = newSourceReferenceStore, svc_preparations = startPreparations, svc_probes = startProbes\<rparr>"

text \<open>A request is made of steps of the components.\<close>

definition componentSteps :: "serviceState \<Rightarrow> serviceState \<Rightarrow> bool" where
  "componentSteps s t \<longleftrightarrow> store_step\<^sup>*\<^sup>* (svc_references s) (svc_references t) \<and>
     preparation_step\<^sup>*\<^sup>* (svc_preparations s) (svc_preparations t) \<and> probe_step\<^sup>*\<^sup>* (svc_probes s) (svc_probes t)"

lemma componentSteps_refl [simp]: "componentSteps s s"
  by (simp add: componentSteps_def)

lemma componentSteps_store: "store_step (svc_references s) store \<Longrightarrow> componentSteps s (s\<lparr>svc_references := store\<rparr>)"
  by (simp add: componentSteps_def r_into_rtranclp)

lemma componentSteps_trans: "componentSteps s t \<Longrightarrow> componentSteps t u \<Longrightarrow> componentSteps s u"
  by (auto simp: componentSteps_def intro: rtranclp_trans)

lemma evictStale_steps: "componentSteps s (evictStaleSourcePreparation keyOf reference s)"
proof -
  have "preparation_step p (p\<lparr>sys_cache := evictRevision i r (sys_cache p)\<rparr>)" for p i r
    by (rule preparation_step.evictRevision)
  moreover have "probe_step p (p\<lparr>psys_cache := evictProbe k (psys_cache p)\<rparr>)" for p k
    by (rule probe_step.evict)
  ultimately show ?thesis
    by (auto simp: componentSteps_def evictStaleSourcePreparation_def Let_def intro!: r_into_rtranclp split: option.split)
qed

lemma expireSourceReference_steps:
  assumes "expireSourceReference clock keyOf caller reference s = (result, t)"
  shows "componentSteps s t"
proof -
  obtain answer store where answer: "expireSelection clock (ref_ID reference) caller (ref_SelectionRevision reference) (svc_references s) =
      (answer, store)" by force
  then have "store_step (svc_references s) store"
    by (metis snd_conv store_step.expire)
  then have "componentSteps s (s\<lparr>svc_references := store\<rparr>)"
    by (rule componentSteps_store)
  moreover have "t = s\<lparr>svc_references := store\<rparr> \<or> t = evictStaleSourcePreparation keyOf reference (s\<lparr>svc_references := store\<rparr>)"
    using assms answer by (auto simp: expireSourceReference_def split: sum.splits option.splits)
  ultimately show ?thesis
    using evictStale_steps componentSteps_trans by blast
qed

lemma refreshSourceReference_steps:
  assumes result: "refreshSourceReference urlParse parse digest keyOf validateAccess fetch clock caller reference s = (result, t)"
  shows "componentSteps s t"
proof (cases "TrimSpace (src_AddonID (ref_Source reference)) = []")
  case True
  with result show ?thesis by (simp add: refreshSourceReference_def)
next
  case False
  from this result show ?thesis
  proof (cases rule: refreshSourceReference_cases)
    case (replace source asset answer store)
    from replace(2) have "store_step (svc_references s) store"
      by (metis snd_conv store_step.replace)
    then have "componentSteps s (s\<lparr>svc_references := store\<rparr>)"
      by (rule componentSteps_store)
    moreover have "t = s\<lparr>svc_references := store\<rparr> \<or> t = evictStaleSourcePreparation keyOf reference (s\<lparr>svc_references := store\<rparr>)"
      using replace(3) by (auto split: sum.splits if_splits)
    ultimately show ?thesis
      using evictStale_steps componentSteps_trans by blast
  qed (auto intro: expireSourceReference_steps)
qed

lemma listSources_steps:
  assumes "listSources urlParse parse digest fetch fetchAll authorized began committed newIdentifier clock caller input pin store = (result, store')"
  shows "store_step\<^sup>*\<^sup>* store store'"
proof -
  have put: "store_step\<^sup>*\<^sup>* store (snd (putAllReserved newIdentifier clock caller rs pin store))" for rs
    by (rule r_into_rtranclp) (rule store_step.put)
  have "store' = store \<or> (\<exists>rs. store' = snd (putAllReserved newIdentifier clock caller rs pin store)) \<or>
      (\<exists>rs ids. store' = unpinReferences (\<lambda>k. clock (k + 2)) caller ids (snd (putAllReserved newIdentifier clock caller rs pin store)))"
    using assms
    by (auto simp: listSources_def putAllPinned_def putAll_def Let_def split: option.splits sum.splits prod.splits if_splits; metis snd_conv)
  then show ?thesis
    using put by (auto intro: rtranclp.rtrancl_into_rtrancl store_step.unpin)
qed

definition serviceOk :: "serviceState \<Rightarrow> bool" where
  "serviceOk s \<longleftrightarrow> storeOk (svc_references s) \<and> prepOk (svc_preparations s) \<and> probeOk (svc_probes s)"

lemma componentSteps_ok: "componentSteps s t \<Longrightarrow> serviceOk s \<Longrightarrow> serviceOk t"
  using reference_store.inv_steps preparations.inv_steps probes.inv_steps
  by (auto simp: componentSteps_def serviceOk_def)

lemma service_step_components: "service_step s t \<Longrightarrow> componentSteps s t"
proof (induction rule: service_step.induct)
  case (refresh urlParse parse digest keyOf validateAccess fetch clock caller reference s result t)
  then show ?case by (rule refreshSourceReference_steps)
qed (auto simp: componentSteps_def dest: listSources_steps)

interpretation service: transition_system "\<lambda>s. s = startService" service_step serviceOk
proof
  show "serviceOk s" if "s = startService" for s
    using that reference_store.inv_start preparations.inv_start probes.inv_start by (simp add: serviceOk_def startService_def)
  show "serviceOk t" if "serviceOk s" "service_step s t" for s t
    using that componentSteps_ok service_step_components by blast
qed

text \<open>
  C29. Refreshing a reference keeps store and caches together. In every reachable state of the service a
  request that holds the current version
  of a reference leaves the store with that version and untouched caches; or with the version it
  returns, whose selection revision is one larger; or without the reference, and then the request fails
  with \<open>ErrSourceReferenceExpired\<close>. Whenever the transport of the source changed, or the addon withdrew
  the source, no prepared playback of the old version is served, joined or handed over any more, under
  any policy, and the probe of its old asset is forgotten.
\<close>

theorem refreshSourceReference_consistent:
  assumes reach: "service_step\<^sup>*\<^sup>* startService s"
    and current: "lookupReference (svc_references s) (ref_ID reference) = Some reference"
    and addon: "TrimSpace (src_AddonID (ref_Source reference)) \<noteq> []"
    and result: "refreshSourceReference urlParse parse digest keyOf validateAccess fetch clock caller reference s = (result, t)"
  shows "refreshed keyOf (clock 0) reference s result t"
  using service.inv_reachable [OF refl reach] refreshSourceReference_refreshed [OF _ current addon result]
  by (simp add: serviceOk_def)

section \<open>Deciding one source\<close>

lemma ranked_single:
  "\<not> openedElsewhere s \<Longrightarrow> rankedCandidates assets [s] =
     (if isCandidate assets s then [\<lparr>sc_sourceIndex = 0, sc_assetIndex = the (storedAssetIndex assets (src_ID s)),
        sc_directHint = src_Compatible s, sc_resolutionHint = sourceResolutionHint s\<rparr>] else [])"
  by (auto simp: rankedCandidates_def isCandidate_def openedElsewhere_def Let_def split: option.splits)

lemma firstBest_single:
  "firstBest key xs = Some x \<Longrightarrow> x \<in> set xs"
  by (drule firstBest_Some) simp

lemma probed_single:
  assumes "fold (probedSources probe assets) kcs [s] = ss"
  shows "\<exists>s'. ss = [s']" "src_ID (ss ! 0) = src_ID s" "src_Mode (ss ! 0) = src_Mode s" "src_Compatible (ss ! 0) = src_Compatible s"
proof -
  have "\<exists>s'. probedSources probe assets kc [s] = [s'] \<and> src_ID s' = src_ID s \<and> src_Mode s' = src_Mode s \<and>
      src_Compatible s' = src_Compatible s" for kc s
    by (cases "sc_sourceIndex (snd kc)") (auto simp: probedSources_def inspectedSource_def Let_def split: sum.split)
  then have "\<exists>s'. fold (probedSources probe assets) kcs [s] = [s'] \<and> src_ID s' = src_ID s \<and> src_Mode s' = src_Mode s \<and>
      src_Compatible s' = src_Compatible s"
  proof (induction kcs arbitrary: s)
    case (Cons kc kcs)
    obtain s1 where "probedSources probe assets kc [s] = [s1]" "src_ID s1 = src_ID s" "src_Mode s1 = src_Mode s"
        "src_Compatible s1 = src_Compatible s"
      using Cons.prems [of kc s] by blast
    with Cons.IH [OF Cons.prems, of s1] show ?case by auto
  qed simp
  with assms show "\<exists>s'. ss = [s']" "src_ID (ss ! 0) = src_ID s" "src_Mode (ss ! 0) = src_Mode s" "src_Compatible (ss ! 0) = src_Compatible s"
    by auto
qed

lemma applyDecisionToSource_fields:
  "src_ID (applyDecisionToSource m mode d s) = src_ID s" "src_Mode (applyDecisionToSource m mode d s) = mode"
  "src_Media (applyDecisionToSource m mode d s) = Some m" "src_Decision (applyDecisionToSource m mode d s) = d"
  "src_Compatible (applyDecisionToSource m mode d s)"
  by (simp_all add: applyDecisionToSource_def Let_def)

definition decidedFrom ::
    "bool \<Rightarrow> storedAsset list \<Rightarrow> Capabilities \<Rightarrow> bool \<Rightarrow> Source \<Rightarrow> Source \<Rightarrow> bool" where
  "decidedFrom processed assets capabilities allow s s' \<longleftrightarrow>
     src_ID s' = src_ID s \<and> (\<not> allow \<longrightarrow> src_Mode s' \<in> {''direct'', processingRemux, src_Mode s}) \<and>
     (processed \<and> isCandidate assets s \<and> src_Compatible s' \<longrightarrow>
       (\<exists>source media. src_Media s' = Some media \<and> playbackMode source media capabilities = (src_Mode s', src_Decision s')))"

lemma decide_single:
  assumes decided: "decidePlaybackSource processor [s] assets capabilities [allow] = (None, ss, aa)"
  obtains s' where "ss = [s']" "length aa = length assets" "decidedFrom (processor \<noteq> None) assets capabilities allow s s'"
proof (cases processor)
  case None
  show thesis
    by (rule that [of "ss ! 0"])
      (use None decided in \<open>auto simp: decidePlaybackSource_def decideWithoutProcessor_def decidedFrom_def Let_def split: option.splits if_splits\<close>)
next
  case (Some probe)
  show thesis
  proof (cases "openedElsewhere s")
    case True
    then have "gatherCandidates assets 0 [s] = (True, [], [s])"
      by (simp add: openedElsewhere_def)
    with decided Some have "ss = [s]" "aa = assets"
      by (auto simp: decidePlaybackSource_def)
    with True that show thesis
      by (auto simp: decidedFrom_def isCandidate_def openedElsewhere_def)
  next
    case False
    then have open1: "\<not> list_ex openedElsewhere [s]" by simp
    let ?kcs = "enumerate 0 (rankedCandidates assets [s])"
    let ?ss = "fold (probedSources probe assets) ?kcs [withdrawn assets s]"
    note probed = probed_single [OF refl, of probe assets ?kcs "withdrawn assets s"]
    show thesis
    proof (cases "firstBest (planRank (prefersDirect capabilities)) (sourcePlans probe [s] assets capabilities [allow])")
      case None
      with decided Some have "ss = ?ss" "aa = assets"
        by (auto simp: decidePlaybackSource_open [OF open1] Let_def)
      moreover obtain s' where "?ss = [s']" using probed(1) by blast
      ultimately show thesis
        using probed that by (auto simp: decidedFrom_def withdrawn_def)
    next
      case plan: (Some plan)
      note mem = firstBest_single [OF plan]
      then obtain kc where kc: "kc \<in> set ?kcs"
        "candidatePlan probe assets capabilities allow [withdrawn assets s] kc = Some plan"
        unfolding sourcePlans_def candidatePlans_def List.map_filter_def by (elim mem_filter_the) auto
      note facts = candidatePlan_Some [OF kc(2)]
      have i0: "sc_sourceIndex (pl_candidate plan) = 0"
        using rankedCandidates_index(2) [OF open1 sourcePlans_mem(1) [OF mem]] by simp
      obtain s1 where s1: "?ss = [s1]" using probed(1) by blast
      have "ss = [applyDecisionToSource (pl_inspection plan) (pl_mode plan) (pl_decision plan) s1]" "length aa = length assets"
        using decided Some plan by (auto simp: decidePlaybackSource_open [OF open1] Let_def i0 s1)
      moreover have "src_ID s1 = src_ID s"
        using probed(2) s1 by (simp add: withdrawn_def)
      ultimately show thesis
        using that facts(3,5) by (auto simp: decidedFrom_def applyDecisionToSource_fields copyMode_def)
    qed
  qed
qed

lemma preparedSource_single:
  assumes "preparedSource processor policy capabilities [s] assets = Inr (ss, aa)"
  obtains s' where "ss = [s']" "length aa = length assets"
    "if pol_externalPlayer policy then s' = s\<lparr>src_Compatible := True, src_Media := None, src_Decision := None\<rparr>
     else decidedFrom (processor \<noteq> None) assets capabilities (pol_allowTranscoding policy) s s'"
proof (cases "pol_externalPlayer policy")
  case True
  with assms that show thesis by (simp add: preparedSource_def)
next
  case False
  then obtain aa' where decided: "decidePlaybackSource processor [s] assets capabilities [pol_allowTranscoding policy] = (None, ss, aa')"
    and len: "length aa = length aa'"
    using assms by (auto simp: preparedSource_def split: prod.splits option.splits)
  show thesis
    by (rule decide_single [OF decided]) (use that False len in auto)
qed

section \<open>The subtitles and addons of a preparation\<close>

lemma preparedSubtitles_ok:
  assumes "preparedSubtitles urlParse parse external fetched = (subtitles, assets, failures)"
  shows "map sub_ID subtitles = map sa_ID assets" "distinct (map sub_ID subtitles)"
    "\<forall>s \<in> set subtitles. hd (sub_ID s) = CHR ''s''"
proof -
  have "subtitles = [] \<and> assets = [] \<or> (\<exists>batch. normalizeSubtitles urlParse parse batch external = Inr (subtitles, assets))"
    using assms by (auto simp: preparedSubtitles_def split: option.splits sum.splits)
  then show "map sub_ID subtitles = map sa_ID assets" "distinct (map sub_ID subtitles)"
    "\<forall>s \<in> set subtitles. hd (sub_ID s) = CHR ''s''"
    using normalizeSubtitles_ok [of urlParse parse _ external subtitles assets] by fastforce+
qed

lemma embeddedSubtitles_ids:
  assumes "embeddedSubtitles sources assets capabilities = (subtitles, subtitleAssets)"
  shows "\<forall>s \<in> set subtitles. hd (sub_ID s) = CHR ''e''"
proof -
  have "embeddedSubtitle source asset c (n, track) = Some (s, a) \<Longrightarrow> hd (sub_ID s) = CHR ''e''" for source asset c n track s a
    by (drule embeddedSubtitle_Some(7)) simp
  then have "(s, a) \<in> set (List.map_filter (embeddedSubtitle source asset c) xs) \<Longrightarrow> hd (sub_ID s) = CHR ''e''"
    for s a source asset c xs
    by (auto simp: List.map_filter_def)
  then show ?thesis
    using assms by (auto simp: embeddedSubtitles_def Let_def split: option.splits)
qed

definition tracksDistinct :: "Source \<Rightarrow> bool" where
  "tracksDistinct s \<longleftrightarrow> (case src_Media s of None \<Rightarrow> True
     | Some media \<Rightarrow> distinct (map mt_Index (mi_SubtitleTracks media)) \<and> list_all (\<lambda>t. in_int64 (mt_Index t)) (mi_SubtitleTracks media))"

lemma embeddedSubtitles_single:
  assumes "embeddedSubtitles [s] assets capabilities = (subtitles, subtitleAssets)" "tracksDistinct s"
  shows "map sub_ID subtitles = map sa_ID subtitleAssets" "distinct (map sub_ID subtitles)"
proof -
  have "map sub_ID subtitles = map sa_ID subtitleAssets \<and> distinct (map sub_ID subtitles)"
  proof (cases "inspectedIndex [s]")
    case None
    with assms show ?thesis by (simp add: embeddedSubtitles_def Let_def)
  next
    case (Some i)
    then obtain media where "i = 0" "src_Media ([s] ! i) = Some media"
      using inspectedIndex_Some [OF Some] by auto
    with assms Some show ?thesis
      using embeddedSubtitles_parallel [OF assms(1) Some] by (auto simp: tracksDistinct_def)
  qed
  then show "map sub_ID subtitles = map sa_ID subtitleAssets" "distinct (map sub_ID subtitles)" by blast+
qed

lemma foldl_appendID:
  "distinct ids \<Longrightarrow> distinct (foldl appendID ids raws) \<and>
     set (foldl appendID ids raws) = set ids \<union> (TrimSpace ` set raws - {[]})"
  by (induction raws arbitrary: ids) (auto simp: appendID_def Let_def)

lemma preparedPlaybackAddonIDs_set:
  "distinct (preparedPlaybackAddonIDs source subtitles)"
  "set (preparedPlaybackAddonIDs source subtitles) = TrimSpace ` (insert (src_AddonID source) (sub_AddonID ` set subtitles)) - {[]}"
  using foldl_appendID [of "[]" "src_AddonID source # map sub_AddonID subtitles"]
  by (simp_all add: preparedPlaybackAddonIDs_def)

section \<open>A preparation keeps the policy\<close>

definition preparedFrom :: "sourceReference \<Rightarrow> playbackPolicy \<Rightarrow> preparedPlayback \<Rightarrow> bool" where
  "preparedFrom reference policy p \<longleftrightarrow>
     src_Compatible (pp_source p) \<and> src_ID (pp_source p) = src_ID (ref_Source reference) \<and> src_ID (pp_source p) \<noteq> [] \<and>
     (\<not> pol_allowTranscoding policy \<longrightarrow> src_Mode (pp_source p) \<in> {''direct'', processingRemux, src_Mode (ref_Source reference)}) \<and>
     (pol_externalPlayer policy \<longrightarrow> src_Mode (pp_source p) = src_Mode (ref_Source reference) \<and> src_Decision (pp_source p) = None)"

lemma buildPreparedPlayback_cases:
  assumes "buildPreparedPlayback urlParse parse report processor fetchAll bitrate reference policies = Inr p"
  defines "policy \<equiv> preparationPolicy bitrate reference policies"
  defines "capabilities \<equiv> preparationCapabilities report reference policy"
  defines "assets0 \<equiv> (case ref_Asset reference of None \<Rightarrow> [] | Some asset \<Rightarrow> [cloneStoredAsset asset])"
  obtains s aa external externalAssets failures embedded embeddedAssets fetched where
    "length aa = length assets0"
    "if pol_externalPlayer policy then s = (ref_Source reference)\<lparr>src_Compatible := True, src_Media := None, src_Decision := None\<rparr>
     else decidedFrom (processor \<noteq> None) assets0 capabilities (pol_allowTranscoding policy) (ref_Source reference) s"
    "src_Compatible s" "src_ID s \<noteq> []"
    "preparedSubtitles urlParse parse (pol_externalPlayer policy) fetched = (external, externalAssets, failures)"
    "(embedded, embeddedAssets) = (if pol_externalPlayer policy then ([], []) else embeddedSubtitles [s] aa [capabilities])"
    "p = \<lparr>pp_source = s, pp_asset = (case aa of [] \<Rightarrow> None | asset # _ \<Rightarrow> Some (cloneStoredAsset asset)),
       pp_subtitles = external @ embedded, pp_subtitleAssets = externalAssets @ embeddedAssets,
       pp_providerErrors = ref_ProviderErrors reference @ failures, pp_addonIDs = preparedPlaybackAddonIDs s (external @ embedded)\<rparr>"
proof -
  from assms(1) obtain ss aa where prepared: "preparedSource processor policy capabilities [ref_Source reference] assets0 = Inr (ss, aa)"
    and compatible: "hasCompatibleSource ss"
    by (auto simp: buildPreparedPlayback_def policy_def capabilities_def assets0_def Let_def split: sum.splits prod.splits if_splits)
  show thesis
  proof (rule preparedSource_single [OF prepared])
    fix s assume s: "ss = [s]" "length aa = length assets0"
      "if pol_externalPlayer policy then s = (ref_Source reference)\<lparr>src_Compatible := True, src_Media := None, src_Decision := None\<rparr>
       else decidedFrom (processor \<noteq> None) assets0 capabilities (pol_allowTranscoding policy) (ref_Source reference) s"
    from compatible s(1) have "src_Compatible s" "src_ID s \<noteq> []"
      by (auto simp: hasCompatibleSource_def firstCompatibleSource_def split: if_splits)
    let ?fetched = "if cap_SubtitleModes capabilities = [] \<or> requestedProcessingMode (cap_SubtitleModes capabilities) ''external''
      then Some (fetchAll \<lparr>path_Resource = ''subtitles'', path_Type = ref_AddonMediaType reference, path_ID = ref_ResourceID reference\<rparr>)
      else None"
    obtain external externalAssets failures where external: "preparedSubtitles urlParse parse (pol_externalPlayer policy) ?fetched =
        (external, externalAssets, failures)" by (metis prod_cases3)
    obtain embedded embeddedAssets where embedded: "(embedded, embeddedAssets) =
        (if pol_externalPlayer policy then ([], []) else embeddedSubtitles [s] aa [capabilities])" by (metis surj_pair)
    have "p = \<lparr>pp_source = s, pp_asset = (case aa of [] \<Rightarrow> None | asset # _ \<Rightarrow> Some (cloneStoredAsset asset)),
       pp_subtitles = external @ embedded, pp_subtitleAssets = externalAssets @ embeddedAssets,
       pp_providerErrors = ref_ProviderErrors reference @ failures, pp_addonIDs = preparedPlaybackAddonIDs s (external @ embedded)\<rparr>"
      using assms(1) prepared compatible external s(1)
      unfolding buildPreparedPlayback_def policy_def [symmetric] capabilities_def [symmetric] assets0_def [symmetric] Let_def
        embedded [symmetric] by (simp flip: embedded split del: if_split)
    then show thesis
      by (rule that [OF s(2,3) \<open>src_Compatible s\<close> \<open>src_ID s \<noteq> []\<close> external embedded])
  qed
qed

lemma preparedFrom_built:
  assumes "buildPreparedPlayback urlParse parse report processor fetchAll bitrate reference policies = Inr p"
  shows "preparedFrom reference (preparationPolicy bitrate reference policies) p"
proof (rule buildPreparedPlayback_cases [OF assms])
  let ?policy = "preparationPolicy bitrate reference policies"
  fix s subtitles subtitleAssets failures ids asset embedded embeddedAssets external externalAssets aa fetched
  assume "if pol_externalPlayer ?policy then s = (ref_Source reference)\<lparr>src_Compatible := True, src_Media := None, src_Decision := None\<rparr>
     else decidedFrom (processor \<noteq> None) (case ref_Asset reference of None \<Rightarrow> [] | Some asset \<Rightarrow> [cloneStoredAsset asset])
       (preparationCapabilities report reference ?policy) (pol_allowTranscoding ?policy) (ref_Source reference) s"
    "src_Compatible s" "src_ID s \<noteq> []"
    "p = \<lparr>pp_source = s, pp_asset = (case aa of [] \<Rightarrow> None | asset # _ \<Rightarrow> Some (cloneStoredAsset asset)),
       pp_subtitles = external @ embedded, pp_subtitleAssets = externalAssets @ embeddedAssets,
       pp_providerErrors = ref_ProviderErrors reference @ failures, pp_addonIDs = preparedPlaybackAddonIDs s (external @ embedded)\<rparr>"
  then show "preparedFrom reference ?policy p"
    by (auto simp: preparedFrom_def decidedFrom_def split: if_splits)
qed

lemma buildPreparedPlayback_policy:
  assumes built: "buildPreparedPlayback urlParse parse report processor fetchAll bitrate reference policies = Inr p"
    and tracks: "tracksDistinct (pp_source p)"
  defines "policy \<equiv> preparationPolicy bitrate reference policies"
  shows "preparedFrom reference policy p \<and>
    map sub_ID (pp_subtitles p) = map sa_ID (pp_subtitleAssets p) \<and> distinct (map sub_ID (pp_subtitles p)) \<and>
    distinct (pp_addonIDs p) \<and>
    set (pp_addonIDs p) = TrimSpace ` (insert (src_AddonID (pp_source p)) (sub_AddonID ` set (pp_subtitles p))) - {[]} \<and>
    (\<forall>probe asset media d video. processor = Some probe \<and> \<not> pol_externalPlayer policy \<and> ref_Asset reference = Some asset \<and>
       isCandidate [cloneStoredAsset asset] (ref_Source reference) \<and> src_Media (pp_source p) = Some media \<and>
       src_Decision (pp_source p) = Some d \<and> primaryTrack (mi_VideoTracks media) = Some video \<longrightarrow>
       (if src_Mode (pp_source p) = ''direct'' \<and> cap_AllowDirectPassthrough (ref_Capabilities reference)
        then deliveredHeight video d = mt_Height video \<and> deliveredBitrate video d = mt_BitrateKbps video
        else withinLimit (pol_maximumHeight policy) (deliveredHeight video d) \<and>
          withinLimit (cap_MaximumVideoBitrateKbps (ref_Capabilities reference)) (deliveredBitrate video d)))"
proof (rule buildPreparedPlayback_cases [OF built], fold policy_def)
  fix s embedded embeddedAssets external externalAssets aa failures fetched
  assume s: "if pol_externalPlayer policy then s = (ref_Source reference)\<lparr>src_Compatible := True, src_Media := None, src_Decision := None\<rparr>
     else decidedFrom (processor \<noteq> None) (case ref_Asset reference of None \<Rightarrow> [] | Some asset \<Rightarrow> [cloneStoredAsset asset])
       (preparationCapabilities report reference policy) (pol_allowTranscoding policy) (ref_Source reference) s"
    and compatible: "src_Compatible s"
    and external: "preparedSubtitles urlParse parse (pol_externalPlayer policy) fetched = (external, externalAssets, failures)"
    and embedded: "(embedded, embeddedAssets) = (if pol_externalPlayer policy then ([], [])
       else embeddedSubtitles [s] aa [preparationCapabilities report reference policy])"
    and p: "p = \<lparr>pp_source = s, pp_asset = (case aa of [] \<Rightarrow> None | asset # _ \<Rightarrow> Some (cloneStoredAsset asset)),
       pp_subtitles = external @ embedded, pp_subtitleAssets = externalAssets @ embeddedAssets,
       pp_providerErrors = ref_ProviderErrors reference @ failures, pp_addonIDs = preparedPlaybackAddonIDs s (external @ embedded)\<rparr>"
  have tracks': "tracksDistinct s" using tracks p by simp
  note ext = preparedSubtitles_ok [OF external]
  have emb: "map sub_ID embedded = map sa_ID embeddedAssets \<and> distinct (map sub_ID embedded) \<and> (\<forall>s \<in> set embedded. hd (sub_ID s) = CHR ''e'')"
    using embedded embeddedSubtitles_single [OF _ tracks'] embeddedSubtitles_ids by (metis distinct.simps(1) empty_iff empty_set list.map_disc_iff prod.inject)
  have parallel: "map sub_ID (pp_subtitles p) = map sa_ID (pp_subtitleAssets p)"
    using ext(1) emb by (simp add: p)
  have "sub_ID ` set external \<inter> sub_ID ` set embedded = {}"
  proof (rule ccontr)
    assume "sub_ID ` set external \<inter> sub_ID ` set embedded \<noteq> {}"
    then obtain a b where "a \<in> set external" "b \<in> set embedded" "sub_ID a = sub_ID b" by blast
    with ext(3) emb show False by force
  qed
  with ext(2) conjunct1 [OF conjunct2 [OF emb]] have distinct: "distinct (map sub_ID (pp_subtitles p))"
    by (simp add: p)
  have height: "if src_Mode s = ''direct'' \<and> cap_AllowDirectPassthrough (ref_Capabilities reference)
      then deliveredHeight video d = mt_Height video \<and> deliveredBitrate video d = mt_BitrateKbps video
      else withinLimit (pol_maximumHeight policy) (deliveredHeight video d) \<and>
        withinLimit (cap_MaximumVideoBitrateKbps (ref_Capabilities reference)) (deliveredBitrate video d)"
    if given: "processor \<noteq> None" "\<not> pol_externalPlayer policy" "ref_Asset reference = Some asset"
      "isCandidate [cloneStoredAsset asset] (ref_Source reference)" "src_Media s = Some media" "src_Decision s = Some d"
      "primaryTrack (mi_VideoTracks media) = Some video" for asset media d video
  proof -
    let ?c = "preparationCapabilities report reference policy"
    have c: "cap_MaximumHeight ?c = pol_maximumHeight policy" "cap_MaximumVideoBitrateKbps ?c = cap_MaximumVideoBitrateKbps (ref_Capabilities reference)"
      "cap_AllowDirectPassthrough ?c = cap_AllowDirectPassthrough (ref_Capabilities reference)"
      using given(2) by (simp_all add: preparationCapabilities_def playbackCapabilities_def Let_def split: option.split)
    obtain source where "playbackMode source media ?c = (src_Mode s, Some d)"
      using s compatible given by (auto simp: decidedFrom_def)
    from playbackMode_delivered [OF this given(7)] show ?thesis
      by (simp add: c split: if_splits)
  qed
  show ?thesis
    using preparedFrom_built [OF built, folded policy_def] parallel distinct height preparedPlaybackAddonIDs_set [of s "external @ embedded"]
    by (auto simp: p)
qed

text \<open>
  C27. What a preparation promises: the prepared source is the one of the reference, compatible, and
  without the permission to transcode it is played directly, remuxed or opened as it was. Where a probe
  described the source and \<open>playbackMode\<close> decided for it, what is delivered stays within the height of the
  policy and the bitrate of the client, but for direct play of a client that allows direct passthrough, which
  the code does not check and which delivers the track as it is; an external player gets the source undecided.
  Subtitles and subtitle assets are parallel with distinct ids (as long as the stream indices of the file are
  distinct), and the addons whose access is checked later are exactly those of the source and its
  subtitles, each once.
\<close>

theorem buildPreparedPlayback_keeps_policy:
  assumes built: "buildPreparedPlayback urlParse parse report processor fetchAll bitrate reference policies = Inr p"
    and tracks: "tracksDistinct (pp_source p)"
  defines "policy \<equiv> preparationPolicy bitrate reference policies"
  shows "preparedFrom reference policy p \<and>
    map sub_ID (pp_subtitles p) = map sa_ID (pp_subtitleAssets p) \<and> distinct (map sub_ID (pp_subtitles p)) \<and>
    distinct (pp_addonIDs p) \<and>
    set (pp_addonIDs p) = TrimSpace ` (insert (src_AddonID (pp_source p)) (sub_AddonID ` set (pp_subtitles p))) - {[]} \<and>
    (\<forall>probe asset media d video. processor = Some probe \<and> \<not> pol_externalPlayer policy \<and> ref_Asset reference = Some asset \<and>
       isCandidate [cloneStoredAsset asset] (ref_Source reference) \<and> src_Media (pp_source p) = Some media \<and>
       src_Decision (pp_source p) = Some d \<and> primaryTrack (mi_VideoTracks media) = Some video \<longrightarrow>
       (if src_Mode (pp_source p) = ''direct'' \<and> cap_AllowDirectPassthrough (ref_Capabilities reference)
        then deliveredHeight video d = mt_Height video \<and> deliveredBitrate video d = mt_BitrateKbps video
        else withinLimit (pol_maximumHeight policy) (deliveredHeight video d) \<and>
          withinLimit (cap_MaximumVideoBitrateKbps (ref_Capabilities reference)) (deliveredBitrate video d)))"
  unfolding policy_def by (rule buildPreparedPlayback_policy [OF built tracks])

section \<open>A session keeps the policy\<close>

lemma refreshSelectedAudioDecision_keeps:
  "src_ID (fst (refreshSelectedAudioDecision s a m c)) = src_ID s"
  "src_Compatible (fst (refreshSelectedAudioDecision s a m c)) = src_Compatible s"
  by (simp_all add: refreshSelectedAudioDecision_def Let_def split: option.split)

definition keepsSource :: "Source \<Rightarrow> Source list \<Rightarrow> bool" where
  "keepsSource s ss \<longleftrightarrow> length ss = 1 \<and> src_ID (ss ! 0) = src_ID s \<and> src_Compatible (ss ! 0) = src_Compatible s"

lemma selectAudioTrack_keeps:
  assumes "selectAudioTrack 0 j m track c ss aa = (ss', aa')" "keepsSource s ss"
  shows "keepsSource s ss'"
  using assms by (auto simp: selectAudioTrack_def keepsSource_def refreshSelectedAudioDecision_keeps Let_def)

lemma applyPlaybackDecision_keeps:
  assumes "applyPlaybackDecision [s] assets (candidateAt 0 j) m mode d c = (ss, aa)" "src_Compatible s"
  shows "keepsSource s ss"
  using assms by (auto simp: applyPlaybackDecision_def candidateAt_def keepsSource_def applyDecisionToSource_fields)

lemma applyPlaybackPreferences_single:
  assumes result: "applyPlaybackPreferences [s] assets input = (None, ss, aa)"
  shows "keepsSource s ss"
    "\<not> ri_AllowTranscoding input \<Longrightarrow> src_Mode (ss ! 0) = src_Mode s \<or> src_Mode s = ''direct'' \<and> src_Mode (ss ! 0) = processingRemux"
proof -
  have "keepsSource s ss \<and> (ss = [s] \<or> inspectedIndex [s] = Some 0 \<and> storedAssetIndex assets (src_ID s) \<noteq> None)"
  proof (cases rule: applyPlaybackPreferences_cases [of "[s]" assets input])
    case (skip e)
    with result show ?thesis by (auto simp: keepsSource_def)
  next
    case (keep i j track preferred explicit copySupported)
    have "i = 0" using inspectedIndex_Some [OF keep(1)] by simp
    with keep result selectAudioTrack_keeps [of j _ track _ "[s]" assets ss aa s] show ?thesis
      by (auto simp: keepsSource_def)
  next
    case (switch i j track preferred explicit copySupported mode decision ss1 aa1)
    have i: "i = 0" "src_Compatible s" using inspectedIndex_Some [OF switch(1)] by auto
    with switch(6) have "keepsSource s ss1" by (auto dest: applyPlaybackDecision_keeps)
    moreover have "selectAudioTrack 0 j (the (src_Media s)) track (ri_Capabilities input) ss1 aa1 = (ss, aa)"
      using switch(7) result i by simp
    ultimately have "keepsSource s ss" by (rule selectAudioTrack_keeps [rotated])
    with switch(1,2) i show ?thesis by simp
  qed
  then show "keepsSource s ss"
    "\<not> ri_AllowTranscoding input \<Longrightarrow> src_Mode (ss ! 0) = src_Mode s \<or> src_Mode s = ''direct'' \<and> src_Mode (ss ! 0) = processingRemux"
    using applyPlaybackPreferences_keeps [OF result] by auto
qed

lemma applySubtitleDecision_single:
  assumes result: "applySubtitleDecision [s] assets subtitles subtitleAssets capabilities allow = (None, ss, aa)"
  shows "keepsSource s ss"
    "if burnSelected subtitles then allow \<and> src_Mode (ss ! 0) = processingTranscode else src_Mode (ss ! 0) = src_Mode s"
proof -
  have "keepsSource s ss \<and>
    (if burnSelected subtitles then allow \<and> src_Mode (ss ! 0) = processingTranscode else src_Mode (ss ! 0) = src_Mode s)"
  proof (cases rule: applySubtitleDecision_cases [of subtitles "[s]" assets subtitleAssets capabilities allow])
    case (action a)
    have "keepsSource s (fst (setSubtitleAction [s] assets a)) \<and> src_Mode (fst (setSubtitleAction [s] assets a) ! 0) = src_Mode s"
      by (simp add: setSubtitleAction_def keepsSource_def Let_def)
    with action result show ?thesis by (cases "setSubtitleAction [s] assets a") simp
  next
    case (error e)
    with result show ?thesis by simp
  next
    case (burn i j d ss' aa' track k l)
    have i: "i = 0" "src_Compatible s" "j < length assets" using burnCandidate_Some [OF burn(3)] by auto
    note applied = applyPlaybackDecision_at [OF burn(5)] applyPlaybackDecision_keeps [OF burn(5) [unfolded i] i(2)]
    from i applied burn(1,2,6) result show ?thesis by auto
  qed
  then show "keepsSource s ss"
    "if burnSelected subtitles then allow \<and> src_Mode (ss ! 0) = processingTranscode else src_Mode (ss ! 0) = src_Mode s"
    by blast+
qed

text \<open>
  C28. From the reference to the session: \<open>resolve\<close> with a preparation built for its request yields one
  compatible source, which is the selected one; without the permission to transcode it is never a
  transcode, whatever audio track and subtitle are preferred; at most one subtitle is the default, and
  when it must be burned the source is a transcode; every subtitle finds its asset in the session.
\<close>

theorem sessionMedia_keeps_policy:
  assumes built: "buildPreparedPlayback urlParse parse report processor fetchAll bitrate reference [policy] = Inr p"
    and request: "pol_allowTranscoding policy = ri_AllowTranscoding input" "pol_externalPlayer policy = ri_ExternalPlayer input"
    and tracks: "tracksDistinct (pp_source p)"
    and session: "sessionMedia report' maximumHeight bitrate' reference p input = Inr (sources, subtitles, assets)"
  shows "\<exists>s. sources = [s] \<and> src_Compatible s \<and> firstCompatibleSource sources = src_ID (ref_Source reference) \<and>
    (\<not> ri_AllowTranscoding input \<longrightarrow> src_Mode s \<in> {''direct'', processingRemux, src_Mode (ref_Source reference)}) \<and>
    oneDefault (pp_subtitles p) subtitles \<and>
    (burnSelected subtitles \<and> \<not> ri_ExternalPlayer input \<longrightarrow> ri_AllowTranscoding input \<and> src_Mode s = processingTranscode) \<and>
    sub_ID ` set subtitles \<subseteq> sa_ID ` set assets"
proof -
  let ?input = "sessionInput report' maximumHeight bitrate' reference input"
  have input: "ri_ExternalPlayer ?input = ri_ExternalPlayer input" "ri_AllowTranscoding ?input = ri_AllowTranscoding input"
    by (simp_all add: sessionInput_def Let_def)
  have p: "preparedFrom reference policy p"
    using preparedFrom_built [OF built] by (simp add: preparationPolicy_def)
  then have source: "src_Compatible (pp_source p)" "src_ID (pp_source p) = src_ID (ref_Source reference)" "src_ID (pp_source p) \<noteq> []"
    unfolding preparedFrom_def by blast+
  let ?sassets = "map (\<lambda>a. (cloneStoredAsset a)\<lparr>sa_StartSeconds := ri_StartSeconds ?input\<rparr>) (pp_subtitleAssets p)"
  let ?assets0 = "case pp_asset p of None \<Rightarrow> [] | Some asset \<Rightarrow>
    [startAssetAt (ri_StartSeconds input) (cap_HLSSegmentContainer (ref_Capabilities reference)) asset]"
  obtain err1 sources1 assets1 where first: "(if ri_ExternalPlayer input then (None, [pp_source p], ?assets0)
      else applyPlaybackPreferences [pp_source p] ?assets0 ?input) = (err1, sources1, assets1)"
    by (metis prod_cases3)
  obtain err2 marked where marked: "applySubtitlePreference (pp_subtitles p) (ri_PreferredSubtitleID ?input)
      (ri_PreferredForcedSubtitleLanguage ?input) (ri_PreferredSubtitleLanguage ?input) = (err2, marked)"
    by (metis surj_pair)
  obtain err3 sources2 assets2 where second: "(if ri_ExternalPlayer input then (None, sources1, assets1)
      else applySubtitleDecision sources1 assets1 marked ?sassets (ri_Capabilities ?input) (ri_AllowTranscoding input)) =
      (err3, sources2, assets2)"
    by (metis prod_cases3)
  have none: "err1 = None" "err2 = None" "err3 = None" "marked = subtitles" "sources2 = sources" "assets = assets2 @ ?sassets"
    using session unfolding sessionMedia_def Let_def input cloneSource_id first marked
    by (auto simp: second split: option.splits)
  have sassets: "map sa_ID ?sassets = map sa_ID (pp_subtitleAssets p)"
    by (simp add: comp_def cloneStoredAsset_def)
  have kept1: "keepsSource (pp_source p) sources1" "\<not> ri_AllowTranscoding input \<Longrightarrow>
      src_Mode (sources1 ! 0) \<in> {''direct'', processingRemux, src_Mode (ref_Source reference)}"
    using first none p request applyPlaybackPreferences_single [of "pp_source p" ?assets0 ?input sources1 assets1]
    by (auto simp: input preparedFrom_def keepsSource_def split: if_splits)
  then obtain s1 where s1: "sources1 = [s1]" by (auto simp: keepsSource_def length_Suc_conv)
  have kept2: "keepsSource s1 sources" "\<not> ri_ExternalPlayer input \<Longrightarrow>
      (if burnSelected subtitles then ri_AllowTranscoding input \<and> src_Mode (sources ! 0) = processingTranscode else src_Mode (sources ! 0) = src_Mode s1)"
    "ri_ExternalPlayer input \<Longrightarrow> sources = [s1]"
    using second none applySubtitleDecision_single [of s1 assets1 subtitles ?sassets "ri_Capabilities ?input" "ri_AllowTranscoding input" sources assets2]
    by (auto simp: s1 keepsSource_def split: if_splits)
  then obtain s where s: "sources = [s]" by (auto simp: keepsSource_def length_Suc_conv)
  have facts: "src_Compatible s" "src_ID s = src_ID (ref_Source reference)" "src_ID s \<noteq> []"
    using kept1(1) kept2(1) source by (auto simp: s s1 keepsSource_def)
  note selects = applySubtitlePreference_marks [OF marked]
  then have one: "oneDefault (pp_subtitles p) subtitles" unfolding none by blast
  have "map sub_ID (clearSubtitleDefaults x) = map sub_ID x" for x
    by (simp add: clearSubtitleDefaults_def comp_def)
  with one have "map sub_ID subtitles = map sub_ID (pp_subtitles p)"
    unfolding oneDefault_def by metis
  moreover have "map sub_ID (pp_subtitles p) = map sa_ID (pp_subtitleAssets p)"
    using buildPreparedPlayback_policy [OF built tracks] by blast
  ultimately have ids: "map sub_ID subtitles = map sa_ID ?sassets"
    using sassets by (simp only:)
  have "sub_ID ` set subtitles \<subseteq> sa_ID ` set assets"
    unfolding none(6) list.set_map [symmetric] unfolding map_append ids unfolding set_append by (rule Un_upper2)
  moreover have "\<not> ri_ExternalPlayer input \<Longrightarrow> burnSelected subtitles \<Longrightarrow> ri_AllowTranscoding input \<and> src_Mode s = processingTranscode"
    using kept2(2) s by simp
  moreover have "\<not> ri_AllowTranscoding input \<Longrightarrow> src_Mode s = src_Mode s1"
    using kept2(2,3) s by (cases "ri_ExternalPlayer input") (auto split: if_splits)
  ultimately show ?thesis
    using one facts kept1(2) by (auto simp: s s1 firstCompatibleSource_def)
qed

section \<open>A concrete request\<close>

text \<open>The file of \<^const>\<open>trackMedia\<close>, one external subtitle, and a client without the permission to transcode.\<close>

definition serviceURL :: "string \<Rightarrow> URL option" where
  "serviceURL raw = Some (zeroURL\<lparr>url_Scheme := ''https'', url_Host := ''a'', url_Path := ''/s.srt''\<rparr>)"

definition serviceSubtitles :: "string \<Rightarrow> addon_error + ProviderSubtitle list" where
  "serviceSubtitles payload = Inr [\<lparr>psub_ID = ''1'', psub_URL = ''https://a/s.srt'', psub_Language = ''en'', psub_Forced = False\<rparr>]"

definition serviceReport :: processorReport where
  "serviceReport = \<lparr>proc_TranscodeCapabilities = Some (cap_transcodeCapabilities exampleClient), proc_ToneMapBackend = Some (cap_toneMapBackend exampleClient),
     proc_ToneMapMaximumHeight = None\<rparr>"

definition serviceFetch :: "ResourcePath \<Rightarrow> access_error + ResourceBatch" where
  "serviceFetch path = Inr \<lparr>rb_Results = [\<lparr>rr_AddonID = ''subs'', rr_ManifestID = ''m'', rr_AddonName = [], rr_Payload = []\<rparr>], rb_Errors = []\<rparr>"

definition servicePolicy :: playbackPolicy where
  "servicePolicy = \<lparr>pol_allowTranscoding = True, pol_maximumHeight = 480, pol_bitrateKbps = 4000, pol_externalPlayer = False\<rparr>"

definition serviceReference :: sourceReference where
  "serviceReference = exampleReference\<lparr>ref_ID := ''r1'', ref_Source := exampleSource, ref_Asset := Some (zeroStoredAsset\<lparr>sa_ID := src_ID exampleSource\<rparr>),
     ref_Capabilities := trackClient\<rparr>"

definition serviceProbe :: "nat \<Rightarrow> storedAsset \<Rightarrow> playback_error + MediaInspection" where
  "serviceProbe k asset = Inr trackMedia"

definition serviceAsset :: storedAsset where
  "serviceAsset = cloneStoredAsset (zeroStoredAsset\<lparr>sa_ID := src_ID exampleSource\<rparr>)"

definition serviceCapabilities :: Capabilities where
  "serviceCapabilities = preparationCapabilities serviceReport serviceReference servicePolicy"

definition serviceInput :: ResolveInput where
  "serviceInput = trackInput\<lparr>ri_PreferredAudioTrack := None, ri_PreferredSubtitleID := ''none'', ri_AllowTranscoding := True\<rparr>"

lemma service_plan:
  "case firstBest (planRank (prefersDirect serviceCapabilities)) (sourcePlans serviceProbe [exampleSource] [serviceAsset] serviceCapabilities [True]) of
     None \<Rightarrow> False | Some plan \<Rightarrow> sc_sourceIndex (pl_candidate plan) = 0 \<and> pl_mode plan = processingTranscode \<and>
       pl_inspection plan = trackMedia \<and> pl_decision plan \<noteq> None"
  by code_simp

lemma service_facts: "\<not> list_ex openedElsewhere [exampleSource]" "src_ID exampleSource \<noteq> []" "isCandidate [serviceAsset] exampleSource"
  "case src_Media exampleSource of None \<Rightarrow> True | Some _ \<Rightarrow> True" "preparationPolicy 4000 serviceReference [servicePolicy] = servicePolicy"
  "primaryTrack (mi_VideoTracks trackMedia) = Some exampleTrack"
  by code_simp+

lemma service_decided:
  obtains s aa where "preparedSource (Some serviceProbe) servicePolicy serviceCapabilities [exampleSource] [serviceAsset] = Inr ([s], aa)"
    "src_Mode s = processingTranscode" "src_Media s = Some trackMedia" "src_Decision s \<noteq> None" "src_Compatible s" "src_ID s \<noteq> []"
proof -
  obtain plan where plan: "firstBest (planRank (prefersDirect serviceCapabilities))
      (sourcePlans serviceProbe [exampleSource] [serviceAsset] serviceCapabilities [True]) = Some plan"
    "sc_sourceIndex (pl_candidate plan) = 0" "pl_mode plan = processingTranscode" "pl_inspection plan = trackMedia" "pl_decision plan \<noteq> None"
    using service_plan by (auto split: option.splits)
  let ?ss = "fold (probedSources serviceProbe [serviceAsset]) (enumerate 0 (rankedCandidates [serviceAsset] [exampleSource]))
    [withdrawn [serviceAsset] exampleSource]"
  obtain s1 where s1: "?ss = [s1]" "src_ID s1 = src_ID exampleSource"
    using probed_single [OF refl, of serviceProbe "[serviceAsset]" "enumerate 0 (rankedCandidates [serviceAsset] [exampleSource])"
      "withdrawn [serviceAsset] exampleSource"] by (auto simp: withdrawn_def)
  let ?s = "applyDecisionToSource trackMedia processingTranscode (pl_decision plan) s1"
  obtain aa where "decidePlaybackSource (Some serviceProbe) [exampleSource] [serviceAsset] serviceCapabilities [True] = (None, [?s], aa)"
    using plan s1 by (simp add: decidePlaybackSource_open [OF service_facts(1)] Let_def)
  then obtain aa' where "preparedSource (Some serviceProbe) servicePolicy serviceCapabilities [exampleSource] [serviceAsset] = Inr ([?s], aa')"
    by (simp add: preparedSource_def servicePolicy_def)
  with that plan(5) s1(2) service_facts(2) show thesis
    by (simp add: applyDecisionToSource_fields)
qed

definition servicePreparation :: "playback_error + preparedPlayback" where
  "servicePreparation = buildPreparedPlayback serviceURL serviceSubtitles serviceReport (Some serviceProbe) serviceFetch 4000
     serviceReference [servicePolicy]"

lemma service_prepared:
  obtains p where "servicePreparation = Inr p" "src_Mode (pp_source p) = processingTranscode" "src_Media (pp_source p) = Some trackMedia"
    "src_Decision (pp_source p) \<noteq> None"
proof (rule service_decided)
  fix s aa
  assume prepared: "preparedSource (Some serviceProbe) servicePolicy serviceCapabilities [exampleSource] [serviceAsset] = Inr ([s], aa)"
    and s: "src_Mode s = processingTranscode" "src_Media s = Some trackMedia" "src_Decision s \<noteq> None" "src_Compatible s" "src_ID s \<noteq> []"
  have reference: "ref_Source serviceReference = exampleSource"
    "(case ref_Asset serviceReference of None \<Rightarrow> [] | Some asset \<Rightarrow> [cloneStoredAsset asset]) = [serviceAsset]"
    by (simp_all add: serviceReference_def serviceAsset_def)
  have "hasCompatibleSource [s]"
    using s by (simp add: hasCompatibleSource_def firstCompatibleSource_def)
  then have "\<exists>p. servicePreparation = Inr p \<and> pp_source p = s"
    using prepared by (simp add: servicePreparation_def buildPreparedPlayback_def service_facts(5) reference Let_def
        serviceCapabilities_def [symmetric] split: prod.split)
  with s that show thesis by auto
qed

theorem buildPreparedPlayback_keeps_policy_witness:
  "\<exists>p d. servicePreparation = Inr p \<and> src_Mode (pp_source p) = processingTranscode \<and> src_Decision (pp_source p) = Some d \<and>
     deliveredHeight exampleTrack d \<le> 480 \<and> distinct (map sub_ID (pp_subtitles p))"
proof (rule service_prepared)
  fix p assume p: "servicePreparation = Inr p" "src_Mode (pp_source p) = processingTranscode" "src_Media (pp_source p) = Some trackMedia"
    "src_Decision (pp_source p) \<noteq> None"
  have tracks: "tracksDistinct (pp_source p)"
    using p(3) by (simp add: tracksDistinct_def trackMedia_def in_int64_def)
  have reference: "ref_Asset serviceReference = Some (zeroStoredAsset\<lparr>sa_ID := src_ID exampleSource\<rparr>)" "ref_Source serviceReference = exampleSource"
    by (simp_all add: serviceReference_def)
  have policy: "pol_maximumHeight servicePolicy = 480" "\<not> pol_externalPlayer servicePolicy"
    by (simp_all add: servicePolicy_def)
  have mode: "processingTranscode \<noteq> ''direct''"
    by simp
  obtain d where d: "src_Decision (pp_source p) = Some d" using p(4) by blast
  note facts = buildPreparedPlayback_keeps_policy [OF p(1) [unfolded servicePreparation_def] tracks, unfolded service_facts(5)]
  have "withinLimit 480 (deliveredHeight exampleTrack d)"
    using facts [THEN conjunct2, THEN conjunct2, THEN conjunct2, THEN conjunct2, THEN conjunct2, THEN spec, THEN spec, THEN spec, THEN spec,
      THEN spec, THEN mp, of serviceProbe "zeroStoredAsset\<lparr>sa_ID := src_ID exampleSource\<rparr>" trackMedia d exampleTrack]
      p(2,3) d reference policy mode service_facts(3,6) by (simp add: serviceAsset_def)
  moreover have "distinct (map sub_ID (pp_subtitles p))"
    using facts by blast
  ultimately show ?thesis
    using p d by (auto simp: withinLimit_def)
qed

lemma sessionMedia_plain:
  assumes "src_Mode (pp_source p) = processingTranscode" "ri_PreferredAudioTrack input = None" "ri_PreferredSubtitleID input = ''none''"
  shows "\<exists>result. sessionMedia report maximumHeight bitrate reference p input = Inr result"
proof -
  let ?input = "sessionInput report maximumHeight bitrate reference input"
  have input: "ri_PreferredAudioTrack ?input = None" "ri_PreferredSubtitleID ?input = ''none''" "ri_ExternalPlayer ?input = ri_ExternalPlayer input"
    using assms(2,3) by (simp_all add: sessionInput_def Let_def)
  have prefs: "\<exists>ss aa. applyPlaybackPreferences [pp_source p] assets ?input = (None, ss, aa)" for assets
    using assms(1) input(1)
    by (auto simp: applyPlaybackPreferences_def preferredAudioTrack_def remuxTrack_def audioSwitch_def Let_def split: option.split prod.split)
  obtain err marked where marked: "applySubtitlePreference (pp_subtitles p) ''none'' (ri_PreferredForcedSubtitleLanguage ?input)
      (ri_PreferredSubtitleLanguage ?input) = (err, marked)"
    by (metis surj_pair)
  from applySubtitlePreference_marks [OF this] have none: "err = None" "selectedSubtitle marked = []" by simp_all
  then have decision: "\<exists>ss aa'. applySubtitleDecision sources aa marked sa c b = (None, ss, aa')" for sources aa sa c b
    by (simp add: applySubtitleDecision_def)
  let ?assets0 = "case pp_asset p of None \<Rightarrow> [] | Some asset \<Rightarrow>
    [startAssetAt (ri_StartSeconds input) (cap_HLSSegmentContainer (ref_Capabilities reference)) asset]"
  let ?sassets = "map (\<lambda>a. (cloneStoredAsset a)\<lparr>sa_StartSeconds := ri_StartSeconds ?input\<rparr>) (pp_subtitleAssets p)"
  obtain s1 a1 where first: "(if ri_ExternalPlayer input then (None, [pp_source p], ?assets0)
      else applyPlaybackPreferences [pp_source p] ?assets0 ?input) = (None, s1, a1)"
    using prefs [of ?assets0] by (cases "ri_ExternalPlayer input") auto
  obtain s2 a2 where second: "(if ri_ExternalPlayer input then (None, s1, a1)
      else applySubtitleDecision s1 a1 marked ?sassets (ri_Capabilities ?input) (ri_AllowTranscoding ?input)) = (None, s2, a2)"
    using decision [of s1 a1 ?sassets "ri_Capabilities ?input" "ri_AllowTranscoding ?input"] by (cases "ri_ExternalPlayer input") auto
  have "sessionMedia report maximumHeight bitrate reference p input = Inr (s2, marked, a2 @ ?sassets)"
    unfolding sessionMedia_def Let_def input cloneSource_id first marked none prod.case option.case second by (rule refl)
  then show ?thesis by blast
qed

theorem sessionMedia_keeps_policy_witness:
  "\<exists>p sources subtitles assets s. servicePreparation = Inr p \<and>
     sessionMedia serviceReport 480 4000 serviceReference p serviceInput = Inr (sources, subtitles, assets) \<and> sources = [s] \<and>
     src_Compatible s \<and> oneDefault (pp_subtitles p) subtitles"
proof (rule service_prepared)
  fix p assume p: "servicePreparation = Inr p" "src_Mode (pp_source p) = processingTranscode" "src_Media (pp_source p) = Some trackMedia"
  have tracks: "tracksDistinct (pp_source p)"
    using p(3) by (simp add: tracksDistinct_def trackMedia_def in_int64_def)
  have request: "pol_allowTranscoding servicePolicy = ri_AllowTranscoding serviceInput" "pol_externalPlayer servicePolicy = ri_ExternalPlayer serviceInput"
    by (simp_all add: servicePolicy_def serviceInput_def trackInput_def)
  obtain sources subtitles assets where session: "sessionMedia serviceReport 480 4000 serviceReference p serviceInput = Inr (sources, subtitles, assets)"
    using sessionMedia_plain [OF p(2), of serviceInput serviceReport 480 4000 serviceReference] by (auto simp: serviceInput_def)
  from sessionMedia_keeps_policy [OF p(1) [unfolded servicePreparation_def] request tracks session] p(1) session show ?thesis
    by blast
qed

text \<open>A reference to a stream of an addon that answers with a new URL for it.\<close>

definition refreshSource :: Source where
  "refreshSource = zeroSource\<lparr>src_ID := ''stream-1'', src_AddonID := ''a'', src_ManifestID := ''m'', src_Mode := ''direct'', src_URL := ''http://old''\<rparr>"

definition refreshStore :: sourceReferenceStore where
  "refreshStore = snd (putAllReserved exampleIdentifier (\<lambda>k. 0) exampleCaller [exampleReference\<lparr>ref_Source := refreshSource\<rparr>] False
     newSourceReferenceStore)"

definition refreshReference :: sourceReference where
  "refreshReference = the (lookupReference refreshStore (replicate 16 (CHR ''a'')))"

definition refreshState :: serviceState where
  "refreshState = \<lparr>svc_references = refreshStore, svc_preparations = startPreparations, svc_probes = startProbes\<rparr>"

definition refreshStream :: ProviderStream where
  "refreshStream = \<lparr>ps_Name = ''n'', ps_Title = [], ps_URL = ''http://new'', ps_Description = [], ps_YTID = [], ps_ExternalURL = [],
     ps_InfoHash = [], ps_FileIndex = None, ps_NotWebReady = False, ps_Filename = [], ps_RequestHeaders = []\<rparr>"

definition refreshFetch :: "Principal \<Rightarrow> string \<Rightarrow> ResourcePath \<Rightarrow> access_error + ResourceResult" where
  "refreshFetch caller addonID path = Inr \<lparr>rr_AddonID = ''a'', rr_ManifestID = ''m'', rr_AddonName = [], rr_Payload = []\<rparr>"

definition refreshResult :: "(playback_error + sourceReference) \<times> serviceState" where
  "refreshResult = refreshSourceReference serviceURL (\<lambda>payload. Inr [refreshStream]) (\<lambda>text. text) (\<lambda>asset. sa_URL asset)
     (\<lambda>caller addonID. None) refreshFetch (\<lambda>k. 5) exampleCaller refreshReference refreshState"

lemma refresh_example:
  "case fst refreshResult of Inl _ \<Rightarrow> False | Inr r \<Rightarrow> ref_TransportRevision r = 2 \<and> src_URL (ref_Source r) = ''http://new''"
  "ref_ID refreshReference = replicate 16 (CHR ''a'')" "ref_TransportRevision refreshReference = 1"
  "TrimSpace (src_AddonID (ref_Source refreshReference)) \<noteq> []"
  "lookupReference refreshStore (replicate 16 (CHR ''a'')) \<noteq> None"
  by code_simp+

theorem refreshSourceReference_consistent_witness:
  "\<exists>r. fst refreshResult = Inr r \<and> lookupReference (svc_references (snd refreshResult)) (ref_ID refreshReference) = Some r \<and>
     unat (ref_SelectionRevision r) = unat (ref_SelectionRevision refreshReference) + 1 \<and>
     staleGone (\<lambda>asset. sa_URL asset) refreshReference (snd refreshResult)"
proof -
  have "service_step startService (startService\<lparr>svc_references := refreshStore\<rparr>)"
    unfolding refreshStore_def by (rule service_step.references) (simp add: startService_def store_step.put)
  then have reach: "service_step\<^sup>*\<^sup>* startService refreshState"
    by (simp add: refreshState_def startService_def r_into_rtranclp)
  have current: "lookupReference (svc_references refreshState) (ref_ID refreshReference) = Some refreshReference"
    using refresh_example(5) by (simp add: refreshState_def refresh_example(2)) (simp add: refreshReference_def)
  obtain r where r: "fst refreshResult = Inr r" "ref_TransportRevision r = 2"
    using refresh_example(1) by (auto split: sum.splits)
  have "refreshed (\<lambda>asset. sa_URL asset) 5 refreshReference refreshState (Inr r) (snd refreshResult)"
    using refreshSourceReference_consistent [OF reach current refresh_example(4), of serviceURL "\<lambda>payload. Inr [refreshStream]" "\<lambda>text. text"
        "\<lambda>asset. sa_URL asset" "\<lambda>caller addonID. None" refreshFetch "\<lambda>k. 5" exampleCaller "Inr r" "snd refreshResult"]
      r(1) by (simp add: refreshResult_def prod_eq_iff)
  with r refresh_example(3) show ?thesis
    by (auto simp: refreshed_def split: option.splits if_splits)
qed

end
