(* ===== verification/Playback_Failover.thy ===== *)
theory Playback_Failover
  imports Source_Store
begin

text \<open>
  Source failover, \<open>server/internal/playback/failover.go\<close>: a client that gives an ordered list of
  candidate sources asks the server which one to play next each time the current one fails. The state
  is a row of the table \<open>playback_source_failovers\<close> (\<open>000086_playback_source_failover.sql\<close>), modelled as
  a list of rows with distinct ids; a method is one transaction, so it either returns an updated table
  or an error with the table unchanged.

  The database is the list of rows and, for what it decides itself, parameters: \<open>dbnow\<close> is its
  \<open>now()\<close>, \<open>newID\<close> its \<open>gen_random_uuid()\<close>, \<open>locked\<close> the rows another transaction holds, and \<open>fault k\<close>
  the error of the \<open>k\<close>-th statement of the transaction (its commit included), \<^const>\<open>None\<close> when it
  succeeds. The profile authorisation of package \<open>auth\<close> is the parameter \<open>authorize\<close>.
\<close>

section \<open>Data\<close>

definition maximumFailoverCandidates :: nat where
  "maximumFailoverCandidates = 8"

definition maximumFailoverAttempts :: int where
  "maximumFailoverAttempts = 3"

definition failoverTTL :: int where
  "failoverTTL = 5 * 3600 * 1000000000"

definition maximumFailoversPerAuthSession :: nat where
  "maximumFailoversPerAuthSession = 16"

definition failoverCleanupBatchSize :: nat where
  "failoverCleanupBatchSize = 500"

definition failoverCooldown :: int where
  "failoverCooldown = 5 * 60 * 1000000000"

datatype failover_error =
    FailoverNotFound | FailoverConflict | FailoverIneligible
  | Playback playback_error

record CreateFailoverInput =
  ci_CandidateSourceRefs :: "string list"
  ci_SelectedSourceRef :: string
  ci_MaximumAttempts :: int

record AdvanceFailoverInput =
  ai_Error :: string
  ai_PositionSeconds :: float64
  ai_ExpectedRevision :: int

record FailoverCandidateHealth =
  ch_Position :: nat
  ch_Status :: string
  ch_CooldownUntil :: "int option"

record FailoverState =
  fs_ID :: string
  fs_CurrentSourceRef :: string
  fs_CurrentPosition :: int
  fs_PositionSeconds :: float64
  fs_AttemptCount :: int
  fs_MaximumAttempts :: int
  fs_Revision :: int
  fs_Status :: string
  fs_LastError :: string
  fs_Explanation :: string
  fs_CandidateHealth :: "FailoverCandidateHealth list"
  fs_ExpiresAt :: int

record failoverRecord =
  fr_ID :: string
  fr_Candidates :: "string list"
  fr_FailedCandidates :: "string list"
  fr_CurrentSourceRef :: string
  fr_PositionSeconds :: float64
  fr_AttemptCount :: int
  fr_MaximumAttempts :: int
  fr_Revision :: int
  fr_Status :: string
  fr_LastError :: string
  fr_UpdatedAt :: int
  fr_ExpiresAt :: int

text \<open>A row: what the code reads back as a \<open>failoverRecord\<close>, and its owner and creation time.\<close>

record failoverRow =
  row_record :: failoverRecord
  row_AuthSessionID :: string
  row_ProfileID :: string
  row_CreatedAt :: int

section \<open>One record\<close>

fun candidateIndex :: "string list \<Rightarrow> string \<Rightarrow> int" where
  "candidateIndex [] v = -1"
| "candidateIndex (c # cs) v = (if c = v then 0 else let i = candidateIndex cs v in if i < 0 then -1 else i + 1)"

definition appendUnique :: "string list \<Rightarrow> string \<Rightarrow> string list" where
  "appendUnique values v = (if candidateIndex values v \<ge> 0 then values else values @ [v])"

definition validFailoverError :: "string \<Rightarrow> bool" where
  "validFailoverError v \<longleftrightarrow> v \<in> {''source_failed'', ''source_timeout'', ''ended_early'', ''decode_failed'', ''access_denied'', ''user_cancelled''}"

definition eligibleFailoverError :: "string \<Rightarrow> bool" where
  "eligibleFailoverError v \<longleftrightarrow> v = ''source_failed'' \<or> v = ''source_timeout'' \<or> v = ''ended_early''"

text \<open>The loop over the candidates after the current one.\<close>

fun nextCandidate :: "string list \<Rightarrow> string list \<Rightarrow> string option" where
  "nextCandidate failed [] = None"
| "nextCandidate failed (c # cs) = (if candidateIndex failed c \<ge> 0 then nextCandidate failed cs else Some c)"

definition advanceFailoverRecord :: "failoverRecord \<Rightarrow> string \<Rightarrow> float64 \<Rightarrow> int \<Rightarrow> failoverRecord \<times> bool" where
  "advanceFailoverRecord record0 failure position now =
     (let r = record0\<lparr>fr_FailedCandidates := appendUnique (fr_FailedCandidates record0) (fr_CurrentSourceRef record0),
            fr_PositionSeconds := position, fr_AttemptCount := fr_AttemptCount record0 + 1,
            fr_Revision := fr_Revision record0 + 1, fr_LastError := failure, fr_UpdatedAt := now\<rparr>
      in if fr_AttemptCount r > fr_MaximumAttempts r then
           (r\<lparr>fr_AttemptCount := fr_MaximumAttempts r, fr_Status := ''exhausted''\<rparr>, False)
         else
           (let current = candidateIndex (fr_Candidates r) (fr_CurrentSourceRef r)
            in case nextCandidate (fr_FailedCandidates r) (drop (nat (current + 1)) (fr_Candidates r)) of
                 Some c \<Rightarrow> (r\<lparr>fr_CurrentSourceRef := c\<rparr>, True)
               | None \<Rightarrow> (r\<lparr>fr_Status := ''exhausted''\<rparr>, False)))"

definition candidateHealth :: "failoverRecord \<Rightarrow> nat \<times> string \<Rightarrow> FailoverCandidateHealth" where
  "candidateHealth r item =
     (case item of (index, candidate) \<Rightarrow>
        if candidate \<in> set (fr_FailedCandidates r) then
          \<lparr>ch_Position = index, ch_Status = ''cooling_down'', ch_CooldownUntil = Some (fr_UpdatedAt r + failoverCooldown)\<rparr>
        else if candidate = fr_CurrentSourceRef r then
          \<lparr>ch_Position = index, ch_Status = ''current'', ch_CooldownUntil = None\<rparr>
        else \<lparr>ch_Position = index, ch_Status = ''available'', ch_CooldownUntil = None\<rparr>)"

definition projectFailover :: "failoverRecord \<Rightarrow> FailoverState" where
  "projectFailover r =
     \<lparr>fs_ID = fr_ID r, fs_CurrentSourceRef = fr_CurrentSourceRef r,
      fs_CurrentPosition = candidateIndex (fr_Candidates r) (fr_CurrentSourceRef r),
      fs_PositionSeconds = fr_PositionSeconds r, fs_AttemptCount = fr_AttemptCount r,
      fs_MaximumAttempts = fr_MaximumAttempts r, fs_Revision = fr_Revision r, fs_Status = fr_Status r,
      fs_LastError = fr_LastError r, fs_Explanation = [],
      fs_CandidateHealth = map (candidateHealth r) (enumerate 0 (fr_Candidates r)),
      fs_ExpiresAt = fr_ExpiresAt r\<rparr>"

section \<open>Authorisation and reading\<close>

text \<open>\<open>service.go\<close>: the active profile and its grant, then the authorisation in the database.\<close>

definition beginAuthorizedProfileTx :: "(Principal \<Rightarrow> playback_error option) \<Rightarrow> int \<Rightarrow> Principal \<Rightarrow> playback_error option" where
  "beginAuthorizedProfileTx authorize now caller =
     (if pr_ActiveProfileID caller = None then Some ErrActiveProfileRequired
      else case pr_ProfileGrantExpiresAt caller of None \<Rightarrow> Some ErrActiveProfileRequired
        | Some expires \<Rightarrow> if \<not> now < expires then Some ErrActiveProfileRequired else authorize caller)"

definition ownedRow :: "Principal \<Rightarrow> failoverRow \<Rightarrow> bool" where
  "ownedRow caller row \<longleftrightarrow>
     row_AuthSessionID row = pr_SessionID caller \<and> Some (row_ProfileID row) = pr_ActiveProfileID caller"

definition liveRow :: "int \<Rightarrow> int \<Rightarrow> failoverRow \<Rightarrow> bool" where
  "liveRow dbnow startedAt row \<longleftrightarrow> dbnow < fr_ExpiresAt (row_record row) \<and> startedAt \<le> row_CreatedAt row"

definition loadFailover ::
    "int \<Rightarrow> int \<Rightarrow> (nat \<Rightarrow> playback_error option) \<Rightarrow> nat \<Rightarrow> Principal \<Rightarrow> string \<Rightarrow> failoverRow list \<Rightarrow> failover_error + failoverRecord" where
  "loadFailover dbnow startedAt fault k caller identifier table =
     (if length identifier \<noteq> 36 then Inl FailoverNotFound
      else case fault k of Some err \<Rightarrow> Inl (Playback err)
      | None \<Rightarrow>
          (case find (\<lambda>row. fr_ID (row_record row) = identifier \<and> ownedRow caller row \<and> liveRow dbnow startedAt row) table of
             None \<Rightarrow> Inl FailoverNotFound | Some row \<Rightarrow> Inr (row_record row)))"

definition Failover ::
    "(Principal \<Rightarrow> playback_error option) \<Rightarrow> int \<Rightarrow> int \<Rightarrow> int \<Rightarrow> (nat \<Rightarrow> playback_error option) \<Rightarrow> Principal \<Rightarrow> string \<Rightarrow>
     failoverRow list \<Rightarrow> failover_error + FailoverState" where
  "Failover authorize now dbnow startedAt fault caller identifier table =
     (case beginAuthorizedProfileTx authorize now caller of Some err \<Rightarrow> Inl (Playback err)
      | None \<Rightarrow>
          (case loadFailover dbnow startedAt fault 0 caller (TrimSpace identifier) table of Inl err \<Rightarrow> Inl err
           | Inr r \<Rightarrow> (case fault 1 of Some err \<Rightarrow> Inl (Playback err) | None \<Rightarrow> Inr (projectFailover r))))"

section \<open>Cleaning up\<close>

text \<open>Rows in the order \<open>ORDER BY key, id\<close>.\<close>

definition rowLess :: "(failoverRow \<Rightarrow> int) \<Rightarrow> failoverRow \<Rightarrow> failoverRow \<Rightarrow> bool" where
  "rowLess key a b \<longleftrightarrow> key a < key b \<or> key a = key b \<and> fr_ID (row_record a) < fr_ID (row_record b)"

definition takeRows :: "(failoverRow \<Rightarrow> int) \<Rightarrow> nat \<Rightarrow> (failoverRow \<Rightarrow> bool) \<Rightarrow> failoverRow list \<Rightarrow> failoverRow list" where
  "takeRows key limit P table = take limit (SliceStable (rowLess key) (filter P table))"

definition expiredRow :: "int \<Rightarrow> failoverRow \<Rightarrow> bool" where
  "expiredRow dbnow row \<longleftrightarrow> fr_ExpiresAt (row_record row) \<le> dbnow"

definition terminalRow :: "failoverRow \<Rightarrow> bool" where
  "terminalRow row \<longleftrightarrow> fr_Status (row_record row) \<in> {''exhausted'', ''cancelled''}"

definition staleRow :: "int \<Rightarrow> failoverRow \<Rightarrow> bool" where
  "staleRow startedAt row \<longleftrightarrow> fr_Status (row_record row) = ''active'' \<and> row_CreatedAt row < startedAt"

definition rowIDs :: "failoverRow list \<Rightarrow> string set" where
  "rowIDs rows = (\<lambda>row. fr_ID (row_record row)) ` set rows"

definition cleanupCandidates :: "int \<Rightarrow> int \<Rightarrow> (string \<Rightarrow> bool) \<Rightarrow> failoverRow list \<Rightarrow> failoverRow list" where
  "cleanupCandidates dbnow startedAt locked table =
     (let free = (\<lambda>row. \<not> locked (fr_ID (row_record row)));
          expired = takeRows (\<lambda>row. fr_ExpiresAt (row_record row)) failoverCleanupBatchSize (\<lambda>row. free row \<and> expiredRow dbnow row) table;
          terminal = takeRows (\<lambda>row. fr_UpdatedAt (row_record row)) (failoverCleanupBatchSize - length expired)
            (\<lambda>row. free row \<and> terminalRow row \<and> fr_ID (row_record row) \<notin> rowIDs expired) table;
          stale = takeRows row_CreatedAt (failoverCleanupBatchSize - length expired - length terminal)
            (\<lambda>row. free row \<and> staleRow startedAt row \<and> fr_ID (row_record row) \<notin> rowIDs expired) table
      in take failoverCleanupBatchSize (expired @ terminal @ stale))"

definition cleanupFailoversBatch ::
    "int \<Rightarrow> int \<Rightarrow> (string \<Rightarrow> bool) \<Rightarrow> failoverRow list \<Rightarrow> nat \<times> failoverRow list" where
  "cleanupFailoversBatch dbnow startedAt locked table =
     (let ids = rowIDs (cleanupCandidates dbnow startedAt locked table)
      in (length (filter (\<lambda>row. fr_ID (row_record row) \<in> ids) table),
          filter (\<lambda>row. fr_ID (row_record row) \<notin> ids) table))"

lemma cleanupFailoversBatch_length:
  "fst (cleanupFailoversBatch dbnow startedAt locked table) + length (snd (cleanupFailoversBatch dbnow startedAt locked table)) = length table"
  using sum_length_filter_compl
    [of "\<lambda>row. fr_ID (row_record row) \<in> rowIDs (cleanupCandidates dbnow startedAt locked table)" table]
  by (simp add: cleanupFailoversBatch_def Let_def)

text \<open>
  The loop of \<open>cleanupPersistedFailovers\<close>: \<open>cancelled k\<close> and \<open>fault k\<close> are the context's and the
  database's error in iteration \<open>k\<close>, \<open>dbnow k\<close> and \<open>locked k\<close> what its batch sees.
\<close>

function cleanupPersistedFailovers ::
    "(nat \<Rightarrow> playback_error option) \<Rightarrow> (nat \<Rightarrow> playback_error option) \<Rightarrow> (nat \<Rightarrow> int) \<Rightarrow> int \<Rightarrow> (nat \<Rightarrow> string \<Rightarrow> bool) \<Rightarrow> nat \<Rightarrow>
     failoverRow list \<Rightarrow> playback_error option \<times> failoverRow list" where
  "cleanupPersistedFailovers cancelled fault dbnow startedAt locked k table =
     (case cancelled k of Some err \<Rightarrow> (Some err, table)
      | None \<Rightarrow>
          (case fault k of Some err \<Rightarrow> (Some err, table)
           | None \<Rightarrow>
               (let batch = cleanupFailoversBatch (dbnow k) startedAt (locked k) table
                in if fst batch < failoverCleanupBatchSize then (None, snd batch)
                   else cleanupPersistedFailovers cancelled fault dbnow startedAt locked (Suc k) (snd batch))))"
  by pat_completeness auto

termination
proof (relation "measure (\<lambda>(_, _, _, _, _, _, table). length table)")
  fix cancelled fault :: "nat \<Rightarrow> playback_error option" and dbnow :: "nat \<Rightarrow> int" and startedAt :: int
    and locked :: "nat \<Rightarrow> string \<Rightarrow> bool" and k :: nat and table :: "failoverRow list" and batch
  assume "batch = cleanupFailoversBatch (dbnow k) startedAt (locked k) table" "\<not> fst batch < failoverCleanupBatchSize"
  then show "((cancelled, fault, dbnow, startedAt, locked, Suc k, snd batch), cancelled, fault, dbnow, startedAt, locked, k, table)
      \<in> measure (\<lambda>(_, _, _, _, _, _, table). length table)"
    using cleanupFailoversBatch_length [of "dbnow k" startedAt "locked k" table] by (simp add: failoverCleanupBatchSize_def)
qed simp

declare cleanupPersistedFailovers.simps [simp del]

section \<open>Creating\<close>

definition earlierFailoverExpiration :: "int \<Rightarrow> int \<Rightarrow> int" where
  "earlierFailoverExpiration current candidate = (if candidate < current then candidate else current)"

text \<open>
  The loop over the candidates of the input. \<open>clock index\<close> are the clock readings of the store's
  \<open>get\<close> for that candidate; \<open>first\<close> is the resource of the first one.
\<close>

fun checkCandidates ::
    "(nat \<Rightarrow> nat \<Rightarrow> int) \<Rightarrow> Principal \<Rightarrow> string list \<Rightarrow> string list \<Rightarrow> (string \<times> string) option \<Rightarrow> int \<Rightarrow> sourceReferenceStore \<Rightarrow>
     (failover_error + string list \<times> int) \<times> sourceReferenceStore" where
  "checkCandidates clock caller candidates [] first expiresAt store = (Inr (candidates, expiresAt), store)"
| "checkCandidates clock caller candidates (raw # raws) first expiresAt store =
     (let candidate = TrimSpace raw
      in if length candidate < 16 \<or> length candidate > 128 \<or> candidate \<in> set candidates then
           (Inl (Playback ErrInvalidInput), store)
         else case getReference (clock (length candidates)) candidate caller store of
           (Inl err, store1) \<Rightarrow> (Inl (Playback err), store1)
         | (Inr reference, store1) \<Rightarrow>
             if first \<noteq> None \<and> first \<noteq> Some (ref_ResourceID reference, ref_MediaType reference) then
               (Inl (Playback ErrInvalidInput), store1)
             else checkCandidates clock caller (candidates @ [candidate]) raws
               (Some (ref_ResourceID reference, ref_MediaType reference))
               (earlierFailoverExpiration expiresAt (ref_ExpiresAt reference)) store1)"

text \<open>The checks of the migration that created the table.\<close>

definition rowConstraints :: "failoverRow \<Rightarrow> bool" where
  "rowConstraints row \<longleftrightarrow>
     (let r = row_record row
      in 2 \<le> length (fr_Candidates r) \<and> length (fr_Candidates r) \<le> 8 \<and> length (fr_FailedCandidates r) \<le> 8 \<and>
         16 \<le> length (fr_CurrentSourceRef r) \<and> length (fr_CurrentSourceRef r) \<le> 128 \<and>
         (case fr_PositionSeconds r of Finite q \<Rightarrow> 0 \<le> q \<and> q \<le> 86400 | _ \<Rightarrow> False) \<and>
         0 \<le> fr_AttemptCount r \<and> fr_AttemptCount r \<le> 3 \<and> 1 \<le> fr_MaximumAttempts r \<and> fr_MaximumAttempts r \<le> 3 \<and>
         0 < fr_Revision r \<and> fr_Status r \<in> {''active'', ''exhausted'', ''cancelled''} \<and>
         fr_LastError r \<in> {[], ''source_failed'', ''source_timeout'', ''ended_early''} \<and>
         row_CreatedAt row < fr_ExpiresAt r)"

definition constraintError :: failover_error where
  "constraintError = Playback (ErrOther ''check constraint'')"

definition activeCount :: "int \<Rightarrow> int \<Rightarrow> string \<Rightarrow> failoverRow list \<Rightarrow> nat" where
  "activeCount dbnow startedAt sessionID table =
     length (filter (\<lambda>row. row_AuthSessionID row = sessionID \<and> liveRow dbnow startedAt row \<and> fr_Status (row_record row) = ''active'') table)"

definition newFailoverRow :: "string \<Rightarrow> Principal \<Rightarrow> string list \<Rightarrow> int \<Rightarrow> int \<Rightarrow> int \<Rightarrow> failoverRow" where
  "newFailoverRow newID caller candidates maximumAttempts expiresAt createdAt =
     \<lparr>row_record = \<lparr>fr_ID = newID, fr_Candidates = candidates, fr_FailedCandidates = [], fr_CurrentSourceRef = candidates ! 0,
        fr_PositionSeconds = Finite 0, fr_AttemptCount = 0, fr_MaximumAttempts = maximumAttempts, fr_Revision = 1,
        fr_Status = ''active'', fr_LastError = [], fr_UpdatedAt = createdAt, fr_ExpiresAt = expiresAt\<rparr>,
      row_AuthSessionID = pr_SessionID caller, row_ProfileID = the (pr_ActiveProfileID caller), row_CreatedAt = createdAt\<rparr>"

text \<open>
  The transaction of \<open>CreateFailover\<close>: statements 0 to 4 are the lock, the cleanup, the count, the insert
  and the commit. A failed statement, and the capacity error, roll the cleanup back.
\<close>

fun firstFault :: "(nat \<Rightarrow> playback_error option) \<Rightarrow> nat list \<Rightarrow> playback_error option" where
  "firstFault fault [] = None"
| "firstFault fault (k # ks) = (case fault k of Some err \<Rightarrow> Some err | None \<Rightarrow> firstFault fault ks)"

definition insertFailover ::
    "int \<Rightarrow> int \<Rightarrow> (nat \<Rightarrow> playback_error option) \<Rightarrow> (string \<Rightarrow> bool) \<Rightarrow> failoverRow \<Rightarrow> failoverRow list \<Rightarrow>
     (failover_error + FailoverState) \<times> failoverRow list" where
  "insertFailover dbnow startedAt fault locked row table =
     (case firstFault fault [0, 1] of Some err \<Rightarrow> (Inl (Playback err), table)
      | None \<Rightarrow>
          (let table1 = snd (cleanupFailoversBatch dbnow startedAt locked table)
           in case fault 2 of Some err \<Rightarrow> (Inl (Playback err), table)
           | None \<Rightarrow>
               if activeCount dbnow startedAt (row_AuthSessionID row) table1 \<ge> maximumFailoversPerAuthSession then
                 (Inl (Playback ErrMediaCapacityReached), table)
               else if \<not> rowConstraints row then (Inl constraintError, table)
               else (case firstFault fault [3, 4] of Some err \<Rightarrow> (Inl (Playback err), table)
                     | None \<Rightarrow> (Inr (projectFailover (row_record row)), table1 @ [row]))))"

definition CreateFailover ::
    "(Principal \<Rightarrow> playback_error option) \<Rightarrow> (nat \<Rightarrow> int) \<Rightarrow> (nat \<Rightarrow> nat \<Rightarrow> int) \<Rightarrow> int \<Rightarrow> int \<Rightarrow> (nat \<Rightarrow> playback_error option) \<Rightarrow>
     (string \<Rightarrow> bool) \<Rightarrow> string \<Rightarrow> Principal \<Rightarrow> CreateFailoverInput \<Rightarrow> sourceReferenceStore \<Rightarrow> failoverRow list \<Rightarrow>
     (failover_error + FailoverState) \<times> sourceReferenceStore \<times> failoverRow list" where
  "CreateFailover authorize now clock dbnow startedAt fault locked newID caller input store table =
     (if length (ci_CandidateSourceRefs input) < 2 \<or> length (ci_CandidateSourceRefs input) > maximumFailoverCandidates \<or>
         ci_MaximumAttempts input < 0 \<or> ci_MaximumAttempts input > maximumFailoverAttempts then
        (Inl (Playback ErrInvalidInput), store, table)
      else
        (let createdAt = now 0
         in case checkCandidates clock caller [] (ci_CandidateSourceRefs input) None (createdAt + failoverTTL) store of
           (Inl err, store1) \<Rightarrow> (Inl err, store1, table)
         | (Inr (candidates, expiresAt), store1) \<Rightarrow>
             if TrimSpace (ci_SelectedSourceRef input) \<noteq> candidates ! 0 then (Inl (Playback ErrInvalidInput), store1, table)
             else
               (let others = int (length candidates) - 1;
                    maximumAttempts = (if ci_MaximumAttempts input = 0 \<or> ci_MaximumAttempts input > others
                      then min maximumFailoverAttempts others else ci_MaximumAttempts input)
                in case beginAuthorizedProfileTx authorize (now 1) caller of
                     Some err \<Rightarrow> (Inl (Playback err), store1, table)
                   | None \<Rightarrow>
                       (case insertFailover dbnow startedAt fault locked
                          (newFailoverRow newID caller candidates maximumAttempts expiresAt createdAt) table of
                          (result, table1) \<Rightarrow> (result, store1, table1)))))"

section \<open>Advancing and cancelling\<close>

definition updateRows :: "(failoverRow \<Rightarrow> bool) \<Rightarrow> (failoverRow \<Rightarrow> failoverRow) \<Rightarrow> failoverRow list \<Rightarrow> nat \<times> failoverRow list" where
  "updateRows P f table = (length (filter P table), map (\<lambda>row. if P row then f row else row) table)"

text \<open>
  The columns the \<open>UPDATE\<close> of \<open>AdvanceFailover\<close> sets.
\<close>

definition storeAdvance :: "failoverRecord \<Rightarrow> failoverRow \<Rightarrow> failoverRow" where
  "storeAdvance next row = row\<lparr>row_record := (row_record row)\<lparr>fr_FailedCandidates := fr_FailedCandidates next,
     fr_CurrentSourceRef := fr_CurrentSourceRef next, fr_PositionSeconds := fr_PositionSeconds next,
     fr_AttemptCount := fr_AttemptCount next, fr_Revision := fr_Revision next, fr_Status := fr_Status next,
     fr_LastError := fr_LastError next, fr_UpdatedAt := fr_UpdatedAt next\<rparr>\<rparr>"

definition advancedText :: string where
  "advancedText = ''Playback moved to the next available source and resumed at the saved position.''"

definition exhaustedText :: string where
  "exhaustedText = ''No unused source remains within the automatic failover budget.''"

text \<open>The part of \<open>AdvanceFailover\<close> after its checks: the update and the commit.\<close>

definition commitAdvance ::
    "(nat \<Rightarrow> playback_error option) \<Rightarrow> Principal \<Rightarrow> AdvanceFailoverInput \<Rightarrow> int \<Rightarrow> failoverRecord \<Rightarrow> failoverRow list \<Rightarrow>
     (failover_error + FailoverState) \<times> failoverRow list" where
  "commitAdvance fault caller input now r table =
     (case advanceFailoverRecord r (ai_Error input) (ai_PositionSeconds input) now of (next, advanced) \<Rightarrow>
        (let hit = (\<lambda>row. fr_ID (row_record row) = fr_ID r \<and> ownedRow caller row \<and>
               fr_Revision (row_record row) = ai_ExpectedRevision input)
         in case updateRows hit (storeAdvance next) table of (affected, table1) \<Rightarrow>
            (case fault 1 of Some err \<Rightarrow> (Inl (Playback err), table)
             | None \<Rightarrow>
                 if list_ex (\<lambda>row. hit row \<and> \<not> rowConstraints (storeAdvance next row)) table then (Inl constraintError, table)
                 else if affected \<noteq> 1 then (Inl FailoverConflict, table)
                 else (case fault 2 of Some err \<Rightarrow> (Inl (Playback err), table)
                       | None \<Rightarrow> (Inr ((projectFailover next)\<lparr>fs_Explanation := (if advanced then advancedText else exhaustedText)\<rparr>), table1)))))"

definition AdvanceFailover ::
    "(Principal \<Rightarrow> playback_error option) \<Rightarrow> (nat \<Rightarrow> int) \<Rightarrow> int \<Rightarrow> int \<Rightarrow> (nat \<Rightarrow> playback_error option) \<Rightarrow>
     Principal \<Rightarrow> string \<Rightarrow> AdvanceFailoverInput \<Rightarrow> failoverRow list \<Rightarrow> (failover_error + FailoverState) \<times> failoverRow list" where
  "AdvanceFailover authorize now dbnow startedAt fault caller identifier input table =
     (if \<not> validFailoverError (ai_Error input) \<or> float_less (ai_PositionSeconds input) (Finite 0) \<or>
         float_less (Finite 86400) (ai_PositionSeconds input) \<or> ai_ExpectedRevision input < 1 then
        (Inl (Playback ErrInvalidInput), table)
      else if \<not> eligibleFailoverError (ai_Error input) then (Inl FailoverIneligible, table)
      else case beginAuthorizedProfileTx authorize (now 0) caller of Some err \<Rightarrow> (Inl (Playback err), table)
      | None \<Rightarrow>
      case loadFailover dbnow startedAt fault 0 caller (TrimSpace identifier) table of Inl err \<Rightarrow> (Inl err, table)
      | Inr r \<Rightarrow>
          if fr_Revision r \<noteq> ai_ExpectedRevision input \<or> fr_Status r \<noteq> ''active'' then (Inl FailoverConflict, table)
          else commitAdvance fault caller input (now 1) r table)"

definition CancelFailover ::
    "(Principal \<Rightarrow> playback_error option) \<Rightarrow> int \<Rightarrow> int \<Rightarrow> int \<Rightarrow> (nat \<Rightarrow> playback_error option) \<Rightarrow> Principal \<Rightarrow> string \<Rightarrow>
     failoverRow list \<Rightarrow> failover_error option \<times> failoverRow list" where
  "CancelFailover authorize now dbnow startedAt fault caller identifier table =
     (case beginAuthorizedProfileTx authorize now caller of Some err \<Rightarrow> (Some (Playback err), table)
      | None \<Rightarrow>
          (let (affected, table1) = updateRows
             (\<lambda>row. fr_ID (row_record row) = TrimSpace identifier \<and> ownedRow caller row \<and> liveRow dbnow startedAt row \<and>
                fr_Status (row_record row) = ''active'')
             (\<lambda>row. row\<lparr>row_record := (row_record row)\<lparr>fr_Status := ''cancelled'', fr_Revision := fr_Revision (row_record row) + 1,
                fr_UpdatedAt := dbnow\<rparr>\<rparr>) table
           in case fault 0 of Some err \<Rightarrow> (Some (Playback err), table)
              | None \<Rightarrow>
                  if affected \<noteq> 1 then (Some FailoverNotFound, table)
                  else (case fault 1 of Some err \<Rightarrow> (Some (Playback err), table) | None \<Rightarrow> (None, table1))))"

section \<open>One record: a walk along the candidates\<close>

definition recordOk :: "failoverRecord \<Rightarrow> bool" where
  "recordOk r \<longleftrightarrow>
     2 \<le> length (fr_Candidates r) \<and> length (fr_Candidates r) \<le> 8 \<and> distinct (fr_Candidates r) \<and>
     list_all (\<lambda>c. 16 \<le> length c \<and> length c \<le> 128) (fr_Candidates r) \<and>
     1 \<le> fr_MaximumAttempts r \<and> fr_MaximumAttempts r \<le> 3 \<and> fr_MaximumAttempts r < int (length (fr_Candidates r)) \<and>
     0 \<le> fr_AttemptCount r \<and> fr_AttemptCount r \<le> fr_MaximumAttempts r \<and>
     fr_CurrentSourceRef r = fr_Candidates r ! nat (fr_AttemptCount r) \<and>
     (fr_Status r = ''active'' \<and> fr_FailedCandidates r = take (nat (fr_AttemptCount r)) (fr_Candidates r) \<and>
        fr_Revision r = fr_AttemptCount r + 1 \<or>
      fr_Status r = ''cancelled'' \<and> fr_FailedCandidates r = take (nat (fr_AttemptCount r)) (fr_Candidates r) \<and>
        fr_Revision r = fr_AttemptCount r + 2 \<or>
      fr_Status r = ''exhausted'' \<and> fr_AttemptCount r = fr_MaximumAttempts r \<and>
        fr_FailedCandidates r = take (Suc (nat (fr_AttemptCount r))) (fr_Candidates r) \<and> fr_Revision r = fr_AttemptCount r + 2)"

lemma candidateIndex_mem: "candidateIndex xs v \<ge> 0 \<longleftrightarrow> v \<in> set xs"
  by (induction xs) (auto simp: Let_def)

lemma candidateIndex_nth: "distinct xs \<Longrightarrow> i < length xs \<Longrightarrow> candidateIndex xs (xs ! i) = int i"
proof (induction xs arbitrary: i)
  case (Cons x xs)
  show ?case
  proof (cases i)
    case (Suc j)
    with Cons have "candidateIndex xs (xs ! j) = int j" "x \<noteq> xs ! j"
      by auto
    with Suc show ?thesis by (simp add: Let_def)
  qed simp
qed simp

lemma nextCandidate_drop:
  assumes "distinct xs" "n < length xs"
  shows "nextCandidate (take n xs) (drop n xs) = Some (xs ! n)"
proof -
  have "xs ! n \<notin> set (take n xs)"
    using assms by (auto simp: in_set_conv_nth distinct_conv_nth)
  then have "\<not> candidateIndex (take n xs) (xs ! n) \<ge> 0"
    by (simp add: candidateIndex_mem)
  moreover have "drop n xs = xs ! n # drop (Suc n) xs"
    using assms(2) by (rule Cons_nth_drop_Suc [symmetric])
  ultimately show ?thesis by simp
qed

lemma appendUnique_take:
  assumes "distinct xs" "n < length xs"
  shows "appendUnique (take n xs) (xs ! n) = take (Suc n) xs"
proof -
  have "xs ! n \<notin> set (take n xs)"
    using assms by (auto simp: in_set_conv_nth distinct_conv_nth)
  then show ?thesis
    using assms(2) by (simp add: appendUnique_def candidateIndex_mem take_Suc_conv_app_nth)
qed

lemma advance_active:
  assumes ok: "recordOk r" and active: "fr_Status r = ''active''"
  shows "advanceFailoverRecord r failure position now =
    (let n = Suc (nat (fr_AttemptCount r));
         r' = r\<lparr>fr_FailedCandidates := take n (fr_Candidates r), fr_PositionSeconds := position,
           fr_Revision := fr_Revision r + 1, fr_LastError := failure, fr_UpdatedAt := now\<rparr>
     in if fr_AttemptCount r < fr_MaximumAttempts r
        then (r'\<lparr>fr_AttemptCount := fr_AttemptCount r + 1, fr_CurrentSourceRef := fr_Candidates r ! n\<rparr>, True)
        else (r'\<lparr>fr_Status := ''exhausted''\<rparr>, False))"
proof -
  let ?a = "nat (fr_AttemptCount r)"
  have len: "?a < length (fr_Candidates r)" and dist: "distinct (fr_Candidates r)"
    using ok by (auto simp: recordOk_def)
  have failed: "appendUnique (fr_FailedCandidates r) (fr_CurrentSourceRef r) = take (Suc ?a) (fr_Candidates r)"
    using ok active len dist by (auto simp: recordOk_def appendUnique_take)
  have index: "candidateIndex (fr_Candidates r) (fr_CurrentSourceRef r) = fr_AttemptCount r"
    using ok len dist by (auto simp: recordOk_def candidateIndex_nth)
  show ?thesis
  proof (cases "fr_AttemptCount r < fr_MaximumAttempts r")
    case True
    then have "Suc ?a < length (fr_Candidates r)" "nat (fr_AttemptCount r + 1) = Suc ?a"
      using ok by (auto simp: recordOk_def)
    then show ?thesis
      using True index failed dist
      by (cases r) (simp add: advanceFailoverRecord_def Let_def nextCandidate_drop)
  next
    case False
    then have "fr_AttemptCount r = fr_MaximumAttempts r"
      using ok by (auto simp: recordOk_def)
    then show ?thesis
      using failed by (cases r) (simp add: advanceFailoverRecord_def Let_def)
  qed
qed

lemma advance_ok:
  assumes "recordOk r" "fr_Status r = ''active''"
  shows "recordOk (fst (advanceFailoverRecord r failure position now))"
proof -
  have "Suc (nat (fr_AttemptCount r)) = nat (fr_AttemptCount r + 1)"
    using assms by (auto simp: recordOk_def)
  then show ?thesis
    using assms by (auto simp: advance_active recordOk_def Let_def)
qed

text \<open>
  C9. A failing source is never offered again and the budget is finite: on a well-formed active record
  an advance moves to the very next candidate exactly while attempts remain (never to a candidate that
  failed before), otherwise it ends the record as exhausted; in both cases every candidate up to the
  failing one is marked as failed, the revision grows by one and the record stays well-formed.
\<close>

theorem advanceFailoverRecord_walks:
  assumes ok: "recordOk r" and active: "fr_Status r = ''active''"
    and advance: "advanceFailoverRecord r failure position now = (r', advanced)"
  shows "recordOk r' \<and> fr_Revision r' = fr_Revision r + 1 \<and>
    set (fr_FailedCandidates r') = insert (fr_CurrentSourceRef r) (set (fr_FailedCandidates r)) \<and>
    (advanced \<longleftrightarrow> fr_AttemptCount r < fr_MaximumAttempts r) \<and>
    (if advanced
     then fr_Status r' = ''active'' \<and> fr_AttemptCount r' = fr_AttemptCount r + 1 \<and>
       candidateIndex (fr_Candidates r) (fr_CurrentSourceRef r') = candidateIndex (fr_Candidates r) (fr_CurrentSourceRef r) + 1 \<and>
       fr_CurrentSourceRef r' \<notin> set (fr_FailedCandidates r')
     else fr_Status r' = ''exhausted'' \<and> fr_CurrentSourceRef r' = fr_CurrentSourceRef r)"
proof -
  let ?a = "nat (fr_AttemptCount r)"
  have len: "?a < length (fr_Candidates r)" and dist: "distinct (fr_Candidates r)"
    using ok by (auto simp: recordOk_def)
  have ok': "recordOk r'"
    using advance_ok [OF ok active, of failure position now] advance by simp
  have cur: "fr_CurrentSourceRef r = fr_Candidates r ! ?a" "fr_FailedCandidates r = take ?a (fr_Candidates r)"
    using ok active by (auto simp: recordOk_def)
  have failed: "set (take (Suc ?a) (fr_Candidates r)) = insert (fr_CurrentSourceRef r) (set (fr_FailedCandidates r))"
    using len by (simp add: cur take_Suc_conv_app_nth)
  show ?thesis
  proof (cases "fr_AttemptCount r < fr_MaximumAttempts r")
    case True
    then have n: "Suc ?a < length (fr_Candidates r)"
      using ok by (auto simp: recordOk_def)
    have "fr_Candidates r ! Suc ?a \<notin> set (take (Suc ?a) (fr_Candidates r))"
      using dist n by (auto simp: in_set_conv_nth distinct_conv_nth)
    moreover from True have "r' = r\<lparr>fr_FailedCandidates := take (Suc ?a) (fr_Candidates r), fr_PositionSeconds := position,
           fr_Revision := fr_Revision r + 1, fr_LastError := failure, fr_UpdatedAt := now,
           fr_AttemptCount := fr_AttemptCount r + 1, fr_CurrentSourceRef := fr_Candidates r ! Suc ?a\<rparr>" "advanced"
      using advance by (auto simp: advance_active [OF ok active] Let_def)
    ultimately show ?thesis
      using True ok' failed active n len dist by (simp add: cur(1) candidateIndex_nth)
  next
    case False
    then have "r' = r\<lparr>fr_FailedCandidates := take (Suc ?a) (fr_Candidates r), fr_PositionSeconds := position,
           fr_Revision := fr_Revision r + 1, fr_LastError := failure, fr_UpdatedAt := now, fr_Status := ''exhausted''\<rparr>" "\<not> advanced"
      using advance by (auto simp: advance_active [OF ok active] Let_def)
    with False ok' failed show ?thesis by simp
  qed
qed

text \<open>A run of failure reports, each of them with an error, a position and a time.\<close>

definition failureRun :: "(string \<times> float64 \<times> int) list \<Rightarrow> failoverRecord \<Rightarrow> failoverRecord" where
  "failureRun reports r = fold (\<lambda>(failure, position, now) r. fst (advanceFailoverRecord r failure position now)) reports r"

lemma failureRun_snoc:
  "failureRun (reports @ [(failure, position, now)]) r = fst (advanceFailoverRecord (failureRun reports r) failure position now)"
  by (simp add: failureRun_def)

lemma failureRun_active:
  assumes ok: "recordOk r" "fr_Status r = ''active''"
  shows "fr_AttemptCount r + int (length reports) \<le> fr_MaximumAttempts r \<Longrightarrow>
    recordOk (failureRun reports r) \<and> fr_Status (failureRun reports r) = ''active'' \<and>
    fr_AttemptCount (failureRun reports r) = fr_AttemptCount r + int (length reports) \<and>
    fr_Candidates (failureRun reports r) = fr_Candidates r \<and> fr_MaximumAttempts (failureRun reports r) = fr_MaximumAttempts r"
proof (induction reports rule: rev_induct)
  case Nil
  then show ?case using ok by (simp add: failureRun_def)
next
  case (snoc report reports)
  obtain failure position now where report: "report = (failure, position, now)"
    by (metis prod_cases3)
  let ?r = "failureRun reports r"
  from snoc have IH: "recordOk ?r" "fr_Status ?r = ''active''" "fr_AttemptCount ?r = fr_AttemptCount r + int (length reports)"
      "fr_Candidates ?r = fr_Candidates r" "fr_MaximumAttempts ?r = fr_MaximumAttempts r"
    by auto
  with snoc.prems have less: "fr_AttemptCount ?r < fr_MaximumAttempts ?r"
    by simp
  from advance_ok [OF IH(1,2), of failure position now] show ?case
    using less IH by (simp add: report failureRun_snoc) (simp add: advance_active [OF IH(1,2)] Let_def)
qed

text \<open>
  C10. A playback that keeps failing ends: after \<open>n\<close> reports within the budget a fresh record plays
  candidate \<open>n\<close>, and one report more than the budget exhausts it, with every tried candidate marked.
\<close>

theorem failureRun_ends:
  assumes ok: "recordOk r" and fresh: "fr_Status r = ''active''" "fr_AttemptCount r = 0"
    and within: "int (length reports) \<le> fr_MaximumAttempts r"
    and last: "int (length allReports) = fr_MaximumAttempts r + 1"
  shows "fr_Status (failureRun reports r) = ''active'' \<and>
    fr_CurrentSourceRef (failureRun reports r) = fr_Candidates r ! length reports \<and>
    fr_Status (failureRun allReports r) = ''exhausted'' \<and>
    fr_FailedCandidates (failureRun allReports r) = take (length allReports) (fr_Candidates r)"
proof -
  have first: "recordOk (failureRun reports r)" "fr_Status (failureRun reports r) = ''active''"
      "fr_AttemptCount (failureRun reports r) = int (length reports)" "fr_Candidates (failureRun reports r) = fr_Candidates r"
    using failureRun_active [OF ok fresh(1), of reports] within fresh(2) by auto
  have current: "fr_CurrentSourceRef (failureRun reports r) = fr_Candidates r ! length reports"
    using first by (auto simp: recordOk_def)
  from last ok have "allReports \<noteq> []"
    by (auto simp: recordOk_def)
  then obtain front failure position now where all: "allReports = front @ [(failure, position, now)]"
    by (metis append_butlast_last_id prod_cases3)
  let ?r = "failureRun front r"
  have front: "int (length front) = fr_MaximumAttempts r"
    using last all by simp
  have r: "recordOk ?r" "fr_Status ?r = ''active''" "fr_AttemptCount ?r = fr_MaximumAttempts ?r" "fr_Candidates ?r = fr_Candidates r"
    "nat (fr_AttemptCount ?r) = length front"
    using failureRun_active [OF ok fresh(1), of front] front fresh(2) by auto
  have "fr_Status (failureRun allReports r) = ''exhausted''"
    "fr_FailedCandidates (failureRun allReports r) = take (length allReports) (fr_Candidates r)"
    using r by (simp_all add: all failureRun_snoc advance_active [OF r(1,2)] Let_def)
  with first current show ?thesis by simp
qed

section \<open>The table\<close>

abbreviation rowID :: "failoverRow \<Rightarrow> string" where
  "rowID row \<equiv> fr_ID (row_record row)"

definition rowOk :: "failoverRow \<Rightarrow> bool" where
  "rowOk row \<longleftrightarrow> recordOk (row_record row) \<and> rowConstraints row"

definition tableOk :: "int \<Rightarrow> int \<times> failoverRow list \<Rightarrow> bool" where
  "tableOk startedAt st \<longleftrightarrow>
     distinct (map rowID (snd st)) \<and> list_all rowOk (snd st) \<and>
     (\<forall>sessionID. activeCount (fst st) startedAt sessionID (snd st) \<le> maximumFailoversPerAuthSession)"

lemma checkCandidates_props:
  "checkCandidates clock caller cs raws first e store = (Inr (cs', e'), store') \<Longrightarrow> distinct cs \<Longrightarrow>
   list_all (\<lambda>c. 16 \<le> length c \<and> length c \<le> 128) cs \<Longrightarrow>
     distinct cs' \<and> length cs' = length cs + length raws \<and> list_all (\<lambda>c. 16 \<le> length c \<and> length c \<le> 128) cs' \<and> e' \<le> e"
proof (induction clock caller cs raws first e store rule: checkCandidates.induct)
  case (2 clock caller cs raw raws first e store)
  obtain result store1 where get: "getReference (clock (length cs)) (TrimSpace raw) caller store = (result, store1)"
    by force
  with "2.prems"(1) obtain reference where ref: "result = Inr reference"
    by (cases result) (auto simp: Let_def split: if_splits)
  have e: "earlierFailoverExpiration e (ref_ExpiresAt reference) \<le> e"
    by (simp add: earlierFailoverExpiration_def)
  from "2.prems" get ref have checks: "\<not> (length (TrimSpace raw) < 16 \<or> length (TrimSpace raw) > 128 \<or> TrimSpace raw \<in> set cs)"
      "\<not> (first \<noteq> None \<and> first \<noteq> Some (ref_ResourceID reference, ref_MediaType reference))"
    by (auto simp: Let_def split: if_splits)
  have "distinct cs' \<and> length cs' = length (cs @ [TrimSpace raw]) + length raws \<and>
      list_all (\<lambda>c. 16 \<le> length c \<and> length c \<le> 128) cs' \<and> e' \<le> earlierFailoverExpiration e (ref_ExpiresAt reference)"
    by (rule "2.IH" [OF refl checks(1) get [symmetric] ref checks(2)]) (use "2.prems" get ref checks in \<open>auto simp: Let_def\<close>)
  with e show ?case by auto
qed simp

lemma activeCount_map_le:
  assumes "\<And>row. row \<in> set table \<Longrightarrow> row_AuthSessionID (f row) = row_AuthSessionID row \<and>
    (liveRow dbnow startedAt (f row) \<and> fr_Status (row_record (f row)) = ''active'' \<longrightarrow>
       liveRow dbnow startedAt row \<and> fr_Status (row_record row) = ''active'')"
  shows "activeCount dbnow startedAt sessionID (map f table) \<le> activeCount dbnow startedAt sessionID table"
  using assms by (induction table) (auto simp: activeCount_def)

lemma activeCount_filter_le: "activeCount dbnow startedAt sessionID (filter P table) \<le> activeCount dbnow startedAt sessionID table"
  by (induction table) (auto simp: activeCount_def)

lemma activeCount_later: "dbnow \<le> dbnow' \<Longrightarrow> activeCount dbnow' startedAt sessionID table \<le> activeCount dbnow startedAt sessionID table"
  by (induction table) (auto simp: activeCount_def liveRow_def)

lemma cleanup_table: "\<exists>P. snd (cleanupFailoversBatch dbnow startedAt locked table) = filter P table"
  by (auto simp: cleanupFailoversBatch_def Let_def)

lemma tableOk_filter: "tableOk startedAt (now, table) \<Longrightarrow> tableOk startedAt (now, filter P table)"
  by (auto simp: tableOk_def list_all_iff distinct_map_filter intro: order_trans [OF activeCount_filter_le])

lemma insertFailover_outcome:
  "(\<exists>e. insertFailover dbnow startedAt fault locked row table = (Inl e, table)) \<or>
   insertFailover dbnow startedAt fault locked row table =
     (Inr (projectFailover (row_record row)), snd (cleanupFailoversBatch dbnow startedAt locked table) @ [row]) \<and>
   rowConstraints row \<and>
   activeCount dbnow startedAt (row_AuthSessionID row) (snd (cleanupFailoversBatch dbnow startedAt locked table)) < maximumFailoversPerAuthSession"
  by (auto simp: insertFailover_def Let_def not_le simp del: firstFault.simps split: option.split)

lemma insertFailover_cases:
  obtains (err) e where "insertFailover dbnow startedAt fault locked row table = (Inl e, table)"
  | (inserted) "insertFailover dbnow startedAt fault locked row table =
        (Inr (projectFailover (row_record row)), snd (cleanupFailoversBatch dbnow startedAt locked table) @ [row])"
      "rowConstraints row"
      "activeCount dbnow startedAt (row_AuthSessionID row) (snd (cleanupFailoversBatch dbnow startedAt locked table)) < maximumFailoversPerAuthSession"
  using insertFailover_outcome by metis

lemma insertFailover_ok:
  assumes ok: "tableOk startedAt (dbnow, table)" and row: "recordOk (row_record row)" "rowID row \<notin> rowIDs table"
  shows "tableOk startedAt (dbnow, snd (insertFailover dbnow startedAt fault locked row table))"
proof (cases rule: insertFailover_cases [of dbnow startedAt fault locked row table])
  case inserted
  let ?t = "snd (cleanupFailoversBatch dbnow startedAt locked table)"
  have t: "tableOk startedAt (dbnow, ?t)" and sub: "set ?t \<subseteq> set table"
    using cleanup_table [of dbnow startedAt locked table] tableOk_filter [OF ok] by auto
  have "activeCount dbnow startedAt s (?t @ [row]) \<le> maximumFailoversPerAuthSession" for s
    using t inserted(3) by (cases "s = row_AuthSessionID row") (auto simp: tableOk_def activeCount_def)
  moreover have "rowID row \<notin> rowID ` set ?t"
    using row(2) sub by (auto simp: rowIDs_def)
  ultimately show ?thesis
    using t inserted row by (simp add: tableOk_def rowOk_def)
qed (use ok in simp)

lemma CreateFailover_table:
  "(\<exists>e store'. CreateFailover authorize now clock dbnow startedAt fault locked newID caller input store table = (Inl e, store', table)) \<or>
   (\<exists>row store'. recordOk (row_record row) \<and> rowID row = newID \<and> row_AuthSessionID row = pr_SessionID caller \<and>
      fr_Revision (row_record row) = 1 \<and> fr_AttemptCount (row_record row) = 0 \<and>
      CreateFailover authorize now clock dbnow startedAt fault locked newID caller input store table =
        (fst (insertFailover dbnow startedAt fault locked row table), store', snd (insertFailover dbnow startedAt fault locked row table)))"
proof (cases "length (ci_CandidateSourceRefs input) < 2 \<or> length (ci_CandidateSourceRefs input) > maximumFailoverCandidates \<or>
         ci_MaximumAttempts input < 0 \<or> ci_MaximumAttempts input > maximumFailoverAttempts")
  case True
  then show ?thesis by (auto simp: CreateFailover_def)
next
  case valid: False
  obtain result store1 where check: "checkCandidates clock caller [] (ci_CandidateSourceRefs input) None (now 0 + failoverTTL) store = (result, store1)"
    by force
  show ?thesis
  proof (cases result)
    case (Inl e)
    with valid check show ?thesis by (simp add: CreateFailover_def Let_def)
  next
    case (Inr ce)
    obtain candidates expiresAt where ce: "ce = (candidates, expiresAt)" by force
    have props: "distinct candidates" "length candidates = length (ci_CandidateSourceRefs input)"
        "list_all (\<lambda>c. 16 \<le> length c \<and> length c \<le> 128) candidates"
      using checkCandidates_props [OF check [unfolded Inr ce]] by simp_all
    let ?others = "int (length candidates) - 1"
    let ?max = "if ci_MaximumAttempts input = 0 \<or> ci_MaximumAttempts input > ?others then min maximumFailoverAttempts ?others
      else ci_MaximumAttempts input"
    let ?row = "newFailoverRow newID caller candidates ?max expiresAt (now 0)"
    have "recordOk (row_record ?row)"
      using valid props by (auto simp: newFailoverRow_def recordOk_def maximumFailoverCandidates_def maximumFailoverAttempts_def)
    moreover have "CreateFailover authorize now clock dbnow startedAt fault locked newID caller input store table =
        (if TrimSpace (ci_SelectedSourceRef input) \<noteq> candidates ! 0 then (Inl (Playback ErrInvalidInput), store1, table)
         else case beginAuthorizedProfileTx authorize (now 1) caller of Some err \<Rightarrow> (Inl (Playback err), store1, table)
           | None \<Rightarrow> (fst (insertFailover dbnow startedAt fault locked ?row table), store1, snd (insertFailover dbnow startedAt fault locked ?row table)))"
      using valid check Inr ce by (simp add: CreateFailover_def Let_def case_prod_unfold split: option.split)
    moreover have "rowID ?row = newID" "row_AuthSessionID ?row = pr_SessionID caller"
        "fr_Revision (row_record ?row) = 1" "fr_AttemptCount (row_record ?row) = 0"
      by (simp_all add: newFailoverRow_def)
    ultimately show ?thesis
      by (cases "TrimSpace (ci_SelectedSourceRef input) = candidates ! 0"; cases "beginAuthorizedProfileTx authorize (now 1) caller")
        (force intro: exI [of _ ?row])+
  qed
qed

lemma CreateFailover_ok:
  assumes "tableOk startedAt (dbnow, table)" "newID \<notin> rowIDs table"
  shows "tableOk startedAt (dbnow, snd (snd (CreateFailover authorize now clock dbnow startedAt fault locked newID caller input store table)))"
proof -
  consider (err) e store' where "CreateFailover authorize now clock dbnow startedAt fault locked newID caller input store table = (Inl e, store', table)"
    | (row) row store' where "recordOk (row_record row)" "rowID row = newID"
      "CreateFailover authorize now clock dbnow startedAt fault locked newID caller input store table =
        (fst (insertFailover dbnow startedAt fault locked row table), store', snd (insertFailover dbnow startedAt fault locked row table))"
    using CreateFailover_table [of authorize now clock dbnow startedAt fault locked newID caller input store table] by metis
  then show ?thesis
  proof cases
    case row
    with insertFailover_ok [OF assms(1) row(1)] assms(2) show ?thesis by simp
  qed (use assms in simp)
qed

lemma loadFailover_row:
  assumes "loadFailover dbnow startedAt fault k caller identifier table = Inr r"
  obtains row where "row \<in> set table" "row_record row = r" "rowID row = identifier" "ownedRow caller row" "liveRow dbnow startedAt row"
    "length identifier = 36" "fault k = None"
  using assms
  by (auto simp: loadFailover_def find_Some_iff in_set_conv_nth split: if_splits option.splits)

lemma unique_row: "distinct (map rowID table) \<Longrightarrow> row \<in> set table \<Longrightarrow> row' \<in> set table \<Longrightarrow> rowID row' = rowID row \<Longrightarrow> row' = row"
  by (metis distinct_map inj_on_eq_iff)

lemma loadFailover_found:
  assumes "distinct (map rowID table)" "row \<in> set table" "ownedRow caller row" "liveRow dbnow startedAt row"
    "length (rowID row) = 36" "fault k = None"
  shows "loadFailover dbnow startedAt fault k caller (rowID row) table = Inr (row_record row)"
proof -
  have "find (\<lambda>r. rowID r = rowID row \<and> ownedRow caller r \<and> liveRow dbnow startedAt r) table = Some row"
    using assms(1-4)
  proof (induction table)
    case (Cons x xs)
    then show ?case by (auto simp: image_iff)
  qed simp
  with assms show ?thesis by (simp add: loadFailover_def)
qed

lemma advance_keeps:
  assumes "recordOk r" "fr_Status r = ''active''" "row_record row = r"
  shows "storeAdvance (fst (advanceFailoverRecord r failure position now)) row =
      row\<lparr>row_record := fst (advanceFailoverRecord r failure position now)\<rparr>"
  using assms by (cases row; cases "row_record row") (auto simp: storeAdvance_def advance_active Let_def)

lemma advance_fields:
  assumes "recordOk r" "fr_Status r = ''active''"
  shows "fr_ID (fst (advanceFailoverRecord r failure position now)) = fr_ID r"
    "fr_ExpiresAt (fst (advanceFailoverRecord r failure position now)) = fr_ExpiresAt r"
    "fr_PositionSeconds (fst (advanceFailoverRecord r failure position now)) = position"
    "fr_LastError (fst (advanceFailoverRecord r failure position now)) = failure"
    "fr_Revision (fst (advanceFailoverRecord r failure position now)) = fr_Revision r + 1"
  using assms by (simp_all add: advance_active Let_def)

text \<open>The row an advance updates.\<close>

definition advancedRow :: "string \<Rightarrow> float64 \<Rightarrow> int \<Rightarrow> failoverRow \<Rightarrow> failoverRow" where
  "advancedRow failure position now row = row\<lparr>row_record := fst (advanceFailoverRecord (row_record row) failure position now)\<rparr>"

definition advanceable :: "int \<Rightarrow> int \<Rightarrow> Principal \<Rightarrow> int \<Rightarrow> failoverRow \<Rightarrow> bool" where
  "advanceable dbnow startedAt caller expected row \<longleftrightarrow>
     ownedRow caller row \<and> liveRow dbnow startedAt row \<and> fr_Status (row_record row) = ''active'' \<and> fr_Revision (row_record row) = expected"

lemma length_filter_one: "distinct xs \<Longrightarrow> x \<in> set xs \<Longrightarrow> length (filter (\<lambda>y. y = x) xs) = 1"
  by (induction xs) (auto simp: filter_empty_conv)

lemma updateRows_one:
  assumes ok: "distinct (map rowID table)" "row \<in> set table" "ownedRow caller row" "fr_Revision (row_record row) = expected"
  shows "updateRows (\<lambda>x. rowID x = rowID row \<and> ownedRow caller x \<and> fr_Revision (row_record x) = expected) f table =
      (1, map (\<lambda>x. if x = row then f row else x) table)"
proof -
  have hit: "(rowID x = rowID row \<and> ownedRow caller x \<and> fr_Revision (row_record x) = expected) \<longleftrightarrow> x = row" if "x \<in> set table" for x
    using unique_row [OF ok(1,2) that] ok(3,4) by auto
  have "filter (\<lambda>x. rowID x = rowID row \<and> ownedRow caller x \<and> fr_Revision (row_record x) = expected) table = filter (\<lambda>x. x = row) table"
    using hit by (intro filter_cong) auto
  moreover have "length (filter (\<lambda>x. x = row) table) = 1"
    using ok(1,2) by (intro length_filter_one) (simp_all add: distinct_map)
  ultimately show ?thesis
    using hit by (auto simp: updateRows_def intro!: map_cong)
qed

lemma commitAdvance_outcome:
  assumes ok: "distinct (map rowID table)" "recordOk r" and row: "row \<in> set table" "row_record row = r" "ownedRow caller row"
    and rev: "fr_Revision r = ai_ExpectedRevision input" "fr_Status r = ''active''"
  shows "commitAdvance fault caller input now r table =
    (let row' = advancedRow (ai_Error input) (ai_PositionSeconds input) now row
     in case fault 1 of Some err \<Rightarrow> (Inl (Playback err), table)
      | None \<Rightarrow> if \<not> rowConstraints row' then (Inl constraintError, table)
          else (case fault 2 of Some err \<Rightarrow> (Inl (Playback err), table)
                | None \<Rightarrow> (Inr ((projectFailover (row_record row'))\<lparr>fs_Explanation :=
                     (if fr_AttemptCount r < fr_MaximumAttempts r then advancedText else exhaustedText)\<rparr>),
                    map (\<lambda>x. if x = row then row' else x) table)))"
proof -
  let ?next = "fst (advanceFailoverRecord r (ai_Error input) (ai_PositionSeconds input) now)"
  let ?hit = "\<lambda>x. rowID x = fr_ID r \<and> ownedRow caller x \<and> fr_Revision (row_record x) = ai_ExpectedRevision input"
  have upd: "updateRows ?hit (storeAdvance ?next) table = (1, map (\<lambda>x. if x = row then storeAdvance ?next row else x) table)"
    using updateRows_one [OF ok(1) row(1,3), of "ai_ExpectedRevision input" "storeAdvance ?next"] rev row(2) by simp
  have store: "storeAdvance ?next row = advancedRow (ai_Error input) (ai_PositionSeconds input) now row"
    using advance_keeps [OF ok(2) rev(2) row(2)] row(2) by (simp add: advancedRow_def)
  have hit: "list_ex (\<lambda>x. ?hit x \<and> \<not> rowConstraints (storeAdvance ?next x)) table \<longleftrightarrow> \<not> rowConstraints (storeAdvance ?next row)"
  proof -
    have "?hit x \<longleftrightarrow> x = row" if "x \<in> set table" for x
      using unique_row [OF ok(1) row(1) that] row rev by auto
    then have "(\<exists>x \<in> set table. ?hit x \<and> \<not> rowConstraints (storeAdvance ?next x)) \<longleftrightarrow>
        (\<exists>x \<in> set table. x = row \<and> \<not> rowConstraints (storeAdvance ?next x))"
      by (intro bex_cong) auto
    then show ?thesis
      using row(1) by (simp add: list_ex_iff)
  qed
  have adv: "snd (advanceFailoverRecord r (ai_Error input) (ai_PositionSeconds input) now) \<longleftrightarrow> fr_AttemptCount r < fr_MaximumAttempts r"
    using ok(2) rev(2) by (simp add: advance_active Let_def)
  have rec: "row_record (advancedRow (ai_Error input) (ai_PositionSeconds input) now row) = ?next"
    using row(2) by (simp add: advancedRow_def)
  show ?thesis
    unfolding commitAdvance_def case_prod_unfold Let_def upd fst_conv snd_conv hit adv rec
    by (simp add: store split: option.split)
qed

lemma AdvanceFailover_outcome:
  assumes ok: "distinct (map rowID table)" "list_all rowOk table"
  shows "(\<exists>e. AdvanceFailover authorize now dbnow startedAt fault caller ident input table = (Inl e, table)) \<or>
    (\<exists>row state. row \<in> set table \<and> rowID row = TrimSpace ident \<and> advanceable dbnow startedAt caller (ai_ExpectedRevision input) row \<and>
       AdvanceFailover authorize now dbnow startedAt fault caller ident input table =
         (Inr state, map (\<lambda>x. if x = row then advancedRow (ai_Error input) (ai_PositionSeconds input) (now 1) row else x) table) \<and>
       rowConstraints (advancedRow (ai_Error input) (ai_PositionSeconds input) (now 1) row))"
proof (cases "loadFailover dbnow startedAt fault 0 caller (TrimSpace ident) table")
  case (Inl e)
  then show ?thesis
    by (simp add: AdvanceFailover_def split: option.split)
next
  case (Inr r)
  then obtain row where row: "row \<in> set table" "row_record row = r" "rowID row = TrimSpace ident" "ownedRow caller row"
      "liveRow dbnow startedAt row"
    by (rule loadFailover_row)
  have rok: "recordOk r"
    using ok(2) row by (auto simp: list_all_iff rowOk_def)
  show ?thesis
  proof (cases "fr_Revision r = ai_ExpectedRevision input \<and> fr_Status r = ''active''")
    case False
    with Inr show ?thesis by (auto simp: AdvanceFailover_def split: option.split)
  next
    case True
    then have able: "advanceable dbnow startedAt caller (ai_ExpectedRevision input) row"
      using row by (simp add: advanceable_def)
    have "(\<exists>e. commitAdvance fault caller input (now 1) r table = (Inl e, table)) \<or>
      (\<exists>state. commitAdvance fault caller input (now 1) r table =
         (Inr state, map (\<lambda>x. if x = row then advancedRow (ai_Error input) (ai_PositionSeconds input) (now 1) row else x) table) \<and>
       rowConstraints (advancedRow (ai_Error input) (ai_PositionSeconds input) (now 1) row))"
      using commitAdvance_outcome [OF ok(1) rok row(1,2,4)] True by (auto simp: Let_def split: option.split)
    moreover have "AdvanceFailover authorize now dbnow startedAt fault caller ident input table =
        commitAdvance fault caller input (now 1) r table \<or>
      (\<exists>e. AdvanceFailover authorize now dbnow startedAt fault caller ident input table = (Inl e, table))"
      using Inr True by (auto simp: AdvanceFailover_def split: option.split)
    ultimately show ?thesis
      using row(1,3) able by (elim disjE) auto
  qed
qed

lemma advancedRow_ok:
  assumes "rowOk row" "fr_Status (row_record row) = ''active''" "rowConstraints (advancedRow failure position now row)"
  shows "rowOk (advancedRow failure position now row)" "rowID (advancedRow failure position now row) = rowID row"
    "row_AuthSessionID (advancedRow failure position now row) = row_AuthSessionID row"
    "liveRow dbnow startedAt (advancedRow failure position now row) = liveRow dbnow startedAt row"
    "fr_Revision (row_record (advancedRow failure position now row)) = fr_Revision (row_record row) + 1"
  using assms advance_ok [of "row_record row" failure position now] advance_fields [of "row_record row" failure position now]
  by (auto simp: rowOk_def advancedRow_def liveRow_def)

lemma map_replace_ids:
  assumes "rowID row' = rowID row"
  shows "map rowID (map (\<lambda>x. if x = row then row' else x) table) = map rowID table"
  using assms by (induction table) auto

lemma tableOk_replace:
  assumes ok: "tableOk startedAt (dbnow, table)" and row': "rowOk row'" "rowID row' = rowID row" "row_AuthSessionID row' = row_AuthSessionID row"
    and active: "liveRow dbnow startedAt row" "fr_Status (row_record row) = ''active''"
  shows "tableOk startedAt (dbnow, map (\<lambda>x. if x = row then row' else x) table)"
proof -
  have ids: "map rowID (map (\<lambda>x. if x = row then row' else x) table) = map rowID table"
    by (rule map_replace_ids) fact
  have "activeCount dbnow startedAt s (map (\<lambda>x. if x = row then row' else x) table) \<le> activeCount dbnow startedAt s table" for s
    by (rule activeCount_map_le) (use row' active in auto)
  then show ?thesis
    unfolding tableOk_def snd_conv fst_conv ids
    using ok row'(1) by (auto simp: tableOk_def list_all_iff intro: order_trans)
qed

lemma AdvanceFailover_ok:
  assumes ok: "tableOk startedAt (dbnow, table)"
  shows "tableOk startedAt (dbnow, snd (AdvanceFailover authorize now dbnow startedAt fault caller identifier input table))"
proof -
  have t: "distinct (map rowID table)" "list_all rowOk table"
    using ok by (simp_all add: tableOk_def)
  consider (err) e where "AdvanceFailover authorize now dbnow startedAt fault caller identifier input table = (Inl e, table)"
    | (row) row state where "row \<in> set table" "advanceable dbnow startedAt caller (ai_ExpectedRevision input) row"
      "AdvanceFailover authorize now dbnow startedAt fault caller identifier input table =
         (Inr state, map (\<lambda>x. if x = row then advancedRow (ai_Error input) (ai_PositionSeconds input) (now 1) row else x) table)"
      "rowConstraints (advancedRow (ai_Error input) (ai_PositionSeconds input) (now 1) row)"
    using AdvanceFailover_outcome [OF t, where authorize = authorize and now = now and dbnow = dbnow and startedAt = startedAt
      and fault = fault and caller = caller and ident = "identifier" and input = input] by (elim disjE exE conjE) auto
  then show ?thesis
  proof cases
    case (row row state)
    let ?row' = "advancedRow (ai_Error input) (ai_PositionSeconds input) (now 1) row"
    have rok: "rowOk row" using t row by (simp add: list_all_iff)
    have active: "fr_Status (row_record row) = ''active''" "liveRow dbnow startedAt row"
      using row by (simp_all add: advanceable_def)
    note row' = advancedRow_ok [OF rok active(1) row(4)]
    from tableOk_replace [OF ok row'(1-3) active(2,1)] row(3) show ?thesis by simp
  qed (use ok in simp)
qed

lemma cancel_record_ok:
  assumes "rowOk row" "fr_Status (row_record row) = ''active''"
  shows "rowOk (row\<lparr>row_record := (row_record row)\<lparr>fr_Status := ''cancelled'', fr_Revision := fr_Revision (row_record row) + 1, fr_UpdatedAt := t\<rparr>\<rparr>)"
  using assms by (auto simp: rowOk_def recordOk_def rowConstraints_def Let_def)

lemma map_rowID_update: "(\<And>x. rowID (f x) = rowID x) \<Longrightarrow> map rowID (map (\<lambda>x. if P x then f x else x) table) = map rowID table"
  by (induction table) auto

lemma CancelFailover_ok:
  assumes ok: "tableOk startedAt (dbnow, table)"
  shows "tableOk startedAt (dbnow, snd (CancelFailover authorize now dbnow startedAt fault caller identifier table))"
proof -
  let ?P = "\<lambda>row. rowID row = TrimSpace identifier \<and> ownedRow caller row \<and> liveRow dbnow startedAt row \<and> fr_Status (row_record row) = ''active''"
  let ?f = "\<lambda>row. row\<lparr>row_record := (row_record row)\<lparr>fr_Status := ''cancelled'', fr_Revision := fr_Revision (row_record row) + 1, fr_UpdatedAt := dbnow\<rparr>\<rparr>"
  let ?table = "map (\<lambda>row. if ?P row then ?f row else row) table"
  have "activeCount dbnow startedAt s ?table \<le> maximumFailoversPerAuthSession" for s
    using ok by (intro order_trans [OF activeCount_map_le]) (auto simp: tableOk_def)
  moreover have "list_all rowOk ?table"
    using ok cancel_record_ok by (auto simp: tableOk_def list_all_iff)
  moreover have ids: "map rowID ?table = map rowID table"
    by (rule map_rowID_update) simp
  then have "distinct (map rowID ?table)"
    unfolding ids using ok by (simp add: tableOk_def)
  ultimately have "tableOk startedAt (dbnow, ?table)"
    unfolding tableOk_def fst_conv snd_conv by blast
  moreover have "snd (CancelFailover authorize now dbnow startedAt fault caller identifier table) \<in> {table, ?table}"
    by (simp add: CancelFailover_def updateRows_def Let_def split: option.split)
  ultimately show ?thesis
    using ok by auto
qed

inductive failover_step :: "int \<Rightarrow> int \<times> failoverRow list \<Rightarrow> int \<times> failoverRow list \<Rightarrow> bool" for startedAt where
  time: "dbnow \<le> dbnow' \<Longrightarrow> failover_step startedAt (dbnow, table) (dbnow', table)"
| create: "newID \<notin> rowIDs table \<Longrightarrow> failover_step startedAt (dbnow, table)
    (dbnow, snd (snd (CreateFailover authorize now clock dbnow startedAt fault locked newID caller input store table)))"
| advance: "failover_step startedAt (dbnow, table)
    (dbnow, snd (AdvanceFailover authorize now dbnow startedAt fault caller identifier input table))"
| cancel: "failover_step startedAt (dbnow, table)
    (dbnow, snd (CancelFailover authorize now' dbnow startedAt fault caller identifier table))"
| cleanup: "failover_step startedAt (dbnow, table) (dbnow, snd (cleanupFailoversBatch dbnow startedAt locked table))"

interpretation failover: transition_system "\<lambda>st. snd st = []" "failover_step startedAt" "tableOk startedAt" for startedAt
proof
  fix st :: "int \<times> failoverRow list" assume "snd st = []"
  then show "tableOk startedAt st"
    by (simp add: tableOk_def activeCount_def)
next
  fix s t assume ok: "tableOk startedAt s" and "failover_step startedAt s t"
  from this(2) show "tableOk startedAt t"
  proof cases
    case (time dbnow dbnow' table)
    with ok show ?thesis
      by (auto simp: tableOk_def intro: order_trans [OF activeCount_later])
  next
    case (cleanup dbnow table locked)
    with ok show ?thesis
      using cleanup_table [of dbnow startedAt locked table] tableOk_filter by auto
  qed (use ok CreateFailover_ok AdvanceFailover_ok CancelFailover_ok in auto)
qed

section \<open>The cleanup removes exactly what it should\<close>

definition removable :: "int \<Rightarrow> int \<Rightarrow> failoverRow \<Rightarrow> bool" where
  "removable dbnow startedAt row \<longleftrightarrow> expiredRow dbnow row \<or> terminalRow row \<or> staleRow startedAt row"

lemma takeRows_props:
  "length (takeRows key n P table) \<le> n" "set (takeRows key n P table) \<subseteq> {row \<in> set table. P row}"
  "length (takeRows key n P table) < n \<Longrightarrow> set (takeRows key n P table) = {row \<in> set table. P row}"
  "distinct table \<Longrightarrow> distinct (takeRows key n P table)"
proof -
  show "length (takeRows key n P table) \<le> n" by (simp add: takeRows_def)
  show "set (takeRows key n P table) \<subseteq> {row \<in> set table. P row}"
    using set_take_subset [of n "SliceStable (rowLess key) (filter P table)"] by (auto simp: takeRows_def)
  show "length (takeRows key n P table) < n \<Longrightarrow> set (takeRows key n P table) = {row \<in> set table. P row}"
    by (auto simp: takeRows_def)
  have "mset (SliceStable (rowLess key) (filter P table)) = mset (filter P table)"
    by simp
  then show "distinct table \<Longrightarrow> distinct (takeRows key n P table)"
    unfolding takeRows_def by (metis distinct_filter distinct_take mset_eq_imp_distinct_iff)
qed

lemma cleanupCandidates_props:
  assumes dist: "distinct (map rowID table)"
  shows "distinct (cleanupCandidates dbnow startedAt locked table)"
    and "set (cleanupCandidates dbnow startedAt locked table) \<subseteq> {row \<in> set table. removable dbnow startedAt row \<and> \<not> locked (rowID row)}"
    and "length (cleanupCandidates dbnow startedAt locked table) < failoverCleanupBatchSize \<Longrightarrow>
      set (cleanupCandidates dbnow startedAt locked table) = {row \<in> set table. removable dbnow startedAt row \<and> \<not> locked (rowID row)}"
proof -
  let ?free = "\<lambda>row. \<not> locked (rowID row)"
  define expired where "expired = takeRows (\<lambda>row. fr_ExpiresAt (row_record row)) failoverCleanupBatchSize (\<lambda>row. ?free row \<and> expiredRow dbnow row) table"
  define terminal where "terminal = takeRows (\<lambda>row. fr_UpdatedAt (row_record row)) (failoverCleanupBatchSize - length expired)
            (\<lambda>row. ?free row \<and> terminalRow row \<and> rowID row \<notin> rowIDs expired) table"
  define stale where "stale = takeRows row_CreatedAt (failoverCleanupBatchSize - length expired - length terminal)
            (\<lambda>row. ?free row \<and> staleRow startedAt row \<and> rowID row \<notin> rowIDs expired) table"
  note defs = expired_def terminal_def stale_def
  have len: "length expired \<le> failoverCleanupBatchSize" "length terminal \<le> failoverCleanupBatchSize - length expired"
      "length stale \<le> failoverCleanupBatchSize - length expired - length terminal"
    unfolding defs by (rule takeRows_props)+
  then have all: "cleanupCandidates dbnow startedAt locked table = expired @ terminal @ stale"
    unfolding cleanupCandidates_def Let_def defs [symmetric] by simp
  have dt: "distinct table"
    using dist by (simp add: distinct_map)
  have d: "distinct expired" "distinct terminal" "distinct stale"
    unfolding defs by (rule takeRows_props(4) [OF dt])+
  have sub: "set expired \<subseteq> {row \<in> set table. ?free row \<and> expiredRow dbnow row}"
      "set terminal \<subseteq> {row \<in> set table. ?free row \<and> terminalRow row \<and> rowID row \<notin> rowIDs expired}"
      "set stale \<subseteq> {row \<in> set table. ?free row \<and> staleRow startedAt row \<and> rowID row \<notin> rowIDs expired}"
    unfolding defs by (rule takeRows_props)+
  have active: "terminalRow row \<Longrightarrow> \<not> staleRow startedAt row" for row
    by (auto simp: terminalRow_def staleRow_def)
  have "rowID row \<in> rowIDs expired" if "row \<in> set expired" for row
    using that by (simp add: rowIDs_def)
  then have "set expired \<inter> set terminal = {}" "set expired \<inter> set stale = {}"
    using sub(2,3) by blast+
  moreover have "set terminal \<inter> set stale = {}"
    using sub(2,3) active by blast
  ultimately show "distinct (cleanupCandidates dbnow startedAt locked table)"
    using d by (auto simp: all)
  show "set (cleanupCandidates dbnow startedAt locked table) \<subseteq> {row \<in> set table. removable dbnow startedAt row \<and> \<not> locked (rowID row)}"
    using sub by (auto simp: all removable_def)
  assume "length (cleanupCandidates dbnow startedAt locked table) < failoverCleanupBatchSize"
  then have short: "length expired < failoverCleanupBatchSize" "length terminal < failoverCleanupBatchSize - length expired"
      "length stale < failoverCleanupBatchSize - length expired - length terminal"
    by (simp_all add: all)
  have "set expired = {row \<in> set table. ?free row \<and> expiredRow dbnow row}"
      "set terminal = {row \<in> set table. ?free row \<and> terminalRow row \<and> rowID row \<notin> rowIDs expired}"
      "set stale = {row \<in> set table. ?free row \<and> staleRow startedAt row \<and> rowID row \<notin> rowIDs expired}"
    using takeRows_props(3) [OF short(1) [unfolded expired_def]] takeRows_props(3) [OF short(2) [unfolded terminal_def]]
      takeRows_props(3) [OF short(3) [unfolded stale_def]]
    by (fold defs) assumption+
  moreover have "row \<in> set expired" if member: "rowID row \<in> rowIDs expired" "row \<in> set table" for row
  proof -
    from member(1) obtain row' where row': "row' \<in> set expired" "rowID row = rowID row'"
      by (auto simp: rowIDs_def)
    then have "row' \<in> set table" using sub(1) by blast
    from unique_row [OF dist this member(2) row'(2)] row'(1) show ?thesis by simp
  qed
  ultimately show "set (cleanupCandidates dbnow startedAt locked table) = {row \<in> set table. removable dbnow startedAt row \<and> \<not> locked (rowID row)}"
    by (auto simp: all removable_def)
qed

lemma length_filter_mem:
  assumes "distinct xs" "distinct ys" "set ys \<subseteq> set xs"
  shows "length (filter (\<lambda>x. x \<in> set ys) xs) = length ys"
proof -
  have "set (filter (\<lambda>x. x \<in> set ys) xs) = set ys"
    using assms(3) by auto
  then show ?thesis
    using assms(1,2) by (metis distinct_card distinct_filter)
qed

lemma cleanupBatch_props:
  assumes dist: "distinct (map rowID table)"
  shows "snd (cleanupFailoversBatch dbnow startedAt locked table) = filter (\<lambda>row. row \<notin> set (cleanupCandidates dbnow startedAt locked table)) table"
    and "fst (cleanupFailoversBatch dbnow startedAt locked table) = length (cleanupCandidates dbnow startedAt locked table)"
proof -
  let ?cs = "cleanupCandidates dbnow startedAt locked table"
  have sub: "set ?cs \<subseteq> set table"
    using cleanupCandidates_props(2) [OF dist] by blast
  have hit: "rowID row \<in> rowIDs ?cs \<longleftrightarrow> row \<in> set ?cs" if "row \<in> set table" for row
    using unique_row [OF dist, of _ row] sub that by (auto simp: rowIDs_def)
  then show "snd (cleanupFailoversBatch dbnow startedAt locked table) = filter (\<lambda>row. row \<notin> set ?cs) table"
    by (auto simp: cleanupFailoversBatch_def Let_def intro: filter_cong)
  have "filter (\<lambda>row. rowID row \<in> rowIDs ?cs) table = filter (\<lambda>row. row \<in> set ?cs) table"
    using hit by (intro filter_cong) auto
  moreover have "length (filter (\<lambda>row. row \<in> set ?cs) table) = length ?cs"
    using sub cleanupCandidates_props(1) [OF dist, of dbnow startedAt locked] dist
    by (intro length_filter_mem) (auto simp: distinct_map)
  ultimately show "fst (cleanupFailoversBatch dbnow startedAt locked table) = length ?cs"
    by (simp add: cleanupFailoversBatch_def Let_def)
qed

text \<open>
  C11. The cleanup loop ends and is complete: with no error and no row held by another transaction it
  returns with exactly the rows that are neither expired, nor exhausted or cancelled, nor left over by
  an earlier run of the server, however many batches of five hundred that takes.
\<close>

theorem cleanupPersistedFailovers_complete:
  assumes "distinct (map rowID table)"
  shows "cleanupPersistedFailovers (\<lambda>_. None) (\<lambda>_. None) (\<lambda>_. dbnow) startedAt (\<lambda>_ _. False) k table =
    (None, filter (\<lambda>row. \<not> (expiredRow dbnow row \<or> terminalRow row \<or> staleRow startedAt row)) table)"
  using assms
proof (induction "length table" arbitrary: table k rule: less_induct)
  case less
  let ?batch = "cleanupFailoversBatch dbnow startedAt (\<lambda>_. False) table"
  let ?cs = "cleanupCandidates dbnow startedAt (\<lambda>_. False) table"
  note batch = cleanupBatch_props [OF less.prems, of dbnow startedAt "\<lambda>_. False"]
  note cands = cleanupCandidates_props [OF less.prems, of dbnow startedAt "\<lambda>_. False"]
  show ?case
  proof (cases "fst ?batch < failoverCleanupBatchSize")
    case True
    then have "set ?cs = {row \<in> set table. removable dbnow startedAt row}"
      using cands(3) batch(2) by simp
    then have "snd ?batch = filter (\<lambda>row. \<not> removable dbnow startedAt row) table"
      unfolding batch(1) by (intro filter_cong) auto
    with True show ?thesis
      by (subst cleanupPersistedFailovers.simps) (simp add: Let_def removable_def)
  next
    case False
    have "length (snd ?batch) < length table"
      using cleanupFailoversBatch_length [of dbnow startedAt "\<lambda>_. False" table] False by (simp add: failoverCleanupBatchSize_def)
    moreover have "distinct (map rowID (snd ?batch))"
      unfolding batch(1) using less.prems by (rule distinct_map_filter)
    ultimately have "cleanupPersistedFailovers (\<lambda>_. None) (\<lambda>_. None) (\<lambda>_. dbnow) startedAt (\<lambda>_ _. False) (Suc k) (snd ?batch) =
        (None, filter (\<lambda>row. \<not> removable dbnow startedAt row) (snd ?batch))"
      unfolding removable_def by (rule less.hyps)
    moreover have "filter (\<lambda>row. \<not> removable dbnow startedAt row) (snd ?batch) = filter (\<lambda>row. \<not> removable dbnow startedAt row) table"
      unfolding batch(1) filter_filter using cands(2) by (intro filter_cong) auto
    ultimately show ?thesis
      using False by (subst cleanupPersistedFailovers.simps) (simp add: Let_def removable_def)
  qed
qed

text \<open>
  C8. In every table the methods can reach, from an empty one and whatever the clients, clocks, faults
  and concurrent cleanups do: a record has at most three attempts and plays the candidate its attempt
  count names, an active record never plays a failed candidate and its revision is one more than its
  attempts, every stored row satisfies the table's check constraints, and a login session has at most
  sixteen live active records.
\<close>

theorem failover_table_invariant:
  assumes "snd start = []" and reach: "(failover_step startedAt)\<^sup>*\<^sup>* start (dbnow, table)" and row: "row \<in> set table"
  shows "0 \<le> fr_AttemptCount (row_record row) \<and> fr_AttemptCount (row_record row) \<le> fr_MaximumAttempts (row_record row) \<and>
    fr_MaximumAttempts (row_record row) \<le> 3 \<and>
    fr_CurrentSourceRef (row_record row) = fr_Candidates (row_record row) ! nat (fr_AttemptCount (row_record row)) \<and>
    (fr_Status (row_record row) = ''active'' \<longrightarrow>
       fr_CurrentSourceRef (row_record row) \<notin> set (fr_FailedCandidates (row_record row)) \<and>
       fr_Revision (row_record row) = fr_AttemptCount (row_record row) + 1) \<and>
    rowConstraints row \<and> activeCount dbnow startedAt sessionID table \<le> 16"
proof -
  have ok: "tableOk startedAt (dbnow, table)"
    using failover.inv_reachable [OF assms(1) reach] .
  then have r: "recordOk (row_record row)" "rowConstraints row"
    using row by (auto simp: tableOk_def list_all_iff rowOk_def)
  have count: "activeCount dbnow startedAt sessionID table \<le> 16"
    using ok by (simp add: tableOk_def maximumFailoversPerAuthSession_def)
  have fresh: "xs ! n \<notin> set (take n xs)" if "distinct xs" "n < length xs" for n and xs :: "string list"
    using that by (auto simp: in_set_conv_nth distinct_conv_nth)
  have len: "nat (fr_AttemptCount (row_record row)) < length (fr_Candidates (row_record row))"
    using r(1) by (auto simp: recordOk_def)
  have "fr_CurrentSourceRef (row_record row) \<notin> set (fr_FailedCandidates (row_record row))"
    if "fr_Status (row_record row) = ''active''"
    using len r(1) that fresh [of "fr_Candidates (row_record row)" "nat (fr_AttemptCount (row_record row))"] by (auto simp: recordOk_def)
  with r count show ?thesis
    by (auto simp: recordOk_def)
qed

section \<open>Advancing once\<close>

lemma recordOk_constraints:
  assumes "recordOk (row_record row)" "fr_PositionSeconds (row_record row) = Finite q" "0 \<le> q" "q \<le> 86400"
    "fr_LastError (row_record row) \<in> {[], ''source_failed'', ''source_timeout'', ''ended_early''}"
    "row_CreatedAt row < fr_ExpiresAt (row_record row)"
  shows "rowConstraints row"
proof -
  have "nat (fr_AttemptCount (row_record row)) < length (fr_Candidates (row_record row))"
    using assms(1) by (auto simp: recordOk_def)
  then have "16 \<le> length (fr_CurrentSourceRef (row_record row))" "length (fr_CurrentSourceRef (row_record row)) \<le> 128"
    using assms(1) by (auto simp: recordOk_def list_all_length)
  moreover have "length (fr_FailedCandidates (row_record row)) \<le> 8"
    using assms(1) by (auto simp: recordOk_def)
  ultimately show ?thesis
    using assms by (auto simp: rowConstraints_def Let_def recordOk_def)
qed

lemma advancedRow_constraints:
  assumes "rowOk row" "fr_Status (row_record row) = ''active''" "0 \<le> q" "q \<le> 86400" "eligibleFailoverError failure"
  shows "rowConstraints (advancedRow failure (Finite q) now row)"
proof (rule recordOk_constraints [of _ q])
  have r: "recordOk (row_record row)" "row_CreatedAt row < fr_ExpiresAt (row_record row)"
    using assms(1) by (auto simp: rowOk_def rowConstraints_def Let_def)
  note fields = advance_fields [OF r(1) assms(2), of failure "Finite q" now]
  show "recordOk (row_record (advancedRow failure (Finite q) now row))"
    using advance_ok [OF r(1) assms(2)] by (simp add: advancedRow_def)
  show "fr_LastError (row_record (advancedRow failure (Finite q) now row)) \<in> {[], ''source_failed'', ''source_timeout'', ''ended_early''}"
    using fields assms(5) by (auto simp: advancedRow_def eligibleFailoverError_def)
  show "row_CreatedAt (advancedRow failure (Finite q) now row) < fr_ExpiresAt (row_record (advancedRow failure (Finite q) now row))"
    using fields r(2) by (simp add: advancedRow_def)
qed (use assms advance_fields in \<open>auto simp: advancedRow_def rowOk_def\<close>)

text \<open>
  An advance is applied once: an authorised report with an eligible error, a valid position and the
  current revision of a live active record always succeeds (no check constraint of the table can refuse
  it) and answers with the next revision; a second report with the same expected revision, by anyone and
  at any later time, is refused and leaves the table as it is.
\<close>

theorem AdvanceFailover_once:
  assumes ok: "distinct (map rowID table)" "list_all rowOk table"
    and row: "row \<in> set table" "rowID row = TrimSpace ident" "length (rowID row) = 36"
      "advanceable dbnow startedAt caller (ai_ExpectedRevision input) row"
    and input: "eligibleFailoverError (ai_Error input)" "ai_PositionSeconds input = Finite q" "0 \<le> q" "q \<le> 86400"
    and authorized: "beginAuthorizedProfileTx authorize (now 0) caller = None" and noFault: "fault = (\<lambda>_. None)"
    and again: "TrimSpace ident' = TrimSpace ident" "ai_ExpectedRevision input' = ai_ExpectedRevision input"
  shows "\<exists>state table'. AdvanceFailover authorize now dbnow startedAt fault caller ident input table = (Inr state, table') \<and>
    fs_Revision state = ai_ExpectedRevision input + 1 \<and>
    (\<exists>e. AdvanceFailover authorize' now' dbnow' startedAt' fault' caller' ident' input' table' = (Inl e, table'))"
proof -
  let ?row' = "advancedRow (ai_Error input) (ai_PositionSeconds input) (now 1) row"
  let ?table' = "map (\<lambda>x. if x = row then ?row' else x) table"
  have able: "ownedRow caller row" "liveRow dbnow startedAt row" "fr_Status (row_record row) = ''active''"
      "fr_Revision (row_record row) = ai_ExpectedRevision input"
    using row(4) by (simp_all add: advanceable_def)
  have rok: "rowOk row" and r: "recordOk (row_record row)"
    using ok(2) row(1) by (auto simp: list_all_iff rowOk_def)
  have constraints: "rowConstraints ?row'"
    unfolding input(2) by (rule advancedRow_constraints [OF rok able(3) input(3,4,1)])
  have load: "loadFailover dbnow startedAt fault 0 caller (TrimSpace ident) table = Inr (row_record row)"
    using loadFailover_found [OF ok(1) row(1) able(1,2) row(3), of fault 0] row(2) noFault by simp
  have commit: "commitAdvance fault caller input (now 1) (row_record row) table =
      (Inr ((projectFailover (row_record ?row'))\<lparr>fs_Explanation :=
        (if fr_AttemptCount (row_record row) < fr_MaximumAttempts (row_record row) then advancedText else exhaustedText)\<rparr>), ?table')"
    unfolding commitAdvance_outcome [OF ok(1) r row(1) refl able(1,4,3)] using constraints noFault by (simp add: Let_def)
  have "validFailoverError (ai_Error input)" "ai_ExpectedRevision input \<ge> 1"
    using input(1) able(3,4) r by (auto simp: validFailoverError_def eligibleFailoverError_def recordOk_def)
  then have first: "AdvanceFailover authorize now dbnow startedAt fault caller ident input table =
      (Inr ((projectFailover (row_record ?row'))\<lparr>fs_Explanation :=
        (if fr_AttemptCount (row_record row) < fr_MaximumAttempts (row_record row) then advancedText else exhaustedText)\<rparr>), ?table')"
    using input authorized load able(3,4) commit by (simp add: AdvanceFailover_def)
  note row' = advancedRow_ok [OF rok able(3) constraints]
  have ids: "map rowID ?table' = map rowID table"
    by (rule map_replace_ids) (rule row'(2))
  have ok': "distinct (map rowID ?table')" "list_all rowOk ?table'"
    unfolding ids using ok row'(1) by (auto simp: list_all_iff)
  have "\<not> advanceable dbnow' startedAt' caller' (ai_ExpectedRevision input') x"
    if x: "x \<in> set ?table'" "rowID x = TrimSpace ident'" for x
  proof -
    have "?row' \<in> set ?table'" using row(1) by force
    from unique_row [OF ok'(1) this x(1)] x(2) row(2) again(1) row'(2) have "x = ?row'" by simp
    then show ?thesis
      using row'(5) able(4) again(2) by (simp add: advanceable_def)
  qed
  then have "\<exists>e. AdvanceFailover authorize' now' dbnow' startedAt' fault' caller' ident' input' ?table' = (Inl e, ?table')"
    using AdvanceFailover_outcome [OF ok', where ident = ident'] by blast
  moreover have "fs_Revision (projectFailover (row_record ?row')) = ai_ExpectedRevision input + 1"
    using row'(5) able(4) by (simp add: projectFailover_def)
  ultimately show ?thesis
    using first by auto
qed

section \<open>A concrete failover\<close>

definition exampleRecord :: failoverRecord where
  "exampleRecord = \<lparr>fr_ID = replicate 36 (CHR ''f''), fr_Candidates = [replicate 16 (CHR ''a''), replicate 17 (CHR ''a''), replicate 18 (CHR ''a'')],
     fr_FailedCandidates = [], fr_CurrentSourceRef = replicate 16 (CHR ''a''), fr_PositionSeconds = Finite 0, fr_AttemptCount = 0,
     fr_MaximumAttempts = 2, fr_Revision = 1, fr_Status = ''active'', fr_LastError = [], fr_UpdatedAt = 0, fr_ExpiresAt = 100\<rparr>"

definition exampleRow :: failoverRow where
  "exampleRow = \<lparr>row_record = exampleRecord, row_AuthSessionID = ''s'', row_ProfileID = ''p'', row_CreatedAt = 0\<rparr>"

definition grantedCaller :: Principal where
  "grantedCaller = exampleCaller\<lparr>pr_ProfileGrantExpiresAt := Some 1000\<rparr>"

definition exampleReport :: AdvanceFailoverInput where
  "exampleReport = \<lparr>ai_Error = ''source_failed'', ai_PositionSeconds = Finite 12, ai_ExpectedRevision = 1\<rparr>"

definition exampleCreate :: CreateFailoverInput where
  "exampleCreate = \<lparr>ci_CandidateSourceRefs = [replicate 16 (CHR ''a''), replicate 17 (CHR ''a'')],
     ci_SelectedSourceRef = replicate 16 (CHR ''a''), ci_MaximumAttempts = 0\<rparr>"

lemma example_record: "recordOk exampleRecord" "fr_Status exampleRecord = ''active''" "fr_AttemptCount exampleRecord = 0"
  "fr_MaximumAttempts exampleRecord = 2"
  by code_simp+

theorem advanceFailoverRecord_walks_witness:
  "\<exists>r. advanceFailoverRecord exampleRecord ''source_failed'' (Finite 12) 7 = (r, True) \<and> recordOk r \<and>
     fr_CurrentSourceRef r \<notin> set (fr_FailedCandidates r) \<and> fr_Revision r = 2"
proof -
  obtain r advanced where a: "advanceFailoverRecord exampleRecord ''source_failed'' (Finite 12) 7 = (r, advanced)"
    by force
  have "fr_Revision exampleRecord = 1" by code_simp
  with a advanceFailoverRecord_walks [OF example_record(1,2) a] example_record(3,4) show ?thesis by (cases advanced) auto
qed

theorem failureRun_ends_witness:
  "fr_CurrentSourceRef (failureRun [(''source_failed'', Finite 1, 1), (''ended_early'', Finite 2, 2)] exampleRecord) = replicate 18 (CHR ''a'') \<and>
   fr_Status (failureRun [(''source_failed'', Finite 1, 1), (''ended_early'', Finite 2, 2), (''source_timeout'', Finite 3, 3)] exampleRecord) = ''exhausted''"
proof -
  have "fr_Candidates exampleRecord ! Suc (Suc 0) = replicate 18 (CHR ''a'')" by code_simp
  then show ?thesis
    using failureRun_ends [OF example_record(1-3), of "[(''source_failed'', Finite 1, 1), (''ended_early'', Finite 2, 2)]"
        "[(''source_failed'', Finite 1, 1), (''ended_early'', Finite 2, 2), (''source_timeout'', Finite 3, 3)]"]
    by (simp add: example_record)
qed

theorem cleanupPersistedFailovers_complete_witness:
  "cleanupPersistedFailovers (\<lambda>_. None) (\<lambda>_. None) (\<lambda>_. 200) 0 (\<lambda>_ _. False) 0 [exampleRow] = (None, [])"
proof -
  have "expiredRow 200 exampleRow" by code_simp
  then show ?thesis
    using cleanupPersistedFailovers_complete [of "[exampleRow]" 200 0 0] by simp
qed

theorem failover_table_invariant_witness:
  "\<exists>row. (failover_step 0)\<^sup>*\<^sup>* (5, []) (5, [row]) \<and> fr_Status (row_record row) = ''active'' \<and>
     fr_CurrentSourceRef (row_record row) \<notin> set (fr_FailedCandidates (row_record row)) \<and> activeCount 5 0 ''s'' [row] \<le> 16"
proof -
  let ?table = "snd (snd (CreateFailover (\<lambda>_. None) (\<lambda>_. 5) (\<lambda>_ _. 5) 5 0 (\<lambda>_. None) (\<lambda>_. False) (replicate 36 (CHR ''f'')) grantedCaller
    exampleCreate exampleStore []))"
  have "failover_step 0 (5, []) (5, ?table)"
    by (rule failover_step.create) (simp add: rowIDs_def)
  then have step: "(failover_step 0)\<^sup>*\<^sup>* (5, []) (5, ?table)"
    by (rule r_into_rtranclp)
  have "length ?table = 1 \<and> list_all (\<lambda>row. fr_Status (row_record row) = ''active'') ?table"
    by code_simp
  then obtain row where row: "?table = [row]" "fr_Status (row_record row) = ''active''"
    by (cases ?table) auto
  with failover_table_invariant [OF _ step, of row "''s''"] step show ?thesis by auto
qed

theorem AdvanceFailover_once_witness:
  "\<exists>state table. AdvanceFailover (\<lambda>_. None) (\<lambda>_. 5) 5 0 (\<lambda>_. None) grantedCaller (replicate 36 (CHR ''f'')) exampleReport [exampleRow] = (Inr state, table) \<and>
     fs_Revision state = 2 \<and>
     (\<exists>e. AdvanceFailover (\<lambda>_. None) (\<lambda>_. 6) 6 0 (\<lambda>_. None) grantedCaller (replicate 36 (CHR ''f'')) exampleReport table = (Inl e, table))"
proof -
  have facts: "distinct (map rowID [exampleRow])" "list_all rowOk [exampleRow]" "rowID exampleRow = TrimSpace (replicate 36 (CHR ''f''))"
    "length (rowID exampleRow) = 36" "advanceable 5 0 grantedCaller (ai_ExpectedRevision exampleReport) exampleRow"
    "eligibleFailoverError (ai_Error exampleReport)" "ai_PositionSeconds exampleReport = Finite 12"
    "beginAuthorizedProfileTx (\<lambda>_. None) 5 grantedCaller = None" "ai_ExpectedRevision exampleReport = 1"
    by code_simp+
  show ?thesis
    using AdvanceFailover_once [OF facts(1,2) _ facts(3-7) _ _ facts(8) refl refl refl, of "\<lambda>_. None" "\<lambda>_. 6" 6 0 "\<lambda>_. None" grantedCaller]
      facts(9) by simp
qed

end
