(* ===== verification/Admission.thy ===== *)
theory Admission
  imports Net_Address "HOL-Library.AList" "HOL-Library.Multiset"
begin

unbundle bit_operations_syntax

text \<open>
  Admission of unauthenticated requests, \<open>server/internal/httpapi/admission.go\<close>: per network source a
  fixed window of attempts and a limit of concurrent requests, and the count of failed logins per user name.

  The states of the sources are heap objects: a release function keeps the pointer it was created with,
  while the map may drop the entry. \<open>ra_heap\<close> holds the objects ever allocated, \<open>ra_sources\<close> the
  map from source to address, in the order in which Go happens to range over it. A release function is a
  token: the address it captured and whether its \<open>sync.Once\<close> has run. Instants and durations are in
  nanoseconds.
\<close>

section \<open>State\<close>

definition second :: int where "second = 1000000000"
definition minute :: int where "minute = 60 * second"

definition publicAdmissionWindow :: int where "publicAdmissionWindow = minute"
definition publicAdmissionConcurrencyRetry :: int where "publicAdmissionConcurrencyRetry = second"
definition publicAdmissionCleanupLimit :: nat where "publicAdmissionCleanupLimit = 64"

record admissionSource =
  as_attempts :: int
  as_inFlight :: int
  as_windowEnds :: int

record attemptBudget =
  ab_attempts :: int
  ab_windowEnds :: int

record usernameAdmission =
  ua_window :: int
  ua_subjectAttempts :: int
  ua_maximumSubjects :: int
  ua_subjects :: "(string \<times> attemptBudget) list"

record requestAdmission =
  ra_window :: int
  ra_globalConcurrency :: int
  ra_sourceConcurrency :: int
  ra_sourceAttempts :: int
  ra_maximumSources :: int
  ra_inFlight :: int
  ra_sources :: "(string \<times> nat) list"
  ra_heap :: "admissionSource list"

definition newRequestAdmission :: "int \<Rightarrow> int \<Rightarrow> int \<Rightarrow> int \<Rightarrow> int \<Rightarrow> requestAdmission" where
  "newRequestAdmission globalConcurrency sourceConcurrency sourceAttempts maximumSources window =
     \<lparr>ra_window = window, ra_globalConcurrency = globalConcurrency, ra_sourceConcurrency = sourceConcurrency,
      ra_sourceAttempts = sourceAttempts, ra_maximumSources = maximumSources, ra_inFlight = 0, ra_sources = [], ra_heap = []\<rparr>"

definition newCredentialAdmission :: requestAdmission where
  "newCredentialAdmission = newRequestAdmission 4 1 10 2048 publicAdmissionWindow"

definition newDeviceCodeAdmission :: requestAdmission where
  "newDeviceCodeAdmission = newRequestAdmission 8 2 60 4096 publicAdmissionWindow"

definition newCalendarFeedAdmission :: requestAdmission where
  "newCalendarFeedAdmission = newRequestAdmission 8 2 120 4096 publicAdmissionWindow"

definition newUsernameAdmission :: "int \<Rightarrow> int \<Rightarrow> int \<Rightarrow> usernameAdmission" where
  "newUsernameAdmission subjectAttempts maximumSubjects window =
     \<lparr>ua_window = window, ua_subjectAttempts = subjectAttempts, ua_maximumSubjects = maximumSubjects, ua_subjects = []\<rparr>"

definition newCredentialUsernameAdmission :: usernameAdmission where
  "newCredentialUsernameAdmission = newUsernameAdmission 10 2048 publicAdmissionWindow"

section \<open>Requests per source\<close>

definition networkAdmissionSource :: "string \<Rightarrow> string" where
  "networkAdmissionSource source =
     (case ParseAddr (TrimSpace source) of None \<Rightarrow> ''unknown''
      | Some parsed \<Rightarrow>
          (let address = WithZone (Unmap parsed) []
           in if Is4 address then AddrString address else PrefixString (Masked (PrefixFrom address 64))))"

definition expiredSource :: "int \<Rightarrow> admissionSource \<Rightarrow> bool" where
  "expiredSource now state \<longleftrightarrow> as_inFlight state = 0 \<and> \<not> now < as_windowEnds state"

fun cleanupSources :: "admissionSource list \<Rightarrow> int \<Rightarrow> nat \<Rightarrow> (string \<times> nat) list \<Rightarrow> (string \<times> nat) list" where
  "cleanupSources heap now 0 sources = sources"
| "cleanupSources heap now (Suc limit) [] = []"
| "cleanupSources heap now (Suc limit) ((source, p) # sources) =
     (if expiredSource now (heap ! p) then cleanupSources heap now limit sources
      else (source, p) # cleanupSources heap now (Suc limit) sources)"

definition cleanupExpired :: "int \<Rightarrow> nat \<Rightarrow> requestAdmission \<Rightarrow> requestAdmission" where
  "cleanupExpired now limit admission = admission\<lparr>ra_sources := cleanupSources (ra_heap admission) now limit (ra_sources admission)\<rparr>"

text \<open>The last part of \<open>acquire\<close>, on the state the source has: the delay after which to retry, or the address.\<close>

definition admitSource :: "int \<Rightarrow> nat \<Rightarrow> requestAdmission \<Rightarrow> (int + nat) \<times> requestAdmission" where
  "admitSource now p admission =
     (let state = ra_heap admission ! p
      in if as_inFlight state \<ge> ra_sourceConcurrency admission then (Inl publicAdmissionConcurrencyRetry, admission)
         else if as_attempts state \<ge> ra_sourceAttempts admission then
           (let retryAfter = as_windowEnds state - now
            in (Inl (if retryAfter \<le> 0 then publicAdmissionConcurrencyRetry else retryAfter), admission))
         else (Inr p, admission\<lparr>ra_inFlight := ra_inFlight admission + 1,
           ra_heap := (ra_heap admission)[p := state\<lparr>as_attempts := as_attempts state + 1, as_inFlight := as_inFlight state + 1\<rparr>]\<rparr>))"

text \<open>The state of a source, allocated or with a new window where needed; \<^const>\<open>None\<close> when no more sources are tracked.\<close>

definition prepareSource :: "int \<Rightarrow> string \<Rightarrow> requestAdmission \<Rightarrow> (nat \<times> requestAdmission) option" where
  "prepareSource now source admission =
     (case map_of (ra_sources admission) source of
        None \<Rightarrow>
          if int (length (ra_sources admission)) \<ge> ra_maximumSources admission then None
          else (let p = length (ra_heap admission)
            in Some (p, admission\<lparr>
                 ra_heap := ra_heap admission @ [\<lparr>as_attempts = 0, as_inFlight = 0, as_windowEnds = now + ra_window admission\<rparr>],
                 ra_sources := ra_sources admission @ [(source, p)]\<rparr>))
      | Some p \<Rightarrow>
          (let state = ra_heap admission ! p
           in Some (p, if expiredSource now state
                then admission\<lparr>ra_heap := (ra_heap admission)[p := state\<lparr>as_attempts := 0, as_windowEnds := now + ra_window admission\<rparr>]\<rparr>
                else admission)))"

definition acquireSource :: "int \<Rightarrow> string \<Rightarrow> requestAdmission \<Rightarrow> (int + nat) \<times> requestAdmission" where
  "acquireSource now source admission0 =
     (let admission = cleanupExpired now publicAdmissionCleanupLimit admission0
      in if ra_inFlight admission \<ge> ra_globalConcurrency admission then (Inl publicAdmissionConcurrencyRetry, admission)
         else case prepareSource now source admission of
           None \<Rightarrow> (Inl publicAdmissionConcurrencyRetry, admission)
         | Some (p, prepared) \<Rightarrow> admitSource now p prepared)"

definition acquire :: "int \<Rightarrow> string \<Rightarrow> requestAdmission \<Rightarrow> (int + nat) \<times> requestAdmission" where
  "acquire now source admission = acquireSource now (networkAdmissionSource source) admission"

text \<open>The function \<open>acquire\<close> returns, called on the object it captured: the first call counts.\<close>

type_synonym token = "nat \<times> bool"

definition releaseOnce :: "token \<Rightarrow> requestAdmission \<Rightarrow> token \<times> requestAdmission" where
  "releaseOnce token admission =
     (case token of (p, called) \<Rightarrow>
        if called then (token, admission)
        else ((p, True), admission\<lparr>ra_inFlight := ra_inFlight admission - 1,
          ra_heap := (ra_heap admission)[p := (ra_heap admission ! p)\<lparr>as_inFlight := as_inFlight (ra_heap admission ! p) - 1\<rparr>]\<rparr>))"

section \<open>Failures per user name\<close>

definition usernameSubject :: "(string \<Rightarrow> string) \<Rightarrow> string \<Rightarrow> string" where
  "usernameSubject sha256 username = sha256 (ToLower (TrimSpace username))"

text \<open>At most \<open>limit\<close> entries are looked at.\<close>

definition cleanupSubjects :: "int \<Rightarrow> nat \<Rightarrow> (string \<times> attemptBudget) list \<Rightarrow> (string \<times> attemptBudget) list" where
  "cleanupSubjects now limit subjects = filter (\<lambda>(_, state). now < ab_windowEnds state) (take limit subjects) @ drop limit subjects"

text \<open>The budget of a subject before the failure is counted, and the entries it is stored among.\<close>

definition failureState :: "int \<Rightarrow> string \<Rightarrow> usernameAdmission \<Rightarrow> attemptBudget \<times> (string \<times> attemptBudget) list" where
  "failureState now subject admission =
     (case map_of (ua_subjects admission) subject of
        None \<Rightarrow> (\<lparr>ab_attempts = 0, ab_windowEnds = now + ua_window admission\<rparr>,
          if int (length (ua_subjects admission)) \<ge> ua_maximumSubjects admission then tl (ua_subjects admission)
          else ua_subjects admission)
      | Some state \<Rightarrow> (if \<not> now < ab_windowEnds state then \<lparr>ab_attempts = 0, ab_windowEnds = now + ua_window admission\<rparr> else state,
          ua_subjects admission))"

definition recordFailure :: "(string \<Rightarrow> string) \<Rightarrow> int \<Rightarrow> string \<Rightarrow> usernameAdmission \<Rightarrow> usernameAdmission" where
  "recordFailure sha256 now username admission0 =
     (let subject = usernameSubject sha256 username;
          admission = admission0\<lparr>ua_subjects := cleanupSubjects now publicAdmissionCleanupLimit (ua_subjects admission0)\<rparr>
      in if ua_maximumSubjects admission \<le> 0 then admission
         else
           (let (state, subjects) = failureState now subject admission;
                counted = (if ab_attempts state < ua_subjectAttempts admission then state\<lparr>ab_attempts := ab_attempts state + 1\<rparr> else state)
            in admission\<lparr>ua_subjects := AList.update subject counted subjects\<rparr>))"

definition forget :: "(string \<Rightarrow> string) \<Rightarrow> string \<Rightarrow> usernameAdmission \<Rightarrow> usernameAdmission" where
  "forget sha256 username admission =
     admission\<lparr>ua_subjects := AList.delete (usernameSubject sha256 username) (ua_subjects admission)\<rparr>"

section \<open>The answer\<close>

definition retryAfterSeconds :: "int \<Rightarrow> int" where
  "retryAfterSeconds retryAfter = max 1 (go_div (retryAfter + second - 1) second)"

text \<open>The status, the error code and the \<open>Retry-After\<close> header of a refused request.\<close>

definition writeAdmissionDenied :: "int \<Rightarrow> nat \<times> string \<times> string" where
  "writeAdmissionDenied retryAfter = (429, ''rate_limited'', Itoa (retryAfterSeconds retryAfter))"

section \<open>The system of calls\<close>

text \<open>
  The admission together with the tokens handed out and the calls made so far (when, by which source,
  and whether it was admitted).
\<close>

record admissionSystem =
  sys_admission :: requestAdmission
  sys_tokens :: "token list"
  sys_calls :: "(int \<times> string \<times> bool) list"

inductive admission_step :: "admissionSystem \<Rightarrow> admissionSystem \<Rightarrow> bool" where
  call: "acquire now source (sys_admission s) = (result, admission) \<Longrightarrow>
    admission_step s (s\<lparr>sys_admission := admission,
      sys_tokens := sys_tokens s @ (case result of Inl _ \<Rightarrow> [] | Inr p \<Rightarrow> [(p, False)]),
      sys_calls := sys_calls s @ [(now, networkAdmissionSource source, \<not> isl result)]\<rparr>)"
| release: "i < length (sys_tokens s) \<Longrightarrow> releaseOnce (sys_tokens s ! i) (sys_admission s) = (token, admission) \<Longrightarrow>
    admission_step s (s\<lparr>sys_admission := admission, sys_tokens := (sys_tokens s)[i := token]\<rparr>)"
| reorder: "mset sources = mset (ra_sources (sys_admission s)) \<Longrightarrow>
    admission_step s (s\<lparr>sys_admission := (sys_admission s)\<lparr>ra_sources := sources\<rparr>\<rparr>)"

definition startSystem :: "int \<Rightarrow> int \<Rightarrow> int \<Rightarrow> int \<Rightarrow> int \<Rightarrow> admissionSystem" where
  "startSystem globalConcurrency sourceConcurrency sourceAttempts maximumSources window =
     \<lparr>sys_admission = newRequestAdmission globalConcurrency sourceConcurrency sourceAttempts maximumSources window,
      sys_tokens = [], sys_calls = []\<rparr>"

section \<open>Pointers and tokens\<close>

definition liveTokens :: "token list \<Rightarrow> nat \<Rightarrow> nat" where
  "liveTokens tokens p = length (filter (\<lambda>(q, called). q = p \<and> \<not> called) tokens)"

definition liveCount :: "token list \<Rightarrow> nat" where
  "liveCount tokens = length (filter (\<lambda>(q, called). \<not> called) tokens)"

definition limitsOk :: "requestAdmission \<Rightarrow> bool" where
  "limitsOk a \<longleftrightarrow> 0 \<le> ra_globalConcurrency a \<and> 0 \<le> ra_sourceConcurrency a \<and> 0 \<le> ra_sourceAttempts a \<and> 0 \<le> ra_maximumSources a"

definition sameLimits :: "requestAdmission \<Rightarrow> requestAdmission \<Rightarrow> bool" where
  "sameLimits a b \<longleftrightarrow> ra_globalConcurrency a = ra_globalConcurrency b \<and> ra_sourceConcurrency a = ra_sourceConcurrency b \<and>
     ra_sourceAttempts a = ra_sourceAttempts b \<and> ra_maximumSources a = ra_maximumSources b \<and> ra_window a = ra_window b"

definition mapOk :: "(string \<times> nat) list \<Rightarrow> nat \<Rightarrow> bool" where
  "mapOk sources n \<longleftrightarrow> distinct (map fst sources) \<and> distinct (map snd sources) \<and> snd ` set sources \<subseteq> {..<n}"

definition tokensOk :: "token list \<Rightarrow> (string \<times> nat) list \<Rightarrow> bool" where
  "tokensOk tokens sources \<longleftrightarrow> (\<forall>p. (p, False) \<in> set tokens \<longrightarrow> p \<in> snd ` set sources)"

definition stateOk :: "int \<Rightarrow> int \<Rightarrow> nat \<Rightarrow> admissionSource \<Rightarrow> bool" where
  "stateOk concurrency attempts live state \<longleftrightarrow> as_inFlight state = int live \<and> int live \<le> concurrency \<and>
     0 \<le> as_attempts state \<and> as_attempts state \<le> attempts"

definition heapOk :: "requestAdmission \<Rightarrow> token list \<Rightarrow> bool" where
  "heapOk a tokens \<longleftrightarrow> (\<forall>p. p < length (ra_heap a) \<longrightarrow> stateOk (ra_sourceConcurrency a) (ra_sourceAttempts a) (liveTokens tokens p) (ra_heap a ! p))"

definition admissionOk :: "requestAdmission \<Rightarrow> token list \<Rightarrow> bool" where
  "admissionOk a tokens \<longleftrightarrow> limitsOk a \<and> mapOk (ra_sources a) (length (ra_heap a)) \<and> tokensOk tokens (ra_sources a) \<and>
     heapOk a tokens \<and> ra_inFlight a = int (liveCount tokens) \<and> ra_inFlight a \<le> ra_globalConcurrency a \<and>
     int (length (ra_sources a)) \<le> ra_maximumSources a"

lemma admissionOkD:
  assumes "admissionOk a tokens"
  shows "limitsOk a" "mapOk (ra_sources a) (length (ra_heap a))" "tokensOk tokens (ra_sources a)" "heapOk a tokens"
    "ra_inFlight a = int (liveCount tokens)" "ra_inFlight a \<le> ra_globalConcurrency a" "int (length (ra_sources a)) \<le> ra_maximumSources a"
  using assms by (simp_all add: admissionOk_def)

lemma heapOkD: "heapOk a tokens \<Longrightarrow> p < length (ra_heap a) \<Longrightarrow> stateOk (ra_sourceConcurrency a) (ra_sourceAttempts a) (liveTokens tokens p) (ra_heap a ! p)"
  by (simp add: heapOk_def)

lemma heapOk_update:
  assumes "heapOk a tokens" "sameLimits a b" "ra_heap b = (ra_heap a)[p := state]"
    "\<And>q. q \<noteq> p \<Longrightarrow> liveTokens tokens2 q = liveTokens tokens q"
    "stateOk (ra_sourceConcurrency a) (ra_sourceAttempts a) (liveTokens tokens2 p) state"
  shows "heapOk b tokens2"
  unfolding heapOk_def
proof (intro allI impI)
  fix q assume "q < length (ra_heap b)"
  with assms heapOkD [OF assms(1), of q] show "stateOk (ra_sourceConcurrency b) (ra_sourceAttempts b) (liveTokens tokens2 q) (ra_heap b ! q)"
    by (cases "q = p") (auto simp: sameLimits_def)
qed

lemma mapOk_pointer: "mapOk sources n \<Longrightarrow> (k, p) \<in> set sources \<Longrightarrow> p < n"
  by (force simp: mapOk_def)

lemma token_pointer: "admissionOk a tokens \<Longrightarrow> (p, False) \<in> set tokens \<Longrightarrow> \<exists>k. (k, p) \<in> set (ra_sources a) \<and> p < length (ra_heap a)"
  using admissionOkD(2,3) [of a tokens] mapOk_pointer by (fastforce simp: tokensOk_def)

lemma cleanupSources_subset: "set (cleanupSources heap now limit sources) \<subseteq> set sources"
  by (induction heap now limit sources rule: cleanupSources.induct) auto

lemma cleanupSources_kept: "(k, p) \<in> set sources \<Longrightarrow> \<not> expiredSource now (heap ! p) \<Longrightarrow> (k, p) \<in> set (cleanupSources heap now limit sources)"
  by (induction heap now limit sources rule: cleanupSources.induct) auto

lemma cleanupSources_distinct: "distinct (map f sources) \<Longrightarrow> distinct (map f (cleanupSources heap now limit sources))"
proof (induction heap now limit sources rule: cleanupSources.induct)
  case (3 heap now limit source p sources)
  then show ?case using cleanupSources_subset [of heap now "Suc limit" sources] by auto
qed auto

lemma cleanupSources_length: "length (cleanupSources heap now limit sources) \<le> length sources"
  by (induction heap now limit sources rule: cleanupSources.induct) auto

lemma liveTokens_pos: "(p, False) \<in> set tokens \<Longrightarrow> 0 < liveTokens tokens p"
  by (force simp: liveTokens_def filter_empty_conv)

lemma liveTokens_append [simp]: "liveTokens (tokens @ tokens2) p = liveTokens tokens p + liveTokens tokens2 p"
  by (simp add: liveTokens_def)

lemma liveCount_append [simp]: "liveCount (tokens @ tokens2) = liveCount tokens + liveCount tokens2"
  by (simp add: liveCount_def)

lemma live_single [simp]: "liveTokens [(q, False)] p = (if q = p then 1 else 0)" "liveCount [(q, False)] = 1" "liveTokens [] p = 0" "liveCount [] = 0"
  by (simp_all add: liveTokens_def liveCount_def)

lemma cleanupExpired_ok:
  assumes ok: "admissionOk a tokens"
  shows "admissionOk (cleanupExpired now limit a) tokens"
proof -
  let ?s = "cleanupSources (ra_heap a) now limit (ra_sources a)"
  note sub = cleanupSources_subset [of "ra_heap a" now limit "ra_sources a"]
  have "p \<in> snd ` set ?s" if t: "(p, False) \<in> set tokens" for p
  proof -
    obtain k where k: "(k, p) \<in> set (ra_sources a)" "p < length (ra_heap a)" using token_pointer [OF ok t] by blast
    then have "as_inFlight (ra_heap a ! p) \<noteq> 0"
      using heapOkD [OF admissionOkD(4) [OF ok]] liveTokens_pos [OF t] by (simp add: stateOk_def)
    then show ?thesis using cleanupSources_kept [OF k(1), of now "ra_heap a" limit] by (force simp: expiredSource_def)
  qed
  then have "tokensOk tokens ?s" by (simp add: tokensOk_def)
  moreover have "mapOk ?s (length (ra_heap a))"
    using admissionOkD(2) [OF ok] sub by (auto simp: mapOk_def intro!: cleanupSources_distinct)
  moreover have "int (length ?s) \<le> ra_maximumSources a"
    using admissionOkD(7) [OF ok] cleanupSources_length [of "ra_heap a" now limit "ra_sources a"] by simp
  ultimately show ?thesis
    using admissionOkD [OF ok] by (simp add: admissionOk_def cleanupExpired_def limitsOk_def heapOk_def)
qed

lemma fresh_pointer: "admissionOk a tokens \<Longrightarrow> liveTokens tokens (length (ra_heap a)) = 0"
  using token_pointer by (fastforce simp: liveTokens_def filter_empty_conv)

lemma prepareSource_ok:
  assumes ok: "admissionOk a tokens" and prepared: "prepareSource now source a = Some (p, b)"
  shows "admissionOk b tokens" "map_of (ra_sources b) source = Some p" "ra_inFlight b = ra_inFlight a" "sameLimits a b"
proof -
  show limits: "map_of (ra_sources b) source = Some p" "ra_inFlight b = ra_inFlight a" "sameLimits a b"
    using prepared by (auto simp: prepareSource_def Let_def map_add_def sameLimits_def split: option.splits if_splits)
  note okd = admissionOkD [OF ok]
  show "admissionOk b tokens"
  proof (cases "map_of (ra_sources a) source")
    case None
    let ?new = "\<lparr>as_attempts = 0, as_inFlight = 0, as_windowEnds = now + ra_window a\<rparr>"
    have b: "b = a\<lparr>ra_heap := ra_heap a @ [?new], ra_sources := ra_sources a @ [(source, length (ra_heap a))]\<rparr>"
        "int (length (ra_sources a)) < ra_maximumSources a"
      using prepared None by (auto simp: prepareSource_def Let_def split: if_splits)
    have "source \<notin> fst ` set (ra_sources a)" using None by (simp add: map_of_eq_None_iff)
    then have "mapOk (ra_sources b) (length (ra_heap b))" using okd(2) by (auto simp: b(1) mapOk_def)
    moreover have "tokensOk tokens (ra_sources b)" using okd(3) by (auto simp: b(1) tokensOk_def)
    moreover have "stateOk (ra_sourceConcurrency a) (ra_sourceAttempts a) (liveTokens tokens (length (ra_heap a))) ?new"
      using fresh_pointer [OF ok] okd(1) by (simp add: stateOk_def limitsOk_def)
    then have "heapOk b tokens" using okd(4) by (auto simp: b(1) heapOk_def nth_append less_Suc_eq)
    ultimately show ?thesis using okd b by (simp add: admissionOk_def limitsOk_def)
  next
    case (Some q)
    then have q: "q < length (ra_heap a)" using mapOk_pointer [OF okd(2)] by (meson map_of_SomeD)
    have sources: "ra_sources b = ra_sources a" "length (ra_heap b) = length (ra_heap a)"
      using prepared Some by (auto simp: prepareSource_def Let_def)
    have "stateOk (ra_sourceConcurrency a) (ra_sourceAttempts a) (liveTokens tokens q) ((ra_heap a ! q)\<lparr>as_attempts := 0, as_windowEnds := t\<rparr>)" for t
      using heapOkD [OF okd(4) q] okd(1) by (simp add: stateOk_def limitsOk_def)
    then have "heapOk b tokens"
      using prepared Some okd(4) limits(3) by (auto simp: prepareSource_def Let_def intro: heapOk_update split: if_splits)
    with okd sources limits show ?thesis by (simp add: admissionOk_def limitsOk_def sameLimits_def)
  qed
qed

lemma admitSource_ok:
  assumes ok: "admissionOk a tokens" and p: "(k, p) \<in> set (ra_sources a)" and free: "ra_inFlight a < ra_globalConcurrency a"
    and admitted: "admitSource now p a = (result, b)"
  shows "admissionOk b (tokens @ (case result of Inl _ \<Rightarrow> [] | Inr q \<Rightarrow> [(q, False)]))" "sameLimits a b"
proof -
  note okd = admissionOkD [OF ok]
  have len: "p < length (ra_heap a)" using mapOk_pointer [OF okd(2) p] .
  show "sameLimits a b" using admitted by (auto simp: admitSource_def Let_def sameLimits_def split: if_splits)
  show "admissionOk b (tokens @ (case result of Inl _ \<Rightarrow> [] | Inr q \<Rightarrow> [(q, False)]))"
  proof (cases result)
    case (Inl _)
    with admitted have "b = a" by (auto simp: admitSource_def Let_def split: if_splits)
    with Inl ok show ?thesis by simp
  next
    case (Inr q)
    let ?state = "ra_heap a ! p"
    let ?next = "?state\<lparr>as_attempts := as_attempts ?state + 1, as_inFlight := as_inFlight ?state + 1\<rparr>"
    have b: "q = p" "b = a\<lparr>ra_inFlight := ra_inFlight a + 1, ra_heap := (ra_heap a)[p := ?next]\<rparr>"
        "as_inFlight ?state < ra_sourceConcurrency a" "as_attempts ?state < ra_sourceAttempts a"
      using admitted Inr by (auto simp: admitSource_def Let_def split: if_splits)
    have "stateOk (ra_sourceConcurrency a) (ra_sourceAttempts a) (Suc (liveTokens tokens p)) ?next"
      using heapOkD [OF okd(4) len] b(3,4) by (simp add: stateOk_def)
    then have "heapOk b (tokens @ [(p, False)])"
      by (intro heapOk_update [OF okd(4), where p = p]) (simp_all add: b(2) sameLimits_def)
    moreover have "tokensOk (tokens @ [(p, False)]) (ra_sources b)"
      using okd(3) p by (force simp: b(2) tokensOk_def)
    ultimately show ?thesis using okd free Inr b(1) by (simp add: admissionOk_def b(2) limitsOk_def)
  qed
qed

lemma acquireSource_cases [consumes 2, case_names refused prepared]:
  assumes ok: "admissionOk a tokens" and acquired: "acquireSource now source a = (result, b)"
  defines "c \<equiv> cleanupExpired now publicAdmissionCleanupLimit a"
  obtains (refused) "isl result" "b = c"
  | (prepared) p d where "prepareSource now source c = Some (p, d)" "admissionOk d tokens" "map_of (ra_sources d) source = Some p"
      "ra_inFlight d < ra_globalConcurrency d" "admitSource now p d = (result, b)" "sameLimits c d"
proof (cases "ra_inFlight c \<ge> ra_globalConcurrency c \<or> prepareSource now source c = None")
  case True
  with acquired [unfolded acquireSource_def Let_def c_def [symmetric]] have "result = Inl publicAdmissionConcurrencyRetry \<and> b = c"
    by (cases "ra_inFlight c \<ge> ra_globalConcurrency c") auto
  then show thesis by (intro refused) auto
next
  case False
  then obtain p d where pd: "prepareSource now source c = Some (p, d)" and free: "ra_inFlight c < ra_globalConcurrency c" by auto
  have "admissionOk c tokens" unfolding c_def by (rule cleanupExpired_ok [OF ok])
  note ready = prepareSource_ok [OF this pd]
  have "admitSource now p d = (result, b)" using acquired pd free by (simp add: acquireSource_def Let_def c_def)
  with pd ready free show thesis by (intro prepared) (auto simp: sameLimits_def)
qed

lemma cleanupExpired_limits: "sameLimits a (cleanupExpired now limit a)"
  by (simp add: sameLimits_def cleanupExpired_def)

lemma sameLimits_trans: "sameLimits a b \<Longrightarrow> sameLimits b c \<Longrightarrow> sameLimits a c"
  by (simp add: sameLimits_def)

lemma acquireSource_ok:
  assumes ok: "admissionOk a tokens" and acquired: "acquireSource now source a = (result, b)"
  shows "admissionOk b (tokens @ (case result of Inl _ \<Rightarrow> [] | Inr q \<Rightarrow> [(q, False)]))" "sameLimits a b"
proof -
  have "admissionOk b (tokens @ (case result of Inl _ \<Rightarrow> [] | Inr q \<Rightarrow> [(q, False)])) \<and> sameLimits a b"
    using assms
  proof (cases rule: acquireSource_cases)
    case refused
    then show ?thesis using cleanupExpired_ok [OF ok] cleanupExpired_limits by (auto simp: isl_def)
  next
    case (prepared p d)
    have "(source, p) \<in> set (ra_sources d)" using prepared(3) by (rule map_of_SomeD)
    from admitSource_ok [OF prepared(2) this prepared(4,5)] show ?thesis
      using prepared(6) cleanupExpired_limits sameLimits_trans by blast
  qed
  then show "admissionOk b (tokens @ (case result of Inl _ \<Rightarrow> [] | Inr q \<Rightarrow> [(q, False)]))" "sameLimits a b" by blast+
qed

lemma live_update:
  assumes "i < length tokens" "tokens ! i = (p, False)"
  shows "liveTokens tokens q = liveTokens (tokens[i := (p, True)]) q + (if q = p then 1 else 0)"
    "liveCount tokens = Suc (liveCount (tokens[i := (p, True)]))"
proof -
  have split: "take i tokens @ (p, False) # drop (Suc i) tokens = tokens" "tokens[i := (p, True)] = take i tokens @ (p, True) # drop (Suc i) tokens"
    using assms id_take_nth_drop [of i tokens] by (simp_all add: upd_conv_take_nth_drop)
  have "liveTokens (xs @ (p, False) # ys) q = liveTokens (xs @ (p, True) # ys) q + (if q = p then 1 else 0)"
      "liveCount (xs @ (p, False) # ys) = Suc (liveCount (xs @ (p, True) # ys))" for xs ys
    by (simp_all add: liveTokens_def liveCount_def)
  from this [of "take i tokens" "drop (Suc i) tokens"]
  show "liveTokens tokens q = liveTokens (tokens[i := (p, True)]) q + (if q = p then 1 else 0)"
    "liveCount tokens = Suc (liveCount (tokens[i := (p, True)]))"
    unfolding split by simp_all
qed

lemma releaseOnce_ok:
  assumes ok: "admissionOk a tokens" and i: "i < length tokens" and released: "releaseOnce (tokens ! i) a = (token, b)"
  shows "admissionOk b (tokens[i := token])" "sameLimits a b"
proof -
  show "sameLimits a b" using released by (auto simp: releaseOnce_def sameLimits_def split: prod.splits if_splits)
  show "admissionOk b (tokens[i := token])"
  proof (cases "tokens ! i")
    case (Pair p called)
    show ?thesis
    proof (cases called)
      case True
      with Pair released have "token = tokens ! i" "b = a" by (auto simp: releaseOnce_def)
      with ok i show ?thesis by simp
    next
      case False
      with Pair have t: "tokens ! i = (p, False)" by simp
      note okd = admissionOkD [OF ok] and live = live_update [OF i t]
      have p: "p < length (ra_heap a)" using token_pointer [OF ok] i t by (metis nth_mem)
      let ?next = "(ra_heap a ! p)\<lparr>as_inFlight := as_inFlight (ra_heap a ! p) - 1\<rparr>"
      from released t have out: "token = (p, True)" "b = a\<lparr>ra_inFlight := ra_inFlight a - 1, ra_heap := (ra_heap a)[p := ?next]\<rparr>"
        by (auto simp: releaseOnce_def)
      have "stateOk (ra_sourceConcurrency a) (ra_sourceAttempts a) (liveTokens (tokens[i := token]) p) ?next"
        using heapOkD [OF okd(4) p] live(1) [of p] by (simp add: stateOk_def out)
      moreover have "liveTokens (tokens[i := token]) q = liveTokens tokens q" if "q \<noteq> p" for q
        using live(1) [of q] that by (simp add: out)
      ultimately have "heapOk b (tokens[i := token])"
        by (intro heapOk_update [OF okd(4), where p = p]) (simp_all add: out(2) sameLimits_def)
      moreover have "tokensOk (tokens[i := token]) (ra_sources b)"
        using okd(3) set_update_subset_insert [of tokens i token] by (auto simp: tokensOk_def out)
      ultimately show ?thesis
        using okd live(2) by (simp add: admissionOk_def out limitsOk_def)
    qed
  qed
qed

lemma reorder_ok:
  assumes "admissionOk a tokens" "mset sources = mset (ra_sources a)"
  shows "admissionOk (a\<lparr>ra_sources := sources\<rparr>) tokens"
proof -
  have same: "set sources = set (ra_sources a)" "length sources = length (ra_sources a)"
    using assms(2) by (metis set_mset_mset, metis size_mset)
  have "distinct (map fst sources)" "distinct (map snd sources)"
    using assms admissionOkD(2) by (metis (no_types) mapOk_def mset_eq_imp_distinct_iff mset_map)+
  then show ?thesis
    using admissionOkD [OF assms(1)] same by (simp add: admissionOk_def limitsOk_def mapOk_def tokensOk_def heapOk_def)
qed

section \<open>What a source sees\<close>

text \<open>The state of a source, looked up through the map; the timing of admissions depends on nothing else.\<close>

definition sourceView :: "requestAdmission \<Rightarrow> string \<Rightarrow> admissionSource option" where
  "sourceView a source = map_option (\<lambda>p. ra_heap a ! p) (map_of (ra_sources a) source)"

lemma map_of_cleanup:
  assumes "mapOk sources n"
  shows "map_of (cleanupSources heap now limit sources) k = map_of sources k \<or>
    map_of (cleanupSources heap now limit sources) k = None \<and> (\<exists>p. map_of sources k = Some p \<and> expiredSource now (heap ! p))"
proof (cases "map_of (cleanupSources heap now limit sources) k")
  case (Some p)
  then have "(k, p) \<in> set sources" using cleanupSources_subset map_of_SomeD by fastforce
  then have "map_of sources k = Some p" using assms by (simp add: mapOk_def)
  with Some show ?thesis by simp
next
  case None
  show ?thesis
  proof (cases "map_of sources k")
    case (Some p)
    then have "(k, p) \<in> set sources" by (rule map_of_SomeD)
    moreover have "(k, p) \<notin> set (cleanupSources heap now limit sources)" using None by (force simp: map_of_eq_None_iff)
    ultimately show ?thesis using cleanupSources_kept None Some by metis
  qed (simp add: None)
qed

lemma cleanup_view:
  assumes "admissionOk a tokens"
  shows "sourceView (cleanupExpired now limit a) k = sourceView a k \<or>
    sourceView (cleanupExpired now limit a) k = None \<and> (\<exists>s. sourceView a k = Some s \<and> expiredSource now s)"
  using map_of_cleanup [OF admissionOkD(2) [OF assms], of "ra_heap a" now limit k] by (auto simp: sourceView_def cleanupExpired_def)

lemma view_other:
  assumes "mapOk (ra_sources a) (length (ra_heap a))" "map_of (ra_sources a) source = Some p" "k \<noteq> source"
    "ra_sources b = ra_sources a" "ra_heap b = (ra_heap a)[p := state]"
  shows "sourceView b k = sourceView a k"
proof (cases "map_of (ra_sources a) k")
  case (Some q)
  have "(k, q) \<in> set (ra_sources a)" "(source, p) \<in> set (ra_sources a)" using Some assms(2) by (simp_all add: map_of_SomeD)
  then have "q \<noteq> p" using assms(1,3) by (fastforce simp: mapOk_def distinct_map inj_on_def)
  with Some assms show ?thesis by (simp add: sourceView_def)
qed (simp add: sourceView_def assms)

definition freshWindow :: "int \<Rightarrow> requestAdmission \<Rightarrow> admissionSource \<Rightarrow> bool" where
  "freshWindow now a s \<longleftrightarrow> as_attempts s = 0 \<and> as_windowEnds s = now + ra_window a"

lemma prepare_view:
  assumes ok: "admissionOk a tokens" and prepared: "prepareSource now source a = Some (p, b)"
  shows "k \<noteq> source \<Longrightarrow> sourceView b k = sourceView a k"
    "\<exists>s. sourceView b source = Some s \<and> (sourceView a source = Some s \<or>
       freshWindow now a s \<and> (case sourceView a source of None \<Rightarrow> True | Some t \<Rightarrow> expiredSource now t))"
proof -
  note okd = admissionOkD [OF ok]
  show "sourceView b k = sourceView a k" if "k \<noteq> source"
  proof (cases "map_of (ra_sources a) source")
    case None
    have "map_of (ra_sources a) k = Some q \<Longrightarrow> q < length (ra_heap a)" for q
      using mapOk_pointer [OF okd(2)] by (meson map_of_SomeD)
    with None prepared that show ?thesis
      by (auto simp: prepareSource_def sourceView_def Let_def nth_append map_add_def split: if_splits option.splits)
  next
    case (Some q)
    with prepared view_other [OF okd(2) Some that, of b] show ?thesis
      by (auto simp: prepareSource_def Let_def split: if_splits)
  qed
  show "\<exists>s. sourceView b source = Some s \<and> (sourceView a source = Some s \<or>
       freshWindow now a s \<and> (case sourceView a source of None \<Rightarrow> True | Some t \<Rightarrow> expiredSource now t))"
  proof (cases "map_of (ra_sources a) source")
    case None
    with prepared show ?thesis
      by (auto simp: prepareSource_def sourceView_def Let_def freshWindow_def map_add_def split: if_splits)
  next
    case (Some q)
    then have "q < length (ra_heap a)" using mapOk_pointer [OF okd(2)] by (meson map_of_SomeD)
    with Some prepared show ?thesis
      by (auto simp: prepareSource_def sourceView_def Let_def freshWindow_def)
  qed
qed

lemma admit_view:
  assumes ok: "admissionOk a tokens" and p: "map_of (ra_sources a) source = Some p" and admitted: "admitSource now p a = (result, b)"
  shows "k \<noteq> source \<Longrightarrow> sourceView b k = sourceView a k"
    "\<exists>s. sourceView a source = Some s \<and> (if isl result then sourceView b source = Some s
       else as_attempts s < ra_sourceAttempts a \<and> (\<exists>t. sourceView b source = Some t \<and> as_attempts t = as_attempts s + 1 \<and> as_windowEnds t = as_windowEnds s))"
proof -
  note okd = admissionOkD [OF ok]
  have len: "p < length (ra_heap a)" using mapOk_pointer [OF okd(2)] p by (meson map_of_SomeD)
  show "sourceView b k = sourceView a k" if "k \<noteq> source"
    using admitted view_other [OF okd(2) p that, of b]
    by (auto simp: admitSource_def Let_def split: if_splits)
  show "\<exists>s. sourceView a source = Some s \<and> (if isl result then sourceView b source = Some s
       else as_attempts s < ra_sourceAttempts a \<and> (\<exists>t. sourceView b source = Some t \<and> as_attempts t = as_attempts s + 1 \<and> as_windowEnds t = as_windowEnds s))"
    using admitted p len by (auto simp: admitSource_def Let_def sourceView_def split: if_splits)
qed

section \<open>The rate of a source\<close>

definition admittedTimes :: "(int \<times> string \<times> bool) list \<Rightarrow> string \<Rightarrow> int list" where
  "admittedTimes calls source = map fst (filter (\<lambda>(_, k, admitted). k = source \<and> admitted) calls)"

definition countIf :: "(int \<Rightarrow> bool) \<Rightarrow> int list \<Rightarrow> int" where
  "countIf P ts = int (length (filter P ts))"

text \<open>
  The times of a source against its state at the instant \<open>now\<close> of the last call: while it has a state,
  the admissions split into those of the current window and older ones, which happened before it began and
  of which at most the allowed number lie less than a window before its start; without a state, at most the
  allowed number lie less than a window back.
\<close>

definition sourceTimed :: "int \<Rightarrow> int \<Rightarrow> int \<Rightarrow> admissionSource option \<Rightarrow> int list \<Rightarrow> bool" where
  "sourceTimed window attempts now view ts \<longleftrightarrow>
     (case view of None \<Rightarrow> countIf (\<lambda>t. now - window < t) ts \<le> attempts
      | Some s \<Rightarrow> as_windowEnds s - window \<le> now \<and> (\<exists>older current. ts = older @ current \<and> int (length current) \<le> as_attempts s \<and>
          (\<forall>t \<in> set older. t \<le> as_windowEnds s - window) \<and>
          countIf (\<lambda>t. as_windowEnds s - 2 * window < t) older \<le> attempts))"

definition rateBounded :: "int \<Rightarrow> int \<Rightarrow> int list \<Rightarrow> bool" where
  "rateBounded window attempts ts \<longleftrightarrow> (\<forall>T. countIf (\<lambda>t. T \<le> t \<and> t < T + window) ts \<le> 2 * attempts)"

lemma countIf_append [simp]: "countIf P (xs @ ys) = countIf P xs + countIf P ys"
  by (simp add: countIf_def)

lemma countIf_le: "(\<And>t. t \<in> set ts \<Longrightarrow> P t \<Longrightarrow> Q t) \<Longrightarrow> countIf P ts \<le> countIf Q ts"
  unfolding countIf_def by (induction ts) auto

lemma countIf_length: "countIf P ts \<le> int (length ts)"
  by (simp add: countIf_def)

lemma countIf_zero: "(\<And>t. t \<in> set ts \<Longrightarrow> \<not> P t) \<Longrightarrow> countIf P ts = 0"
  by (simp add: countIf_def filter_empty_conv)

text \<open>A window that has ended leaves at most its own admissions behind.\<close>

lemma timed_expired:
  assumes "sourceTimed window attempts now0 (Some s) ts" "as_windowEnds s \<le> now" "as_attempts s \<le> attempts"
  shows "countIf (\<lambda>t. now - window < t) ts \<le> attempts"
proof -
  obtain older current where split: "ts = older @ current" "int (length current) \<le> as_attempts s" "\<forall>t \<in> set older. t \<le> as_windowEnds s - window"
    using assms(1) by (auto simp: sourceTimed_def)
  then have "countIf (\<lambda>t. now - window < t) older = 0" using assms(2) by (intro countIf_zero) force
  with split assms(3) countIf_length [of "\<lambda>t. now - window < t" current] show ?thesis by simp
qed

lemma timed_absent:
  "sourceTimed window attempts now0 None ts \<Longrightarrow> now0 \<le> now \<Longrightarrow> countIf (\<lambda>t. now - window < t) ts \<le> attempts"
  using countIf_le [of ts "\<lambda>t. now - window < t" "\<lambda>t. now0 - window < t"] by (fastforce simp: sourceTimed_def)

text \<open>The view after the cleanup, and after a new window where one is due.\<close>

lemma timed_cleanup:
  assumes "sourceTimed window attempts now0 view ts" "now0 \<le> now" "\<forall>s. view = Some s \<longrightarrow> as_attempts s \<le> attempts"
    "view2 = view \<or> view2 = None \<and> (\<exists>s. view = Some s \<and> expiredSource now s)"
  shows "sourceTimed window attempts now view2 ts"
  using assms(4)
proof
  assume "view2 = view"
  then show ?thesis
    using assms timed_absent by (cases view) (auto simp: sourceTimed_def)
next
  assume "view2 = None \<and> (\<exists>s. view = Some s \<and> expiredSource now s)"
  then obtain s where "view2 = None" "view = Some s" "as_windowEnds s \<le> now" by (auto simp: expiredSource_def)
  with assms timed_expired show ?thesis by (auto simp: sourceTimed_def [of _ _ _ None])
qed

lemma timed_prepare:
  assumes timed: "sourceTimed window attempts now view ts" and window: "ra_window a = window"
    and limit: "\<forall>s. view = Some s \<longrightarrow> as_attempts s \<le> attempts" and past: "\<forall>t \<in> set ts. t \<le> now"
    and prepared: "view = Some s \<or> freshWindow now a s \<and> (case view of None \<Rightarrow> True | Some t \<Rightarrow> expiredSource now t)"
  shows "sourceTimed window attempts now (Some s) ts"
  using prepared
proof
  assume "view = Some s"
  with timed show ?thesis by simp
next
  assume fresh: "freshWindow now a s \<and> (case view of None \<Rightarrow> True | Some t \<Rightarrow> expiredSource now t)"
  have "countIf (\<lambda>t. now - window < t) ts \<le> attempts"
  proof (cases view)
    case None
    with timed timed_absent show ?thesis by blast
  next
    case (Some v)
    with fresh timed limit timed_expired show ?thesis by (auto simp: expiredSource_def)
  qed
  with fresh window past show ?thesis
    by (auto simp: sourceTimed_def freshWindow_def intro!: exI [of _ ts])
qed

text \<open>An admission joins the current window.\<close>

lemma timed_admit:
  assumes timed: "sourceTimed window attempts now (Some s) ts" and bounded: "rateBounded window attempts ts"
    and next_state: "as_attempts s < attempts" "as_attempts t = as_attempts s + 1" "as_windowEnds t = as_windowEnds s"
  shows "sourceTimed window attempts now (Some t) (ts @ [now])"
    and "rateBounded window attempts (ts @ [now])"
proof -
  obtain older current where split: "ts = older @ current" "int (length current) \<le> as_attempts s"
      "\<forall>t \<in> set older. t \<le> as_windowEnds s - window" "countIf (\<lambda>t. as_windowEnds s - 2 * window < t) older \<le> attempts"
      and begun: "as_windowEnds s - window \<le> now"
    using timed by (auto simp: sourceTimed_def)
  show "sourceTimed window attempts now (Some t) (ts @ [now])"
    using split next_state begun
    by (simp add: sourceTimed_def) (rule exI [of _ older], rule exI [of _ "current @ [now]"], simp)
  show "rateBounded window attempts (ts @ [now])"
    unfolding rateBounded_def
  proof
    fix T
    let ?in = "\<lambda>t. T \<le> t \<and> t < T + window"
    show "countIf ?in (ts @ [now]) \<le> 2 * attempts"
    proof (cases "?in now")
      case True
      have "countIf ?in older \<le> countIf (\<lambda>t. as_windowEnds s - 2 * window < t) older"
        using True begun by (intro countIf_le) linarith
      moreover have "countIf ?in (current @ [now]) \<le> int (length (current @ [now]))" by (rule countIf_length)
      ultimately show ?thesis using split next_state by simp
    next
      case False
      then have "countIf ?in [now] = 0" by (intro countIf_zero) simp
      with bounded show ?thesis by (simp add: rateBounded_def)
    qed
  qed
qed

lemma timed_later: "sourceTimed window attempts now0 view ts \<Longrightarrow> now0 \<le> now \<Longrightarrow> sourceTimed window attempts now view ts"
  using timed_absent by (cases view) (auto simp: sourceTimed_def)

definition timingOk :: "admissionSystem \<Rightarrow> bool" where
  "timingOk s \<longleftrightarrow> (sorted (map fst (sys_calls s)) \<longrightarrow>
     (\<forall>k. rateBounded (ra_window (sys_admission s)) (ra_sourceAttempts (sys_admission s)) (admittedTimes (sys_calls s) k)) \<and>
     (\<forall>k now. (\<forall>c \<in> set (sys_calls s). fst c \<le> now) \<longrightarrow>
        sourceTimed (ra_window (sys_admission s)) (ra_sourceAttempts (sys_admission s)) now (sourceView (sys_admission s) k) (admittedTimes (sys_calls s) k)))"

definition systemOk :: "admissionSystem \<Rightarrow> bool" where
  "systemOk s \<longleftrightarrow> admissionOk (sys_admission s) (sys_tokens s) \<and> timingOk s"

lemma view_attempts: "admissionOk a tokens \<Longrightarrow> sourceView a k = Some s \<Longrightarrow> as_attempts s \<le> ra_sourceAttempts a"
  using heapOkD [OF admissionOkD(4), of a tokens] mapOk_pointer [OF admissionOkD(2), of a tokens]
  by (fastforce simp: sourceView_def stateOk_def dest: map_of_SomeD)

lemma admittedTimes_snoc: "admittedTimes (calls @ [(now, k, admitted)]) source =
    admittedTimes calls source @ (if k = source \<and> admitted then [now] else [])"
  by (simp add: admittedTimes_def)

lemma admittedTimes_past: "\<forall>c \<in> set calls. fst c \<le> now \<Longrightarrow> \<forall>t \<in> set (admittedTimes calls k). t \<le> now"
  by (auto simp: admittedTimes_def)

lemma acquireSource_timed:
  assumes ok: "admissionOk a tokens" and acquired: "acquireSource now source a = (result, b)"
    and timed: "sourceTimed (ra_window a) (ra_sourceAttempts a) now (sourceView a k) ts" and past: "\<forall>t \<in> set ts. t \<le> now"
    and bounded: "rateBounded (ra_window a) (ra_sourceAttempts a) ts"
  shows "sourceTimed (ra_window a) (ra_sourceAttempts a) now (sourceView b k) (ts @ (if source = k \<and> \<not> isl result then [now] else [])) \<and>
    rateBounded (ra_window a) (ra_sourceAttempts a) (ts @ (if source = k \<and> \<not> isl result then [now] else []))"
proof -
  let ?c = "cleanupExpired now publicAdmissionCleanupLimit a"
  have clean: "sourceTimed (ra_window a) (ra_sourceAttempts a) now (sourceView ?c k) ts"
    using timed_cleanup [OF timed order_refl _ cleanup_view [OF ok]] view_attempts [OF ok] by blast
  have cok: "admissionOk ?c tokens" by (rule cleanupExpired_ok [OF ok])
  have limits: "ra_window ?c = ra_window a" "ra_sourceAttempts ?c = ra_sourceAttempts a" by (simp_all add: cleanupExpired_def)
  from ok acquired show ?thesis
  proof (cases rule: acquireSource_cases)
    case refused
    with clean bounded show ?thesis by simp
  next
    case (prepared p d)
    note pv = prepare_view [OF cok prepared(1)] and av = admit_view [OF prepared(2,3,5)]
    have dl: "ra_window d = ra_window a" "ra_sourceAttempts d = ra_sourceAttempts a"
      using prepared(6) limits by (auto simp: sameLimits_def)
    show ?thesis
    proof (cases "k = source")
      case False
      with pv(1) av(1) clean bounded show ?thesis by auto
    next
      case True
      obtain s where s: "sourceView d source = Some s" "sourceView ?c source = Some s \<or>
         freshWindow now ?c s \<and> (case sourceView ?c source of None \<Rightarrow> True | Some t \<Rightarrow> expiredSource now t)"
        using pv(2) by blast
      have ready: "sourceTimed (ra_window a) (ra_sourceAttempts a) now (Some s) ts"
        using timed_prepare [OF clean [unfolded True] limits(1) _ past s(2)] view_attempts [OF cok] limits(2) by auto
      show ?thesis
      proof (cases "isl result")
        case denied: True
        with av(2) s ready True bounded show ?thesis by auto
      next
        case admitted: False
        with av(2) s obtain t where t: "as_attempts s < ra_sourceAttempts d" "sourceView b source = Some t"
            "as_attempts t = as_attempts s + 1" "as_windowEnds t = as_windowEnds s" by auto
        from timed_admit [OF ready bounded _ t(3,4)] t(1,2) True admitted dl show ?thesis by simp
      qed
    qed
  qed
qed

lemma call_timed:
  assumes ok: "systemOk s" and called: "acquire now source (sys_admission s) = (result, b)"
  shows "timingOk (s\<lparr>sys_admission := b, sys_tokens := tokens, sys_calls := sys_calls s @ [(now, networkAdmissionSource source, \<not> isl result)]\<rparr>)"
proof -
  let ?a = "sys_admission s" and ?k = "networkAdmissionSource source"
  have aok: "admissionOk ?a (sys_tokens s)" using ok by (simp add: systemOk_def)
  note acquired = called [unfolded acquire_def]
  have same: "ra_window b = ra_window ?a" "ra_sourceAttempts b = ra_sourceAttempts ?a"
    using acquireSource_ok(2) [OF aok acquired] by (simp_all add: sameLimits_def)
  have "sourceTimed (ra_window ?a) (ra_sourceAttempts ?a) later (sourceView b k) (admittedTimes (sys_calls s @ [(now, ?k, \<not> isl result)]) k) \<and>
      rateBounded (ra_window ?a) (ra_sourceAttempts ?a) (admittedTimes (sys_calls s @ [(now, ?k, \<not> isl result)]) k)"
    if sorted: "sorted (map fst (sys_calls s @ [(now, ?k, \<not> isl result)]))" and "now \<le> later" for k later
  proof -
    have past: "\<forall>c \<in> set (sys_calls s). fst c \<le> now" and "sorted (map fst (sys_calls s))"
      using sorted by (auto simp: sorted_append)
    with ok have "sourceTimed (ra_window ?a) (ra_sourceAttempts ?a) now (sourceView ?a k) (admittedTimes (sys_calls s) k)"
        "rateBounded (ra_window ?a) (ra_sourceAttempts ?a) (admittedTimes (sys_calls s) k)"
      by (auto simp: systemOk_def timingOk_def)
    from acquireSource_timed [OF aok acquired this(1) admittedTimes_past [OF past] this(2)]
    show ?thesis using timed_later \<open>now \<le> later\<close> unfolding admittedTimes_snoc by blast
  qed
  then show ?thesis by (auto simp: timingOk_def same)
qed

lemma release_view:
  assumes "admissionOk a tokens" "i < length tokens" "releaseOnce (tokens ! i) a = (token, b)"
  shows "sourceView b k = sourceView a k \<or> (\<exists>s t. sourceView a k = Some s \<and> sourceView b k = Some t \<and>
    as_attempts t = as_attempts s \<and> as_windowEnds t = as_windowEnds s)"
proof (cases "map_of (ra_sources a) k")
  case (Some p)
  then have "p < length (ra_heap a)" using mapOk_pointer [OF admissionOkD(2) [OF assms(1)]] by (meson map_of_SomeD)
  moreover obtain q called where "tokens ! i = (q, called)" by force
  ultimately show ?thesis
    using Some assms(3) by (cases called; cases "q = p") (auto simp: releaseOnce_def sourceView_def)
next
  case None
  with assms(3) show ?thesis by (auto simp: releaseOnce_def sourceView_def split: prod.splits if_splits)
qed

lemma timed_same:
  "as_attempts t = as_attempts s \<Longrightarrow> as_windowEnds t = as_windowEnds s \<Longrightarrow>
     sourceTimed window attempts now (Some t) ts = sourceTimed window attempts now (Some s) ts"
  by (simp add: sourceTimed_def)

lemma reorder_view:
  assumes "admissionOk a tokens" "mset sources = mset (ra_sources a)"
  shows "sourceView (a\<lparr>ra_sources := sources\<rparr>) k = sourceView a k"
proof -
  have "map_of sources k = map_of (ra_sources a) k"
    using admissionOkD(2) [OF assms(1)] admissionOkD(2) [OF reorder_ok [OF assms]] assms(2)
    map_of_inject_set [of sources "ra_sources a"] mset_eq_setD [OF assms(2)]
    by (simp add: mapOk_def)
  then show ?thesis by (simp add: sourceView_def)
qed

interpretation admission: transition_system
  "\<lambda>s. \<exists>global source attempts sources window. 0 \<le> global \<and> 0 \<le> source \<and> 0 \<le> attempts \<and> 0 \<le> sources \<and>
     s = startSystem global source attempts sources window" admission_step systemOk
proof
  fix s :: admissionSystem
  assume "\<exists>global source attempts sources window. 0 \<le> global \<and> 0 \<le> source \<and> 0 \<le> attempts \<and> 0 \<le> sources \<and>
     s = startSystem global source attempts sources window"
  then show "systemOk s"
    by (auto simp: systemOk_def startSystem_def newRequestAdmission_def admissionOk_def limitsOk_def mapOk_def tokensOk_def heapOk_def
        timingOk_def rateBounded_def sourceTimed_def sourceView_def admittedTimes_def countIf_def)
next
  fix s t assume ok: "systemOk s" and "admission_step s t"
  then have aok: "admissionOk (sys_admission s) (sys_tokens s)" by (simp add: systemOk_def)
  from \<open>admission_step s t\<close> show "systemOk t"
  proof cases
    case (call now source result admission)
    with acquireSource_ok(1) [OF aok call(2) [unfolded acquire_def]] call_timed [OF ok call(2)] show ?thesis
      by (simp add: systemOk_def)
  next
    case (release i token admission)
    have same: "ra_window admission = ra_window (sys_admission s)" "ra_sourceAttempts admission = ra_sourceAttempts (sys_admission s)"
      using releaseOnce_ok(2) [OF aok release(2,3)] by (simp_all add: sameLimits_def)
    have "sourceTimed w n now (sourceView admission k) ts = sourceTimed w n now (sourceView (sys_admission s) k) ts" for w n now k ts
      using release_view [OF aok release(2,3), of k] timed_same by metis
    with ok releaseOnce_ok(1) [OF aok release(2,3)] show ?thesis
      by (simp add: release(1) systemOk_def timingOk_def same)
  next
    case (reorder sources)
    with ok reorder_ok [OF aok] reorder_view [OF aok] show ?thesis by (simp add: systemOk_def timingOk_def)
  qed
qed

text \<open>The limits of a system never change.\<close>

lemma step_limits: "systemOk s \<Longrightarrow> admission_step s t \<Longrightarrow> sameLimits (sys_admission s) (sys_admission t)"
proof -
  assume ok: "systemOk s" and "admission_step s t"
  then have aok: "admissionOk (sys_admission s) (sys_tokens s)" by (simp add: systemOk_def)
  from \<open>admission_step s t\<close> show ?thesis
    by cases (use acquireSource_ok(2) [OF aok] releaseOnce_ok(2) [OF aok] in \<open>auto simp: acquire_def sameLimits_def\<close>)
qed

lemma start_reachable:
  assumes "admission_step\<^sup>*\<^sup>* (startSystem global source attempts sources window) s" "0 \<le> global" "0 \<le> source" "0 \<le> attempts" "0 \<le> sources"
  shows "systemOk s" "ra_globalConcurrency (sys_admission s) = global" "ra_sourceConcurrency (sys_admission s) = source"
    "ra_sourceAttempts (sys_admission s) = attempts" "ra_maximumSources (sys_admission s) = sources" "ra_window (sys_admission s) = window"
proof -
  have start: "systemOk (startSystem global source attempts sources window)" using admission.inv_start assms(2-) by blast
  have "systemOk s \<and> sameLimits (sys_admission (startSystem global source attempts sources window)) (sys_admission s)"
    using assms(1)
  proof (induction rule: rtranclp_induct)
    case base
    show ?case using start by (simp add: sameLimits_def)
  next
    case (step s t)
    then show ?case using admission.inv_step step_limits sameLimits_trans by blast
  qed
  then show "systemOk s" "ra_globalConcurrency (sys_admission s) = global" "ra_sourceConcurrency (sys_admission s) = source"
    "ra_sourceAttempts (sys_admission s) = attempts" "ra_maximumSources (sys_admission s) = sources" "ra_window (sys_admission s) = window"
    by (simp_all add: sameLimits_def startSystem_def newRequestAdmission_def)
qed

text \<open>
  C18. The admission never loses count, whatever the interleaving of calls, releases, clock readings and
  map orders: the requests in flight are exactly the admitted ones that were not released yet, overall and
  for each tracked source; they stay within the limits, and so do the attempts of a window and the number of
  tracked sources. In particular a source that still has a request in flight is never dropped from the map,
  so that its release finds the state it counts on.
\<close>

theorem admission_counts:
  assumes "admission_step\<^sup>*\<^sup>* (startSystem global source attempts sources window) s"
    and "0 \<le> global" "0 \<le> source" "0 \<le> attempts" "0 \<le> sources"
  shows "ra_inFlight (sys_admission s) = int (liveCount (sys_tokens s)) \<and> int (liveCount (sys_tokens s)) \<le> global \<and>
    int (length (ra_sources (sys_admission s))) \<le> sources \<and>
    (\<forall>k p. (k, p) \<in> set (ra_sources (sys_admission s)) \<longrightarrow>
       as_inFlight (ra_heap (sys_admission s) ! p) = int (liveTokens (sys_tokens s) p) \<and>
       int (liveTokens (sys_tokens s) p) \<le> source \<and> as_attempts (ra_heap (sys_admission s) ! p) \<le> attempts) \<and>
    (\<forall>p. (p, False) \<in> set (sys_tokens s) \<longrightarrow> p \<in> snd ` set (ra_sources (sys_admission s)))"
proof -
  note reached = start_reachable [OF assms]
  have ok: "admissionOk (sys_admission s) (sys_tokens s)" using reached(1) by (simp add: systemOk_def)
  note okd = admissionOkD [OF ok]
  have states: "as_inFlight (ra_heap (sys_admission s) ! p) = int (liveTokens (sys_tokens s) p) \<and>
       int (liveTokens (sys_tokens s) p) \<le> source \<and> as_attempts (ra_heap (sys_admission s) ! p) \<le> attempts"
    if "(k, p) \<in> set (ra_sources (sys_admission s))" for k p
    using heapOkD [OF okd(4) mapOk_pointer [OF okd(2) that]] by (simp add: stateOk_def reached)
  have "p \<in> snd ` set (ra_sources (sys_admission s))" if "(p, False) \<in> set (sys_tokens s)" for p
    using okd(3) that by (simp add: tokensOk_def)
  with states okd(5-7) show ?thesis by (simp add: reached)
qed

text \<open>
  C19. The rate of a source is bounded: when the calls are made in the order of their clock readings, in
  every interval of the length of a window a source is admitted at most twice the number of attempts a
  window allows (ten for logins, so that a network guesses at most twenty passwords in any minute),
  although windows begin with a request and are dropped and restarted at different times.
\<close>

theorem admission_rate:
  assumes "admission_step\<^sup>*\<^sup>* (startSystem global source attempts sources window) s"
    and "0 \<le> global" "0 \<le> source" "0 \<le> attempts" "0 \<le> sources" "sorted (map fst (sys_calls s))"
  shows "countIf (\<lambda>t. T \<le> t \<and> t < T + window) (admittedTimes (sys_calls s) k) \<le> 2 * attempts"
proof -
  note reached = start_reachable [OF assms(1-5)]
  from reached(1) assms(6) show ?thesis by (simp add: systemOk_def timingOk_def rateBounded_def reached)
qed

section \<open>Nobody is locked out for good\<close>

lemma cleanupSources_frees:
  assumes "\<forall>(k, p) \<in> set sources. expiredSource now (heap ! p)"
  shows "cleanupSources heap now limit sources = drop limit sources"
  using assms by (induction heap now limit sources rule: cleanupSources.induct) auto

text \<open>
  Refusals are temporary: once no request is in flight and the windows of all tracked sources have
  ended, the next request of any source is admitted, even when the table of sources is full.
\<close>

theorem acquire_available:
  assumes reached: "admission_step\<^sup>*\<^sup>* (startSystem global source attempts sources window) s"
    and limits: "0 < global" "0 < source" "0 < attempts" "0 < sources"
    and idle: "liveCount (sys_tokens s) = 0" "\<forall>k p. (k, p) \<in> set (ra_sources (sys_admission s)) \<longrightarrow> as_windowEnds (ra_heap (sys_admission s) ! p) \<le> now"
  shows "\<not> isl (fst (acquire now client (sys_admission s)))"
proof -
  let ?a = "sys_admission s" and ?k = "networkAdmissionSource client"
  note reach = start_reachable [OF reached, simplified limits less_imp_le]
  have ok: "admissionOk ?a (sys_tokens s)" using reach limits by (simp add: systemOk_def)
  note okd = admissionOkD [OF ok]
  let ?c = "cleanupExpired now publicAdmissionCleanupLimit ?a"
  have free: "as_inFlight (ra_heap ?a ! p) = 0" if "p < length (ra_heap ?a)" for p
  proof -
    have "liveTokens (sys_tokens s) p = 0" using idle(1) by (auto simp: liveTokens_def liveCount_def filter_empty_conv)
    with heapOkD [OF okd(4) that] show ?thesis by (simp add: stateOk_def)
  qed
  have expired: "expiredSource now (ra_heap ?a ! p)" if "(k, p) \<in> set (ra_sources ?a)" for k p
    using free [OF mapOk_pointer [OF okd(2) that]] idle(2) that by (force simp: expiredSource_def)
  have "cleanupSources (ra_heap ?a) now 64 (ra_sources ?a) = drop 64 (ra_sources ?a)"
    by (rule cleanupSources_frees) (use expired in auto)
  then have c: "?c = ?a\<lparr>ra_sources := drop 64 (ra_sources ?a)\<rparr>"
    by (simp add: cleanupExpired_def publicAdmissionCleanupLimit_def)
  have room: "map_of (ra_sources ?c) ?k = None \<Longrightarrow> int (length (ra_sources ?c)) < ra_maximumSources ?c"
    using okd(7) limits(4) reach limits by (cases "ra_sources ?a") (auto simp: c)
  have "\<not> isl (fst (admitSource now p b))" if "prepareSource now ?k ?c = Some (p, b)" for p b
  proof (cases "map_of (ra_sources ?c) ?k")
    case None
    with that limits reach show ?thesis by (auto simp: prepareSource_def admitSource_def c Let_def split: if_splits)
  next
    case (Some q)
    then have "(?k, q) \<in> set (ra_sources ?a)" by (auto simp: c dest: map_of_SomeD in_set_dropD)
    then have "expiredSource now (ra_heap ?a ! q)" "q < length (ra_heap ?a)" using expired mapOk_pointer [OF okd(2)] by auto
    with Some that limits reach show ?thesis by (auto simp: prepareSource_def admitSource_def c Let_def expiredSource_def)
  qed
  moreover have "prepareSource now ?k ?c \<noteq> None" using room by (auto simp: prepareSource_def Let_def split: option.splits)
  moreover have "ra_inFlight ?c < ra_globalConcurrency ?c" using okd(5) idle(1) limits reach by (simp add: c)
  ultimately show ?thesis by (auto simp: acquire_def acquireSource_def Let_def)
qed

section \<open>Networks\<close>

lemma masked_same:
  assumes "uint a div 2 ^ 64 = uint b div 2 ^ 64"
  shows "a AND mask6 64 = b AND mask6 64"
proof (rule bit_word_eqI)
  fix n assume "n < LENGTH(128)"
  have "drop_bit 64 a = drop_bit 64 b" using assms by (simp only: drop_bit_eq_uint uint_drop)
  then have "bit (drop_bit 64 a) m = bit (drop_bit 64 b) m" for m by simp
  then have "bit a (64 + m) = bit b (64 + m)" for m by (simp add: bit_drop_bit_eq)
  from this [of "n - 64"] show "bit (a AND mask6 64) n = bit (b AND mask6 64) n"
    by (cases "n < 64") (auto simp: mask6_def bit_simps)
qed

text \<open>
  One network, one budget: the addresses of an IPv6 /64 share the key their attempts are counted
  under, whatever their zone, and an IPv4 address has the same key when it arrives mapped into IPv6.
\<close>

lemma networkAdmissionSource_network:
  assumes "ParseAddr (TrimSpace s) = Some a" "ParseAddr (TrimSpace t) = Some b"
    and "(\<exists>v w y z. Unmap a = Addr6 v y \<and> Unmap b = Addr6 w z \<and> uint v div 2 ^ 64 = uint w div 2 ^ 64) \<or>
      (\<exists>v. Unmap a = Addr4 v \<and> Unmap b = Addr4 v)"
  shows "networkAdmissionSource s = networkAdmissionSource t"
  using assms(3)
proof (elim disjE exE conjE)
  fix v w y z
  assume views: "Unmap a = Addr6 v y" "Unmap b = Addr6 w z" "uint v div 2 ^ 64 = uint w div 2 ^ 64"
  have "Masked (PrefixFrom (Addr6 v []) 64) = Masked (PrefixFrom (Addr6 w []) 64)"
    using masked_same [OF views(3)] by (simp add: PrefixFrom_def Masked_def)
  then show ?thesis by (simp add: networkAdmissionSource_def assms(1,2) views(1,2))
next
  fix v
  assume "Unmap a = Addr4 v" "Unmap b = Addr4 v"
  then show ?thesis by (simp add: networkAdmissionSource_def assms(1,2))
qed

lemma networkAdmissionSource_network_example:
  "networkAdmissionSource ''::1'' = networkAdmissionSource ''::2%e'' \<and>
   networkAdmissionSource ''::ffff:10.0.0.1'' = networkAdmissionSource '' 10.0.0.1 ''"
proof -
  have v6: "ParseAddr (TrimSpace ''::1'') = Some (Addr6 1 [])" "ParseAddr (TrimSpace ''::2%e'') = Some (Addr6 2 ''e'')"
    by code_simp+
  have v4: "ParseAddr (TrimSpace ''::ffff:10.0.0.1'') = Some (Addr6 0xffff0a000001 [])" "ParseAddr (TrimSpace '' 10.0.0.1 '') = Some (Addr4 0x0a000001)"
    by code_simp+
  have unmap: "Unmap (Addr6 1 []) = Addr6 1 []" "Unmap (Addr6 2 ''e'') = Addr6 2 ''e''" "Unmap (Addr6 0xffff0a000001 []) = Addr4 0x0a000001"
      "uint (1 :: 128 word) div 2 ^ 64 = uint (2 :: 128 word) div 2 ^ 64"
    by (simp_all add: drop_bit_eq_div)
  show ?thesis
    using networkAdmissionSource_network [OF v6(1,2)] networkAdmissionSource_network [OF v4(1,2)] unmap by auto
qed

section \<open>Failed logins\<close>

definition usernamesOk :: "usernameAdmission \<Rightarrow> bool" where
  "usernamesOk a \<longleftrightarrow> distinct (map fst (ua_subjects a)) \<and> int (length (ua_subjects a)) \<le> max 0 (ua_maximumSubjects a) \<and>
     0 \<le> ua_subjectAttempts a \<and> list_all (\<lambda>(_, s). 0 \<le> ab_attempts s \<and> ab_attempts s \<le> ua_subjectAttempts a) (ua_subjects a)"

inductive username_step :: "(string \<Rightarrow> string) \<Rightarrow> usernameAdmission \<Rightarrow> usernameAdmission \<Rightarrow> bool" for sha256 where
  failure: "username_step sha256 a (recordFailure sha256 now username a)"
| success: "username_step sha256 a (forget sha256 username a)"
| reorder: "mset subjects = mset (ua_subjects a) \<Longrightarrow> username_step sha256 a (a\<lparr>ua_subjects := subjects\<rparr>)"

lemma cleanupSubjects_ok:
  assumes "usernamesOk a"
  shows "usernamesOk (a\<lparr>ua_subjects := cleanupSubjects now limit (ua_subjects a)\<rparr>)"
proof -
  let ?xs = "ua_subjects a" and ?ys = "cleanupSubjects now limit (ua_subjects a)"
  have split: "?xs = take limit ?xs @ drop limit ?xs" by simp
  have "set ?ys \<subseteq> set ?xs" by (auto simp: cleanupSubjects_def dest: in_set_takeD in_set_dropD)
  moreover have "distinct (map fst ?ys)"
  proof -
    have "distinct (map fst (take limit ?xs) @ map fst (drop limit ?xs))" using assms split by (metis map_append usernamesOk_def)
    then show ?thesis by (auto simp: cleanupSubjects_def distinct_map_filter)
  qed
  moreover have "length ?ys \<le> length ?xs"
    using length_filter_le [of "\<lambda>(_, state). now < ab_windowEnds state" "take limit ?xs"] by (simp add: cleanupSubjects_def min_def split: if_splits)
  ultimately show ?thesis using assms by (auto simp: usernamesOk_def list_all_iff)
qed

lemma set_tl: "set (tl xs) \<subseteq> set xs"
  by (cases xs) auto

lemma update_length: "distinct (map fst xs) \<Longrightarrow> length (AList.update k v xs) = (if map_of xs k = None then Suc (length xs) else length xs)"
  by (induction xs) auto

lemma update_all: "list_all (\<lambda>(_, s). P s) xs \<Longrightarrow> P v \<Longrightarrow> list_all (\<lambda>(_, s). P s) (AList.update k v xs)"
  by (induction xs) auto

lemma recordFailure_ok:
  assumes ok: "usernamesOk a"
  shows "usernamesOk (recordFailure sha256 now username a)"
proof -
  define b where "b = a\<lparr>ua_subjects := cleanupSubjects now publicAdmissionCleanupLimit (ua_subjects a)\<rparr>"
  define subject where "subject = usernameSubject sha256 username"
  have bok: "usernamesOk b" unfolding b_def by (rule cleanupSubjects_ok [OF ok])
  show ?thesis
  proof (cases "ua_maximumSubjects b \<le> 0")
    case True
    with bok show ?thesis by (simp add: recordFailure_def Let_def b_def)
  next
    case False
    obtain state subjects where st: "failureState now subject b = (state, subjects)" by force
    let ?counted = "if ab_attempts state < ua_subjectAttempts b then state\<lparr>ab_attempts := ab_attempts state + 1\<rparr> else state"
    have out: "recordFailure sha256 now username a = b\<lparr>ua_subjects := AList.update subject ?counted subjects\<rparr>"
      using False st by (simp add: recordFailure_def Let_def flip: b_def subject_def)
    have state: "0 \<le> ab_attempts state \<and> ab_attempts state \<le> ua_subjectAttempts b"
      using st bok by (auto simp: failureState_def usernamesOk_def list_all_iff dest!: map_of_SomeD split: option.splits if_splits)
    have sub: "set subjects \<subseteq> set (ua_subjects b)" "distinct (map fst subjects)"
      using st bok set_tl [of "ua_subjects b"]
      by (auto simp: failureState_def usernamesOk_def distinct_tl map_tl split: option.splits if_splits)
    have "int (length (AList.update subject ?counted subjects)) \<le> ua_maximumSubjects b"
      using st bok False sub(2)
      by (cases "ua_subjects b") (auto simp: failureState_def usernamesOk_def update_length split: option.splits if_splits)
    moreover have "list_all (\<lambda>(_, s). 0 \<le> ab_attempts s \<and> ab_attempts s \<le> ua_subjectAttempts b) (AList.update subject ?counted subjects)"
      using bok sub(1) state by (intro update_all) (auto simp: usernamesOk_def list_all_iff)
    ultimately show ?thesis
      using bok sub(2) False by (simp add: out usernamesOk_def distinct_update)
  qed
qed

interpretation usernames: transition_system "\<lambda>a. \<exists>attempts sources window. 0 \<le> attempts \<and> a = newUsernameAdmission attempts sources window"
  "username_step sha256" usernamesOk for sha256
proof
  fix a :: usernameAdmission
  assume "\<exists>attempts sources window. 0 \<le> attempts \<and> a = newUsernameAdmission attempts sources window"
  then show "usernamesOk a" by (auto simp: newUsernameAdmission_def usernamesOk_def)
next
  fix a b assume ok: "usernamesOk a" and "username_step sha256 a b"
  from this(2) show "usernamesOk b"
  proof cases
    case (failure now username)
    with ok recordFailure_ok show ?thesis by simp
  next
    case (success username)
    have "int (length (AList.delete k xs)) \<le> int (length xs)" "list_all P xs \<Longrightarrow> list_all P (AList.delete k xs)" for k and xs :: "(string \<times> attemptBudget) list" and P
      by (simp_all add: AList.delete_eq list_all_iff)
    from this(1) [THEN order_trans] this(2) success ok show ?thesis
      by (auto simp: usernamesOk_def forget_def distinct_delete)
  next
    case (reorder subjects)
    have "set subjects = set (ua_subjects a)" "length subjects = length (ua_subjects a)"
      using reorder(2) by (metis set_mset_mset, metis size_mset)
    moreover have "distinct (map fst subjects)"
      using reorder(2) ok by (metis usernamesOk_def mset_eq_imp_distinct_iff mset_map)
    ultimately show ?thesis using ok reorder(1) by (simp add: usernamesOk_def list_all_iff)
  qed
qed

lemma map_of_cleanupSubjects:
  assumes "distinct (map fst xs)"
  shows "map_of (cleanupSubjects now limit xs) k = map_of xs k \<or>
    map_of (cleanupSubjects now limit xs) k = None \<and> (\<exists>s. map_of xs k = Some s \<and> \<not> now < ab_windowEnds s)"
proof -
  let ?ys = "cleanupSubjects now limit xs"
  have sub: "set ?ys \<subseteq> set xs" by (auto simp: cleanupSubjects_def dest: in_set_takeD in_set_dropD)
  have kept: "(k, s) \<in> set ?ys" if "(k, s) \<in> set xs" "now < ab_windowEnds s" for s
    using that set_append [of "take limit xs" "drop limit xs"] by (auto simp: cleanupSubjects_def)
  show ?thesis
  proof (cases "map_of ?ys k")
    case (Some s)
    then have "(k, s) \<in> set xs" using sub map_of_SomeD by fastforce
    with assms Some show ?thesis by simp
  next
    case None
    show ?thesis
    proof (cases "map_of xs k")
      case (Some s)
      then have "(k, s) \<in> set xs" by (rule map_of_SomeD)
      moreover have "(k, s) \<notin> set ?ys" using None by (force simp: map_of_eq_None_iff)
      ultimately show ?thesis using kept None Some by blast
    qed (simp add: None)
  qed
qed

text \<open>The budget a failure leaves: one more in the running window, or the first of a new one.\<close>

definition countedFailure :: "usernameAdmission \<Rightarrow> int \<Rightarrow> attemptBudget option \<Rightarrow> attemptBudget" where
  "countedFailure a now previous =
     (case previous of
        Some s \<Rightarrow> if now < ab_windowEnds s then s\<lparr>ab_attempts := min (ab_attempts s + 1) (ua_subjectAttempts a)\<rparr>
          else \<lparr>ab_attempts = 1, ab_windowEnds = now + ua_window a\<rparr>
      | None \<Rightarrow> \<lparr>ab_attempts = 1, ab_windowEnds = now + ua_window a\<rparr>)"

text \<open>
  The table of failed logins is bounded whatever the names that are tried, in every state the
  methods reach: at most the configured number of subjects, and of attempts each. A failure is always
  recorded, counted on top of the failures of its running window, even when an entry has to go for it.
\<close>

theorem recordFailure_counts:
  assumes "(username_step sha256)\<^sup>*\<^sup>* (newUsernameAdmission attempts subjects window) a" "0 < attempts"
    and "0 < ua_subjectAttempts a" "0 < ua_maximumSubjects a"
  shows "int (length (ua_subjects a)) \<le> ua_maximumSubjects a \<and> list_all (\<lambda>(_, s). ab_attempts s \<le> ua_subjectAttempts a) (ua_subjects a) \<and>
    map_of (ua_subjects (recordFailure sha256 now username a)) (usernameSubject sha256 username) =
      Some (countedFailure a now (map_of (ua_subjects a) (usernameSubject sha256 username)))"
proof -
  have ok: "usernamesOk a" using usernames.inv_reachable [OF _ assms(1)] assms(2) less_imp_le by blast
  define b where "b = a\<lparr>ua_subjects := cleanupSubjects now publicAdmissionCleanupLimit (ua_subjects a)\<rparr>"
  define subject where "subject = usernameSubject sha256 username"
  obtain state rest where st: "failureState now subject b = (state, rest)" by force
  have "recordFailure sha256 now username a = b\<lparr>ua_subjects := AList.update subject
      (if ab_attempts state < ua_subjectAttempts b then state\<lparr>ab_attempts := ab_attempts state + 1\<rparr> else state) rest\<rparr>"
    using assms(4) st by (simp add: recordFailure_def Let_def b_def subject_def)
  moreover have fields: "ua_subjectAttempts b = ua_subjectAttempts a" "ua_window b = ua_window a" by (simp_all add: b_def)
  ultimately have "map_of (ua_subjects (recordFailure sha256 now username a)) subject =
      Some (if ab_attempts state < ua_subjectAttempts a then state\<lparr>ab_attempts := ab_attempts state + 1\<rparr> else state)"
    by (simp add: update_conv')
  also have "\<dots> = Some (countedFailure a now (map_of (ua_subjects a) subject))"
  proof -
    have "ab_attempts s \<le> ua_subjectAttempts a" if "map_of (ua_subjects a) subject = Some s" for s
      using ok map_of_SomeD [OF that] by (auto simp: usernamesOk_def list_all_iff)
    moreover have "map_of (ua_subjects b) subject = map_of (ua_subjects a) subject \<or>
      map_of (ua_subjects b) subject = None \<and> (\<exists>s. map_of (ua_subjects a) subject = Some s \<and> \<not> now < ab_windowEnds s)"
      using map_of_cleanupSubjects ok by (simp add: b_def usernamesOk_def)
    ultimately show ?thesis
      using st assms(3) by (auto simp: failureState_def countedFailure_def fields min_def split: option.splits if_splits)
  qed
  finally show ?thesis using ok assms(4) by (auto simp: usernamesOk_def subject_def list_all_iff)
qed

section \<open>A first login\<close>

definition loginStart :: admissionSystem where
  "loginStart = startSystem 4 1 10 2048 publicAdmissionWindow"

definition loginSystem :: admissionSystem where
  "loginSystem = (case acquire 5 ''10.0.0.1'' (sys_admission loginStart) of (result, admission) \<Rightarrow>
     loginStart\<lparr>sys_admission := admission, sys_tokens := sys_tokens loginStart @ (case result of Inl _ \<Rightarrow> [] | Inr p \<Rightarrow> [(p, False)]),
       sys_calls := sys_calls loginStart @ [(5, networkAdmissionSource ''10.0.0.1'', \<not> isl result)]\<rparr>)"

lemma login_reachable: "admission_step\<^sup>*\<^sup>* (startSystem 4 1 10 2048 publicAdmissionWindow) loginSystem"
proof -
  have "admission_step loginStart loginSystem"
    unfolding loginSystem_def by (auto intro: admission_step.call split: prod.split)
  then show ?thesis by (simp add: loginStart_def)
qed

theorem admission_counts_witness:
  "ra_inFlight (sys_admission loginSystem) = int (liveCount (sys_tokens loginSystem)) \<and> liveCount (sys_tokens loginSystem) = 1"
proof -
  have "liveCount (sys_tokens loginSystem) = 1" by code_simp
  then show ?thesis using admission_counts [OF login_reachable] by simp
qed

theorem admission_rate_witness:
  "countIf (\<lambda>t. 0 \<le> t \<and> t < publicAdmissionWindow) (admittedTimes (sys_calls loginSystem) (networkAdmissionSource ''10.0.0.1'')) \<le> 20 \<and>
   admittedTimes (sys_calls loginSystem) (networkAdmissionSource ''10.0.0.1'') = [5]"
proof -
  have "sorted (map fst (sys_calls loginSystem))" "admittedTimes (sys_calls loginSystem) (networkAdmissionSource ''10.0.0.1'') = [5]"
    by code_simp+
  then show ?thesis using admission_rate [OF login_reachable, of 0 "networkAdmissionSource ''10.0.0.1''"] by simp
qed

theorem acquire_available_witness:
  "\<not> isl (fst (acquire 7 ''192.0.2.7'' (sys_admission (startSystem 4 1 10 2048 publicAdmissionWindow))))"
proof -
  have "admission_step\<^sup>*\<^sup>* (startSystem 4 1 10 2048 publicAdmissionWindow) (startSystem 4 1 10 2048 publicAdmissionWindow)" by simp
  then show ?thesis
    by (rule acquire_available) (simp_all add: startSystem_def newRequestAdmission_def)
qed

theorem recordFailure_counts_witness:
  "map_of (ua_subjects (recordFailure (\<lambda>s. s) 3 '' Root'' newCredentialUsernameAdmission)) ''root'' =
     Some \<lparr>ab_attempts = 1, ab_windowEnds = 3 + publicAdmissionWindow\<rparr>"
proof -
  have start: "(username_step (\<lambda>s. s))\<^sup>*\<^sup>* (newUsernameAdmission 10 2048 publicAdmissionWindow) newCredentialUsernameAdmission"
    by (simp add: newCredentialUsernameAdmission_def)
  have "usernameSubject (\<lambda>s. s) '' Root'' = ''root''" by code_simp
  with recordFailure_counts [OF start, of 3 "'' Root''"] show ?thesis
    by (simp add: newCredentialUsernameAdmission_def newUsernameAdmission_def countedFailure_def)
qed

end
