(* ===== verification/Go_Encoding.thy ===== *)
theory Go_Encoding
  imports Go_Prelude "HOL-Library.Word"
begin

text \<open>
  The packages \<open>encoding/base64\<close>, \<open>crypto/sha256\<close> and \<open>crypto/hmac\<close> of Go as far as the capabilities use
  them, on byte strings: the unpadded URL-safe base64 text and its decoder, which skips line ends and
  ignores the unused bits of the last character; SHA-256; and HMAC over it. The lemmas are the round trip
  of the encoding, its lengths and alphabet, and the length of a digest.
\<close>

section \<open>Base64\<close>

definition base64_alphabet :: string where
  "base64_alphabet = ''ABCDEFGHIJKLMNOPQRSTUVWXYZabcdefghijklmnopqrstuvwxyz0123456789-_''"

definition base64_char :: "nat \<Rightarrow> char" where
  "base64_char i = base64_alphabet ! (i mod 64)"

definition base64_digit :: "char \<Rightarrow> nat option" where
  "base64_digit c = map_of (zip base64_alphabet [0..<64]) c"

fun EncodeToString :: "string \<Rightarrow> string" where
  "EncodeToString [] = []"
| "EncodeToString [a] = [base64_char (of_char a div 4), base64_char (of_char a mod 4 * 16)]"
| "EncodeToString [a, b] =
     [base64_char (of_char a div 4), base64_char (of_char a mod 4 * 16 + of_char b div 16), base64_char (of_char b mod 16 * 4)]"
| "EncodeToString (a # b # c # rest) =
     [base64_char (of_char a div 4), base64_char (of_char a mod 4 * 16 + of_char b div 16),
      base64_char (of_char b mod 16 * 4 + of_char c div 64), base64_char (of_char c mod 64)] @ EncodeToString rest"

fun decodeDigits :: "nat list \<Rightarrow> string option" where
  "decodeDigits [] = Some []"
| "decodeDigits [x] = None"
| "decodeDigits [x, y] = Some [char_of (x * 4 + y div 16)]"
| "decodeDigits [x, y, z] = Some [char_of (x * 4 + y div 16), char_of (y mod 16 * 16 + z div 4)]"
| "decodeDigits (x # y # z # w # rest) =
     map_option (\<lambda>bytes. [char_of (x * 4 + y div 16), char_of (y mod 16 * 16 + z div 4), char_of (z mod 4 * 64 + w)] @ bytes)
       (decodeDigits rest)"

definition DecodeString :: "string \<Rightarrow> string option" where
  "DecodeString text =
     (let digits = map base64_digit (filter (\<lambda>c. (of_char c :: nat) \<noteq> 10 \<and> (of_char c :: nat) \<noteq> 13) text)
      in if None \<in> set digits then None else decodeDigits (map the digits))"

lemma base64_alphabet_facts: "length base64_alphabet = 64" "distinct base64_alphabet"
  by (simp_all add: base64_alphabet_def)

lemma base64_digit_char [simp]: "base64_digit (base64_char i) = Some (i mod 64)"
  using map_of_zip_nth [OF _ base64_alphabet_facts(2), of "[0..<64]" "i mod 64"]
  by (simp add: base64_digit_def base64_char_def base64_alphabet_facts)

text \<open>The bytes \<open>hmac.Equal\<close> and the path of a link meet: no line end, dot or slash.\<close>

lemma base64_char_alphabet: "base64_char i \<in> set base64_alphabet"
proof -
  have "length base64_alphabet = 64" by (simp add: base64_alphabet_def)
  then show ?thesis by (simp add: base64_char_def)
qed

lemma EncodeToString_alphabet: "set (EncodeToString s) \<subseteq> set base64_alphabet"
  by (induction s rule: EncodeToString.induct) (auto simp: base64_char_alphabet)

lemma length_EncodeToString: "length (EncodeToString s) = (length s * 4 + 2) div 3"
  by (induction s rule: EncodeToString.induct) auto

lemma of_char_less: "(of_char c :: nat) < 256"
  by (metis mod_less_divisor of_char_mod_256 zero_less_numeral)

lemma base64_bytes:
  assumes "a < 256" "b < 256" "c < 256"
  shows "(a div 4) mod 64 * 4 + (a mod 4 * 16 + b div 16) mod 64 div 16 = (a :: nat)"
    "(a mod 4 * 16 + b div 16) mod 64 mod 16 * 16 + (b mod 16 * 4 + c div 64) mod 64 div 4 = b"
    "(b mod 16 * 4 + c div 64) mod 64 mod 4 * 64 + c mod 64 mod 64 = c"
proof -
  have "a div 4 < 64" "b div 16 < 16" "c div 64 < 4" "a mod 4 < 4" "b mod 16 < 16"
    using assms by auto
  then have mods: "a div 4 mod 64 = a div 4" "(a mod 4 * 16 + b div 16) mod 64 = a mod 4 * 16 + b div 16"
    "(b mod 16 * 4 + c div 64) mod 64 = b mod 16 * 4 + c div 64"
    by simp_all
  have "b div 16 div 16 = 0" "b div 16 mod 16 = b div 16" "c div 64 div 4 = 0" "c div 64 mod 4 = c div 64"
    using assms by auto
  then have parts: "(a mod 4 * 16 + b div 16) div 16 = a mod 4" "(a mod 4 * 16 + b div 16) mod 16 = b div 16"
    "(b mod 16 * 4 + c div 64) div 4 = b mod 16" "(b mod 16 * 4 + c div 64) mod 4 = c div 64"
    by (simp_all add: div_add1_eq mod_add_eq)
  show "(a div 4) mod 64 * 4 + (a mod 4 * 16 + b div 16) mod 64 div 16 = a"
    "(a mod 4 * 16 + b div 16) mod 64 mod 16 * 16 + (b mod 16 * 4 + c div 64) mod 64 div 4 = b"
    "(b mod 16 * 4 + c div 64) mod 64 mod 4 * 64 + c mod 64 mod 64 = c"
    by (simp_all only: mods parts) simp_all
qed

lemma decodeDigits_encoded: "decodeDigits (map (\<lambda>c. the (base64_digit c)) (EncodeToString s)) = Some s"
proof (induction s rule: EncodeToString.induct)
  case (2 a)
  then show ?case
    using base64_bytes(1) [OF of_char_less [of a], of 0 0]
    by (simp only: EncodeToString.simps list.map decodeDigits.simps base64_digit_char option.sel char_of_char) simp
next
  case (3 a b)
  note bytes = base64_bytes(1,2) [OF of_char_less [of a] of_char_less [of b], of 0]
  have "(of_char b mod 16 * 4) mod 64 = (of_char b mod 16 * 4 + 0 div 64 :: nat) mod 64"
    by simp
  with bytes show ?case
    by (simp only: EncodeToString.simps list.map decodeDigits.simps base64_digit_char option.sel char_of_char zero_less_numeral simp_thms)
next
  case (4 a b c rest)
  show ?case
    by (simp only: EncodeToString.simps append.simps list.map decodeDigits.simps base64_digit_char option.sel char_of_char 4
      option.map base64_bytes [OF of_char_less [of a] of_char_less [of b] of_char_less [of c]])
qed simp

lemma DecodeString_EncodeToString [simp]: "DecodeString (EncodeToString s) = Some s"
proof -
  have "\<forall>c \<in> set base64_alphabet. (of_char c :: nat) \<noteq> 10 \<and> (of_char c :: nat) \<noteq> 13"
    by (simp add: base64_alphabet_def)
  then have "filter (\<lambda>c. (of_char c :: nat) \<noteq> 10 \<and> (of_char c :: nat) \<noteq> 13) (EncodeToString s) = EncodeToString s"
    using EncodeToString_alphabet [of s] by (intro filter_True) blast
  moreover have "None \<notin> set (map base64_digit (EncodeToString s))"
    by (induction s rule: EncodeToString.induct) auto
  moreover have "decodeDigits (map the (map base64_digit (EncodeToString s))) = Some s"
    using decodeDigits_encoded by (simp add: comp_def)
  ultimately show ?thesis by (simp add: DecodeString_def)
qed

section \<open>SHA-256\<close>

type_synonym word32 = "32 word"

definition sha256_constants :: "word32 list" where
  "sha256_constants = [
     1116352408, 1899447441, 3049323471, 3921009573, 961987163, 1508970993, 2453635748, 2870763221,
     3624381080, 310598401, 607225278, 1426881987, 1925078388, 2162078206, 2614888103, 3248222580,
     3835390401, 4022224774, 264347078, 604807628, 770255983, 1249150122, 1555081692, 1996064986,
     2554220882, 2821834349, 2952996808, 3210313671, 3336571891, 3584528711, 113926993, 338241895,
     666307205, 773529912, 1294757372, 1396182291, 1695183700, 1986661051, 2177026350, 2456956037,
     2730485921, 2820302411, 3259730800, 3345764771, 3516065817, 3600352804, 4094571909, 275423344,
     430227734, 506948616, 659060556, 883997877, 958139571, 1322822218, 1537002063, 1747873779,
     1955562222, 2024104815, 2227730452, 2361852424, 2428436474, 2756734187, 3204031479, 3329325298]"

record sha256_state =
  sh_a :: word32
  sh_b :: word32
  sh_c :: word32
  sh_d :: word32
  sh_e :: word32
  sh_f :: word32
  sh_g :: word32
  sh_h :: word32

definition sha256_start :: sha256_state where
  "sha256_start = \<lparr>sh_a = 1779033703, sh_b = 3144134277, sh_c = 1013904242, sh_d = 2773480762,
     sh_e = 1359893119, sh_f = 2600822924, sh_g = 528734635, sh_h = 1541459225\<rparr>"

definition xor3 :: "word32 \<Rightarrow> word32 \<Rightarrow> word32 \<Rightarrow> word32" where
  "xor3 x y z = xor (xor x y) z"

definition sha256_round :: "word32 \<times> word32 \<Rightarrow> sha256_state \<Rightarrow> sha256_state" where
  "sha256_round kw s =
     (let e = sh_e s; a = sh_a s;
          choice = xor (and e (sh_f s)) (and (not e) (sh_g s));
          majority = xor3 (and a (sh_b s)) (and a (sh_c s)) (and (sh_b s) (sh_c s));
          t1 = sh_h s + xor3 (word_rotr 6 e) (word_rotr 11 e) (word_rotr 25 e) + choice + fst kw + snd kw;
          t2 = xor3 (word_rotr 2 a) (word_rotr 13 a) (word_rotr 22 a) + majority
      in \<lparr>sh_a = t1 + t2, sh_b = a, sh_c = sh_b s, sh_d = sh_c s, sh_e = sh_d s + t1, sh_f = e, sh_g = sh_f s, sh_h = sh_g s\<rparr>)"

text \<open>The message schedule, newest word first.\<close>

fun sha256_schedule :: "nat \<Rightarrow> word32 list \<Rightarrow> word32 list" where
  "sha256_schedule 0 ws = ws"
| "sha256_schedule (Suc n) ws =
     (let w15 = ws ! 14; w2 = ws ! 1;
          s0 = xor3 (word_rotr 7 w15) (word_rotr 18 w15) (drop_bit 3 w15);
          s1 = xor3 (word_rotr 17 w2) (word_rotr 19 w2) (drop_bit 10 w2)
      in sha256_schedule n ((ws ! 15 + s0 + ws ! 6 + s1) # ws))"

definition bytesWord :: "string \<Rightarrow> word32" where
  "bytesWord s = foldl (\<lambda>acc c. acc * 256 + of_char c) 0 s"

definition sha256_block :: "string \<Rightarrow> sha256_state \<Rightarrow> sha256_state" where
  "sha256_block block s =
     (let ws = map (\<lambda>i. bytesWord (take 4 (drop (4 * i) block))) [0..<16];
          r = fold sha256_round (zip sha256_constants (rev (sha256_schedule 48 (rev ws)))) s
      in \<lparr>sh_a = sh_a s + sh_a r, sh_b = sh_b s + sh_b r, sh_c = sh_c s + sh_c r, sh_d = sh_d s + sh_d r,
          sh_e = sh_e s + sh_e r, sh_f = sh_f s + sh_f r, sh_g = sh_g s + sh_g r, sh_h = sh_h s + sh_h r\<rparr>)"

definition bigEndian :: "nat \<Rightarrow> int \<Rightarrow> string" where
  "bigEndian n v = map (\<lambda>i. char_of (v div 256 ^ (n - 1 - i))) [0..<n]"

definition sha256_padded :: "string \<Rightarrow> string" where
  "sha256_padded message =
     message @ [char_of (128 :: nat)] @ replicate ((119 - length message mod 64) mod 64) (char_of (0 :: nat)) @
     bigEndian 8 (int (length message) * 8)"

definition sha256_digest :: "sha256_state \<Rightarrow> string" where
  "sha256_digest s = concat (map (\<lambda>w. bigEndian 4 (uint w)) [sh_a s, sh_b s, sh_c s, sh_d s, sh_e s, sh_f s, sh_g s, sh_h s])"

definition Sum256 :: "string \<Rightarrow> string" where
  "Sum256 message =
     (let padded = sha256_padded message
      in sha256_digest (fold (\<lambda>i. sha256_block (take 64 (drop (64 * i) padded))) [0..<length padded div 64] sha256_start))"

definition hmacPad :: "8 word \<Rightarrow> string \<Rightarrow> string" where
  "hmacPad pad key = map (\<lambda>c. char_of (uint (xor pad (of_char c :: 8 word)))) (key @ replicate (64 - length key) (char_of (0 :: nat)))"

text \<open>\<open>hmac.New(sha256.New, key)\<close>, the message written to it, and \<open>Sum(nil)\<close>.\<close>

definition hmacSHA256 :: "string \<Rightarrow> string \<Rightarrow> string" where
  "hmacSHA256 key message =
     (let short = (if 64 < length key then Sum256 key else key)
      in Sum256 (hmacPad 0x5c short @ Sum256 (hmacPad 0x36 short @ message)))"

lemma length_bigEndian [simp]: "length (bigEndian n v) = n"
  by (simp add: bigEndian_def)

lemma length_Sum256 [simp]: "length (Sum256 message) = 32"
  by (simp add: Sum256_def sha256_digest_def Let_def)

lemma length_hmacSHA256 [simp]: "length (hmacSHA256 key message) = 32"
  by (simp add: hmacSHA256_def Let_def)

end
