(* ===== verification/Delivery_Children.thy ===== *)
theory Delivery_Children
  imports Playback_Preparation Go_Encoding
begin

text \<open>
  The short-lived child capabilities of a delivery (\<open>playback/delivery.go\<close>): a table for each open
  handle gives out identifiers for the local files and remote targets a playlist refers to, and one
  budget of the service counts the live children of all tables and of every profile. The tables are the
  heap \<open>ds_tables\<close>, a pointer is a position there. \<open>register\<close> releases the lock of its table between the
  lookup and every attempt with a fresh identifier, and \<open>clear\<close> before it takes the table off the list of
  the budget: each critical section is one step here. A panic of the code is the value \<open>Panics\<close>. Every
  table reads the clock of the service under its lock, so its readings do not go back; the zero
  \<open>time.Time\<close> of a field is \<open>None\<close>.
\<close>

section \<open>State\<close>

record deliveryChildState =
  ch_assetID :: string
  ch_file :: string
  ch_start :: string
  ch_target :: string
  ch_signature :: string
  ch_retainWhileActive :: bool

record deliveryChildEntry =
  ce_state :: deliveryChildState
  ce_activeAt :: int

record deliveryChildBudget =
  bud_live :: int
  bud_byProfile :: "(string \<times> int) list"
  bud_tables :: "nat list"
  bud_globalMax :: int
  bud_profileMax :: int

record deliveryChildTable =
  tb_entries :: "(string \<times> deliveryChildEntry) list"
  tb_byState :: "(deliveryChildState \<times> string) list"
  tb_budget :: bool
  tb_profileID :: string
  tb_activeAt :: "int option"
  tb_nextExpiry :: "int option"
  tb_closed :: bool

datatype delivery_error = DeliverySessionNotFound | ChildCapacity | RandomFailed | NoUniqueCapability

datatype 'a call = Panics | Returns 'a

definition maximumPlaylistReferences :: nat where
  "maximumPlaylistReferences = 10000"

definition maximumDeliveryChildren :: nat where
  "maximumDeliveryChildren = maximumPlaylistReferences"

definition maximumDeliveryChildrenPerProfile :: int where
  "maximumDeliveryChildrenPerProfile = int maximumDeliveryChildren"

definition maximumDeliveryChildrenGlobal :: int where
  "maximumDeliveryChildrenGlobal = 4 * maximumDeliveryChildrenPerProfile"

definition maximumDeliveryChildIDLength :: nat where
  "maximumDeliveryChildIDLength = 64"

definition maximumDeliveryTargetLength :: nat where
  "maximumDeliveryTargetLength = 4096"

definition deliveryChildTTL :: int where
  "deliveryChildTTL = 5 * 60 * 1000000000"

section \<open>The budget\<close>

definition newDeliveryChildBudget :: "int \<Rightarrow> int \<Rightarrow> deliveryChildBudget" where
  "newDeliveryChildBudget globalMax profileMax =
     \<lparr>bud_live = 0, bud_byProfile = [], bud_tables = [], bud_globalMax = globalMax, bud_profileMax = profileMax\<rparr>"

definition profileLive :: "deliveryChildBudget \<Rightarrow> string \<Rightarrow> int" where
  "profileLive budget profileID = (case map_of (bud_byProfile budget) profileID of None \<Rightarrow> 0 | Some n \<Rightarrow> n)"

text \<open>A budget pointer is \<open>None\<close> for \<open>nil\<close>, and otherwise the budget it points to.\<close>

definition reserve :: "deliveryChildBudget option \<Rightarrow> string \<Rightarrow> bool \<times> deliveryChildBudget option" where
  "reserve pointer profileID =
     (case pointer of None \<Rightarrow> (True, None)
      | Some budget \<Rightarrow>
          if profileID = [] then (False, pointer)
          else if bud_globalMax budget \<le> bud_live budget \<or> bud_profileMax budget \<le> profileLive budget profileID then (False, pointer)
          else (True, Some (budget\<lparr>bud_live := bud_live budget + 1,
            bud_byProfile := AList.update profileID (profileLive budget profileID + 1) (bud_byProfile budget)\<rparr>)))"

definition release :: "deliveryChildBudget option \<Rightarrow> string \<Rightarrow> int \<Rightarrow> deliveryChildBudget option call" where
  "release pointer profileID n =
     (case pointer of None \<Rightarrow> Returns None
      | Some budget \<Rightarrow>
          if n = 0 then Returns pointer
          else let live = profileLive budget profileID
            in if n < 0 \<or> live < n \<or> bud_live budget < n then Panics
               else Returns (Some (budget\<lparr>bud_live := bud_live budget - n,
                 bud_byProfile := (if live - n = 0 then AList.delete profileID (bud_byProfile budget)
                   else AList.update profileID (live - n) (bud_byProfile budget))\<rparr>)))"

definition usage :: "deliveryChildBudget option \<Rightarrow> string \<Rightarrow> int \<times> int" where
  "usage pointer profileID = (case pointer of None \<Rightarrow> (0, 0) | Some budget \<Rightarrow> (bud_live budget, profileLive budget profileID))"

text \<open>\<open>budget.tables\<close> is a \<open>sync.Map\<close> used as a set of table pointers.\<close>

definition listTable :: "nat \<Rightarrow> deliveryChildBudget option \<Rightarrow> deliveryChildBudget option" where
  "listTable i pointer = map_option (\<lambda>budget. budget\<lparr>bud_tables := List.insert i (bud_tables budget)\<rparr>) pointer"

definition unlistTable :: "nat \<Rightarrow> deliveryChildBudget option \<Rightarrow> deliveryChildBudget option" where
  "unlistTable i pointer = map_option (\<lambda>budget. budget\<lparr>bud_tables := removeAll i (bud_tables budget)\<rparr>) pointer"

section \<open>A table\<close>

definition newDeliveryChildTable :: deliveryChildTable where
  "newDeliveryChildTable = \<lparr>tb_entries = [], tb_byState = [], tb_budget = False, tb_profileID = [], tb_activeAt = None,
     tb_nextExpiry = None, tb_closed = False\<rparr>"

definition bindBudget :: "string \<Rightarrow> deliveryChildTable \<Rightarrow> deliveryChildTable call" where
  "bindBudget profileID table =
     (if tb_entries table \<noteq> [] \<or> tb_budget table then Panics
      else Returns (table\<lparr>tb_budget := True, tb_profileID := profileID\<rparr>))"

definition childExpiresAt :: "deliveryChildTable \<Rightarrow> deliveryChildEntry \<Rightarrow> int" where
  "childExpiresAt table entry =
     (let activeAt = (case tb_activeAt table of None \<Rightarrow> ce_activeAt entry
            | Some instant \<Rightarrow> if ch_retainWhileActive (ce_state entry) \<and> ce_activeAt entry < instant then instant else ce_activeAt entry)
      in activeAt + deliveryChildTTL)"

text \<open>What the methods below work on: a table, its pointer, and what its field \<open>budget\<close> points to.\<close>

type_synonym table_memory = "deliveryChildTable \<times> deliveryChildBudget option"

definition earlierExpiry :: "int \<Rightarrow> int option \<Rightarrow> int option" where
  "earlierExpiry expiresAt nextExpiry =
     (case nextExpiry of None \<Rightarrow> Some expiresAt | Some instant \<Rightarrow> if expiresAt < instant then Some expiresAt else nextExpiry)"

text \<open>The loop of \<open>expireLocked\<close> over the entries: what is left, and the number expired.\<close>

fun expireLoop ::
  "int \<Rightarrow> (string \<times> deliveryChildEntry) list \<Rightarrow> deliveryChildTable \<Rightarrow> nat \<Rightarrow> int option \<Rightarrow> deliveryChildTable \<times> nat \<times> int option" where
  "expireLoop now [] table expired nextExpiry = (table, expired, nextExpiry)"
| "expireLoop now ((childID, entry) # rest) table expired nextExpiry =
     (let expiresAt = childExpiresAt table entry
      in if expiresAt \<le> now
         then expireLoop now rest (table\<lparr>tb_entries := AList.delete childID (tb_entries table),
                tb_byState := AList.delete (ce_state entry) (tb_byState table)\<rparr>) (expired + 1) nextExpiry
         else expireLoop now rest table expired (earlierExpiry expiresAt nextExpiry))"

definition expireLocked :: "nat \<Rightarrow> int \<Rightarrow> table_memory \<Rightarrow> table_memory call" where
  "expireLocked i now memory =
     (case memory of (table, budget) \<Rightarrow>
        if tb_entries table = [] \<or> (\<exists>instant \<in> set_option (tb_nextExpiry table). now < instant) then Returns memory
        else (case expireLoop now (tb_entries table) table 0 None of (left, expired, nextExpiry) \<Rightarrow>
          (case release budget (tb_profileID table) (int expired) of Panics \<Rightarrow> Panics
           | Returns released \<Rightarrow>
               Returns (left\<lparr>tb_nextExpiry := nextExpiry\<rparr>, if tb_entries left = [] then unlistTable i released else released))))"

definition touchExistingLocked :: "string \<Rightarrow> int \<Rightarrow> deliveryChildTable \<Rightarrow> deliveryChildTable" where
  "touchExistingLocked childID now table =
     (case map_of (tb_entries table) childID of None \<Rightarrow> table
      | Some entry \<Rightarrow> table\<lparr>tb_activeAt := Some now, tb_entries := AList.update childID (entry\<lparr>ce_activeAt := now\<rparr>) (tb_entries table)\<rparr>)"

definition prune :: "nat \<Rightarrow> int \<Rightarrow> table_memory \<Rightarrow> table_memory call" where
  "prune i now memory = (if tb_closed (fst memory) then Returns memory else expireLocked i now memory)"

definition resolveChild :: "string \<Rightarrow> nat \<Rightarrow> int \<Rightarrow> table_memory \<Rightarrow> (deliveryChildState option \<times> table_memory) call" where
  "resolveChild childID i now memory =
     (if childID = [] \<or> maximumDeliveryChildIDLength < length childID then Returns (None, memory)
      else (case expireLocked i now memory of Panics \<Rightarrow> Panics
        | Returns (table, budget) \<Rightarrow>
            (case map_of (tb_entries table) childID of None \<Rightarrow> Returns (None, table, budget)
             | Some entry \<Rightarrow>
                 Returns (Some (ce_state entry), table\<lparr>tb_activeAt := Some now,
                   tb_entries := AList.update childID (entry\<lparr>ce_activeAt := now\<rparr>) (tb_entries table)\<rparr>, budget))))"

definition touchActivity :: "nat \<Rightarrow> int \<Rightarrow> table_memory \<Rightarrow> (bool \<times> table_memory) call" where
  "touchActivity i now memory =
     (if tb_closed (fst memory) then Returns (False, memory)
      else (case expireLocked i now memory of Panics \<Rightarrow> Panics
        | Returns (table, budget) \<Rightarrow> Returns (True, table\<lparr>tb_activeAt := Some now\<rparr>, budget)))"

definition clearLocked :: "table_memory \<Rightarrow> table_memory call" where
  "clearLocked memory =
     (case memory of (table, budget) \<Rightarrow>
        (case release budget (tb_profileID table) (int (length (tb_entries table))) of Panics \<Rightarrow> Panics
         | Returns released \<Rightarrow>
             Returns (table\<lparr>tb_entries := [], tb_byState := [], tb_activeAt := None, tb_nextExpiry := None\<rparr>, released)))"

text \<open>The critical section of \<open>clear\<close>; the table is taken off the list afterwards.\<close>

definition clearTable :: "table_memory \<Rightarrow> table_memory call" where
  "clearTable memory =
     (case clearLocked memory of Panics \<Rightarrow> Panics | Returns (table, budget) \<Rightarrow> Returns (table\<lparr>tb_closed := True\<rparr>, budget))"

section \<open>Registering\<close>

text \<open>The regular expression \<open>^[A-Za-z0-9][A-Za-z0-9._-]{0,127}$\<close> of \<open>hls.go\<close>.\<close>

definition asciiAlnum :: "char \<Rightarrow> bool" where
  "asciiAlnum c \<longleftrightarrow> is_digit c \<or> (65 \<le> (of_char c :: nat) \<and> (of_char c :: nat) \<le> 90) \<or> (97 \<le> (of_char c :: nat) \<and> (of_char c :: nat) \<le> 122)"

definition localMediaName :: "string \<Rightarrow> bool" where
  "localMediaName name \<longleftrightarrow>
     (case name of [] \<Rightarrow> False
      | c # rest \<Rightarrow> asciiAlnum c \<and> list_all (\<lambda>d. asciiAlnum d \<or> d \<in> set ''._-'') rest \<and> length rest \<le> 127)"

definition maximumPlaybackStart :: int where
  "maximumPlaybackStart = 7 * 24 * 60 * 60"

definition processedMediaStart :: "string \<Rightarrow> playback_error + int" where
  "processedMediaStart raw =
     (if raw = [] then Inr 0
      else (case ParseInt raw of None \<Rightarrow> Inl ErrSessionNotFound
        | Some seconds \<Rightarrow> if seconds < 0 \<or> maximumPlaybackStart < seconds then Inl ErrSessionNotFound else Inr seconds))"

definition validDeliveryChildState :: "deliveryChildState \<Rightarrow> bool" where
  "validDeliveryChildState state \<longleftrightarrow>
     (if ch_assetID state = [] \<or> 128 < length (ch_assetID state) \<or> 128 < length (ch_file state) \<or> 32 < length (ch_start state) \<or>
         maximumDeliveryTargetLength < length (ch_target state) \<or> 128 < length (ch_signature state) then False
      else if ch_target state \<noteq> [] \<or> ch_signature state \<noteq> []
      then ch_target state \<noteq> [] \<and> ch_signature state \<noteq> [] \<and> ch_file state = [] \<and> ch_start state = []
      else if ch_file state = [] \<or> \<not> localMediaName (ch_file state) then False
      else \<not> isl (processedMediaStart (ch_start state)))"

text \<open>A critical section of \<open>register\<close> ends the call with a reply, or the call goes on with the next identifier.\<close>

datatype register_outcome = Replies "delivery_error + string" | GoesOn

definition registerExisting ::
  "deliveryChildState \<Rightarrow> nat \<Rightarrow> int \<Rightarrow> table_memory \<Rightarrow> (register_outcome \<times> table_memory) call" where
  "registerExisting state i now memory =
     (if tb_closed (fst memory) then Returns (Replies (Inl DeliverySessionNotFound), memory)
      else (case expireLocked i now memory of Panics \<Rightarrow> Panics
        | Returns (table, budget) \<Rightarrow>
            (case map_of (tb_byState table) state of
               Some existingID \<Rightarrow> Returns (Replies (Inr existingID), touchExistingLocked existingID now table, budget)
             | None \<Rightarrow> Returns (GoesOn, table, budget))))"

definition registerFirst ::
  "deliveryChildState \<Rightarrow> nat \<Rightarrow> int \<Rightarrow> table_memory \<Rightarrow> (register_outcome \<times> table_memory) call" where
  "registerFirst state i now memory =
     (if \<not> validDeliveryChildState state then Returns (Replies (Inl DeliverySessionNotFound), memory)
      else registerExisting state i now memory)"

definition insertChild :: "string \<Rightarrow> deliveryChildState \<Rightarrow> int \<Rightarrow> deliveryChildTable \<Rightarrow> deliveryChildTable" where
  "insertChild childID state now table =
     (let entry = \<lparr>ce_state = state, ce_activeAt = now\<rparr>;
          inserted = table\<lparr>tb_activeAt := Some now, tb_entries := AList.update childID entry (tb_entries table),
            tb_byState := AList.update state childID (tb_byState table)\<rparr>
      in inserted\<lparr>tb_nextExpiry := earlierExpiry (childExpiresAt inserted entry) (tb_nextExpiry inserted)\<rparr>)"

text \<open>One attempt, with the random bytes it has read.\<close>

definition registerAttempt ::
  "deliveryChildState \<Rightarrow> string \<Rightarrow> nat \<Rightarrow> int \<Rightarrow> table_memory \<Rightarrow> (register_outcome \<times> table_memory) call" where
  "registerAttempt state random i now memory =
     (let childID = EncodeToString random in case registerExisting state i now memory of
        Panics \<Rightarrow> Panics
      | Returns (Replies reply, after) \<Rightarrow> Returns (Replies reply, after)
      | Returns (GoesOn, table, budget) \<Rightarrow>
          if maximumDeliveryChildren \<le> length (tb_entries table) then Returns (Replies (Inl ChildCapacity), table, budget)
          else if map_of (tb_entries table) childID \<noteq> None then Returns (GoesOn, table, budget)
          else (case reserve budget (tb_profileID table) of
              (False, refused) \<Rightarrow> Returns (Replies (Inl ChildCapacity), table, refused)
            | (True, reserved) \<Rightarrow> Returns (Replies (Inr childID), insertChild childID state now table, listTable i reserved)))"

section \<open>The system of all tables\<close>

record registerCall =
  rc_table :: nat
  rc_state :: deliveryChildState
  rc_attempts :: nat
  rc_reply :: "(delivery_error + string) option"

record deliverySystem =
  ds_budget :: deliveryChildBudget
  ds_tables :: "deliveryChildTable list"
  ds_calls :: "registerCall list"
  ds_closing :: "nat list"
  ds_clock :: int

definition startDeliveries :: "int \<Rightarrow> int \<Rightarrow> deliverySystem" where
  "startDeliveries globalMax profileMax =
     \<lparr>ds_budget = newDeliveryChildBudget globalMax profileMax, ds_tables = [], ds_calls = [], ds_closing = [], ds_clock = 0\<rparr>"

definition memoryOf :: "nat \<Rightarrow> deliverySystem \<Rightarrow> table_memory" where
  "memoryOf i s = (ds_tables s ! i, if tb_budget (ds_tables s ! i) then Some (ds_budget s) else None)"

definition writeBack :: "nat \<Rightarrow> int \<Rightarrow> table_memory \<Rightarrow> deliverySystem \<Rightarrow> deliverySystem" where
  "writeBack i now memory s =
     s\<lparr>ds_tables := (ds_tables s)[i := fst memory], ds_clock := now,
       ds_budget := (case snd memory of None \<Rightarrow> ds_budget s | Some budget \<Rightarrow> budget)\<rparr>"

fun replyOf :: "register_outcome \<Rightarrow> (delivery_error + string) option" where
  "replyOf (Replies reply) = Some reply"
| "replyOf GoesOn = None"

text \<open>
  The steps. A handle is opened with a table bound to the budget (the end of \<open>createSession\<close>); a register
  call is its first critical section, then at most four attempts, each with 24 random bytes read outside
  the lock; \<open>clear\<close> closes the table in one step and takes it off the list in another.
\<close>

inductive delivery_step :: "deliverySystem \<Rightarrow> deliverySystem \<Rightarrow> bool" where
  openHandle: "bindBudget profileID newDeliveryChildTable = Returns table \<Longrightarrow>
    delivery_step s (s\<lparr>ds_tables := ds_tables s @ [table]\<rparr>)"
| begins: "i < length (ds_tables s) \<Longrightarrow> ds_clock s \<le> now \<Longrightarrow>
    registerFirst state i now (memoryOf i s) = Returns (outcome, after) \<Longrightarrow>
    delivery_step s ((writeBack i now after s)\<lparr>ds_calls := ds_calls s @
      [\<lparr>rc_table = i, rc_state = state, rc_attempts = 4, rc_reply = replyOf outcome\<rparr>]\<rparr>)"
| attempts: "k < length (ds_calls s) \<Longrightarrow> c = ds_calls s ! k \<Longrightarrow> rc_reply c = None \<Longrightarrow> 0 < rc_attempts c \<Longrightarrow>
    ds_clock s \<le> now \<Longrightarrow> length random = 24 \<Longrightarrow>
    registerAttempt (rc_state c) random (rc_table c) now (memoryOf (rc_table c) s) = Returns (outcome, after) \<Longrightarrow>
    delivery_step s ((writeBack (rc_table c) now after s)\<lparr>ds_calls :=
      (ds_calls s)[k := c\<lparr>rc_attempts := rc_attempts c - 1, rc_reply := replyOf outcome\<rparr>]\<rparr>)"
| randomFails: "k < length (ds_calls s) \<Longrightarrow> c = ds_calls s ! k \<Longrightarrow> rc_reply c = None \<Longrightarrow> 0 < rc_attempts c \<Longrightarrow>
    delivery_step s (s\<lparr>ds_calls := (ds_calls s)[k := c\<lparr>rc_reply := Some (Inl RandomFailed)\<rparr>]\<rparr>)"
| exhausts: "k < length (ds_calls s) \<Longrightarrow> c = ds_calls s ! k \<Longrightarrow> rc_reply c = None \<Longrightarrow> rc_attempts c = 0 \<Longrightarrow>
    delivery_step s (s\<lparr>ds_calls := (ds_calls s)[k := c\<lparr>rc_reply := Some (Inl NoUniqueCapability)\<rparr>]\<rparr>)"
| resolves: "i < length (ds_tables s) \<Longrightarrow> ds_clock s \<le> now \<Longrightarrow>
    resolveChild childID i now (memoryOf i s) = Returns (result, after) \<Longrightarrow> delivery_step s (writeBack i now after s)"
| touches: "i < length (ds_tables s) \<Longrightarrow> ds_clock s \<le> now \<Longrightarrow>
    touchActivity i now (memoryOf i s) = Returns (alive, after) \<Longrightarrow> delivery_step s (writeBack i now after s)"
| prunes: "i < length (ds_tables s) \<Longrightarrow> ds_clock s \<le> now \<Longrightarrow>
    prune i now (memoryOf i s) = Returns after \<Longrightarrow> delivery_step s (writeBack i now after s)"
| clears: "i < length (ds_tables s) \<Longrightarrow> clearTable (memoryOf i s) = Returns after \<Longrightarrow>
    delivery_step s ((writeBack i (ds_clock s) after s)\<lparr>ds_closing := ds_closing s @ [i]\<rparr>)"
| unlists: "k < length (ds_closing s) \<Longrightarrow>
    delivery_step s (s\<lparr>ds_closing := take k (ds_closing s) @ drop (Suc k) (ds_closing s),
      ds_budget := the (unlistTable (ds_closing s ! k) (Some (ds_budget s)))\<rparr>)"

section \<open>Counting what the holders of a budget have\<close>

text \<open>
  The contract between the tables and the budget: a budget counts in total and for each key, taking one
  adds one, and giving back what the key has taken cannot fail. Its client is a list of holders, each
  with its key and the number it holds; a budget accounts for them when it counts exactly what they hold.
\<close>

definition heldBy :: "'k \<Rightarrow> ('k \<times> nat) list \<Rightarrow> int" where
  "heldBy k holders = (\<Sum>h \<leftarrow> holders. if fst h = k then int (snd h) else 0)"

definition heldAll :: "('k \<times> nat) list \<Rightarrow> int" where
  "heldAll holders = (\<Sum>h \<leftarrow> holders. int (snd h))"

definition accounts :: "('b \<Rightarrow> 'k \<Rightarrow> int) \<Rightarrow> ('b \<Rightarrow> int) \<Rightarrow> 'b \<Rightarrow> ('k \<times> nat) list \<Rightarrow> bool" where
  "accounts used tally budget holders \<longleftrightarrow> (\<forall>k. used budget k = heldBy k holders) \<and> tally budget = heldAll holders"

lemma sum_list_replace:
  fixes f :: "'a \<Rightarrow> int"
  shows "i < length xs \<Longrightarrow> (\<Sum>x \<leftarrow> xs[i := y]. f x) = (\<Sum>x \<leftarrow> xs. f x) + f y - f (xs ! i)"
proof (induction xs arbitrary: i)
  case (Cons x xs)
  then show ?case by (cases i) auto
qed simp

lemma sum_list_member:
  fixes f :: "'a \<Rightarrow> int"
  assumes "i < length xs" "\<And>x. 0 \<le> f x"
  shows "f (xs ! i) \<le> (\<Sum>x \<leftarrow> xs. f x)"
  using assms(1)
proof (induction xs arbitrary: i)
  case (Cons x xs)
  have "0 \<le> (\<Sum>x \<leftarrow> xs. f x)"
    using assms(2) by (intro sum_list_nonneg) auto
  with Cons assms(2) [of x] show ?case
    by (cases i) (auto intro: order_trans add_increasing)
qed simp

lemma held_replace:
  assumes "i < length holders"
  shows "heldBy k (holders[i := (key, n)]) = heldBy k holders + (if key = k then int n else 0) -
      (if fst (holders ! i) = k then int (snd (holders ! i)) else 0)"
    and "heldAll (holders[i := (key, n)]) = heldAll holders + int n - int (snd (holders ! i))"
  using sum_list_replace [OF assms, of _ "(key, n)"] by (simp_all add: heldBy_def heldAll_def)

lemma held_member:
  assumes "i < length holders" "holders ! i = (key, n)"
  shows "int n \<le> heldBy key holders" "int n \<le> heldAll holders"
  using sum_list_member [OF assms(1), of "\<lambda>h. if fst h = key then int (snd h) else 0"]
    sum_list_member [OF assms(1), of "\<lambda>h. int (snd h)"] assms(2)
  by (simp_all add: heldBy_def heldAll_def)

lemma held_append: "heldBy k (holders @ [(key, n)]) = heldBy k holders + (if key = k then int n else 0)"
    "heldAll (holders @ [(key, n)]) = heldAll holders + int n"
  by (simp_all add: heldBy_def heldAll_def)

locale counted_budget =
  fixes valid :: "'b \<Rightarrow> bool"
    and used :: "'b \<Rightarrow> 'k \<Rightarrow> int"
    and tally :: "'b \<Rightarrow> int"
    and take_one :: "'b \<Rightarrow> 'k \<Rightarrow> 'b option"
    and give_back :: "'b \<Rightarrow> 'k \<Rightarrow> int \<Rightarrow> 'b call"
  assumes take_one_counts: "valid b \<Longrightarrow> take_one b k = Some b' \<Longrightarrow>
      valid b' \<and> tally b' = tally b + 1 \<and> used b' = (used b)(k := used b k + 1)"
    and give_back_counts: "valid b \<Longrightarrow> 0 \<le> n \<Longrightarrow> n \<le> used b k \<Longrightarrow> n \<le> tally b \<Longrightarrow>
      \<exists>b'. give_back b k n = Returns b' \<and> valid b' \<and> tally b' = tally b - n \<and> used b' = (used b)(k := used b k - n)"
begin

lemma accounts_take:
  assumes "valid b" "accounts used tally b holders" "i < length holders" "holders ! i = (k, n)" "take_one b k = Some b'"
  shows "valid b' \<and> accounts used tally b' (holders[i := (k, Suc n)])"
  using take_one_counts [OF assms(1,5)] assms(2-4) by (simp add: accounts_def held_replace)

lemma accounts_give_back:
  assumes "valid b" "accounts used tally b holders" "i < length holders" "holders ! i = (k, n)" "m \<le> n"
  shows "\<exists>b'. give_back b k (int m) = Returns b' \<and> valid b' \<and> accounts used tally b' (holders[i := (k, n - m)])"
proof -
  have "int m \<le> used b k" "int m \<le> tally b"
    using held_member [OF assms(3,4)] assms(2,5) by (simp_all add: accounts_def)
  from give_back_counts [OF assms(1) _ this] obtain b' where
    "give_back b k (int m) = Returns b'" "valid b'" "tally b' = tally b - int m" "used b' = (used b)(k := used b k - int m)"
    by auto
  with assms(2-5) show ?thesis
    by (simp add: accounts_def held_replace of_nat_diff)
qed

end

definition budgetOk :: "int \<Rightarrow> int \<Rightarrow> deliveryChildBudget \<Rightarrow> bool" where
  "budgetOk globalMax profileMax b \<longleftrightarrow> bud_globalMax b = globalMax \<and> bud_profileMax b = profileMax \<and>
     bud_live b \<le> globalMax \<and> 0 \<le> profileMax \<and> distinct (map fst (bud_byProfile b)) \<and> (\<forall>k. profileLive b k \<le> profileMax)"

definition reserved :: "deliveryChildBudget \<Rightarrow> string \<Rightarrow> deliveryChildBudget option" where
  "reserved b k = (case reserve (Some b) k of (True, pointer) \<Rightarrow> pointer | (False, _) \<Rightarrow> None)"

definition released :: "deliveryChildBudget \<Rightarrow> string \<Rightarrow> int \<Rightarrow> deliveryChildBudget call" where
  "released b k n = (case release (Some b) k n of Panics \<Rightarrow> Panics | Returns pointer \<Rightarrow> Returns (the pointer))"

lemma profileLive_map_of: "profileLive b = (\<lambda>k. case map_of (bud_byProfile b) k of None \<Rightarrow> 0 | Some n \<Rightarrow> n)"
  by (rule ext) (simp add: profileLive_def)

lemma reserve_cases:
  "reserve (Some b) k = (False, Some b) \<or>
   (\<exists>b'. reserve (Some b) k = (True, Some b') \<and> k \<noteq> [] \<and> bud_live b < bud_globalMax b \<and> profileLive b k < bud_profileMax b \<and>
     b' = b\<lparr>bud_live := bud_live b + 1, bud_byProfile := AList.update k (profileLive b k + 1) (bud_byProfile b)\<rparr>)"
  by (auto simp: reserve_def)

lemma release_Some: "release (Some b) k n = Returns pointer \<Longrightarrow> \<exists>b'. pointer = Some b' \<and> bud_tables b' = bud_tables b"
  by (auto simp: release_def Let_def split: if_splits)

interpretation budget: counted_budget "budgetOk globalMax profileMax" profileLive bud_live reserved released
  for globalMax profileMax
proof unfold_locales
  fix b b' k
  assume ok: "budgetOk globalMax profileMax b" and "reserved b k = Some b'"
  then have room: "bud_live b < bud_globalMax b" "profileLive b k < bud_profileMax b"
    and b': "b' = b\<lparr>bud_live := bud_live b + 1, bud_byProfile := AList.update k (profileLive b k + 1) (bud_byProfile b)\<rparr>"
    using reserve_cases [of b k] by (auto simp: reserved_def)
  have used: "profileLive b' = (profileLive b)(k := profileLive b k + 1)"
    by (auto simp: b' profileLive_map_of AList.update_conv')
  show "budgetOk globalMax profileMax b' \<and> bud_live b' = bud_live b + 1 \<and> profileLive b' = (profileLive b)(k := profileLive b k + 1)"
    using ok room unfolding budgetOk_def used by (auto simp: b' distinct_update)
next
  fix b k and n :: int
  assume ok: "budgetOk globalMax profileMax b" and n: "0 \<le> n" "n \<le> profileLive b k" "n \<le> bud_live b"
  define b' where "b' = (if n = 0 then b else b\<lparr>bud_live := bud_live b - n,
    bud_byProfile := (if profileLive b k - n = 0 then AList.delete k (bud_byProfile b)
      else AList.update k (profileLive b k - n) (bud_byProfile b))\<rparr>)"
  have used: "profileLive b' = (profileLive b)(k := profileLive b k - n)"
    by (auto simp: b'_def profileLive_map_of AList.update_conv' delete_conv' fun_eq_iff)
  have "released b k n = Returns b'"
    using n by (auto simp: released_def release_def b'_def Let_def)
  moreover have "bud_live b' = bud_live b - n"
    by (simp add: b'_def)
  moreover have "profileLive b k - n \<le> profileMax"
    using ok n(1) by (simp add: budgetOk_def) (smt (verit))
  then have "budgetOk globalMax profileMax b'"
    using ok n unfolding budgetOk_def used by (auto simp: b'_def distinct_update distinct_delete)
  ultimately show "\<exists>b'. released b k n = Returns b' \<and> budgetOk globalMax profileMax b' \<and> bud_live b' = bud_live b - n \<and>
      profileLive b' = (profileLive b)(k := profileLive b k - n)"
    using used by blast
qed

section \<open>Well-formed tables\<close>

definition tableWell :: "int \<Rightarrow> deliveryChildTable \<Rightarrow> bool" where
  "tableWell clock t \<longleftrightarrow> distinct (map fst (tb_entries t)) \<and> distinct (map fst (tb_byState t)) \<and>
     (\<forall>state childID. (state, childID) \<in> set (tb_byState t) \<longleftrightarrow> (\<exists>e. (childID, e) \<in> set (tb_entries t) \<and> ce_state e = state)) \<and>
     length (tb_entries t) \<le> maximumDeliveryChildren \<and>
     (\<forall>(childID, e) \<in> set (tb_entries t). ce_activeAt e \<le> clock \<and> validDeliveryChildState (ce_state e) \<and> length childID = 32) \<and>
     (\<forall>instant. tb_activeAt t = Some instant \<longrightarrow> instant \<le> clock) \<and>
     (tb_entries t \<noteq> [] \<longrightarrow> (\<exists>instant. tb_nextExpiry t = Some instant \<and> (\<forall>(childID, e) \<in> set (tb_entries t). instant \<le> childExpiresAt t e))) \<and>
     (tb_closed t \<longrightarrow> tb_entries t = [])"

lemma tableWellD:
  assumes "tableWell clock t"
  shows "distinct (map fst (tb_entries t))" "distinct (map fst (tb_byState t))"
    "(state, childID) \<in> set (tb_byState t) \<longleftrightarrow> (\<exists>e. (childID, e) \<in> set (tb_entries t) \<and> ce_state e = state)"
    "length (tb_entries t) \<le> maximumDeliveryChildren"
    "(childID, e) \<in> set (tb_entries t) \<Longrightarrow> ce_activeAt e \<le> clock \<and> validDeliveryChildState (ce_state e) \<and> length childID = 32"
    "tb_activeAt t = Some instant \<Longrightarrow> instant \<le> clock"
    "tb_entries t \<noteq> [] \<Longrightarrow> \<exists>instant. tb_nextExpiry t = Some instant \<and> (\<forall>(childID, e) \<in> set (tb_entries t). instant \<le> childExpiresAt t e)"
    "tb_closed t \<Longrightarrow> tb_entries t = []"
  using assms by (auto simp: tableWell_def)

lemma tableWell_later: "tableWell clock t \<Longrightarrow> clock \<le> now \<Longrightarrow> tableWell now t"
  by (fastforce simp: tableWell_def)

lemma childExpiresAt_cong:
  "tb_activeAt t = tb_activeAt u \<Longrightarrow> childExpiresAt t e = childExpiresAt u e"
  by (simp add: childExpiresAt_def)

lemma childExpiresAt_min: "ce_activeAt e + deliveryChildTTL \<le> childExpiresAt t e"
  by (auto simp: childExpiresAt_def Let_def split: option.splits)

text \<open>What the loop leaves: \<open>gone\<close> are the children that have expired.\<close>

definition gone :: "int \<Rightarrow> deliveryChildTable \<Rightarrow> string \<times> deliveryChildEntry \<Rightarrow> bool" where
  "gone now t x \<longleftrightarrow> childExpiresAt t (snd x) \<le> now"

lemma expireLoop_result:
  "expireLoop now xs t n earliest =
     (t\<lparr>tb_entries := filter (\<lambda>x. fst x \<notin> fst ` set (filter (gone now t) xs)) (tb_entries t),
        tb_byState := filter (\<lambda>x. fst x \<notin> (\<lambda>y. ce_state (snd y)) ` set (filter (gone now t) xs)) (tb_byState t)\<rparr>,
      n + length (filter (gone now t) xs),
      foldl (\<lambda>a x. earlierExpiry (childExpiresAt t (snd x)) a) earliest (filter (\<lambda>x. \<not> gone now t x) xs))"
proof (induction now xs t n earliest rule: expireLoop.induct)
  case (2 now childID entry rest t n earliest)
  have "childExpiresAt (t\<lparr>tb_entries := a, tb_byState := b\<rparr>) = childExpiresAt t" for a b
    by (simp add: childExpiresAt_def fun_eq_iff)
  then have cong: "gone now (t\<lparr>tb_entries := a, tb_byState := b\<rparr>) = gone now t"
    "childExpiresAt (t\<lparr>tb_entries := a, tb_byState := b\<rparr>) = childExpiresAt t" for a b
    by (simp_all add: gone_def fun_eq_iff)
  show ?case
  proof (cases "childExpiresAt t entry \<le> now")
    case True
    then show ?thesis
      using 2(1) [OF refl True] by (auto simp: cong gone_def delete_filter filter_filter intro!: filter_cong)
  next
    case False
    then show ?thesis
      using 2(2) [OF refl False] by (simp add: gone_def)
  qed
qed simp

lemma earliest_bound:
  "(case foldl (\<lambda>a x. earlierExpiry (f x) a) earliest xs of None \<Rightarrow> earliest = None \<and> xs = []
    | Some instant \<Rightarrow> (\<forall>x \<in> set xs. instant \<le> f x) \<and> (\<forall>first \<in> set_option earliest. instant \<le> first))"
proof (induction xs arbitrary: earliest)
  case (Cons x xs)
  then show ?case
    using Cons.IH [of "earlierExpiry (f x) earliest"]
    by (auto simp: earlierExpiry_def split: option.splits if_splits)
qed (auto split: option.splits)

definition expiredTable :: "int \<Rightarrow> deliveryChildTable \<Rightarrow> deliveryChildTable" where
  "expiredTable now t = fst (expireLoop now (tb_entries t) t 0 None)"

lemma distinct_fst_unique: "distinct (map fst xs) \<Longrightarrow> (k, v) \<in> set xs \<Longrightarrow> (k, w) \<in> set xs \<Longrightarrow> v = w"
  by (metis map_of_is_SomeI option.inject)

lemma expired_entries:
  assumes "tableWell clock t"
  shows "tb_entries (expiredTable now t) = filter (\<lambda>x. \<not> gone now t x) (tb_entries t)"
proof -
  have "fst x \<in> fst ` set (filter (gone now t) (tb_entries t)) \<longleftrightarrow> gone now t x" if x: "x \<in> set (tb_entries t)" for x
  proof
    assume "fst x \<in> fst ` set (filter (gone now t) (tb_entries t))"
    then obtain y where y: "y \<in> set (tb_entries t)" "gone now t y" "fst y = fst x" by auto
    have "(fst x, snd y) \<in> set (tb_entries t)"
      using y(1) by (simp only: y(3) [symmetric] prod.collapse)
    moreover have "(fst x, snd x) \<in> set (tb_entries t)"
      using x by simp
    ultimately have "snd y = snd x"
      by (rule distinct_fst_unique [OF tableWellD(1) [OF assms]])
    with y show "gone now t x" by (simp add: gone_def)
  qed (use x in auto)
  then show ?thesis
    unfolding expiredTable_def expireLoop_result by (simp cong: filter_cong)
qed

lemma expired_byState:
  assumes well: "tableWell clock t"
  shows "(state, childID) \<in> set (tb_byState (expiredTable now t)) \<longleftrightarrow>
    (\<exists>e. (childID, e) \<in> set (tb_entries (expiredTable now t)) \<and> ce_state e = state)"
proof -
  have inverse: "(st, id) \<in> set (tb_byState t) \<longleftrightarrow> (\<exists>e. (id, e) \<in> set (tb_entries t) \<and> ce_state e = st)" for st id
    by (rule tableWellD(3) [OF well])
  have mem: "(state, childID) \<in> set (tb_byState (expiredTable now t)) \<longleftrightarrow> (state, childID) \<in> set (tb_byState t) \<and>
      (\<forall>id e. (id, e) \<in> set (tb_entries t) \<and> gone now t (id, e) \<longrightarrow> ce_state e \<noteq> state)"
    by (force simp: expiredTable_def expireLoop_result)
  have same: "id = childID" "d = e"
    if "(id, d) \<in> set (tb_entries t)" "(childID, e) \<in> set (tb_entries t)" "ce_state d = state" "ce_state e = state" for id d e
  proof -
    have "(state, id) \<in> set (tb_byState t)" "(state, childID) \<in> set (tb_byState t)"
      using that inverse by blast+
    then show "id = childID"
      using distinct_fst_unique [OF tableWellD(2) [OF well]] by blast
    then show "d = e"
      using that distinct_fst_unique [OF tableWellD(1) [OF well]] by blast
  qed
  show ?thesis
    unfolding mem inverse expired_entries [OF well] using same by fastforce
qed

lemma childExpiresAt_update:
  "childExpiresAt (t\<lparr>tb_entries := a, tb_byState := b, tb_nextExpiry := c\<rparr>) e = childExpiresAt t e"
  "childExpiresAt (t\<lparr>tb_nextExpiry := c\<rparr>) e = childExpiresAt t e"
  by (simp_all add: childExpiresAt_def)

lemma expired_fields:
  "tb_profileID (expiredTable now t) = tb_profileID t" "tb_budget (expiredTable now t) = tb_budget t"
  "tb_activeAt (expiredTable now t) = tb_activeAt t" "tb_closed (expiredTable now t) = tb_closed t"
  by (simp_all add: expiredTable_def expireLoop_result)

lemma expired_well:
  assumes well: "tableWell clock t" and time: "clock \<le> now"
    and loop: "expireLoop now (tb_entries t) t 0 None = (left, n, nextExpiry)"
  shows "tableWell now (left\<lparr>tb_nextExpiry := nextExpiry\<rparr>)"
proof -
  have left: "left = expiredTable now t"
    by (simp add: expiredTable_def loop)
  have same: "childExpiresAt (left\<lparr>tb_nextExpiry := nextExpiry\<rparr>) = childExpiresAt t"
    using childExpiresAt_cong [of "left\<lparr>tb_nextExpiry := nextExpiry\<rparr>" t] by (auto simp: left expired_fields fun_eq_iff)
  have "nextExpiry = foldl (\<lambda>a x. earlierExpiry (childExpiresAt t (snd x)) a) None (tb_entries left)"
    using loop by (simp add: expireLoop_result left expired_entries [OF well])
  then have bound: "tb_entries left \<noteq> [] \<longrightarrow>
      (\<exists>instant. nextExpiry = Some instant \<and> (\<forall>x \<in> set (tb_entries left). instant \<le> childExpiresAt t (snd x)))"
    using earliest_bound [where f = "\<lambda>x. childExpiresAt t (snd x)" and earliest = None and xs = "tb_entries left"] by (auto split: option.splits)
  have keys: "distinct (map fst (tb_byState left))" "distinct (map fst (tb_entries left))"
    using well by (auto simp: left expired_entries [OF well] tableWell_def distinct_map_filter)
      (auto simp: expiredTable_def expireLoop_result distinct_map_filter)
  have members: "\<forall>x \<in> set (tb_entries left). ce_activeAt (snd x) \<le> now \<and> validDeliveryChildState (ce_state (snd x)) \<and> length (fst x) = 32"
    using well time by (fastforce simp: left expired_entries [OF well] tableWell_def)
  have size: "length (tb_entries left) \<le> maximumDeliveryChildren" and closed: "tb_closed left \<longrightarrow> tb_entries left = []"
    and active: "\<forall>instant. tb_activeAt left = Some instant \<longrightarrow> instant \<le> now"
    using well time by (auto simp: left expired_entries [OF well] expired_fields tableWell_def intro: order_trans [OF length_filter_le])
  have inverse: "\<forall>state childID. (state, childID) \<in> set (tb_byState left) \<longleftrightarrow> (\<exists>e. (childID, e) \<in> set (tb_entries left) \<and> ce_state e = state)"
    unfolding left using expired_byState [OF well] by blast
  show ?thesis
    unfolding tableWell_def same using keys members size closed active inverse bound by (simp add: case_prod_beta)
qed

text \<open>What a table has become once its expired children are gone.\<close>

definition expiresTo :: "int \<Rightarrow> deliveryChildTable \<Rightarrow> deliveryChildTable \<Rightarrow> bool" where
  "expiresTo now t t' \<longleftrightarrow> tb_entries t' = filter (\<lambda>x. \<not> gone now t x) (tb_entries t) \<and> tableWell now t' \<and>
     tb_profileID t' = tb_profileID t \<and> tb_budget t' = tb_budget t \<and> tb_activeAt t' = tb_activeAt t \<and> tb_closed t' = tb_closed t"

lemma early_return:
  assumes "tableWell clock t" "clock \<le> now" "tb_entries t = [] \<or> (\<exists>instant \<in> set_option (tb_nextExpiry t). now < instant)"
  shows "expiresTo now t t" "filter (gone now t) (tb_entries t) = []"
proof -
  have none: "\<forall>x \<in> set (tb_entries t). \<not> gone now t x"
    using assms(1,3) by (fastforce simp: tableWell_def gone_def)
  then show "filter (gone now t) (tb_entries t) = []"
    by (simp add: filter_empty_conv)
  from none show "expiresTo now t t"
    using tableWell_later [OF assms(1,2)] by (simp add: expiresTo_def)
qed

lemma expireLocked_expires:
  assumes well: "tableWell clock t" and time: "clock \<le> now"
    and release: "released b (tb_profileID t) (int (length (filter (gone now t) (tb_entries t)))) = Returns b1"
  shows "\<exists>t' b'. expireLocked i now (t, Some b) = Returns (t', Some b') \<and> expiresTo now t t' \<and>
    (b' = b1 \<or> tb_entries t' = [] \<and> b' = b1\<lparr>bud_tables := removeAll i (bud_tables b1)\<rparr>)"
proof (cases "tb_entries t = [] \<or> (\<exists>instant \<in> set_option (tb_nextExpiry t). now < instant)")
  case True
  from early_return [OF well time this] release have "expiresTo now t t" "b1 = b"
    by (simp_all add: released_def release_def)
  with True show ?thesis by (auto simp: expireLocked_def)
next
  case False
  obtain left n nextExpiry where loop: "expireLoop now (tb_entries t) t 0 None = (left, n, nextExpiry)"
    by (metis prod_cases3)
  have left: "left = expiredTable now t" and n: "n = length (filter (gone now t) (tb_entries t))"
    using loop by (simp_all add: expiredTable_def expireLoop_result)
  have "expiresTo now t (left\<lparr>tb_nextExpiry := nextExpiry\<rparr>)"
    using expired_well [OF well time loop] by (simp add: expiresTo_def left expired_entries [OF well] expired_fields)
  moreover have "release (Some b) (tb_profileID t) (int n) = Returns (Some b1)"
    using release unfolding n [symmetric] by (auto simp: released_def release_def Let_def split: if_splits)
  ultimately show ?thesis
    using False by (simp add: expireLocked_def loop unlistTable_def)
qed

lemma childExpiresAt_max:
  "ce_activeAt e \<le> now \<Longrightarrow> (\<And>instant. tb_activeAt t = Some instant \<Longrightarrow> instant \<le> now) \<Longrightarrow> childExpiresAt t e \<le> now + deliveryChildTTL"
  by (auto simp: childExpiresAt_def Let_def split: option.splits)

lemma childExpiresAt_active:
  "tb_activeAt t' = Some now \<Longrightarrow> (\<And>instant. tb_activeAt t = Some instant \<Longrightarrow> instant \<le> now) \<Longrightarrow> childExpiresAt t e \<le> childExpiresAt t' e"
  by (fastforce simp: childExpiresAt_def Let_def split: option.splits)

lemma childExpiresAt_now: "ce_activeAt e = now \<Longrightarrow> now + deliveryChildTTL \<le> childExpiresAt t e"
  using childExpiresAt_min [of e t] by simp

lemma update_present:
  "distinct (map fst xs) \<Longrightarrow> map_of xs k = Some v \<Longrightarrow> set (AList.update k v' xs) = insert (k, v') (set xs - {(k, v)})"
  by (induction xs) (force dest: map_of_SomeD split: if_splits)+

lemma touched_entries:
  assumes "map_of (tb_entries t) childID = Some e"
  shows "touchExistingLocked childID now t =
      t\<lparr>tb_activeAt := Some now, tb_entries := AList.update childID (e\<lparr>ce_activeAt := now\<rparr>) (tb_entries t)\<rparr>"
    and "map fst (tb_entries (touchExistingLocked childID now t)) = map fst (tb_entries t)"
    and "length (tb_entries (touchExistingLocked childID now t)) = length (tb_entries t)"
  using assms update_same_key [OF assms, of "\<lambda>_. ()" "e\<lparr>ce_activeAt := now\<rparr>"]
  by (auto simp: touchExistingLocked_def dest: arg_cong [of _ _ length])

lemma touched_well:
  assumes well: "tableWell now t" and e: "map_of (tb_entries t) childID = Some e"
  shows "tableWell now (touchExistingLocked childID now t)"
proof -
  let ?e = "e\<lparr>ce_activeAt := now\<rparr>" and ?t = "touchExistingLocked childID now t"
  note fields = touched_entries(1) [OF e, of now]
  have members: "set (tb_entries ?t) = insert (childID, ?e) (set (tb_entries t) - {(childID, e)})"
    by (simp add: fields update_present [OF tableWellD(1) [OF well] e])
  have old: "(childID, e) \<in> set (tb_entries t)" by (rule map_of_SomeD [OF e])
  have later: "childExpiresAt t d \<le> childExpiresAt ?t d" for d
    by (rule childExpiresAt_active) (use tableWellD(6) [OF well] in \<open>auto simp: fields\<close>)
  have top: "childExpiresAt t e \<le> childExpiresAt ?t ?e"
    by (rule order_trans [OF childExpiresAt_max childExpiresAt_now]) (use tableWellD(5,6) [OF well] old in auto)
  obtain instant where "tb_nextExpiry t = Some instant" "\<forall>(childID, e) \<in> set (tb_entries t). instant \<le> childExpiresAt t e"
    using tableWellD(7) [OF well] old by (cases "tb_entries t") auto
  then have "tb_nextExpiry ?t = Some instant \<and> (\<forall>(childID, e) \<in> set (tb_entries ?t). instant \<le> childExpiresAt ?t e)"
    using old top unfolding members by (fastforce simp: fields intro: order_trans [OF _ later] order_trans [OF _ top])
  moreover have "(\<exists>d. (k, d) \<in> set (tb_entries ?t) \<and> ce_state d = state) \<longleftrightarrow> (\<exists>d. (k, d) \<in> set (tb_entries t) \<and> ce_state d = state)" for k state
  proof -
    have "ce_state ?e = ce_state e" by simp
    then show ?thesis
      using old unfolding members by (metis Diff_iff insertCI insertE prod.inject singletonD)
  qed
  moreover have "\<forall>x \<in> set (tb_entries ?t). ce_activeAt (snd x) \<le> now \<and> validDeliveryChildState (ce_state (snd x)) \<and> length (fst x) = 32"
    using tableWellD(5) [OF well] old unfolding members by fastforce
  moreover have "tb_closed ?t \<longrightarrow> tb_entries ?t = []"
    using tableWellD(8) [OF well] old by (auto simp: fields)
  moreover have "tb_byState ?t = tb_byState t" "tb_activeAt ?t = Some now"
    by (simp_all add: fields)
  ultimately show ?thesis
    using tableWellD(1,2,4) [OF well] tableWellD(3) [OF well] unfolding tableWell_def touched_entries(2,3) [OF e]
    by (simp add: case_prod_beta del: split_paired_All split_paired_Ex)
qed

lemma inserted_well:
  assumes well: "tableWell now t" and valid: "validDeliveryChildState state" and id: "length childID = 32"
    and fresh: "map_of (tb_entries t) childID = None" "map_of (tb_byState t) state = None"
    and room: "length (tb_entries t) < maximumDeliveryChildren" "\<not> tb_closed t"
  shows "tableWell now (insertChild childID state now t)"
    and "tb_entries (insertChild childID state now t) = tb_entries t @ [(childID, \<lparr>ce_state = state, ce_activeAt = now\<rparr>)]"
proof -
  let ?e = "\<lparr>ce_state = state, ce_activeAt = now\<rparr>" and ?t = "insertChild childID state now t"
  have keys: "childID \<notin> fst ` set (tb_entries t)" "state \<notin> fst ` set (tb_byState t)"
    using fresh by (simp_all add: map_of_eq_None_iff)
  show entries: "tb_entries ?t = tb_entries t @ [(childID, ?e)]"
    using keys by (simp add: insertChild_def Let_def update_fresh)
  have byState: "tb_byState ?t = tb_byState t @ [(state, childID)]" and active: "tb_activeAt ?t = Some now"
    and closed: "tb_closed ?t = tb_closed t"
    using keys by (simp_all add: insertChild_def Let_def update_fresh)
  have later: "childExpiresAt t d \<le> childExpiresAt ?t d" for d
    by (rule childExpiresAt_active [OF active]) (rule tableWellD(6) [OF well])
  have expiry: "tb_nextExpiry ?t = earlierExpiry (childExpiresAt ?t ?e) (tb_nextExpiry t)"
  proof -
    let ?i = "t\<lparr>tb_activeAt := Some now, tb_entries := AList.update childID ?e (tb_entries t), tb_byState := AList.update state childID (tb_byState t)\<rparr>"
    have "tb_nextExpiry ?t = earlierExpiry (childExpiresAt ?i ?e) (tb_nextExpiry t)"
      by (simp add: insertChild_def Let_def)
    moreover have "childExpiresAt ?i ?e = childExpiresAt ?t ?e"
      by (rule childExpiresAt_cong) (simp add: active)
    ultimately show ?thesis by simp
  qed
  have bound: "\<exists>instant. tb_nextExpiry ?t = Some instant \<and> (\<forall>x \<in> set (tb_entries ?t). instant \<le> childExpiresAt ?t (snd x))"
  proof (cases "tb_entries t = []")
    case True
    with expiry show ?thesis by (auto simp: entries earlierExpiry_def split: option.splits)
  next
    case False
    from tableWellD(7) [OF well this] obtain instant where
      instant: "tb_nextExpiry t = Some instant" "\<forall>x \<in> set (tb_entries t). instant \<le> childExpiresAt t (snd x)"
      by (auto simp: case_prod_beta)
    then have "\<forall>x \<in> set (tb_entries t). instant \<le> childExpiresAt ?t (snd x)"
      using later order_trans by blast
    moreover have "tb_nextExpiry ?t = earlierExpiry (childExpiresAt ?t ?e) (Some instant)"
      using instant(1) expiry by simp
    ultimately show ?thesis
      by (auto simp: entries earlierExpiry_def)
  qed
  have inverse: "(st, k) \<in> set (tb_byState ?t) \<longleftrightarrow> (\<exists>e. (k, e) \<in> set (tb_entries ?t) \<and> ce_state e = st)" for st k
    using tableWellD(3) [OF well] by (auto simp: entries byState)
  have "\<forall>x \<in> set (tb_entries ?t). ce_activeAt (snd x) \<le> now \<and> validDeliveryChildState (ce_state (snd x)) \<and> length (fst x) = 32"
    using tableWellD(5) [OF well] valid id by (fastforce simp: entries)
  moreover have "distinct (map fst (tb_entries ?t))" "distinct (map fst (tb_byState ?t))" "length (tb_entries ?t) \<le> maximumDeliveryChildren"
    using tableWellD(1,2) [OF well] keys room by (auto simp: entries byState)
  ultimately show "tableWell now ?t"
    using bound inverse room(2) unfolding tableWell_def by (simp add: closed active case_prod_beta)
qed

section \<open>Every critical section keeps the accounts\<close>

text \<open>
  A table \<open>i\<close> in its critical section: the table is well-formed, and the budget accounts for the holders
  with what the table holds now in place of what it held, and lists the table while it holds anything.
  A table that was \<open>shut\<close> stays so.
\<close>

definition memoryOk :: "int \<Rightarrow> int \<Rightarrow> bool \<Rightarrow> nat set \<Rightarrow> (string \<times> nat) list \<Rightarrow> nat \<Rightarrow> int \<Rightarrow> table_memory \<Rightarrow> bool" where
  "memoryOk globalMax profileMax shut listed holders i clock m \<longleftrightarrow>
     tableWell clock (fst m) \<and> tb_budget (fst m) \<and> (shut \<longrightarrow> tb_closed (fst m)) \<and> i < length holders \<and> tb_profileID (fst m) = fst (holders ! i) \<and>
     (case snd m of None \<Rightarrow> False
      | Some b \<Rightarrow> budgetOk globalMax profileMax b \<and>
          accounts profileLive bud_live b (holders[i := (tb_profileID (fst m), length (tb_entries (fst m)))]) \<and>
          set (bud_tables b) - {i} = listed - {i} \<and> (tb_entries (fst m) \<noteq> [] \<longrightarrow> i \<in> set (bud_tables b)))"

lemma released_tables: "released b k n = Returns b' \<Longrightarrow> bud_tables b' = bud_tables b"
  by (auto simp: released_def release_def Let_def split: if_splits)

lemma expireLocked_ok:
  assumes ok: "memoryOk g p shut listed holders i clock m" and time: "clock \<le> now"
  shows "\<exists>m'. expireLocked i now m = Returns m' \<and> memoryOk g p shut listed holders i now m' \<and> expiresTo now (fst m) (fst m')"
proof -
  obtain t b where m: "m = (t, Some b)"
    using ok by (cases m; cases "snd m") (simp_all add: memoryOk_def)
  have well: "tableWell clock t" and bound: "tb_budget t" "shut \<longrightarrow> tb_closed t" and valid: "budgetOk g p b"
    and i: "i < length holders" "tb_profileID t = fst (holders ! i)"
    and acc: "accounts profileLive bud_live b (holders[i := (tb_profileID t, length (tb_entries t))])"
    and list: "set (bud_tables b) - {i} = listed - {i}" "tb_entries t \<noteq> [] \<longrightarrow> i \<in> set (bud_tables b)"
    using ok unfolding m memoryOk_def fst_conv snd_conv option.case by blast+
  let ?gone = "length (filter (gone now t) (tb_entries t))" and ?kept = "length (filter (\<lambda>x. \<not> gone now t x) (tb_entries t))"
  have kept: "length (tb_entries t) - ?gone = ?kept"
    using sum_length_filter_compl [of "gone now t" "tb_entries t"] by simp
  obtain b1 where b1: "released b (tb_profileID t) (int ?gone) = Returns b1" "budgetOk g p b1"
      "accounts profileLive bud_live b1 (holders[i := (tb_profileID t, ?kept)])"
    using budget.accounts_give_back [OF valid acc, of i "tb_profileID t" "length (tb_entries t)" ?gone] i(1) kept by auto
  obtain t' b' where step: "expireLocked i now (t, Some b) = Returns (t', Some b')" "expiresTo now t t'"
    and b': "b' = b1 \<or> tb_entries t' = [] \<and> b' = b1\<lparr>bud_tables := removeAll i (bud_tables b1)\<rparr>"
    using expireLocked_expires [OF well time b1(1), of i] by blast
  have "bud_live b' = bud_live b1" "profileLive b' = profileLive b1" "budgetOk g p b'"
    using b' b1(2) by (auto simp: profileLive_def budgetOk_def fun_eq_iff)
  then have "accounts profileLive bud_live b' (holders[i := (tb_profileID t', length (tb_entries t'))])"
    using b1(3) step(2) by (simp add: accounts_def expiresTo_def)
  moreover have "tb_entries t' \<noteq> [] \<Longrightarrow> tb_entries t \<noteq> []"
    using step(2) by (cases "tb_entries t") (simp_all add: expiresTo_def)
  moreover have "set (bud_tables b') = set (bud_tables b) \<or> tb_entries t' = [] \<and> set (bud_tables b') = set (bud_tables b) - {i}"
    using b' released_tables [OF b1(1)] by (elim disjE conjE) simp_all
  then have "set (bud_tables b') - {i} = listed - {i}" "tb_entries t' \<noteq> [] \<longrightarrow> i \<in> set (bud_tables b')"
    using list \<open>tb_entries t' \<noteq> [] \<Longrightarrow> tb_entries t \<noteq> []\<close> by blast+
  moreover have "tableWell now t'" "tb_budget t'" "shut \<longrightarrow> tb_closed t'" "tb_profileID t' = fst (holders ! i)"
    using step(2) i bound by (simp_all add: expiresTo_def)
  ultimately have "memoryOk g p shut listed holders i now (t', Some b')"
    unfolding memoryOk_def fst_conv snd_conv option.case using i(1) \<open>budgetOk g p b'\<close> by blast
  with step show ?thesis unfolding m by (metis fst_conv)
qed

lemma memoryOk_later: "memoryOk g p shut listed holders i clock m \<Longrightarrow> clock \<le> now \<Longrightarrow> memoryOk g p shut listed holders i now m"
  using tableWell_later [of clock "fst m" now] by (simp add: memoryOk_def)

lemma memoryOkD:
  assumes "memoryOk g p shut listed holders i clock m"
  shows "tableWell clock (fst m)" "snd m \<noteq> None" "tb_budget (fst m)" "i < length holders"
  using assms by (simp_all add: memoryOk_def split: option.splits)

text \<open>A change that keeps the number of the children keeps the accounts.\<close>

lemma memoryOk_change:
  "memoryOk g p shut listed holders i now (t, pointer) \<Longrightarrow> tableWell now t' \<Longrightarrow> tb_budget t' = tb_budget t \<Longrightarrow>
     tb_closed t' = tb_closed t \<Longrightarrow> tb_profileID t' = tb_profileID t \<Longrightarrow> length (tb_entries t') = length (tb_entries t) \<Longrightarrow>
     memoryOk g p shut listed holders i now (t', pointer)"
  by (simp add: memoryOk_def split: option.splits) (metis length_0_conv)

lemma touchExisting_ok:
  assumes "memoryOk g p shut listed holders i now (t, pointer)"
  shows "memoryOk g p shut listed holders i now (touchExistingLocked childID now t, pointer)"
proof (cases "map_of (tb_entries t) childID")
  case None
  with assms show ?thesis by (simp add: touchExistingLocked_def)
next
  case (Some e)
  have "tableWell now t" using memoryOkD(1) [OF assms] by simp
  from touched_well [OF this Some] show ?thesis
    by (rule memoryOk_change [OF assms]) (simp_all add: touched_entries(3) [OF Some], simp_all add: touched_entries(1) [OF Some])
qed

lemma prune_ok:
  assumes "memoryOk g p shut listed holders i clock m" "clock \<le> now"
  shows "\<exists>m'. prune i now m = Returns m' \<and> memoryOk g p shut listed holders i now m'"
proof (cases "tb_closed (fst m)")
  case True
  then show ?thesis using memoryOk_later [OF assms] by (simp add: prune_def)
next
  case False
  then show ?thesis using expireLocked_ok [OF assms] by (simp add: prune_def) metis
qed

lemma resolveChild_cases:
  assumes ok: "memoryOk g p shut listed holders i clock m" and time: "clock \<le> now"
    and id: "childID \<noteq> []" "length childID \<le> maximumDeliveryChildIDLength"
  obtains t b where "expireLocked i now m = Returns (t, b)" "memoryOk g p shut listed holders i now (t, b)" "expiresTo now (fst m) t"
    "resolveChild childID i now m = Returns (map_option ce_state (map_of (tb_entries t) childID), touchExistingLocked childID now t, b)"
proof -
  obtain t b where tb: "expireLocked i now m = Returns (t, b)" "memoryOk g p shut listed holders i now (t, b)" "expiresTo now (fst m) t"
    using expireLocked_ok [OF ok time] by auto
  have "resolveChild childID i now m = Returns (map_option ce_state (map_of (tb_entries t) childID), touchExistingLocked childID now t, b)"
    using id tb(1) by (auto simp: resolveChild_def touchExistingLocked_def split: option.splits)
  with tb that show ?thesis by blast
qed

lemma resolveChild_ok:
  assumes "memoryOk g p shut listed holders i clock m" "clock \<le> now"
  shows "\<exists>result m'. resolveChild childID i now m = Returns (result, m') \<and> memoryOk g p shut listed holders i now m'"
proof (cases "childID = [] \<or> maximumDeliveryChildIDLength < length childID")
  case True
  then have "resolveChild childID i now m = Returns (None, m)"
    by (auto simp: resolveChild_def)
  then show ?thesis using memoryOk_later [OF assms] by blast
next
  case False
  then show ?thesis
    using resolveChild_cases [OF assms, of childID] touchExisting_ok by (metis not_less)
qed

lemma touchActivity_ok:
  assumes ok: "memoryOk g p shut listed holders i clock m" and time: "clock \<le> now"
  shows "\<exists>alive m'. touchActivity i now m = Returns (alive, m') \<and> memoryOk g p shut listed holders i now m'"
proof (cases "tb_closed (fst m)")
  case True
  then have "touchActivity i now m = Returns (False, m)"
    by (simp add: touchActivity_def)
  then show ?thesis using memoryOk_later [OF assms] by blast
next
  case False
  obtain t b where tb: "expireLocked i now m = Returns (t, b)" "memoryOk g p shut listed holders i now (t, b)"
    using expireLocked_ok [OF assms] by auto
  have well: "tableWell now t" using memoryOkD(1) [OF tb(2)] by simp
  have later: "childExpiresAt t e \<le> childExpiresAt (t\<lparr>tb_activeAt := Some now\<rparr>) e" for e
    by (rule childExpiresAt_active) (use tableWellD(6) [OF well] in auto)
  have "tableWell now (t\<lparr>tb_activeAt := Some now\<rparr>)"
    using well unfolding tableWell_def by (fastforce intro: order_trans [OF _ later])
  from memoryOk_change [OF tb(2) this] have "memoryOk g p shut listed holders i now (t\<lparr>tb_activeAt := Some now\<rparr>, b)"
    by simp
  moreover have "touchActivity i now m = Returns (True, t\<lparr>tb_activeAt := Some now\<rparr>, b)"
    using False tb(1) by (simp add: touchActivity_def)
  ultimately show ?thesis by blast
qed

lemma clearTable_ok:
  assumes ok: "memoryOk g p shut listed holders i clock m"
  shows "\<exists>m'. clearTable m = Returns m' \<and> memoryOk g p True listed holders i clock m'"
proof -
  obtain t b where m: "m = (t, Some b)"
    using ok by (cases m; cases "snd m") (simp_all add: memoryOk_def)
  have valid: "budgetOk g p b" and i: "i < length holders" "tb_profileID t = fst (holders ! i)" "tb_budget t"
    and acc: "accounts profileLive bud_live b (holders[i := (tb_profileID t, length (tb_entries t))])"
    and list: "set (bud_tables b) - {i} = listed - {i}"
    using ok unfolding m memoryOk_def fst_conv snd_conv option.case by blast+
  let ?t = "t\<lparr>tb_entries := [], tb_byState := [], tb_activeAt := None, tb_nextExpiry := None, tb_closed := True\<rparr>"
  obtain b' where b': "released b (tb_profileID t) (int (length (tb_entries t))) = Returns b'" "budgetOk g p b'"
      "accounts profileLive bud_live b' (holders[i := (tb_profileID t, 0)])"
    using budget.accounts_give_back [OF valid acc, of i "tb_profileID t" "length (tb_entries t)" "length (tb_entries t)"] i(1) by auto
  have "release (Some b) (tb_profileID t) (int (length (tb_entries t))) = Returns (Some b')"
    using b'(1) by (auto simp: released_def release_def Let_def split: if_splits)
  then have "clearTable m = Returns (?t, Some b')"
    by (simp add: clearTable_def clearLocked_def m)
  moreover have "tableWell clock ?t"
    by (simp add: tableWell_def maximumDeliveryChildren_def)
  then have "memoryOk g p True listed holders i clock (?t, Some b')"
    using b'(2,3) i list released_tables [OF b'(1)] by (simp add: memoryOk_def)
  ultimately show ?thesis by blast
qed

text \<open>What a reply of \<open>register\<close> means: the table has the child, just touched.\<close>

definition holds :: "string \<Rightarrow> deliveryChildState \<Rightarrow> int \<Rightarrow> deliveryChildTable \<Rightarrow> bool" where
  "holds childID state since t \<longleftrightarrow>
     (case map_of (tb_entries t) childID of None \<Rightarrow> False | Some e \<Rightarrow> ce_state e = state \<and> since \<le> ce_activeAt e)"

definition replyOk :: "deliveryChildState \<Rightarrow> int \<Rightarrow> register_outcome \<Rightarrow> deliveryChildTable \<Rightarrow> bool" where
  "replyOk state now outcome t \<longleftrightarrow> (case outcome of Replies (Inr childID) \<Rightarrow> holds childID state now t | _ \<Rightarrow> True)"

lemma map_of_touched:
  "map_of (tb_entries t) childID = Some e \<Longrightarrow>
     map_of (tb_entries (touchExistingLocked childID now t)) k =
       (if k = childID then Some (e\<lparr>ce_activeAt := now\<rparr>) else map_of (tb_entries t) k)"
  by (simp add: touched_entries(1) AList.update_conv')

lemma existing_child:
  assumes well: "tableWell now t" and "map_of (tb_byState t) state = Some childID"
  shows "\<exists>e. map_of (tb_entries t) childID = Some e \<and> ce_state e = state"
  using map_of_SomeD [OF assms(2)] tableWellD(3) [OF well] map_of_is_SomeI [OF tableWellD(1) [OF well]] by blast

lemma registerExisting_ok:
  assumes ok: "memoryOk g p shut listed holders i clock m" and time: "clock \<le> now"
  obtains outcome t b where "registerExisting state i now m = Returns (outcome, t, b)"
    "memoryOk g p shut listed holders i now (t, b)" "replyOk state now outcome t"
    "outcome = GoesOn \<Longrightarrow> \<not> tb_closed t \<and> map_of (tb_byState t) state = None"
proof (cases "tb_closed (fst m)")
  case True
  have "registerExisting state i now m = Returns (Replies (Inl DeliverySessionNotFound), fst m, snd m)"
    using True by (simp add: registerExisting_def)
  moreover have "memoryOk g p shut listed holders i now (fst m, snd m)"
    using memoryOk_later [OF ok time] by simp
  ultimately show ?thesis by (rule that) (simp_all add: replyOk_def)
next
  case False
  obtain t b where tb: "expireLocked i now m = Returns (t, b)" "memoryOk g p shut listed holders i now (t, b)" "expiresTo now (fst m) t"
    using expireLocked_ok [OF ok time] by auto
  have well: "tableWell now t" and alive: "\<not> tb_closed t"
    using tb(3) False by (simp_all add: expiresTo_def)
  show ?thesis
  proof (cases "map_of (tb_byState t) state")
    case None
    have "registerExisting state i now m = Returns (GoesOn, t, b)"
      using False tb(1) None by (simp add: registerExisting_def)
    then show ?thesis
      by (rule that) (use tb alive None in \<open>simp_all add: replyOk_def\<close>)
  next
    case (Some childID)
    obtain e where e: "map_of (tb_entries t) childID = Some e" "ce_state e = state"
      using existing_child [OF well Some] by blast
    have "registerExisting state i now m = Returns (Replies (Inr childID), touchExistingLocked childID now t, b)"
      using False tb(1) Some by (simp add: registerExisting_def)
    then show ?thesis
      by (rule that) (use touchExisting_ok [OF tb(2)] e in \<open>simp_all add: replyOk_def holds_def map_of_touched\<close>)
  qed
qed

lemma registerFirst_ok:
  assumes ok: "memoryOk g p shut listed holders i clock m" and time: "clock \<le> now"
  obtains outcome t b where "registerFirst state i now m = Returns (outcome, t, b)"
    "memoryOk g p shut listed holders i now (t, b)" "replyOk state now outcome t"
    "outcome = GoesOn \<Longrightarrow> validDeliveryChildState state"
proof (cases "validDeliveryChildState state")
  case True
  show ?thesis
    by (rule registerExisting_ok [OF ok time, of state]) (rule that, use True in \<open>simp_all add: registerFirst_def\<close>)
next
  case False
  have "registerFirst state i now m = Returns (Replies (Inl DeliverySessionNotFound), fst m, snd m)"
    using False by (simp add: registerFirst_def)
  moreover have "memoryOk g p shut listed holders i now (fst m, snd m)"
    using memoryOk_later [OF ok time] by simp
  ultimately show ?thesis by (rule that) (simp_all add: replyOk_def)
qed

lemma insert_ok:
  assumes ok: "memoryOk g p shut listed holders i now (t, Some b)" and b': "reserved b (tb_profileID t) = Some b'"
    and alive: "\<not> tb_closed t" and child: "tableWell now (insertChild childID state now t)"
      "tb_entries (insertChild childID state now t) = tb_entries t @ [(childID, e)]"
  shows "memoryOk g p shut listed holders i now (insertChild childID state now t, listTable i (Some b'))"
proof -
  have well: "tb_budget t" and shut: "\<not> shut" and valid: "budgetOk g p b" and i: "i < length holders" "tb_profileID t = fst (holders ! i)"
    and acc: "accounts profileLive bud_live b (holders[i := (tb_profileID t, length (tb_entries t))])"
    and list: "set (bud_tables b) - {i} = listed - {i}"
    using ok alive unfolding memoryOk_def fst_conv snd_conv option.case by blast+
  have fields: "tb_budget (insertChild childID state now t) = tb_budget t" "tb_profileID (insertChild childID state now t) = tb_profileID t"
    by (simp_all add: insertChild_def Let_def)
  have tables: "bud_tables b' = bud_tables b"
    using b' by (auto simp: reserved_def reserve_def split: if_splits)
  let ?b = "b'\<lparr>bud_tables := List.insert i (bud_tables b')\<rparr>"
  have counts: "budgetOk g p b' \<and> accounts profileLive bud_live b' (holders[i := (tb_profileID t, Suc (length (tb_entries t)))])"
    using budget.accounts_take [OF valid acc, of i "tb_profileID t" "length (tb_entries t)" b'] i(1) b' by simp
  have same: "profileLive ?b = profileLive b'"
    by (simp add: profileLive_def fun_eq_iff)
  have "budgetOk g p ?b" "accounts profileLive bud_live ?b (holders[i := (tb_profileID t, Suc (length (tb_entries t)))])"
    by (use conjunct1 [OF counts] in \<open>simp add: budgetOk_def same\<close>, use conjunct2 [OF counts] in \<open>simp add: accounts_def same\<close>)
  moreover have "set (bud_tables ?b) - {i} = listed - {i}" "i \<in> set (bud_tables ?b)"
    using list by (auto simp: tables)
  ultimately show ?thesis
    using child well shut i unfolding memoryOk_def listTable_def by (simp add: fields)
qed

lemma registerAttempt_ok:
  assumes ok: "memoryOk g p shut listed holders i clock m" and time: "clock \<le> now"
    and valid: "validDeliveryChildState state" and random: "length random = 24"
  obtains outcome t b where "registerAttempt state random i now m = Returns (outcome, t, b)"
    "memoryOk g p shut listed holders i now (t, b)" "replyOk state now outcome t"
proof -
  let ?id = "EncodeToString random"
  obtain outcome t pointer where step: "registerExisting state i now m = Returns (outcome, t, pointer)"
      "memoryOk g p shut listed holders i now (t, pointer)" "replyOk state now outcome t"
    and goes: "outcome = GoesOn \<Longrightarrow> \<not> tb_closed t \<and> map_of (tb_byState t) state = None"
    by (rule registerExisting_ok [OF ok time, of state]) blast
  show ?thesis
  proof (cases outcome)
    case (Replies reply)
    with step show ?thesis
      by (intro that [of outcome t pointer]) (simp_all add: registerAttempt_def Let_def)
  next
    case GoesOn
    obtain b where b: "pointer = Some b"
      using memoryOkD(2) [OF step(2)] by auto
    have well: "tableWell now t" using memoryOkD(1) [OF step(2)] by simp
    consider (full) "maximumDeliveryChildren \<le> length (tb_entries t)"
      | (taken) "length (tb_entries t) < maximumDeliveryChildren" "map_of (tb_entries t) ?id \<noteq> None"
      | (free) "length (tb_entries t) < maximumDeliveryChildren" "map_of (tb_entries t) ?id = None"
      by linarith
    then show ?thesis
    proof cases
      case full
      with step GoesOn show ?thesis
        by (intro that [of "Replies (Inl ChildCapacity)" t pointer]) (simp_all add: registerAttempt_def Let_def replyOk_def)
    next
      case taken
      with step GoesOn show ?thesis
        by (intro that [of GoesOn t pointer]) (simp_all add: registerAttempt_def Let_def replyOk_def)
    next
      case free
      have goes: "map_of (tb_byState t) state = None" "\<not> tb_closed t"
        using goes GoesOn by simp_all
      have id: "length ?id = 32" using random by (simp add: length_EncodeToString)
      note child = inserted_well [OF well valid id free(2) goes(1) free(1) goes(2)]
      show ?thesis
      proof (cases "reserved b (tb_profileID t)")
        case None
        then have "reserve pointer (tb_profileID t) = (False, pointer)"
          using reserve_cases [of b "tb_profileID t"] by (auto simp: reserved_def b)
        with free step GoesOn show ?thesis
          by (intro that [of "Replies (Inl ChildCapacity)" t pointer]) (simp_all add: registerAttempt_def Let_def replyOk_def)
      next
        case (Some b')
        then have "reserve pointer (tb_profileID t) = (True, Some b')"
          using reserve_cases [of b "tb_profileID t"] by (auto simp: reserved_def b)
        moreover have "holds ?id state now (insertChild ?id state now t)"
          using free(2) by (simp add: holds_def child(2) map_add_def)
        ultimately show ?thesis
          using free step GoesOn insert_ok [OF step(2) [unfolded b] Some goes(2) child]
          by (intro that [of "Replies (Inr ?id)" "insertChild ?id state now t" "listTable i (Some b')"])
            (simp_all add: registerAttempt_def Let_def replyOk_def)
      qed
    qed
  qed
qed

section \<open>Every reachable state keeps the accounts\<close>

definition holdersOf :: "deliveryChildTable list \<Rightarrow> (string \<times> nat) list" where
  "holdersOf tables = map (\<lambda>t. (tb_profileID t, length (tb_entries t))) tables"

definition deliveryOk :: "int \<Rightarrow> int \<Rightarrow> deliverySystem \<Rightarrow> bool" where
  "deliveryOk globalMax profileMax s \<longleftrightarrow> budgetOk globalMax profileMax (ds_budget s) \<and>
     (\<forall>i < length (ds_tables s). tableWell (ds_clock s) (ds_tables s ! i) \<and> tb_budget (ds_tables s ! i) \<and>
        (tb_entries (ds_tables s ! i) \<noteq> [] \<longrightarrow> i \<in> set (bud_tables (ds_budget s)))) \<and>
     accounts profileLive bud_live (ds_budget s) (holdersOf (ds_tables s)) \<and>
     (\<forall>i \<in> set (ds_closing s). i < length (ds_tables s) \<and> tb_closed (ds_tables s ! i)) \<and>
     (\<forall>c \<in> set (ds_calls s). rc_table c < length (ds_tables s) \<and> (rc_reply c = None \<longrightarrow> validDeliveryChildState (rc_state c)))"

text \<open>A critical section of table \<open>i\<close> starts from the state and ends in a state.\<close>

definition sectionOk :: "int \<Rightarrow> int \<Rightarrow> deliverySystem \<Rightarrow> nat \<Rightarrow> int \<Rightarrow> table_memory \<Rightarrow> bool" where
  "sectionOk globalMax profileMax s i now m \<longleftrightarrow>
     memoryOk globalMax profileMax (tb_closed (ds_tables s ! i)) (set (bud_tables (ds_budget s))) (holdersOf (ds_tables s)) i now m"

lemma section_starts:
  assumes "deliveryOk g p s" "i < length (ds_tables s)"
  shows "sectionOk g p s i (ds_clock s) (memoryOf i s)"
proof -
  have "(holdersOf (ds_tables s))[i := (tb_profileID (ds_tables s ! i), length (tb_entries (ds_tables s ! i)))] = holdersOf (ds_tables s)"
    using assms(2) list_update_id [of "holdersOf (ds_tables s)" i] by (simp add: holdersOf_def)
  with assms show ?thesis
    by (simp add: sectionOk_def memoryOk_def memoryOf_def deliveryOk_def holdersOf_def)
qed

lemma section_ends:
  assumes ok: "deliveryOk g p s" and m: "sectionOk g p s i now m" and time: "ds_clock s \<le> now"
  shows "deliveryOk g p (writeBack i now m s)" "length (ds_tables (writeBack i now m s)) = length (ds_tables s)"
    "ds_calls (writeBack i now m s) = ds_calls s" "ds_closing (writeBack i now m s) = ds_closing s"
proof -
  show "length (ds_tables (writeBack i now m s)) = length (ds_tables s)"
    "ds_calls (writeBack i now m s) = ds_calls s" "ds_closing (writeBack i now m s) = ds_closing s"
    by (simp_all add: writeBack_def)
  obtain t b where tb: "m = (t, Some b)"
    using m by (cases m; cases "snd m") (simp_all add: sectionOk_def memoryOk_def)
  have mem: "tableWell now t" "tb_budget t" "tb_closed (ds_tables s ! i) \<longrightarrow> tb_closed t" "budgetOk g p b" "i < length (ds_tables s)"
      "accounts profileLive bud_live b ((holdersOf (ds_tables s))[i := (tb_profileID t, length (tb_entries t))])"
      "set (bud_tables b) - {i} = set (bud_tables (ds_budget s)) - {i}" "tb_entries t \<noteq> [] \<longrightarrow> i \<in> set (bud_tables b)"
    using m unfolding tb sectionOk_def memoryOk_def fst_conv snd_conv option.case holdersOf_def length_map by blast+
  have state: "ds_tables (writeBack i now m s) = (ds_tables s)[i := t]" "ds_budget (writeBack i now m s) = b" "ds_clock (writeBack i now m s) = now"
    by (simp_all add: writeBack_def tb)
  have "(holdersOf (ds_tables s))[i := (tb_profileID t, length (tb_entries t))] = holdersOf ((ds_tables s)[i := t])"
    by (simp add: holdersOf_def map_update)
  moreover have "tableWell now ((ds_tables s)[i := t] ! j) \<and> tb_budget ((ds_tables s)[i := t] ! j) \<and>
      (tb_entries ((ds_tables s)[i := t] ! j) \<noteq> [] \<longrightarrow> j \<in> set (bud_tables b))" if "j < length (ds_tables s)" for j
  proof (cases "j = i")
    case False
    have "tableWell (ds_clock s) (ds_tables s ! j)" "tb_budget (ds_tables s ! j)"
      "tb_entries (ds_tables s ! j) \<noteq> [] \<longrightarrow> j \<in> set (bud_tables (ds_budget s))"
      using ok that unfolding deliveryOk_def by blast+
    with False show ?thesis
      using tableWell_later [OF _ time] mem(7) by auto
  qed (use mem that in simp)
  moreover have "j < length (ds_tables s) \<and> tb_closed ((ds_tables s)[i := t] ! j)" if "j \<in> set (ds_closing s)" for j
    using ok that mem(3,5) by (cases "j = i") (auto simp: deliveryOk_def)
  ultimately show "deliveryOk g p (writeBack i now m s)"
    using ok mem(4,6) unfolding deliveryOk_def state by (simp add: writeBack_def)
qed

lemma calls_ok:
  "deliveryOk g p s \<Longrightarrow> (\<And>c. c \<in> set cs \<Longrightarrow> rc_table c < length (ds_tables s) \<and> (rc_reply c = None \<longrightarrow> validDeliveryChildState (rc_state c))) \<Longrightarrow>
     deliveryOk g p (s\<lparr>ds_calls := cs\<rparr>)"
  by (simp add: deliveryOk_def)

text \<open>No critical section panics in a well-formed state, and each ends in one.\<close>

lemma sections:
  assumes ok: "deliveryOk g p s" and i: "i < length (ds_tables s)" and time: "ds_clock s \<le> now"
  shows "\<exists>outcome m. registerFirst state i now (memoryOf i s) = Returns (outcome, m) \<and> sectionOk g p s i now m \<and>
      replyOk state now outcome (fst m) \<and> (outcome = GoesOn \<longrightarrow> validDeliveryChildState state)"
    "validDeliveryChildState state \<Longrightarrow> length random = 24 \<Longrightarrow>
      \<exists>outcome m. registerAttempt state random i now (memoryOf i s) = Returns (outcome, m) \<and> sectionOk g p s i now m \<and>
        replyOk state now outcome (fst m)"
    "\<exists>result m. resolveChild childID i now (memoryOf i s) = Returns (result, m) \<and> sectionOk g p s i now m"
    "\<exists>alive m. touchActivity i now (memoryOf i s) = Returns (alive, m) \<and> sectionOk g p s i now m"
    "\<exists>m. prune i now (memoryOf i s) = Returns m \<and> sectionOk g p s i now m"
    "\<exists>m. clearTable (memoryOf i s) = Returns m \<and> sectionOk g p s i (ds_clock s) m \<and> tb_closed (fst m)"
proof -
  note start = section_starts [OF ok i, unfolded sectionOk_def]
  show "\<exists>outcome m. registerFirst state i now (memoryOf i s) = Returns (outcome, m) \<and> sectionOk g p s i now m \<and>
      replyOk state now outcome (fst m) \<and> (outcome = GoesOn \<longrightarrow> validDeliveryChildState state)"
    by (rule registerFirst_ok [OF start time, of state]) (unfold sectionOk_def, metis fst_conv)
  show "\<exists>outcome m. registerAttempt state random i now (memoryOf i s) = Returns (outcome, m) \<and> sectionOk g p s i now m \<and>
        replyOk state now outcome (fst m)" if "validDeliveryChildState state" "length random = 24"
    by (rule registerAttempt_ok [OF start time that]) (unfold sectionOk_def, metis fst_conv)
  show "\<exists>result m. resolveChild childID i now (memoryOf i s) = Returns (result, m) \<and> sectionOk g p s i now m"
    using resolveChild_ok [OF start time] by (simp add: sectionOk_def)
  show "\<exists>alive m. touchActivity i now (memoryOf i s) = Returns (alive, m) \<and> sectionOk g p s i now m"
    using touchActivity_ok [OF start time] by (simp add: sectionOk_def)
  show "\<exists>m. prune i now (memoryOf i s) = Returns m \<and> sectionOk g p s i now m"
    using prune_ok [OF start time] by (simp add: sectionOk_def)
  obtain m where m: "clearTable (memoryOf i s) = Returns m" "memoryOk g p True (set (bud_tables (ds_budget s))) (holdersOf (ds_tables s)) i (ds_clock s) m"
    using clearTable_ok [OF start] by metis
  then have "tb_closed (fst m)" "sectionOk g p s i (ds_clock s) m"
    by (simp_all add: sectionOk_def memoryOk_def split: option.splits)
  with m(1) show "\<exists>m. clearTable (memoryOf i s) = Returns m \<and> sectionOk g p s i (ds_clock s) m \<and> tb_closed (fst m)"
    by blast
qed

lemma opened_ok:
  assumes ok: "deliveryOk g p s" and table: "bindBudget profileID newDeliveryChildTable = Returns table"
  shows "deliveryOk g p (s\<lparr>ds_tables := ds_tables s @ [table]\<rparr>)"
proof -
  have t: "tb_entries table = []" "tb_profileID table = profileID" "tb_budget table" "tableWell (ds_clock s) table"
    using table by (auto simp: bindBudget_def newDeliveryChildTable_def tableWell_def)
  have "holdersOf (ds_tables s @ [table]) = holdersOf (ds_tables s) @ [(profileID, 0)]"
    by (simp add: holdersOf_def t)
  then have "accounts profileLive bud_live (ds_budget s) (holdersOf (ds_tables s @ [table]))"
    using ok by (simp add: deliveryOk_def accounts_def held_append)
  moreover have "tableWell (ds_clock s) ((ds_tables s @ [table]) ! i) \<and> tb_budget ((ds_tables s @ [table]) ! i) \<and>
      (tb_entries ((ds_tables s @ [table]) ! i) \<noteq> [] \<longrightarrow> i \<in> set (bud_tables (ds_budget s)))" if "i < Suc (length (ds_tables s))" for i
    using that ok t by (cases "i = length (ds_tables s)") (simp_all add: deliveryOk_def nth_append less_Suc_eq)
  moreover have "i < Suc (length (ds_tables s)) \<and> tb_closed ((ds_tables s @ [table]) ! i)" if "i \<in> set (ds_closing s)" for i
    using that ok by (auto simp: deliveryOk_def nth_append)
  moreover have "rc_table c < Suc (length (ds_tables s)) \<and> (rc_reply c = None \<longrightarrow> validDeliveryChildState (rc_state c))"
    if "c \<in> set (ds_calls s)" for c
    using that ok by (auto simp: deliveryOk_def)
  ultimately show ?thesis
    using ok unfolding deliveryOk_def by simp
qed

lemma unlisted_ok:
  assumes ok: "deliveryOk g p s" and k: "k < length (ds_closing s)"
  shows "deliveryOk g p (s\<lparr>ds_closing := take k (ds_closing s) @ drop (Suc k) (ds_closing s),
      ds_budget := the (unlistTable (ds_closing s ! k) (Some (ds_budget s)))\<rparr>)"
proof -
  let ?i = "ds_closing s ! k" and ?b = "ds_budget s\<lparr>bud_tables := removeAll (ds_closing s ! k) (bud_tables (ds_budget s))\<rparr>"
  have "?i < length (ds_tables s)" "tb_closed (ds_tables s ! ?i)"
    using ok nth_mem [OF k] by (simp_all add: deliveryOk_def)
  then have "tb_entries (ds_tables s ! ?i) = []"
    using ok by (auto simp: deliveryOk_def intro: tableWellD(8))
  then have "tb_entries (ds_tables s ! i) \<noteq> [] \<longrightarrow> i \<in> set (bud_tables ?b)" if "i < length (ds_tables s)" for i
    using ok that by (auto simp: deliveryOk_def)
  moreover have same: "profileLive ?b = profileLive (ds_budget s)"
    by (simp add: profileLive_def fun_eq_iff)
  have "budgetOk g p (ds_budget s)" "accounts profileLive bud_live (ds_budget s) (holdersOf (ds_tables s))"
    using ok unfolding deliveryOk_def by blast+
  then have "budgetOk g p ?b" "accounts profileLive bud_live ?b (holdersOf (ds_tables s))"
    by (simp_all add: budgetOk_def accounts_def same)
  moreover have "set (take k (ds_closing s) @ drop (Suc k) (ds_closing s)) \<subseteq> set (ds_closing s)"
    using set_take_subset set_drop_subset by fastforce
  ultimately show ?thesis
    using ok unfolding deliveryOk_def by (auto simp: unlistTable_def)
qed

lemma start_deliveries_ok: "0 \<le> g \<Longrightarrow> 0 \<le> p \<Longrightarrow> deliveryOk g p (startDeliveries g p)"
  by (simp add: deliveryOk_def startDeliveries_def newDeliveryChildBudget_def budgetOk_def accounts_def profileLive_def heldBy_def
      heldAll_def holdersOf_def)

lemma call_at:
  assumes "deliveryOk g p s" "k < length (ds_calls s)" "c = ds_calls s ! k"
  shows "rc_table c < length (ds_tables s)" "rc_reply c = None \<Longrightarrow> validDeliveryChildState (rc_state c)"
  using assms nth_mem [OF assms(2)] by (auto simp: deliveryOk_def)

lemma call_mem: "deliveryOk g p s \<Longrightarrow> c \<in> set (ds_calls s) \<Longrightarrow>
    rc_table c < length (ds_tables s) \<and> (rc_reply c = None \<longrightarrow> validDeliveryChildState (rc_state c))"
  by (simp add: deliveryOk_def)

lemma replaced_call:
  assumes "deliveryOk g p s" "rc_table c < length (ds_tables s)" "rc_reply c = None \<Longrightarrow> validDeliveryChildState (rc_state c)"
  shows "deliveryOk g p (s\<lparr>ds_calls := (ds_calls s)[k := c]\<rparr>)" "deliveryOk g p (s\<lparr>ds_calls := ds_calls s @ [c]\<rparr>)"
  by (rule calls_ok [OF assms(1)], drule set_mp [OF set_update_subset_insert], use assms call_mem [OF assms(1)] in blast)
    (rule calls_ok [OF assms(1)], use assms call_mem [OF assms(1)] in fastforce)

lemma delivery_step_ok: "delivery_step s t \<Longrightarrow> deliveryOk g p s \<Longrightarrow> deliveryOk g p t"
proof (induction rule: delivery_step.induct)
  case (openHandle profileID table s)
  from opened_ok [OF openHandle(2,1)] show ?case .
next
  case (begins i s now state outcome m)
  then have m: "sectionOk g p s i now m" "outcome = GoesOn \<longrightarrow> validDeliveryChildState state"
    using sections(1) [OF begins(4,1,2), of state] by auto
  note ends = section_ends [OF begins(4) m(1) begins(2)]
  show ?case
    unfolding ends(3) [symmetric]
    by (rule replaced_call(2) [OF ends(1)]) (use begins(1) m(2) ends(2) in \<open>auto elim: replyOf.elims\<close>)
next
  case (attempts k s c now random outcome m)
  note call = call_at [OF attempts(8,1,2)]
  have m: "sectionOk g p s (rc_table c) now m"
    using sections(2) [OF attempts(8) call(1) attempts(5) call(2) [OF attempts(3)] attempts(6)] attempts(7) by auto
  note ends = section_ends [OF attempts(8) m attempts(5)]
  show ?case
    unfolding ends(3) [symmetric]
    by (rule replaced_call(1) [OF ends(1)]) (use call attempts(3) ends(2) in simp_all)
next
  case (randomFails k s c)
  from call_at [OF randomFails(5,1,2)] show ?case
    by (intro replaced_call(1) [OF randomFails(5)]) simp_all
next
  case (exhausts k s c)
  from call_at [OF exhausts(5,1,2)] show ?case
    by (intro replaced_call(1) [OF exhausts(5)]) simp_all
next
  case (resolves i s now childID result m)
  then have "sectionOk g p s i now m"
    using sections(3) [OF resolves(4,1,2), of childID] by auto
  from section_ends(1) [OF resolves(4) this resolves(2)] show ?case .
next
  case (touches i s now alive m)
  then have "sectionOk g p s i now m"
    using sections(4) [OF touches(4,1,2)] by auto
  from section_ends(1) [OF touches(4) this touches(2)] show ?case .
next
  case (prunes i s now m)
  then have "sectionOk g p s i now m"
    using sections(5) [OF prunes(4,1,2)] by auto
  from section_ends(1) [OF prunes(4) this prunes(2)] show ?case .
next
  case (clears i s m)
  then have m: "sectionOk g p s i (ds_clock s) m" "tb_closed (fst m)"
    using sections(6) [OF clears(3,1)] by auto
  note ends = section_ends [OF clears(3) m(1) order_refl]
  have "tb_closed (ds_tables (writeBack i (ds_clock s) m s) ! i)"
    using m(2) clears(1) by (simp add: writeBack_def)
  with ends clears(1) show ?case
    unfolding ends(4) [symmetric] by (auto simp: deliveryOk_def)
next
  case (unlists k s)
  from unlisted_ok [OF unlists(2,1)] show ?case .
qed

interpretation deliveries: transition_system "\<lambda>s. s = startDeliveries g p \<and> 0 \<le> g \<and> 0 \<le> p" delivery_step "deliveryOk g p" for g p
  by unfold_locales (auto simp: start_deliveries_ok delivery_step_ok)

section \<open>How long a child lives\<close>

definition keepsChildren :: "int \<Rightarrow> deliveryChildTable \<Rightarrow> deliveryChildTable \<Rightarrow> bool" where
  "keepsChildren now t t' \<longleftrightarrow>
     (\<forall>childID state since. holds childID state since t \<longrightarrow> now < since + deliveryChildTTL \<longrightarrow> since \<le> now \<longrightarrow> holds childID state since t')"

lemma keeps_refl: "keepsChildren now t t"
  by (simp add: keepsChildren_def)

lemma keeps_trans: "keepsChildren now t u \<Longrightarrow> keepsChildren now u v \<Longrightarrow> keepsChildren now t v"
  by (simp add: keepsChildren_def)

lemma lookup_filter:
  "distinct (map fst entries) \<Longrightarrow>
    map_of (filter keep entries) k = Option.bind (map_of entries k) (\<lambda>e. if keep (k, e) then Some e else None)"
  by (induction entries) (auto simp: rev_image_eqI split: Option.bind_splits dest: map_of_SomeD)

lemma expiresTo_map_of:
  assumes "tableWell clock t" "expiresTo now t t'"
  shows "map_of (tb_entries t') childID =
    (case map_of (tb_entries t) childID of None \<Rightarrow> None | Some e \<Rightarrow> if now < childExpiresAt t e then Some e else None)"
  using assms(2) lookup_filter [OF tableWellD(1) [OF assms(1)], of "\<lambda>x. \<not> gone now t x" childID]
  by (auto simp: expiresTo_def gone_def not_le split: option.splits)

lemma keeps_expired:
  assumes "tableWell clock t" "expiresTo now t t'"
  shows "keepsChildren now t t'"
  unfolding keepsChildren_def
proof (intro allI impI)
  fix childID state since
  assume "holds childID state since t" and time: "now < since + deliveryChildTTL"
  then obtain e where e: "map_of (tb_entries t) childID = Some e" "ce_state e = state" "since \<le> ce_activeAt e"
    by (auto simp: holds_def split: option.splits)
  have "now < childExpiresAt t e"
    using childExpiresAt_min [of e t] time e(3) by linarith
  with e show "holds childID state since t'"
    by (simp add: holds_def expiresTo_map_of [OF assms])
qed

lemma keeps_touched: "keepsChildren now t (touchExistingLocked childID now t)"
proof (cases "map_of (tb_entries t) childID")
  case None
  then show ?thesis by (simp add: touchExistingLocked_def keeps_refl)
next
  case (Some e)
  then show ?thesis
    by (auto simp: keepsChildren_def holds_def map_of_touched [OF Some] split: option.splits)
qed

lemma keeps_active: "keepsChildren now t (t\<lparr>tb_activeAt := Some now\<rparr>)"
  by (simp add: keepsChildren_def holds_def)

lemma keeps_inserted: "map_of (tb_entries t) childID = None \<Longrightarrow> keepsChildren now t (insertChild childID state now t)"
  by (auto simp: keepsChildren_def holds_def insertChild_def Let_def AList.update_conv' split: option.splits)

text \<open>Every critical section but that of \<open>clear\<close> keeps the children that may not expire yet.\<close>

lemma expireLocked_keeps:
  assumes "memoryOk g p shut listed holders i clock m" "clock \<le> now" "expireLocked i now m = Returns m'"
  shows "keepsChildren now (fst m) (fst m')"
  using expireLocked_ok [OF assms(1,2)] assms(3) keeps_expired [OF memoryOkD(1) [OF assms(1)]] by auto

lemma registerExisting_keeps:
  assumes ok: "memoryOk g p shut listed holders i clock m" "clock \<le> now" and result: "registerExisting state i now m = Returns (outcome, m')"
  shows "keepsChildren now (fst m) (fst m')"
proof (cases "tb_closed (fst m)")
  case True
  with result show ?thesis by (simp add: registerExisting_def keeps_refl)
next
  case False
  obtain t b where "expireLocked i now m = Returns (t, b)"
    using expireLocked_ok [OF ok] by auto
  with False result expireLocked_keeps [OF ok this] keeps_trans [OF _ keeps_touched] show ?thesis
    by (auto simp: registerExisting_def split: option.splits)
qed

lemma registerAttempt_keeps:
  assumes ok: "memoryOk g p shut listed holders i clock m" "clock \<le> now"
    and result: "registerAttempt state random i now m = Returns (outcome, m')"
  shows "keepsChildren now (fst m) (fst m')"
proof -
  obtain first t b where first: "registerExisting state i now m = Returns (first, t, b)"
    using registerExisting_ok [OF ok, of state] by metis
  have "fst m' = t \<or> map_of (tb_entries t) (EncodeToString random) = None \<and> fst m' = insertChild (EncodeToString random) state now t"
    using result first by (auto simp: registerAttempt_def Let_def split: register_outcome.splits if_splits prod.splits bool.splits)
  with registerExisting_keeps [OF ok first] keeps_trans [OF _ keeps_inserted] show ?thesis
    by auto
qed

lemma sections_keep:
  assumes ok: "deliveryOk g p s" and i: "i < length (ds_tables s)" and time: "ds_clock s \<le> now"
  shows "registerFirst state i now (memoryOf i s) = Returns (outcome, m) \<Longrightarrow> keepsChildren now (ds_tables s ! i) (fst m)"
    "registerAttempt state random i now (memoryOf i s) = Returns (outcome, m) \<Longrightarrow> keepsChildren now (ds_tables s ! i) (fst m)"
    "resolveChild childID i now (memoryOf i s) = Returns (result, m) \<Longrightarrow> keepsChildren now (ds_tables s ! i) (fst m)"
    "touchActivity i now (memoryOf i s) = Returns (alive, m) \<Longrightarrow> keepsChildren now (ds_tables s ! i) (fst m)"
    "prune i now (memoryOf i s) = Returns m \<Longrightarrow> keepsChildren now (ds_tables s ! i) (fst m)"
proof -
  note start = section_starts [OF ok i, unfolded sectionOk_def]
  have fst: "ds_tables s ! i = fst (memoryOf i s)" by (simp add: memoryOf_def)
  obtain t b where tb: "expireLocked i now (memoryOf i s) = Returns (t, b)"
    using expireLocked_ok [OF start time] by auto
  have expired: "keepsChildren now (fst (memoryOf i s)) t"
    using expireLocked_keeps [OF start time tb] by simp
  show "keepsChildren now (ds_tables s ! i) (fst m)" if "registerFirst state i now (memoryOf i s) = Returns (outcome, m)"
    using that registerExisting_keeps [OF start time] by (auto simp: fst registerFirst_def keeps_refl split: if_splits)
  show "keepsChildren now (ds_tables s ! i) (fst m)" if "registerAttempt state random i now (memoryOf i s) = Returns (outcome, m)"
    unfolding fst by (rule registerAttempt_keeps [OF start time that])
  show "keepsChildren now (ds_tables s ! i) (fst m)" if "resolveChild childID i now (memoryOf i s) = Returns (result, m)"
  proof (cases "childID = [] \<or> maximumDeliveryChildIDLength < length childID")
    case True
    with that have "m = memoryOf i s" by (auto simp: resolveChild_def)
    then show ?thesis by (simp add: fst keeps_refl)
  next
    case False
    then have id: "childID \<noteq> []" "length childID \<le> maximumDeliveryChildIDLength" by simp_all
    have "resolveChild childID i now (memoryOf i s) = Returns (map_option ce_state (map_of (tb_entries t) childID), touchExistingLocked childID now t, b)"
      by (rule resolveChild_cases [OF start time id]) (simp add: tb)
    with that have "fst m = touchExistingLocked childID now t" by auto
    with keeps_trans [OF expired keeps_touched] show ?thesis by (simp add: fst)
  qed
  show "keepsChildren now (ds_tables s ! i) (fst m)" if "touchActivity i now (memoryOf i s) = Returns (alive, m)"
    using that tb keeps_trans [OF expired keeps_active] by (auto simp: fst touchActivity_def keeps_refl split: if_splits)
  show "keepsChildren now (ds_tables s ! i) (fst m)" if "prune i now (memoryOf i s) = Returns m"
    using that tb expired by (auto simp: fst prune_def keeps_refl split: if_splits)
qed

text \<open>The clock and the list of tables only grow, and a closed table stays closed.\<close>

lemma step_grows:
  assumes "delivery_step s t" "deliveryOk g p s"
  shows "ds_clock s \<le> ds_clock t \<and> length (ds_tables s) \<le> length (ds_tables t) \<and>
    (i < length (ds_tables s) \<longrightarrow> tb_closed (ds_tables s ! i) \<longrightarrow> tb_closed (ds_tables t ! i))"
proof -
  have closed: "tb_closed ((ds_tables s)[j := fst m] ! i)"
    if "i < length (ds_tables s)" "tb_closed (ds_tables s ! i)" "sectionOk g p s j now m" for j now m
    using that by (cases "i = j") (auto simp: sectionOk_def memoryOk_def)
  from assms show ?thesis
  proof cases
    case (openHandle profileID table)
    then show ?thesis by (auto simp: nth_append)
  next
    case (begins j now state outcome m)
    from sections(1) [OF assms(2) begins(2,3), of state] begins(4) have "sectionOk g p s j now m" by auto
    with closed begins show ?thesis by (auto simp: writeBack_def)
  next
    case (attempts k c now random outcome m)
    note call = call_at [OF assms(2) attempts(2,3)]
    from sections(2) [OF assms(2) call(1) attempts(6) call(2) [OF attempts(4)] attempts(7)] attempts(8)
    have "sectionOk g p s (rc_table c) now m" by auto
    with closed attempts show ?thesis by (auto simp: writeBack_def)
  next
    case (resolves j now childID result m)
    from sections(3) [OF assms(2) resolves(2,3), of childID] resolves(4) have "sectionOk g p s j now m" by auto
    with closed resolves show ?thesis by (auto simp: writeBack_def)
  next
    case (touches j now alive m)
    from sections(4) [OF assms(2) touches(2,3)] touches(4) have "sectionOk g p s j now m" by auto
    with closed touches show ?thesis by (auto simp: writeBack_def)
  next
    case (prunes j now m)
    from sections(5) [OF assms(2) prunes(2,3)] prunes(4) have "sectionOk g p s j now m" by auto
    with closed prunes show ?thesis by (auto simp: writeBack_def)
  next
    case (clears j m)
    from sections(6) [OF assms(2) clears(2)] clears(3) have "sectionOk g p s j (ds_clock s) m" by auto
    with closed clears show ?thesis by (auto simp: writeBack_def)
  qed simp_all
qed

lemma step_holds:
  assumes step: "delivery_step s t" and ok: "deliveryOk g p s" and i: "i < length (ds_tables s)"
    and holds: "holds childID state since (ds_tables s ! i)"
    and time: "since \<le> ds_clock s" "ds_clock t < since + deliveryChildTTL" and alive: "\<not> tb_closed (ds_tables t ! i)"
  shows "holds childID state since (ds_tables t ! i)"
proof -
  have kept: "holds childID state since ((ds_tables s)[j := fst m] ! i)"
    if "keepsChildren now (ds_tables s ! j) (fst m)" "ds_clock s \<le> now" "now < since + deliveryChildTTL" for j m now
    using that holds i time(1) by (cases "i = j") (auto simp: keepsChildren_def)
  from step show ?thesis
  proof cases
    case (openHandle profileID table)
    then show ?thesis using holds i by (simp add: nth_append)
  next
    case (begins j now state outcome m)
    with kept [OF sections_keep(1) [OF ok begins(2-4)]] time show ?thesis by (simp add: writeBack_def)
  next
    case (attempts k c now random outcome m)
    note call = call_at [OF ok attempts(2,3)]
    with kept [OF sections_keep(2) [OF ok call(1) attempts(6,8)]] time attempts show ?thesis by (simp add: writeBack_def)
  next
    case (resolves j now childID result m)
    with kept [OF sections_keep(3) [OF ok resolves(2-4)]] time show ?thesis by (simp add: writeBack_def)
  next
    case (touches j now alive m)
    with kept [OF sections_keep(4) [OF ok touches(2-4)]] time show ?thesis by (simp add: writeBack_def)
  next
    case (prunes j now m)
    with kept [OF sections_keep(5) [OF ok prunes(2-4)]] time show ?thesis by (simp add: writeBack_def)
  next
    case (clears j m)
    from sections(6) [OF ok clears(2)] clears(3) have "tb_closed (fst m)" by auto
    with clears alive i holds show ?thesis
      by (cases "i = j") (auto simp: writeBack_def)
  qed (use holds in simp_all)
qed

lemma steps_hold:
  assumes "delivery_step\<^sup>*\<^sup>* s t" "deliveryOk g p s" "i < length (ds_tables s)" "holds childID state since (ds_tables s ! i)"
    "since \<le> ds_clock s"
  shows "since \<le> ds_clock t \<and> i < length (ds_tables t) \<and>
    (ds_clock t < since + deliveryChildTTL \<longrightarrow> \<not> tb_closed (ds_tables t ! i) \<longrightarrow> holds childID state since (ds_tables t ! i))"
  using assms(1)
proof (induction rule: rtranclp_induct)
  case (step t u)
  have ok: "deliveryOk g p t"
    using deliveries.inv_steps [OF step(1)] assms(2) by blast
  have grows: "ds_clock t \<le> ds_clock u" "length (ds_tables t) \<le> length (ds_tables u)"
      "tb_closed (ds_tables t ! i) \<longrightarrow> tb_closed (ds_tables u ! i)"
    using step_grows [OF step(2) ok, of i] step.IH by auto
  moreover have "holds childID state since (ds_tables u ! i)"
    if "ds_clock u < since + deliveryChildTTL" "\<not> tb_closed (ds_tables u ! i)"
  proof (rule step_holds [OF step(2) ok])
    show "holds childID state since (ds_tables t ! i)"
      using step.IH that grows by simp
  qed (use step.IH that in simp_all)
  ultimately show ?case
    using step.IH by auto
qed (use assms in simp)

text \<open>What \<open>resolve\<close> answers, and how a second registration finds the first.\<close>

lemma resolve_answer:
  assumes ok: "deliveryOk g p s" and i: "i < length (ds_tables s)" and time: "ds_clock s \<le> now"
  shows "\<exists>m. resolveChild childID i now (memoryOf i s) = Returns
    (case map_of (tb_entries (ds_tables s ! i)) childID of None \<Rightarrow> None
     | Some e \<Rightarrow> if now < childExpiresAt (ds_tables s ! i) e then Some (ce_state e) else None, m)"
proof -
  note start = section_starts [OF ok i, unfolded sectionOk_def]
  have well: "tableWell (ds_clock s) (ds_tables s ! i)" and fst: "fst (memoryOf i s) = ds_tables s ! i"
    using ok i by (simp_all add: deliveryOk_def memoryOf_def)
  show ?thesis
  proof (cases "childID = [] \<or> maximumDeliveryChildIDLength < length childID")
    case True
    have "map_of (tb_entries (ds_tables s ! i)) childID = None"
    proof (cases "map_of (tb_entries (ds_tables s ! i)) childID")
      case (Some e)
      from tableWellD(5) [OF well map_of_SomeD [OF Some]] True show ?thesis
        by (auto simp: maximumDeliveryChildIDLength_def)
    qed
    then show ?thesis using True by (auto simp: resolveChild_def)
  next
    case False
    then have id: "childID \<noteq> []" "length childID \<le> maximumDeliveryChildIDLength" by simp_all
    obtain t b where "expiresTo now (fst (memoryOf i s)) t"
      "resolveChild childID i now (memoryOf i s) = Returns (map_option ce_state (map_of (tb_entries t) childID), touchExistingLocked childID now t, b)"
      by (rule resolveChild_cases [OF start time id])
    with expiresTo_map_of [OF well, of now t childID] show ?thesis
      by (auto simp: fst split: option.splits)
  qed
qed

lemma register_again:
  assumes ok: "deliveryOk g p s" and i: "i < length (ds_tables s)" and time: "ds_clock s \<le> now" and alive: "\<not> tb_closed (ds_tables s ! i)"
    and holds: "holds childID state since (ds_tables s ! i)" "now < since + deliveryChildTTL" "since \<le> now"
  shows "\<exists>m. registerFirst state i now (memoryOf i s) = Returns (Replies (Inr childID), m)"
proof -
  note start = section_starts [OF ok i, unfolded sectionOk_def]
  have fst: "fst (memoryOf i s) = ds_tables s ! i" by (simp add: memoryOf_def)
  obtain t b where tb: "expireLocked i now (memoryOf i s) = Returns (t, b)" "expiresTo now (fst (memoryOf i s)) t"
    using expireLocked_ok [OF start time] by auto
  then have well: "tableWell now t" by (simp add: expiresTo_def)
  have "holds childID state since t"
    using expireLocked_keeps [OF start time tb(1)] holds unfolding keepsChildren_def fst fst_conv by blast
  then obtain e where e: "(childID, e) \<in> set (tb_entries t)" "ce_state e = state"
    by (auto simp: holds_def split: option.splits dest: map_of_SomeD)
  then have "map_of (tb_byState t) state = Some childID"
    using tableWellD(3) [OF well] map_of_is_SomeI [OF tableWellD(2) [OF well]] by blast
  moreover have "validDeliveryChildState state"
    using tableWellD(5) [OF well e(1)] e(2) by simp
  ultimately show ?thesis
    using tb alive by (simp add: registerFirst_def registerExisting_def fst)
qed

lemma new_reply:
  assumes step: "delivery_step s s1" and ok: "deliveryOk g p s" and k: "k < length (ds_calls s1)"
    and reply: "rc_reply (ds_calls s1 ! k) = Some (Inr childID)" and new: "k < length (ds_calls s) \<longrightarrow> rc_reply (ds_calls s ! k) = None"
  shows "holds childID (rc_state (ds_calls s1 ! k)) (ds_clock s1) (ds_tables s1 ! rc_table (ds_calls s1 ! k))"
  using step
proof cases
  case (begins i now state outcome m)
  have "k = length (ds_calls s)"
    using k new reply begins(1) by (cases "k < length (ds_calls s)") (auto simp: nth_append)
  moreover from this have "outcome = Replies (Inr childID)"
    using reply begins(1) by (cases outcome) auto
  moreover have "replyOk state now outcome (fst m)"
    using sections(1) [OF ok begins(2,3), of state] begins(4) by auto
  ultimately show ?thesis
    using begins(1,2) by (simp add: writeBack_def replyOk_def)
next
  case (attempts j c now random outcome m)
  note call = call_at [OF ok attempts(2,3)]
  have "k = j"
    using k new reply attempts(1) by (cases "k = j") auto
  moreover from this have "outcome = Replies (Inr childID)"
    using reply attempts(1,2) by (cases outcome) auto
  moreover have "replyOk (rc_state c) now outcome (fst m)"
    using sections(2) [OF ok call(1) attempts(6) call(2) [OF attempts(4)] attempts(7)] attempts(8) by auto
  ultimately show ?thesis
    using attempts(1,2) call(1) by (simp add: writeBack_def replyOk_def)
next
  case (randomFails j c)
  then show ?thesis using k new reply by (cases "k = j") (auto simp: writeBack_def)
next
  case (exhausts j c)
  then show ?thesis using k new reply by (cases "k = j") (auto simp: writeBack_def)
qed (use k new reply in \<open>auto simp: writeBack_def\<close>)

lemma reachable_ok: "delivery_step\<^sup>*\<^sup>* (startDeliveries g p) s \<Longrightarrow> 0 \<le> g \<Longrightarrow> 0 \<le> p \<Longrightarrow> deliveryOk g p s"
  by (rule deliveries.inv_reachable [OF _ _, of "startDeliveries g p" g p]) simp_all

section \<open>Properties\<close>

text \<open>
  C30. The budget counts exactly the live children. In every reachable state of a service with these
  limits, whatever calls of all its handles interleave, the budget counts the children of all tables and
  of each profile, neither passes its limit, and no table passes its own; a table with children is on the
  list the pruner ranges over, and a table being closed has none; and no call panics: not the release of
  an expiry or of a close, in any table and at any later time.
\<close>

theorem delivery_children_accounted:
  assumes reach: "delivery_step\<^sup>*\<^sup>* (startDeliveries g p) s" and limits: "0 \<le> g" "0 \<le> p"
  shows "usage (Some (ds_budget s)) k = (\<Sum>t \<leftarrow> ds_tables s. int (length (tb_entries t)),
      \<Sum>t \<leftarrow> ds_tables s. if tb_profileID t = k then int (length (tb_entries t)) else 0) \<and>
    fst (usage (Some (ds_budget s)) k) \<le> g \<and> snd (usage (Some (ds_budget s)) k) \<le> p \<and>
    (\<forall>i < length (ds_tables s). length (tb_entries (ds_tables s ! i)) \<le> maximumDeliveryChildren \<and>
       (tb_entries (ds_tables s ! i) \<noteq> [] \<longrightarrow> i \<in> set (bud_tables (ds_budget s)) \<and> i \<notin> set (ds_closing s))) \<and>
    (\<forall>i < length (ds_tables s). \<forall>now \<ge> ds_clock s. \<forall>state childID.
       registerFirst state i now (memoryOf i s) \<noteq> Panics \<and> resolveChild childID i now (memoryOf i s) \<noteq> Panics \<and>
       touchActivity i now (memoryOf i s) \<noteq> Panics \<and> prune i now (memoryOf i s) \<noteq> Panics \<and> clearTable (memoryOf i s) \<noteq> Panics) \<and>
    (\<forall>c \<in> set (ds_calls s). \<forall>now \<ge> ds_clock s. \<forall>random. rc_reply c = None \<longrightarrow> length random = 24 \<longrightarrow>
       registerAttempt (rc_state c) random (rc_table c) now (memoryOf (rc_table c) s) \<noteq> Panics)"
proof (intro conjI)
  note ok = reachable_ok [OF assms]
  show "usage (Some (ds_budget s)) k = (\<Sum>t \<leftarrow> ds_tables s. int (length (tb_entries t)),
      \<Sum>t \<leftarrow> ds_tables s. if tb_profileID t = k then int (length (tb_entries t)) else 0)"
    using ok by (simp add: deliveryOk_def usage_def accounts_def heldAll_def heldBy_def holdersOf_def comp_def cong: if_cong)
  show "fst (usage (Some (ds_budget s)) k) \<le> g" "snd (usage (Some (ds_budget s)) k) \<le> p"
    using ok unfolding deliveryOk_def budgetOk_def by (simp_all add: usage_def)
  show "\<forall>i < length (ds_tables s). length (tb_entries (ds_tables s ! i)) \<le> maximumDeliveryChildren \<and>
       (tb_entries (ds_tables s ! i) \<noteq> [] \<longrightarrow> i \<in> set (bud_tables (ds_budget s)) \<and> i \<notin> set (ds_closing s))"
    using ok tableWellD(4,8) unfolding deliveryOk_def by blast
  show "\<forall>i < length (ds_tables s). \<forall>now \<ge> ds_clock s. \<forall>state childID.
       registerFirst state i now (memoryOf i s) \<noteq> Panics \<and> resolveChild childID i now (memoryOf i s) \<noteq> Panics \<and>
       touchActivity i now (memoryOf i s) \<noteq> Panics \<and> prune i now (memoryOf i s) \<noteq> Panics \<and> clearTable (memoryOf i s) \<noteq> Panics"
    using sections(1,3,4,5,6) [OF ok] by (metis call.distinct(1))
  show "\<forall>c \<in> set (ds_calls s). \<forall>now \<ge> ds_clock s. \<forall>random. rc_reply c = None \<longrightarrow> length random = 24 \<longrightarrow>
       registerAttempt (rc_state c) random (rc_table c) now (memoryOf (rc_table c) s) \<noteq> Panics"
    using sections(2) [OF ok] call_mem [OF ok] by (metis call.distinct(1))
qed

text \<open>
  C31. A registered child leads to its state. When a register call receives an identifier, then until
  the time to live has passed, through any interleaving of calls of any handle, as long as its table is
  not closed: the identifier resolves to exactly the state it was registered for, and registering the
  same state again returns the same identifier.
\<close>

theorem registered_child_resolves:
  assumes reach: "delivery_step\<^sup>*\<^sup>* (startDeliveries g p) s" and limits: "0 \<le> g" "0 \<le> p"
    and reply: "delivery_step s s1" "k < length (ds_calls s1)" "rc_reply (ds_calls s1 ! k) = Some (Inr childID)"
      "k < length (ds_calls s) \<longrightarrow> rc_reply (ds_calls s ! k) = None"
    and steps: "delivery_step\<^sup>*\<^sup>* s1 t" and c: "c = ds_calls s1 ! k" and alive: "\<not> tb_closed (ds_tables t ! rc_table c)"
    and time: "ds_clock t \<le> now" "now < ds_clock s1 + deliveryChildTTL"
  shows "(\<exists>m. resolveChild childID (rc_table c) now (memoryOf (rc_table c) t) = Returns (Some (rc_state c), m)) \<and>
    (\<exists>m. registerFirst (rc_state c) (rc_table c) now (memoryOf (rc_table c) t) = Returns (Replies (Inr childID), m))"
proof -
  let ?i = "rc_table c"
  note ok = reachable_ok [OF assms(1-3)]
  have ok1: "deliveryOk g p s1" by (rule delivery_step_ok [OF reply(1) ok])
  have okt: "deliveryOk g p t" by (rule deliveries.inv_steps [OF steps ok1])
  have i: "?i < length (ds_tables s1)"
    unfolding c by (rule call_at(1) [OF ok1 reply(2) refl])
  have "holds childID (rc_state c) (ds_clock s1) (ds_tables s1 ! ?i)"
    unfolding c by (rule new_reply [OF reply(1) ok reply(2-4)])
  from steps_hold [OF steps ok1 i this order_refl] alive time
  have holds: "holds childID (rc_state c) (ds_clock s1) (ds_tables t ! ?i)" and later: "ds_clock s1 \<le> ds_clock t" "?i < length (ds_tables t)"
    by auto
  obtain e where e: "map_of (tb_entries (ds_tables t ! ?i)) childID = Some e" "ce_state e = rc_state c" "ds_clock s1 \<le> ce_activeAt e"
    using holds by (auto simp: holds_def split: option.splits)
  have "now < childExpiresAt (ds_tables t ! ?i) e"
    using childExpiresAt_min [of e "ds_tables t ! ?i"] time(2) e(3) by linarith
  moreover have "ds_clock s1 \<le> now" using later time by simp
  ultimately show ?thesis
    using resolve_answer [OF okt later(2) time(1), of childID] e register_again [OF okt later(2) time(1) alive holds time(2)] by simp
qed

text \<open>
  A child is served exactly until it expires. In every reachable state and at every later time, an
  identifier is resolved if and only if its table has it and the time to live has not passed since its
  last use, where any use of the table counts for a child that is kept while the table is active and only
  its own uses for the others, the sliding segments; and a closed table resolves nothing.
\<close>

definition lastUse :: "deliveryChildTable \<Rightarrow> deliveryChildEntry \<Rightarrow> int" where
  "lastUse t e = (case tb_activeAt t of Some instant \<Rightarrow> if ch_retainWhileActive (ce_state e) then max instant (ce_activeAt e) else ce_activeAt e
     | None \<Rightarrow> ce_activeAt e)"

theorem resolve_until_expiry:
  assumes reach: "delivery_step\<^sup>*\<^sup>* (startDeliveries g p) s" and limits: "0 \<le> g" "0 \<le> p"
    and table: "i < length (ds_tables s)" "t = ds_tables s ! i" and time: "ds_clock s \<le> now"
  shows "\<exists>result m. resolveChild childID i now (memoryOf i s) = Returns (result, m) \<and>
    (\<forall>state. result = Some state \<longleftrightarrow> (\<exists>e. (childID, e) \<in> set (tb_entries t) \<and> ce_state e = state \<and> now < lastUse t e + deliveryChildTTL)) \<and>
    (tb_closed t \<longrightarrow> result = None)"
proof -
  note ok = reachable_ok [OF assms(1-3)]
  have well: "tableWell (ds_clock s) t"
    using ok table by (simp add: deliveryOk_def)
  have expiry: "childExpiresAt t e = lastUse t e + deliveryChildTTL" for e
    by (simp add: childExpiresAt_def lastUse_def max_def split: option.splits)
  have member: "(childID, e) \<in> set (tb_entries t) \<longleftrightarrow> map_of (tb_entries t) childID = Some e" for e
    using tableWellD(1) [OF well] by (auto dest: map_of_SomeD)
  have "tb_closed t \<longrightarrow> map_of (tb_entries t) childID = None"
    using tableWellD(8) [OF well] by simp
  with resolve_answer [OF ok table(1) time, of childID] show ?thesis
    unfolding member table(2) [symmetric] by (auto simp: expiry split: option.splits)
qed

section \<open>Examples\<close>

definition exampleChild :: deliveryChildState where
  "exampleChild = \<lparr>ch_assetID = ''stream-1'', ch_file = ''index.m3u8'', ch_start = [], ch_target = [], ch_signature = [],
     ch_retainWhileActive = True\<rparr>"

definition exampleRandom :: string where
  "exampleRandom = replicate 24 (CHR ''r'')"

definition deliveryOpened :: deliverySystem where
  "deliveryOpened = (startDeliveries maximumDeliveryChildrenGlobal maximumDeliveryChildrenPerProfile)
     \<lparr>ds_tables := [newDeliveryChildTable\<lparr>tb_budget := True, tb_profileID := ''p''\<rparr>]\<rparr>"

definition deliveryBegun :: deliverySystem where
  "deliveryBegun = deliveryOpened\<lparr>ds_clock := 1,
     ds_calls := [\<lparr>rc_table = 0, rc_state = exampleChild, rc_attempts = 4, rc_reply = None\<rparr>]\<rparr>"

definition deliveryRegistered :: deliverySystem where
  "deliveryRegistered = (case registerAttempt exampleChild exampleRandom 0 2 (memoryOf 0 deliveryBegun) of
     Panics \<Rightarrow> deliveryBegun
   | Returns (outcome, m) \<Rightarrow> (writeBack 0 2 m deliveryBegun)
       \<lparr>ds_calls := [\<lparr>rc_table = 0, rc_state = exampleChild, rc_attempts = 3, rc_reply = replyOf outcome\<rparr>]\<rparr>)"

lemma example_valid: "validDeliveryChildState exampleChild"
  by code_simp

lemma delivery_opened: "delivery_step (startDeliveries maximumDeliveryChildrenGlobal maximumDeliveryChildrenPerProfile) deliveryOpened"
  using delivery_step.openHandle [of "''p''" _ "startDeliveries maximumDeliveryChildrenGlobal maximumDeliveryChildrenPerProfile"]
  by (simp add: bindBudget_def newDeliveryChildTable_def deliveryOpened_def startDeliveries_def)

lemma delivery_begun: "delivery_step deliveryOpened deliveryBegun"
proof -
  have "registerFirst exampleChild 0 1 (memoryOf 0 deliveryOpened) = Returns (GoesOn, memoryOf 0 deliveryOpened)"
    by (simp add: registerFirst_def example_valid registerExisting_def expireLocked_def memoryOf_def deliveryOpened_def newDeliveryChildTable_def)
  from delivery_step.begins [OF _ _ this] show ?thesis
    by (simp add: deliveryOpened_def deliveryBegun_def startDeliveries_def writeBack_def memoryOf_def)
qed

lemma example_attempt:
  "registerAttempt exampleChild exampleRandom 0 2 (memoryOf 0 deliveryBegun) =
     Returns (Replies (Inr (EncodeToString exampleRandom)), insertChild (EncodeToString exampleRandom) exampleChild 2 (ds_tables deliveryOpened ! 0),
       Some \<lparr>bud_live = 1, bud_byProfile = [(''p'', 1)], bud_tables = [0], bud_globalMax = maximumDeliveryChildrenGlobal,
         bud_profileMax = maximumDeliveryChildrenPerProfile\<rparr>)"
  by (simp add: registerAttempt_def Let_def registerExisting_def expireLocked_def memoryOf_def deliveryBegun_def deliveryOpened_def
      newDeliveryChildTable_def startDeliveries_def reserve_def newDeliveryChildBudget_def listTable_def profileLive_def
      maximumDeliveryChildrenGlobal_def maximumDeliveryChildrenPerProfile_def maximumDeliveryChildren_def maximumPlaylistReferences_def)

lemma begun_calls: "ds_calls deliveryBegun = [\<lparr>rc_table = 0, rc_state = exampleChild, rc_attempts = 4, rc_reply = None\<rparr>]"
    "ds_clock deliveryBegun = 1"
  by (simp_all add: deliveryBegun_def)

lemma random_length: "length exampleRandom = 24"
  by (simp add: exampleRandom_def)

lemma delivery_registered: "delivery_step deliveryBegun deliveryRegistered"
  using delivery_step.attempts [of 0 deliveryBegun "ds_calls deliveryBegun ! 0" 2 exampleRandom]
  by (simp add: begun_calls example_attempt deliveryRegistered_def random_length)

lemma delivery_registered_reachable:
  "delivery_step\<^sup>*\<^sup>* (startDeliveries maximumDeliveryChildrenGlobal maximumDeliveryChildrenPerProfile) deliveryBegun"
  "delivery_step\<^sup>*\<^sup>* (startDeliveries maximumDeliveryChildrenGlobal maximumDeliveryChildrenPerProfile) deliveryRegistered"
  using delivery_opened delivery_begun delivery_registered by (auto intro: converse_rtranclp_into_rtranclp)

lemma limits_positive: "0 \<le> maximumDeliveryChildrenGlobal" "0 \<le> maximumDeliveryChildrenPerProfile"
  by (simp_all add: maximumDeliveryChildrenGlobal_def maximumDeliveryChildrenPerProfile_def)

lemma registered_state:
  "ds_calls deliveryRegistered = [\<lparr>rc_table = 0, rc_state = exampleChild, rc_attempts = 3, rc_reply = Some (Inr (EncodeToString exampleRandom))\<rparr>]"
  "ds_clock deliveryRegistered = 2" "length (ds_tables deliveryRegistered) = 1"
  "ds_tables deliveryRegistered ! 0 = insertChild (EncodeToString exampleRandom) exampleChild 2 (ds_tables deliveryOpened ! 0)"
  unfolding deliveryRegistered_def example_attempt by (simp_all add: writeBack_def deliveryBegun_def deliveryOpened_def)

lemma registered_table:
  "tb_entries (ds_tables deliveryRegistered ! 0) = [(EncodeToString exampleRandom, \<lparr>ce_state = exampleChild, ce_activeAt = 2\<rparr>)]"
  "tb_activeAt (ds_tables deliveryRegistered ! 0) = Some 2" "\<not> tb_closed (ds_tables deliveryRegistered ! 0)"
  by (simp_all add: registered_state insertChild_def Let_def deliveryOpened_def newDeliveryChildTable_def)

theorem delivery_children_accounted_witness: "fst (usage (Some (ds_budget deliveryRegistered)) ''p'') = 1"
proof -
  have "ds_tables deliveryRegistered = [ds_tables deliveryRegistered ! 0]"
    using registered_state(3) by (cases "ds_tables deliveryRegistered") auto
  then have "(\<Sum>t \<leftarrow> ds_tables deliveryRegistered. int (length (tb_entries t))) = (\<Sum>t \<leftarrow> [ds_tables deliveryRegistered ! 0]. int (length (tb_entries t)))"
    by (rule arg_cong)
  then have "(\<Sum>t \<leftarrow> ds_tables deliveryRegistered. int (length (tb_entries t))) = 1"
    by (simp add: registered_table(1))
  then show ?thesis
    using delivery_children_accounted [OF delivery_registered_reachable(2) limits_positive, of "''p''"] by simp
qed

theorem registered_child_resolves_witness:
  "\<exists>m. resolveChild (EncodeToString exampleRandom) 0 100 (memoryOf 0 deliveryRegistered) = Returns (Some exampleChild, m)"
  using registered_child_resolves [OF delivery_registered_reachable(1) limits_positive delivery_registered _ _ _ rtranclp.rtrancl_refl refl,
      of 0 "EncodeToString exampleRandom" 100]
  by (simp add: registered_state(1,2) registered_table(3) begun_calls deliveryChildTTL_def)

theorem resolve_until_expiry_witness:
  "\<exists>m. resolveChild (EncodeToString exampleRandom) 0 (2 + deliveryChildTTL) (memoryOf 0 deliveryRegistered) = Returns (None, m)"
proof -
  have time: "ds_clock deliveryRegistered \<le> 2 + deliveryChildTTL"
    by (simp add: registered_state deliveryChildTTL_def)
  have i: "0 < length (ds_tables deliveryRegistered)"
    by (simp add: registered_state)
  show ?thesis
    using resolve_until_expiry [OF delivery_registered_reachable(2) limits_positive i refl time, of "EncodeToString exampleRandom"]
    by (auto simp: registered_table lastUse_def exampleChild_def)
qed

end
