(* ===== verification/Delivery_Links.thy ===== *)
theory Delivery_Links
  imports Delivery_Children
begin

text \<open>
  The links of a delivery (\<open>playback/delivery.go\<close>, and \<open>seekableHLSSegmentIndex\<close> of \<open>playback/hls.go\<close>):
  the template a request gives its child links, the link of a child, the signed identifier of a seekable
  segment that needs no table entry, and what a request for a link is served with. A URL is its path and
  its decoded query; \<open>String\<close> and the parser of \<open>net/http\<close>, between the link that is written and the
  request that is read, carry both. \<open>urlParse\<close> is \<open>url.Parse\<close> of a provider URL.
\<close>

section \<open>Requests and links\<close>

record requestURL =
  ru_Path :: string
  ru_Query :: "(string \<times> string list) list"

record deliveryLinkTemplate =
  lt_path :: string
  lt_playSessionID :: string
  lt_mediaSourceID :: string
  lt_startTimeTicks :: string

record DeliveryHandle =
  dh_sessionID :: string
  dh_assetID :: string
  dh_token :: string
  dh_defaultFile :: string
  dh_defaultStart :: string
  dh_children :: "nat option"
  dh_assets :: "string list option"
  dh_childSigningKey :: string

record deliveryRequest =
  dr_query :: "(string \<times> string list) list"
  dr_assetID :: string
  dr_target :: string
  dr_signature :: string
  dr_template :: deliveryLinkTemplate
  dr_child :: bool

definition deliveryChildQueryName :: string where
  "deliveryChildQueryName = ''RivuneChildId''"

definition maximumDeliveryStartTicksLength :: nat where
  "maximumDeliveryStartTicksLength = 32"

definition maximumDeliveryCompatTokenLength :: nat where
  "maximumDeliveryCompatTokenLength = 128"

definition zeroDeliveryHandle :: DeliveryHandle where
  "zeroDeliveryHandle = \<lparr>dh_sessionID = [], dh_assetID = [], dh_token = [], dh_defaultFile = [], dh_defaultStart = [],
     dh_children = None, dh_assets = None, dh_childSigningKey = replicate 32 (CHR 0x00)\<rparr>"

text \<open>\<open>DeliveryHandle.Valid\<close>.\<close>

definition validHandle :: "DeliveryHandle \<Rightarrow> bool" where
  "validHandle handle \<longleftrightarrow> dh_sessionID handle \<noteq> [] \<and> dh_assetID handle \<noteq> [] \<and> dh_token handle \<noteq> []"

definition handleContains :: "DeliveryHandle \<Rightarrow> string \<Rightarrow> bool" where
  "handleContains handle assetID \<longleftrightarrow>
     (case dh_assets handle of None \<Rightarrow> False
      | Some ids \<Rightarrow> \<not> (assetID = [] \<or> 128 < length assetID) \<and> assetID \<in> set ids)"

text \<open>An error of \<open>Serve\<close>: a \<open>deliveryRequestError\<close> around its cause, or the error as it is.\<close>

datatype serve_error = RequestError playback_error | ServeError playback_error

definition IsTerminalDeliveryError :: "serve_error option \<Rightarrow> bool" where
  "IsTerminalDeliveryError err =
     (case err of None \<Rightarrow> False | Some (RequestError cause) \<Rightarrow> False | Some (ServeError e) \<Rightarrow> errorIs e ErrSessionNotFound)"

definition classifyDeliveryProxyError :: "playback_error option \<Rightarrow> bool \<Rightarrow> serve_error option" where
  "classifyDeliveryProxyError err child =
     (case err of None \<Rightarrow> None
      | Some e \<Rightarrow> if \<not> child \<or> errorIs e ErrSessionNotFound then Some (ServeError e) else Some (RequestError e))"

section \<open>The template\<close>

definition deliveryQueryScalar :: "(string \<times> string list) list \<Rightarrow> string \<Rightarrow> playback_error + string option" where
  "deliveryQueryScalar values name =
     (case concat (map snd (filter (\<lambda>(actual, _). EqualFold actual name) values)) of
        [] \<Rightarrow> Inr None
      | [found] \<Rightarrow> Inr (Some found)
      | _ \<Rightarrow> Inl ErrSessionNotFound)"

text \<open>\<open>strings.Trim(s, "/")\<close>, and \<open>strings.Join(parts, "/")\<close>.\<close>

definition trimSlashes :: "string \<Rightarrow> string" where
  "trimSlashes s = rev (dropWhile (\<lambda>c. c = CHR ''/'') (rev (dropWhile (\<lambda>c. c = CHR ''/'') s)))"

fun joinSlashes :: "string list \<Rightarrow> string" where
  "joinSlashes [] = []"
| "joinSlashes [p] = p"
| "joinSlashes (p # q # ps) = p @ CHR ''/'' # joinSlashes (q # ps)"

definition deliveryVideoBasePath :: "string \<Rightarrow> string option" where
  "deliveryVideoBasePath rawPath =
     (let parts = Split (trimSlashes rawPath) (CHR ''/'');
          videoIndex = (if 3 \<le> length parts \<and> EqualFold (parts ! 0) ''emby'' then 1 else 0)
      in if length parts \<le> videoIndex + 1 \<or> \<not> EqualFold (parts ! videoIndex) ''Videos'' \<or>
            parts ! (videoIndex + 1) = [] \<or> 128 < length (parts ! (videoIndex + 1)) then None
         else if parts ! (videoIndex + 1) = ''.'' \<or> parts ! (videoIndex + 1) = ''..'' then None
         else Some (CHR ''/'' # joinSlashes (take (videoIndex + 2) parts)))"

definition newDeliveryLinkTemplate :: "requestURL option \<Rightarrow> playback_error + deliveryLinkTemplate" where
  "newDeliveryLinkTemplate url =
     (case url of None \<Rightarrow> Inl ErrSessionNotFound
      | Some requested \<Rightarrow>
     (if ru_Path requested = [] \<or> 2048 < length (ru_Path requested) then Inl ErrSessionNotFound
      else (case deliveryVideoBasePath (ru_Path requested) of None \<Rightarrow> Inl ErrSessionNotFound
      | Some basePath \<Rightarrow>
     (case deliveryQueryScalar (ru_Query requested) ''PlaySessionId'' of Inl err \<Rightarrow> Inl ErrSessionNotFound
      | Inr None \<Rightarrow> Inl ErrSessionNotFound
      | Inr (Some playID) \<Rightarrow>
     (if playID = [] \<or> 128 < length playID then Inl ErrSessionNotFound
      else (case deliveryQueryScalar (ru_Query requested) ''MediaSourceId'' of Inl err \<Rightarrow> Inl ErrSessionNotFound
      | Inr None \<Rightarrow> Inl ErrSessionNotFound
      | Inr (Some mediaID) \<Rightarrow>
     (if mediaID = [] \<or> 128 < length mediaID then Inl ErrSessionNotFound
      else (case deliveryQueryScalar (ru_Query requested) ''StartTimeTicks'' of Inl err \<Rightarrow> Inl ErrSessionNotFound
      | Inr ticks \<Rightarrow>
     (let startTimeTicks = (case ticks of None \<Rightarrow> Some []
            | Some raw \<Rightarrow> if raw = [] \<or> maximumDeliveryStartTicksLength < length raw then None
                else (case ParseInt raw of None \<Rightarrow> None | Some parsed \<Rightarrow> if parsed < 0 then None else Some (Itoa parsed)));
          credentialOk = (case map_of (ru_Query requested) ''api_key'' of None \<Rightarrow> True
            | Some candidates \<Rightarrow>
                (if length candidates \<noteq> 1 then False
                 else (let credential = TrimSpace (candidates ! 0)
                   in \<not> (credential = [] \<or> maximumDeliveryCompatTokenLength < length credential \<or>
                        list_ex (\<lambda>c. c \<in> {CHR 0x0D, CHR 0x0A, CHR 0x09, CHR '' ''}) credential))))
      in (case startTimeTicks of None \<Rightarrow> Inl ErrSessionNotFound
          | Some text \<Rightarrow> if \<not> credentialOk then Inl ErrSessionNotFound
              else Inr \<lparr>lt_path = basePath, lt_playSessionID = playID, lt_mediaSourceID = mediaID, lt_startTimeTicks = text\<rparr>))))))))))"

section \<open>The link of a child\<close>

definition deliveryChildExtension :: "(string \<Rightarrow> URL option) \<Rightarrow> deliveryChildState \<Rightarrow> string" where
  "deliveryChildExtension urlParse state =
     (let file = (if ch_file state = [] \<and> ch_target state \<noteq> []
            then (case urlParse (ch_target state) of None \<Rightarrow> ch_file state | Some parsed \<Rightarrow> url_Path parsed) else ch_file state);
          extension = ToLower (TrimPrefix (pathExtension file) ''.'')
      in if length extension = 0 \<or> 12 < length extension then ''bin''
         else if list_ex (\<lambda>c. ((of_char c :: nat) < 97 \<or> 122 < (of_char c :: nat)) \<and> ((of_char c :: nat) < 48 \<or> 57 < (of_char c :: nat))) extension
         then ''bin'' else extension)"

text \<open>\<open>url.PathEscape\<close>: a byte outside the letters, digits and \<open>-_.~$&+:=@\<close> is \<open>%\<close> and two hexadecimal digits.\<close>

definition hexDigit :: "nat \<Rightarrow> char" where
  "hexDigit n = ''0123456789ABCDEF'' ! n"

definition PathEscape :: "string \<Rightarrow> string" where
  "PathEscape s = concat (map (\<lambda>c. if asciiAlnum c \<or> c \<in> set ''-_.~$&+:=@'' then [c]
     else [CHR ''%'', hexDigit (of_char c div 16), hexDigit (of_char c mod 16)]) s)"

definition childURL :: "(string \<Rightarrow> URL option) \<Rightarrow> deliveryLinkTemplate \<Rightarrow> string \<Rightarrow> deliveryChildState \<Rightarrow> requestURL" where
  "childURL urlParse template childID state =
     (let path = (if ch_file state = ''index.m3u8'' \<and> ch_target state = [] \<and> ch_signature state = []
            then lt_path template @ ''/main.m3u8''
            else lt_path template @ ''/hls1/'' @ PathEscape (lt_playSessionID template) @ ''/'' @ PathEscape childID @ ''.'' @
              deliveryChildExtension urlParse state)
      in \<lparr>ru_Path = path,
          ru_Query = [(''MediaSourceId'', [lt_mediaSourceID template]), (''PlaySessionId'', [lt_playSessionID template]),
            (''api_key'', [lt_playSessionID template]), (deliveryChildQueryName, [childID])] @
            (if lt_startTimeTicks template \<noteq> [] then [(''StartTimeTicks'', [lt_startTimeTicks template])] else [])\<rparr>)"

section \<open>Seekable segments\<close>

definition hlsSeekableSegmentPrefix :: string where
  "hlsSeekableSegmentPrefix = ''seek-''"

definition hlsSegmentDurationSeconds :: int where
  "hlsSegmentDurationSeconds = 3"

text \<open>\<open>fmt.Sprintf("%06d", i)\<close>; the sign counts for the width.\<close>

definition padded6 :: "int \<Rightarrow> string" where
  "padded6 i =
     (if i < 0 then CHR ''-'' # replicate (5 - length (Itoa (- i))) (CHR ''0'') @ Itoa (- i)
      else replicate (6 - length (Itoa i)) (CHR ''0'') @ Itoa i)"

definition hasSuffix :: "string \<Rightarrow> string \<Rightarrow> bool" where
  "hasSuffix s p \<longleftrightarrow> hasPrefix (rev s) (rev p)"

definition TrimSuffix :: "string \<Rightarrow> string \<Rightarrow> string" where
  "TrimSuffix s p = (if hasSuffix s p then take (length s - length p) s else s)"

definition seekableHLSSegmentIndex :: "string \<Rightarrow> int \<Rightarrow> int option" where
  "seekableHLSSegmentIndex name segments =
     (if segments \<le> 0 \<or> \<not> hasPrefix name hlsSeekableSegmentPrefix \<or> \<not> hasSuffix name ''.ts'' then None
      else (case ParseInt (TrimSuffix (TrimPrefix name hlsSeekableSegmentPrefix) ''.ts'') of None \<Rightarrow> None
        | Some index \<Rightarrow>
            if index < 0 \<or> segments \<le> index \<or> name \<noteq> hlsSeekableSegmentPrefix @ padded6 index @ ''.ts'' then None
            else Some index))"

definition seekableStart :: "int \<Rightarrow> string" where
  "seekableStart index = hlsStartKey (Finite (of_int (index * hlsSegmentDurationSeconds)))"

definition seekableDeliveryChildSignature :: "DeliveryHandle \<Rightarrow> int \<Rightarrow> string" where
  "seekableDeliveryChildSignature handle index =
     take 16 (hmacSHA256 (dh_childSigningKey handle)
       (''rivune:hls-seek:v1'' @ [CHR 0x00] @ dh_sessionID handle @ [CHR 0x00] @ dh_assetID handle @ [CHR 0x00] @ Itoa index))"

definition seekableDeliveryChildID :: "deliveryChildState \<Rightarrow> DeliveryHandle \<Rightarrow> string option" where
  "seekableDeliveryChildID state handle =
     (case seekableHLSSegmentIndex (ch_file state) (int maximumPlaylistReferences) of None \<Rightarrow> None
      | Some index \<Rightarrow>
          if ch_assetID state \<noteq> dh_assetID handle \<or> ch_target state \<noteq> [] \<or> ch_signature state \<noteq> [] \<or>
             ch_start state \<noteq> seekableStart index \<or> dh_childSigningKey handle = replicate 32 (CHR 0x00) then None
          else Some (''hlsseek-'' @ padded6 index @ ''-'' @ EncodeToString (seekableDeliveryChildSignature handle index)))"

text \<open>\<open>strings.SplitN(s, sep, n)\<close> for a one-byte separator.\<close>

fun SplitN :: "string \<Rightarrow> char \<Rightarrow> nat \<Rightarrow> string list" where
  "SplitN s sep 0 = []"
| "SplitN s sep (Suc 0) = [s]"
| "SplitN s sep (Suc (Suc n)) =
     (if sep \<in> set s then takeWhile (\<lambda>c. c \<noteq> sep) s # SplitN (tl (dropWhile (\<lambda>c. c \<noteq> sep) s)) sep (Suc n) else [s])"

definition seekableDeliveryChildState :: "string \<Rightarrow> DeliveryHandle \<Rightarrow> deliveryChildState option" where
  "seekableDeliveryChildState childID handle =
     (let parts = SplitN childID (CHR ''-'') 3
      in if length parts \<noteq> 3 \<or> parts ! 0 \<noteq> ''hlsseek'' \<or> length (parts ! 1) \<noteq> 6 \<or> dh_childSigningKey handle = replicate 32 (CHR 0x00) then None
         else (case ParseInt (parts ! 1) of None \<Rightarrow> None
           | Some index \<Rightarrow>
               if index < 0 \<or> int maximumPlaylistReferences \<le> index \<or> parts ! 1 \<noteq> padded6 index then None
               else (case DecodeString (parts ! 2) of None \<Rightarrow> None
                 | Some signature \<Rightarrow>
                     if length signature \<noteq> 16 \<or> EncodeToString signature \<noteq> parts ! 2 \<or>
                        signature \<noteq> seekableDeliveryChildSignature handle index then None
                     else Some \<lparr>ch_assetID = dh_assetID handle, ch_file = hlsSeekableSegmentPrefix @ padded6 index @ ''.ts'',
                       ch_start = seekableStart index, ch_target = [], ch_signature = [], ch_retainWhileActive = True\<rparr>)))"

section \<open>Serving\<close>

definition requestForDelivery ::
  "DeliveryHandle \<Rightarrow> requestURL option \<Rightarrow> nat \<Rightarrow> int \<Rightarrow> table_memory \<Rightarrow> ((playback_error + deliveryRequest) \<times> table_memory) call" where
  "requestForDelivery handle url i now memory =
     (case newDeliveryLinkTemplate url of Inl err \<Rightarrow> Returns (Inl ErrSessionNotFound, memory)
      | Inr template \<Rightarrow>
     (let answer = (\<lambda>state child. Inr \<lparr>dr_query = (if ch_file state \<noteq> [] then [(''file'', [ch_file state])] else []) @
              (if ch_start state \<noteq> [] then [(''start'', [ch_start state])] else []),
            dr_assetID = ch_assetID state, dr_target = ch_target state, dr_signature = ch_signature state,
            dr_template = template, dr_child = child\<rparr>);
          own = \<lparr>ch_assetID = dh_assetID handle, ch_file = dh_defaultFile handle, ch_start = dh_defaultStart handle,
            ch_target = [], ch_signature = [], ch_retainWhileActive = False\<rparr>
      in (case deliveryQueryScalar (ru_Query (the url)) deliveryChildQueryName of
            Inl err \<Rightarrow> Returns (Inl ErrSessionNotFound, memory)
          | Inr None \<Rightarrow> Returns (answer own False, memory)
          | Inr (Some childID) \<Rightarrow>
              (case seekableDeliveryChildState childID handle of
                 Some resolved \<Rightarrow>
                   (case touchActivity i now memory of Panics \<Rightarrow> Panics
                    | Returns (alive, after) \<Rightarrow> Returns (if alive then answer resolved True else Inl ErrSessionNotFound, after))
               | None \<Rightarrow>
                   (case resolveChild childID i now memory of Panics \<Rightarrow> Panics
                    | Returns (None, after) \<Rightarrow> Returns (Inl ErrSessionNotFound, after)
                    | Returns (Some resolved, after) \<Rightarrow> Returns (answer resolved True, after))))))"

text \<open>\<open>deliverySafeSession\<close>: the session without a URL.\<close>

record Session =
  ss_ID :: string
  ss_SelectedSourceID :: string
  ss_SelectedAudioTrack :: "int option"
  ss_SelectedSubtitleID :: string
  ss_Sources :: "Source list"
  ss_Subtitles :: "Subtitle list"
  ss_ProviderErrors :: "ProviderFailure list"
  ss_ExpiresAt :: int

definition deliverySafeSession :: "Session \<Rightarrow> Session" where
  "deliverySafeSession session = session\<lparr>ss_Sources := map (\<lambda>s. s\<lparr>src_URL := []\<rparr>) (ss_Sources session),
     ss_Subtitles := map (\<lambda>s. s\<lparr>sub_URL := []\<rparr>) (ss_Subtitles session)\<rparr>"

text \<open>\<open>key\<close> is what \<open>rand.Read\<close> fills the signing key with, or \<^const>\<open>None\<close> for its error; \<open>children\<close> the new table.\<close>

definition deliveryHandleForSession ::
  "string option \<Rightarrow> nat \<Rightarrow> string \<Rightarrow> string \<Rightarrow> Source list \<Rightarrow> storedAsset list \<Rightarrow> DeliveryHandle" where
  "deliveryHandleForSession key children sessionID token sources assets =
     (let selectedID = firstCompatibleSource sources
      in case storedAssetIndex assets selectedID of None \<Rightarrow> zeroDeliveryHandle
         | Some assetIndex \<Rightarrow>
             if selectedID = [] then zeroDeliveryHandle
             else (case key of None \<Rightarrow> zeroDeliveryHandle
               | Some bytes \<Rightarrow>
                   (let handle = \<lparr>dh_sessionID = sessionID, dh_assetID = selectedID, dh_token = token, dh_defaultFile = [],
                          dh_defaultStart = [], dh_children = Some children,
                          dh_assets = Some (filter (\<lambda>ident. ident \<noteq> []) (map sa_ID assets)), dh_childSigningKey = bytes\<rparr>
                    in case find (\<lambda>source. src_ID source = selectedID) sources of None \<Rightarrow> handle
                       | Some source \<Rightarrow>
                           if src_Protocol source = ''hls'' \<and>
                              src_Mode source \<in> {processingRemux, processingTranscodeAudio, processingTranscode}
                           then handle\<lparr>dh_defaultFile := ''master.m3u8'',
                             dh_defaultStart := (if float_less (Finite 0) (sa_StartSeconds (assets ! assetIndex))
                               then hlsStartKey (sa_StartSeconds (assets ! assetIndex)) else dh_defaultStart handle)\<rparr>
                           else handle)))"

section \<open>The identifier of a seekable segment\<close>

lemma hasPrefix_append [simp]: "hasPrefix (p @ s) p"
  by (simp add: hasPrefix_iff)

lemma TrimPrefix_append [simp]: "TrimPrefix (p @ s) p = s"
  by (simp add: TrimPrefix_def)

lemma hasSuffix_append [simp]: "hasSuffix (s @ p) p"
  by (simp add: hasSuffix_def)

lemma TrimSuffix_append [simp]: "TrimSuffix (s @ p) p = s"
  by (simp add: TrimSuffix_def)

lemma length_nat_digits: "n < 10 ^ Suc k \<Longrightarrow> length (nat_digits n) \<le> Suc k"
proof (induction k arbitrary: n)
  case 0
  then show ?case by (simp add: nat_digits.simps [of n])
next
  case (Suc k)
  have "n div 10 < 10 ^ Suc k"
    using Suc.prems by (simp add: less_mult_imp_div_less)
  from Suc.IH [OF this] show ?case
    by (simp add: nat_digits.simps [of n])
qed

lemma decimal_value_zeros: "decimal_value (replicate n (CHR ''0'') @ s) = decimal_value s"
  by (induction n) (simp_all add: decimal_value_def digit_value_def)

lemma padded6_facts:
  assumes "0 \<le> i" "i < 1000000"
  shows "length (padded6 i) = 6" "ParseInt (padded6 i) = Some i" "CHR ''-'' \<notin> set (padded6 i)"
proof -
  have nat: "nat i < 10 ^ Suc 5" using assms by simp
  have digits: "Itoa i = nat_digits (nat i)" "length (nat_digits (nat i)) \<le> 6"
    using assms length_nat_digits [OF nat] by (simp_all add: Itoa_def)
  note shown = nat_digits_value [of "nat i"]
  then show "length (padded6 i) = 6"
    using assms digits by (simp add: padded6_def)
  have all: "list_all is_digit (padded6 i)"
    using assms shown by (auto simp: padded6_def digits(1) is_digit_def list_all_iff set_replicate_conv_if)
  then show dash: "CHR ''-'' \<notin> set (padded6 i)"
    by (auto simp: list_all_iff is_digit_def)
  have nonempty: "padded6 i \<noteq> []"
    using \<open>length (padded6 i) = 6\<close> by auto
  then have head: "hd (padded6 i) \<noteq> CHR ''-''" "hd (padded6 i) \<noteq> CHR ''+''"
    using all by (cases "padded6 i"; auto simp: is_digit_def)+
  have "decimal_value (padded6 i) = i"
    using assms shown by (simp add: padded6_def digits(1) decimal_value_zeros)
  then show "ParseInt (padded6 i) = Some i"
    using nonempty head all assms by (simp add: ParseInt_def Let_def in_int64_def)
qed

lemma padded6_reference:
  "0 \<le> i \<Longrightarrow> i < int maximumPlaylistReferences \<Longrightarrow> length (padded6 i) = 6 \<and> ParseInt (padded6 i) = Some i \<and> CHR ''-'' \<notin> set (padded6 i)"
  using padded6_facts [of i] by (simp add: maximumPlaylistReferences_def)

lemma segment_index:
  "0 \<le> i \<Longrightarrow> i < int maximumPlaylistReferences \<Longrightarrow>
     seekableHLSSegmentIndex (hlsSeekableSegmentPrefix @ padded6 i @ ''.ts'') (int maximumPlaylistReferences) = Some i"
  using padded6_reference [of i] by (simp add: seekableHLSSegmentIndex_def hasSuffix_append [of "_ @ _", simplified])

lemma segment_index_Some:
  assumes "seekableHLSSegmentIndex name segments = Some i"
  shows "0 \<le> i" "i < segments" "name = hlsSeekableSegmentPrefix @ padded6 i @ ''.ts''"
  using assms by (auto simp: seekableHLSSegmentIndex_def split: if_splits option.splits)

lemma split3:
  assumes "c \<notin> set a" "c \<notin> set b"
  shows "SplitN (a @ c # b @ c # d) c 3 = [a, b, d]"
proof -
  have before: "\<forall>x \<in> set a. x \<noteq> c" "\<forall>x \<in> set b. x \<noteq> c"
    using assms by blast+
  then have "takeWhile (\<lambda>x. x \<noteq> c) (a @ c # s) = a" "dropWhile (\<lambda>x. x \<noteq> c) (a @ c # s) = c # s"
    "takeWhile (\<lambda>x. x \<noteq> c) (b @ c # s) = b" "dropWhile (\<lambda>x. x \<noteq> c) (b @ c # s) = c # s" for s
    by (simp_all add: takeWhile_append dropWhile_append)
  then show ?thesis by (simp add: numeral_3_eq_3)
qed

lemma splitN_parts: "c \<in> set s \<Longrightarrow> takeWhile (\<lambda>x. x \<noteq> c) s @ c # tl (dropWhile (\<lambda>x. x \<noteq> c) s) = s"
  by (induction s) auto

lemma split3_parts:
  assumes "length (SplitN s c 3) = 3"
  shows "s = SplitN s c 3 ! 0 @ c # SplitN s c 3 ! 1 @ c # SplitN s c 3 ! 2"
proof -
  let ?t = "tl (dropWhile (\<lambda>x. x \<noteq> c) s)"
  have "c \<in> set s" "c \<in> set ?t"
    using assms by (auto simp: numeral_3_eq_3 split: if_splits)
  with splitN_parts [of c s] splitN_parts [of c ?t] show ?thesis
    by (simp add: numeral_3_eq_3 numeral_2_eq_2)
qed

lemma length_signature [simp]: "length (seekableDeliveryChildSignature handle i) = 16"
  by (simp add: seekableDeliveryChildSignature_def)

lemma seekable_state_of_id:
  assumes "0 \<le> i" "i < int maximumPlaylistReferences" "dh_childSigningKey handle \<noteq> replicate 32 (CHR 0x00)"
  shows "seekableDeliveryChildState (''hlsseek-'' @ padded6 i @ ''-'' @ EncodeToString (seekableDeliveryChildSignature handle i)) handle =
    Some \<lparr>ch_assetID = dh_assetID handle, ch_file = hlsSeekableSegmentPrefix @ padded6 i @ ''.ts'',
      ch_start = seekableStart i, ch_target = [], ch_signature = [], ch_retainWhileActive = True\<rparr>"
proof -
  note padded = padded6_reference [OF assms(1,2)]
  have "SplitN (''hlsseek-'' @ padded6 i @ ''-'' @ EncodeToString (seekableDeliveryChildSignature handle i)) (CHR ''-'') 3 =
      [''hlsseek'', padded6 i, EncodeToString (seekableDeliveryChildSignature handle i)]"
    using split3 [of "CHR ''-''" "''hlsseek''" "padded6 i"] padded by simp
  then show ?thesis
    using padded assms by (simp add: seekableDeliveryChildState_def)
qed

lemma seekable_forward:
  assumes "seekableDeliveryChildID state handle = Some childID"
  shows "seekableDeliveryChildState childID handle = Some (state\<lparr>ch_retainWhileActive := True\<rparr>)"
proof -
  from assms obtain i where i: "seekableHLSSegmentIndex (ch_file state) (int maximumPlaylistReferences) = Some i"
    and fields: "ch_assetID state = dh_assetID handle" "ch_target state = []" "ch_signature state = []" "ch_start state = seekableStart i"
    and key: "dh_childSigningKey handle \<noteq> replicate 32 (CHR 0x00)"
    and childID: "childID = ''hlsseek-'' @ padded6 i @ ''-'' @ EncodeToString (seekableDeliveryChildSignature handle i)"
    by (auto simp: seekableDeliveryChildID_def split: option.splits if_splits)
  show "seekableDeliveryChildState childID handle = Some (state\<lparr>ch_retainWhileActive := True\<rparr>)"
    unfolding childID seekable_state_of_id [OF segment_index_Some(1,2) [OF i] key]
    using fields segment_index_Some(3) [OF i] by simp
qed

lemma seekable_backward:
  assumes "seekableDeliveryChildState childID handle = Some resolved"
  shows "seekableDeliveryChildID resolved handle = Some childID"
proof -
  define parts where "parts = SplitN childID (CHR ''-'') 3"
  from assms obtain i where parts3: "length parts = 3" "parts ! 0 = ''hlsseek''" "parts ! 1 = padded6 i"
      "parts ! 2 = EncodeToString (seekableDeliveryChildSignature handle i)"
    and i: "0 \<le> i" "i < int maximumPlaylistReferences" and key: "dh_childSigningKey handle \<noteq> replicate 32 (CHR 0x00)"
    and state: "resolved = \<lparr>ch_assetID = dh_assetID handle, ch_file = hlsSeekableSegmentPrefix @ padded6 i @ ''.ts'',
      ch_start = seekableStart i, ch_target = [], ch_signature = [], ch_retainWhileActive = True\<rparr>"
    unfolding seekableDeliveryChildState_def Let_def parts_def [symmetric] by (auto split: if_splits option.splits)
  have "childID = ''hlsseek-'' @ padded6 i @ ''-'' @ EncodeToString (seekableDeliveryChildSignature handle i)"
    using split3_parts [of childID "CHR ''-''"] parts3 by (simp add: parts_def)
  then show "seekableDeliveryChildID resolved handle = Some childID"
    using segment_index [OF i] key by (simp add: seekableDeliveryChildID_def state)
qed

text \<open>
  C32. The signed identifier of a seekable segment needs no table. The identifier a handle gives out for
  a segment leads, in the same handle, back to that segment of the same asset at the same start; and
  whatever identifier a handle accepts is the one it gives out for the segment it leads to, so there is one
  identifier for a segment.
\<close>

theorem seekable_identifier_roundtrip:
  "(seekableDeliveryChildID state handle = Some childID \<longrightarrow>
      seekableDeliveryChildState childID handle = Some (state\<lparr>ch_retainWhileActive := True\<rparr>)) \<and>
   (seekableDeliveryChildState childID handle = Some resolved \<longrightarrow> seekableDeliveryChildID resolved handle = Some childID)"
  using seekable_forward seekable_backward by blast

lemma seekable_id_length: "seekableDeliveryChildID state handle = Some childID \<Longrightarrow> length childID = 37"
proof -
  assume "seekableDeliveryChildID state handle = Some childID"
  then obtain i where i: "seekableHLSSegmentIndex (ch_file state) (int maximumPlaylistReferences) = Some i"
    and "childID = ''hlsseek-'' @ padded6 i @ ''-'' @ EncodeToString (seekableDeliveryChildSignature handle i)"
    by (auto simp: seekableDeliveryChildID_def split: option.splits if_splits)
  then show ?thesis
    using padded6_reference [OF segment_index_Some(1,2) [OF i]] by (simp add: length_EncodeToString)
qed

definition exampleHandle :: DeliveryHandle where
  "exampleHandle = \<lparr>dh_sessionID = ''s'', dh_assetID = ''stream-1'', dh_token = ''t'', dh_defaultFile = ''master.m3u8'',
     dh_defaultStart = [], dh_children = Some 0, dh_assets = Some [''stream-1''], dh_childSigningKey = replicate 32 (CHR ''k'')\<rparr>"

theorem seekable_identifier_roundtrip_witness:
  "\<exists>childID. seekableDeliveryChildID \<lparr>ch_assetID = ''stream-1'', ch_file = ''seek-000002.ts'', ch_start = ''6'', ch_target = [],
       ch_signature = [], ch_retainWhileActive = False\<rparr> exampleHandle = Some childID \<and>
     seekableDeliveryChildState childID exampleHandle = Some \<lparr>ch_assetID = ''stream-1'', ch_file = ''seek-000002.ts'', ch_start = ''6'',
       ch_target = [], ch_signature = [], ch_retainWhileActive = True\<rparr>"
proof -
  let ?state = "\<lparr>ch_assetID = ''stream-1'', ch_file = ''seek-000002.ts'', ch_start = ''6'', ch_target = [],
       ch_signature = [], ch_retainWhileActive = False\<rparr>"
  have "seekableHLSSegmentIndex ''seek-000002.ts'' (int maximumPlaylistReferences) = Some 2"
    by code_simp
  moreover have "seekableStart 2 = ''6''" by code_simp
  ultimately obtain childID where childID: "seekableDeliveryChildID ?state exampleHandle = Some childID"
    by (simp add: seekableDeliveryChildID_def exampleHandle_def)
  with seekable_identifier_roundtrip [of ?state exampleHandle childID] show ?thesis by auto
qed

section \<open>Links lead back to their template\<close>

lemma Split_plain: "c \<notin> set p \<Longrightarrow> Split p c = [p]"
  by (induction p) auto

lemma Split_append: "c \<notin> set p \<Longrightarrow> Split (p @ c # s) c = p # Split s c"
  by (induction p) auto

lemma Split_nonempty: "Split s c \<noteq> []"
  by (induction s) (auto split: list.splits)

lemma Split_parts: "p \<in> set (Split s c) \<Longrightarrow> c \<notin> set p"
  by (induction s arbitrary: p) (auto split: list.splits if_splits)

lemma Split_join:
  "ps \<noteq> [] \<Longrightarrow> \<forall>p \<in> set ps. CHR ''/'' \<notin> set p \<Longrightarrow> Split (joinSlashes ps @ CHR ''/'' # s) (CHR ''/'') = ps @ Split s (CHR ''/'')"
  by (induction ps rule: joinSlashes.induct) (simp_all add: Split_append)

lemma hd_joinSlashes: "ps \<noteq> [] \<Longrightarrow> hd ps \<noteq> [] \<Longrightarrow> joinSlashes ps \<noteq> [] \<and> hd (joinSlashes ps) = hd (hd ps)"
  by (induction ps rule: joinSlashes.induct) auto

lemma trimSlashes_inside:
  assumes "s \<noteq> []" "hd s \<noteq> CHR ''/''" "last s \<noteq> CHR ''/''"
  shows "trimSlashes (CHR ''/'' # s) = s"
proof -
  have "dropWhile (\<lambda>c. c = CHR ''/'') s = s" "dropWhile (\<lambda>c. c = CHR ''/'') (rev s) = rev s"
    using assms by (simp_all add: dropWhile_eq_self_iff hd_rev)
  then show ?thesis by (simp add: trimSlashes_def)
qed

text \<open>The parts of a base path: \<open>Videos\<close> and an item, with \<open>emby\<close> before them or without.\<close>

definition itemPart :: "string \<Rightarrow> bool" where
  "itemPart p \<longleftrightarrow> p \<noteq> [] \<and> length p \<le> 128 \<and> p \<noteq> ''.'' \<and> p \<noteq> ''..''"

definition baseParts :: "string list \<Rightarrow> bool" where
  "baseParts ps \<longleftrightarrow> (\<forall>p \<in> set ps. CHR ''/'' \<notin> set p) \<and>
     (length ps = 2 \<and> EqualFold (ps ! 0) ''Videos'' \<and> itemPart (ps ! 1) \<or>
      length ps = 3 \<and> EqualFold (ps ! 0) ''emby'' \<and> EqualFold (ps ! 1) ''Videos'' \<and> itemPart (ps ! 2))"

lemma fold_length: "EqualFold s t \<Longrightarrow> length s = length t"
  by (metis EqualFold_def length_ToLower)

lemma not_both: "EqualFold s ''Videos'' \<Longrightarrow> \<not> EqualFold s ''emby''"
  by (auto dest!: fold_length)

lemma basePath_parts:
  assumes "deliveryVideoBasePath raw = Some base"
  shows "\<exists>ps. baseParts ps \<and> base = CHR ''/'' # joinSlashes ps"
proof -
  define parts where "parts = Split (trimSlashes raw) (CHR ''/'')"
  define k where "k = (if 3 \<le> length parts \<and> EqualFold (parts ! 0) ''emby'' then 1 else (0 :: nat))"
  have facts: "k + 1 < length parts" "EqualFold (parts ! k) ''Videos''" "itemPart (parts ! (k + 1))"
    "base = CHR ''/'' # joinSlashes (take (k + 2) parts)"
    using assms unfolding deliveryVideoBasePath_def Let_def parts_def [symmetric] k_def [symmetric]
    by (auto simp: itemPart_def split: if_splits)
  have "\<forall>p \<in> set (take (k + 2) parts). CHR ''/'' \<notin> set p"
    using Split_parts set_take_subset unfolding parts_def by fastforce
  moreover have "k = 1 \<Longrightarrow> EqualFold (parts ! 0) ''emby''" "k = 0 \<or> k = 1"
    by (auto simp: k_def split: if_splits)
  ultimately have "baseParts (take (k + 2) parts)"
    using facts(1-3) by (auto simp: baseParts_def numeral_2_eq_2)
  with facts(4) show ?thesis by blast
qed

lemma baseParts_facts:
  assumes "baseParts ps"
  shows "ps \<noteq> []" "hd ps \<noteq> []" "\<forall>p \<in> set ps. CHR ''/'' \<notin> set p" "length (joinSlashes ps) \<le> 150"
proof -
  have lens: "EqualFold s ''Videos'' \<Longrightarrow> length s = 6" "EqualFold s ''emby'' \<Longrightarrow> length s = 4" for s
    using fold_length by fastforce+
  from assms consider a b where "ps = [a, b]" "EqualFold a ''Videos''" "length b \<le> 128"
    | a b c where "ps = [a, b, c]" "EqualFold a ''emby''" "EqualFold b ''Videos''" "length c \<le> 128"
    by (auto simp: baseParts_def itemPart_def numeral_2_eq_2 numeral_3_eq_3 length_Suc_conv)
  then show "ps \<noteq> []" "hd ps \<noteq> []" "length (joinSlashes ps) \<le> 150"
    by (cases; use lens in fastforce)+
  show "\<forall>p \<in> set ps. CHR ''/'' \<notin> set p"
    using assms by (simp add: baseParts_def)
qed

lemma basePath_link:
  assumes ps: "baseParts ps" and s: "s \<noteq> []" "last s \<noteq> CHR ''/''"
  shows "deliveryVideoBasePath ((CHR ''/'' # joinSlashes ps) @ CHR ''/'' # s) = Some (CHR ''/'' # joinSlashes ps)"
proof -
  note facts = baseParts_facts [OF ps]
  have "hd (hd ps) \<noteq> CHR ''/''"
    using facts(1-3) by (metis hd_in_set)
  then have trim: "trimSlashes (CHR ''/'' # (joinSlashes ps @ CHR ''/'' # s)) = joinSlashes ps @ CHR ''/'' # s"
    using hd_joinSlashes [OF facts(1,2)] s by (intro trimSlashes_inside) (auto simp: hd_append)
  have split: "Split (trimSlashes ((CHR ''/'' # joinSlashes ps) @ CHR ''/'' # s)) (CHR ''/'') = ps @ Split s (CHR ''/'')"
    using trim Split_join [OF facts(1,3)] by simp
  obtain r rs where rest: "Split s (CHR ''/'') = r # rs"
    using Split_nonempty by (metis list.exhaust)
  from ps consider a b where "ps = [a, b]" "EqualFold a ''Videos''" "itemPart b"
    | a b c where "ps = [a, b, c]" "EqualFold a ''emby''" "EqualFold b ''Videos''" "itemPart c"
    by (auto simp: baseParts_def numeral_2_eq_2 numeral_3_eq_3 length_Suc_conv)
  then show ?thesis
    unfolding deliveryVideoBasePath_def Let_def split rest
    by cases (auto simp: not_both itemPart_def)
qed

lemma query_names:
  "EqualFold ''MediaSourceId'' ''PlaySessionId'' = False" "EqualFold ''PlaySessionId'' ''PlaySessionId'' = True"
  "EqualFold ''api_key'' ''PlaySessionId'' = False" "EqualFold ''RivuneChildId'' ''PlaySessionId'' = False"
  "EqualFold ''StartTimeTicks'' ''PlaySessionId'' = False"
  "EqualFold ''MediaSourceId'' ''MediaSourceId'' = True" "EqualFold ''PlaySessionId'' ''MediaSourceId'' = False"
  "EqualFold ''api_key'' ''MediaSourceId'' = False" "EqualFold ''RivuneChildId'' ''MediaSourceId'' = False"
  "EqualFold ''StartTimeTicks'' ''MediaSourceId'' = False"
  "EqualFold ''MediaSourceId'' ''StartTimeTicks'' = False" "EqualFold ''PlaySessionId'' ''StartTimeTicks'' = False"
  "EqualFold ''api_key'' ''StartTimeTicks'' = False" "EqualFold ''RivuneChildId'' ''StartTimeTicks'' = False"
  "EqualFold ''StartTimeTicks'' ''StartTimeTicks'' = True"
  "EqualFold ''MediaSourceId'' ''RivuneChildId'' = False" "EqualFold ''PlaySessionId'' ''RivuneChildId'' = False"
  "EqualFold ''api_key'' ''RivuneChildId'' = False" "EqualFold ''RivuneChildId'' ''RivuneChildId'' = True"
  "EqualFold ''StartTimeTicks'' ''RivuneChildId'' = False"
  by code_simp+

lemma child_query:
  "deliveryQueryScalar (ru_Query (childURL urlParse template childID state)) ''PlaySessionId'' = Inr (Some (lt_playSessionID template))"
  "deliveryQueryScalar (ru_Query (childURL urlParse template childID state)) ''MediaSourceId'' = Inr (Some (lt_mediaSourceID template))"
  "deliveryQueryScalar (ru_Query (childURL urlParse template childID state)) ''StartTimeTicks'' =
     Inr (if lt_startTimeTicks template = [] then None else Some (lt_startTimeTicks template))"
  "deliveryQueryScalar (ru_Query (childURL urlParse template childID state)) deliveryChildQueryName = Inr (Some childID)"
  "map_of (ru_Query (childURL urlParse template childID state)) ''api_key'' = Some [lt_playSessionID template]"
  by (simp_all add: childURL_def deliveryQueryScalar_def deliveryChildQueryName_def query_names Let_def)

text \<open>What \<open>newDeliveryLinkTemplate\<close> accepts.\<close>

definition templateOk :: "deliveryLinkTemplate \<Rightarrow> bool" where
  "templateOk t \<longleftrightarrow> (\<exists>ps. baseParts ps \<and> lt_path t = CHR ''/'' # joinSlashes ps) \<and>
     lt_playSessionID t \<noteq> [] \<and> length (lt_playSessionID t) \<le> 128 \<and> lt_mediaSourceID t \<noteq> [] \<and> length (lt_mediaSourceID t) \<le> 128 \<and>
     (lt_startTimeTicks t = [] \<or> (\<exists>n. 0 \<le> n \<and> in_int64 n \<and> lt_startTimeTicks t = Itoa n))"

lemma ParseInt_range: "ParseInt s = Some n \<Longrightarrow> in_int64 n"
  by (auto simp: ParseInt_def Let_def split: if_splits)

lemma template_ok:
  assumes "newDeliveryLinkTemplate url = Inr t"
  shows "templateOk t"
  using assms unfolding newDeliveryLinkTemplate_def Let_def
  by (auto split: option.splits sum.splits if_splits simp: not_less templateOk_def dest: basePath_parts ParseInt_range)

lemma length_PathEscape: "length (PathEscape s) \<le> 3 * length s"
  by (induction s) (auto simp: PathEscape_def)

lemma extension_ok:
  "deliveryChildExtension urlParse state \<noteq> [] \<and> length (deliveryChildExtension urlParse state) \<le> 12 \<and>
     (\<forall>c \<in> set (deliveryChildExtension urlParse state). c \<noteq> CHR ''/'')"
  by (auto simp: deliveryChildExtension_def Let_def list_ex_iff)

lemma child_path:
  assumes "length childID \<le> maximumDeliveryChildIDLength" "length (lt_playSessionID template) \<le> 128"
  shows "\<exists>s. ru_Path (childURL urlParse template childID state) = lt_path template @ CHR ''/'' # s \<and> s \<noteq> [] \<and> last s \<noteq> CHR ''/'' \<and> length s \<le> 600"
proof (cases "ch_file state = ''index.m3u8'' \<and> ch_target state = [] \<and> ch_signature state = []")
  case True
  then show ?thesis by (intro exI [of _ "''main.m3u8''"]) (simp add: childURL_def)
next
  case False
  let ?s = "''hls1/'' @ PathEscape (lt_playSessionID template) @ ''/'' @ PathEscape childID @ ''.'' @ deliveryChildExtension urlParse state"
  have "length ?s \<le> 600"
    using assms length_PathEscape [of "lt_playSessionID template"] length_PathEscape [of childID] extension_ok [of urlParse state]
    by (simp add: maximumDeliveryChildIDLength_def)
  moreover have "last ?s \<noteq> CHR ''/''"
    using extension_ok [of urlParse state] last_in_set by fastforce
  moreover have "ru_Path (childURL urlParse template childID state) = lt_path template @ CHR ''/'' # ?s"
    using False by (auto simp: childURL_def)
  ultimately show ?thesis by blast
qed

lemma TrimSpace_plain: "\<forall>c \<in> set s. \<not> go_space c \<Longrightarrow> TrimSpace s = s"
proof -
  assume plain: "\<forall>c \<in> set s. \<not> go_space c"
  have "dropWhile go_space t = t" if "set t = set s" for t
    using plain that by (cases t) auto
  then show ?thesis by (simp add: TrimSpace_def)
qed

lemma template_of_child:
  assumes ok: "templateOk template" and plain: "\<forall>c \<in> set (lt_playSessionID template). \<not> go_space c"
    and id: "length childID \<le> maximumDeliveryChildIDLength"
  shows "newDeliveryLinkTemplate (Some (childURL urlParse template childID state)) = Inr template"
proof -
  let ?url = "childURL urlParse template childID state"
  obtain ps where ps: "baseParts ps" "lt_path template = CHR ''/'' # joinSlashes ps"
    using ok by (auto simp: templateOk_def)
  have play: "lt_playSessionID template \<noteq> []" "length (lt_playSessionID template) \<le> 128"
    and media: "lt_mediaSourceID template \<noteq> []" "length (lt_mediaSourceID template) \<le> 128"
    using ok by (simp_all add: templateOk_def)
  obtain s where s: "ru_Path ?url = lt_path template @ CHR ''/'' # s" "s \<noteq> []" "last s \<noteq> CHR ''/''" "length s \<le> 600"
    using child_path [OF id play(2), of urlParse state] by blast
  have base: "deliveryVideoBasePath (ru_Path ?url) = Some (lt_path template)"
    using basePath_link [OF ps(1) s(2,3)] by (simp add: s(1) ps(2))
  have length: "ru_Path ?url \<noteq> []" "length (ru_Path ?url) \<le> 2048"
    using baseParts_facts(4) [OF ps(1)] s(4) by (simp_all add: s(1) ps(2))
  have credential: "TrimSpace (lt_playSessionID template) = lt_playSessionID template"
      "\<not> list_ex (\<lambda>c. c \<in> {CHR 0x0D, CHR 0x0A, CHR 0x09, CHR '' ''}) (lt_playSessionID template)"
    using TrimSpace_plain [OF plain] plain by (auto simp: list_ex_iff go_space_def)
  have "lt_startTimeTicks template \<noteq> [] \<Longrightarrow> \<exists>n. ParseInt (lt_startTimeTicks template) = Some n \<and> 0 \<le> n \<and> Itoa n = lt_startTimeTicks template \<and>
      length (lt_startTimeTicks template) \<le> maximumDeliveryStartTicksLength"
  proof -
    assume "lt_startTimeTicks template \<noteq> []"
    then obtain n where n: "0 \<le> n" "in_int64 n" "lt_startTimeTicks template = Itoa n"
      using ok by (auto simp: templateOk_def)
    have "length (nat_digits (nat n)) \<le> Suc 18"
      by (rule length_nat_digits) (use n in \<open>simp add: in_int64_def\<close>)
    with n show ?thesis
      using ParseInt_Itoa [OF n(2)] by (auto simp: maximumDeliveryStartTicksLength_def Itoa_def)
  qed
  then have ticks: "(case (if lt_startTimeTicks template = [] then None else Some (lt_startTimeTicks template)) of None \<Rightarrow> Some []
      | Some raw \<Rightarrow> if raw = [] \<or> maximumDeliveryStartTicksLength < length raw then None
          else (case ParseInt raw of None \<Rightarrow> None | Some parsed \<Rightarrow> if parsed < 0 then None else Some (Itoa parsed))) =
      Some (lt_startTimeTicks template)"
    by (cases "lt_startTimeTicks template = []") auto
  show ?thesis
    unfolding newDeliveryLinkTemplate_def option.case base child_query sum.case Let_def ticks
    using play media length credential by (simp add: maximumDeliveryCompatTokenLength_def)
qed

text \<open>An identifier of a table entry is never taken for a signed one.\<close>

lemma entry_id_length:
  assumes ok: "deliveryOk g p s" and i: "i < length (ds_tables s)" and time: "ds_clock s \<le> now"
    and resolved: "resolveChild childID i now (memoryOf i s) = Returns (Some state, m)"
  shows "length childID = 32"
proof -
  have well: "tableWell (ds_clock s) (ds_tables s ! i)"
    using ok i by (simp add: deliveryOk_def)
  from resolve_answer [OF ok i time, of childID] resolved obtain e where
    "map_of (tb_entries (ds_tables s ! i)) childID = Some e"
    by (auto split: option.splits if_splits)
  from tableWellD(5) [OF well map_of_SomeD [OF this]] show ?thesis by simp
qed

lemma touch_alive:
  assumes ok: "deliveryOk g p s" and i: "i < length (ds_tables s)" and time: "ds_clock s \<le> now" and alive: "\<not> tb_closed (ds_tables s ! i)"
  shows "\<exists>m. touchActivity i now (memoryOf i s) = Returns (True, m)"
proof -
  have "fst (memoryOf i s) = ds_tables s ! i" by (simp add: memoryOf_def)
  moreover obtain t b where "expireLocked i now (memoryOf i s) = Returns (t, b)"
    using expireLocked_ok [OF section_starts [OF ok i, unfolded sectionOk_def] time] by auto
  ultimately show ?thesis
    using alive by (simp add: touchActivity_def)
qed

section \<open>Properties\<close>

text \<open>
  C33. A child link leads to its child. Take a link that a request has been given for a child of a handle,
  by a signed identifier or by one its table still resolves, in a play session whose identifier has no
  white space, and an open table in any reachable state: a request for the link is accepted, with the same
  link template as the request it comes from, so its own links are as good; and it is served as exactly the
  file, start, asset, target and signature the link was made for.
\<close>

theorem child_link_leads_to_child:
  assumes reach: "delivery_step\<^sup>*\<^sup>* (startDeliveries g p) s" and limits: "0 \<le> g" "0 \<le> p"
    and table: "i < length (ds_tables s)" "\<not> tb_closed (ds_tables s ! i)" and time: "ds_clock s \<le> now"
    and request: "newDeliveryLinkTemplate url = Inr template" "\<forall>c \<in> set (lt_playSessionID template). \<not> go_space c"
    and child: "seekableDeliveryChildID state handle = Some childID \<or>
      (\<exists>m. resolveChild childID i now (memoryOf i s) = Returns (Some state, m))"
  shows "\<exists>m. requestForDelivery handle (Some (childURL urlParse template childID state)) i now (memoryOf i s) =
    Returns (Inr \<lparr>dr_query = (if ch_file state \<noteq> [] then [(''file'', [ch_file state])] else []) @
          (if ch_start state \<noteq> [] then [(''start'', [ch_start state])] else []),
        dr_assetID = ch_assetID state, dr_target = ch_target state, dr_signature = ch_signature state,
        dr_template = template, dr_child = True\<rparr>, m)"
proof (cases "\<exists>m. resolveChild childID i now (memoryOf i s) = Returns (Some state, m)")
  case True
  then obtain m where resolved: "resolveChild childID i now (memoryOf i s) = Returns (Some state, m)" ..
  note length = entry_id_length [OF reachable_ok [OF assms(1-3)] table(1) time resolved]
  have link: "newDeliveryLinkTemplate (Some (childURL urlParse template childID state)) = Inr template"
    by (rule template_of_child [OF template_ok [OF request(1)] request(2)]) (simp add: length maximumDeliveryChildIDLength_def)
  have "seekableDeliveryChildState childID handle = None"
    using seekable_id_length [OF seekable_backward] length by (cases "seekableDeliveryChildState childID handle") fastforce+
  with resolved link show ?thesis
    by (simp add: requestForDelivery_def Let_def child_query)
next
  case False
  with child have id: "seekableDeliveryChildID state handle = Some childID" by blast
  have link: "newDeliveryLinkTemplate (Some (childURL urlParse template childID state)) = Inr template"
    by (rule template_of_child [OF template_ok [OF request(1)] request(2)])
      (simp add: seekable_id_length [OF id] maximumDeliveryChildIDLength_def)
  with touch_alive [OF reachable_ok [OF assms(1-3)] table(1) time table(2)] seekable_forward [OF id] show ?thesis
    by (auto simp: requestForDelivery_def Let_def child_query)
qed

definition exampleRequest :: requestURL where
  "exampleRequest = \<lparr>ru_Path = ''/emby/Videos/item-1/master.m3u8'',
     ru_Query = [(''playsessionid'', [''s-1'']), (''MediaSourceId'', [''m-1'']), (''StartTimeTicks'', [''+070''])]\<rparr>"

lemma example_template:
  "newDeliveryLinkTemplate (Some exampleRequest) =
     Inr \<lparr>lt_path = ''/emby/Videos/item-1'', lt_playSessionID = ''s-1'', lt_mediaSourceID = ''m-1'', lt_startTimeTicks = ''70''\<rparr>"
  by code_simp

theorem child_link_leads_to_child_witness:
  "\<exists>m. requestForDelivery exampleHandle (Some (childURL (\<lambda>_. None)
       \<lparr>lt_path = ''/emby/Videos/item-1'', lt_playSessionID = ''s-1'', lt_mediaSourceID = ''m-1'', lt_startTimeTicks = ''70''\<rparr>
       (EncodeToString exampleRandom) exampleChild)) 0 100 (memoryOf 0 deliveryRegistered) =
     Returns (Inr \<lparr>dr_query = [(''file'', [''index.m3u8''])], dr_assetID = ''stream-1'', dr_target = [], dr_signature = [],
       dr_template = \<lparr>lt_path = ''/emby/Videos/item-1'', lt_playSessionID = ''s-1'', lt_mediaSourceID = ''m-1'', lt_startTimeTicks = ''70''\<rparr>,
       dr_child = True\<rparr>, m)"
proof -
  note ok = reachable_ok [OF delivery_registered_reachable(2) limits_positive]
  have i: "0 < length (ds_tables deliveryRegistered)" "\<not> tb_closed (ds_tables deliveryRegistered ! 0)"
    and time: "ds_clock deliveryRegistered \<le> 100"
    by (simp_all add: registered_state(2,3) registered_table(3))
  have "map_of (tb_entries (ds_tables deliveryRegistered ! 0)) (EncodeToString exampleRandom) = Some \<lparr>ce_state = exampleChild, ce_activeAt = 2\<rparr>"
    and "100 < childExpiresAt (ds_tables deliveryRegistered ! 0) \<lparr>ce_state = exampleChild, ce_activeAt = 2\<rparr>"
    by (simp_all add: registered_table(1,2) childExpiresAt_def deliveryChildTTL_def)
  then have "\<exists>m. resolveChild (EncodeToString exampleRandom) 0 100 (memoryOf 0 deliveryRegistered) = Returns (Some exampleChild, m)"
    using resolve_answer [OF ok i(1) time, of "EncodeToString exampleRandom"] by simp
  then show ?thesis
    using child_link_leads_to_child [OF delivery_registered_reachable(2) limits_positive i time example_template, of exampleChild exampleHandle
        "EncodeToString exampleRandom" "\<lambda>_. None"]
    by (simp add: exampleChild_def go_space_def)
qed

end
