(* ===== verification/Play_Cleanup.thy ===== *)
theory Play_Cleanup
  imports Delivery_Links
begin

text \<open>
  The close queue of the Jellyfin play sessions (\<open>jellyfin/registry.go\<close>). The registry reserves a place
  before it opens a delivery, owns the handle that the open returns, and keeps a handle that is not used
  any more in a queue until its native session is closed or the time for retries is over. The mutex
  \<open>cleanupMu\<close> makes each method one step; the workers that call \<open>Close\<close> are the jobs of the system. A
  \<open>*pendingPlaySessionClose\<close> is a position in \<open>cu_items\<close>, as a worker keeps its pointer when the queue has
  dropped the item. The times are what the callers read before they took the lock: any instants.
\<close>

section \<open>State\<close>

record pendingPlaySessionClose =
  pc_principal :: Principal
  pc_handle :: DeliveryHandle
  pc_attempts :: "32 word"
  pc_nextAttempt :: int
  pc_deadline :: int
  pc_claimed :: bool

record playCleanup =
  cu_items :: "pendingPlaySessionClose list"
  cu_pending :: "(DeliveryHandle \<times> nat) list"
  cu_owned :: "DeliveryHandle list"
  cu_reservations :: int
  cu_retiring :: bool
  cu_abandoned :: bool
  cu_wake :: bool

text \<open>The fields of the registry that configure the queue; a value that is not positive means the default.\<close>

record cleanupSettings =
  cq_queueLimit :: int
  cq_retryBase :: int
  cq_retryMax :: int
  cq_retryTTL :: int

definition defaultPlaySessionCleanupRetryBase :: int where
  "defaultPlaySessionCleanupRetryBase = 100 * 1000000"

definition defaultPlaySessionCleanupRetryMax :: int where
  "defaultPlaySessionCleanupRetryMax = 30 * 1000000000"

definition defaultPlaySessionCleanupRetryTTL :: int where
  "defaultPlaySessionCleanupRetryTTL = 10 * 60 * 1000000000"

definition defaultPlaySessionCleanupQueueLimit :: int where
  "defaultPlaySessionCleanupQueueLimit = 4096"

definition newPlayCleanup :: playCleanup where
  "newPlayCleanup = \<lparr>cu_items = [], cu_pending = [], cu_owned = [], cu_reservations = 0, cu_retiring = False,
     cu_abandoned = False, cu_wake = False\<rparr>"

definition cleanupLimitLocked :: "cleanupSettings \<Rightarrow> int" where
  "cleanupLimitLocked settings =
     (if 0 < cq_queueLimit settings then cq_queueLimit settings else defaultPlaySessionCleanupQueueLimit)"

definition cleanupTTL :: "cleanupSettings \<Rightarrow> int" where
  "cleanupTTL settings = (if cq_retryTTL settings \<le> 0 then defaultPlaySessionCleanupRetryTTL else cq_retryTTL settings)"

section \<open>Places for handles\<close>

definition reserveCleanupHandle :: "cleanupSettings \<Rightarrow> playCleanup \<Rightarrow> bool \<times> playCleanup" where
  "reserveCleanupHandle settings s =
     (if cu_retiring s then (False, s)
      else if cleanupLimitLocked settings \<le> int (length (cu_owned s)) + cu_reservations s then (False, s)
      else (True, s\<lparr>cu_reservations := cu_reservations s + 1\<rparr>))"

definition bindCleanupHandle :: "DeliveryHandle \<Rightarrow> playCleanup \<Rightarrow> playCleanup" where
  "bindCleanupHandle handle s =
     s\<lparr>cu_reservations := (if 0 < cu_reservations s then cu_reservations s - 1 else cu_reservations s),
       cu_owned := (if validHandle handle then List.insert handle (cu_owned s) else cu_owned s),
       cu_wake := True\<rparr>"

section \<open>The queue\<close>

definition dropClose :: "DeliveryHandle \<Rightarrow> playCleanup \<Rightarrow> playCleanup" where
  "dropClose handle s = s\<lparr>cu_pending := AList.delete handle (cu_pending s), cu_owned := removeAll handle (cu_owned s)\<rparr>"

text \<open>The first loop of \<open>claimCleanup\<close>.\<close>

definition dropOverdue :: "int \<Rightarrow> playCleanup \<Rightarrow> playCleanup" where
  "dropOverdue now s =
     fold (\<lambda>(handle, p) u. if now < pc_deadline (cu_items s ! p) then u else dropClose handle u) (cu_pending s) s"

text \<open>The second loop, for one candidate.\<close>

definition adoptClose :: "int \<Rightarrow> int \<Rightarrow> Principal \<times> DeliveryHandle \<Rightarrow> playCleanup \<Rightarrow> playCleanup" where
  "adoptClose ttl now candidate s =
     (case candidate of (caller, handle) \<Rightarrow>
        if \<not> validHandle handle then s
        else if map_of (cu_pending s) handle \<noteq> None then s
        else s\<lparr>cu_owned := List.insert handle (cu_owned s),
          cu_pending := cu_pending s @ [(handle, length (cu_items s))],
          cu_items := cu_items s @ [\<lparr>pc_principal = caller, pc_handle = handle, pc_attempts = 0, pc_nextAttempt = now,
            pc_deadline = now + ttl, pc_claimed = False\<rparr>]\<rparr>)"

text \<open>The third loop, over the queue as it is then.\<close>

fun claimLoop :: "int \<Rightarrow> bool \<Rightarrow> (DeliveryHandle \<times> nat) list \<Rightarrow> playCleanup \<Rightarrow> nat list \<Rightarrow> playCleanup \<times> nat list" where
  "claimLoop now force [] s claimed = (s, claimed)"
| "claimLoop now force ((handle, p) # rest) s claimed =
     (let item = cu_items s ! p
      in if \<not> now < pc_deadline item then claimLoop now force rest (dropClose handle s) claimed
         else if pc_claimed item \<or> \<not> force \<and> now < pc_nextAttempt item then claimLoop now force rest s claimed
         else claimLoop now force rest (s\<lparr>cu_items := (cu_items s)[p := item\<lparr>pc_claimed := True\<rparr>]\<rparr>) (claimed @ [p]))"

definition claimCleanup ::
  "cleanupSettings \<Rightarrow> (Principal \<times> DeliveryHandle) list \<Rightarrow> int \<Rightarrow> bool \<Rightarrow> playCleanup \<Rightarrow> playCleanup \<times> nat list" where
  "claimCleanup settings candidates now force s =
     (let adopted = fold (adoptClose (cleanupTTL settings) now) candidates (dropOverdue now s)
      in claimLoop now force (cu_pending adopted) adopted [])"

text \<open>The loop of \<open>cleanupRetryDelay\<close>: \<open>n\<close> is the distance of the counter from \<open>attempt\<close>.\<close>

fun retryLoop :: "nat \<Rightarrow> int \<Rightarrow> int \<Rightarrow> int" where
  "retryLoop 0 delay maximum = min delay maximum"
| "retryLoop (Suc n) delay maximum =
     (if delay < maximum
      then (if go_div maximum 2 < delay then maximum else retryLoop n (wrap64 (delay * 2)) maximum)
      else min delay maximum)"

definition retryBase :: "cleanupSettings \<Rightarrow> int" where
  "retryBase settings = (if cq_retryBase settings \<le> 0 then defaultPlaySessionCleanupRetryBase else cq_retryBase settings)"

definition retryMaximum :: "cleanupSettings \<Rightarrow> int" where
  "retryMaximum settings = (if cq_retryMax settings \<le> 0 then defaultPlaySessionCleanupRetryMax else cq_retryMax settings)"

definition cleanupRetryDelay :: "cleanupSettings \<Rightarrow> 32 word \<Rightarrow> int" where
  "cleanupRetryDelay settings attempt = retryLoop (unat attempt - 1) (retryBase settings) (retryMaximum settings)"

text \<open>\<open>finishCleanup\<close> of the item at \<open>p\<close>.\<close>

definition finishCleanup :: "cleanupSettings \<Rightarrow> nat \<Rightarrow> playback_error option \<Rightarrow> int \<Rightarrow> playCleanup \<Rightarrow> playCleanup" where
  "finishCleanup settings p closeErr now s =
     (let item = cu_items s ! p; woken = s\<lparr>cu_wake := True\<rparr>
      in if map_of (cu_pending s) (pc_handle item) \<noteq> Some p then woken
         else if (case closeErr of None \<Rightarrow> True | Some e \<Rightarrow> errorIs e ErrSessionNotFound) \<or> cu_abandoned s \<or>
             \<not> now < pc_deadline item
         then dropClose (pc_handle item) woken
         else let attempts = pc_attempts item + 1; nextAttempt = now + cleanupRetryDelay settings attempts
           in woken\<lparr>cu_items := (cu_items s)[p := item\<lparr>pc_claimed := False, pc_attempts := attempts,
                pc_nextAttempt := (if pc_deadline item < nextAttempt then pc_deadline item else nextAttempt)\<rparr>]\<rparr>)"

definition nextCleanupAttempt :: "playCleanup \<Rightarrow> int option \<times> bool" where
  "nextCleanupAttempt s =
     (fold (\<lambda>(handle, p) earliest.
         if pc_claimed (cu_items s ! p) then earliest
         else (case earliest of None \<Rightarrow> Some (pc_nextAttempt (cu_items s ! p))
           | Some instant \<Rightarrow> if pc_nextAttempt (cu_items s ! p) < instant then Some (pc_nextAttempt (cu_items s ! p)) else earliest))
       (cu_pending s) None,
      cu_pending s \<noteq> [] \<or> cu_retiring s \<and> (cu_owned s \<noteq> [] \<or> 0 < cu_reservations s))"

definition retireCleanup :: "playCleanup \<Rightarrow> playCleanup" where
  "retireCleanup s = s\<lparr>cu_retiring := True\<rparr>"

definition abandonCleanup :: "playCleanup \<Rightarrow> playCleanup" where
  "abandonCleanup s = s\<lparr>cu_pending := [], cu_owned := [], cu_reservations := 0, cu_abandoned := True\<rparr>"

section \<open>The system\<close>

text \<open>
  \<open>cy_opening\<close> counts the opens between their reservation and the binding of their handle, \<open>cy_live\<close> holds
  the handles that were bound and not yet given to the queue (in a source of an entry, or with the open
  that returned them), \<open>cy_jobs\<close> the claimed items whose \<open>Close\<close> has not returned.
\<close>

record cleanupSystem =
  cy_queue :: playCleanup
  cy_opening :: nat
  cy_live :: "DeliveryHandle list"
  cy_jobs :: "nat list"

definition startCleanup :: cleanupSystem where
  "startCleanup = \<lparr>cy_queue = newPlayCleanup, cy_opening = 0, cy_live = [], cy_jobs = []\<rparr>"

text \<open>
  An open returns a handle no one has (its native session is new) or an invalid one; a handle is given to
  the queue once. The order of a Go map is any (\<open>reorders\<close>); \<open>abandonCleanup\<close> comes after \<open>closeAll\<close>.
\<close>

inductive cleanup_step :: "cleanupSettings \<Rightarrow> cleanupSystem \<Rightarrow> cleanupSystem \<Rightarrow> bool" for settings where
  reserves: "reserveCleanupHandle settings (cy_queue s) = (True, after) \<Longrightarrow>
    cleanup_step settings s (s\<lparr>cy_queue := after, cy_opening := cy_opening s + 1\<rparr>)"
| binds: "0 < cy_opening s \<Longrightarrow> handle \<notin> set (cy_live s) \<Longrightarrow> handle \<notin> set (cu_owned (cy_queue s)) \<Longrightarrow>
    cleanup_step settings s (s\<lparr>cy_queue := bindCleanupHandle handle (cy_queue s), cy_opening := cy_opening s - 1,
      cy_live := (if validHandle handle then cy_live s @ [handle] else cy_live s)\<rparr>)"
| claims: "set (map snd candidates) \<subseteq> set (cy_live s) \<Longrightarrow>
    claimCleanup settings candidates now force (cy_queue s) = (after, claimed) \<Longrightarrow>
    cleanup_step settings s (s\<lparr>cy_queue := after, cy_jobs := cy_jobs s @ claimed,
      cy_live := filter (\<lambda>h. h \<notin> set (map snd candidates)) (cy_live s)\<rparr>)"
| finishes: "k < length (cy_jobs s) \<Longrightarrow>
    cleanup_step settings s (s\<lparr>cy_queue := finishCleanup settings (cy_jobs s ! k) closeErr now (cy_queue s),
      cy_jobs := take k (cy_jobs s) @ drop (Suc k) (cy_jobs s)\<rparr>)"
| retires: "cleanup_step settings s (s\<lparr>cy_queue := retireCleanup (cy_queue s)\<rparr>)"
| abandons: "cu_retiring (cy_queue s) \<Longrightarrow> cleanup_step settings s (s\<lparr>cy_queue := abandonCleanup (cy_queue s)\<rparr>)"
| reorders: "mset queue = mset (cu_pending (cy_queue s)) \<Longrightarrow>
    cleanup_step settings s (s\<lparr>cy_queue := (cy_queue s)\<lparr>cu_pending := queue\<rparr>\<rparr>)"

section \<open>The delay before a retry\<close>

lemma retryBase_positive: "0 < retryBase settings"
  by (simp add: retryBase_def defaultPlaySessionCleanupRetryBase_def)

lemma retryMaximum_positive: "0 < retryMaximum settings"
  by (simp add: retryMaximum_def defaultPlaySessionCleanupRetryMax_def)

lemma retryLoop_doubles:
  assumes "0 < maximum" "in_int64 maximum" "0 < delay"
  shows "retryLoop n delay maximum = min maximum (delay * 2 ^ n)"
  using assms(3)
proof (induction n arbitrary: delay)
  case (Suc n)
  have half: "go_div maximum 2 = maximum div 2"
    using assms(1) by simp
  have grows: "delay \<le> delay * 2 ^ k" for k
    using Suc.prems by (simp add: mult_le_cancel_left1)
  consider "maximum \<le> delay" | "delay < maximum" "maximum div 2 < delay" | "delay < maximum" "delay \<le> maximum div 2"
    by linarith
  then show ?case
  proof cases
    case 1
    with grows [of "Suc n"] show ?thesis by simp
  next
    case 2
    then have "maximum < delay * 2" by linarith
    also have "\<dots> \<le> delay * 2 ^ Suc n" using grows [of n] by simp
    finally show ?thesis using 2 half by simp
  next
    case 3
    then have double: "delay * 2 \<le> maximum" by linarith
    have "in_int64 (delay * 2)"
      using double assms(2) Suc.prems by (simp add: in_int64_def)
    then show ?thesis
      using 3 half Suc.IH [of "delay * 2"] Suc.prems by simp
  qed
qed (simp add: min.commute)

text \<open>
  The delay before a retry doubles. Whatever the settings, the delay after the \<open>n\<close>-th failed attempt is
  the base delay times \<open>2\<close> to the power of \<open>n - 1\<close>, or the maximum where that is larger; the doubling never
  overflows \<open>time.Duration\<close>, the delay is positive and at most the maximum, and it never gets shorter.
\<close>

theorem cleanupRetryDelay_doubles:
  assumes "in_int64 (cq_retryMax settings)"
  shows "cleanupRetryDelay settings attempt = min (retryMaximum settings) (retryBase settings * 2 ^ (unat attempt - 1)) \<and>
    0 < cleanupRetryDelay settings attempt \<and> cleanupRetryDelay settings attempt \<le> retryMaximum settings \<and>
    (attempt \<le> later \<longrightarrow> cleanupRetryDelay settings attempt \<le> cleanupRetryDelay settings later)"
proof -
  have "in_int64 (retryMaximum settings)"
    using assms by (simp add: retryMaximum_def in_int64_def defaultPlaySessionCleanupRetryMax_def)
  from retryLoop_doubles [OF retryMaximum_positive this retryBase_positive]
  have delay: "cleanupRetryDelay settings a = min (retryMaximum settings) (retryBase settings * 2 ^ (unat a - 1))" for a
    by (simp add: cleanupRetryDelay_def)
  have mono: "cleanupRetryDelay settings attempt \<le> cleanupRetryDelay settings later" if "attempt \<le> later"
    unfolding delay using that retryBase_positive [of settings]
    by (intro min.mono order_refl mult_left_mono power_increasing) (simp_all add: word_le_nat_alt diff_le_mono)
  have "0 < retryBase settings * 2 ^ (unat attempt - 1)"
    using retryBase_positive [of settings] by simp
  then show ?thesis
    using retryMaximum_positive [of settings] mono unfolding delay by simp
qed

theorem cleanupRetryDelay_doubles_witness:
  "cleanupRetryDelay \<lparr>cq_queueLimit = 0, cq_retryBase = 0, cq_retryMax = 0, cq_retryTTL = 0\<rparr> 4 = 800000000"
  using cleanupRetryDelay_doubles [of "\<lparr>cq_queueLimit = 0, cq_retryBase = 0, cq_retryMax = 0, cq_retryTTL = 0\<rparr>" 4 4]
  by (simp add: in_int64_def retryMaximum_def retryBase_def defaultPlaySessionCleanupRetryMax_def
      defaultPlaySessionCleanupRetryBase_def)

section \<open>The invariant of the queue\<close>

definition queued :: "playCleanup \<Rightarrow> DeliveryHandle set" where
  "queued q = fst ` set (cu_pending q)"

definition itemOk :: "playCleanup \<Rightarrow> nat list \<Rightarrow> DeliveryHandle \<times> nat \<Rightarrow> bool" where
  "itemOk q jobs entry \<longleftrightarrow> snd entry < length (cu_items q) \<and> pc_handle (cu_items q ! snd entry) = fst entry \<and>
     validHandle (fst entry) \<and> pc_nextAttempt (cu_items q ! snd entry) \<le> pc_deadline (cu_items q ! snd entry) \<and>
     (pc_claimed (cu_items q ! snd entry) \<longrightarrow> snd entry \<in> set jobs)"

definition queueOk :: "cleanupSettings \<Rightarrow> nat \<Rightarrow> DeliveryHandle set \<Rightarrow> nat list \<Rightarrow> playCleanup \<Rightarrow> bool" where
  "queueOk settings opens live jobs q \<longleftrightarrow>
     distinct (cu_owned q) \<and> distinct (map fst (cu_pending q)) \<and> (\<forall>entry \<in> set (cu_pending q). itemOk q jobs entry) \<and>
     queued q \<subseteq> set (cu_owned q) \<and> queued q \<inter> live = {} \<and> finite live \<and> (\<forall>h \<in> live. validHandle h) \<and>
     (\<not> cu_abandoned q \<longrightarrow> set (cu_owned q) = live \<union> queued q) \<and>
     int (card (set (cu_owned q) \<union> live)) + int opens \<le> cleanupLimitLocked settings \<and>
     cu_reservations q = (if cu_abandoned q then 0 else int opens) \<and> (cu_abandoned q \<longrightarrow> cu_retiring q) \<and>
     distinct jobs \<and> (\<forall>p \<in> set jobs. p < length (cu_items q) \<and> pc_claimed (cu_items q ! p))"

lemma queueOkD:
  assumes "queueOk settings opens live jobs q"
  shows "distinct (cu_owned q)" "distinct (map fst (cu_pending q))" "entry \<in> set (cu_pending q) \<Longrightarrow> itemOk q jobs entry"
    "queued q \<subseteq> set (cu_owned q)" "queued q \<inter> live = {}" "\<not> cu_abandoned q \<Longrightarrow> set (cu_owned q) = live \<union> queued q"
    "int (card (set (cu_owned q) \<union> live)) + int opens \<le> cleanupLimitLocked settings"
    "cu_reservations q = (if cu_abandoned q then 0 else int opens)" "cu_abandoned q \<Longrightarrow> cu_retiring q" "distinct jobs"
    "p \<in> set jobs \<Longrightarrow> p < length (cu_items q)" "p \<in> set jobs \<Longrightarrow> pc_claimed (cu_items q ! p)" "finite live"
    "h \<in> live \<Longrightarrow> validHandle h"
  using assms unfolding queueOk_def by blast+

lemma AList_delete_filter: "AList.delete k xs = filter (\<lambda>x. fst x \<noteq> k) xs"
  by (induction xs) auto

lemma queued_drop [simp]: "queued (dropClose h q) = queued q - {h}"
  by (auto simp: queued_def dropClose_def AList_delete_filter)

lemma dropClose_fields [simp]:
  "cu_items (dropClose h q) = cu_items q" "cu_reservations (dropClose h q) = cu_reservations q"
  "cu_retiring (dropClose h q) = cu_retiring q" "cu_abandoned (dropClose h q) = cu_abandoned q"
  "cu_wake (dropClose h q) = cu_wake q" "cu_owned (dropClose h q) = removeAll h (cu_owned q)"
  "cu_pending (dropClose h q) = filter (\<lambda>x. fst x \<noteq> h) (cu_pending q)"
  by (simp_all add: dropClose_def AList_delete_filter)

lemma itemOk_cong:
  "cu_items q = cu_items q' \<Longrightarrow> itemOk q jobs entry = itemOk q' jobs entry"
  by (simp add: itemOk_def)

lemma card_union_mono: "finite C \<Longrightarrow> set xs \<subseteq> set ys \<Longrightarrow> B \<subseteq> C \<Longrightarrow> card (set xs \<union> B) \<le> card (set ys \<union> C)"
  by (rule card_mono) auto

lemma queueOk_drop:
  assumes "queueOk settings opens live jobs q" "h \<notin> live"
  shows "queueOk settings opens live jobs (dropClose h q)"
proof -
  have "card (set (removeAll h (cu_owned q)) \<union> live) \<le> card (set (cu_owned q) \<union> live)"
    using assms by (intro card_union_mono) (auto simp: queueOk_def)
  moreover have "itemOk (dropClose h q) jobs entry = itemOk q jobs entry" for entry
    by (rule itemOk_cong) simp
  ultimately show ?thesis
    using assms unfolding queueOk_def by (auto simp: distinct_removeAll distinct_map_filter)
qed

lemma queueOk_drops:
  "queueOk settings opens live jobs q \<Longrightarrow> (\<forall>x \<in> set entries. fst x \<notin> live) \<Longrightarrow>
    queueOk settings opens live jobs (fold (\<lambda>(h, p) u. if now < deadline p then u else dropClose h u) entries q)"
  by (induction entries arbitrary: q) (auto simp: queueOk_drop)

lemma dropOverdue_ok:
  assumes "queueOk settings opens live jobs q"
  shows "queueOk settings opens live jobs (dropOverdue now q)"
  unfolding dropOverdue_def
  using queueOk_drops [OF assms, of "cu_pending q" now "\<lambda>p. pc_deadline (cu_items q ! p)"] queueOkD(5) [OF assms]
  by (auto simp: queued_def)

lemma itemOk_append:
  "itemOk q jobs entry \<Longrightarrow> cu_items q' = cu_items q @ items \<Longrightarrow> itemOk q' jobs entry"
  by (auto simp: itemOk_def nth_append)

lemma cleanupTTL_positive: "0 < cleanupTTL settings"
  by (simp add: cleanupTTL_def defaultPlaySessionCleanupRetryTTL_def)

lemma adoptClose_new:
  assumes "validHandle h" "h \<notin> queued q"
  shows "adoptClose ttl now (pr, h) q = q\<lparr>cu_owned := List.insert h (cu_owned q),
      cu_pending := cu_pending q @ [(h, length (cu_items q))],
      cu_items := cu_items q @ [\<lparr>pc_principal = pr, pc_handle = h, pc_attempts = 0, pc_nextAttempt = now,
        pc_deadline = now + ttl, pc_claimed = False\<rparr>]\<rparr>"
  using assms map_of_eq_None_iff [of "cu_pending q" h] by (simp add: adoptClose_def queued_def)

lemma adoptClose_old:
  assumes "\<not> validHandle h \<or> h \<in> queued q"
  shows "adoptClose ttl now (pr, h) q = q"
  using assms map_of_eq_None_iff [of "cu_pending q" h] by (auto simp: adoptClose_def queued_def)

lemma adoptClose_ok:
  assumes ok: "queueOk settings opens live jobs q" and h: "h \<in> live \<or> h \<in> queued q"
  shows "queueOk settings opens (live - {h}) jobs (adoptClose (cleanupTTL settings) now (pr, h) q)"
proof (cases "h \<in> queued q")
  case True
  then have "live - {h} = live" using queueOkD(5) [OF ok] by auto
  with True ok show ?thesis by (simp add: adoptClose_old)
next
  case False
  with h have live: "h \<in> live" by simp
  let ?q = "adoptClose (cleanupTTL settings) now (pr, h) q"
  note new = adoptClose_new [OF queueOkD(14) [OF ok live] False, of "cleanupTTL settings" now pr]
  have "queued ?q = insert h (queued q)"
    unfolding new by (auto simp: queued_def)
  moreover have "itemOk ?q jobs entry" if "entry \<in> set (cu_pending ?q)" for entry
  proof (cases "entry \<in> set (cu_pending q)")
    case True
    show ?thesis by (rule itemOk_append [OF queueOkD(3) [OF ok True]]) (simp add: new)
  next
    case False
    with that have "entry = (h, length (cu_items q))" by (auto simp: new)
    then show ?thesis
      using queueOkD(14) [OF ok live] cleanupTTL_positive [of settings] by (simp add: itemOk_def new)
  qed
  moreover have "set (cu_owned q) \<union> live = set (cu_owned ?q) \<union> (live - {h})"
    using live by (auto simp: new)
  moreover have "distinct (map fst (cu_pending ?q))"
    using queueOkD(2) [OF ok] False by (auto simp: new queued_def)
  moreover have "p < length (cu_items ?q) \<and> pc_claimed (cu_items ?q ! p)" if "p \<in> set jobs" for p
    using queueOkD(11,12) [OF ok that] by (simp add: new nth_append)
  ultimately show ?thesis
    using ok False unfolding queueOk_def by (auto simp: new)
qed

lemma adoptClose_queued:
  "queued (adoptClose ttl now (pr, h) q) = (if validHandle h then insert h (queued q) else queued q)"
proof (cases "validHandle h \<and> h \<notin> queued q")
  case True
  then show ?thesis by (auto simp: adoptClose_new queued_def)
next
  case False
  then show ?thesis by (subst adoptClose_old) auto
qed

lemma adoptClose_fields [simp]:
  "cu_abandoned (adoptClose ttl now candidate q) = cu_abandoned q" "cu_retiring (adoptClose ttl now candidate q) = cu_retiring q"
  by (simp_all add: adoptClose_def split: prod.splits)

lemma adopts_ok:
  "queueOk settings opens live jobs q \<Longrightarrow> (\<forall>h \<in> set (map snd candidates). h \<in> live \<or> h \<in> queued q) \<Longrightarrow>
    queueOk settings opens (live - set (map snd candidates)) jobs (fold (adoptClose (cleanupTTL settings) now) candidates q)"
proof (induction candidates arbitrary: live q)
  case (Cons c candidates)
  obtain pr h where c: "c = (pr, h)" by (cases c)
  let ?q = "adoptClose (cleanupTTL settings) now c q"
  have ok: "queueOk settings opens (live - {h}) jobs ?q"
    unfolding c using Cons.prems by (intro adoptClose_ok) (auto simp: c)
  have "validHandle h"
    using Cons.prems queueOkD(14) [OF Cons.prems(1), of h] queueOkD(3) [OF Cons.prems(1)] by (force simp: c queued_def itemOk_def)
  then have "queued ?q = insert h (queued q)"
    by (simp add: c adoptClose_queued)
  then have "\<forall>h' \<in> set (map snd candidates). h' \<in> live - {h} \<or> h' \<in> queued ?q"
    using Cons.prems(2) by auto
  from Cons.IH [OF ok this] show ?case
    by (simp add: c Diff_insert2 [symmetric] insert_commute)
qed simp

text \<open>Claiming an unclaimed item.\<close>

lemma claim_ok:
  assumes ok: "queueOk settings opens live jobs q" and entry: "(h, p) \<in> set (cu_pending q)"
    and free: "\<not> pc_claimed (cu_items q ! p)"
  shows "queueOk settings opens live (jobs @ [p]) (q\<lparr>cu_items := (cu_items q)[p := (cu_items q ! p)\<lparr>pc_claimed := True\<rparr>]\<rparr>)"
proof -
  let ?q = "q\<lparr>cu_items := (cu_items q)[p := (cu_items q ! p)\<lparr>pc_claimed := True\<rparr>]\<rparr>"
  have p: "p < length (cu_items q)" "p \<notin> set jobs"
    using queueOkD(3) [OF ok entry] queueOkD(12) [OF ok] free by (auto simp: itemOk_def)
  have "itemOk ?q (jobs @ [p]) entry" if "entry \<in> set (cu_pending q)" for entry
    using queueOkD(3) [OF ok that] p by (cases "snd entry = p") (simp_all add: itemOk_def)
  moreover have "p' < length (cu_items ?q) \<and> pc_claimed (cu_items ?q ! p')" if "p' \<in> set (jobs @ [p])" for p'
    using that queueOkD(11,12) [OF ok, of p'] p by (cases "p' = p") auto
  moreover have "queued ?q = queued q" by (simp add: queued_def)
  ultimately show ?thesis
    using ok p unfolding queueOk_def by auto
qed

definition dueItem :: "int \<Rightarrow> bool \<Rightarrow> pendingPlaySessionClose \<Rightarrow> bool" where
  "dueItem now force item \<longleftrightarrow> \<not> pc_claimed item \<and> (force \<or> \<not> now < pc_nextAttempt item)"

text \<open>The loop claims what is due; what it drops and what it claims are other items than those it has yet to see.\<close>

lemma claimLoop_ok:
  assumes "claimLoop now force entries q claimed = (after, claimed')" "queueOk settings opens live (jobs @ claimed) q"
    "set entries \<subseteq> set (cu_pending q)" "distinct (map fst entries)"
  shows "queueOk settings opens live (jobs @ claimed') after"
  using assms
proof (induction entries arbitrary: q claimed)
  case (Cons entry rest)
  obtain h p where entry: "entry = (h, p)" by (cases entry)
  let ?item = "cu_items q ! p"
  have h: "(h, p) \<in> set (cu_pending q)" using Cons.prems(3) by (simp add: entry)
  have rest: "set rest \<subseteq> set (cu_pending q)" "distinct (map fst rest)" "\<forall>x \<in> set rest. fst x \<noteq> h"
    using Cons.prems(3,4) by (auto simp: entry)
  consider "\<not> now < pc_deadline ?item" | "now < pc_deadline ?item" "\<not> dueItem now force ?item"
    | "now < pc_deadline ?item" "dueItem now force ?item" by blast
  then show ?case
  proof cases
    case 1
    have "h \<notin> live" using queueOkD(5) [OF Cons.prems(2)] h by (force simp: queued_def)
    then have "queueOk settings opens live (jobs @ claimed) (dropClose h q)"
      using Cons.prems(2) by (rule queueOk_drop [rotated])
    from Cons.IH [OF _ this _ rest(2)] Cons.prems(1) 1 rest show ?thesis
      by (auto simp: entry)
  next
    case 2
    with Cons.IH [OF _ Cons.prems(2) rest(1,2)] Cons.prems(1) show ?thesis
      by (auto simp: entry dueItem_def Let_def)
  next
    case 3
    then have "queueOk settings opens live ((jobs @ claimed) @ [p]) (q\<lparr>cu_items := (cu_items q)[p := ?item\<lparr>pc_claimed := True\<rparr>]\<rparr>)"
      by (intro claim_ok [OF Cons.prems(2) h]) (simp add: dueItem_def)
    with Cons.IH [of "q\<lparr>cu_items := (cu_items q)[p := ?item\<lparr>pc_claimed := True\<rparr>]\<rparr>" "claimed @ [p]"] Cons.prems(1) 3 rest
    show ?thesis by (auto simp: entry dueItem_def Let_def)
  qed
qed simp

lemma claimCleanup_ok:
  assumes ok: "queueOk settings opens live jobs q" and candidates: "set (map snd candidates) \<subseteq> live"
    and claim: "claimCleanup settings candidates now force q = (after, claimed)"
  shows "queueOk settings opens (live - set (map snd candidates)) (jobs @ claimed) after"
proof -
  let ?adopted = "fold (adoptClose (cleanupTTL settings) now) candidates (dropOverdue now q)"
  have adopted: "queueOk settings opens (live - set (map snd candidates)) (jobs @ []) ?adopted"
    using adopts_ok [OF dropOverdue_ok [OF ok], of candidates now] candidates by auto
  show ?thesis
    by (rule claimLoop_ok [OF claim [unfolded claimCleanup_def Let_def] adopted]) (use queueOkD(2) [OF adopted] in auto)
qed

section \<open>The steps keep the invariant\<close>

abbreviation cleanupOk :: "cleanupSettings \<Rightarrow> cleanupSystem \<Rightarrow> bool" where
  "cleanupOk settings s \<equiv> queueOk settings (cy_opening s) (set (cy_live s)) (cy_jobs s) (cy_queue s)"

lemma reserve_ok:
  assumes ok: "queueOk settings opens live jobs q" and reserve: "reserveCleanupHandle settings q = (True, after)"
  shows "queueOk settings (opens + 1) live jobs after"
proof -
  have after: "after = q\<lparr>cu_reservations := cu_reservations q + 1\<rparr>" "\<not> cu_retiring q"
    "int (length (cu_owned q)) + cu_reservations q < cleanupLimitLocked settings"
    using reserve by (auto simp: reserveCleanupHandle_def split: if_splits)
  have running: "\<not> cu_abandoned q" using after(2) queueOkD(9) [OF ok] by blast
  then have "set (cu_owned q) \<union> live = set (cu_owned q)" using queueOkD(6) [OF ok] by auto
  moreover have "card (set (cu_owned q)) = length (cu_owned q)"
    using queueOkD(1) [OF ok] by (rule distinct_card)
  moreover have "itemOk after jobs entry = itemOk q jobs entry" for entry
    by (rule itemOk_cong) (simp add: after)
  moreover have "queued after = queued q" by (simp add: after queued_def)
  ultimately show ?thesis
    using ok after running queueOkD(8) [OF ok] unfolding queueOk_def by simp
qed

lemma bind_ok:
  assumes ok: "queueOk settings (Suc opens) live jobs q" and new: "h \<notin> live" "h \<notin> set (cu_owned q)"
  shows "queueOk settings opens (if validHandle h then insert h live else live) jobs (bindCleanupHandle h q)"
proof -
  let ?q = "bindCleanupHandle h q"
  have items: "itemOk ?q jobs entry = itemOk q jobs entry" for entry
    by (rule itemOk_cong) (simp add: bindCleanupHandle_def)
  have queued: "queued ?q = queued q" "cu_pending ?q = cu_pending q" "cu_items ?q = cu_items q" "cu_abandoned ?q = cu_abandoned q"
    "cu_retiring ?q = cu_retiring q"
    by (simp_all add: bindCleanupHandle_def queued_def)
  have reservations: "cu_reservations ?q = (if cu_abandoned q then 0 else int opens)"
    using queueOkD(8) [OF ok] by (simp add: bindCleanupHandle_def)
  have absent: "h \<notin> queued q" using new(2) queueOkD(4) [OF ok] by auto
  show ?thesis
  proof (cases "validHandle h")
    case True
    then have owned: "cu_owned ?q = List.insert h (cu_owned q)" by (simp add: bindCleanupHandle_def)
    have "card (set (List.insert h (cu_owned q)) \<union> insert h live) \<le> Suc (card (set (cu_owned q) \<union> live))"
      using queueOkD(13) [OF ok] by (simp add: card_insert_if)
    then have "int (card (set (cu_owned ?q) \<union> insert h live)) + int opens \<le> cleanupLimitLocked settings"
      using queueOkD(7) [OF ok] unfolding owned by linarith
    then show ?thesis
      using ok True absent unfolding queueOk_def items queued reservations owned by auto
  next
    case False
    then have owned: "cu_owned ?q = cu_owned q" by (simp add: bindCleanupHandle_def)
    then show ?thesis
      using ok False unfolding queueOk_def items queued reservations by auto
  qed
qed

lemma finish_cases:
  assumes ok: "queueOk settings opens live jobs q" and p: "p \<in> set jobs"
  obtains (gone) "finishCleanup settings p closeErr now q = q\<lparr>cu_wake := True\<rparr>" "p \<notin> snd ` set (cu_pending q)"
  | (ended) h where "finishCleanup settings p closeErr now q = (dropClose h q)\<lparr>cu_wake := True\<rparr>" "(h, p) \<in> set (cu_pending q)"
      "closeErr = None \<or> (\<exists>e. closeErr = Some e \<and> errorIs e ErrSessionNotFound) \<or> cu_abandoned q \<or> pc_deadline (cu_items q ! p) \<le> now"
  | (again) h nextAttempt where "finishCleanup settings p closeErr now q = q\<lparr>cu_wake := True, cu_items := (cu_items q)[p :=
        (cu_items q ! p)\<lparr>pc_claimed := False, pc_attempts := pc_attempts (cu_items q ! p) + 1, pc_nextAttempt := nextAttempt\<rparr>]\<rparr>"
      "(h, p) \<in> set (cu_pending q)" "nextAttempt = min (pc_deadline (cu_items q ! p))
        (now + cleanupRetryDelay settings (pc_attempts (cu_items q ! p) + 1))"
proof -
  let ?h = "pc_handle (cu_items q ! p)"
  have entry: "(h, p) \<in> set (cu_pending q) \<Longrightarrow> h = ?h" for h
    using queueOkD(3) [OF ok, of "(h, p)"] by (auto simp: itemOk_def)
  have dropWake: "dropClose h (q\<lparr>cu_wake := True\<rparr>) = (dropClose h q)\<lparr>cu_wake := True\<rparr>" for h
    by (simp add: dropClose_def)
  show thesis
  proof (cases "map_of (cu_pending q) ?h = Some p")
    case False
    then have "p \<notin> snd ` set (cu_pending q)"
      using entry queueOkD(2) [OF ok] by (force simp: map_of_eq_Some_iff)
    with False show thesis by (intro gone) (simp_all add: finishCleanup_def)
  next
    case True
    then have h: "(?h, p) \<in> set (cu_pending q)" by (rule map_of_SomeD)
    show thesis
    proof (cases "(case closeErr of None \<Rightarrow> True | Some e \<Rightarrow> errorIs e ErrSessionNotFound) \<or> cu_abandoned q \<or>
        \<not> now < pc_deadline (cu_items q ! p)")
      case drop: True
      then show thesis
        by (intro ended [OF _ h]) (auto simp: finishCleanup_def True dropWake not_less split: option.splits)
    next
      case False
      have "min a b = (if a < b then a else b)" for a b :: int by (simp add: min_def)
      with False True show thesis
        by (intro again [OF _ h refl]) (simp add: finishCleanup_def Let_def)
    qed
  qed
qed

lemma jobs_without:
  assumes "distinct jobs" "k < length jobs"
  shows "set (take k jobs @ drop (Suc k) jobs) = set jobs - {jobs ! k}" "distinct (take k jobs @ drop (Suc k) jobs)"
proof -
  have jobs: "jobs = take k jobs @ jobs ! k # drop (Suc k) jobs"
    using assms(2) by (simp add: id_take_nth_drop [symmetric])
  with assms(1) have d: "distinct (take k jobs @ jobs ! k # drop (Suc k) jobs)" by simp
  then show "distinct (take k jobs @ drop (Suc k) jobs)" by auto
  have "set jobs = set (take k jobs @ jobs ! k # drop (Suc k) jobs)" using jobs by simp
  with d show "set (take k jobs @ drop (Suc k) jobs) = set jobs - {jobs ! k}" by auto
qed

lemma queueOk_other_jobs:
  assumes "queueOk settings opens live jobs q" "set jobs' \<subseteq> set jobs" "distinct jobs'"
    "\<forall>entry \<in> set (cu_pending q). itemOk q jobs' entry"
  shows "queueOk settings opens live jobs' q"
  using assms unfolding queueOk_def by auto

lemma queueOk_wake: "queueOk settings opens live jobs (q\<lparr>cu_wake := w\<rparr>) = queueOk settings opens live jobs q"
  by (simp add: queueOk_def queued_def itemOk_def)

lemma itemOk_other_jobs:
  assumes "itemOk q jobs entry" "snd entry \<noteq> p" "set jobs' = set jobs - {p}"
  shows "itemOk q jobs' entry"
  using assms by (auto simp: itemOk_def)

lemma queueOk_pointer:
  assumes "queueOk settings opens live jobs q" "(h, p) \<in> set (cu_pending q)" "(h', p) \<in> set (cu_pending q)"
  shows "h' = h"
  using queueOkD(3) [OF assms(1) assms(2)] queueOkD(3) [OF assms(1) assms(3)] by (simp add: itemOk_def)

lemma finish_ok:
  assumes ok: "queueOk settings opens live jobs q" and p: "p \<in> set jobs"
    and jobs': "set jobs' = set jobs - {p}" "distinct jobs'"
  shows "queueOk settings opens live jobs' (finishCleanup settings p closeErr now q)"
  using ok p
proof (cases rule: finish_cases [where closeErr = closeErr and now = now])
  case gone
  then have "\<forall>entry \<in> set (cu_pending q). itemOk q jobs' entry"
    using queueOkD(3) [OF ok] jobs'(1) by (force intro: itemOk_other_jobs)
  then show ?thesis
    unfolding gone(1) queueOk_wake using jobs' by (intro queueOk_other_jobs [OF ok]) auto
next
  case (ended h)
  have "h \<notin> live" using queueOkD(5) [OF ok] ended(2) by (force simp: queued_def)
  note dropped = queueOk_drop [OF ok this]
  have "itemOk (dropClose h q) jobs' entry" if "entry \<in> set (cu_pending (dropClose h q))" for entry
  proof (rule itemOk_other_jobs [OF queueOkD(3) [OF dropped that] _ jobs'(1)])
    have "entry \<in> set (cu_pending q)" "fst entry \<noteq> h" using that by simp_all
    then show "snd entry \<noteq> p"
      using queueOk_pointer [OF ok ended(2), of "fst entry"] by (metis prod.collapse)
  qed
  then show ?thesis
    unfolding ended(1) queueOk_wake using jobs' by (intro queueOk_other_jobs [OF dropped]) auto
next
  case (again h nextAttempt)
  let ?q = "finishCleanup settings p closeErr now q"
  have fields: "cu_pending ?q = cu_pending q" "cu_owned ?q = cu_owned q" "cu_reservations ?q = cu_reservations q"
    "cu_retiring ?q = cu_retiring q" "cu_abandoned ?q = cu_abandoned q" "queued ?q = queued q"
    "length (cu_items ?q) = length (cu_items q)" "cu_items ?q ! p' = (if p' = p then (cu_items q ! p)\<lparr>pc_claimed := False,
       pc_attempts := pc_attempts (cu_items q ! p) + 1, pc_nextAttempt := nextAttempt\<rparr> else cu_items q ! p')" for p'
    using queueOkD(11) [OF ok p] by (simp_all add: again(1) queued_def nth_list_update)
  have "itemOk ?q jobs' entry" if "entry \<in> set (cu_pending q)" for entry
    using queueOkD(3) [OF ok that] jobs'(1) again(3) by (auto simp: itemOk_def fields)
  then show ?thesis
    using ok jobs' unfolding queueOk_def fields by auto
qed

lemma abandon_ok:
  assumes "queueOk settings opens live jobs q" "cu_retiring q"
  shows "queueOk settings opens live jobs (abandonCleanup q)"
proof -
  have "card live \<le> card (set (cu_owned q) \<union> live)"
    using queueOkD(13) [OF assms(1)] by (intro card_mono) auto
  then show ?thesis
    using assms unfolding queueOk_def by (simp add: abandonCleanup_def queued_def)
qed

lemma reorder_queueOk:
  assumes "queueOk settings opens live jobs q" "mset queue = mset (cu_pending q)"
  shows "queueOk settings opens live jobs (q\<lparr>cu_pending := queue\<rparr>)"
proof -
  have "set queue = set (cu_pending q)" using assms(2) by (rule mset_eq_setD)
  moreover have "distinct (map fst queue) = distinct (map fst (cu_pending q))"
    using assms(2) by (metis mset_map mset_eq_imp_distinct_iff)
  moreover have "itemOk (q\<lparr>cu_pending := queue\<rparr>) jobs entry = itemOk q jobs entry" for entry
    by (rule itemOk_cong) simp
  ultimately show ?thesis
    using assms(1) by (simp add: queueOk_def queued_def)
qed

lemma retire_ok: "queueOk settings opens live jobs q \<Longrightarrow> queueOk settings opens live jobs (retireCleanup q)"
  by (simp add: queueOk_def queued_def itemOk_def retireCleanup_def)

lemma cleanup_step_ok:
  assumes "cleanupOk settings s" "cleanup_step settings s t"
  shows "cleanupOk settings t"
  using assms(2,1)
proof cases
  case (reserves after)
  with reserve_ok [OF assms(1)] show ?thesis by simp
next
  case (binds handle)
  then have "queueOk settings (Suc (cy_opening s - 1)) (set (cy_live s)) (cy_jobs s) (cy_queue s)" using assms(1) by simp
  from bind_ok [OF this binds(3,4)] show ?thesis by (cases "validHandle handle") (simp_all add: binds(1))
next
  case (claims candidates now force after claimed)
  have "set (filter (\<lambda>h. h \<notin> set (map snd candidates)) (cy_live s)) = set (cy_live s) - set (map snd candidates)" by auto
  with claimCleanup_ok [OF assms(1) claims(2,3)] show ?thesis by (simp add: claims(1))
next
  case (finishes k closeErr now)
  with finish_ok [OF assms(1) nth_mem jobs_without [OF queueOkD(10) [OF assms(1)]]] show ?thesis by simp
qed (auto intro: retire_ok abandon_ok reorder_queueOk)

lemma cleanup_start_ok: "cleanupOk settings startCleanup"
  by (simp add: startCleanup_def newPlayCleanup_def queueOk_def queued_def cleanupLimitLocked_def defaultPlaySessionCleanupQueueLimit_def)

interpretation closes: transition_system "\<lambda>s. s = startCleanup" "cleanup_step settings" "cleanupOk settings"
  for settings
  by unfold_locales (auto intro: cleanup_start_ok cleanup_step_ok)

section \<open>What a run claims\<close>

lemma dropOverdue_fold:
  "cu_pending (fold (\<lambda>(h, p) u. if now < deadline p then u else dropClose h u) entries q) =
     filter (\<lambda>x. \<not> (\<exists>y \<in> set entries. fst y = fst x \<and> \<not> now < deadline (snd y))) (cu_pending q)"
  "cu_items (fold (\<lambda>(h, p) u. if now < deadline p then u else dropClose h u) entries q) = cu_items q"
  "set (cu_owned (fold (\<lambda>(h, p) u. if now < deadline p then u else dropClose h u) entries q)) =
     set (cu_owned q) - {h. \<exists>y \<in> set entries. fst y = h \<and> \<not> now < deadline (snd y)}"
  by (induction entries arbitrary: q) (auto simp: split_def intro!: filter_cong)

lemma dropOverdue_kept:
  assumes "distinct (map fst (cu_pending q))"
  shows "entry \<in> set (cu_pending (dropOverdue now q)) \<longleftrightarrow>
      entry \<in> set (cu_pending q) \<and> now < pc_deadline (cu_items q ! snd entry)"
    "cu_items (dropOverdue now q) = cu_items q"
    "h \<in> set (cu_owned (dropOverdue now q)) \<longleftrightarrow>
      h \<in> set (cu_owned q) \<and> \<not> (\<exists>p. (h, p) \<in> set (cu_pending q) \<and> \<not> now < pc_deadline (cu_items q ! p))"
proof -
  obtain h p where entry: "entry = (h, p)" by (cases entry)
  show "entry \<in> set (cu_pending (dropOverdue now q)) \<longleftrightarrow>
      entry \<in> set (cu_pending q) \<and> now < pc_deadline (cu_items q ! snd entry)"
    unfolding dropOverdue_def dropOverdue_fold(1) by (auto simp: entry dest: eq_key_imp_eq_value [OF assms])
qed (auto simp: dropOverdue_def dropOverdue_fold(2,3))

lemma adopts_extend:
  "\<exists>new items. cu_pending (fold (adoptClose ttl now) candidates q) = cu_pending q @ new \<and>
     cu_items (fold (adoptClose ttl now) candidates q) = cu_items q @ items \<and>
     (\<forall>x \<in> set new. length (cu_items q) \<le> snd x \<and> snd x < length (cu_items q @ items)) \<and>
     (\<forall>item \<in> set items. \<not> pc_claimed item \<and> pc_nextAttempt item = now \<and> pc_deadline item = now + ttl) \<and>
     set (cu_owned q) \<subseteq> set (cu_owned (fold (adoptClose ttl now) candidates q)) \<and>
     (\<forall>h \<in> set (map snd candidates). validHandle h \<longrightarrow> h \<in> queued (fold (adoptClose ttl now) candidates q)) \<and>
     queued q \<subseteq> queued (fold (adoptClose ttl now) candidates q)"
proof (induction candidates arbitrary: q)
  case (Cons c candidates)
  obtain pr h where c: "c = (pr, h)" by (cases c)
  let ?q = "adoptClose ttl now c q" and ?r = "fold (adoptClose ttl now) (c # candidates) q"
  obtain new items where IH: "cu_pending ?r = cu_pending ?q @ new" "cu_items ?r = cu_items ?q @ items"
    "\<forall>x \<in> set new. length (cu_items ?q) \<le> snd x \<and> snd x < length (cu_items ?q @ items)"
    "\<forall>item \<in> set items. \<not> pc_claimed item \<and> pc_nextAttempt item = now \<and> pc_deadline item = now + ttl"
    "set (cu_owned ?q) \<subseteq> set (cu_owned ?r)" "\<forall>h \<in> set (map snd candidates). validHandle h \<longrightarrow> h \<in> queued ?r" "queued ?q \<subseteq> queued ?r"
    using Cons.IH [of ?q] by auto
  have queued: "queued ?q = (if validHandle h then insert h (queued q) else queued q)"
    by (simp add: c adoptClose_queued)
  show ?case
  proof (cases "validHandle h \<and> h \<notin> queued q")
    case False
    then have "?q = q" unfolding c by (intro adoptClose_old) auto
    with IH queued show ?thesis by (auto simp: c intro!: exI [of _ new] exI [of _ items] split: if_splits)
  next
    case True
    then have new: "cu_pending ?q = cu_pending q @ [(h, length (cu_items q))]" "\<exists>item. cu_items ?q = cu_items q @ [item] \<and>
        \<not> pc_claimed item \<and> pc_nextAttempt item = now \<and> pc_deadline item = now + ttl" "set (cu_owned q) \<subseteq> set (cu_owned ?q)"
      by (auto simp: c adoptClose_new)
    then obtain item where item: "cu_items ?q = cu_items q @ [item]" "\<not> pc_claimed item" "pc_nextAttempt item = now"
      "pc_deadline item = now + ttl" by blast
    show ?thesis
      by (intro exI [of _ "(h, length (cu_items q)) # new"] exI [of _ "item # items"] conjI)
        (use IH new(1,3) item queued True in \<open>auto simp: c\<close>)
  qed
qed simp

lemma claimLoop_claims:
  assumes "claimLoop now force entries q claimed = (after, claimed')" "\<forall>x \<in> set entries. now < pc_deadline (cu_items q ! snd x)"
    "distinct (map snd entries)"
  shows "cu_pending after = cu_pending q \<and> cu_owned after = cu_owned q \<and>
    claimed' = claimed @ map snd (filter (\<lambda>x. dueItem now force (cu_items q ! snd x)) entries)"
  using assms
proof (induction entries arbitrary: q claimed)
  case (Cons entry rest)
  obtain h p where entry: "entry = (h, p)" by (cases entry)
  show ?case
  proof (cases "dueItem now force (cu_items q ! p)")
    case True
    let ?q = "q\<lparr>cu_items := (cu_items q)[p := (cu_items q ! p)\<lparr>pc_claimed := True\<rparr>]\<rparr>"
    have same: "\<forall>x \<in> set rest. cu_items ?q ! snd x = cu_items q ! snd x"
    proof
      fix x assume "x \<in> set rest"
      then have "snd x \<noteq> p" using Cons.prems(3) by (force simp: entry)
      then show "cu_items ?q ! snd x = cu_items q ! snd x" by simp
    qed
    then have "filter (\<lambda>x. dueItem now force (cu_items ?q ! snd x)) rest = filter (\<lambda>x. dueItem now force (cu_items q ! snd x)) rest"
      by (intro filter_cong) auto
    moreover have "claimLoop now force (entry # rest) q claimed = claimLoop now force rest ?q (claimed @ [p])"
      using True Cons.prems(2) by (auto simp: entry dueItem_def Let_def)
    ultimately show ?thesis
      using Cons.IH [of ?q "claimed @ [p]"] Cons.prems same True by (simp add: entry)
  next
    case False
    with Cons.IH [of q claimed] Cons.prems show ?thesis
      by (auto simp: entry dueItem_def Let_def)
  qed
qed simp

lemma claim_result:
  assumes ok: "queueOk settings opens live jobs q" and candidates: "set (map snd candidates) \<subseteq> live"
    and claim: "claimCleanup settings candidates now force q = (after, claimed)"
  shows "(h, p) \<in> set (cu_pending q) \<Longrightarrow> now < pc_deadline (cu_items q ! p) \<Longrightarrow>
      (h, p) \<in> set (cu_pending after) \<and> (p \<in> set claimed \<longleftrightarrow> dueItem now force (cu_items q ! p))"
    "h \<in> set (map snd candidates) \<Longrightarrow> \<exists>p \<in> set claimed. (h, p) \<in> set (cu_pending after)"
    "h \<in> set (cu_owned q) \<Longrightarrow> h \<notin> set (cu_owned after) \<Longrightarrow> \<exists>p. (h, p) \<in> set (cu_pending q) \<and> pc_deadline (cu_items q ! p) \<le> now"
proof -
  let ?dropped = "dropOverdue now q"
  let ?adopted = "fold (adoptClose (cleanupTTL settings) now) candidates ?dropped"
  note kept = dropOverdue_kept [OF queueOkD(2) [OF ok]]
  have adopted: "queueOk settings opens (live - set (map snd candidates)) jobs ?adopted"
    using adopts_ok [OF dropOverdue_ok [OF ok], of candidates now] candidates by auto
  obtain new items where extend: "cu_pending ?adopted = cu_pending ?dropped @ new" "cu_items ?adopted = cu_items q @ items"
    "\<And>x. x \<in> set new \<Longrightarrow> length (cu_items q) \<le> snd x \<and> snd x < length (cu_items q @ items)"
    "\<And>item. item \<in> set items \<Longrightarrow> \<not> pc_claimed item \<and> pc_nextAttempt item = now \<and> pc_deadline item = now + cleanupTTL settings"
    "set (cu_owned ?dropped) \<subseteq> set (cu_owned ?adopted)"
    "\<And>h. h \<in> set (map snd candidates) \<Longrightarrow> validHandle h \<Longrightarrow> h \<in> queued ?adopted"
    using adopts_extend [of "cleanupTTL settings" now candidates ?dropped] unfolding kept(2) by blast
  have old: "cu_items ?adopted ! p = cu_items q ! p" if "(h, p) \<in> set (cu_pending ?dropped)" for h p
    using that kept(1) [of "(h, p)"] queueOkD(3) [OF ok, of "(h, p)"] by (simp add: extend(2) itemOk_def nth_append)
  have fresh: "dueItem now force (cu_items ?adopted ! snd x) \<and> now < pc_deadline (cu_items ?adopted ! snd x)" if "x \<in> set new" for x
  proof -
    have "cu_items ?adopted ! snd x \<in> set items"
      using extend(3) [OF that] by (auto simp: extend(2) nth_append intro!: nth_mem)
    from extend(4) [OF this] cleanupTTL_positive [of settings] show ?thesis by (simp add: dueItem_def)
  qed
  have "\<forall>x \<in> set (cu_pending ?adopted). now < pc_deadline (cu_items ?adopted ! snd x)"
    using fresh old kept(1) by (auto simp: extend(1))
  moreover have "distinct (map snd (cu_pending ?adopted))"
    using queueOkD(2) [OF adopted] queueOk_pointer [OF adopted]
    by (auto simp: distinct_map inj_on_def)
  ultimately have result: "cu_pending after = cu_pending ?adopted" "cu_owned after = cu_owned ?adopted"
    "claimed = map snd (filter (\<lambda>x. dueItem now force (cu_items ?adopted ! snd x)) (cu_pending ?adopted))"
    using claimLoop_claims [OF claim [unfolded claimCleanup_def Let_def]] by auto
  show "(h, p) \<in> set (cu_pending after) \<and> (p \<in> set claimed \<longleftrightarrow> dueItem now force (cu_items q ! p))"
    if "(h, p) \<in> set (cu_pending q)" "now < pc_deadline (cu_items q ! p)"
  proof -
    have dropped: "(h, p) \<in> set (cu_pending ?dropped)" using that kept(1) by simp
    then have pending: "(h, p) \<in> set (cu_pending ?adopted)" by (simp add: extend(1))
    moreover have "p \<in> set claimed \<longleftrightarrow> dueItem now force (cu_items ?adopted ! p)"
      using pending unfolding result(3) by force
    ultimately show ?thesis unfolding result(1) using old [OF dropped] by simp
  qed
  show "\<exists>p \<in> set claimed. (h, p) \<in> set (cu_pending after)" if h: "h \<in> set (map snd candidates)"
  proof -
    have live: "h \<in> live" using h candidates by auto
    have "h \<in> queued ?adopted" by (rule extend(6) [OF h queueOkD(14) [OF ok live]])
    then obtain p where p: "(h, p) \<in> set (cu_pending ?adopted)" by (auto simp: queued_def)
    have "(h, p) \<notin> set (cu_pending ?dropped)" using live kept(1) [of "(h, p)"] queueOkD(5) [OF ok] by (force simp: queued_def)
    then have "(h, p) \<in> set new" using p by (simp add: extend(1))
    from fresh [OF this] p show ?thesis unfolding result(1,3) by force
  qed
  show "\<exists>p. (h, p) \<in> set (cu_pending q) \<and> pc_deadline (cu_items q ! p) \<le> now"
    if "h \<in> set (cu_owned q)" "h \<notin> set (cu_owned after)"
    using that extend(5) kept(3) [of h] unfolding result(2) by (auto simp: not_less)
qed

section \<open>Properties\<close>

lemma reachable_queueOk: "(cleanup_step settings)\<^sup>*\<^sup>* startCleanup s \<Longrightarrow> cleanupOk settings s"
  by (rule closes.inv_reachable [OF refl])

text \<open>
  C34. Every opened delivery is accounted for. In every reachable state of a queue that was not abandoned the
  reservations are exactly the opens in flight, one for each, and the owned handles are exactly those in use and
  those waiting to be closed, none of them both; an abandoned queue has no reservations. In either case the
  handles and the opens in flight together stay within the limit of the queue, an item of the queue is claimed
  exactly when a worker has it, and no two workers have the same.
\<close>

theorem cleanup_handles_accounted:
  assumes "(cleanup_step settings)\<^sup>*\<^sup>* startCleanup s"
  shows "cu_reservations (cy_queue s) = (if cu_abandoned (cy_queue s) then 0 else int (cy_opening s)) \<and>
    int (card (set (cu_owned (cy_queue s)) \<union> set (cy_live s))) + int (cy_opening s) \<le> cleanupLimitLocked settings \<and>
    distinct (cu_owned (cy_queue s)) \<and> fst ` set (cu_pending (cy_queue s)) \<inter> set (cy_live s) = {} \<and>
    (\<not> cu_abandoned (cy_queue s) \<longrightarrow> set (cu_owned (cy_queue s)) = set (cy_live s) \<union> fst ` set (cu_pending (cy_queue s))) \<and>
    distinct (cy_jobs s) \<and> distinct (map fst (cu_pending (cy_queue s))) \<and>
    (\<forall>(h, p) \<in> set (cu_pending (cy_queue s)). pc_handle (cu_items (cy_queue s) ! p) = h \<and>
      (pc_claimed (cu_items (cy_queue s) ! p) \<longleftrightarrow> p \<in> set (cy_jobs s)))"
proof -
  let ?q = "cy_queue s"
  note ok = reachable_queueOk [OF assms]
  have "pc_handle (cu_items ?q ! p) = h \<and> (pc_claimed (cu_items ?q ! p) \<longleftrightarrow> p \<in> set (cy_jobs s))"
    if "(h, p) \<in> set (cu_pending ?q)" for h p
    using queueOkD(3) [OF ok that] queueOkD(12) [OF ok, of p] by (auto simp: itemOk_def)
  then show ?thesis
    using queueOkD(1,2,5,6,7,8,10) [OF ok] by (auto simp: queued_def)
qed

text \<open>
  C35. A close runs when it is due. In every reachable state a run that is given handles which are in use
  starts to close each of them, leaves alone what another worker has, and of the items in the queue takes
  exactly those that wait for no later instant (all of them when it is forced); an owned handle is given up
  by a run only when the deadline of its item has passed.
\<close>

theorem closes_run_when_due:
  assumes reach: "(cleanup_step settings)\<^sup>*\<^sup>* startCleanup s" and candidates: "set (map snd candidates) \<subseteq> set (cy_live s)"
    and claim: "claimCleanup settings candidates now force (cy_queue s) = (after, claimed)"
  shows "distinct (cy_jobs s @ claimed) \<and>
    (\<forall>h \<in> set (map snd candidates). \<exists>p \<in> set claimed. (h, p) \<in> set (cu_pending after)) \<and>
    (\<forall>(h, p) \<in> set (cu_pending (cy_queue s)). now < pc_deadline (cu_items (cy_queue s) ! p) \<longrightarrow>
      (h, p) \<in> set (cu_pending after) \<and>
      (p \<in> set claimed \<longleftrightarrow> p \<notin> set (cy_jobs s) \<and> (force \<or> pc_nextAttempt (cu_items (cy_queue s) ! p) \<le> now))) \<and>
    (\<forall>h \<in> set (cu_owned (cy_queue s)). h \<notin> set (cu_owned after) \<longrightarrow>
      (\<exists>p. (h, p) \<in> set (cu_pending (cy_queue s)) \<and> pc_deadline (cu_items (cy_queue s) ! p) \<le> now))"
proof -
  note ok = reachable_queueOk [OF reach]
  note result = claim_result [OF ok candidates claim]
  have "p \<in> set claimed \<longleftrightarrow> p \<notin> set (cy_jobs s) \<and> (force \<or> pc_nextAttempt (cu_items (cy_queue s) ! p) \<le> now)"
    if "(h, p) \<in> set (cu_pending (cy_queue s))" "now < pc_deadline (cu_items (cy_queue s) ! p)" for h p
    using result(1) [OF that] queueOkD(12) [OF ok, of p] queueOkD(3) [OF ok that(1)]
    by (auto simp: dueItem_def itemOk_def not_less)
  with result(1) have "\<forall>(h, p) \<in> set (cu_pending (cy_queue s)). now < pc_deadline (cu_items (cy_queue s) ! p) \<longrightarrow>
      (h, p) \<in> set (cu_pending after) \<and>
      (p \<in> set claimed \<longleftrightarrow> p \<notin> set (cy_jobs s) \<and> (force \<or> pc_nextAttempt (cu_items (cy_queue s) ! p) \<le> now))"
    by auto
  with result(2,3) show ?thesis
    using queueOkD(10) [OF claimCleanup_ok [OF ok candidates claim]] by (intro conjI ballI impI) simp_all
qed

text \<open>
  C36. A failed close is tried again. When a worker reports a failure before the deadline of its item, and
  the queue was not abandoned, the handle stays owned and queued, its next attempt is the delay away but
  not after the deadline, and every later run between that instant and the deadline takes the item again.
\<close>

theorem close_retried:
  assumes reach: "(cleanup_step settings)\<^sup>*\<^sup>* startCleanup s" and job: "k < length (cy_jobs s)" "p = cy_jobs s ! k"
    and entry: "(h, p) \<in> set (cu_pending (cy_queue s))" and failed: "\<not> errorIs e ErrSessionNotFound"
    and kept: "\<not> cu_abandoned (cy_queue s)" "now < pc_deadline (cu_items (cy_queue s) ! p)"
    and after: "after = finishCleanup settings p (Some e) now (cy_queue s)"
  shows "h \<in> set (cu_owned after) \<and> (h, p) \<in> set (cu_pending after) \<and>
    pc_nextAttempt (cu_items after ! p) = min (pc_deadline (cu_items (cy_queue s) ! p))
      (now + cleanupRetryDelay settings (pc_attempts (cu_items (cy_queue s) ! p) + 1)) \<and>
    (\<forall>candidates later force final claimed. set (map snd candidates) \<subseteq> set (cy_live s) \<longrightarrow>
      pc_nextAttempt (cu_items after ! p) \<le> later \<longrightarrow> later < pc_deadline (cu_items (cy_queue s) ! p) \<longrightarrow>
      claimCleanup settings candidates later force after = (final, claimed) \<longrightarrow> p \<in> set claimed)"
proof -
  note ok = reachable_queueOk [OF reach]
  have p: "p \<in> set (cy_jobs s)" using job by simp
  from ok p obtain nextAttempt where after': "after = (cy_queue s)\<lparr>cu_wake := True, cu_items := (cu_items (cy_queue s))[p :=
        (cu_items (cy_queue s) ! p)\<lparr>pc_claimed := False, pc_attempts := pc_attempts (cu_items (cy_queue s) ! p) + 1,
          pc_nextAttempt := nextAttempt\<rparr>]\<rparr>"
    and instant: "nextAttempt = min (pc_deadline (cu_items (cy_queue s) ! p))
        (now + cleanupRetryDelay settings (pc_attempts (cu_items (cy_queue s) ! p) + 1))"
  proof (cases rule: finish_cases [where closeErr = "Some e" and now = now])
    case gone
    with entry show ?thesis by force
  next
    case (ended h')
    with failed kept show ?thesis by simp
  next
    case (again h' nextAttempt)
    then show ?thesis by (intro that) (simp_all add: after)
  qed
  have item: "cu_items after ! p = (cu_items (cy_queue s) ! p)\<lparr>pc_claimed := False,
      pc_attempts := pc_attempts (cu_items (cy_queue s) ! p) + 1, pc_nextAttempt := nextAttempt\<rparr>"
    using queueOkD(11) [OF ok p] by (simp add: after')
  have pending: "(h, p) \<in> set (cu_pending after)" using entry by (simp add: after')
  have owned: "h \<in> set (cu_owned after)"
    using queueOkD(4) [OF ok] entry by (force simp: after' queued_def)
  note ok' = finish_ok [OF ok nth_mem [OF job(1)] jobs_without [OF queueOkD(10) [OF ok] job(1)], of "Some e" now,
      folded job(2), folded after]
  have "p \<in> set claimed" if "set (map snd candidates) \<subseteq> set (cy_live s)" "nextAttempt \<le> later"
    "later < pc_deadline (cu_items (cy_queue s) ! p)" "claimCleanup settings candidates later force after = (final, claimed)"
    for candidates later force final claimed
    using claim_result(1) [OF ok' that(1,4) pending] that(2,3) by (simp add: item dueItem_def)
  moreover have "pc_nextAttempt (cu_items after ! p) = nextAttempt" by (simp add: item)
  ultimately show ?thesis
    using pending owned instant by metis
qed

lemma Min_insert2:
  fixes a b :: int
  shows "finite S \<Longrightarrow> Min (insert a (insert b S)) = Min (insert (min a b) S)"
  by (cases "S = {}") (simp_all add: min.assoc)

lemma earliest_fold:
  fixes f :: "'a \<Rightarrow> int"
  shows "fold (\<lambda>x earliest. if skip x then earliest else (case earliest of None \<Rightarrow> Some (f x)
      | Some instant \<Rightarrow> if f x < instant then Some (f x) else earliest)) xs start =
    (let instants = map f (filter (\<lambda>x. \<not> skip x) xs) @ (case start of None \<Rightarrow> [] | Some i \<Rightarrow> [i])
     in if instants = [] then None else Some (Min (set instants)))"
proof (induction xs arbitrary: start)
  case (Cons x xs)
  let ?R = "f ` {x \<in> set xs. \<not> skip x}"
  show ?case
  proof (cases "skip x")
    case False
    show ?thesis
    proof (cases start)
      case (Some a)
      have "(if f x < a then Some (f x) else Some a) = Some (min (f x) a)" by (simp add: min_def)
      moreover have "Min (insert (f x) (?R \<union> {a})) = Min (insert (min (f x) a) ?R)"
        using Min_insert2 [of ?R "f x" a] by simp
      ultimately show ?thesis using False Some by (simp add: Cons Let_def del: Min_insert)
    qed (use False in \<open>simp add: Cons Let_def\<close>)
  qed (simp add: Cons)
qed (simp split: option.split)

text \<open>
  The drain of a retired registry ends only when nothing is left. In every reachable state the next
  attempt is the earliest of the items no worker has, and a registry that retires and did not abandon its
  queue has nothing outstanding exactly when no handle is in use, none waits to be closed and no open is
  in flight, so that its successor starts without a delivery of it.
\<close>

theorem drain_ends_empty:
  assumes "(cleanup_step settings)\<^sup>*\<^sup>* startCleanup s"
  shows "(fst (nextCleanupAttempt (cy_queue s)) = None \<longleftrightarrow> (\<forall>(h, p) \<in> set (cu_pending (cy_queue s)). p \<in> set (cy_jobs s))) \<and>
    (\<forall>instant. fst (nextCleanupAttempt (cy_queue s)) = Some instant \<longrightarrow>
      (\<exists>(h, p) \<in> set (cu_pending (cy_queue s)). p \<notin> set (cy_jobs s) \<and> pc_nextAttempt (cu_items (cy_queue s) ! p) = instant) \<and>
      (\<forall>(h, p) \<in> set (cu_pending (cy_queue s)). p \<notin> set (cy_jobs s) \<longrightarrow> instant \<le> pc_nextAttempt (cu_items (cy_queue s) ! p))) \<and>
    (cu_retiring (cy_queue s) \<and> \<not> cu_abandoned (cy_queue s) \<longrightarrow>
      (snd (nextCleanupAttempt (cy_queue s)) \<longleftrightarrow> cy_live s \<noteq> [] \<or> cu_pending (cy_queue s) \<noteq> [] \<or> 0 < cy_opening s))"
proof -
  let ?q = "cy_queue s"
  note ok = reachable_queueOk [OF assms]
  have claimed: "pc_claimed (cu_items ?q ! snd x) \<longleftrightarrow> snd x \<in> set (cy_jobs s)" if "x \<in> set (cu_pending ?q)" for x
    using queueOkD(3) [OF ok that] queueOkD(12) [OF ok] by (auto simp: itemOk_def)
  let ?free = "filter (\<lambda>x. snd x \<notin> set (cy_jobs s)) (cu_pending ?q)"
  let ?instants = "map (\<lambda>x. pc_nextAttempt (cu_items ?q ! snd x)) ?free"
  have free: "filter (\<lambda>x. \<not> pc_claimed (cu_items ?q ! snd x)) (cu_pending ?q) = ?free"
    using claimed by (intro filter_cong) auto
  have earliest: "fst (nextCleanupAttempt ?q) = (if ?instants = [] then None else Some (Min (set ?instants)))"
    using earliest_fold [of "\<lambda>x. pc_claimed (cu_items ?q ! snd x)" "\<lambda>x. pc_nextAttempt (cu_items ?q ! snd x)" "cu_pending ?q" None]
    by (simp add: nextCleanupAttempt_def split_def free Let_def)
  have "fst (nextCleanupAttempt ?q) = None \<longleftrightarrow> (\<forall>x \<in> set (cu_pending ?q). snd x \<in> set (cy_jobs s))"
    by (auto simp: earliest filter_empty_conv)
  moreover have "(\<exists>x \<in> set (cu_pending ?q). snd x \<notin> set (cy_jobs s) \<and> pc_nextAttempt (cu_items ?q ! snd x) = instant) \<and>
      (\<forall>x \<in> set (cu_pending ?q). snd x \<notin> set (cy_jobs s) \<longrightarrow> instant \<le> pc_nextAttempt (cu_items ?q ! snd x))"
    if "fst (nextCleanupAttempt ?q) = Some instant" for instant
  proof -
    from that have instant: "?instants \<noteq> []" "instant = Min (set ?instants)" by (auto simp: earliest split: if_splits)
    then have "instant \<in> set ?instants" using Min_in [OF finite_set, of ?instants] by (metis set_empty)
    moreover have "instant \<le> i" if "i \<in> set ?instants" for i using instant(2) that by simp
    ultimately show ?thesis by auto
  qed
  moreover have "snd (nextCleanupAttempt ?q) \<longleftrightarrow> cy_live s \<noteq> [] \<or> cu_pending ?q \<noteq> [] \<or> 0 < cy_opening s"
    if "cu_retiring ?q" "\<not> cu_abandoned ?q"
    using that queueOkD(6,8) [OF ok] by (auto simp: nextCleanupAttempt_def queued_def)
  ultimately show ?thesis by (simp add: split_def)
qed

section \<open>Witnesses\<close>

definition exampleSettings :: cleanupSettings where
  "exampleSettings = \<lparr>cq_queueLimit = 0, cq_retryBase = 0, cq_retryMax = 0, cq_retryTTL = 0\<rparr>"

definition deliveryInUse :: cleanupSystem where
  "deliveryInUse = \<lparr>cy_queue = bindCleanupHandle exampleHandle (snd (reserveCleanupHandle exampleSettings newPlayCleanup)),
     cy_opening = 0, cy_live = [exampleHandle], cy_jobs = []\<rparr>"

definition closeRunning :: cleanupSystem where
  "closeRunning = (case claimCleanup exampleSettings [(exampleCaller, exampleHandle)] 5 False (cy_queue deliveryInUse) of
     (after, claimed) \<Rightarrow> \<lparr>cy_queue = after, cy_opening = 0, cy_live = [], cy_jobs = claimed\<rparr>)"

lemma exampleHandle_valid: "validHandle exampleHandle"
  by (simp add: validHandle_def exampleHandle_def)

lemma example_reserved: "reserveCleanupHandle exampleSettings newPlayCleanup = (True, newPlayCleanup\<lparr>cu_reservations := 1\<rparr>)"
  by (simp add: reserveCleanupHandle_def newPlayCleanup_def cleanupLimitLocked_def exampleSettings_def
      defaultPlaySessionCleanupQueueLimit_def)

lemma delivery_in_use: "cy_queue deliveryInUse = newPlayCleanup\<lparr>cu_owned := [exampleHandle], cu_wake := True\<rparr>"
  unfolding deliveryInUse_def example_reserved
  by (simp add: bindCleanupHandle_def newPlayCleanup_def exampleHandle_valid List.insert_def)

lemma delivery_reachable: "(cleanup_step exampleSettings)\<^sup>*\<^sup>* startCleanup deliveryInUse"
proof -
  let ?s = "startCleanup\<lparr>cy_queue := newPlayCleanup\<lparr>cu_reservations := 1\<rparr>, cy_opening := 1\<rparr>"
  have "cleanup_step exampleSettings startCleanup ?s"
    using cleanup_step.reserves [of exampleSettings startCleanup] example_reserved by (simp add: startCleanup_def)
  moreover have "cleanup_step exampleSettings ?s deliveryInUse"
    unfolding deliveryInUse_def example_reserved
    using cleanup_step.binds [of ?s exampleHandle exampleSettings]
    by (simp add: startCleanup_def newPlayCleanup_def exampleHandle_valid)
  ultimately show ?thesis by auto
qed

lemma example_claim: "claimCleanup exampleSettings [(exampleCaller, exampleHandle)] 5 False (cy_queue deliveryInUse) =
    (newPlayCleanup\<lparr>cu_owned := [exampleHandle], cu_wake := True, cu_pending := [(exampleHandle, 0)],
       cu_items := [\<lparr>pc_principal = exampleCaller, pc_handle = exampleHandle, pc_attempts = 0, pc_nextAttempt = 5,
         pc_deadline = 600000000005, pc_claimed = True\<rparr>]\<rparr>, [0])"
  by (simp add: claimCleanup_def delivery_in_use newPlayCleanup_def dropOverdue_def adoptClose_def exampleHandle_valid
      cleanupTTL_def exampleSettings_def defaultPlaySessionCleanupRetryTTL_def List.insert_def)

lemma close_running:
  "cy_queue closeRunning = newPlayCleanup\<lparr>cu_owned := [exampleHandle], cu_wake := True, cu_pending := [(exampleHandle, 0)],
     cu_items := [\<lparr>pc_principal = exampleCaller, pc_handle = exampleHandle, pc_attempts = 0, pc_nextAttempt = 5,
       pc_deadline = 600000000005, pc_claimed = True\<rparr>]\<rparr>" "cy_jobs closeRunning = [0]" "cy_live closeRunning = []"
  unfolding closeRunning_def example_claim by simp_all

lemma close_reachable: "(cleanup_step exampleSettings)\<^sup>*\<^sup>* startCleanup closeRunning"
proof -
  have "cleanup_step exampleSettings deliveryInUse closeRunning"
    unfolding closeRunning_def example_claim
    using cleanup_step.claims [of "[(exampleCaller, exampleHandle)]" deliveryInUse, OF _ example_claim]
    by (simp add: deliveryInUse_def)
  with delivery_reachable show ?thesis by (rule rtranclp.rtrancl_into_rtrancl)
qed

theorem cleanup_handles_accounted_witness:
  "cu_reservations (cy_queue closeRunning) = 0 \<and> cy_jobs closeRunning = [0] \<and> card (set (cu_owned (cy_queue closeRunning))) \<le> 4096"
proof -
  have "cy_opening closeRunning = 0" by (simp add: closeRunning_def example_claim)
  then show ?thesis
    using cleanup_handles_accounted [OF close_reachable] close_running
    by (simp add: cleanupLimitLocked_def exampleSettings_def defaultPlaySessionCleanupQueueLimit_def newPlayCleanup_def)
qed

theorem closes_run_when_due_witness:
  "\<exists>p \<in> set (snd (claimCleanup exampleSettings [(exampleCaller, exampleHandle)] 5 False (cy_queue deliveryInUse))). p = 0"
  using closes_run_when_due [OF delivery_reachable _ example_claim] example_claim by (auto simp: deliveryInUse_def)

theorem close_retried_witness:
  "pc_nextAttempt (cu_items (finishCleanup exampleSettings 0 (Some ErrMediaSourceFailed) 10 (cy_queue closeRunning)) ! 0) = 100000010"
proof -
  have "cleanupRetryDelay exampleSettings 1 = 100000000"
    by (simp add: cleanupRetryDelay_def exampleSettings_def retryBase_def retryMaximum_def
        defaultPlaySessionCleanupRetryBase_def defaultPlaySessionCleanupRetryMax_def)
  then show ?thesis
    using close_retried [OF close_reachable, of 0 0 exampleHandle ErrMediaSourceFailed 10, OF _ _ _ _ _ _ refl]
    by (simp add: close_running newPlayCleanup_def)
qed

theorem drain_ends_empty_witness: "\<not> snd (nextCleanupAttempt (retireCleanup newPlayCleanup))"
proof -
  have "(cleanup_step exampleSettings)\<^sup>*\<^sup>* startCleanup (startCleanup\<lparr>cy_queue := retireCleanup newPlayCleanup\<rparr>)"
    using cleanup_step.retires [of exampleSettings startCleanup] by (simp add: startCleanup_def)
  from drain_ends_empty [OF this] show ?thesis
    by (simp add: startCleanup_def retireCleanup_def newPlayCleanup_def)
qed


end
