(* ===== verification/Jellyfin_Profiles.thy ===== *)
theory Jellyfin_Profiles
  imports Delivery_Links
begin

text \<open>
  What a Jellyfin client says it can play (\<open>jellyfin/playback.go\<close>): the bounds of a device profile, the
  constraints of its codec and container profiles, and the capabilities of the playback service that are
  made of them and of the flags of the request. A nil and an empty slice are the same list; the maps of
  the source are lists of their keys or association lists, and nothing ranges over them.
\<close>

section \<open>Device profiles\<close>

record DeviceCondition =
  dc_Condition :: string
  dc_Property :: string
  dc_Value :: string
  dc_IsRequired :: bool

record CodecProfile =
  cdp_Type :: string
  cdp_Codec :: string
  cdp_Conditions :: "DeviceCondition list"

record DeviceContainerProfile =
  dcp_Type :: string
  dcp_Container :: string
  dcp_SubContainer :: string
  dcp_Conditions :: "DeviceCondition list"

record DirectPlayProfile =
  dpp_Container :: string
  dpp_AudioCodec :: string
  dpp_VideoCodec :: string
  dpp_Type :: string

record TranscodingProfile =
  tp_Container :: string
  tp_Type :: string
  tp_VideoCodec :: string
  tp_AudioCodec :: string
  tp_Protocol :: string
  tp_Context :: string
  tp_MaxAudioChannels :: string
  tp_EnableMpegtsM2TsMode :: bool
  tp_BreakOnNonKeyFrames :: bool

record SubtitleProfile =
  sup_Format :: string
  sup_Method :: string

record DeviceProfile =
  dev_Name :: string
  dev_MaxStreamingBitrate :: int
  dev_CodecProfiles :: "CodecProfile list"
  dev_ContainerProfiles :: "DeviceContainerProfile list"
  dev_DirectPlayProfiles :: "DirectPlayProfile list"
  dev_TranscodingProfiles :: "TranscodingProfile list"
  dev_SubtitleProfiles :: "SubtitleProfile list"

record PlaybackInfoRequest =
  pi_UserId :: string
  pi_StartTimeTicks :: int
  pi_IsPlayback :: bool
  pi_AutoOpenLiveStream :: bool
  pi_MaxStreamingBitrate :: int
  pi_MaxAudioChannels :: int
  pi_MediaSourceId :: string
  pi_AudioStreamIndex :: "int option"
  pi_SubtitleStreamIndex :: "int option"
  pi_EnableDirectPlay :: "bool option"
  pi_EnableDirectStream :: "bool option"
  pi_EnableTranscoding :: "bool option"
  pi_AllowVideoStreamCopy :: "bool option"
  pi_AllowAudioStreamCopy :: "bool option"
  pi_DeviceProfile :: DeviceProfile

datatype compat_error = ErrInvalidQuery | PlaybackError playback_error

definition maximumRawDeviceProfileEntries :: nat where
  "maximumRawDeviceProfileEntries = 256"

definition maximumCompatClientBitrate :: int where
  "maximumCompatClientBitrate = 2147483647"

definition maximumCompatPlaybackBitrate :: int where
  "maximumCompatPlaybackBitrate = 200000000"

text \<open>A loop whose body may return an error.\<close>

fun foldResult :: "('a \<Rightarrow> 's \<Rightarrow> 'e + 's) \<Rightarrow> 'a list \<Rightarrow> 's \<Rightarrow> 'e + 's" where
  "foldResult f [] s = Inr s"
| "foldResult f (x # xs) s = (case f x s of Inl e \<Rightarrow> Inl e | Inr t \<Rightarrow> foldResult f xs t)"

section \<open>Lists of capabilities\<close>

definition normalizeCapability :: "string \<Rightarrow> string" where
  "normalizeCapability value = ToLower (TrimSpace value)"

definition normalizedContainer :: "string \<Rightarrow> string" where
  "normalizedContainer value =
     (if normalizeCapability value \<in> {''m4v'', ''mov''} then ''mp4''
      else if normalizeCapability value = ''m3u8'' then ''hls''
      else normalizeCapability value)"

definition containsFold :: "string list \<Rightarrow> string \<Rightarrow> bool" where
  "containsFold values v = list_ex (\<lambda>candidate. EqualFold candidate v) values"

definition appendUniqueFold :: "string list \<Rightarrow> string \<Rightarrow> string list" where
  "appendUniqueFold values v = (if v = [] \<or> containsFold values v then values else values @ [v])"

definition capabilityList :: "string \<Rightarrow> compat_error + string list" where
  "capabilityList text =
     (if TrimSpace text = [] then Inr []
      else let parts = Split text (CHR '','')
        in if 32 < length parts then Inl ErrInvalidQuery
           else foldResult (\<lambda>part result.
             let part = normalizeCapability part
             in if part = [] \<or> 64 < length part then Inl ErrInvalidQuery else Inr (appendUniqueFold result part)) parts [])"

definition transcodingProfileMaxAudioChannels :: "string \<Rightarrow> compat_error + int" where
  "transcodingProfileMaxAudioChannels raw =
     (if TrimSpace raw = [] then Inr 0
      else (case ParseInt (TrimSpace raw) of None \<Rightarrow> Inl ErrInvalidQuery
        | Some channels \<Rightarrow> if channels < 1 \<or> 32 < channels then Inl ErrInvalidQuery else Inr channels))"

definition effectiveBitrate :: "int \<Rightarrow> int \<Rightarrow> compat_error + int" where
  "effectiveBitrate requested profile =
     (let bitrate = (if requested \<le> 0 \<or> 0 < profile \<and> profile < requested then profile else requested)
      in if bitrate = 0 then Inr 0
         else if bitrate < 64000 \<or> maximumCompatClientBitrate < bitrate then Inl ErrInvalidQuery
         else Inr (go_div ((if maximumCompatPlaybackBitrate < bitrate then maximumCompatPlaybackBitrate else bitrate) + 999) 1000))"

section \<open>Container profiles\<close>

definition numericProperties :: "string list" where
  "numericProperties = [''width'', ''height'', ''videolevel'', ''videobitrate'', ''numstreams'', ''numvideostreams'', ''numaudiostreams'']"

text \<open>The result is the error, if any.\<close>

definition validateContainerProfileCondition :: "DeviceCondition \<Rightarrow> compat_error option" where
  "validateContainerProfileCondition condition =
     (let operator = normalizeCapability (dc_Condition condition);
          property = normalizeCapability (dc_Property condition);
          text = TrimSpace (dc_Value condition);
          numeric = (property \<in> set numericProperties)
      in if \<not> numeric \<and> property \<noteq> ''videoprofile'' \<and> property \<noteq> ''videorangetype'' then Some ErrInvalidQuery
         else if operator \<notin> {''equals'', ''notequals'', ''lessthanequal'', ''greaterthanequal'', ''equalsany''} then Some ErrInvalidQuery
         else if operator \<in> {''lessthanequal'', ''greaterthanequal''} \<and> \<not> numeric then Some ErrInvalidQuery
         else let values = (if operator = ''equalsany'' then Split text (CHR ''|'') else [text])
           in if operator = ''equalsany'' \<and> (length values = 0 \<or> 32 < length values) then Some ErrInvalidQuery
              else if list_ex (\<lambda>raw. let candidate = TrimSpace raw
                  in candidate = [] \<or> 64 < length candidate \<or>
                     numeric \<and> (case ParseInt candidate of None \<Rightarrow> True | Some number \<Rightarrow> number < 0)) values
              then Some ErrInvalidQuery else None)"

definition containerCondition :: "DeviceCondition \<Rightarrow> ProfileCondition" where
  "containerCondition condition = \<lparr>pc_Condition = normalizeCapability (dc_Condition condition),
     pc_Property = normalizeCapability (dc_Property condition), pc_Value = TrimSpace (dc_Value condition),
     pc_Required = dc_IsRequired condition\<rparr>"

definition containerProfileStep ::
  "DeviceContainerProfile \<Rightarrow> ContainerProfile list \<Rightarrow> compat_error + ContainerProfile list" where
  "containerProfileStep profile result =
     (let kind = normalizeCapability (dcp_Type profile)
      in if kind = [] \<or> kind \<in> {''audio'', ''photo'', ''subtitle'', ''lyric''} then Inr result
         else if kind \<noteq> ''video'' then Inl ErrInvalidQuery
         else (case capabilityList (dcp_Container profile) of Inl e \<Rightarrow> Inl ErrInvalidQuery
           | Inr containers \<Rightarrow>
               if containers = [] then Inl ErrInvalidQuery
               else if TrimSpace (dcp_SubContainer profile) \<noteq> [] \<and> isl (capabilityList (dcp_SubContainer profile)) then Inl ErrInvalidQuery
               else (case foldResult (\<lambda>condition conditions. case validateContainerProfileCondition condition of
                     Some e \<Rightarrow> Inl e | None \<Rightarrow> Inr (conditions @ [containerCondition condition])) (dcp_Conditions profile) [] of
                   Inl e \<Rightarrow> Inl e
                 | Inr conditions \<Rightarrow>
                     Inr (result @ [\<lparr>cp_ContainersCSV = joinWith '','' (foldl appendUniqueFold [] (map normalizedContainer containers)),
                       cp_Conditions = conditions\<rparr>]))))"

definition containerProfileConstraints :: "DeviceContainerProfile list \<Rightarrow> compat_error + ContainerProfile list" where
  "containerProfileConstraints profiles = foldResult containerProfileStep profiles []"

section \<open>Bounds of a device profile\<close>

definition boundedList :: "string \<Rightarrow> bool" where
  "boundedList text \<longleftrightarrow> length text \<le> 2048"

definition boundedScalar :: "string \<Rightarrow> bool" where
  "boundedScalar text \<longleftrightarrow> length text \<le> 64"

definition boundedConditions :: "DeviceCondition list \<Rightarrow> bool" where
  "boundedConditions conditions \<longleftrightarrow>
     list_all (\<lambda>c. boundedScalar (dc_Condition c) \<and> boundedScalar (dc_Property c) \<and> boundedScalar (dc_Value c)) conditions"

definition validDeviceProfileBounds :: "DeviceProfile \<Rightarrow> bool" where
  "validDeviceProfileBounds profile \<longleftrightarrow>
     (if 128 < length (dev_Name profile) \<or> maximumRawDeviceProfileEntries < length (dev_CodecProfiles profile) \<or>
         maximumRawDeviceProfileEntries < length (dev_ContainerProfiles profile) \<or>
         maximumRawDeviceProfileEntries < length (dev_DirectPlayProfiles profile) \<or>
         maximumRawDeviceProfileEntries < length (dev_TranscodingProfiles profile) \<or>
         maximumRawDeviceProfileEntries < length (dev_SubtitleProfiles profile) \<or>
         dev_MaxStreamingBitrate profile \<noteq> 0 \<and>
           (dev_MaxStreamingBitrate profile < 64000 \<or> maximumCompatClientBitrate < dev_MaxStreamingBitrate profile) then False
      else if \<not> list_all (\<lambda>codec. boundedScalar (cdp_Type codec) \<and> boundedList (cdp_Codec codec) \<and> length (cdp_Conditions codec) \<le> 32 \<and>
          boundedConditions (cdp_Conditions codec)) (dev_CodecProfiles profile) then False
      else if \<not> list_all (\<lambda>container. boundedScalar (dcp_Type container) \<and> boundedList (dcp_Container container) \<and>
          boundedList (dcp_SubContainer container) \<and> length (dcp_Conditions container) \<le> 32 \<and>
          boundedConditions (dcp_Conditions container)) (dev_ContainerProfiles profile) then False
      else if \<not> list_all (\<lambda>direct. boundedList (dpp_Container direct) \<and> boundedList (dpp_AudioCodec direct) \<and>
          boundedList (dpp_VideoCodec direct) \<and> boundedScalar (dpp_Type direct)) (dev_DirectPlayProfiles profile) then False
      else if \<not> list_all (\<lambda>transcode. boundedList (tp_Container transcode) \<and> boundedList (tp_AudioCodec transcode) \<and>
          boundedList (tp_VideoCodec transcode) \<and> boundedScalar (tp_Type transcode) \<and> boundedScalar (tp_Protocol transcode) \<and>
          boundedScalar (tp_Context transcode) \<and> boundedScalar (tp_MaxAudioChannels transcode) \<and>
          \<not> isl (transcodingProfileMaxAudioChannels (tp_MaxAudioChannels transcode))) (dev_TranscodingProfiles profile) then False
      else if \<not> list_all (\<lambda>subtitle. boundedList (sup_Format subtitle) \<and> boundedScalar (sup_Method subtitle)) (dev_SubtitleProfiles profile) then False
      else \<not> isl (containerProfileConstraints (dev_ContainerProfiles profile)))"

definition emptyDeviceProfile :: "DeviceProfile \<Rightarrow> bool" where
  "emptyDeviceProfile profile \<longleftrightarrow> length (dev_CodecProfiles profile) = 0 \<and> length (dev_ContainerProfiles profile) = 0 \<and>
     length (dev_DirectPlayProfiles profile) = 0 \<and> length (dev_TranscodingProfiles profile) = 0 \<and>
     length (dev_SubtitleProfiles profile) = 0"

section \<open>Codec profiles\<close>

definition upper_char :: "char \<Rightarrow> char" where
  "upper_char c = (if 97 \<le> (of_char c :: nat) \<and> (of_char c :: nat) \<le> 122 then char_of ((of_char c :: nat) - 32) else c)"

definition ToUpper :: "string \<Rightarrow> string" where
  "ToUpper s = map upper_char s"

definition codecConstraintKey :: "string \<Rightarrow> string" where
  "codecConstraintKey codec =
     (if normalizeCapability codec \<in> {''hevc'', ''h265'', ''h.265'', ''hev1'', ''hvc1''} then ''h265''
      else if normalizeCapability codec \<in> {''avc'', ''avc1'', ''h.264'', ''x264''} then ''h264''
      else normalizeCapability codec)"

definition unknownCondition :: "DeviceCondition \<Rightarrow> MediaProfile \<Rightarrow> MediaProfile" where
  "unknownCondition condition c = c\<lparr>mp_RequiredConditionUnknown := mp_RequiredConditionUnknown c \<or> dc_IsRequired condition\<rparr>"

definition codecCondition :: "DeviceCondition \<Rightarrow> MediaProfile \<Rightarrow> MediaProfile" where
  "codecCondition condition c =
     (let property = ToLower (TrimSpace (dc_Property condition)); operator = ToLower (TrimSpace (dc_Condition condition))
      in if property = ''videobitdepth'' \<and> operator = ''lessthanequal''
         then (case ParseInt (TrimSpace (dc_Value condition)) of None \<Rightarrow> unknownCondition condition c
           | Some bitDepth \<Rightarrow>
               if bitDepth < 8 \<or> 16 < bitDepth then unknownCondition condition c
               else if mp_MaximumVideoBitDepth c = 0 \<or> bitDepth < mp_MaximumVideoBitDepth c
               then c\<lparr>mp_MaximumVideoBitDepth := bitDepth\<rparr> else c)
         else if property = ''videolevel'' \<and> operator = ''lessthanequal''
         then (case ParseInt (TrimSpace (dc_Value condition)) of None \<Rightarrow> unknownCondition condition c
           | Some level \<Rightarrow>
               if level < 1 \<or> 1000 < level then unknownCondition condition c
               else c\<lparr>mp_MaximumVideoLevel := (if mp_MaximumVideoLevel c = 0 \<or> level < mp_MaximumVideoLevel c then level else mp_MaximumVideoLevel c),
                 mp_VideoLevelRequired := mp_VideoLevelRequired c \<or> dc_IsRequired condition\<rparr>)
         else if property = ''videorangetype'' \<and> operator = ''notequals''
         then (let videoRange = ToUpper (TrimSpace (dc_Value condition))
           in if videoRange = [] \<or> mp_ExcludedVideoRange c \<noteq> [] \<and> \<not> EqualFold (mp_ExcludedVideoRange c) videoRange
              then unknownCondition condition c
              else c\<lparr>mp_ExcludedVideoRange := videoRange, mp_VideoRangeRequired := mp_VideoRangeRequired c \<or> dc_IsRequired condition,
                mp_SupportsNonDolbyVisionHDR := (videoRange = ''DOVI'' \<or> mp_SupportsNonDolbyVisionHDR c)\<rparr>)
         else unknownCondition condition c)"

type_synonym codec_constraints = "(string \<times> MediaProfile) list"

definition constraintFor :: "codec_constraints \<Rightarrow> string \<Rightarrow> MediaProfile" where
  "constraintFor constraints key = (case map_of constraints key of None \<Rightarrow> zeroMediaProfile | Some c \<Rightarrow> c)"

definition codecProfileStep :: "CodecProfile \<Rightarrow> codec_constraints \<Rightarrow> compat_error + codec_constraints" where
  "codecProfileStep profile constraints =
     (case capabilityList (cdp_Codec profile) of Inl e \<Rightarrow> Inl e
      | Inr codecs \<Rightarrow>
          if \<not> EqualFold (TrimSpace (cdp_Type profile)) ''Video'' then Inr constraints
          else Inr (fold (\<lambda>codec cs. AList.update (codecConstraintKey codec)
            (fold codecCondition (cdp_Conditions profile) (constraintFor cs (codecConstraintKey codec))) cs) codecs constraints))"

definition codecProfileConstraints :: "CodecProfile list \<Rightarrow> compat_error + codec_constraints" where
  "codecProfileConstraints profiles = foldResult codecProfileStep profiles []"

section \<open>Capabilities\<close>

text \<open>The local variables of \<open>playbackCapabilities\<close> that its loops change.\<close>

record capabilityBuild =
  cb_capabilities :: Capabilities
  cb_profiles :: "string list"
  cb_allowTranscode :: bool

definition playbackFlag :: "bool option \<Rightarrow> bool \<Rightarrow> bool" where
  "playbackFlag flag fallback = (case flag of None \<Rightarrow> fallback | Some b \<Rightarrow> b)"

definition addProfile ::
  "codec_constraints \<Rightarrow> string list \<Rightarrow> string \<Rightarrow> string list \<Rightarrow> bool \<Rightarrow> capabilityBuild \<Rightarrow> compat_error + capabilityBuild" where
  "addProfile constraints containers rawVideo audios direct build =
     (let video = normalizeCapability rawVideo
      in if containers = [] \<or> video = [] then Inr build
         else let normalizedContainers = foldl appendUniqueFold [] (map normalizedContainer containers);
                  normalizedAudios = foldl appendUniqueFold [] (map normalizeCapability audios);
                  containerList = joinWith '','' normalizedContainers; audioList = joinWith '','' normalizedAudios;
                  key = FormatBool direct @ [CHR 0x00] @ containerList @ [CHR 0x00] @ video @ [CHR 0x00] @ audioList
           in if key \<in> set (cb_profiles build) then Inr build
              else if 32 \<le> length (cb_profiles build) then Inl ErrInvalidQuery
              else let constraint = constraintFor constraints (codecConstraintKey video);
                       base = (if direct then constraint\<lparr>mp_DirectPlay := True\<rparr>
                         else zeroMediaProfile\<lparr>mp_Transcoding := True, mp_MaximumVideoBitDepth := mp_MaximumVideoBitDepth constraint\<rparr>);
                       named = base\<lparr>mp_Container := hd normalizedContainers, mp_VideoCodec := video, mp_ContainersCSV := containerList\<rparr>;
                       mediaProfile = (if normalizedAudios \<noteq> []
                         then named\<lparr>mp_AudioCodec := hd normalizedAudios, mp_AudioCodecsCSV := audioList\<rparr> else named)
                in Inr (build\<lparr>cb_profiles := cb_profiles build @ [key],
                     cb_capabilities := (cb_capabilities build)\<lparr>cap_MediaProfiles :=
                       cap_MediaProfiles (cb_capabilities build) @ [mediaProfile]\<rparr>\<rparr>))"

text \<open>\<open>appendUnique\<close> on a field of the capabilities.\<close>

definition addProtocol :: "string \<Rightarrow> capabilityBuild \<Rightarrow> capabilityBuild" where
  "addProtocol v build = build\<lparr>cb_capabilities := (cb_capabilities build)\<lparr>cap_StreamingProtocols :=
     appendUniqueFold (cap_StreamingProtocols (cb_capabilities build)) v\<rparr>\<rparr>"

definition addContainer :: "string \<Rightarrow> capabilityBuild \<Rightarrow> capabilityBuild" where
  "addContainer v build = build\<lparr>cb_capabilities := (cb_capabilities build)\<lparr>cap_Containers :=
     appendUniqueFold (cap_Containers (cb_capabilities build)) v\<rparr>\<rparr>"

definition addVideoCodec :: "string \<Rightarrow> capabilityBuild \<Rightarrow> capabilityBuild" where
  "addVideoCodec v build = build\<lparr>cb_capabilities := (cb_capabilities build)\<lparr>cap_VideoCodecs :=
     appendUniqueFold (cap_VideoCodecs (cb_capabilities build)) v\<rparr>\<rparr>"

definition addAudioCodec :: "string \<Rightarrow> capabilityBuild \<Rightarrow> capabilityBuild" where
  "addAudioCodec v build = build\<lparr>cb_capabilities := (cb_capabilities build)\<lparr>cap_AudioCodecs :=
     appendUniqueFold (cap_AudioCodecs (cb_capabilities build)) v\<rparr>\<rparr>"

definition addMode :: "string \<Rightarrow> capabilityBuild \<Rightarrow> capabilityBuild" where
  "addMode v build = build\<lparr>cb_capabilities := (cb_capabilities build)\<lparr>cap_ProcessingModes :=
     appendUniqueFold (cap_ProcessingModes (cb_capabilities build)) v\<rparr>\<rparr>"

definition addSubtitleMode :: "string \<Rightarrow> capabilityBuild \<Rightarrow> capabilityBuild" where
  "addSubtitleMode v build = build\<lparr>cb_capabilities := (cb_capabilities build)\<lparr>cap_SubtitleModes :=
     appendUniqueFold (cap_SubtitleModes (cb_capabilities build)) v\<rparr>\<rparr>"

definition directContainer :: "string \<Rightarrow> capabilityBuild \<Rightarrow> capabilityBuild" where
  "directContainer container build =
     addContainer (normalizedContainer container)
       (addProtocol (if container = ''m3u8'' \<or> container = ''hls'' then ''hls'' else ''http'') build)"

definition directProfileStep :: "codec_constraints \<Rightarrow> DirectPlayProfile \<Rightarrow> capabilityBuild \<Rightarrow> compat_error + capabilityBuild" where
  "directProfileStep constraints direct build =
     (if dpp_Type direct \<noteq> [] \<and> \<not> EqualFold (dpp_Type direct) ''Video'' then Inr build
      else (case capabilityList (dpp_Container direct) of Inl e \<Rightarrow> Inl e
        | Inr containers \<Rightarrow> (case capabilityList (dpp_VideoCodec direct) of Inl e \<Rightarrow> Inl e
        | Inr videos \<Rightarrow> (case capabilityList (dpp_AudioCodec direct) of Inl e \<Rightarrow> Inl e
        | Inr audios \<Rightarrow>
            foldResult (\<lambda>video b. addProfile constraints (map normalizedContainer containers) video audios True (addVideoCodec video b))
              videos (fold addAudioCodec audios (fold directContainer containers build))))))"

text \<open>The container of the segments, empty when the profile is not one for HLS that is supported.\<close>

definition hlsTranscodingProfileSegmentContainer :: "TranscodingProfile \<Rightarrow> compat_error + string \<times> bool" where
  "hlsTranscodingProfileSegmentContainer profile =
     (if tp_Type profile \<noteq> [] \<and> \<not> EqualFold (tp_Type profile) ''Video'' \<or>
         tp_Context profile \<noteq> [] \<and> \<not> EqualFold (tp_Context profile) ''Streaming'' \<or>
         normalizeCapability (tp_Protocol profile) \<noteq> ''hls'' then Inr ([], False)
      else (case capabilityList (tp_Container profile) of Inl e \<Rightarrow> Inl e
        | Inr containers \<Rightarrow>
            (let segmentContainer = foldl (\<lambda>segment container.
               if normalizedContainer container = ''mp4'' then (if segment = [] then ''mp4'' else segment)
               else if normalizedContainer container \<in> {''hls'', ''ts'', ''mpegts''} then ''ts''
               else segment) [] containers
             in Inr (segmentContainer, segmentContainer \<noteq> []))))"

definition segmentContainerStep :: "TranscodingProfile \<Rightarrow> capabilityBuild \<Rightarrow> compat_error + capabilityBuild" where
  "segmentContainerStep transcode build =
     (case hlsTranscodingProfileSegmentContainer transcode of Inl e \<Rightarrow> Inl e
      | Inr (segmentContainer, supported) \<Rightarrow>
          if supported \<and> (cap_HLSSegmentContainer (cb_capabilities build) = [] \<or> segmentContainer = ''ts'')
          then Inr (build\<lparr>cb_capabilities := (cb_capabilities build)\<lparr>cap_HLSSegmentContainer := segmentContainer\<rparr>\<rparr>)
          else Inr build)"

text \<open>The flags of the request, with their defaults.\<close>

record playbackFlags =
  pf_directPlay :: bool
  pf_directStream :: bool
  pf_enableTranscoding :: bool
  pf_allowVideoCopy :: bool
  pf_allowAudioCopy :: bool

definition requestFlags :: "PlaybackInfoRequest \<Rightarrow> playbackFlags" where
  "requestFlags input = \<lparr>pf_directPlay = playbackFlag (pi_EnableDirectPlay input) True,
     pf_directStream = playbackFlag (pi_EnableDirectStream input) True,
     pf_enableTranscoding = playbackFlag (pi_EnableTranscoding input) True,
     pf_allowVideoCopy = playbackFlag (pi_AllowVideoStreamCopy input) True,
     pf_allowAudioCopy = playbackFlag (pi_AllowAudioStreamCopy input) True\<rparr>"

definition remuxAllowed :: "playbackFlags \<Rightarrow> bool" where
  "remuxAllowed flags \<longleftrightarrow> pf_directStream flags \<and> pf_allowVideoCopy flags \<and> pf_allowAudioCopy flags"

definition transcodeAudioStep :: "playbackFlags \<Rightarrow> string \<Rightarrow> string \<Rightarrow> capabilityBuild \<Rightarrow> capabilityBuild" where
  "transcodeAudioStep flags video audio build =
     (let transcoded = (if pf_enableTranscoding flags \<and> video = ''h264'' \<and> audio = ''aac''
            then (if pf_allowVideoCopy flags then addMode ''transcode_audio'' (addMode ''transcode'' build)
              else addMode ''transcode'' build)\<lparr>cb_allowTranscode := True\<rparr>
            else build)
      in if remuxAllowed flags then addMode ''remux'' transcoded else transcoded)"

definition transcodeProfileStep ::
  "codec_constraints \<Rightarrow> playbackFlags \<Rightarrow> TranscodingProfile \<Rightarrow> capabilityBuild \<Rightarrow> compat_error + capabilityBuild" where
  "transcodeProfileStep constraints flags transcode build =
     (case hlsTranscodingProfileSegmentContainer transcode of Inl e \<Rightarrow> Inl e
      | Inr (segmentContainer, supported) \<Rightarrow>
          if \<not> supported \<or> segmentContainer \<noteq> cap_HLSSegmentContainer (cb_capabilities build) then Inr build
          else (case capabilityList (tp_VideoCodec transcode) of Inl e \<Rightarrow> Inl e
            | Inr videos \<Rightarrow> (case capabilityList (tp_AudioCodec transcode) of Inl e \<Rightarrow> Inl e
            | Inr audios \<Rightarrow>
                if isl (transcodingProfileMaxAudioChannels (tp_MaxAudioChannels transcode)) then Inl ErrInvalidQuery
                else foldResult (\<lambda>video b. case addProfile constraints [''mp4''] video audios False b of Inl e \<Rightarrow> Inl e
                    | Inr added \<Rightarrow> Inr (fold (transcodeAudioStep flags video) audios added))
                  videos (addProtocol ''hls'' build))))"

definition subtitleStep :: "SubtitleProfile \<Rightarrow> capabilityBuild \<Rightarrow> compat_error + capabilityBuild" where
  "subtitleStep subtitle build =
     (if 64 < length (sup_Format subtitle) \<or> 64 < length (sup_Method subtitle) then Inl ErrInvalidQuery
      else if ToLower (TrimSpace (sup_Method subtitle)) \<in> {''external'', ''embed''} then Inr (addSubtitleMode ''external'' build)
      else if ToLower (TrimSpace (sup_Method subtitle)) \<in> {''encode'', ''burn''} then Inr (addSubtitleMode ''burn'' build)
      else Inr build)"

definition startBuild :: "PlaybackInfoRequest \<Rightarrow> ContainerProfile list \<Rightarrow> capabilityBuild" where
  "startBuild input containers = \<lparr>cb_capabilities = zeroCapabilities\<lparr>cap_MaximumAudioChannels := pi_MaxAudioChannels input,
     cap_PreferDirectPlay := Some (pf_directPlay (requestFlags input)), cap_ContainerProfiles := containers\<rparr>,
     cb_profiles = [], cb_allowTranscode = False\<rparr>"

definition finishBuild :: "PlaybackInfoRequest \<Rightarrow> capabilityBuild \<Rightarrow> compat_error + Capabilities \<times> bool" where
  "finishBuild input build =
     (case effectiveBitrate (pi_MaxStreamingBitrate input) (dev_MaxStreamingBitrate (pi_DeviceProfile input)) of Inl e \<Rightarrow> Inl e
      | Inr bitrate \<Rightarrow>
          (let capabilities = (cb_capabilities build)\<lparr>cap_MaximumVideoBitrateKbps := bitrate, cap_TranscodeVideoBitrateKbps := bitrate\<rparr>
           in if cap_MediaProfiles capabilities = [] \<or> cap_StreamingProtocols capabilities = []
              then Inl (PlaybackError ErrClientCapabilityMissing)
              else Inr (capabilities, cb_allowTranscode build)))"

text \<open>\<open>playbackCapabilities\<close> of package \<open>jellyfin\<close>.\<close>

definition compatPlaybackCapabilities :: "PlaybackInfoRequest \<Rightarrow> compat_error + Capabilities \<times> bool" where
  "compatPlaybackCapabilities input =
     (let profile = pi_DeviceProfile input; flags = requestFlags input
      in if \<not> validDeviceProfileBounds profile then Inl ErrInvalidQuery
         else (case codecProfileConstraints (dev_CodecProfiles profile) of Inl e \<Rightarrow> Inl e
           | Inr codecs \<Rightarrow> (case containerProfileConstraints (dev_ContainerProfiles profile) of Inl e \<Rightarrow> Inl e
           | Inr containers \<Rightarrow>
           (case foldResult (directProfileStep codecs)
               (if pf_directPlay flags \<or> pf_directStream flags then dev_DirectPlayProfiles profile else []) (startBuild input containers) of
             Inl e \<Rightarrow> Inl e
           | Inr direct \<Rightarrow>
           (let remuxed = (if remuxAllowed flags then addMode ''remux'' direct else direct);
                transcodings = (if pf_directStream flags \<or> pf_enableTranscoding flags then dev_TranscodingProfiles profile else [])
            in (case foldResult segmentContainerStep transcodings remuxed of Inl e \<Rightarrow> Inl e
           | Inr segmented \<Rightarrow> (case foldResult (transcodeProfileStep codecs flags) transcodings segmented of Inl e \<Rightarrow> Inl e
           | Inr transcoded \<Rightarrow> (case foldResult subtitleStep (dev_SubtitleProfiles profile) transcoded of Inl e \<Rightarrow> Inl e
           | Inr subtitled \<Rightarrow> finishBuild input subtitled))))))))"

definition conservativeCompatibilityProfile :: DeviceProfile where
  "conservativeCompatibilityProfile = \<lparr>dev_Name = [], dev_MaxStreamingBitrate = 0, dev_CodecProfiles = [], dev_ContainerProfiles = [],
     dev_DirectPlayProfiles = [\<lparr>dpp_Container = ''mp4'', dpp_AudioCodec = ''aac'', dpp_VideoCodec = ''h264'', dpp_Type = ''Video''\<rparr>],
     dev_TranscodingProfiles = [\<lparr>tp_Container = ''mp4'', tp_Type = ''Video'', tp_VideoCodec = ''h264'', tp_AudioCodec = ''aac'',
       tp_Protocol = ''hls'', tp_Context = ''Streaming'', tp_MaxAudioChannels = [], tp_EnableMpegtsM2TsMode = False,
       tp_BreakOnNonKeyFrames = False\<rparr>],
     dev_SubtitleProfiles = [\<lparr>sup_Format = ''srt,vtt'', sup_Method = ''External''\<rparr>]\<rparr>"

text \<open>\<open>stored\<close> is the device profile the play session registry has for the session.\<close>

definition effectivePlaybackCapabilities :: "DeviceProfile option \<Rightarrow> PlaybackInfoRequest \<Rightarrow> compat_error + Capabilities \<times> bool" where
  "effectivePlaybackCapabilities stored input =
     (let asked = (if emptyDeviceProfile (pi_DeviceProfile input)
            then input\<lparr>pi_DeviceProfile := (case stored of None \<Rightarrow> conservativeCompatibilityProfile | Some p \<Rightarrow> p)\<rparr> else input);
          result = compatPlaybackCapabilities asked
      in if \<not> isl result \<or> \<not> validDeviceProfileBounds (pi_DeviceProfile asked) then result
         else compatPlaybackCapabilities (asked\<lparr>pi_DeviceProfile := conservativeCompatibilityProfile\<lparr>dev_MaxStreamingBitrate :=
           dev_MaxStreamingBitrate (pi_DeviceProfile asked)\<rparr>\<rparr>))"

definition validPlaybackTrackIndex :: "int option \<Rightarrow> bool" where
  "validPlaybackTrackIndex index \<longleftrightarrow> (case index of None \<Rightarrow> True | Some i \<Rightarrow> -1 \<le> i \<and> i \<le> 1024)"

text \<open>The bounds at the end of \<open>parsePlaybackInfoRequest\<close>.\<close>

definition boundedPlaybackInfo :: "PlaybackInfoRequest \<Rightarrow> bool" where
  "boundedPlaybackInfo input \<longleftrightarrow>
     \<not> (128 < length (pi_UserId input) \<or> 128 < length (pi_MediaSourceId input) \<or> pi_StartTimeTicks input < 0 \<or>
        7 * 24 * 60 * 60 * 10000000 < pi_StartTimeTicks input \<or> pi_MaxStreamingBitrate input < 0 \<or>
        maximumCompatClientBitrate < pi_MaxStreamingBitrate input \<or> pi_MaxAudioChannels input < 0 \<or> 32 < pi_MaxAudioChannels input \<or>
        \<not> validPlaybackTrackIndex (pi_AudioStreamIndex input) \<or> \<not> validPlaybackTrackIndex (pi_SubtitleStreamIndex input))"

section \<open>Usable sources\<close>

definition supportsHLSRemux :: "Capabilities \<Rightarrow> bool" where
  "supportsHLSRemux capabilities \<longleftrightarrow>
     containsFold (cap_ProcessingModes capabilities) ''remux'' \<and> containsFold (cap_StreamingProtocols capabilities) ''hls''"

section \<open>Facts about loops and lists of capabilities\<close>

lemma foldResult_invariant:
  assumes "foldResult f xs s = Inr t" "P s" "\<And>x u v. x \<in> set xs \<Longrightarrow> f x u = Inr v \<Longrightarrow> P u \<Longrightarrow> P v"
  shows "P t"
  using assms
proof (induction xs arbitrary: s)
  case (Cons x xs)
  from Cons.prems(1) obtain u where u: "f x s = Inr u" "foldResult f xs u = Inr t" by (auto split: sum.splits)
  have "P u" by (rule Cons.prems(3) [OF _ u(1) Cons.prems(2)]) simp
  from Cons.IH [OF u(2) this] Cons.prems(3) show ?case by auto
qed simp

lemma fold_invariant:
  assumes "P s" "\<And>x u. x \<in> set xs \<Longrightarrow> P u \<Longrightarrow> P (f x u)"
  shows "P (fold f xs s)"
  using assms by (induction xs arbitrary: s) auto

text \<open>A capability as \<open>capabilityList\<close> returns it.\<close>

definition goodToken :: "string \<Rightarrow> bool" where
  "goodToken p \<longleftrightarrow> p \<noteq> [] \<and> length p \<le> 64 \<and> normalizeCapability p = p \<and> CHR '','' \<notin> set p"

definition csvSize :: "string list \<Rightarrow> nat" where
  "csvSize parts = (\<Sum>p \<leftarrow> parts. Suc (length p))"

lemma normalize_idem [simp]: "normalizeCapability (normalizeCapability s) = normalizeCapability s"
  by (simp add: normalizeCapability_def TrimSpace_ToLower)

lemma length_dropWhile: "length (dropWhile P xs) \<le> length xs"
  by (rule length_dropWhile_le)

lemma length_TrimSpace: "length (TrimSpace s) \<le> length s"
  unfolding TrimSpace_def by (metis length_dropWhile_le length_rev order_trans)

lemma length_normalize: "length (normalizeCapability s) \<le> length s"
  by (simp add: normalizeCapability_def length_TrimSpace)

lemma set_TrimSpace: "set (TrimSpace s) \<subseteq> set s"
  unfolding TrimSpace_def by (metis set_dropWhileD set_rev subsetI)

lemma lower_comma: "lower_char c = CHR '','' \<longleftrightarrow> c = CHR '',''"
proof -
  have "(of_char (lower_char c) :: nat) = 44 \<longleftrightarrow> (of_char c :: nat) = 44"
    by (simp add: of_char_lower)
  moreover have "(of_char d :: nat) = 44 \<longleftrightarrow> d = CHR '',''" for d
    using of_char_eq_iff [of d "CHR '',''", where ?'a = nat] by simp
  ultimately show ?thesis by simp
qed

lemma normalize_no_comma:
  assumes "CHR '','' \<notin> set s"
  shows "CHR '','' \<notin> set (normalizeCapability s)"
proof
  assume "CHR '','' \<in> set (normalizeCapability s)"
  then obtain c where c: "c \<in> set (TrimSpace s)" "CHR '','' = lower_char c"
    by (auto simp: normalizeCapability_def ToLower_def)
  then have "c = CHR '',''" using lower_comma [of c] by metis
  with c(1) set_TrimSpace [of s] assms show False by blast
qed

lemma goodToken_EqualFold: "goodToken p \<Longrightarrow> goodToken q \<Longrightarrow> EqualFold p q \<longleftrightarrow> p = q"
proof -
  have "ToLower p = p" if "normalizeCapability p = p" for p
    using that by (metis normalizeCapability_def ToLower_idem)
  then show "goodToken p \<Longrightarrow> goodToken q \<Longrightarrow> EqualFold p q \<longleftrightarrow> p = q"
    by (simp add: EqualFold_def goodToken_def)
qed

lemma goodToken_trim: "goodToken p \<Longrightarrow> TrimSpace p = p"
  by (metis goodToken_def normalizeCapability_def TrimSpace_ToLower TrimSpace_idem)

lemma goodToken_valid: "goodToken p \<Longrightarrow> validToken p"
  using goodToken_trim [of p] by (cases p) (auto simp: goodToken_def validToken_def)

lemma goodToken_container:
  assumes "goodToken p"
  shows "goodToken (normalizedContainer p)" "length (normalizedContainer p) \<le> length p"
proof -
  have literals: "goodToken ''mp4''" "goodToken ''hls''" by code_simp+
  show "goodToken (normalizedContainer p)" using assms literals by (auto simp: normalizedContainer_def goodToken_def)
  show "length (normalizedContainer p) \<le> length p"
    using assms by (auto simp: normalizedContainer_def goodToken_def)
qed

lemma appendUnique_good:
  assumes "list_all goodToken xs" "distinct xs" "goodToken v"
  shows "list_all goodToken (appendUniqueFold xs v)" "distinct (appendUniqueFold xs v)"
    "set (appendUniqueFold xs v) = insert v (set xs)"
proof -
  have "containsFold xs v \<longleftrightarrow> v \<in> set xs"
    using assms(1,3) goodToken_EqualFold by (auto simp: containsFold_def list_ex_iff list_all_iff)
  then show "list_all goodToken (appendUniqueFold xs v)" "distinct (appendUniqueFold xs v)"
    "set (appendUniqueFold xs v) = insert v (set xs)"
    using assms by (auto simp: appendUniqueFold_def goodToken_def)
qed

lemma appendUnique_size:
  "length (appendUniqueFold xs v) \<le> Suc (length xs)" "csvSize (appendUniqueFold xs v) \<le> csvSize xs + Suc (length v)"
  by (simp_all add: appendUniqueFold_def csvSize_def)

lemma appendUniques_good:
  assumes "list_all goodToken xs" "distinct xs" "list_all goodToken vs"
  shows "list_all goodToken (foldl appendUniqueFold xs vs) \<and> distinct (foldl appendUniqueFold xs vs) \<and>
    set (foldl appendUniqueFold xs vs) = set xs \<union> set vs"
  using assms
proof (induction vs arbitrary: xs)
  case (Cons v vs)
  then show ?case using Cons.IH [of "appendUniqueFold xs v"] appendUnique_good [of xs v] by auto
qed simp

lemma appendUniques_size:
  "length (foldl appendUniqueFold xs vs) \<le> length xs + length vs"
  "csvSize (foldl appendUniqueFold xs vs) \<le> csvSize xs + csvSize vs"
proof (induction vs arbitrary: xs)
  case (Cons v vs)
  case 1
  show ?case using Cons(1) [of "appendUniqueFold xs v"] appendUnique_size(1) [of xs v] by simp
  case 2
  show ?case using Cons(2) [of "appendUniqueFold xs v"] appendUnique_size(2) [of xs v] by (simp add: csvSize_def)
qed simp_all

lemma csvSize_map: "(\<And>x. x \<in> set xs \<Longrightarrow> length (f x) \<le> length x) \<Longrightarrow> csvSize (map f xs) \<le> csvSize xs"
  unfolding csvSize_def by (induction xs) (auto intro: add_mono)

lemma csvSize_Split: "csvSize (Split s c) = Suc (length s)"
  by (induction s) (auto simp: csvSize_def split: list.splits)

lemma joinWith_Cons: "joinWith sep (p # ps) = p @ (if ps = [] then [] else sep @ joinWith sep ps)"
  by (cases ps) (simp_all add: joinWith_def)

lemma length_join: "ps \<noteq> [] \<Longrightarrow> Suc (length (joinWith '','' ps)) = csvSize ps"
  by (induction ps) (simp_all add: joinWith_Cons csvSize_def)

lemma Split_joinWith:
  "ps \<noteq> [] \<Longrightarrow> \<forall>p \<in> set ps. CHR '','' \<notin> set p \<Longrightarrow> Split (joinWith '','' ps) (CHR '','') = ps"
proof (induction ps)
  case (Cons p ps)
  then show ?case by (cases "ps = []") (simp_all add: joinWith_Cons Split_plain Split_append)
qed simp

text \<open>The contents of a list of capabilities.\<close>

definition goodList :: "string list \<Rightarrow> bool" where
  "goodList xs \<longleftrightarrow> list_all goodToken xs \<and> length xs \<le> 32 \<and> csvSize xs \<le> 2049"

lemma goodList_CSV:
  assumes "goodList xs" "xs \<noteq> []"
  shows "validTokenList (joinWith '','' xs)" "joinWith '','' xs \<noteq> []"
proof -
  have "Split (joinWith '','' xs) (CHR '','') = xs"
    using assms by (intro Split_joinWith) (auto simp: goodList_def goodToken_def list_all_iff)
  moreover have "length (joinWith '','' xs) \<le> 2048"
    using length_join [OF assms(2)] assms(1) by (simp add: goodList_def)
  ultimately show "validTokenList (joinWith '','' xs)"
    using assms(1) goodToken_valid by (auto simp: validTokenList_def goodList_def list_all_iff)
  show "joinWith '','' xs \<noteq> []"
    using assms by (cases xs) (auto simp: joinWith_Cons goodList_def goodToken_def)
qed

lemma capabilityList_good:
  assumes "capabilityList text = Inr xs" "length text \<le> 2048"
  shows "goodList xs"
proof (cases "TrimSpace text = []")
  case True
  with assms show ?thesis by (simp add: capabilityList_def goodList_def csvSize_def)
next
  case False
  let ?parts = "Split text (CHR '','')"
  let ?step = "\<lambda>part result. let part = normalizeCapability part
             in if part = [] \<or> 64 < length part then Inl ErrInvalidQuery else Inr (appendUniqueFold result part)"
  have parts: "length ?parts \<le> 32" "foldResult ?step ?parts [] = Inr xs"
    using assms(1) False by (simp_all add: capabilityList_def Let_def split: if_splits)
  have loop: "foldResult ?step ps acc = Inr ys \<Longrightarrow> list_all goodToken acc \<Longrightarrow> distinct acc \<Longrightarrow> \<forall>p \<in> set ps. CHR '','' \<notin> set p \<Longrightarrow>
      list_all goodToken ys \<and> distinct ys \<and> length ys \<le> length acc + length ps \<and> csvSize ys \<le> csvSize acc + csvSize ps"
    for ps acc ys
  proof (induction ps arbitrary: acc)
    case (Cons p ps)
    let ?p = "normalizeCapability p"
    have p: "?p \<noteq> []" "length ?p \<le> 64" "foldResult ?step ps (appendUniqueFold acc ?p) = Inr ys"
      using Cons.prems(1) by (auto simp: Let_def split: if_splits)
    have good: "goodToken ?p"
      using p Cons.prems(4) normalize_no_comma [of p] by (simp add: goodToken_def)
    note acc = appendUnique_good [OF Cons.prems(2,3) good]
    have "list_all goodToken ys \<and> distinct ys \<and> length ys \<le> length (appendUniqueFold acc ?p) + length ps \<and>
        csvSize ys \<le> csvSize (appendUniqueFold acc ?p) + csvSize ps"
      by (rule Cons.IH [OF p(3) acc(1,2)]) (use Cons.prems(4) in auto)
    with appendUnique_size [of acc ?p] length_normalize [of p] show ?case
      by (auto simp: csvSize_def)
  qed simp
  from loop [OF parts(2)] parts(1) assms(2) Split_parts [of _ "text" "CHR '',''"] csvSize_Split [of "text" "CHR '',''"]
  show ?thesis by (auto simp: goodList_def csvSize_def)
qed

lemma goodList_containers:
  assumes "goodList xs"
  shows "goodList (foldl appendUniqueFold [] (map normalizedContainer xs))"
    "xs \<noteq> [] \<Longrightarrow> foldl appendUniqueFold [] (map normalizedContainer xs) \<noteq> []"
proof -
  let ?ys = "map normalizedContainer xs"
  have "list_all goodToken ?ys" using assms goodToken_container(1) by (auto simp: goodList_def list_all_iff)
  then have good: "list_all goodToken (foldl appendUniqueFold [] ?ys)" "distinct (foldl appendUniqueFold [] ?ys)"
      "set (foldl appendUniqueFold [] ?ys) = set ?ys"
    using appendUniques_good [of "[]" ?ys] by simp_all
  have "csvSize ?ys \<le> csvSize xs"
    using assms goodToken_container(2) by (intro csvSize_map) (auto simp: goodList_def list_all_iff)
  with good appendUniques_size [of "[]" ?ys] assms show "goodList (foldl appendUniqueFold [] ?ys)"
    by (simp add: goodList_def csvSize_def)
  show "foldl appendUniqueFold [] ?ys \<noteq> []" if "xs \<noteq> []"
    using good(3) that by (metis empty_set list.map_disc_iff set_empty)
qed

lemma goodList_normalized:
  assumes "goodList xs"
  shows "goodList (foldl appendUniqueFold [] (map normalizeCapability xs))"
proof -
  have "map normalizeCapability xs = xs"
    using assms by (intro map_idI) (auto simp: goodList_def list_all_iff goodToken_def)
  then show ?thesis
    using appendUniques_good [of "[]" xs] appendUniques_size [of "[]" xs] assms by (simp add: goodList_def csvSize_def)
qed

section \<open>What the capabilities are made of\<close>

lemma TrimSpace_normalize [simp]: "TrimSpace (normalizeCapability s) = normalizeCapability s"
  by (simp add: normalizeCapability_def TrimSpace_ToLower)

lemma containerCondition_valid:
  assumes "validateContainerProfileCondition c = None" "boundedScalar (dc_Condition c)" "boundedScalar (dc_Property c)" "boundedScalar (dc_Value c)"
  shows "validConditionText (pc_Condition (containerCondition c)) \<and> validConditionText (pc_Property (containerCondition c)) \<and>
    validConditionText (pc_Value (containerCondition c))"
proof -
  let ?op = "normalizeCapability (dc_Condition c)" and ?property = "normalizeCapability (dc_Property c)"
  have property: "?property \<noteq> []"
  proof
    assume "?property = []"
    then have "validateContainerProfileCondition c = Some ErrInvalidQuery"
      by (simp add: validateContainerProfileCondition_def numericProperties_def)
    with assms(1) show False by simp
  qed
  have op: "?op \<noteq> []"
  proof
    assume "?op = []"
    then have "validateContainerProfileCondition c = Some ErrInvalidQuery"
      by (simp add: validateContainerProfileCondition_def Let_def)
    with assms(1) show False by simp
  qed
  have "TrimSpace (dc_Value c) \<noteq> []"
  proof
    assume "TrimSpace (dc_Value c) = []"
    moreover have "TrimSpace [] = []" by (simp add: TrimSpace_def)
    ultimately have "validateContainerProfileCondition c = Some ErrInvalidQuery"
      by (simp add: validateContainerProfileCondition_def Let_def)
    with assms(1) show False by simp
  qed
  with op property show ?thesis
    using assms(2-4) length_normalize [of "dc_Condition c"] length_normalize [of "dc_Property c"] length_TrimSpace [of "dc_Value c"]
    by (simp add: validConditionText_def containerCondition_def boundedScalar_def)
qed

lemma containerProfileStep_valid:
  assumes "containerProfileStep profile cs = Inr cs'" "boundedList (dcp_Container profile)" "length (dcp_Conditions profile) \<le> 32"
    "boundedConditions (dcp_Conditions profile)"
  shows "(cs' = cs \<or> (\<exists>c. cs' = cs @ [c] \<and> validContainerProfile c))"
proof -
  let ?step = "\<lambda>condition conditions. case validateContainerProfileCondition condition of
      Some e \<Rightarrow> Inl e | None \<Rightarrow> Inr (conditions @ [containerCondition condition])"
  consider "cs' = cs" | containers conditions where "capabilityList (dcp_Container profile) = Inr containers" "containers \<noteq> []"
      "foldResult ?step (dcp_Conditions profile) [] = Inr conditions"
      "cs' = cs @ [\<lparr>cp_ContainersCSV = joinWith '','' (foldl appendUniqueFold [] (map normalizedContainer containers)), cp_Conditions = conditions\<rparr>]"
    using assms(1) by (auto simp: containerProfileStep_def Let_def split: if_splits sum.splits)
  then show ?thesis
  proof cases
    case (2 containers conditions)
    have "goodList containers" using capabilityList_good [OF 2(1)] assms(2) by (simp add: boundedList_def)
    note csv = goodList_containers [OF this]
    have loop: "foldResult ?step ds acc = Inr ds' \<Longrightarrow> boundedConditions ds \<Longrightarrow>
        length ds' = length acc + length ds \<and> (\<forall>d \<in> set ds'. d \<in> set acc \<or> validConditionText (pc_Condition d) \<and>
          validConditionText (pc_Property d) \<and> validConditionText (pc_Value d))" for ds acc ds'
    proof (induction ds arbitrary: acc)
      case (Cons d ds)
      have d: "validateContainerProfileCondition d = None" "foldResult ?step ds (acc @ [containerCondition d]) = Inr ds'"
        using Cons.prems(1) by (auto split: option.splits)
      have bounded: "boundedConditions ds" using Cons.prems(2) by (simp add: boundedConditions_def)
      from Cons.IH [OF d(2) bounded] containerCondition_valid [OF d(1)] Cons.prems(2) show ?case
        by (auto simp: boundedConditions_def)
    qed simp
    from loop [OF 2(3) assms(4)] assms(3) goodList_CSV [OF csv(1) csv(2) [OF 2(2)]] show ?thesis
      by (auto simp: 2(4) validContainerProfile_def list_all_iff)
  qed simp
qed

lemma containerProfileConstraints_valid:
  assumes "containerProfileConstraints profiles = Inr cs"
    "\<forall>p \<in> set profiles. boundedList (dcp_Container p) \<and> length (dcp_Conditions p) \<le> 32 \<and> boundedConditions (dcp_Conditions p)"
  shows "list_all validContainerProfile cs \<and> length cs \<le> length profiles"
proof -
  have "foldResult containerProfileStep ps acc = Inr bs \<Longrightarrow> set ps \<subseteq> set profiles \<Longrightarrow> list_all validContainerProfile acc \<Longrightarrow>
      list_all validContainerProfile bs \<and> length bs \<le> length acc + length ps" for ps acc bs
  proof (induction ps arbitrary: acc)
    case (Cons p ps)
    from Cons.prems(1) obtain acc' where acc': "containerProfileStep p acc = Inr acc'" "foldResult containerProfileStep ps acc' = Inr bs"
      by (auto split: sum.splits)
    have p: "boundedList (dcp_Container p)" "length (dcp_Conditions p) \<le> 32" "boundedConditions (dcp_Conditions p)"
      using Cons.prems(2) assms(2) by auto
    note step = containerProfileStep_valid [OF acc'(1) p]
    then have "list_all validContainerProfile acc'" "length acc' \<le> Suc (length acc)" using Cons.prems(3) by auto
    with Cons.IH [OF acc'(2)] Cons.prems(2) show ?case by auto
  qed simp
  from this [of profiles "[]" cs] assms(1) show ?thesis by (simp add: containerProfileConstraints_def)
qed

text \<open>What a codec profile can make of a constraint.\<close>

definition constraintOk :: "MediaProfile \<Rightarrow> bool" where
  "constraintOk c \<longleftrightarrow> 0 \<le> mp_MaximumVideoLevel c \<and> mp_MaximumVideoLevel c \<le> 1000 \<and>
     (mp_VideoLevelRequired c \<longrightarrow> mp_MaximumVideoLevel c \<noteq> 0) \<and>
     (mp_MaximumVideoBitDepth c = 0 \<or> 8 \<le> mp_MaximumVideoBitDepth c \<and> mp_MaximumVideoBitDepth c \<le> 16) \<and>
     length (mp_ExcludedVideoRange c) \<le> 64 \<and> (mp_VideoRangeRequired c \<longrightarrow> TrimSpace (mp_ExcludedVideoRange c) \<noteq> []) \<and>
     mp_AudioCodec c = [] \<and> mp_AudioCodecsCSV c = [] \<and> \<not> mp_DirectPlay c \<and> \<not> mp_Transcoding c"

lemma of_char_upper:
  "(of_char (upper_char c) :: nat) = (if 97 \<le> (of_char c :: nat) \<and> (of_char c :: nat) \<le> 122 then of_char c - 32 else of_char c)"
proof -
  have "(of_char c :: nat) - 32 < 256" using of_char_less [of c] by linarith
  then show ?thesis by (simp add: upper_char_def)
qed

lemma go_space_upper: "go_space (upper_char c) = go_space c"
  by (auto simp: go_space_def of_char_upper)

lemma TrimSpace_ToUpper: "TrimSpace (ToUpper s) = ToUpper (TrimSpace s)"
  by (simp add: TrimSpace_def ToUpper_def dropWhile_map comp_def go_space_upper rev_map)

lemma codecCondition_ok:
  assumes "constraintOk c" "boundedScalar (dc_Value d)"
  shows "constraintOk (codecCondition d c)"
proof -
  have bounds: "length (ToUpper (TrimSpace (dc_Value d))) \<le> 64" "TrimSpace (ToUpper (TrimSpace (dc_Value d))) = ToUpper (TrimSpace (dc_Value d))"
    using assms(2) length_TrimSpace [of "dc_Value d"]
    by (simp add: ToUpper_def boundedScalar_def, simp add: TrimSpace_ToUpper)
  have unknown: "constraintOk (unknownCondition d c)"
    using assms(1) by (simp add: constraintOk_def unknownCondition_def)
  let ?property = "ToLower (TrimSpace (dc_Property d))" and ?operator = "ToLower (TrimSpace (dc_Condition d))"
  let ?number = "ParseInt (TrimSpace (dc_Value d))" and ?range = "ToUpper (TrimSpace (dc_Value d))"
  have rest: "codecCondition d c = unknownCondition d c"
    if "\<not> (?property = ''videobitdepth'' \<and> ?operator = ''lessthanequal'')" "\<not> (?property = ''videolevel'' \<and> ?operator = ''lessthanequal'')"
      "\<not> (?property = ''videorangetype'' \<and> ?operator = ''notequals'')"
    using that unfolding codecCondition_def Let_def by (simp only: if_False)
  consider (depth) "?property = ''videobitdepth'' \<and> ?operator = ''lessthanequal''"
    | (level) "?property = ''videolevel'' \<and> ?operator = ''lessthanequal''"
    | (range) "?property = ''videorangetype'' \<and> ?operator = ''notequals''"
    | (other) "codecCondition d c = unknownCondition d c"
    using rest by blast
  then show ?thesis
  proof cases
    case depth
    show ?thesis
    proof (cases ?number)
      case (Some bitDepth)
      show ?thesis
      proof (cases "bitDepth < 8 \<or> 16 < bitDepth")
        case True
        with Some unknown show ?thesis by (simp add: codecCondition_def depth)
      next
        case False
        with Some assms(1) show ?thesis by (auto simp: codecCondition_def depth constraintOk_def)
      qed
    qed (use unknown in \<open>simp add: codecCondition_def depth\<close>)
  next
    case level
    show ?thesis
    proof (cases ?number)
      case (Some number)
      show ?thesis
      proof (cases "number < 1 \<or> 1000 < number")
        case True
        with Some unknown show ?thesis by (simp add: codecCondition_def level)
      next
        case False
        with Some assms(1) show ?thesis by (auto simp: codecCondition_def level constraintOk_def)
      qed
    qed (use unknown in \<open>simp add: codecCondition_def level\<close>)
  next
    case range
    show ?thesis
    proof (cases "?range = [] \<or> mp_ExcludedVideoRange c \<noteq> [] \<and> \<not> EqualFold (mp_ExcludedVideoRange c) ?range")
      case True
      then show ?thesis using unknown range by (simp add: codecCondition_def)
    next
      case False
      then have "codecCondition d c = c\<lparr>mp_ExcludedVideoRange := ?range, mp_VideoRangeRequired := mp_VideoRangeRequired c \<or> dc_IsRequired d,
          mp_SupportsNonDolbyVisionHDR := (?range = ''DOVI'' \<or> mp_SupportsNonDolbyVisionHDR c)\<rparr>"
        using range by (auto simp: codecCondition_def Let_def)
      then show ?thesis using assms(1) bounds False by (simp add: constraintOk_def)
    qed
  next
    case other
    then show ?thesis using unknown by simp
  qed
qed

lemma constraintFor_update:
  "constraintFor (AList.update k c cs) key = (if key = k then c else constraintFor cs key)"
  by (simp add: constraintFor_def update_conv')

lemma codecProfileConstraints_ok:
  assumes "codecProfileConstraints profiles = Inr constraints"
    "\<forall>p \<in> set profiles. boundedConditions (cdp_Conditions p)"
  shows "constraintOk (constraintFor constraints key)"
proof -
  have "\<forall>key. constraintOk (constraintFor constraints key)"
  proof (rule foldResult_invariant [OF assms(1) [unfolded codecProfileConstraints_def], where P = "\<lambda>cs. \<forall>key. constraintOk (constraintFor cs key)"])
    show "\<forall>key. constraintOk (constraintFor [] key)"
      by (simp add: constraintFor_def constraintOk_def zero_defs)
  next
    fix p cs cs'
    assume p: "p \<in> set profiles" and step: "codecProfileStep p cs = Inr cs'" and ok: "\<forall>key. constraintOk (constraintFor cs key)"
    have conditions: "constraintOk c \<Longrightarrow> constraintOk (fold codecCondition (cdp_Conditions p) c)" for c
      by (rule fold_invariant) (use p assms(2) codecCondition_ok in \<open>auto simp: boundedConditions_def list_all_iff\<close>)
    have "\<forall>key. constraintOk (constraintFor (fold (\<lambda>codec cs. AList.update (codecConstraintKey codec)
        (fold codecCondition (cdp_Conditions p) (constraintFor cs (codecConstraintKey codec))) cs) codecs cs) key)" for codecs
      by (rule fold_invariant) (use ok conditions in \<open>auto simp: constraintFor_update\<close>)
    with step ok show "\<forall>key. constraintOk (constraintFor cs' key)"
      by (auto simp: codecProfileStep_def split: sum.splits if_splits)
  qed
  then show ?thesis ..
qed

section \<open>The capabilities under construction\<close>

definition capabilitiesOk :: "nat \<Rightarrow> Capabilities \<Rightarrow> bool" where
  "capabilitiesOk profiles c \<longleftrightarrow>
     set (cap_StreamingProtocols c) \<subseteq> {''http'', ''hls''} \<and> distinct (cap_StreamingProtocols c) \<and>
     list_all goodToken (cap_Containers c) \<and> distinct (cap_Containers c) \<and>
     list_all goodToken (cap_VideoCodecs c) \<and> distinct (cap_VideoCodecs c) \<and>
     list_all goodToken (cap_AudioCodecs c) \<and> distinct (cap_AudioCodecs c) \<and>
     set (cap_ProcessingModes c) \<subseteq> {processingRemux, processingTranscodeAudio, processingTranscode} \<and> distinct (cap_ProcessingModes c) \<and>
     set (cap_SubtitleModes c) \<subseteq> {''external'', ''burn''} \<and> distinct (cap_SubtitleModes c) \<and>
     list_all validMediaProfile (cap_MediaProfiles c) \<and> length (cap_MediaProfiles c) = profiles \<and> profiles \<le> 32 \<and>
     list_all (\<lambda>p. mp_DirectPlay p \<noteq> mp_Transcoding p) (cap_MediaProfiles c) \<and>
     cap_HLSSegmentContainer c \<in> {[], ''ts'', ''mp4''} \<and>
     cap_HDRFormats c = [] \<and> cap_ExternalPlayers c = [] \<and> cap_MaximumHeight c = 0"

definition buildOk :: "capabilityBuild \<Rightarrow> bool" where
  "buildOk b \<longleftrightarrow> capabilitiesOk (length (cb_profiles b)) (cb_capabilities b)"

lemma good_literals: "goodToken ''http''" "goodToken ''hls''" "goodToken ''external''" "goodToken ''burn''" "goodToken ''mp4''"
  "goodToken processingRemux" "goodToken processingTranscodeAudio" "goodToken processingTranscode"
  by code_simp+

lemma appendUnique_subset:
  assumes "set xs \<subseteq> set allowed" "distinct xs" "v \<in> set allowed" "list_all goodToken allowed"
  shows "set (appendUniqueFold xs v) \<subseteq> set allowed" "distinct (appendUniqueFold xs v)"
proof -
  have "list_all goodToken xs" "goodToken v" using assms by (auto simp: list_all_iff)
  from appendUnique_good [OF this(1) assms(2) this(2)] assms(1,3)
  show "set (appendUniqueFold xs v) \<subseteq> set allowed" "distinct (appendUniqueFold xs v)" by auto
qed

lemma addProtocol_ok:
  assumes "buildOk b" "v \<in> {''http'', ''hls''}"
  shows "buildOk (addProtocol v b)"
  using assms appendUnique_subset [of "cap_StreamingProtocols (cb_capabilities b)" "[''http'', ''hls'']" v] good_literals
  by (simp add: buildOk_def capabilitiesOk_def addProtocol_def)

lemma addMode_ok:
  assumes "buildOk b" "v \<in> {processingRemux, processingTranscodeAudio, processingTranscode}"
  shows "buildOk (addMode v b)"
  using assms good_literals
    appendUnique_subset [of "cap_ProcessingModes (cb_capabilities b)" "[processingRemux, processingTranscodeAudio, processingTranscode]" v]
  by (simp add: buildOk_def capabilitiesOk_def addMode_def)

lemma addSubtitleMode_ok:
  assumes "buildOk b" "v \<in> {''external'', ''burn''}"
  shows "buildOk (addSubtitleMode v b)"
  using assms appendUnique_subset [of "cap_SubtitleModes (cb_capabilities b)" "[''external'', ''burn'']" v] good_literals
  by (simp add: buildOk_def capabilitiesOk_def addSubtitleMode_def)

lemma addCodecs_ok:
  assumes "buildOk b" "goodToken v"
  shows "buildOk (addContainer v b)" "buildOk (addVideoCodec v b)" "buildOk (addAudioCodec v b)"
  using assms appendUnique_good [of "cap_Containers (cb_capabilities b)" v] appendUnique_good [of "cap_VideoCodecs (cb_capabilities b)" v]
    appendUnique_good [of "cap_AudioCodecs (cb_capabilities b)" v]
  by (simp_all add: buildOk_def capabilitiesOk_def addContainer_def addVideoCodec_def addAudioCodec_def)

lemma constrained_profile_valid:
  assumes "constraintOk c" "goodList containers" "containers \<noteq> []" "goodToken video" "goodList audios"
    and profile: "mp_Container p = hd containers" "mp_VideoCodec p = video" "mp_ContainersCSV p = joinWith '','' containers"
      "mp_AudioCodec p = (if audios = [] then [] else hd audios)" "mp_AudioCodecsCSV p = (if audios = [] then [] else joinWith '','' audios)"
      "mp_MaximumVideoBitDepth p = mp_MaximumVideoBitDepth c"
    and limits: "mp_MaximumVideoLevel p = mp_MaximumVideoLevel c \<and> mp_VideoLevelRequired p = mp_VideoLevelRequired c \<and>
        mp_ExcludedVideoRange p = mp_ExcludedVideoRange c \<and> mp_VideoRangeRequired p = mp_VideoRangeRequired c \<or>
      mp_MaximumVideoLevel p = 0 \<and> \<not> mp_VideoLevelRequired p \<and> mp_ExcludedVideoRange p = [] \<and> \<not> mp_VideoRangeRequired p"
  shows "validMediaProfile p"
proof -
  have hd: "goodToken (hd xs)" if "goodList xs" "xs \<noteq> []" for xs
    using that by (cases xs) (auto simp: goodList_def)
  have tokens: "validToken (mp_Container p)" "validToken (mp_VideoCodec p)" "mp_AudioCodec p = [] \<or> validToken (mp_AudioCodec p)"
    using assms(2-5) hd goodToken_valid by (auto simp: profile)
  have lists: "mp_ContainersCSV p = [] \<or> validTokenList (mp_ContainersCSV p)" "mp_AudioCodecsCSV p = [] \<or> validTokenList (mp_AudioCodecsCSV p)"
    using goodList_CSV [OF assms(2,3)] goodList_CSV [OF assms(5)] by (auto simp: profile)
  have "\<not> (mp_MaximumVideoLevel p < 0 \<or> mp_MaximumVideoLevel p > 1000 \<or> mp_VideoLevelRequired p \<and> mp_MaximumVideoLevel p = 0 \<or>
      mp_MaximumVideoBitDepth p \<noteq> 0 \<and> (mp_MaximumVideoBitDepth p < 8 \<or> mp_MaximumVideoBitDepth p > 16) \<or>
      length (mp_ExcludedVideoRange p) > 64 \<or> mp_VideoRangeRequired p \<and> TrimSpace (mp_ExcludedVideoRange p) = [])"
    using limits assms(1) by (auto simp: profile constraintOk_def)
  with tokens lists show ?thesis by (auto simp: validMediaProfile_def)
qed

lemma addProfile_cases:
  assumes "addProfile constraints containers raw audios direct b = Inr b'"
  obtains "b' = b"
  | p key where "b' = b\<lparr>cb_profiles := cb_profiles b @ [key], cb_capabilities := (cb_capabilities b)\<lparr>cap_MediaProfiles :=
        cap_MediaProfiles (cb_capabilities b) @ [p]\<rparr>\<rparr>" "length (cb_profiles b) < 32" "containers \<noteq> []" "normalizeCapability raw \<noteq> []"
      "mp_Container p = hd (foldl appendUniqueFold [] (map normalizedContainer containers))" "mp_VideoCodec p = normalizeCapability raw"
      "mp_ContainersCSV p = joinWith '','' (foldl appendUniqueFold [] (map normalizedContainer containers))"
      "mp_AudioCodec p = (if foldl appendUniqueFold [] (map normalizeCapability audios) = []
        then mp_AudioCodec (if direct then constraintFor constraints (codecConstraintKey (normalizeCapability raw)) else zeroMediaProfile)
        else hd (foldl appendUniqueFold [] (map normalizeCapability audios)))"
      "mp_AudioCodecsCSV p = (if foldl appendUniqueFold [] (map normalizeCapability audios) = []
        then mp_AudioCodecsCSV (if direct then constraintFor constraints (codecConstraintKey (normalizeCapability raw)) else zeroMediaProfile)
        else joinWith '','' (foldl appendUniqueFold [] (map normalizeCapability audios)))"
      "mp_MaximumVideoBitDepth p = mp_MaximumVideoBitDepth (constraintFor constraints (codecConstraintKey (normalizeCapability raw)))"
      "direct \<Longrightarrow> mp_MaximumVideoLevel p = mp_MaximumVideoLevel (constraintFor constraints (codecConstraintKey (normalizeCapability raw))) \<and>
        mp_VideoLevelRequired p = mp_VideoLevelRequired (constraintFor constraints (codecConstraintKey (normalizeCapability raw))) \<and>
        mp_ExcludedVideoRange p = mp_ExcludedVideoRange (constraintFor constraints (codecConstraintKey (normalizeCapability raw))) \<and>
        mp_VideoRangeRequired p = mp_VideoRangeRequired (constraintFor constraints (codecConstraintKey (normalizeCapability raw))) \<and>
        mp_DirectPlay p \<and> mp_Transcoding p = mp_Transcoding (constraintFor constraints (codecConstraintKey (normalizeCapability raw)))"
      "\<not> direct \<Longrightarrow> mp_MaximumVideoLevel p = 0 \<and> \<not> mp_VideoLevelRequired p \<and> mp_ExcludedVideoRange p = [] \<and> \<not> mp_VideoRangeRequired p \<and>
        \<not> mp_DirectPlay p \<and> mp_Transcoding p"
proof (cases "b' = b")
  case True
  then show thesis by (rule that(1))
next
  case False
  let ?video = "normalizeCapability raw" and ?containers = "foldl appendUniqueFold [] (map normalizedContainer containers)"
    and ?audios = "foldl appendUniqueFold [] (map normalizeCapability audios)"
  let ?constraint = "constraintFor constraints (codecConstraintKey ?video)"
  let ?base = "if direct then ?constraint\<lparr>mp_DirectPlay := True\<rparr>
     else zeroMediaProfile\<lparr>mp_Transcoding := True, mp_MaximumVideoBitDepth := mp_MaximumVideoBitDepth ?constraint\<rparr>"
  let ?named = "?base\<lparr>mp_Container := hd ?containers, mp_VideoCodec := ?video, mp_ContainersCSV := joinWith '','' ?containers\<rparr>"
  let ?p = "if ?audios \<noteq> [] then ?named\<lparr>mp_AudioCodec := hd ?audios, mp_AudioCodecsCSV := joinWith '','' ?audios\<rparr> else ?named"
  have "\<exists>key. b' = b\<lparr>cb_profiles := cb_profiles b @ [key], cb_capabilities := (cb_capabilities b)\<lparr>cap_MediaProfiles :=
        cap_MediaProfiles (cb_capabilities b) @ [?p]\<rparr>\<rparr> \<and> length (cb_profiles b) < 32 \<and> containers \<noteq> [] \<and> ?video \<noteq> []"
    using assms False unfolding addProfile_def Let_def by (auto split: if_split_asm)
  then obtain key where key: "b' = b\<lparr>cb_profiles := cb_profiles b @ [key], cb_capabilities := (cb_capabilities b)\<lparr>cap_MediaProfiles :=
        cap_MediaProfiles (cb_capabilities b) @ [?p]\<rparr>\<rparr>" "length (cb_profiles b) < 32" "containers \<noteq> []" "?video \<noteq> []"
    by blast
  show thesis
    by (rule that(2) [OF key]) (simp_all add: zeroMediaProfile_def)
qed

lemma addProfile_ok:
  assumes add: "addProfile constraints containers raw audios direct b = Inr b'" and b: "buildOk b"
    and good: "goodList containers" "goodList audios" "goodToken raw" and constraints: "\<And>key. constraintOk (constraintFor constraints key)"
  shows "buildOk b'"
  using add
proof (cases rule: addProfile_cases)
  case 1
  with b show ?thesis by simp
next
  case (2 p key)
  let ?c = "constraintFor constraints (codecConstraintKey (normalizeCapability raw))"
  have video: "goodToken (normalizeCapability raw)" using good(3) by (simp add: goodToken_def)
  have "validMediaProfile p"
    by (rule constrained_profile_valid [OF constraints [of "codecConstraintKey (normalizeCapability raw)"] goodList_containers(1) [OF good(1)]
          goodList_containers(2) [OF good(1) 2(3)] video goodList_normalized [OF good(2)]])
      (use 2 constraints [of "codecConstraintKey (normalizeCapability raw)"] in \<open>auto simp: constraintOk_def zeroMediaProfile_def\<close>)
  moreover have "mp_DirectPlay p \<noteq> mp_Transcoding p"
    using 2(11,12) constraints [of "codecConstraintKey (normalizeCapability raw)"] by (cases direct) (auto simp: constraintOk_def)
  ultimately show ?thesis
    using b 2(1,2) by (simp add: buildOk_def capabilitiesOk_def)
qed

lemma directContainer_ok: "buildOk b \<Longrightarrow> goodToken c \<Longrightarrow> buildOk (directContainer c b)"
  unfolding directContainer_def by (intro addCodecs_ok(1) addProtocol_ok goodToken_container(1)) auto

lemma goodList_map_container:
  assumes "goodList xs"
  shows "goodList (map normalizedContainer xs)"
  using assms goodToken_container csvSize_map [of xs normalizedContainer]
  by (auto simp: goodList_def list_all_iff intro: order_trans)

lemma goodList_mem: "goodList xs \<Longrightarrow> x \<in> set xs \<Longrightarrow> goodToken x"
  by (simp add: goodList_def list_all_iff)

lemma directProfileStep_cases:
  assumes "directProfileStep constraints d b = Inr b'"
  obtains "b' = b"
  | containers videos audios where "capabilityList (dpp_Container d) = Inr containers"
      "capabilityList (dpp_VideoCodec d) = Inr videos" "capabilityList (dpp_AudioCodec d) = Inr audios"
      "foldResult (\<lambda>video b. addProfile constraints (map normalizedContainer containers) video audios True (addVideoCodec video b))
         videos (fold addAudioCodec audios (fold directContainer containers b)) = Inr b'"
proof (cases "dpp_Type d \<noteq> [] \<and> \<not> EqualFold (dpp_Type d) ''Video''")
  case True
  then show thesis using assms that(1) by (simp add: directProfileStep_def)
next
  case False
  show thesis
  proof (cases "capabilityList (dpp_Container d)")
    case container: (Inr containers)
    show thesis
    proof (cases "capabilityList (dpp_VideoCodec d)")
      case video: (Inr videos)
      show thesis
      proof (cases "capabilityList (dpp_AudioCodec d)")
        case audio: (Inr audios)
        from False assms show thesis
          by (intro that(2) [OF container video audio]) (simp add: directProfileStep_def container video audio split: if_split_asm)
      qed (use False assms in \<open>simp add: directProfileStep_def container video split: if_split_asm\<close>)
    qed (use False assms in \<open>simp add: directProfileStep_def container split: if_split_asm\<close>)
  qed (use False assms in \<open>simp add: directProfileStep_def split: if_split_asm\<close>)
qed

lemma directProfileStep_ok:
  assumes "directProfileStep constraints d b = Inr b'" "buildOk b" "\<And>key. constraintOk (constraintFor constraints key)"
    "boundedList (dpp_Container d)" "boundedList (dpp_VideoCodec d)" "boundedList (dpp_AudioCodec d)"
  shows "buildOk b'"
proof -
  consider "b' = b" | containers videos audios where "capabilityList (dpp_Container d) = Inr containers"
      "capabilityList (dpp_VideoCodec d) = Inr videos" "capabilityList (dpp_AudioCodec d) = Inr audios"
      "foldResult (\<lambda>video b. addProfile constraints (map normalizedContainer containers) video audios True (addVideoCodec video b))
         videos (fold addAudioCodec audios (fold directContainer containers b)) = Inr b'"
    by (rule directProfileStep_cases [OF assms(1)])
  then show ?thesis
  proof cases
    case (2 containers videos audios)
    have good: "goodList containers" "goodList videos" "goodList audios"
      using 2(1-3) assms(4-6) capabilityList_good by (simp_all add: boundedList_def)
    have "buildOk (fold directContainer containers b)"
      by (rule fold_invariant [where P = buildOk]) (use assms(2) in \<open>auto intro: directContainer_ok goodList_mem [OF good(1)]\<close>)
    then have "buildOk (fold addAudioCodec audios (fold directContainer containers b))"
      by (rule fold_invariant [where P = buildOk]) (auto intro: addCodecs_ok(3) goodList_mem [OF good(3)])
    then show ?thesis
    proof (rule foldResult_invariant [OF 2(4), where P = buildOk])
      fix video u v
      assume video: "video \<in> set videos"
        and add: "addProfile constraints (map normalizedContainer containers) video audios True (addVideoCodec video u) = Inr v"
        and u: "buildOk u"
      have token: "goodToken video" by (rule goodList_mem [OF good(2) video])
      show "buildOk v"
        by (rule addProfile_ok [OF add addCodecs_ok(2) [OF u token] goodList_map_container [OF good(1)] good(3) token assms(3)])
    qed
  qed (use assms(2) in simp)
qed

lemma foldl_segment:
  "foldl (\<lambda>segment container. if normalizedContainer container = ''mp4'' then (if segment = [] then ''mp4'' else segment)
       else if normalizedContainer container \<in> {''hls'', ''ts'', ''mpegts''} then ''ts'' else segment) start containers \<in> {start, ''ts'', ''mp4''}"
proof (induction containers arbitrary: start)
  case (Cons c cs)
  let ?s = "if normalizedContainer c = ''mp4'' then (if start = [] then ''mp4'' else start)
       else if normalizedContainer c \<in> {''hls'', ''ts'', ''mpegts''} then ''ts'' else start"
  have "X \<in> {s, t, m} \<Longrightarrow> s \<in> {start, t, m} \<Longrightarrow> X \<in> {start, t, m}" for X s t m :: string by auto
  from this [OF Cons.IH [of ?s]] show ?case by simp
qed simp

lemma segmentContainer_range:
  assumes "hlsTranscodingProfileSegmentContainer t = Inr (segment, supported)"
  shows "segment \<in> {[], ''ts'', ''mp4''}" "supported \<longleftrightarrow> segment \<noteq> []"
  using assms foldl_segment [of "[]"]
  by (auto simp: hlsTranscodingProfileSegmentContainer_def Let_def split: if_split_asm sum.splits)

lemma segmentContainerStep_ok:
  assumes step: "segmentContainerStep t b = Inr b'" and b: "buildOk b"
  shows "buildOk b'"
proof (cases "hlsTranscodingProfileSegmentContainer t")
  case (Inr r)
  obtain segment supported where r: "r = (segment, supported)" by (cases r)
  have segment: "segment = [] \<or> segment = ''ts'' \<or> segment = ''mp4''"
    using segmentContainer_range(1) [OF Inr [unfolded r]] by simp
  have "b' = b \<or> b' = b\<lparr>cb_capabilities := (cb_capabilities b)\<lparr>cap_HLSSegmentContainer := segment\<rparr>\<rparr>"
    using step by (simp add: segmentContainerStep_def Inr r split: if_split_asm)
  then show ?thesis
  proof
    assume "b' = b\<lparr>cb_capabilities := (cb_capabilities b)\<lparr>cap_HLSSegmentContainer := segment\<rparr>\<rparr>"
    then show ?thesis using b segment by (simp add: buildOk_def capabilitiesOk_def)
  qed (simp add: b)
qed (use step in \<open>simp add: segmentContainerStep_def\<close>)

lemma buildOk_allow [simp]: "buildOk (b\<lparr>cb_allowTranscode := x\<rparr>) = buildOk b"
  by (simp add: buildOk_def)

lemma transcodeAudioStep_ok:
  assumes "buildOk b"
  shows "buildOk (transcodeAudioStep flags video audio b)"
proof -
  have modes: "buildOk c \<Longrightarrow> buildOk (addMode ''remux'' c)" "buildOk c \<Longrightarrow> buildOk (addMode ''transcode'' c)"
    "buildOk c \<Longrightarrow> buildOk (addMode ''transcode_audio'' c)" for c
    using addMode_ok [of c "''remux''"] addMode_ok [of c "''transcode''"] addMode_ok [of c "''transcode_audio''"]
    by simp_all
  show ?thesis using assms by (simp add: transcodeAudioStep_def Let_def modes)
qed

lemma transcodeProfileStep_cases:
  assumes "transcodeProfileStep constraints flags t b = Inr b'"
  obtains "b' = b"
  | videos audios where "capabilityList (tp_VideoCodec t) = Inr videos" "capabilityList (tp_AudioCodec t) = Inr audios"
      "foldResult (\<lambda>video b. case addProfile constraints [''mp4''] video audios False b of Inl e \<Rightarrow> Inl e
         | Inr added \<Rightarrow> Inr (fold (transcodeAudioStep flags video) audios added)) videos (addProtocol ''hls'' b) = Inr b'"
      "cap_HLSSegmentContainer (cb_capabilities b) \<noteq> []"
proof (cases "hlsTranscodingProfileSegmentContainer t")
  case (Inr r)
  obtain segment supported where r: "r = (segment, supported)" by (cases r)
  note segment = segmentContainer_range [OF Inr [unfolded r]]
  show thesis
  proof (cases "\<not> supported \<or> segment \<noteq> cap_HLSSegmentContainer (cb_capabilities b)")
    case True
    then show thesis using assms that(1) by (simp add: transcodeProfileStep_def Inr r)
  next
    case False
    show thesis
    proof (cases "capabilityList (tp_VideoCodec t)")
      case video: (Inr videos)
      show thesis
      proof (cases "capabilityList (tp_AudioCodec t)")
        case audio: (Inr audios)
        have "transcodeProfileStep constraints flags t b =
            (if isl (transcodingProfileMaxAudioChannels (tp_MaxAudioChannels t)) then Inl ErrInvalidQuery
             else foldResult (\<lambda>video b. case addProfile constraints [''mp4''] video audios False b of Inl e \<Rightarrow> Inl e
               | Inr added \<Rightarrow> Inr (fold (transcodeAudioStep flags video) audios added)) videos (addProtocol ''hls'' b))"
          unfolding transcodeProfileStep_def Inr r video audio using False by simp
        with assms have "foldResult (\<lambda>video b. case addProfile constraints [''mp4''] video audios False b of Inl e \<Rightarrow> Inl e
               | Inr added \<Rightarrow> Inr (fold (transcodeAudioStep flags video) audios added)) videos (addProtocol ''hls'' b) = Inr b'"
          by (cases "isl (transcodingProfileMaxAudioChannels (tp_MaxAudioChannels t))") simp_all
        then show thesis using False segment(2) by (intro that(2) [OF video audio]) auto
      qed (use False assms in \<open>simp add: transcodeProfileStep_def Inr r video\<close>)
    qed (use False assms in \<open>simp add: transcodeProfileStep_def Inr r\<close>)
  qed
qed (use assms in \<open>simp add: transcodeProfileStep_def\<close>)

lemma transcodeProfileStep_ok:
  assumes "transcodeProfileStep constraints flags t b = Inr b'" "buildOk b" "\<And>key. constraintOk (constraintFor constraints key)"
    "boundedList (tp_VideoCodec t)" "boundedList (tp_AudioCodec t)"
  shows "buildOk b'"
proof -
  consider "b' = b" | videos audios where "capabilityList (tp_VideoCodec t) = Inr videos" "capabilityList (tp_AudioCodec t) = Inr audios"
      "foldResult (\<lambda>video b. case addProfile constraints [''mp4''] video audios False b of Inl e \<Rightarrow> Inl e
         | Inr added \<Rightarrow> Inr (fold (transcodeAudioStep flags video) audios added)) videos (addProtocol ''hls'' b) = Inr b'"
    by (rule transcodeProfileStep_cases [OF assms(1)])
  then show ?thesis
  proof cases
    case (2 videos audios)
    have good: "goodList videos" "goodList audios"
      using 2(1,2) assms(4,5) capabilityList_good by (simp_all add: boundedList_def)
    have mp4: "goodList [''mp4'']" using good_literals by (simp add: goodList_def csvSize_def)
    show ?thesis
    proof (rule foldResult_invariant [OF 2(3), where P = buildOk])
      show "buildOk (addProtocol ''hls'' b)" by (rule addProtocol_ok [OF assms(2)]) simp
    next
      fix video u v
      assume video: "video \<in> set videos" and u: "buildOk u"
        and step: "(case addProfile constraints [''mp4''] video audios False u of Inl e \<Rightarrow> Inl e
          | Inr added \<Rightarrow> Inr (fold (transcodeAudioStep flags video) audios added)) = Inr v"
      from step obtain added where added: "addProfile constraints [''mp4''] video audios False u = Inr added"
        "v = fold (transcodeAudioStep flags video) audios added" by (auto split: sum.splits)
      have "buildOk added" by (rule addProfile_ok [OF added(1) u mp4 good(2) goodList_mem [OF good(1) video] assms(3)])
      then show "buildOk v" unfolding added(2) by (rule fold_invariant) (rule transcodeAudioStep_ok)
    qed
  qed (use assms(2) in simp)
qed

lemma subtitleStep_ok: "subtitleStep sub b = Inr b' \<Longrightarrow> buildOk b \<Longrightarrow> buildOk b'"
  by (auto simp: subtitleStep_def intro: addSubtitleMode_ok split: if_split_asm)

lemma effectiveBitrate_range:
  assumes "effectiveBitrate requested profile = Inr b"
  shows "b = 0 \<or> 64 \<le> b \<and> b \<le> 200000"
  using assms
  by (auto simp: effectiveBitrate_def Let_def maximumCompatPlaybackBitrate_def maximumCompatClientBitrate_def split: if_split_asm)

section \<open>The steps of an accepted profile\<close>

lemma case_sum_Inr: "(case x of Inl e \<Rightarrow> Inl e | Inr y \<Rightarrow> f y) = Inr z \<longleftrightarrow> (\<exists>y. x = Inr y \<and> f y = Inr z)"
  by (cases x) auto

lemma compat_cases:
  assumes "compatPlaybackCapabilities input = Inr (capabilities, allow)"
  obtains codecs containers direct segmented transcoded subtitled where
    "validDeviceProfileBounds (pi_DeviceProfile input)"
    "codecProfileConstraints (dev_CodecProfiles (pi_DeviceProfile input)) = Inr codecs"
    "containerProfileConstraints (dev_ContainerProfiles (pi_DeviceProfile input)) = Inr containers"
    "foldResult (directProfileStep codecs) (if pf_directPlay (requestFlags input) \<or> pf_directStream (requestFlags input)
       then dev_DirectPlayProfiles (pi_DeviceProfile input) else []) (startBuild input containers) = Inr direct"
    "foldResult segmentContainerStep (if pf_directStream (requestFlags input) \<or> pf_enableTranscoding (requestFlags input)
       then dev_TranscodingProfiles (pi_DeviceProfile input) else [])
       (if remuxAllowed (requestFlags input) then addMode ''remux'' direct else direct) = Inr segmented"
    "foldResult (transcodeProfileStep codecs (requestFlags input)) (if pf_directStream (requestFlags input) \<or> pf_enableTranscoding (requestFlags input)
       then dev_TranscodingProfiles (pi_DeviceProfile input) else []) segmented = Inr transcoded"
    "foldResult subtitleStep (dev_SubtitleProfiles (pi_DeviceProfile input)) transcoded = Inr subtitled"
    "finishBuild input subtitled = Inr (capabilities, allow)"
proof -
  have valid: "validDeviceProfileBounds (pi_DeviceProfile input)"
    using assms by (rule_tac ccontr) (simp add: compatPlaybackCapabilities_def Let_def)
  show thesis
    using assms valid unfolding compatPlaybackCapabilities_def Let_def
    by (simp only: case_sum_Inr not_True_eq_False if_False) (elim exE conjE, rule that)
qed

lemma compat_buildOk:
  assumes valid: "validDeviceProfileBounds (pi_DeviceProfile input)"
    and codecs: "codecProfileConstraints (dev_CodecProfiles (pi_DeviceProfile input)) = Inr codecs"
    and direct: "foldResult (directProfileStep codecs) ds (startBuild input containers) = Inr direct"
      "set ds \<subseteq> set (dev_DirectPlayProfiles (pi_DeviceProfile input))"
    and segmented: "foldResult segmentContainerStep ts (if remux then addMode ''remux'' direct else direct) = Inr segmented"
      "set ts \<subseteq> set (dev_TranscodingProfiles (pi_DeviceProfile input))"
    and transcoded: "foldResult (transcodeProfileStep codecs flags) ts segmented = Inr transcoded"
    and subtitled: "foldResult subtitleStep subs transcoded = Inr subtitled"
  shows "buildOk subtitled"
proof -
  let ?p = "pi_DeviceProfile input"
  have bounds: "\<forall>p \<in> set (dev_CodecProfiles ?p). boundedConditions (cdp_Conditions p)"
    "\<forall>d \<in> set (dev_DirectPlayProfiles ?p). boundedList (dpp_Container d) \<and> boundedList (dpp_VideoCodec d) \<and> boundedList (dpp_AudioCodec d)"
    "\<forall>t \<in> set (dev_TranscodingProfiles ?p). boundedList (tp_VideoCodec t) \<and> boundedList (tp_AudioCodec t)"
    using valid unfolding validDeviceProfileBounds_def by (auto simp only: list_all_iff split: if_split_asm)
  have ok: "constraintOk (constraintFor codecs key)" for key
    by (rule codecProfileConstraints_ok [OF codecs bounds(1)])
  have start: "buildOk (startBuild input containers)"
    by (simp add: startBuild_def buildOk_def capabilitiesOk_def zero_defs)
  have "buildOk direct"
    by (rule foldResult_invariant [OF direct(1), where P = buildOk, OF start], rule directProfileStep_ok [OF _ _ ok])
      (use direct(2) bounds(2) in auto)
  then have "buildOk (if remux then addMode ''remux'' direct else direct)"
    using addMode_ok [of direct "''remux''"] by simp
  then have "buildOk segmented"
    by (rule foldResult_invariant [OF segmented(1), where P = buildOk]) (rule segmentContainerStep_ok)
  then have "buildOk transcoded"
  proof (rule foldResult_invariant [OF transcoded, where P = buildOk])
    fix t u v assume "t \<in> set ts" "transcodeProfileStep codecs flags t u = Inr v" "buildOk u"
    then show "buildOk v" using segmented(2) bounds(3) transcodeProfileStep_ok [OF _ _ ok, of flags t u v] by auto
  qed
  then show ?thesis
    by (rule foldResult_invariant [OF subtitled, where P = buildOk]) (rule subtitleStep_ok)
qed

text \<open>The container profiles and the audio channels of the request are set at the start and never changed.\<close>

definition sameRest :: "capabilityBuild \<Rightarrow> capabilityBuild \<Rightarrow> bool" where
  "sameRest a b \<longleftrightarrow> cap_ContainerProfiles (cb_capabilities b) = cap_ContainerProfiles (cb_capabilities a) \<and>
     cap_MaximumAudioChannels (cb_capabilities b) = cap_MaximumAudioChannels (cb_capabilities a)"

lemma sameRest_refl [simp]: "sameRest a a"
  by (simp add: sameRest_def)

lemma sameRest_trans: "sameRest a b \<Longrightarrow> sameRest b c \<Longrightarrow> sameRest a c"
  by (simp add: sameRest_def)

lemma sameRest_adds [simp]:
  "sameRest a (addProtocol v b) = sameRest a b" "sameRest a (addContainer v b) = sameRest a b" "sameRest a (addVideoCodec v b) = sameRest a b"
  "sameRest a (addAudioCodec v b) = sameRest a b" "sameRest a (addMode v b) = sameRest a b" "sameRest a (addSubtitleMode v b) = sameRest a b"
  "sameRest a (b\<lparr>cb_allowTranscode := x\<rparr>) = sameRest a b" "sameRest a (directContainer v b) = sameRest a b"
  by (simp_all add: sameRest_def addProtocol_def addContainer_def addVideoCodec_def addAudioCodec_def addMode_def addSubtitleMode_def
      directContainer_def)

lemma addProfile_sameRest:
  assumes "addProfile constraints containers raw audios direct b = Inr b'" "sameRest a b"
  shows "sameRest a b'"
  using assms(1) by (cases rule: addProfile_cases) (use assms(2) in \<open>simp_all add: sameRest_def\<close>)

lemma directProfileStep_sameRest:
  assumes "directProfileStep constraints d b = Inr b'" "sameRest a b"
  shows "sameRest a b'"
  using assms(1)
proof (cases rule: directProfileStep_cases)
  case (2 containers videos audios)
  have "sameRest a (fold addAudioCodec audios (fold directContainer containers b))"
    by (rule fold_invariant [where P = "sameRest a"], rule fold_invariant [where P = "sameRest a"]) (simp_all add: assms(2))
  then show ?thesis
    by (rule foldResult_invariant [OF 2(4), where P = "sameRest a"]) (erule addProfile_sameRest, simp)
qed (simp add: assms(2))

lemma segmentContainerStep_sameRest:
  assumes "segmentContainerStep t b = Inr b'" "sameRest a b"
  shows "sameRest a b'"
  using assms by (auto simp: segmentContainerStep_def sameRest_def split: sum.split_asm prod.split_asm if_split_asm)

lemma transcodeProfileStep_sameRest:
  assumes "transcodeProfileStep constraints flags t b = Inr b'" "sameRest a b"
  shows "sameRest a b'"
  using assms(1)
proof (cases rule: transcodeProfileStep_cases)
  case (2 videos audios)
  show ?thesis
  proof (rule foldResult_invariant [OF 2(3), where P = "sameRest a"])
    fix video u v
    assume "(case addProfile constraints [''mp4''] video audios False u of Inl e \<Rightarrow> Inl e
        | Inr added \<Rightarrow> Inr (fold (transcodeAudioStep flags video) audios added)) = Inr v" and u: "sameRest a u"
    then obtain added where added: "addProfile constraints [''mp4''] video audios False u = Inr added"
      "v = fold (transcodeAudioStep flags video) audios added" unfolding case_sum_Inr by blast
    have "sameRest a added" by (rule addProfile_sameRest [OF added(1) u])
    then show "sameRest a v"
      unfolding added(2) by (rule fold_invariant) (simp add: transcodeAudioStep_def Let_def)
  qed (simp add: assms(2))
qed (simp add: assms(2))

lemma subtitleStep_sameRest: "subtitleStep sub b = Inr b' \<Longrightarrow> sameRest a b \<Longrightarrow> sameRest a b'"
  by (auto simp: subtitleStep_def split: if_split_asm)


end
