(* ===== verification/Jellyfin_Capabilities.thy ===== *)
theory Jellyfin_Capabilities
  imports Jellyfin_Profiles
begin

text \<open>
  Properties of the capabilities that are made of a device profile: what the playback service accepts of
  them, that the flags of the request and the limits of the codec profiles are kept, and that the fallback
  profile always works.
\<close>

section \<open>Validity\<close>

lemma uniqueModes_subset:
  assumes "list_all goodToken values" "distinct values" "set values \<subseteq> set allowed" "set seen \<inter> set values = {}"
  shows "uniqueModes seen allowed values"
  using assms
proof (induction "values" arbitrary: seen)
  case (Cons v vs)
  have "ToLower (TrimSpace v) = v"
    using Cons.prems(1) by (simp add: goodToken_def normalizeCapability_def)
  then show ?case using Cons.prems Cons.IH [of "v # seen"] by auto
qed simp

lemma distinct_subset_length: "distinct xs \<Longrightarrow> set xs \<subseteq> set ys \<Longrightarrow> length xs \<le> length ys"
  by (metis card_length card_mono distinct_card finite_set order_trans)

lemma validUniqueModes_good:
  assumes "set values \<subseteq> set allowed" "distinct values" "list_all goodToken allowed" "maximum = int (length allowed)"
  shows "validUniqueModes values allowed maximum"
proof -
  have "list_all goodToken values" using assms(1,3) by (auto simp: list_all_iff)
  then show ?thesis
    using assms distinct_subset_length [OF assms(2,1)] uniqueModes_subset [of "values" allowed "[]"] by (simp add: validUniqueModes_def)
qed

lemma validateCapabilities_build:
  assumes ok: "capabilitiesOk n c" and containers: "list_all validContainerProfile (cap_ContainerProfiles c)" "length (cap_ContainerProfiles c) \<le> 256"
    and numbers: "cap_MaximumVideoBitrateKbps c = 0 \<or> 64 \<le> cap_MaximumVideoBitrateKbps c \<and> cap_MaximumVideoBitrateKbps c \<le> 200000"
      "0 \<le> cap_MaximumAudioChannels c" "cap_MaximumAudioChannels c \<le> 32"
  shows "validateCapabilities c = (if length (cap_Containers c) \<le> 32 \<and> length (cap_VideoCodecs c) \<le> 32 \<and> length (cap_AudioCodecs c) \<le> 32
    then None else Some ErrInvalidInput)"
proof -
  have tokens: "list_all goodToken xs \<Longrightarrow> list_all validToken xs" for xs
    by (auto simp: list_all_iff goodToken_valid)
  have protocols: "list_all validToken (cap_StreamingProtocols c)" "length (cap_StreamingProtocols c) \<le> 32"
    using ok good_literals(1,2) goodToken_valid distinct_subset_length [of "cap_StreamingProtocols c" "[''http'', ''hls'']"]
    by (auto simp: capabilitiesOk_def list_all_iff)
  have modes: "validUniqueModes (cap_ProcessingModes c) [processingRemux, processingTranscodeAudio, processingTranscode] 3"
    "validUniqueModes (cap_SubtitleModes c) [''external'', ''burn''] 2"
    using ok good_literals by (auto simp: capabilitiesOk_def intro!: validUniqueModes_good)
  have few: "list_all validToken xs \<and> length xs \<le> 32"
    if "set xs \<subseteq> set allowed" "distinct xs" "list_all goodToken allowed" "length allowed \<le> 3" for xs allowed
    using that goodToken_valid distinct_subset_length [OF that(2,1)] by (auto simp: list_all_iff)
  have fewModes: "list_all validToken (cap_ProcessingModes c) \<and> length (cap_ProcessingModes c) \<le> 32"
    using ok good_literals by (intro few [of _ "[processingRemux, processingTranscodeAudio, processingTranscode]"]) (simp_all add: capabilitiesOk_def)
  have fewSubtitles: "list_all validToken (cap_SubtitleModes c) \<and> length (cap_SubtitleModes c) \<le> 32"
    using ok good_literals by (intro few [of _ "[''external'', ''burn'']"]) (simp_all add: capabilitiesOk_def)
  have codecs: "list_all validToken (cap_Containers c)" "list_all validToken (cap_VideoCodecs c)" "list_all validToken (cap_AudioCodecs c)"
    using ok tokens by (simp_all add: capabilitiesOk_def)
  have empty: "cap_HDRFormats c = []" "cap_ExternalPlayers c = []" using ok by (simp_all add: capabilitiesOk_def)
  let ?groups = "list_all (\<lambda>values. length values \<le> 32 \<and> list_all validToken values)
      [cap_StreamingProtocols c, cap_Containers c, cap_VideoCodecs c, cap_AudioCodecs c, cap_HDRFormats c, cap_ExternalPlayers c,
       cap_ProcessingModes c, cap_SubtitleModes c]"
  have groups: "?groups \<longleftrightarrow> length (cap_Containers c) \<le> 32 \<and> length (cap_VideoCodecs c) \<le> 32 \<and> length (cap_AudioCodecs c) \<le> 32"
    using protocols fewModes fewSubtitles codecs by (simp add: empty)
  have rest: "\<not> length (cap_MediaProfiles c) > 32" "list_all validMediaProfile (cap_MediaProfiles c)"
    "\<not> length (cap_ContainerProfiles c) > 256" "list_all validContainerProfile (cap_ContainerProfiles c)"
    "\<not> (cap_HLSSegmentContainer c \<noteq> [] \<and> cap_HLSSegmentContainer c \<noteq> ''ts'' \<and> cap_HLSSegmentContainer c \<noteq> ''mp4'')"
    "\<not> (cap_MaximumVideoBitrateKbps c \<noteq> 0 \<and> (cap_MaximumVideoBitrateKbps c < 64 \<or> cap_MaximumVideoBitrateKbps c > 200000))"
    "\<not> (cap_MaximumAudioChannels c \<noteq> 0 \<and> (cap_MaximumAudioChannels c < 1 \<or> cap_MaximumAudioChannels c > 32))"
    "\<not> (cap_MaximumHeight c \<noteq> 0 \<and> (cap_MaximumHeight c < 144 \<or> cap_MaximumHeight c > 4320))"
    using ok containers numbers unfolding capabilitiesOk_def by (auto simp only: not_less)
  show ?thesis
    unfolding validateCapabilities_def groups
    by (simp only: Eq_FalseI [OF rest(1)] Eq_TrueI [OF rest(2)] Eq_FalseI [OF rest(3)] Eq_TrueI [OF rest(4)] Eq_FalseI [OF rest(5)]
        Eq_FalseI [OF rest(6)] Eq_FalseI [OF rest(7)] Eq_FalseI [OF rest(8)] Eq_TrueI [OF modes(1)] Eq_TrueI [OF modes(2)]
        not_True_eq_False if_False if_not_P if_True HOL.simp_thms) simp
qed

lemma finishBuild_cases:
  assumes "finishBuild input b = Inr (capabilities, allow)"
  obtains bitrate where "effectiveBitrate (pi_MaxStreamingBitrate input) (dev_MaxStreamingBitrate (pi_DeviceProfile input)) = Inr bitrate"
    "capabilities = (cb_capabilities b)\<lparr>cap_MaximumVideoBitrateKbps := bitrate, cap_TranscodeVideoBitrateKbps := bitrate\<rparr>"
    "allow = cb_allowTranscode b" "cap_MediaProfiles capabilities \<noteq> []" "cap_StreamingProtocols capabilities \<noteq> []"
proof -
  from assms obtain bitrate where bitrate: "effectiveBitrate (pi_MaxStreamingBitrate input) (dev_MaxStreamingBitrate (pi_DeviceProfile input)) = Inr bitrate"
    unfolding finishBuild_def case_sum_Inr by blast
  let ?c = "(cb_capabilities b)\<lparr>cap_MaximumVideoBitrateKbps := bitrate, cap_TranscodeVideoBitrateKbps := bitrate\<rparr>"
  have "\<not> (cap_MediaProfiles ?c = [] \<or> cap_StreamingProtocols ?c = [])"
    using assms by (auto simp: finishBuild_def bitrate Let_def)
  then show thesis
    using assms by (intro that [OF bitrate]) (auto simp: finishBuild_def bitrate Let_def)
qed

text \<open>
  C37. What a client is granted, the playback service accepts, but for long lists. For every bounded request
  whose device profile is accepted, the capabilities that are made of it have valid media and container
  profiles, modes, limits and protocols, a profile is for direct play or for transcoding and not for both,
  and the service refuses them exactly when they name more than 32 containers, video codecs or audio codecs.
\<close>

theorem compat_capabilities_valid:
  assumes bounded: "boundedPlaybackInfo input" and accepted: "compatPlaybackCapabilities input = Inr (capabilities, allow)"
  shows "validateCapabilities capabilities = (if length (cap_Containers capabilities) \<le> 32 \<and>
      length (cap_VideoCodecs capabilities) \<le> 32 \<and> length (cap_AudioCodecs capabilities) \<le> 32 then None else Some ErrInvalidInput) \<and>
    list_all (\<lambda>p. mp_DirectPlay p \<noteq> mp_Transcoding p) (cap_MediaProfiles capabilities) \<and>
    cap_MediaProfiles capabilities \<noteq> [] \<and> cap_StreamingProtocols capabilities \<noteq> []"
  using accepted
proof (cases rule: compat_cases)
  case steps: (1 codecs containers direct segmented transcoded subtitled)
  let ?p = "pi_DeviceProfile input"
  have "buildOk subtitled"
    by (rule compat_buildOk [OF steps(1,2,4) _ steps(5) _ steps(6,7)]) auto
  then have ok: "capabilitiesOk (length (cb_profiles subtitled)) (cb_capabilities subtitled)" by (simp add: buildOk_def)
  have "sameRest (startBuild input containers) (if remuxAllowed (requestFlags input) then addMode ''remux'' direct else direct)"
    using foldResult_invariant [OF steps(4), where P = "sameRest (startBuild input containers)"] directProfileStep_sameRest by auto
  then have "sameRest (startBuild input containers) segmented"
    by (rule foldResult_invariant [OF steps(5)]) (rule segmentContainerStep_sameRest)
  then have "sameRest (startBuild input containers) transcoded"
    by (rule foldResult_invariant [OF steps(6)]) (rule transcodeProfileStep_sameRest)
  then have "sameRest (startBuild input containers) subtitled"
    by (rule foldResult_invariant [OF steps(7)]) (rule subtitleStep_sameRest)
  then have kept: "cap_ContainerProfiles (cb_capabilities subtitled) = containers"
    "cap_MaximumAudioChannels (cb_capabilities subtitled) = pi_MaxAudioChannels input"
    by (simp_all add: sameRest_def startBuild_def)
  have "\<forall>c \<in> set (dev_ContainerProfiles ?p). boundedList (dcp_Container c) \<and> length (dcp_Conditions c) \<le> 32 \<and> boundedConditions (dcp_Conditions c)"
    and count: "length (dev_ContainerProfiles ?p) \<le> 256"
    using steps(1) unfolding validDeviceProfileBounds_def maximumRawDeviceProfileEntries_def
    by (auto simp only: list_all_iff not_less de_Morgan_disj split: if_split_asm)
  note profiles = containerProfileConstraints_valid [OF steps(3) this(1)]
  from steps(8) obtain bitrate where
    bitrate: "effectiveBitrate (pi_MaxStreamingBitrate input) (dev_MaxStreamingBitrate ?p) = Inr bitrate"
    and result: "capabilities = (cb_capabilities subtitled)\<lparr>cap_MaximumVideoBitrateKbps := bitrate, cap_TranscodeVideoBitrateKbps := bitrate\<rparr>"
      "cap_MediaProfiles capabilities \<noteq> []" "cap_StreamingProtocols capabilities \<noteq> []"
    by (rule finishBuild_cases)
  have "capabilitiesOk (length (cb_profiles subtitled)) capabilities"
    using ok by (simp add: result(1) capabilitiesOk_def)
  from validateCapabilities_build [OF this] this profiles count effectiveBitrate_range [OF bitrate] bounded kept result(2,3) show ?thesis
    by (auto simp: result(1) boundedPlaybackInfo_def capabilitiesOk_def)
qed


text \<open>A request with the conservative profile.\<close>

definition exampleInfoRequest :: PlaybackInfoRequest where
  "exampleInfoRequest = \<lparr>pi_UserId = ''user'', pi_StartTimeTicks = 0, pi_IsPlayback = True, pi_AutoOpenLiveStream = False,
     pi_MaxStreamingBitrate = 8000000, pi_MaxAudioChannels = 6, pi_MediaSourceId = ''source'', pi_AudioStreamIndex = None,
     pi_SubtitleStreamIndex = None, pi_EnableDirectPlay = None, pi_EnableDirectStream = None, pi_EnableTranscoding = None,
     pi_AllowVideoStreamCopy = None, pi_AllowAudioStreamCopy = None, pi_DeviceProfile = conservativeCompatibilityProfile\<rparr>"

theorem compat_capabilities_valid_witness:
  "boundedPlaybackInfo exampleInfoRequest \<and> (\<exists>capabilities allow. compatPlaybackCapabilities exampleInfoRequest = Inr (capabilities, allow) \<and>
    validateCapabilities capabilities = None)"
proof -
  have bounded: "boundedPlaybackInfo exampleInfoRequest" by code_simp
  have "case compatPlaybackCapabilities exampleInfoRequest of Inl e \<Rightarrow> False
    | Inr (c, allow) \<Rightarrow> length (cap_Containers c) \<le> 32 \<and> length (cap_VideoCodecs c) \<le> 32 \<and> length (cap_AudioCodecs c) \<le> 32" by code_simp
  then obtain c allow where "compatPlaybackCapabilities exampleInfoRequest = Inr (c, allow)"
    "length (cap_Containers c) \<le> 32" "length (cap_VideoCodecs c) \<le> 32" "length (cap_AudioCodecs c) \<le> 32"
    by (auto split: sum.splits)
  with compat_capabilities_valid [OF bounded this(1)] bounded show ?thesis by auto
qed

section \<open>The flags of a request\<close>

definition hlsReady :: "Capabilities \<Rightarrow> bool" where
  "hlsReady c \<longleftrightarrow> cap_HLSSegmentContainer c \<noteq> [] \<and> ''hls'' \<in> set (cap_StreamingProtocols c)"

definition flagsKept :: "playbackFlags \<Rightarrow> capabilityBuild \<Rightarrow> bool" where
  "flagsKept flags b \<longleftrightarrow> (let c = cb_capabilities b; modes = set (cap_ProcessingModes c)
     in modes \<subseteq> {''remux'', ''transcode_audio'', ''transcode''} \<and> set (cap_StreamingProtocols c) \<subseteq> {''http'', ''hls''} \<and>
        (cb_allowTranscode b \<longleftrightarrow> ''transcode'' \<in> modes) \<and>
        (''transcode'' \<in> modes \<longrightarrow> pf_enableTranscoding flags \<and> hlsReady c) \<and>
        (''transcode_audio'' \<in> modes \<longrightarrow> ''transcode'' \<in> modes \<and> pf_allowVideoCopy flags) \<and>
        (''remux'' \<in> modes \<longrightarrow> remuxAllowed flags) \<and>
        (list_ex mp_Transcoding (cap_MediaProfiles c) \<longrightarrow> hlsReady c) \<and>
        (list_ex mp_DirectPlay (cap_MediaProfiles c) \<longrightarrow> pf_directPlay flags \<or> pf_directStream flags))"

lemma set_appendUnique_literals:
  assumes "set xs \<subseteq> set allowed" "v \<in> set allowed" "list_all goodToken allowed"
  shows "set (appendUniqueFold xs v) = insert v (set xs)"
proof -
  have "containsFold xs v \<longleftrightarrow> v \<in> set xs"
    using assms goodToken_EqualFold unfolding containsFold_def list_ex_iff list_all_iff by blast
  then show ?thesis using assms(2,3) by (auto simp: appendUniqueFold_def goodToken_def list_all_iff)
qed

lemma set_addMode:
  assumes "set (cap_ProcessingModes (cb_capabilities b)) \<subseteq> {''remux'', ''transcode_audio'', ''transcode''}"
    "v \<in> {''remux'', ''transcode_audio'', ''transcode''}"
  shows "set (cap_ProcessingModes (cb_capabilities (addMode v b))) = insert v (set (cap_ProcessingModes (cb_capabilities b)))"
  using assms good_literals set_appendUnique_literals [of _ "[''remux'', ''transcode_audio'', ''transcode'']" v]
  by (simp add: addMode_def)

lemma set_addProtocol:
  assumes "set (cap_StreamingProtocols (cb_capabilities b)) \<subseteq> {''http'', ''hls''}" "v \<in> {''http'', ''hls''}"
  shows "set (cap_StreamingProtocols (cb_capabilities (addProtocol v b))) = insert v (set (cap_StreamingProtocols (cb_capabilities b)))"
  using assms good_literals set_appendUnique_literals [of _ "[''http'', ''hls'']" v]
  by (simp add: addProtocol_def)

lemma addMode_other [simp]:
  "cb_allowTranscode (addMode v b) = cb_allowTranscode b" "cap_StreamingProtocols (cb_capabilities (addMode v b)) = cap_StreamingProtocols (cb_capabilities b)"
  "cap_MediaProfiles (cb_capabilities (addMode v b)) = cap_MediaProfiles (cb_capabilities b)"
  "cap_HLSSegmentContainer (cb_capabilities (addMode v b)) = cap_HLSSegmentContainer (cb_capabilities b)"
  by (simp_all add: addMode_def)

lemma flagsKept_adds [simp]:
  "flagsKept flags (addContainer v b) = flagsKept flags b" "flagsKept flags (addVideoCodec v b) = flagsKept flags b"
  "flagsKept flags (addAudioCodec v b) = flagsKept flags b" "flagsKept flags (addSubtitleMode v b) = flagsKept flags b"
  by (simp_all add: flagsKept_def addContainer_def addVideoCodec_def addAudioCodec_def addSubtitleMode_def hlsReady_def Let_def)

lemma flagsKept_addProtocol:
  assumes "flagsKept flags b" "v \<in> {''http'', ''hls''}"
  shows "flagsKept flags (addProtocol v b)"
proof -
  have "set (cap_StreamingProtocols (cb_capabilities (addProtocol v b))) = insert v (set (cap_StreamingProtocols (cb_capabilities b)))"
    using assms by (intro set_addProtocol) (simp_all add: flagsKept_def Let_def)
  with assms show ?thesis by (auto simp: flagsKept_def hlsReady_def Let_def addProtocol_def)
qed

lemma flagsKept_remux:
  assumes "flagsKept flags b" "remuxAllowed flags"
  shows "flagsKept flags (addMode ''remux'' b)"
proof -
  have "set (cap_ProcessingModes (cb_capabilities (addMode ''remux'' b))) = insert ''remux'' (set (cap_ProcessingModes (cb_capabilities b)))"
    using assms by (intro set_addMode) (simp_all add: flagsKept_def Let_def)
  with assms show ?thesis by (simp add: flagsKept_def hlsReady_def Let_def)
qed

lemma flagsKept_transcode:
  assumes "flagsKept flags b" "pf_enableTranscoding flags" "hlsReady (cb_capabilities b)" "audio \<Longrightarrow> pf_allowVideoCopy flags"
  shows "flagsKept flags ((if audio then addMode ''transcode_audio'' (addMode ''transcode'' b) else addMode ''transcode'' b)\<lparr>cb_allowTranscode := True\<rparr>)"
proof -
  have modes: "set (cap_ProcessingModes (cb_capabilities b)) \<subseteq> {''remux'', ''transcode_audio'', ''transcode''}"
    using assms(1) by (simp add: flagsKept_def Let_def)
  have one: "set (cap_ProcessingModes (cb_capabilities (addMode ''transcode'' b))) = insert ''transcode'' (set (cap_ProcessingModes (cb_capabilities b)))"
    by (intro set_addMode modes) simp
  then have two: "set (cap_ProcessingModes (cb_capabilities (addMode ''transcode_audio'' (addMode ''transcode'' b)))) =
      insert ''transcode_audio'' (insert ''transcode'' (set (cap_ProcessingModes (cb_capabilities b))))"
    using modes by (subst set_addMode) simp_all
  show ?thesis
    using assms one two by (cases audio) (simp_all add: flagsKept_def hlsReady_def Let_def)
qed

lemma transcodeAudioStep_flags:
  assumes "flagsKept flags b" "hlsReady (cb_capabilities b)"
  shows "flagsKept flags (transcodeAudioStep flags video audio b) \<and> hlsReady (cb_capabilities (transcodeAudioStep flags video audio b))"
proof -
  have "flagsKept flags (if pf_enableTranscoding flags \<and> video = ''h264'' \<and> audio = ''aac''
      then (if pf_allowVideoCopy flags then addMode ''transcode_audio'' (addMode ''transcode'' b) else addMode ''transcode'' b)\<lparr>cb_allowTranscode := True\<rparr>
      else b)"
    using assms flagsKept_transcode [OF assms(1) _ assms(2), of "pf_allowVideoCopy flags"] by simp
  with assms(2) flagsKept_remux show ?thesis
    by (simp add: transcodeAudioStep_def Let_def hlsReady_def)
qed

lemma addProfile_flags:
  assumes add: "addProfile constraints containers raw audios direct b = Inr b'" and b: "flagsKept flags b"
    and direct: "direct \<Longrightarrow> (pf_directPlay flags \<or> pf_directStream flags) \<and> (\<forall>key. \<not> mp_Transcoding (constraintFor constraints key))"
    and ready: "\<not> direct \<Longrightarrow> hlsReady (cb_capabilities b)"
  shows "flagsKept flags b' \<and> cap_HLSSegmentContainer (cb_capabilities b') = cap_HLSSegmentContainer (cb_capabilities b) \<and>
    cap_StreamingProtocols (cb_capabilities b') = cap_StreamingProtocols (cb_capabilities b)"
  using add
proof (cases rule: addProfile_cases)
  case (2 p key)
  have "direct \<Longrightarrow> \<not> mp_Transcoding p" "\<not> direct \<Longrightarrow> \<not> mp_DirectPlay p" using 2(11,12) direct by auto
  with 2(1) b direct ready show ?thesis by (cases direct) (auto simp: flagsKept_def hlsReady_def Let_def)
qed (simp add: b)

lemma directProfileStep_flags:
  assumes "directProfileStep constraints d b = Inr b'" "flagsKept flags b" "pf_directPlay flags \<or> pf_directStream flags"
    "\<forall>key. \<not> mp_Transcoding (constraintFor constraints key)"
  shows "flagsKept flags b'"
  using assms(1)
proof (cases rule: directProfileStep_cases)
  case (2 containers videos audios)
  have "flagsKept flags (fold addAudioCodec audios (fold directContainer containers b))"
    by (rule fold_invariant [where P = "flagsKept flags"], rule fold_invariant [where P = "flagsKept flags"])
      (auto simp: directContainer_def assms(2) intro!: flagsKept_addProtocol)
  then show ?thesis
    by (rule foldResult_invariant [OF 2(4), where P = "flagsKept flags"])
      (use addProfile_flags [where direct = True] assms(3,4) flagsKept_adds(2) in blast)
qed (simp add: assms(2))

lemma segmentContainerStep_flags:
  assumes step: "segmentContainerStep t b = Inr b'" and b: "flagsKept flags b"
  shows "flagsKept flags b'"
proof (cases "hlsTranscodingProfileSegmentContainer t")
  case (Inr r)
  obtain segment supported where r: "r = (segment, supported)" by (cases r)
  have "b' = b \<or> b' = b\<lparr>cb_capabilities := (cb_capabilities b)\<lparr>cap_HLSSegmentContainer := segment\<rparr>\<rparr> \<and> segment \<noteq> []"
    using step segmentContainer_range(2) [OF Inr [unfolded r]] by (auto simp: segmentContainerStep_def Inr r split: if_split_asm)
  then show ?thesis
  proof
    assume changed: "b' = b\<lparr>cb_capabilities := (cb_capabilities b)\<lparr>cap_HLSSegmentContainer := segment\<rparr>\<rparr> \<and> segment \<noteq> []"
    show ?thesis using b changed unfolding flagsKept_def hlsReady_def Let_def by simp
  qed (simp add: b)
qed (use step in \<open>simp add: segmentContainerStep_def\<close>)

lemma transcodeProfileStep_flags:
  assumes "transcodeProfileStep constraints flags t b = Inr b'" "flagsKept flags b"
  shows "flagsKept flags b'"
  using assms(1)
proof (cases rule: transcodeProfileStep_cases)
  case (2 videos audios)
  let ?P = "\<lambda>b. flagsKept flags b \<and> hlsReady (cb_capabilities b)"
  have "set (cap_StreamingProtocols (cb_capabilities b)) \<subseteq> {''http'', ''hls''}" using assms(2) by (simp add: flagsKept_def Let_def)
  then have start: "?P (addProtocol ''hls'' b)"
    using flagsKept_addProtocol [OF assms(2)] set_addProtocol [of b "''hls''"] 2(4) by (simp add: hlsReady_def addProtocol_def)
  have "?P b'"
  proof (rule foldResult_invariant [OF 2(3), where P = ?P, OF start])
    fix video u v
    assume u: "?P u" and "(case addProfile constraints [''mp4''] video audios False u of Inl e \<Rightarrow> Inl e
        | Inr added \<Rightarrow> Inr (fold (transcodeAudioStep flags video) audios added)) = Inr v"
    then obtain added where added: "addProfile constraints [''mp4''] video audios False u = Inr added"
      "v = fold (transcodeAudioStep flags video) audios added" unfolding case_sum_Inr by blast
    have "?P added"
      using addProfile_flags [OF added(1), of flags] u by (auto simp: hlsReady_def)
    then show "?P v" unfolding added(2) by (rule fold_invariant) (use transcodeAudioStep_flags in blast)
  qed
  then show ?thesis ..
qed (simp add: assms(2))

lemma subtitleStep_flags: "subtitleStep sub b = Inr b' \<Longrightarrow> flagsKept flags b \<Longrightarrow> flagsKept flags b'"
  by (auto simp: subtitleStep_def split: if_split_asm)

lemma compat_flags_build:
  assumes "compatPlaybackCapabilities input = Inr (capabilities, allow)"
  obtains b where "flagsKept (requestFlags input) b" "finishBuild input b = Inr (capabilities, allow)"
  using assms
proof (cases rule: compat_cases)
  case steps: (1 codecs containers direct segmented transcoded subtitled)
  let ?f = "requestFlags input" and ?p = "pi_DeviceProfile input"
  have "\<forall>p \<in> set (dev_CodecProfiles ?p). boundedConditions (cdp_Conditions p)"
    using steps(1) unfolding validDeviceProfileBounds_def by (auto simp only: list_all_iff split: if_split_asm)
  then have plain: "\<forall>key. \<not> mp_Transcoding (constraintFor codecs key)"
    using codecProfileConstraints_ok [OF steps(2)] by (simp add: constraintOk_def)
  have start: "flagsKept ?f (startBuild input containers)" by (simp add: startBuild_def flagsKept_def zero_defs)
  have "flagsKept ?f direct"
    using foldResult_invariant [OF steps(4), where P = "flagsKept ?f", OF start] directProfileStep_flags [OF _ _ _ plain]
    by (auto split: if_split_asm)
  then have "flagsKept ?f (if remuxAllowed ?f then addMode ''remux'' direct else direct)"
    using flagsKept_remux by simp
  then have "flagsKept ?f segmented"
    by (rule foldResult_invariant [OF steps(5)]) (rule segmentContainerStep_flags)
  then have "flagsKept ?f transcoded"
    by (rule foldResult_invariant [OF steps(6)]) (rule transcodeProfileStep_flags)
  then have "flagsKept ?f subtitled"
    by (rule foldResult_invariant [OF steps(7)]) (rule subtitleStep_flags)
  from that [OF this steps(8)] show thesis .
qed

text \<open>
  C38. The capabilities never grant what the request withholds. A source may be transcoded exactly when the
  capabilities have that mode, which takes that transcoding is enabled, a segment container and the protocol
  HLS; that audio alone is transcoded takes in addition that the copy of the video is allowed; remuxing
  takes direct streams and both copies; a profile for transcoding takes HLS, and one for direct play that
  direct play or direct streams are enabled. An absent flag enables.
\<close>

theorem compat_capabilities_grants:
  assumes "compatPlaybackCapabilities input = Inr (capabilities, allow)"
  shows "(allow \<longleftrightarrow> ''transcode'' \<in> set (cap_ProcessingModes capabilities)) \<and>
    (allow \<longrightarrow> pi_EnableTranscoding input \<noteq> Some False \<and> cap_HLSSegmentContainer capabilities \<noteq> [] \<and>
      ''hls'' \<in> set (cap_StreamingProtocols capabilities)) \<and>
    (''transcode_audio'' \<in> set (cap_ProcessingModes capabilities) \<longrightarrow> allow \<and> pi_AllowVideoStreamCopy input \<noteq> Some False) \<and>
    (''remux'' \<in> set (cap_ProcessingModes capabilities) \<longrightarrow> pi_EnableDirectStream input \<noteq> Some False \<and>
      pi_AllowVideoStreamCopy input \<noteq> Some False \<and> pi_AllowAudioStreamCopy input \<noteq> Some False) \<and>
    (list_ex mp_Transcoding (cap_MediaProfiles capabilities) \<longrightarrow> cap_HLSSegmentContainer capabilities \<noteq> [] \<and>
      ''hls'' \<in> set (cap_StreamingProtocols capabilities)) \<and>
    (list_ex mp_DirectPlay (cap_MediaProfiles capabilities) \<longrightarrow>
      pi_EnableDirectPlay input \<noteq> Some False \<or> pi_EnableDirectStream input \<noteq> Some False)"
proof -
  obtain b where b: "flagsKept (requestFlags input) b" "finishBuild input b = Inr (capabilities, allow)"
    by (rule compat_flags_build [OF assms])
  obtain bitrate where result: "capabilities = (cb_capabilities b)\<lparr>cap_MaximumVideoBitrateKbps := bitrate, cap_TranscodeVideoBitrateKbps := bitrate\<rparr>"
    "allow = cb_allowTranscode b"
    by (rule finishBuild_cases [OF b(2)])
  have flag: "playbackFlag x True \<longleftrightarrow> x \<noteq> Some False" for x
    by (cases x) (auto simp: playbackFlag_def)
  show ?thesis
    using b(1) by (simp add: result flagsKept_def hlsReady_def Let_def requestFlags_def remuxAllowed_def flag)
qed

theorem compat_capabilities_grants_witness:
  "\<exists>capabilities. compatPlaybackCapabilities exampleInfoRequest = Inr (capabilities, True) \<and>
    ''transcode'' \<in> set (cap_ProcessingModes capabilities)"
proof -
  have "case compatPlaybackCapabilities exampleInfoRequest of Inl e \<Rightarrow> False | Inr (c, allow) \<Rightarrow> allow" by code_simp
  then obtain c where "compatPlaybackCapabilities exampleInfoRequest = Inr (c, True)" by (auto split: sum.splits)
  with compat_capabilities_grants [OF this] show ?thesis by blast
qed

section \<open>The limits of the codec profiles\<close>

text \<open>A bound of the codec profiles: the property, and the values the code takes it at.\<close>

definition conditionLimit :: "string \<Rightarrow> int \<Rightarrow> int \<Rightarrow> DeviceCondition \<Rightarrow> int set" where
  "conditionLimit property lowest highest c =
     {n. normalizeCapability (dc_Property c) = property \<and> normalizeCapability (dc_Condition c) = ''lessthanequal'' \<and>
        ParseInt (TrimSpace (dc_Value c)) = Some n \<and> lowest \<le> n \<and> n \<le> highest}"

definition profileLimits :: "string \<Rightarrow> int \<Rightarrow> int \<Rightarrow> CodecProfile \<Rightarrow> string \<Rightarrow> int set" where
  "profileLimits property lowest highest profile key =
     (if EqualFold (TrimSpace (cdp_Type profile)) ''Video'' \<and>
         (\<exists>codecs. capabilityList (cdp_Codec profile) = Inr codecs \<and> key \<in> codecConstraintKey ` set codecs)
      then \<Union>c \<in> set (cdp_Conditions profile). conditionLimit property lowest highest c else {})"

definition codecLimits :: "string \<Rightarrow> int \<Rightarrow> int \<Rightarrow> CodecProfile list \<Rightarrow> string \<Rightarrow> int set" where
  "codecLimits property lowest highest profiles key = (\<Union>p \<in> set profiles. profileLimits property lowest highest p key)"

definition lowestOf :: "int set \<Rightarrow> int" where
  "lowestOf limits = (if limits = {} then 0 else Min limits)"

definition goodLimits :: "int set \<Rightarrow> bool" where
  "goodLimits limits \<longleftrightarrow> finite limits \<and> (\<forall>n \<in> limits. 0 < n)"

lemma conditionLimit_good: "0 < lowest \<Longrightarrow> goodLimits (conditionLimit property lowest highest c)"
  unfolding goodLimits_def conditionLimit_def
  by (auto intro: finite_subset [of _ "{lowest..highest}"])

lemma lowestOf_Un:
  assumes "goodLimits S" "goodLimits T"
  shows "lowestOf (S \<union> T) = (if T = {} \<or> lowestOf S \<noteq> 0 \<and> lowestOf S \<le> lowestOf T then lowestOf S else lowestOf T)"
proof (cases "S = {} \<or> T = {}")
  case False
  then have "Min S \<in> S" "finite S" "finite T" using assms by (simp_all add: goodLimits_def)
  moreover from this have "Min S \<noteq> 0" using assms(1) by (auto simp: goodLimits_def)
  moreover from calculation have "Min (S \<union> T) = min (Min S) (Min T)" using False by (simp add: Min_Un)
  ultimately show ?thesis using False by (simp add: lowestOf_def min_def)
qed (auto simp: lowestOf_def)

lemma goodLimits_Un [simp]: "goodLimits (S \<union> T) \<longleftrightarrow> goodLimits S \<and> goodLimits T"
  by (auto simp: goodLimits_def)

lemma lowestOf_singleton [simp]: "lowestOf {n} = n"
  by (simp add: lowestOf_def)

definition limited :: "int set \<Rightarrow> int set \<Rightarrow> MediaProfile \<Rightarrow> bool" where
  "limited depths levels c \<longleftrightarrow> mp_MaximumVideoBitDepth c = lowestOf depths \<and> mp_MaximumVideoLevel c = lowestOf levels \<and>
     goodLimits depths \<and> goodLimits levels"

abbreviation depthLimit :: "DeviceCondition \<Rightarrow> int set" where
  "depthLimit \<equiv> conditionLimit ''videobitdepth'' 8 16"

abbreviation levelLimit :: "DeviceCondition \<Rightarrow> int set" where
  "levelLimit \<equiv> conditionLimit ''videolevel'' 1 1000"

lemma conditionLimit_eq:
  "conditionLimit property lowest highest c =
     (if normalizeCapability (dc_Property c) = property \<and> normalizeCapability (dc_Condition c) = ''lessthanequal''
      then (case ParseInt (TrimSpace (dc_Value c)) of None \<Rightarrow> {} | Some n \<Rightarrow> if n < lowest \<or> highest < n then {} else {n}) else {})"
  by (auto simp: conditionLimit_def split: option.splits)

text \<open>What a condition makes of a limit that is not known yet when it is zero.\<close>

definition tightened :: "int set \<Rightarrow> int \<Rightarrow> int" where
  "tightened limits n = (if limits = {} then n else if n = 0 \<or> lowestOf limits < n then lowestOf limits else n)"

lemma codecCondition_depth:
  "mp_MaximumVideoBitDepth (codecCondition condition c) = tightened (depthLimit condition) (mp_MaximumVideoBitDepth c)"
  by (cases "ParseInt (TrimSpace (dc_Value condition))")
    (simp_all add: codecCondition_def unknownCondition_def conditionLimit_eq tightened_def normalizeCapability_def Let_def)

lemma codecCondition_level:
  "mp_MaximumVideoLevel (codecCondition condition c) = tightened (levelLimit condition) (mp_MaximumVideoLevel c)"
  by (cases "ParseInt (TrimSpace (dc_Value condition))")
    (simp_all add: codecCondition_def unknownCondition_def conditionLimit_eq tightened_def normalizeCapability_def Let_def)

lemma tightened_lowestOf:
  assumes "goodLimits S" "goodLimits T"
  shows "tightened T (lowestOf S) = lowestOf (S \<union> T)"
  by (simp add: lowestOf_Un [OF assms] tightened_def)

lemma codecCondition_limited:
  assumes "limited depths levels c"
  shows "limited (depths \<union> depthLimit condition) (levels \<union> levelLimit condition) (codecCondition condition c)"
  using assms by (simp add: limited_def codecCondition_depth codecCondition_level tightened_lowestOf conditionLimit_good)

lemma codecConditions_limited:
  assumes "limited depths levels c"
  shows "limited (depths \<union> (\<Union>x \<in> set conditions. depthLimit x)) (levels \<union> (\<Union>x \<in> set conditions. levelLimit x)) (fold codecCondition conditions c)"
  using assms
proof (induction conditions arbitrary: c depths levels)
  case (Cons x xs)
  from Cons.IH [OF codecCondition_limited [OF Cons.prems, of x]] show ?case by (simp add: Un_assoc)
qed simp

lemma codecProfile_limited:
  fixes conditions :: "DeviceCondition list"
  defines "X \<equiv> \<Union>x \<in> set conditions. depthLimit x" and "Y \<equiv> \<Union>x \<in> set conditions. levelLimit x"
  assumes "\<And>key. limited (depths key) (levels key) (constraintFor cs key)"
  shows "limited (if key \<in> codecConstraintKey ` set codecs then depths key \<union> X else depths key)
    (if key \<in> codecConstraintKey ` set codecs then levels key \<union> Y else levels key)
    (constraintFor (fold (\<lambda>codec cs. AList.update (codecConstraintKey codec)
      (fold codecCondition conditions (constraintFor cs (codecConstraintKey codec))) cs) codecs cs) key)"
  using assms(3)
proof (induction codecs arbitrary: cs depths levels)
  case (Cons codec codecs)
  let ?k = "codecConstraintKey codec"
  let ?depths = "\<lambda>key. if key = ?k then depths key \<union> X else depths key" and ?levels = "\<lambda>key. if key = ?k then levels key \<union> Y else levels key"
  let ?cs = "AList.update ?k (fold codecCondition conditions (constraintFor cs ?k)) cs"
  have "limited (?depths key) (?levels key) (constraintFor ?cs key)" for key
    using Cons.prems [of key] codecConditions_limited [OF Cons.prems [of ?k], of conditions]
    by (simp add: constraintFor_update X_def Y_def)
  from Cons.IH [OF this] show ?case by (simp add: Un_assoc split: if_split_asm)
qed simp

lemma codecLimits_Cons:
  "codecLimits property lowest highest (p # ps) key = profileLimits property lowest highest p key \<union> codecLimits property lowest highest ps key"
  by (simp add: codecLimits_def)

lemma codecProfileStep_limited:
  assumes step: "codecProfileStep p cs = Inr cs'" and cs: "\<And>key. limited (depths key) (levels key) (constraintFor cs key)"
  shows "limited (depths key \<union> profileLimits ''videobitdepth'' 8 16 p key) (levels key \<union> profileLimits ''videolevel'' 1 1000 p key)
    (constraintFor cs' key)"
proof -
  obtain codecs where codecs: "capabilityList (cdp_Codec p) = Inr codecs"
    using step by (cases "capabilityList (cdp_Codec p)") (simp_all add: codecProfileStep_def)
  show ?thesis
  proof (cases "EqualFold (TrimSpace (cdp_Type p)) ''Video''")
    case True
    then have "cs' = fold (\<lambda>codec cs. AList.update (codecConstraintKey codec)
      (fold codecCondition (cdp_Conditions p) (constraintFor cs (codecConstraintKey codec))) cs) codecs cs"
      using step by (simp add: codecProfileStep_def codecs)
    with codecProfile_limited [OF cs, where codecs = codecs and conditions = "cdp_Conditions p" and key = key] True show ?thesis
      by (simp add: profileLimits_def codecs split: if_split_asm)
  next
    case False
    with step cs show ?thesis by (simp add: codecProfileStep_def codecs profileLimits_def)
  qed
qed

lemma codecProfileConstraints_limited:
  assumes "codecProfileConstraints profiles = Inr constraints"
  shows "limited (codecLimits ''videobitdepth'' 8 16 profiles key) (codecLimits ''videolevel'' 1 1000 profiles key) (constraintFor constraints key)"
proof -
  have "limited (depths key \<union> codecLimits ''videobitdepth'' 8 16 profiles key) (levels key \<union> codecLimits ''videolevel'' 1 1000 profiles key)
      (constraintFor constraints key)"
    if "foldResult codecProfileStep profiles cs = Inr constraints" "\<And>key. limited (depths key) (levels key) (constraintFor cs key)" for cs depths levels
    using that
  proof (induction profiles arbitrary: cs depths levels)
    case (Cons p ps)
    from Cons.prems(1) obtain cs' where step: "codecProfileStep p cs = Inr cs'" "foldResult codecProfileStep ps cs' = Inr constraints"
      by (auto split: sum.splits)
    show ?case
      using Cons.IH [OF step(2) codecProfileStep_limited [OF step(1) Cons.prems(2)]] by (simp add: codecLimits_Cons Un_assoc)
  qed (simp add: codecLimits_def)
  from this [of "[]" "\<lambda>_. {}" "\<lambda>_. {}"] assms show ?thesis
    by (simp add: codecProfileConstraints_def constraintFor_def limited_def lowestOf_def goodLimits_def zero_defs)
qed

text \<open>A property of every media profile of the capabilities.\<close>

definition profilesHold :: "(MediaProfile \<Rightarrow> bool) \<Rightarrow> capabilityBuild \<Rightarrow> bool" where
  "profilesHold Q b \<longleftrightarrow> list_all Q (cap_MediaProfiles (cb_capabilities b))"

lemma profilesHold_adds [simp]:
  "profilesHold Q (addProtocol v b) = profilesHold Q b" "profilesHold Q (addContainer v b) = profilesHold Q b"
  "profilesHold Q (addVideoCodec v b) = profilesHold Q b" "profilesHold Q (addAudioCodec v b) = profilesHold Q b"
  "profilesHold Q (addMode v b) = profilesHold Q b" "profilesHold Q (addSubtitleMode v b) = profilesHold Q b"
  "profilesHold Q (b\<lparr>cb_allowTranscode := x\<rparr>) = profilesHold Q b" "profilesHold Q (directContainer v b) = profilesHold Q b"
  by (simp_all add: profilesHold_def addProtocol_def addContainer_def addVideoCodec_def addAudioCodec_def addMode_def addSubtitleMode_def
      directContainer_def)

definition limitsKept :: "CodecProfile list \<Rightarrow> MediaProfile \<Rightarrow> bool" where
  "limitsKept profiles p \<longleftrightarrow>
     mp_MaximumVideoBitDepth p = lowestOf (codecLimits ''videobitdepth'' 8 16 profiles (codecConstraintKey (mp_VideoCodec p))) \<and>
     mp_MaximumVideoLevel p = (if mp_DirectPlay p then lowestOf (codecLimits ''videolevel'' 1 1000 profiles (codecConstraintKey (mp_VideoCodec p))) else 0)"

lemma addProfile_limits:
  assumes "addProfile constraints containers raw audios direct b = Inr b'" "profilesHold (limitsKept profiles) b"
    "codecProfileConstraints profiles = Inr constraints"
  shows "profilesHold (limitsKept profiles) b'"
  using assms(1)
proof (cases rule: addProfile_cases)
  case (2 p key)
  note limit = codecProfileConstraints_limited [OF assms(3), of "codecConstraintKey (normalizeCapability raw)"]
  have "limitsKept profiles p"
    using limit 2(6,10,11,12) by (cases direct) (simp_all add: limitsKept_def limited_def)
  with 2(1) assms(2) show ?thesis by (simp add: profilesHold_def)
qed (simp add: assms(2))

lemma directProfileStep_limits:
  assumes "directProfileStep constraints d b = Inr b'" "profilesHold (limitsKept profiles) b" "codecProfileConstraints profiles = Inr constraints"
  shows "profilesHold (limitsKept profiles) b'"
  using assms(1)
proof (cases rule: directProfileStep_cases)
  case (2 containers videos audios)
  have "profilesHold (limitsKept profiles) (fold addAudioCodec audios (fold directContainer containers b))"
    by (rule fold_invariant [where P = "profilesHold (limitsKept profiles)"],
        rule fold_invariant [where P = "profilesHold (limitsKept profiles)"]) (simp_all add: assms(2))
  then show ?thesis
    by (rule foldResult_invariant [OF 2(4)]) (erule addProfile_limits [OF _ _ assms(3)], simp)
qed (simp add: assms(2))

lemma segmentContainerStep_limits: "segmentContainerStep t b = Inr b' \<Longrightarrow> profilesHold Q b \<Longrightarrow> profilesHold Q b'"
  by (auto simp: segmentContainerStep_def profilesHold_def split: sum.split_asm prod.split_asm if_split_asm)

lemma transcodeProfileStep_limits:
  assumes "transcodeProfileStep constraints flags t b = Inr b'" "profilesHold (limitsKept profiles) b"
    "codecProfileConstraints profiles = Inr constraints"
  shows "profilesHold (limitsKept profiles) b'"
  using assms(1)
proof (cases rule: transcodeProfileStep_cases)
  case (2 videos audios)
  show ?thesis
  proof (rule foldResult_invariant [OF 2(3), where P = "profilesHold (limitsKept profiles)"])
    fix video u v
    assume "(case addProfile constraints [''mp4''] video audios False u of Inl e \<Rightarrow> Inl e
        | Inr added \<Rightarrow> Inr (fold (transcodeAudioStep flags video) audios added)) = Inr v" and u: "profilesHold (limitsKept profiles) u"
    then obtain added where added: "addProfile constraints [''mp4''] video audios False u = Inr added"
      "v = fold (transcodeAudioStep flags video) audios added" unfolding case_sum_Inr by blast
    have "profilesHold (limitsKept profiles) added" by (rule addProfile_limits [OF added(1) u assms(3)])
    then show "profilesHold (limitsKept profiles) v"
      unfolding added(2) by (rule fold_invariant) (simp add: transcodeAudioStep_def Let_def)
  qed (simp add: assms(2))
qed (simp add: assms(2))

lemma subtitleStep_limits: "subtitleStep sub b = Inr b' \<Longrightarrow> profilesHold Q b \<Longrightarrow> profilesHold Q b'"
  by (auto simp: subtitleStep_def split: if_split_asm)

text \<open>
  C39. The limits of the codec profiles, whatever their order and however often they name a codec: the bit
  depth of every media profile that the capabilities have is the least of the bit depths, between 8 and 16,
  that a video codec profile sets for its codec under any of the names of that codec, or zero when none
  does; a profile for direct play has the least of the levels between 1 and 1000 in the same way, and one
  for transcoding has no limit of the level.
\<close>

theorem compat_capabilities_limits:
  assumes "compatPlaybackCapabilities input = Inr (capabilities, allow)" "p \<in> set (cap_MediaProfiles capabilities)"
  shows "mp_MaximumVideoBitDepth p =
      lowestOf (codecLimits ''videobitdepth'' 8 16 (dev_CodecProfiles (pi_DeviceProfile input)) (codecConstraintKey (mp_VideoCodec p))) \<and>
    mp_MaximumVideoLevel p = (if mp_DirectPlay p then
      lowestOf (codecLimits ''videolevel'' 1 1000 (dev_CodecProfiles (pi_DeviceProfile input)) (codecConstraintKey (mp_VideoCodec p))) else 0)"
  using assms(1)
proof (cases rule: compat_cases)
  case steps: (1 codecs containers direct segmented transcoded subtitled)
  let ?Q = "profilesHold (limitsKept (dev_CodecProfiles (pi_DeviceProfile input)))"
  have start: "?Q (startBuild input containers)" by (simp add: startBuild_def profilesHold_def zero_defs)
  have "?Q direct"
    by (rule foldResult_invariant [OF steps(4), where P = ?Q, OF start]) (erule directProfileStep_limits [OF _ _ steps(2)])
  then have "?Q (if remuxAllowed (requestFlags input) then addMode ''remux'' direct else direct)" by simp
  then have "?Q segmented" by (rule foldResult_invariant [OF steps(5)]) (rule segmentContainerStep_limits)
  then have "?Q transcoded" by (rule foldResult_invariant [OF steps(6)]) (erule transcodeProfileStep_limits [OF _ _ steps(2)])
  then have "?Q subtitled" by (rule foldResult_invariant [OF steps(7)]) (rule subtitleStep_limits)
  moreover obtain bitrate where "capabilities =
      (cb_capabilities subtitled)\<lparr>cap_MaximumVideoBitrateKbps := bitrate, cap_TranscodeVideoBitrateKbps := bitrate\<rparr>"
    by (rule finishBuild_cases [OF steps(8)])
  ultimately show ?thesis
    using assms(2) by (auto simp: profilesHold_def limitsKept_def list_all_iff)
qed

text \<open>Two codec profiles for the same codec under two names.\<close>

definition exampleLimited :: PlaybackInfoRequest where
  "exampleLimited = exampleInfoRequest\<lparr>pi_DeviceProfile := conservativeCompatibilityProfile\<lparr>dev_CodecProfiles :=
     [\<lparr>cdp_Type = ''Video'', cdp_Codec = ''avc'', cdp_Conditions =
        [\<lparr>dc_Condition = ''LessThanEqual'', dc_Property = ''VideoBitDepth'', dc_Value = ''10'', dc_IsRequired = False\<rparr>]\<rparr>,
      \<lparr>cdp_Type = ''Video'', cdp_Codec = ''h264'', cdp_Conditions =
        [\<lparr>dc_Condition = ''LessThanEqual'', dc_Property = ''VideoBitDepth'', dc_Value = ''8'', dc_IsRequired = False\<rparr>]\<rparr>]\<rparr>\<rparr>"

theorem compat_capabilities_limits_witness:
  "\<exists>capabilities allow p. compatPlaybackCapabilities exampleLimited = Inr (capabilities, allow) \<and> p \<in> set (cap_MediaProfiles capabilities) \<and>
    mp_MaximumVideoBitDepth p =
      lowestOf (codecLimits ''videobitdepth'' 8 16 (dev_CodecProfiles (pi_DeviceProfile exampleLimited)) (codecConstraintKey (mp_VideoCodec p))) \<and>
    mp_MaximumVideoBitDepth p = 8"
proof -
  have "case compatPlaybackCapabilities exampleLimited of Inl e \<Rightarrow> False
    | Inr (c, allow) \<Rightarrow> cap_MediaProfiles c \<noteq> [] \<and> mp_MaximumVideoBitDepth (hd (cap_MediaProfiles c)) = 8" by code_simp
  then obtain c allow where c: "compatPlaybackCapabilities exampleLimited = Inr (c, allow)" "cap_MediaProfiles c \<noteq> []"
    "mp_MaximumVideoBitDepth (hd (cap_MediaProfiles c)) = 8"
    by (auto split: sum.splits)
  from compat_capabilities_limits [OF c(1) hd_in_set [OF c(2)]] c hd_in_set [OF c(2)] show ?thesis by blast
qed

section \<open>The fallback profile\<close>

text \<open>There is room for a profile, and the keys count the profiles.\<close>

definition room :: "nat \<Rightarrow> capabilityBuild \<Rightarrow> bool" where
  "room n b \<longleftrightarrow> length (cb_profiles b) \<le> n \<and> length (cap_MediaProfiles (cb_capabilities b)) = length (cb_profiles b)"

lemma room_adds [simp]:
  "room n (addProtocol v b) = room n b" "room n (addContainer v b) = room n b" "room n (addVideoCodec v b) = room n b"
  "room n (addAudioCodec v b) = room n b" "room n (addMode v b) = room n b" "room n (addSubtitleMode v b) = room n b"
  "room n (b\<lparr>cb_allowTranscode := x\<rparr>) = room n b" "room n (directContainer v b) = room n b"
  by (simp_all add: room_def addProtocol_def addContainer_def addVideoCodec_def addAudioCodec_def addMode_def addSubtitleMode_def
      directContainer_def)

lemma protocols_adds [simp]:
  "cap_StreamingProtocols (cb_capabilities (addVideoCodec v b)) = cap_StreamingProtocols (cb_capabilities b)"
  "cap_StreamingProtocols (cb_capabilities (addAudioCodec v b)) = cap_StreamingProtocols (cb_capabilities b)"
  "cap_StreamingProtocols (cb_capabilities (addContainer v b)) = cap_StreamingProtocols (cb_capabilities b)"
  "cap_StreamingProtocols (cb_capabilities (addSubtitleMode v b)) = cap_StreamingProtocols (cb_capabilities b)"
  by (simp_all add: addVideoCodec_def addAudioCodec_def addContainer_def addSubtitleMode_def)

lemma addProtocol_nonempty [simp]: "v \<noteq> [] \<Longrightarrow> cap_StreamingProtocols (cb_capabilities (addProtocol v b)) \<noteq> []"
  by (auto simp: addProtocol_def appendUniqueFold_def containsFold_def)

lemma directContainer_nonempty [simp]: "cap_StreamingProtocols (cb_capabilities (directContainer c b)) \<noteq> []"
  by (simp add: directContainer_def)

lemma addProfile_room:
  assumes "room n b" "n < 32" "normalizeCapability raw \<noteq> []"
  obtains b' where "addProfile constraints [c] raw audios direct b = Inr b'" "room (Suc n) b'"
    "cap_MediaProfiles (cb_capabilities b') \<noteq> []" "cap_StreamingProtocols (cb_capabilities b') = cap_StreamingProtocols (cb_capabilities b)"
proof (cases "addProfile constraints [c] raw audios direct b")
  case (Inl e)
  then show thesis using assms by (auto simp: addProfile_def room_def Let_def split: if_split_asm)
next
  case (Inr b')
  from Inr show thesis
  proof (cases rule: addProfile_cases)
    case 1
    have "cb_profiles b \<noteq> []"
    proof
      assume empty: "cb_profiles b = []"
      then have "cb_profiles b' \<noteq> []"
        using Inr assms(3) by (auto simp: addProfile_def Let_def split: if_split_asm)
      with 1 empty show False by simp
    qed
    then show thesis using 1 Inr assms(1) by (intro that [of b]) (auto simp: room_def)
  next
    case (2 p key)
    show thesis by (rule that [OF Inr]) (use 2(1) assms(1) in \<open>simp_all add: room_def\<close>)
  qed
qed

text \<open>What the profiles of the conservative profile say.\<close>

lemma conservative_lists:
  "capabilityList ''mp4'' = Inr [''mp4'']" "capabilityList ''h264'' = Inr [''h264'']" "capabilityList ''aac'' = Inr [''aac'']"
  "normalizedContainer ''mp4'' = ''mp4''" "normalizeCapability ''h264'' \<noteq> []" "EqualFold ''Video'' ''Video''" "EqualFold ''Streaming'' ''Streaming''"
  "normalizeCapability ''hls'' = ''hls''" "transcodingProfileMaxAudioChannels [] = Inr 0"
  by code_simp+

lemma conservative_direct:
  assumes "room n b" "n < 32" "d \<in> set (dev_DirectPlayProfiles conservativeCompatibilityProfile)"
  obtains b' where "directProfileStep [] d b = Inr b'" "room (Suc n) b'" "cap_MediaProfiles (cb_capabilities b') \<noteq> []"
    "cap_StreamingProtocols (cb_capabilities b') \<noteq> []"
proof -
  let ?b = "addVideoCodec ''h264'' (addAudioCodec ''aac'' (directContainer ''mp4'' b))"
  have "room n ?b" using assms(1) by simp
  then obtain b' where b': "addProfile [] [''mp4''] ''h264'' [''aac''] True ?b = Inr b'" "room (Suc n) b'"
    "cap_MediaProfiles (cb_capabilities b') \<noteq> []" "cap_StreamingProtocols (cb_capabilities b') = cap_StreamingProtocols (cb_capabilities ?b)"
    by (rule addProfile_room [OF _ assms(2) conservative_lists(5)])
  have d: "dpp_Container d = ''mp4''" "dpp_AudioCodec d = ''aac''" "dpp_VideoCodec d = ''h264''" "dpp_Type d = ''Video''"
    using assms(3) by (simp_all add: conservativeCompatibilityProfile_def)
  have "directProfileStep [] d b = Inr b'"
    by (simp add: directProfileStep_def d conservative_lists(1-4,6) b'(1))
  moreover have "cap_StreamingProtocols (cb_capabilities b') \<noteq> []" unfolding b'(4) by simp
  ultimately show thesis using b'(2,3) by (intro that)
qed

lemma conservative_segment:
  assumes "t \<in> set (dev_TranscodingProfiles conservativeCompatibilityProfile)"
  shows "hlsTranscodingProfileSegmentContainer t = Inr (''mp4'', True)"
proof -
  have "list_all (\<lambda>t. hlsTranscodingProfileSegmentContainer t = Inr (''mp4'', True)) (dev_TranscodingProfiles conservativeCompatibilityProfile)"
    by code_simp
  with assms show ?thesis by (simp add: list_all_iff)
qed

lemma conservative_transcoding:
  assumes "room n b" "n < 32" "t \<in> set (dev_TranscodingProfiles conservativeCompatibilityProfile)"
    "cap_HLSSegmentContainer (cb_capabilities b) = ''mp4''"
  obtains b' where "transcodeProfileStep [] flags t b = Inr b'" "room (Suc n) b'" "cap_MediaProfiles (cb_capabilities b') \<noteq> []"
    "cap_StreamingProtocols (cb_capabilities b') \<noteq> []"
proof -
  have "room n (addProtocol ''hls'' b)" using assms(1) by simp
  then obtain b' where b': "addProfile [] [''mp4''] ''h264'' [''aac''] False (addProtocol ''hls'' b) = Inr b'" "room (Suc n) b'"
    "cap_MediaProfiles (cb_capabilities b') \<noteq> []"
    "cap_StreamingProtocols (cb_capabilities b') = cap_StreamingProtocols (cb_capabilities (addProtocol ''hls'' b))"
    by (rule addProfile_room [OF _ assms(2) conservative_lists(5)])
  have t: "tp_VideoCodec t = ''h264''" "tp_AudioCodec t = ''aac''" "tp_MaxAudioChannels t = []"
    using assms(3) by (simp_all add: conservativeCompatibilityProfile_def)
  have "transcodeProfileStep [] flags t b = Inr (transcodeAudioStep flags ''h264'' ''aac'' b')"
    by (simp add: transcodeProfileStep_def conservative_segment [OF assms(3)] assms(4) t conservative_lists(2,3,9) b'(1))
  moreover have "room (Suc n) (transcodeAudioStep flags ''h264'' ''aac'' b')"
    "cap_MediaProfiles (cb_capabilities (transcodeAudioStep flags ''h264'' ''aac'' b')) \<noteq> []"
    "cap_StreamingProtocols (cb_capabilities (transcodeAudioStep flags ''h264'' ''aac'' b')) \<noteq> []"
    using b' by (simp_all add: transcodeAudioStep_def Let_def)
  ultimately show thesis by (rule that)
qed

lemma subtitleStep_conservative:
  assumes "sub \<in> set (dev_SubtitleProfiles conservativeCompatibilityProfile)"
  shows "subtitleStep sub b = Inr (addSubtitleMode ''external'' b)"
proof -
  have "list_all (\<lambda>sub. length (sup_Format sub) \<le> 64 \<and> length (sup_Method sub) \<le> 64 \<and>
      ToLower (TrimSpace (sup_Method sub)) = ''external'') (dev_SubtitleProfiles conservativeCompatibilityProfile)" by code_simp
  then show ?thesis using assms by (fastforce simp: list_all_iff subtitleStep_def)
qed

lemma conservative_bounds:
  assumes "maximum = 0 \<or> 64000 \<le> maximum \<and> maximum \<le> maximumCompatClientBitrate"
  shows "validDeviceProfileBounds (conservativeCompatibilityProfile\<lparr>dev_MaxStreamingBitrate := maximum\<rparr>)"
  using assms
  by (auto simp: validDeviceProfileBounds_def conservativeCompatibilityProfile_def maximumRawDeviceProfileEntries_def boundedList_def
      boundedScalar_def boundedConditions_def containerProfileConstraints_def conservative_lists(9))

lemma effectiveBitrate_error:
  assumes "profile = 0 \<or> 64000 \<le> profile \<and> profile \<le> maximumCompatClientBitrate" "0 \<le> requested" "requested \<le> maximumCompatClientBitrate"
  shows "effectiveBitrate requested profile = Inl e \<longleftrightarrow> 0 < requested \<and> requested < 64000 \<and> e = ErrInvalidQuery"
  using assms by (auto simp: effectiveBitrate_def Let_def)

lemma profilesHold_none: "profilesHold (\<lambda>_. False) b \<longleftrightarrow> cap_MediaProfiles (cb_capabilities b) = []"
  unfolding profilesHold_def by (cases "cap_MediaProfiles (cb_capabilities b)") simp_all

abbreviation allOff :: "PlaybackInfoRequest \<Rightarrow> bool" where
  "allOff input \<equiv> \<not> pf_directPlay (requestFlags input) \<and> \<not> pf_directStream (requestFlags input) \<and> \<not> pf_enableTranscoding (requestFlags input)"

lemma allOff_refused: "allOff input \<Longrightarrow> isl (compatPlaybackCapabilities input)"
proof (cases "compatPlaybackCapabilities input")
  case (Inr r)
  assume off: "allOff input"
  obtain capabilities allow where r: "r = (capabilities, allow)" by (cases r)
  from Inr [unfolded r] show ?thesis
  proof (cases rule: compat_cases)
    case steps: (1 codecs containers direct segmented transcoded subtitled)
    have "transcoded = startBuild input containers"
      using steps(4-6) off by (simp add: remuxAllowed_def)
    then have "profilesHold (\<lambda>_. False) transcoded" by (simp add: profilesHold_none startBuild_def zero_defs)
    then have "profilesHold (\<lambda>_. False) subtitled" by (rule foldResult_invariant [OF steps(7)]) (rule subtitleStep_limits)
    then show ?thesis using finishBuild_cases [OF steps(8)] by (auto simp: profilesHold_none)
  qed
qed simp

lemma compat_bitrate:
  assumes "compatPlaybackCapabilities input = Inr (capabilities, allow)"
  shows "\<not> isl (effectiveBitrate (pi_MaxStreamingBitrate input) (dev_MaxStreamingBitrate (pi_DeviceProfile input)))"
  using assms
proof (cases rule: compat_cases)
  case steps: (1 codecs containers direct segmented transcoded subtitled)
  show ?thesis by (rule finishBuild_cases [OF steps(8)]) simp
qed

lemma directProfileStep_segment:
  assumes "directProfileStep constraints d b = Inr b'"
  shows "cap_HLSSegmentContainer (cb_capabilities b') = cap_HLSSegmentContainer (cb_capabilities b)"
  using assms
proof (cases rule: directProfileStep_cases)
  case (2 containers videos audios)
  let ?P = "\<lambda>u. cap_HLSSegmentContainer (cb_capabilities u) = cap_HLSSegmentContainer (cb_capabilities b)"
  have "?P (fold addAudioCodec audios (fold directContainer containers b))"
    by (rule fold_invariant [where P = ?P], rule fold_invariant [where P = ?P])
      (simp_all add: directContainer_def addContainer_def addProtocol_def addAudioCodec_def)
  then show ?thesis
  proof (rule foldResult_invariant [OF 2(4), where P = ?P])
    fix video u v
    assume "addProfile constraints (map normalizedContainer containers) video audios True (addVideoCodec video u) = Inr v" "?P u"
    then show "?P v" by (cases rule: addProfile_cases) (simp_all add: addVideoCodec_def)
  qed
qed simp

lemma conservative_runs:
  assumes profile: "pi_DeviceProfile input = conservativeCompatibilityProfile\<lparr>dev_MaxStreamingBitrate := maximum\<rparr>"
    and maximum: "maximum = 0 \<or> 64000 \<le> maximum \<and> maximum \<le> maximumCompatClientBitrate"
  obtains b where "compatPlaybackCapabilities input = finishBuild input b"
    "cap_MediaProfiles (cb_capabilities b) \<noteq> [] \<longleftrightarrow> \<not> allOff input"
    "\<not> allOff input \<Longrightarrow> cap_StreamingProtocols (cb_capabilities b) \<noteq> []"
proof -
  let ?f = "requestFlags input" and ?p = conservativeCompatibilityProfile and ?start = "startBuild input []"
  let ?directs = "if pf_directPlay ?f \<or> pf_directStream ?f then dev_DirectPlayProfiles ?p else []"
  let ?transcodings = "if pf_directStream ?f \<or> pf_enableTranscoding ?f then dev_TranscodingProfiles ?p else []"
  let ?made = "\<lambda>b. cap_MediaProfiles (cb_capabilities b) \<noteq> [] \<and> cap_StreamingProtocols (cb_capabilities b) \<noteq> []"
  obtain d t sub where lists: "dev_DirectPlayProfiles ?p = [d]" "dev_TranscodingProfiles ?p = [t]" "dev_SubtitleProfiles ?p = [sub]"
    "dev_CodecProfiles ?p = []" "dev_ContainerProfiles ?p = []"
    by (simp add: conservativeCompatibilityProfile_def)
  have start: "room 0 ?start" "cap_HLSSegmentContainer (cb_capabilities ?start) = []" by (simp_all add: room_def startBuild_def zero_defs)
  obtain direct where direct: "foldResult (directProfileStep []) ?directs ?start = Inr direct" "room 1 direct"
    "cap_HLSSegmentContainer (cb_capabilities direct) = []" "if pf_directPlay ?f \<or> pf_directStream ?f then ?made direct else direct = ?start"
  proof (cases "pf_directPlay ?f \<or> pf_directStream ?f")
    case True
    obtain b' where "directProfileStep [] d ?start = Inr b'" "room (Suc 0) b'" "?made b'"
      by (rule conservative_direct [OF start(1), of d]) (simp_all add: lists)
    with True start(2) directProfileStep_segment [OF this(1)] show thesis by (intro that [of b']) (simp_all add: lists)
  next
    case False
    then show thesis using start by (intro that [of ?start]) (simp_all add: room_def)
  qed
  let ?remuxed = "if remuxAllowed ?f then addMode ''remux'' direct else direct"
  have remuxed: "room 1 ?remuxed" "cap_HLSSegmentContainer (cb_capabilities ?remuxed) = []" "?made direct \<Longrightarrow> ?made ?remuxed"
    using direct by (simp_all add: addMode_def room_def)
  obtain segmented transcoded where transcoded: "foldResult segmentContainerStep ?transcodings ?remuxed = Inr segmented"
    "foldResult (transcodeProfileStep [] ?f) ?transcodings segmented = Inr transcoded" "allOff input \<and> transcoded = ?start \<or> \<not> allOff input \<and> ?made transcoded"
  proof (cases "pf_directStream ?f \<or> pf_enableTranscoding ?f")
    case True
    let ?b = "?remuxed\<lparr>cb_capabilities := (cb_capabilities ?remuxed)\<lparr>cap_HLSSegmentContainer := ''mp4''\<rparr>\<rparr>"
    have t: "t \<in> set (dev_TranscodingProfiles ?p)" by (simp add: lists)
    have "room 1 ?b" using remuxed(1) unfolding room_def by simp
    then obtain b' where "transcodeProfileStep [] ?f t ?b = Inr b'" "?made b'"
      by (rule conservative_transcoding [OF _ _ t, of 1 _ ?f]) simp_all
    moreover have "segmentContainerStep t ?remuxed = Inr ?b"
      unfolding segmentContainerStep_def conservative_segment [OF t] using remuxed(2) by simp
    ultimately show thesis using True by (intro that [of ?b b']) (simp_all add: lists)
  next
    case False
    then show thesis using direct(4) remuxed(3) by (intro that [of ?remuxed ?remuxed]) (auto simp: remuxAllowed_def split: if_split_asm)
  qed
  let ?subtitled = "addSubtitleMode ''external'' transcoded"
  have subtitled: "foldResult subtitleStep [sub] transcoded = Inr ?subtitled"
    using subtitleStep_conservative [of sub transcoded] by (simp add: lists)
  have fields: "dev_CodecProfiles (pi_DeviceProfile input) = []" "dev_ContainerProfiles (pi_DeviceProfile input) = []"
    "dev_DirectPlayProfiles (pi_DeviceProfile input) = dev_DirectPlayProfiles ?p"
    "dev_TranscodingProfiles (pi_DeviceProfile input) = dev_TranscodingProfiles ?p"
    "dev_SubtitleProfiles (pi_DeviceProfile input) = [sub]" "validDeviceProfileBounds (pi_DeviceProfile input) = True"
    "codecProfileConstraints [] = Inr []" "containerProfileConstraints [] = Inr []"
    using conservative_bounds [OF maximum] by (simp_all add: profile lists codecProfileConstraints_def containerProfileConstraints_def)
  have run: "compatPlaybackCapabilities input = finishBuild input ?subtitled"
    unfolding compatPlaybackCapabilities_def Let_def fields direct(1) sum.case transcoded(1,2) subtitled by simp
  have "cap_MediaProfiles (cb_capabilities ?start) = []" by (simp add: startBuild_def zero_defs)
  with transcoded(3) have "cap_MediaProfiles (cb_capabilities ?subtitled) \<noteq> [] \<longleftrightarrow> \<not> allOff input"
    "\<not> allOff input \<Longrightarrow> cap_StreamingProtocols (cb_capabilities ?subtitled) \<noteq> []"
    by (auto simp: addSubtitleMode_def)
  with run show thesis by (rule that)
qed

text \<open>
  C40. A client always gets capabilities. A bounded request whose device profile, its own or the one the
  registry has for its session, is within the bounds is only refused when it asks for a bit rate below
  64000, or when it switches direct play, direct streams and transcoding all off: whatever else is wrong
  with the profile, the conservative profile takes its place.
\<close>

theorem effective_capabilities_refused:
  assumes "boundedPlaybackInfo input"
    and "validDeviceProfileBounds (if emptyDeviceProfile (pi_DeviceProfile input)
      then (case stored of None \<Rightarrow> conservativeCompatibilityProfile | Some p \<Rightarrow> p) else pi_DeviceProfile input)"
  shows "effectivePlaybackCapabilities stored input = Inl e \<longleftrightarrow>
    (if 0 < pi_MaxStreamingBitrate input \<and> pi_MaxStreamingBitrate input < 64000 then e = ErrInvalidQuery
     else pi_EnableDirectPlay input = Some False \<and> pi_EnableDirectStream input = Some False \<and> pi_EnableTranscoding input = Some False \<and>
       e = PlaybackError ErrClientCapabilityMissing)"
proof -
  let ?p = "if emptyDeviceProfile (pi_DeviceProfile input)
      then (case stored of None \<Rightarrow> conservativeCompatibilityProfile | Some p \<Rightarrow> p) else pi_DeviceProfile input"
  let ?asked = "input\<lparr>pi_DeviceProfile := ?p\<rparr>"
  let ?fallback = "input\<lparr>pi_DeviceProfile := conservativeCompatibilityProfile\<lparr>dev_MaxStreamingBitrate := dev_MaxStreamingBitrate ?p\<rparr>\<rparr>"
  have flags: "requestFlags ?fallback = requestFlags input" "requestFlags ?asked = requestFlags input" by (simp_all add: requestFlags_def)
  have off: "allOff input \<longleftrightarrow> pi_EnableDirectPlay input = Some False \<and> pi_EnableDirectStream input = Some False \<and>
      pi_EnableTranscoding input = Some False"
    by (auto simp: requestFlags_def playbackFlag_def split: option.splits)
  have maximum: "dev_MaxStreamingBitrate ?p = 0 \<or> 64000 \<le> dev_MaxStreamingBitrate ?p \<and> dev_MaxStreamingBitrate ?p \<le> maximumCompatClientBitrate"
    using assms(2) unfolding validDeviceProfileBounds_def by (auto simp only: not_less split: if_split_asm)
  have rate: "effectiveBitrate (pi_MaxStreamingBitrate input) (dev_MaxStreamingBitrate ?p) = Inl e \<longleftrightarrow>
      0 < pi_MaxStreamingBitrate input \<and> pi_MaxStreamingBitrate input < 64000 \<and> e = ErrInvalidQuery" for e
    using assms(1) by (intro effectiveBitrate_error [OF maximum]) (simp_all add: boundedPlaybackInfo_def)
  have asked: "(if emptyDeviceProfile (pi_DeviceProfile input)
      then input\<lparr>pi_DeviceProfile := (case stored of None \<Rightarrow> conservativeCompatibilityProfile | Some p \<Rightarrow> p)\<rparr> else input) = ?asked" by simp
  have effective: "effectivePlaybackCapabilities stored input =
      (if isl (compatPlaybackCapabilities ?asked) then compatPlaybackCapabilities ?fallback else compatPlaybackCapabilities ?asked)"
    using assms(2) unfolding effectivePlaybackCapabilities_def Let_def asked by (simp del: if_split)
  have "pi_DeviceProfile ?fallback = conservativeCompatibilityProfile\<lparr>dev_MaxStreamingBitrate := dev_MaxStreamingBitrate ?p\<rparr>" by simp
  note run = conservative_runs [OF this maximum, unfolded flags]
  obtain b where b: "compatPlaybackCapabilities ?fallback = finishBuild ?fallback b"
    "cap_MediaProfiles (cb_capabilities b) \<noteq> [] \<longleftrightarrow> \<not> allOff input" "\<not> allOff input \<Longrightarrow> cap_StreamingProtocols (cb_capabilities b) \<noteq> []"
    by (rule run, rule that)
  show ?thesis
  proof (cases "effectiveBitrate (pi_MaxStreamingBitrate input) (dev_MaxStreamingBitrate ?p)")
    case (Inl x)
    have "isl (compatPlaybackCapabilities ?asked)"
      using compat_bitrate [of ?asked] Inl by (cases "compatPlaybackCapabilities ?asked") auto
    then have "effectivePlaybackCapabilities stored input = Inl x"
      by (simp add: effective b(1) finishBuild_def Inl del: if_split)
    with Inl rate show ?thesis by auto
  next
    case (Inr bitrate)
    then have range: "\<not> (0 < pi_MaxStreamingBitrate input \<and> pi_MaxStreamingBitrate input < 64000)" using rate by auto
    have fallback: "compatPlaybackCapabilities ?fallback = Inl e \<longleftrightarrow> allOff input \<and> e = PlaybackError ErrClientCapabilityMissing"
      using b by (auto simp: finishBuild_def Inr Let_def)
    have "isl (compatPlaybackCapabilities ?asked)" if "allOff input" using allOff_refused [of ?asked] that flags(2) by simp
    then show ?thesis using range fallback off by (cases "compatPlaybackCapabilities ?asked") (auto simp: effective)
  qed
qed

text \<open>A profile the code refuses: the codec of its direct play profile is longer than 64 characters.\<close>

definition exampleRefused :: PlaybackInfoRequest where
  "exampleRefused = exampleInfoRequest\<lparr>pi_DeviceProfile := conservativeCompatibilityProfile\<lparr>dev_DirectPlayProfiles :=
     [\<lparr>dpp_Container = ''mp4'', dpp_AudioCodec = ''aac'', dpp_VideoCodec = replicate 65 CHR ''x'', dpp_Type = ''Video''\<rparr>]\<rparr>\<rparr>"

theorem effective_capabilities_refused_witness:
  "\<not> isl (effectivePlaybackCapabilities None exampleRefused) \<and> isl (compatPlaybackCapabilities exampleRefused)"
proof -
  have "boundedPlaybackInfo exampleRefused" by code_simp
  moreover have "validDeviceProfileBounds (pi_DeviceProfile exampleRefused)" "\<not> emptyDeviceProfile (pi_DeviceProfile exampleRefused)"
    by code_simp+
  moreover have "isl (compatPlaybackCapabilities exampleRefused)" by code_simp
  moreover have "\<not> (0 < pi_MaxStreamingBitrate exampleRefused \<and> pi_MaxStreamingBitrate exampleRefused < 64000)"
    "pi_EnableDirectPlay exampleRefused \<noteq> Some False"
    by (simp_all add: exampleRefused_def exampleInfoRequest_def)
  ultimately show ?thesis
    using effective_capabilities_refused [of exampleRefused None "projl (effectivePlaybackCapabilities None exampleRefused)"]
    by (cases "effectivePlaybackCapabilities None exampleRefused") auto
qed

end
