(* ===== verification/Spec2Isabelle.thy ===== *)
theory Spec2Isabelle
  imports Playback_Service Playback_Failover Admission Delivery_Links Play_Cleanup Jellyfin_Capabilities
begin

text \<open>
  Rivune is a self-hosted media server. Its Go server (\<open>src/server\<close>) asks remote addons for the streams
  of a film or an episode, decides how a client can play them, hands a source reference to the client,
  prepares the playback, delivers it directly or through a transcode, and moves on to another source
  when a playback fails. This library models the parts of the server that decide: the playback service
  (\<open>internal/playback\<close>), the guard of outgoing connections (\<open>internal/netguard\<close>), the admission of
  login requests (\<open>internal/httpapi/admission.go\<close>), and the part of the Jellyfin protocol
  (\<open>internal/jellyfin\<close>) that says what a client can play and closes what it no longer plays.

  How the parts work together. \<open>sources\<close> fetches the answers of the addons and makes sources and assets
  of them (\<open>normalizeStreams\<close>), which the source reference store keeps for their owner. \<open>resolve\<close> reads
  a reference, refreshes it (\<open>refreshSourceReference\<close>, which replaces or removes it in the store and
  evicts what was prepared for it), and prepares it through the preparation cache
  (\<open>buildPreparedPlayback\<close>), which probes the file through the probe cache, decides the playback
  (\<open>decidePlaybackSource\<close>, \<open>playbackMode\<close>) and gathers the subtitles; the preferences of the request are
  applied to the result (\<open>tracks.go\<close>). A delivery (\<open>delivery.go\<close>) hands the prepared session to the Jellyfin
  protocol without its URLs: a handle keeps the credentials, a table of the handle gives out short-lived
  identifiers for what a playlist refers to, and links carry these identifiers back. The Jellyfin protocol
  makes the capabilities that \<open>sources\<close> takes of the device profile of its client (\<open>playbackCapabilities\<close>),
  and its registry closes deliveries through a queue with retries (\<open>claimCleanup\<close>, \<open>finishCleanup\<close>).
  Failover records hold the candidates of a play session in PostgreSQL. Every connection to a remote address passes the outbound guard, and every login attempt the
  admission.

  The theories.
  \<^item> \<open>Go_Prelude\<close>: what the source uses of Go and its standard library, executable: 64-bit integers,
    \<open>float64\<close>, strings, \<open>strconv\<close>, stable sorting with the locale \<open>slice_order\<close> of its comparisons, and the
    locale \<open>transition_system\<close> of systems with an invariant.
  \<^item> \<open>Playback_Model\<close> (\<open>model.go\<close>, the clone functions of \<open>source_store.go\<close>): the records, one field per
    field of the struct, in its order and under its name with a prefix; the error values.
  \<^item> \<open>Playback_Compat\<close> and \<open>Playback_Decision\<close> (\<open>decision.go\<close>): codecs, containers, profiles and HDR formats,
    the target codec, the tone mapping, the decision and its reasons.
  \<^item> \<open>Playback_Select\<close> (\<open>decidePlaybackSource\<close>): candidates, ranking, plan selection; its lemmas equate the
    loop with the first plan of the highest rank.
  \<^item> \<open>Playback_Tracks\<close> (\<open>tracks.go\<close>): audio and subtitle preferences, burned subtitles.
  \<^item> \<open>Source_Store\<close> (\<open>source_store.go\<close>): the in-memory store with expiry, pins, capacities and revisions,
    its invariant \<open>storeOk\<close> over every interleaving of its methods.
  \<^item> \<open>Playback_Streams\<close> (\<open>service.go\<close>): sources and subtitles of addon answers, validation of requests,
    stable identities.
  \<^item> \<open>Playback_Preparation\<close> (\<open>preparation_cache.go\<close>) and \<open>Probe_Cache\<close> (\<open>probe_cache.go\<close>, \<open>headers.go\<close>): the two
    caches, each a record of its maps with the calls in flight on a heap, as the goroutines keep pointers
    to calls that left the map.
  \<^item> \<open>Playback_Service\<close>: the requests that compose the above, with the theorems that span them.
  \<^item> \<open>Playback_Failover\<close> (\<open>failover.go\<close> and its migration): the table with its constraints and statements.
  \<^item> \<open>Net_Address\<close> and \<open>Netguard\<close> (\<open>dial.go\<close>): the addresses of \<open>net/netip\<close>, their classification, NAT64,
    private origins, the dialers and the sanitized errors.
  \<^item> \<open>Admission\<close> (\<open>admission.go\<close>): rates, requests in flight, failed logins.
  \<^item> \<open>Go_Encoding\<close>: \<open>base64.RawURLEncoding\<close> with its round trip, SHA-256 and HMAC, executable on byte strings.
  \<^item> \<open>Delivery_Children\<close> (\<open>delivery.go\<close>): the tables of child capabilities and the budget they share. The
    locale \<open>counted_budget\<close> states what the tables rely on: giving back what was taken cannot fail.
  \<^item> \<open>Delivery_Links\<close> (\<open>delivery.go\<close>): the links of the children, the signed identifiers of seekable segments,
    the requests they serve, the handle of a session.
  \<^item> \<open>Play_Cleanup\<close> (\<open>jellyfin/registry.go\<close>): the close queue of the play session registry. Its items are on
    a heap, since a worker keeps the pointer of its item after the queue dropped it.
  \<^item> \<open>Jellyfin_Profiles\<close> (\<open>jellyfin/playback.go\<close>, \<open>models.go\<close>): device profiles and the capabilities made of
    them, one definition per loop body of \<open>playbackCapabilities\<close>, with the lemmas on single steps.
    \<open>Jellyfin_Capabilities\<close>: the theorems about whole requests.

  What the lemmas show. For each stateful part, an invariant of every reachable state (\<open>_step\<close> relations
  and the locale \<open>transition_system\<close> of the prelude). For each pure part, its outcome on every branch. For
  the selection loops, equality with a declarative specification. For the caches and stores, what a caller
  may rely on between calls: what is stored is found by its owner only and stays until it expires or a call
  that \<open>spares\<close> and \<open>sparesPrepared\<close> leave out takes it away, what is evicted is never served, a stale version never overwrites a newer one. For the deliveries, that the budget counts exactly the live
  children and never panics, and that a link leads to its child while the child lives. For the close queue,
  that every opened delivery is accounted for and every failed close is tried again. For the capabilities,
  that they are valid (but for lists that are too long), within the flags and limits of the client, and refused
  only for the named reasons. For the composition,
  that the permission to transcode, the limits of the client (but for direct passthrough, where the code checks
  none) and the correspondence of subtitles and assets survive from the reference to the session.

  Conventions. A method is a function from the state before to its result and the state after; a mutex
  makes it one step. A slice, a map or a pointer that a method changes in place is part of that result.
  A map whose iteration order could matter is an association list, and theorems quantify over its order.
  An error is a value of \<open>playback_error\<close>; \<open>fmt.Errorf\<close> keeps the wrapped error and loses the message. A
  clock is a function of the number of the reading or, in the delivery steps, any instant not before the
  last one, and likewise for the close queue; random identifiers, probes, resolvers, dialers, the
  answers of native closes and of addons and the outcome of a database transaction are arguments. Go integers are unbounded here
  except where the source relies on their width (revisions and generations are \<open>64 word\<close>, \<open>strconv\<close> and the
  conversions of \<open>float64\<close> respect the range); a \<open>float64\<close> is a rational number, an infinity or a NaN, so
  rounding is not modelled.

  Fuel. The loops that make room in a cache (\<open>makeRoomLoop\<close>, \<open>probeRoomLoop\<close>) run at most once per entry,
  which is the fuel they get; lemmas show that they end with room. The cleanup loop of the failover table
  has a termination proof.

  Assumptions. Case folding is that of ASCII. Generations of the probe cache do not wrap around. The
  documented behaviour of \<open>net/url.Parse\<close>, of the JSON decoder and, for identities and cache keys, of SHA-256
  is not used: they are arbitrary functions. Nothing is assumed of the strength of HMAC.

  Not modelled. The transcoding pipeline (\<open>hls.go\<close>, \<open>ffmpeg.go\<close>) and the streaming proxy, whose behaviour is
  that of processes and sockets; the rows of \<open>playback_sessions\<close> and the tokens (\<open>createSession\<close>, \<open>Stop\<close>); the HTTP handlers
  around the delivery links (\<open>Serve\<close>, \<open>ServeAsset\<close>, \<open>Close\<close>);
  the waiting parts of \<open>Prepare\<close> and \<open>resolve\<close> around HLS jobs; and the services that are SQL statements or
  clients of remote services (authentication, profiles, metadata, artwork, watch state, collections,
  calendar, settings, tracking) or shape responses (the handlers and sessions of the Jellyfin protocol).
  The manifest lists each of them.
\<close>

end
